(* ===== verification/Prelude.thy ===== *)
theory Prelude
  imports Main "HOL-Library.Word"
begin

unbundle bit_operations_syntax

text \<open>
  Shared vocabulary of the development: bytes and byte streams as the TypeScript code reads
  them (\<open>Uint8Array\<close>, \<open>slice\<close>, three-byte reads), exceptions as values of a sum type, and
  the arithmetic and list facts the components share. A JavaScript number that is only ever a
  non-negative integer below \<open>2 ^ 53\<close> is a \<^typ>\<open>nat\<close>; the bitwise operators of the source
  are the library's \<open>AND\<close>, \<open>OR\<close>, \<open>push_bit\<close> and \<open>drop_bit\<close> on it.
\<close>

subsection \<open>Names\<close>

type_synonym byte = "8 word"
type_synonym bytes = "byte list"
type_synonym offset = nat

named_theorems consts_def \<open>constants of the source, unfolded by name\<close>
named_theorems aligned \<open>encodings whose length is a multiple of three\<close>
named_theorems enc_dec \<open>a decoder applied to the matching encoding\<close>

subsection \<open>Exceptions as values\<close>

text \<open>
  A function that may throw returns \<open>'e + 'a\<close>: \<open>Inl\<close> is the exception. \<open>bindE\<close> runs the rest
  of the body only when no exception was raised; \<open>throwIf\<close> is the guard
  \<open>if (c) throw e\<close> and \<open>orThrow\<close> is \<open>if (x === undefined) throw e\<close>.
\<close>

fun bindE :: "'e + 'a \<Rightarrow> ('a \<Rightarrow> 'e + 'b) \<Rightarrow> 'e + 'b" where
  "bindE (Inl e) f = Inl e"
| "bindE (Inr x) f = f x"

fun throwIf :: "bool \<Rightarrow> 'e \<Rightarrow> 'e + 'b \<Rightarrow> 'e + 'b" where
  "throwIf c e k = (if c then Inl e else k)"

fun orThrow :: "'a option \<Rightarrow> 'e \<Rightarrow> 'e + 'a" where
  "orThrow None e = Inl e"
| "orThrow (Some x) e = Inr x"

fun returns :: "'e + 'a \<Rightarrow> bool" where
  "returns (Inl e) = False"
| "returns (Inr x) = True"

lemma bindE_Inr: "bindE m f = Inr y \<longleftrightarrow> (\<exists>x. m = Inr x \<and> f x = Inr y)"
  by (cases m) auto

lemma bindE_Inl: "bindE m f = Inl e \<longleftrightarrow> m = Inl e \<or> (\<exists>x. m = Inr x \<and> f x = Inl e)"
  by (cases m) auto

lemma orThrow_Inr [simp]: "orThrow m e = Inr x \<longleftrightarrow> m = Some x"
  by (cases m) auto

lemma throwIf_Inr: "throwIf c e k = Inr x \<longleftrightarrow> \<not> c \<and> k = Inr x"
  by simp

lemma returns_iff: "returns m \<longleftrightarrow> (\<exists>x. m = Inr x)"
  by (cases m) auto

text \<open>A result seen as an option, the exception forgotten.\<close>

fun toOption :: "'e + 'a \<Rightarrow> 'a option" where
  "toOption (Inl e) = None"
| "toOption (Inr x) = Some x"

lemma toOption_Some [simp]: "toOption m = Some x \<longleftrightarrow> m = Inr x"
  by (cases m) auto

lemmas exn_simps = bindE_Inr throwIf_Inr orThrow_Inr

subsection \<open>Numbers in messages\<close>

text \<open>A non-negative integer as a template literal prints it.\<close>

fun natString :: "nat \<Rightarrow> string" where
  "natString n = (if n < 10 then [char_of (48 + n)] else natString (n div 10) @ [char_of (48 + n mod 10)])"

declare natString.simps [simp del]

lemma natString_digit: "n < 10 \<Longrightarrow> natString n = [char_of (48 + n)]"
  by (simp add: natString.simps)

lemma natString_not_empty: "natString n \<noteq> []"
  by (cases "n < 10") (simp_all add: natString.simps [of n])

lemma natString_long: "10 \<le> n \<Longrightarrow> 2 \<le> length (natString n)"
  using natString_not_empty [of "n div 10"] by (simp add: natString.simps [of n] Suc_le_eq)

subsection \<open>Byte streams\<close>

text \<open>\<open>stream.slice(a, b)\<close>: empty when \<open>b \<le> a\<close>, cut at the end of the stream.\<close>

definition slice :: "'a list \<Rightarrow> nat \<Rightarrow> nat \<Rightarrow> 'a list" where
  "slice s a b = take (b - a) (drop a s)"

lemma slice_at:
  assumes "drop p s = xs @ rest"
  shows "slice s p (p + length xs) = xs"
  using assms by (simp add: slice_def)

lemma slice_at_end:
  assumes "drop p s = xs @ rest" and "e = p + length xs"
  shows "slice s p e = xs"
  using assms by (simp add: slice_def)

lemma length_slice: "b \<le> length s \<Longrightarrow> length (slice s a b) = b - a"
  by (simp add: slice_def)

text \<open>
  \<open>drop p s = xs @ rest\<close> reads "the stream holds \<open>xs\<close> at offset \<open>p\<close>". The three facts below move
  such a statement past what has been read.
\<close>

lemma drop_past:
  assumes "drop p s = xs @ rest"
  shows "drop (p + length xs) s = rest"
proof -
  have "drop (length xs) (drop p s) = rest" using assms by simp
  then show ?thesis by (simp add: add.commute)
qed

lemma drop_past_len:
  assumes "drop p s = xs @ rest" and "n = length xs"
  shows "drop (p + n) s = rest"
  using drop_past [OF assms(1)] assms(2) by simp

lemma drop_room:
  assumes "drop p s = xs @ rest" and "xs \<noteq> []"
  shows "p + length xs \<le> length s"
proof -
  have "length s - p = length xs + length rest"
    using arg_cong [OF assms(1), of length] by simp
  moreover have "0 < length xs" using assms(2) by simp
  ultimately show ?thesis by arith
qed

lemma drop_nth:
  assumes "drop p s = xs @ rest" and "i < length xs"
  shows "s ! (p + i) = xs ! i"
proof -
  have "p + length xs \<le> length s" using assms by (intro drop_room) auto
  then have "s ! (p + i) = drop p s ! i" by (simp add: nth_drop)
  with assms show ?thesis by (simp add: nth_append)
qed

lemma drop_length_pre: "drop (length pre) (pre @ xs) = xs"
  by simp

subsection \<open>Bitwise operators on non-negative numbers\<close>

lemma or_disjoint_add:
  fixes x y :: nat
  assumes "y < 2 ^ n"
  shows "push_bit n x OR y = x * 2 ^ n + y"
proof -
  have t: "take_bit n y = y"
    using assms by (simp add: take_bit_eq_mod)
  have "push_bit n x AND take_bit n y = 0"
    by (rule bit_eqI) (auto simp: bit_and_iff bit_push_bit_iff bit_take_bit_iff)
  then have "push_bit n x OR y = push_bit n x + y"
    using t by (simp add: disjunctive_add_eq_or)
  then show ?thesis by (simp add: push_bit_eq_mult)
qed

lemma and_255: "(w::nat) AND 255 = w mod 256"
proof -
  have "w AND 255 = w AND mask 8" by (simp add: mask_eq_exp_minus_1)
  also have "\<dots> = w mod 256" by (simp only: take_bit_eq_mask [symmetric] take_bit_eq_mod) simp
  finally show ?thesis .
qed

lemma unat_byte_of_nat: "unat (word_of_nat n :: byte) = n mod 256"
  by (simp add: unat_of_nat)

lemma unat_byte_lt: "unat (b :: byte) < 256"
  using unsigned_less [of b] by simp

lemma join3: "push_bit 16 (unat (a::byte)) OR (push_bit 8 (unat (b::byte)) OR unat (c::byte)) =
    unat a * 65536 + unat b * 256 + unat c"
proof -
  have bc: "push_bit 8 (unat b) OR unat c = unat b * 256 + unat c"
    using or_disjoint_add [of "unat c" 8 "unat b"] unat_byte_lt [of c] by simp
  have "unat b * 256 + unat c < 2 ^ 16"
    using unat_byte_lt [of b] unat_byte_lt [of c] by simp
  from or_disjoint_add [OF this, of "unat a"] show ?thesis
    by (simp add: bc)
qed

lemma split3: "(w::nat) < 2 ^ 24 \<Longrightarrow>
    (w div 65536 mod 256) * 65536 + (w div 256 mod 256) * 256 + w mod 256 = w"
proof -
  assume "w < 2 ^ 24"
  then have a: "w div 65536 < 256" by simp
  have b: "w div 256 = (w div 65536) * 256 + w div 256 mod 256"
    using div_mult_mod_eq [of "w div 256" 256] by (simp add: div_mult2_eq [symmetric])
  have c: "w = (w div 256) * 256 + w mod 256" by simp
  have "w = ((w div 65536) * 256 + w div 256 mod 256) * 256 + w mod 256"
    using c unfolding b [symmetric] .
  with a show ?thesis by simp
qed

end
