(* ===== verification/Codec.thy ===== *)
theory Codec
  imports Prelude
begin

text \<open>
  The interface every wire field of the TSP packages provides to the layouts built from it. A
  field has an encoder, a decoder that reads at an offset of a stream and returns the value with
  the offset just past it, and the domain of values the encoder represents. Two laws: a decoder
  standing on an encoding returns the value and steps over exactly those bytes, and a decoder
  that succeeds has moved forward and is still inside the stream. From these follow that
  encodings are prefix-free, that a sequence of fields is determined by its bytes and that
  consecutive fields are read back one after the other. The interpretations are in the theories
  of the fields (\<open>Cesr_Wire\<close>, \<open>Tsp_Fields\<close>, \<open>Tsp_Control\<close>).
\<close>

locale wire_codec =
  fixes enc :: "'a \<Rightarrow> bytes"
    and dec :: "bytes \<Rightarrow> offset \<Rightarrow> ('a \<times> offset) option"
    and ok :: "'a \<Rightarrow> bool"
  assumes dec_enc: "ok v \<Longrightarrow> drop p s = enc v @ rest \<Longrightarrow> dec s p = Some (v, p + length (enc v))"
    and dec_inside: "dec s p = Some (v, p') \<Longrightarrow> p < p' \<and> p' \<le> length s"
begin

lemma dec_pre: "ok v \<Longrightarrow> dec (pre @ enc v @ rest) (length pre) = Some (v, length pre + length (enc v))"
  by (rule dec_enc) auto

lemma dec_step:
  assumes "ok v" and "drop p s = enc v @ rest"
  shows "dec s p = Some (v, p + length (enc v)) \<and> drop (p + length (enc v)) s = rest"
  using dec_enc [OF assms] drop_past [OF assms(2)] by simp

lemma enc_not_empty: "ok v \<Longrightarrow> enc v \<noteq> []"
proof
  assume "ok v" and e: "enc v = []"
  from dec_enc [OF \<open>ok v\<close>, of 0 "[]" "[]"] e have "dec [] 0 = Some (v, 0)" by simp
  from dec_inside [OF this] show False by simp
qed

lemma prefix_free:
  assumes "ok v" and "ok w" and eq: "enc v @ r = enc w @ r'"
  shows "v = w \<and> r = r'"
proof -
  have "dec (enc v @ r) 0 = Some (v, length (enc v))"
    using dec_enc [OF assms(1), of 0 "enc v @ r" r] by simp
  moreover have "dec (enc v @ r) 0 = Some (w, length (enc w))"
    using dec_enc [OF assms(2), of 0 "enc w @ r'" r'] eq by simp
  ultimately have "v = w" by simp
  with eq show ?thesis by simp
qed

lemma enc_inj: "ok v \<Longrightarrow> ok w \<Longrightarrow> enc v = enc w \<Longrightarrow> v = w"
  using prefix_free [of v w "[]" "[]"] by simp

lemma concat_inj:
  "list_all ok vs \<Longrightarrow> list_all ok ws \<Longrightarrow> concat (map enc vs) = concat (map enc ws) \<Longrightarrow> vs = ws"
proof (induction vs arbitrary: ws)
  case Nil
  then show ?case
    by (cases ws) (auto dest: enc_not_empty)
next
  case (Cons v vs)
  show ?case
  proof (cases ws)
    case Nil
    with Cons.prems show ?thesis by (auto dest: enc_not_empty)
  next
    case (Cons w ws')
    with Cons.prems have "v = w \<and> concat (map enc vs) = concat (map enc ws')"
      by (intro prefix_free) auto
    with Cons Cons.IH Cons.prems show ?thesis by auto
  qed
qed

end

text \<open>Fields whose encodings keep the stream aligned to quadlets (three bytes).\<close>

locale aligned_codec = wire_codec +
  assumes enc_aligned: "ok v \<Longrightarrow> 3 dvd length (enc v)"
begin

lemma concat_aligned: "list_all ok vs \<Longrightarrow> 3 dvd length (concat (map enc vs))"
  by (induction vs) (auto simp: enc_aligned)

lemma enc_aligned_mod: "ok v \<Longrightarrow> length (enc v) mod 3 = 0"
  using enc_aligned by (simp add: dvd_eq_mod_eq_0)

end

end
