(* ===== verification/Cesr_Wire.thy ===== *)
theory Cesr_Wire
  imports Codec
begin

text \<open>
  The binary CESR primitives of \<open>packages/tsp-js/src/cesr/wire.ts\<close>: header words, the three frame
  kinds (fixed data, variable data, count codes), the version marker and the indexed signature,
  each with its encoder and its decoder. Encoders append to an array in the source and return the
  appended bytes here; decoders take the cursor position and return it advanced. The header words
  are numbers below \<open>2 ^ 24\<close>, so 32-bit JavaScript bitwise arithmetic on them is exact.
\<close>

subsection \<open>Selectors and limits\<close>

definition D0 :: nat where "D0 = 52"
definition D1 :: nat where "D1 = D0 + 1"
definition D4 :: nat where "D4 = D0 + 4"
definition D5 :: nat where "D5 = D0 + 5"
definition D6 :: nat where "D6 = D0 + 6"
definition D7 :: nat where "D7 = D0 + 7"
definition D8 :: nat where "D8 = D0 + 8"
definition D9 :: nat where "D9 = D0 + 9"
definition DASH :: nat where "DASH = 62"

definition MAX_FIELD_SIZE :: nat where "MAX_FIELD_SIZE = 3 * push_bit 24 1"

definition MAX_HOPS :: nat where "MAX_HOPS = 64"

definition TSP_VERSION_major :: nat where "TSP_VERSION_major = 1"
definition TSP_VERSION_minor :: nat where "TSP_VERSION_minor = 0"

lemmas selectors = D0_def D1_def D4_def D5_def D6_def D7_def D8_def D9_def DASH_def

lemma MAX_FIELD_SIZE_eq: "MAX_FIELD_SIZE = 50331648"
  by (simp add: MAX_FIELD_SIZE_def push_bit_eq_mult)

subsection \<open>Codes\<close>

text \<open>
  \<open>cesrInt\<close> reads a short base64url code as a big-endian integer of six-bit symbols. The
  accumulator is a 32-bit integer in the source (\<open>(acc << 6) | v\<close>, then \<open>>>> 0\<close>).
\<close>

definition cesrSymbol :: "nat \<Rightarrow> nat" where
  "cesrSymbol ch =
     (if 0x41 \<le> ch \<and> ch \<le> 0x5a then ch - 0x41
      else if 0x61 \<le> ch \<and> ch \<le> 0x7a then ch - 0x61 + 26
      else if 0x30 \<le> ch \<and> ch \<le> 0x39 then ch - 0x30 + 52
      else if ch = 0x2d then 62
      else if ch = 0x5f then 63
      else 0)"

fun cesrFold :: "32 word \<Rightarrow> string \<Rightarrow> 32 word" where
  "cesrFold acc [] = acc"
| "cesrFold acc (c # cs) = cesrFold (push_bit 6 acc OR word_of_nat (cesrSymbol (of_char c))) cs"

definition cesrInt :: "string \<Rightarrow> nat" where
  "cesrInt s = unat (cesrFold 0 s)"

subsection \<open>Header words\<close>

definition nextMul3 :: "nat \<Rightarrow> nat" where
  "nextMul3 n = n + (3 - n mod 3) mod 3"

lemma nextMul3_ge: "n \<le> nextMul3 n"
  by (simp add: nextMul3_def)

lemma nextMul3_lt: "nextMul3 n < n + 3"
  by (simp add: nextMul3_def)

lemma nextMul3_dvd [simp]: "3 dvd nextMul3 n"
proof -
  have "(n + (3 - n mod 3) mod 3) mod 3 = (n mod 3 + (3 - n mod 3) mod 3) mod 3"
    by (simp only: mod_add_left_eq)
  moreover have "n mod 3 = 0 \<or> n mod 3 = 1 \<or> n mod 3 = 2" by arith
  ultimately have "(n + (3 - n mod 3) mod 3) mod 3 = 0" by auto
  then show ?thesis by (simp only: nextMul3_def dvd_eq_mod_eq_0)
qed

lemma nextMul3_mod [simp]: "nextMul3 n mod 3 = 0"
  using nextMul3_dvd [of n] by (simp add: dvd_eq_mod_eq_0)

lemma nextMul3_lead: "nextMul3 n - n < 3"
  using nextMul3_lt [of n] nextMul3_ge [of n] by arith

lemma nextMul3_eq: "3 * (nextMul3 n div 3) = nextMul3 n"
  by simp

text \<open>\<open>bits(value, n)\<close> of the source, with its mask \<open>(1 << n) - 1\<close>.\<close>

definition bitsMask :: "nat \<Rightarrow> nat" where
  "bitsMask n = push_bit n 1 - 1"

definition bits :: "nat \<Rightarrow> nat \<Rightarrow> nat" where
  "bits v n = v AND bitsMask n"

lemma bitsMask_eq: "bitsMask n = mask n"
  by (simp add: bitsMask_def mask_eq_exp_minus_1 push_bit_eq_mult)

lemma bits_mod: "bits v n = v mod 2 ^ n"
  by (simp add: bits_def bitsMask_eq take_bit_eq_mask [symmetric] take_bit_eq_mod)

lemma bits_id: "v < 2 ^ n \<Longrightarrow> bits v n = v"
  by (simp add: bits_mod)

text \<open>The three big-endian bytes of a 24-bit header word, and reading them back.\<close>

definition beBytes :: "nat \<Rightarrow> bytes" where
  "beBytes w = [word_of_nat (drop_bit 16 w AND 255), word_of_nat (drop_bit 8 w AND 255),
                word_of_nat (w AND 255)]"

definition triplet :: "bytes \<Rightarrow> offset \<Rightarrow> nat option" where
  "triplet s i =
     (if i + 3 > length s then None
      else Some (push_bit 16 (unat (s ! i)) OR (push_bit 8 (unat (s ! (i + 1))) OR unat (s ! (i + 2)))))"

lemma length_beBytes [simp]: "length (beBytes w) = 3"
  by (simp add: beBytes_def)

lemma triplet_beBytes [enc_dec]:
  assumes "drop p s = beBytes w @ rest" and "w < 2 ^ 24"
  shows "triplet s p = Some w"
proof -
  have room: "p + 3 \<le> length s"
    using drop_room [OF assms(1)] by (simp add: beBytes_def)
  have n: "s ! (p + i) = beBytes w ! i" if "i < 3" for i
    using drop_nth [OF assms(1), of i] that by simp
  have b: "unat (s ! p) = w div 65536 mod 256" "unat (s ! (p + 1)) = w div 256 mod 256"
      "unat (s ! (p + 2)) = w mod 256"
    using n [of 0] n [of 1] n [of 2]
    by (simp_all add: beBytes_def unat_byte_of_nat and_255 drop_bit_eq_div)
  have "triplet s p = Some (unat (s ! p) * 65536 + unat (s ! (p + 1)) * 256 + unat (s ! (p + 2)))"
    using room by (simp only: triplet_def join3) simp
  then show ?thesis
    using split3 [OF assms(2)] by (simp only: b)
qed

lemma triplet_Some_bound: "triplet s p = Some w \<Longrightarrow> p + 3 \<le> length s \<and> w < 2 ^ 24"
proof -
  assume a: "triplet s p = Some w"
  then have len: "p + 3 \<le> length s" by (auto simp: triplet_def split: if_splits)
  from a len have "w = unat (s ! p) * 65536 + unat (s ! (p + 1)) * 256 + unat (s ! (p + 2))"
    by (simp add: triplet_def join3 split: if_splits)
  with unat_byte_lt [of "s ! p"] unat_byte_lt [of "s ! (p + 1)"] unat_byte_lt [of "s ! (p + 2)"] len
  show ?thesis by simp
qed

definition cesrData3 :: "string \<Rightarrow> bytes" where
  "cesrData3 s = beBytes (cesrInt s)"

definition TSP_PLAINTEXT :: nat where "TSP_PLAINTEXT = cesrInt ''B''"
definition TSP_VID :: nat where "TSP_VID = cesrInt ''B''"
definition ED25519_SIGNATURE :: nat where "ED25519_SIGNATURE = cesrInt ''B''"
definition TSP_HPKE_BASE_CIPHERTEXT :: nat where "TSP_HPKE_BASE_CIPHERTEXT = cesrInt ''F''"
definition TSP_SEALED_BOX_CIPHERTEXT :: nat where "TSP_SEALED_BOX_CIPHERTEXT = cesrInt ''C''"
definition TSP_NONCE :: nat where "TSP_NONCE = cesrInt ''A''"
definition TSP_SHA256 :: nat where "TSP_SHA256 = cesrInt ''I''"
definition TSP_ETS_WRAPPER :: nat where "TSP_ETS_WRAPPER = cesrInt ''E''"
definition TSP_PAYLOAD :: nat where "TSP_PAYLOAD = cesrInt ''Z''"
definition TSP_HOP_LIST :: nat where "TSP_HOP_LIST = cesrInt ''J''"
definition TSP_GENERIC_STREAM :: nat where "TSP_GENERIC_STREAM = cesrInt ''A''"
definition TSP_ATTACH_GRP :: nat where "TSP_ATTACH_GRP = cesrInt ''C''"
definition TSP_INDEX_SIG_GRP :: nat where "TSP_INDEX_SIG_GRP = cesrInt ''K''"

definition XSCS :: bytes where "XSCS = cesrData3 ''XSCS''"
definition XHOP :: bytes where "XHOP = cesrData3 ''XHOP''"
definition XRFI :: bytes where "XRFI = cesrData3 ''XRFI''"
definition XRFA :: bytes where "XRFA = cesrData3 ''XRFA''"
definition XRFD :: bytes where "XRFD = cesrData3 ''XRFD''"
definition XCTL :: bytes where "XCTL = cesrData3 ''XCTL''"
definition XPAD :: bytes where "XPAD = cesrData3 ''XPAD''"
definition YTSP :: bytes where "YTSP = cesrData3 ''YTSP''"

definition TSP_INFO :: bytes where
  "TSP_INFO = map (\<lambda>c. word_of_nat (of_char c)) ''YTSP-''"

definition TSP_MAGIC_BYTE :: byte where "TSP_MAGIC_BYTE = 0xf8"
definition TSP_MAGIC_BYTE_LONG :: byte where "TSP_MAGIC_BYTE_LONG = 0xfb"

text \<open>The codes as numbers and the markers as bytes.\<close>

lemma cesrInt_codes [consts_def]:
  "TSP_PLAINTEXT = 1" "TSP_VID = 1" "ED25519_SIGNATURE = 1" "TSP_HPKE_BASE_CIPHERTEXT = 5"
  "TSP_SEALED_BOX_CIPHERTEXT = 2" "TSP_NONCE = 0" "TSP_SHA256 = 8" "TSP_ETS_WRAPPER = 4"
  "TSP_PAYLOAD = 25" "TSP_HOP_LIST = 9" "TSP_GENERIC_STREAM = 0" "TSP_ATTACH_GRP = 2"
  "TSP_INDEX_SIG_GRP = 10"
  by (simp_all add: TSP_PLAINTEXT_def TSP_VID_def ED25519_SIGNATURE_def
      TSP_HPKE_BASE_CIPHERTEXT_def TSP_SEALED_BOX_CIPHERTEXT_def TSP_NONCE_def TSP_SHA256_def
      TSP_ETS_WRAPPER_def TSP_PAYLOAD_def TSP_HOP_LIST_def TSP_GENERIC_STREAM_def
      TSP_ATTACH_GRP_def TSP_INDEX_SIG_GRP_def cesrInt_def cesrSymbol_def of_char_def)

lemma marker_bytes [consts_def]:
  "XSCS = [0x5d, 0x20, 0x92]" "XHOP = [0x5c, 0x73, 0x8f]" "XRFI = [0x5d, 0x11, 0x48]"
  "XRFA = [0x5d, 0x11, 0x40]" "XRFD = [0x5d, 0x11, 0x43]" "XCTL = [0x5c, 0x24, 0xcb]"
  "XPAD = [0x5c, 0xf0, 0x03]" "YTSP = [0x61, 0x34, 0x8f]"
  by (simp_all add: XSCS_def XHOP_def XRFI_def XRFA_def XRFD_def XCTL_def XPAD_def YTSP_def
      cesrData3_def beBytes_def cesrInt_def cesrSymbol_def of_char_def drop_bit_eq_div)

subsection \<open>Ingress classification\<close>

definition isTsp :: "bytes \<Rightarrow> bool" where
  "isTsp bs = (case bs of [] \<Rightarrow> False
     | first # _ \<Rightarrow> first = TSP_MAGIC_BYTE \<or> first = TSP_MAGIC_BYTE_LONG)"

subsection \<open>Encoders\<close>

definition fixedHeader :: "nat \<Rightarrow> nat \<Rightarrow> nat" where
  "fixedHeader identifier hdr =
     (if hdr = 1 then push_bit 18 (bits identifier 6)
      else if hdr = 2 then push_bit 18 D0 OR push_bit 12 (bits identifier 6)
      else push_bit 18 D1 OR bits identifier 18)"

definition encodeFixedData :: "nat \<Rightarrow> bytes \<Rightarrow> bytes" where
  "encodeFixedData identifier payload =
     (let total = nextMul3 (length payload + 1);
          hdr = total - length payload;
          word = fixedHeader identifier hdr
      in take hdr (beBytes word) @ payload)"

definition encodeVariableData :: "nat \<Rightarrow> bytes \<Rightarrow> bytes" where
  "encodeVariableData identifier payload =
     (let padded = nextMul3 (length payload);
          lead = padded - length payload;
          selector = D4 + lead;
          size = padded div 3
      in (if size < 64 * 64 \<and> identifier < 64
          then beBytes (push_bit 18 (bits selector 6) OR (push_bit 12 (bits identifier 6) OR bits size 12))
          else beBytes (push_bit 18 (bits (selector + 3) 6) OR bits identifier 18)
               @ beBytes (bits size 24))
         @ replicate lead 0 @ payload)"

definition encodeCount :: "nat \<Rightarrow> nat \<Rightarrow> bytes" where
  "encodeCount identifier count =
     (if count < 4096
      then beBytes (push_bit 18 DASH OR (push_bit 12 (bits identifier 6) OR bits count 12))
      else beBytes (push_bit 18 DASH OR (push_bit 12 DASH OR
                     (push_bit 6 (bits identifier 6) OR bits (drop_bit 24 count) 6)))
           @ beBytes (bits count 24))"

definition encodeVersion :: bytes where
  "encodeVersion = YTSP @ encodeCount TSP_VERSION_major TSP_VERSION_minor"

definition encodeIndexedEd25519Signature :: "nat \<Rightarrow> bytes \<Rightarrow> bytes" where
  "encodeIndexedEd25519Signature index signature =
     (let hb = beBytes (push_bit 18 (bits ED25519_SIGNATURE 6) OR push_bit 12 (bits index 6))
      in [hb ! 0, hb ! 1] @ signature)"

subsection \<open>Decoders\<close>

definition decodeCount :: "nat \<Rightarrow> bytes \<Rightarrow> offset \<Rightarrow> (nat \<times> offset) option" where
  "decodeCount identifier s pos =
     (case triplet s pos of None \<Rightarrow> None | Some word \<Rightarrow>
        let index = word AND bitsMask 12;
            expected = push_bit 18 DASH OR (push_bit 12 (bits identifier 6) OR bits index 12);
            expectedLong = push_bit 18 DASH OR (push_bit 12 DASH OR
                             (push_bit 6 (bits identifier 6) OR bits (index AND 0x3f) 6))
        in if word = expected then Some (index, pos + 3)
           else if word = expectedLong then
             (case triplet s (pos + 3) of None \<Rightarrow> None
              | Some nxt \<Rightarrow> Some (push_bit 24 (index AND 0x3f) OR nxt, pos + 6))
           else None)"

definition decodeFixedData :: "nat \<Rightarrow> nat \<Rightarrow> bytes \<Rightarrow> offset \<Rightarrow> (bytes \<times> offset) option" where
  "decodeFixedData identifier n s pos =
     (let total = nextMul3 (n + 1);
          hdr = total - n
      in if hdr \<notin> {1, 2, 3} then None
         else if pos + total > length s then None
         else if \<not> list_all (\<lambda>i. s ! (pos + i) = beBytes (fixedHeader identifier hdr) ! i) [0..<hdr]
           then None
         else Some (slice s (pos + hdr) (pos + total), pos + total))"

definition decodeVariableDataRange ::
    "nat \<Rightarrow> bytes \<Rightarrow> offset \<Rightarrow> ((offset \<times> offset) \<times> offset) option" where
  "decodeVariableDataRange identifier s pos =
     (case triplet s pos of None \<Rightarrow> None | Some head \<Rightarrow>
        let selector = drop_bit 18 head
        in case (if selector = D4 \<or> selector = D5 \<or> selector = D6
                 then Some (drop_bit 12 head AND bitsMask 6, head AND bitsMask 12)
                 else if selector = D7 \<or> selector = D8 \<or> selector = D9
                 then (case triplet s (pos + 3) of None \<Rightarrow> None
                       | Some s2 \<Rightarrow> Some (head AND bitsMask 18, s2))
                 else None)
           of None \<Rightarrow> None
            | Some (foundId, sz) \<Rightarrow>
                if foundId \<noteq> identifier then None
                else if sz * 3 > MAX_FIELD_SIZE then None
                else let off = selector - D4;
                         dataBegin = off + 3;
                         dataEnd = nextMul3 (off + 1) + 3 * sz
                     in if pos + dataEnd > length s then None
                        else Some ((dataBegin + pos, dataEnd + pos), dataEnd + pos))"

definition decodeVariableData :: "nat \<Rightarrow> bytes \<Rightarrow> offset \<Rightarrow> (bytes \<times> offset) option" where
  "decodeVariableData identifier s pos =
     (case decodeVariableDataRange identifier s pos of None \<Rightarrow> None
      | Some ((begin_, end_), pos') \<Rightarrow> Some (slice s begin_ end_, pos'))"

definition readVersion :: "bytes \<Rightarrow> offset \<Rightarrow> ((nat \<times> nat) \<times> offset) option" where
  "readVersion s pos =
     (if pos + length YTSP > length s then None
      else if \<not> list_all (\<lambda>i. s ! (pos + i) = YTSP ! i) [0..<length YTSP] then None
      else case triplet s (pos + length YTSP) of None \<Rightarrow> None
        | Some word \<Rightarrow>
            if drop_bit 18 word \<noteq> DASH then None
            else Some ((drop_bit 12 word AND bitsMask 6, word AND bitsMask 12),
                       pos + (length YTSP + 3)))"

subsection \<open>Header arithmetic\<close>

text \<open>The header words as sums of disjoint fields, and the fields back by division.\<close>

lemma and_bitsMask: "w AND bitsMask n = w mod 2 ^ n"
  using bits_mod [of w n] by (simp add: bits_def)

lemma and_3f: "(w::nat) AND 0x3f = w mod 64"
proof -
  have "w AND 0x3f = w AND bitsMask 6" by (simp add: bitsMask_def push_bit_eq_mult)
  then show ?thesis by (simp add: and_bitsMask)
qed

lemma or2: "(b::nat) < 2 ^ 12 \<Longrightarrow> push_bit 12 a OR b = a * 4096 + b"
  using or_disjoint_add [of b 12 a] by simp

lemma or18: "(b::nat) < 2 ^ 18 \<Longrightarrow> push_bit 18 a OR b = a * 262144 + b"
  using or_disjoint_add [of b 18 a] by simp

lemma or6: "(b::nat) < 2 ^ 6 \<Longrightarrow> push_bit 6 a OR b = a * 64 + b"
  using or_disjoint_add [of b 6 a] by simp

lemma or24: "(b::nat) < 2 ^ 24 \<Longrightarrow> push_bit 24 a OR b = a * 16777216 + b"
  using or_disjoint_add [of b 24 a] by simp

text \<open>A short header: selector, six-bit identifier, twelve-bit size or count.\<close>

lemma short_header:
  "push_bit 18 a OR (push_bit 12 (bits b 6) OR bits c 12) = a * 262144 + (b mod 64) * 4096 + c mod 4096"
proof -
  have "push_bit 12 (bits b 6) OR bits c 12 = (b mod 64) * 4096 + c mod 4096"
    by (simp add: or2 bits_mod)
  moreover have "(b mod 64) * 4096 + c mod 4096 < 262144"
    using mod_less_divisor [of 64 b] mod_less_divisor [of 4096 c] by linarith
  ultimately show ?thesis by (simp add: or18)
qed

lemma short_count:
  "push_bit 18 DASH OR (push_bit 12 (bits b 6) OR bits c 12) =
   62 * 262144 + (b mod 64) * 4096 + c mod 4096"
  by (simp only: short_header DASH_def)

text \<open>A long count header: two dashes, the identifier, the six high bits of the count.\<close>

lemma long_header:
  "push_bit 18 DASH OR (push_bit 12 DASH OR (push_bit 6 (bits b 6) OR bits c 6)) =
   62 * 262144 + 62 * 4096 + (b mod 64) * 64 + c mod 64"
proof -
  have i: "push_bit 6 (bits b 6) OR bits c 6 = (b mod 64) * 64 + c mod 64"
    by (simp add: or6 bits_mod)
  have lt: "(b mod 64) * 64 + c mod 64 < 4096"
    using mod_less_divisor [of 64 b] mod_less_divisor [of 64 c] by linarith
  then have "push_bit 12 DASH OR ((b mod 64) * 64 + c mod 64) =
      62 * 4096 + ((b mod 64) * 64 + c mod 64)"
    using or2 [of "(b mod 64) * 64 + c mod 64" DASH] by (simp add: DASH_def)
  moreover have "62 * 4096 + ((b mod 64) * 64 + c mod 64) < 2 ^ 18" using lt by simp
  ultimately show ?thesis
    using or18 [of "62 * 4096 + ((b mod 64) * 64 + c mod 64)" DASH] by (simp add: i DASH_def)
qed

subsection \<open>Count codes\<close>

lemma length_encodeCount: "length (encodeCount i c) = (if c < 4096 then 3 else 6)"
  by (simp add: encodeCount_def)

lemma decodeCount_encodeCount:
  assumes "c < 2 ^ 30" and "i < 62" and at: "drop p s = encodeCount i c @ rest"
  shows "decodeCount i s p = Some (c, p + length (encodeCount i c))"
proof (cases "c < 4096")
  case True
  let ?w = "62 * 262144 + i * 4096 + c"
  have "encodeCount i c = beBytes ?w"
    using True assms(2) by (simp add: encodeCount_def short_count)
  with at have "triplet s p = Some ?w"
    using True assms(2) by (intro triplet_beBytes) auto
  moreover have "?w mod 4096 = c"
  proof -
    have "?w = (3968 + i) * 4096 + c" by simp
    then show ?thesis using True by (simp only: mod_mult_self3 mod_less)
  qed
  ultimately show ?thesis
    using True assms(2)
    by (simp add: decodeCount_def Let_def and_bitsMask short_count length_encodeCount)
next
  case False
  let ?h = "c div 16777216"
  let ?w = "62 * 262144 + 62 * 4096 + i * 64 + ?h"
  have h: "?h < 64" using assms(1) by simp
  have e: "encodeCount i c = beBytes ?w @ beBytes (c mod 2 ^ 24)"
    using False assms(2) h
    by (simp add: encodeCount_def long_header drop_bit_eq_div bits_mod [of c 24])
  have wlt: "?w < 2 ^ 24" using h assms(2) by simp
  have t1: "triplet s p = Some ?w"
    using at e wlt by (intro triplet_beBytes) auto
  have "drop (p + 3) s = beBytes (c mod 2 ^ 24) @ rest"
    using at e by (intro drop_past_len) auto
  then have t2: "triplet s (p + 3) = Some (c mod 2 ^ 24)"
    by (rule triplet_beBytes) simp
  have lt: "i * 64 + ?h < 4096" using h assms(2) by linarith
  have "?w = 4030 * 4096 + (i * 64 + ?h)" by simp
  then have idx: "?w mod 4096 = i * 64 + ?h" "(i * 64 + ?h) mod 64 = ?h"
    using h lt by (simp_all only: mod_mult_self3 mod_less)
  have ne: "?w \<noteq> 62 * 262144 + i * 4096 + (i * 64 + ?h)"
    using assms(2) by simp
  have sum: "?h * 16777216 + c mod 16777216 = c" by simp
  show ?thesis
    using t1 t2 idx ne h assms(2) False sum
    by (simp add: decodeCount_def Let_def and_bitsMask and_3f short_count long_header
        length_encodeCount or24)
qed

lemma decodeCount_inside: "decodeCount i s p = Some (c, p') \<Longrightarrow> p < p' \<and> p' \<le> length s"
  by (auto simp: decodeCount_def Let_def split: option.splits if_splits dest!: triplet_Some_bound)

lemma long_count_bound: "n < 2 ^ 24 \<Longrightarrow> (k mod 64) * 16777216 + n < (2::nat) ^ 30"
  using mod_less_divisor [of 64 k] by simp

lemma short_count_bound: "w mod 4096 < (2::nat) ^ 30"
  using mod_less_divisor [of 4096 w] by (simp add: less_trans)

lemma decodeCount_bound: "decodeCount i s p = Some (c, p') \<Longrightarrow> c < 2 ^ 30"
  using short_count_bound long_count_bound
  by (auto simp: decodeCount_def Let_def and_bitsMask and_3f or24
      split: option.splits if_splits dest!: triplet_Some_bound)

interpretation count: aligned_codec "encodeCount i" "decodeCount i" "\<lambda>c. c < 2 ^ 30 \<and> i < 62" for i
proof (unfold_locales, goal_cases)
  case (1 v p s rest)
  then show ?case by (intro decodeCount_encodeCount) auto
next
  case (2 s p v p')
  then show ?case by (rule decodeCount_inside)
next
  case (3 v)
  then show ?case by (simp add: length_encodeCount)
qed

subsection \<open>Fixed data\<close>

lemma fixed_hdr: "nextMul3 (n + 1) - n \<in> {1, 2, 3}"
  using nextMul3_ge [of "n + 1"] nextMul3_lt [of "n + 1"] by auto

lemma fixed_hdr_le: "nextMul3 (n + 1) - n \<le> 3"
  using fixed_hdr [of n] by auto

lemma fixed_hdr_total: "n + (nextMul3 (n + 1) - n) = nextMul3 (n + 1)"
  using nextMul3_ge [of "n + 1"] by simp

lemma length_encodeFixedData: "length (encodeFixedData i d) = nextMul3 (length d + 1)"
  using fixed_hdr_le [of "length d"] fixed_hdr_total [of "length d"]
  by (simp add: encodeFixedData_def Let_def add.commute)

lemma decodeFixedData_encodeFixedData:
  assumes at: "drop p s = encodeFixedData i d @ rest"
  shows "decodeFixedData i (length d) s p = Some (d, p + length (encodeFixedData i d))"
proof -
  define total where "total = nextMul3 (length d + 1)"
  define hdr where "hdr = total - length d"
  define hb where "hb = take hdr (beBytes (fixedHeader i hdr))"
  have hdr: "hdr \<in> {1, 2, 3}" "hdr \<le> 3" "length d + hdr = total"
    using fixed_hdr [of "length d"] fixed_hdr_le [of "length d"] fixed_hdr_total [of "length d"]
    by (simp_all add: hdr_def total_def)
  have e: "encodeFixedData i d = hb @ d"
    by (simp add: encodeFixedData_def Let_def hb_def hdr_def total_def)
  have lenhb: "length hb = hdr" using hdr by (simp add: hb_def)
  have at': "drop p s = hb @ (d @ rest)" using at e by simp
  have "encodeFixedData i d \<noteq> []" using e lenhb hdr by auto
  then have room: "p + total \<le> length s"
    using drop_room [OF at] by (simp add: length_encodeFixedData total_def)
  have hdrs: "s ! (p + k) = beBytes (fixedHeader i hdr) ! k" if "k < hdr" for k
    using drop_nth [OF at', of k] that lenhb by (simp add: hb_def)
  have "drop (p + hdr) s = d @ rest"
    using at' lenhb by (intro drop_past_len) auto
  then have "slice s (p + hdr) (p + total) = d"
    by (rule slice_at_end) (use hdr in simp)
  then show ?thesis
    unfolding decodeFixedData_def Let_def length_encodeFixedData total_def [symmetric]
      hdr_def [symmetric] list_all_iff
    using hdr(1) room hdrs by auto
qed

lemma decodeFixedData_inside:
  "decodeFixedData i n s p = Some (d, p') \<Longrightarrow> p < p' \<and> p' \<le> length s"
  using nextMul3_ge [of "n + 1"] by (auto simp: decodeFixedData_def Let_def split: if_splits)

lemma decodeFixedData_length:
  "decodeFixedData i n s p = Some (d, p') \<Longrightarrow> length d = n"
  using fixed_hdr_total [of n] nextMul3_ge [of "n + 1"]
  by (auto simp: decodeFixedData_def Let_def length_slice split: if_splits)

interpretation fixed: aligned_codec "encodeFixedData i" "decodeFixedData i n" "\<lambda>d. length d = n" for i n
proof (unfold_locales, goal_cases)
  case (1 v p s rest)
  then show ?case using decodeFixedData_encodeFixedData by blast
next
  case (2 s p v p')
  then show ?case by (rule decodeFixedData_inside)
next
  case (3 v)
  then show ?case by (simp add: length_encodeFixedData)
qed

subsection \<open>Variable data\<close>

text \<open>A long variable-data header and its fields.\<close>

lemma var_long_header: "push_bit 18 a OR bits b 18 = a * 262144 + b mod 262144"
  by (simp add: or18 bits_mod)

lemma short_fields:
  fixes a b c :: nat
  assumes "b < 64" and "c < 4096"
  shows "(a * 262144 + b * 4096 + c) div 262144 = a"
    and "(a * 262144 + b * 4096 + c) div 4096 mod 64 = b"
    and "(a * 262144 + b * 4096 + c) mod 4096 = c"
proof -
  have lt: "b * 4096 + c < 262144" using assms by linarith
  have e: "a * 262144 + b * 4096 + c = (a * 64 + b) * 4096 + c" by simp
  have "(a * 262144 + (b * 4096 + c)) div 262144 = a" using lt by simp
  then show "(a * 262144 + b * 4096 + c) div 262144 = a" by (simp only: add.assoc)
  show "(a * 262144 + b * 4096 + c) div 4096 mod 64 = b"
  proof -
    have "((a * 64 + b) * 4096 + c) div 4096 = a * 64 + b" using assms by simp
    then show ?thesis using assms unfolding e by (simp only: mod_mult_self3 mod_less)
  qed
  show "(a * 262144 + b * 4096 + c) mod 4096 = c"
    unfolding e using assms by (simp only: mod_mult_self3 mod_less)
qed

definition varOk :: "nat \<Rightarrow> bytes \<Rightarrow> bool" where
  "varOk i d \<longleftrightarrow> i < 2 ^ 18 \<and> length d \<le> 3 * (2 ^ 24 - 1)"

lemma varOk_size: "varOk i d \<Longrightarrow> nextMul3 (length d) div 3 < 2 ^ 24"
  using nextMul3_lt [of "length d"] by (simp add: varOk_def less_mult_imp_div_less)

lemma length_encodeVariableData:
  "length (encodeVariableData i d) =
     (if nextMul3 (length d) div 3 < 4096 \<and> i < 64 then 3 else 6) + nextMul3 (length d)"
  using nextMul3_ge [of "length d"] by (simp add: encodeVariableData_def Let_def)

lemma nextMul3_lead_header:
  assumes "lead < 3"
  shows "nextMul3 (lead + 1) = 3" and "nextMul3 (lead + 3 + 1) = 6"
proof -
  have "lead = 0 \<or> lead = 1 \<or> lead = 2" using assms by auto
  then show "nextMul3 (lead + 1) = 3" and "nextMul3 (lead + 3 + 1) = 6"
    by (auto simp: nextMul3_def)
qed

lemma decodeRange_short:
  assumes lead: "lead < 3" and i: "i < 64" and sz: "sz < 4096" and room: "p + 3 + 3 * sz \<le> length s"
    and t: "triplet s p = Some ((56 + lead) * 262144 + i * 4096 + sz)"
  shows "decodeVariableDataRange i s p = Some ((p + 3 + lead, p + 3 + 3 * sz), p + 3 + 3 * sz)"
proof -
  let ?h = "(56 + lead) * 262144 + i * 4096 + sz"
  have f: "drop_bit 18 ?h = 56 + lead" "drop_bit 12 ?h AND bitsMask 6 = i" "?h AND bitsMask 12 = sz"
    using short_fields [OF i sz, of "56 + lead"] by (simp_all add: and_bitsMask drop_bit_eq_div)
  have m: "\<not> sz * 3 > MAX_FIELD_SIZE" using sz by (simp add: MAX_FIELD_SIZE_eq)
  have d: "56 + lead = D4 \<or> 56 + lead = D5 \<or> 56 + lead = D6" "56 + lead - D4 = lead"
    using lead by (auto simp: selectors)
  show ?thesis
    unfolding decodeVariableDataRange_def t option.case Let_def f d(2) nextMul3_lead_header [OF lead]
    using m d room by (simp add: ac_simps)
qed

lemma decodeRange_long:
  assumes lead: "lead < 3" and i: "i < 262144" and sz: "sz < 2 ^ 24" and room: "p + 6 + 3 * sz \<le> length s"
    and t: "triplet s p = Some ((59 + lead) * 262144 + i)" and t2: "triplet s (p + 3) = Some sz"
  shows "decodeVariableDataRange i s p = Some ((p + 6 + lead, p + 6 + 3 * sz), p + 6 + 3 * sz)"
proof -
  let ?h = "(59 + lead) * 262144 + i"
  have "?h mod 262144 = i" using i by (simp only: mod_mult_self3 mod_less)
  then have f: "drop_bit 18 ?h = 59 + lead" "?h AND bitsMask 18 = i"
    using i by (simp_all add: and_bitsMask drop_bit_eq_div)
  have m: "\<not> sz * 3 > MAX_FIELD_SIZE" using sz by (simp add: MAX_FIELD_SIZE_eq)
  have d: "\<not> (59 + lead = D4 \<or> 59 + lead = D5 \<or> 59 + lead = D6)"
      "59 + lead = D7 \<or> 59 + lead = D8 \<or> 59 + lead = D9" "59 + lead - D4 = lead + 3"
    using lead by (auto simp: selectors)
  show ?thesis
    unfolding decodeVariableDataRange_def t t2 option.case Let_def f d(3) nextMul3_lead_header [OF lead]
    using m d room by (simp add: ac_simps)
qed

lemma decodeRange_encode:
  assumes ok: "varOk i d" and at: "drop p s = encodeVariableData i d @ rest"
  defines "e \<equiv> p + length (encodeVariableData i d)"
  shows "decodeVariableDataRange i s p = Some ((e - length d, e), e)"
proof -
  define padded where "padded = nextMul3 (length d)"
  define lead where "lead = padded - length d"
  define sz where "sz = padded div 3"
  have lead: "lead < 3" using nextMul3_lead [of "length d"] by (simp add: lead_def padded_def)
  have pad: "3 * sz = padded" "length d + lead = padded"
    using nextMul3_ge [of "length d"] by (simp_all add: sz_def padded_def lead_def)
  have szlt: "sz < 2 ^ 24" using varOk_size [OF ok] by (simp add: sz_def padded_def)
  have i18: "i < 262144" using ok by (simp add: varOk_def)
  have sel: "bits (D4 + lead) 6 = 56 + lead" "bits (D4 + lead + 3) 6 = 59 + lead"
    using lead by (simp_all add: selectors bits_id)
  have len: "length (encodeVariableData i d) = (if sz < 4096 \<and> i < 64 then 3 else 6) + padded"
    by (simp add: length_encodeVariableData sz_def padded_def)
  have "encodeVariableData i d \<noteq> []" using len by (auto split: if_splits)
  then have room: "e \<le> length s" using drop_room [OF at] by (simp add: e_def)
  show ?thesis
  proof (cases "sz < 4096 \<and> i < 64")
    case True
    have "encodeVariableData i d = beBytes ((56 + lead) * 262144 + i * 4096 + sz) @ replicate lead 0 @ d"
      using True
      by (simp add: encodeVariableData_def Let_def short_header sel
          padded_def [symmetric] lead_def [symmetric] sz_def [symmetric])
    with at have "triplet s p = Some ((56 + lead) * 262144 + i * 4096 + sz)"
      using True lead by (intro triplet_beBytes) auto
    from decodeRange_short [OF lead _ _ _ this] True room len pad show ?thesis
      by (simp add: e_def ac_simps)
  next
    case False
    have enc: "encodeVariableData i d =
        beBytes ((59 + lead) * 262144 + i) @ beBytes sz @ replicate lead 0 @ d"
      using False i18 szlt
      by (auto simp add: encodeVariableData_def Let_def var_long_header sel bits_id [of sz 24]
          padded_def [symmetric] lead_def [symmetric] sz_def [symmetric])
    with at have t: "triplet s p = Some ((59 + lead) * 262144 + i)"
      using lead i18 by (intro triplet_beBytes) auto
    have "drop (p + 3) s = beBytes sz @ (replicate lead 0 @ d @ rest)"
      using at enc by (intro drop_past_len) auto
    then have "triplet s (p + 3) = Some sz" using szlt by (rule triplet_beBytes)
    from decodeRange_long [OF lead i18 szlt _ t this] False room len pad show ?thesis
      by (auto simp add: e_def ac_simps)
  qed
qed

lemma encodeVariableData_tail: "\<exists>h. encodeVariableData i d = h @ d"
  by (simp add: encodeVariableData_def Let_def)

lemma decodeVariableData_encode:
  assumes ok: "varOk i d" and at: "drop p s = encodeVariableData i d @ rest"
  shows "decodeVariableData i s p = Some (d, p + length (encodeVariableData i d))"
proof -
  obtain h where h: "encodeVariableData i d = h @ d" using encodeVariableData_tail by blast
  let ?e = "p + length (encodeVariableData i d)"
  have "drop (p + length h) s = d @ rest"
    using at h by (intro drop_past_len) auto
  then have "slice s (p + length h) ?e = d" by (rule slice_at_end) (simp add: h)
  moreover have "?e - length d = p + length h" by (simp add: h)
  ultimately show ?thesis
    using decodeRange_encode [OF ok at] by (simp add: decodeVariableData_def)
qed

lemma decodeRange_inside:
  assumes "decodeVariableDataRange i s p = Some ((b, e), p')"
  shows "p < p' \<and> p' \<le> length s \<and> e = p' \<and> p \<le> b"
proof -
  have "0 < nextMul3 (n + 1)" for n using nextMul3_ge [of "n + 1"] by simp
  with assms show ?thesis
    by (auto simp: decodeVariableDataRange_def Let_def split: option.splits prod.splits if_splits)
qed

lemma decodeVariableData_inside:
  "decodeVariableData i s p = Some (d, p') \<Longrightarrow> p < p' \<and> p' \<le> length s"
  by (auto simp: decodeVariableData_def split: option.splits prod.splits dest!: decodeRange_inside)

lemma encodeVariableData_aligned [aligned]: "3 dvd length (encodeVariableData i d)"
  by (simp add: length_encodeVariableData)

lemma encodeFixedData_aligned [aligned]: "3 dvd length (encodeFixedData i d)"
  by (simp add: length_encodeFixedData)

lemma encodeCount_aligned [aligned]: "3 dvd length (encodeCount i c)"
  by (simp add: length_encodeCount)

interpretation var: aligned_codec "encodeVariableData i" "decodeVariableData i" "varOk i" for i
proof (unfold_locales, goal_cases)
  case (1 v p s rest)
  then show ?case by (rule decodeVariableData_encode)
next
  case (2 s p v p')
  then show ?case by (rule decodeVariableData_inside)
next
  case (3 v)
  show ?case by (rule encodeVariableData_aligned)
qed

subsection \<open>Version marker, signature code, leading byte\<close>

lemma length_YTSP [simp]: "length YTSP = 3"
  by (simp add: YTSP_def cesrData3_def)

lemma length_markers [simp]:
  "length XSCS = 3" "length XHOP = 3" "length XRFI = 3" "length XRFA = 3" "length XRFD = 3"
  "length XCTL = 3" "length XPAD = 3"
  by (simp_all add: consts_def)

lemma length_encodeVersion [simp]: "length encodeVersion = 6"
  by (simp add: encodeVersion_def length_encodeCount TSP_VERSION_minor_def)

lemma encodeVersion_word:
  "encodeVersion = YTSP @ beBytes (62 * 262144 + 1 * 4096 + 0)"
  by (simp add: encodeVersion_def encodeCount_def TSP_VERSION_major_def TSP_VERSION_minor_def
      short_count)

text \<open>What \<open>readVersion\<close> returns on a marker with a given count word.\<close>

lemma readVersion_word:
  assumes at: "drop p s = YTSP @ beBytes (62 * 262144 + mj * 4096 + mn) @ rest"
    and "mj < 64" and "mn < 4096"
  shows "readVersion s p = Some ((mj, mn), p + 6)"
proof -
  let ?w = "62 * 262144 + mj * 4096 + mn"
  have "drop (p + 3) s = beBytes ?w @ rest"
    using at by (intro drop_past_len) auto
  then have t: "triplet s (p + length YTSP) = Some ?w"
    using assms(2,3) by (simp, intro triplet_beBytes) auto
  have "drop p s = (YTSP @ beBytes ?w) @ rest" using at by simp
  then have "p + length (YTSP @ beBytes ?w) \<le> length s"
    by (rule drop_room) (simp add: beBytes_def)
  then have room: "\<not> p + length YTSP > length s" by simp
  have y: "s ! (p + k) = YTSP ! k" if "k < length YTSP" for k
    using drop_nth [OF at that] .
  have f: "drop_bit 18 ?w = DASH" "drop_bit 12 ?w AND bitsMask 6 = mj" "?w AND bitsMask 12 = mn"
    using short_fields [OF assms(2,3), of 62] by (simp_all add: and_bitsMask drop_bit_eq_div DASH_def)
  show ?thesis
    unfolding readVersion_def t option.case f list_all_iff
    using room y by simp
qed

lemma readVersion_encodeVersion:
  assumes "drop p s = encodeVersion @ rest"
  shows "readVersion s p = Some ((TSP_VERSION_major, TSP_VERSION_minor), p + length encodeVersion)"
  using readVersion_word [of p s 1 0 rest] assms
  by (simp add: encodeVersion_word TSP_VERSION_major_def TSP_VERSION_minor_def)

lemma readVersion_inside:
  "readVersion s p = Some (v, p') \<Longrightarrow> p' = p + 6 \<and> p' \<le> length s"
  by (auto simp: readVersion_def split: option.splits if_splits dest!: triplet_Some_bound)

lemma length_encodeIndexed [simp]:
  "length (encodeIndexedEd25519Signature i sig) = 2 + length sig"
  by (simp add: encodeIndexedEd25519Signature_def Let_def)

lemma encodeIndexed_zero:
  "encodeIndexedEd25519Signature 0 sig = [0x04, 0x00] @ sig"
  by (simp add: encodeIndexedEd25519Signature_def Let_def consts_def beBytes_def drop_bit_eq_div
      bits_mod push_bit_eq_mult)

text \<open>The leading byte of an envelope frame tells the width of its count code.\<close>

lemma encodeCount_E_first:
  assumes "c < 2 ^ 30"
  shows "encodeCount TSP_ETS_WRAPPER c ! 0 =
    (if c < 4096 then TSP_MAGIC_BYTE else TSP_MAGIC_BYTE_LONG)"
proof (cases "c < 4096")
  case True
  have "(62 * 262144 + 4 * 4096 + c) div 65536 = 248" using True by simp
  with True show ?thesis
    by (simp add: encodeCount_def short_count beBytes_def drop_bit_eq_div and_255 consts_def
        TSP_MAGIC_BYTE_def)
next
  case False
  have "c div 16777216 < 64" using assms by simp
  then have "(62 * 262144 + 62 * 4096 + 4 * 64 + c div 16777216) div 65536 = 251" by simp
  with False \<open>c div 16777216 < 64\<close> show ?thesis
    by (simp add: encodeCount_def long_header beBytes_def drop_bit_eq_div and_255 consts_def
        nth_append TSP_MAGIC_BYTE_LONG_def)
qed

subsection \<open>Properties\<close>

text \<open>A sequence of variable-data fields is determined by its bytes: two sequences of payloads that encode to
  the same bytes are equal, whatever mix of short and long headers and lead bytes they need, and each
  field is read back at its own offset with anything before and after it.\<close>

theorem variable_data_unambiguous:
  assumes "list_all (varOk i) ds" and "list_all (varOk i) es"
    and "concat (map (encodeVariableData i) ds) = concat (map (encodeVariableData i) es)" and "varOk i d"
  shows "ds = es \<and>
    decodeVariableData i (pre @ encodeVariableData i d @ rest) (length pre) =
      Some (d, length pre + length (encodeVariableData i d))"
  using var.concat_inj [OF assms(1-3)] var.dec_pre [OF assms(4)] by simp

theorem variable_data_unambiguous_witness:
  "decodeVariableData 1 ([7] @ encodeVariableData 1 [2, 3] @ [9]) (length [7 :: byte]) =
     Some ([2, 3], length [7 :: byte] + length (encodeVariableData 1 [2, 3]))"
proof -
  have v: "varOk 1 [2, 3]" by (simp add: varOk_def)
  then have l: "list_all (varOk 1) [[2, 3]]" by simp
  from variable_data_unambiguous [OF l l refl v] show ?thesis by blast
qed

text \<open>The decoders of the wire stay inside the input: a count, a fixed or a variable field that is read on
  any bytes at any offset ends after the offset and within the input, the range reported for variable data lies
  between the two, and a count never exceeds its thirty bits.\<close>

theorem decoders_inside:
  "(\<forall>c p'. decodeCount i s p = Some (c, p') \<longrightarrow> p < p' \<and> p' \<le> length s \<and> c < 2 ^ 30) \<and>
   (\<forall>d p'. decodeFixedData i n s p = Some (d, p') \<longrightarrow> p < p' \<and> p' \<le> length s \<and> length d = n) \<and>
   (\<forall>b e p'. decodeVariableDataRange i s p = Some ((b, e), p') \<longrightarrow> p \<le> b \<and> e = p' \<and> p < p' \<and> p' \<le> length s)"
  by (intro conjI allI impI)
    (auto dest: decodeCount_inside decodeCount_bound decodeFixedData_inside decodeFixedData_length decodeRange_inside)

theorem decoders_inside_witness:
  "decodeCount 4 (encodeCount 4 7) 0 = Some (7, 3) \<and> (3 :: nat) \<le> length (encodeCount 4 7)"
proof -
  have "decodeCount 4 (encodeCount 4 7) 0 = Some (7, 3)"
    using decodeCount_encodeCount [of 7 4 0 "encodeCount 4 7" "[]"] by (simp add: length_encodeCount)
  with decoders_inside [of 4 "encodeCount 4 7" 0] show ?thesis by blast
qed

text \<open>The leading count of a TSP message carries its length: every count below \<open>2^30\<close> survives the encoding,
  short or long, and the two forms are told apart by the first byte that \<open>isTsp\<close> looks at.\<close>

theorem count_roundtrip:
  assumes "c < 2 ^ 30"
  shows "decodeCount TSP_ETS_WRAPPER (encodeCount TSP_ETS_WRAPPER c @ rest) 0 =
      Some (c, if c < 4096 then 3 else 6) \<and>
    isTsp (encodeCount TSP_ETS_WRAPPER c @ rest) \<and>
    encodeCount TSP_ETS_WRAPPER c ! 0 = (if c < 4096 then TSP_MAGIC_BYTE else TSP_MAGIC_BYTE_LONG)"
proof -
  have ne: "encodeCount TSP_ETS_WRAPPER c \<noteq> []"
    using length_encodeCount [of TSP_ETS_WRAPPER c] by (auto split: if_splits)
  then obtain x xs where x: "encodeCount TSP_ETS_WRAPPER c = x # xs" by (cases "encodeCount TSP_ETS_WRAPPER c") auto
  note f = encodeCount_E_first [OF assms]
  have "isTsp (encodeCount TSP_ETS_WRAPPER c @ rest)" using f by (simp add: x isTsp_def)
  moreover have "decodeCount TSP_ETS_WRAPPER (encodeCount TSP_ETS_WRAPPER c @ rest) 0 =
      Some (c, 0 + length (encodeCount TSP_ETS_WRAPPER c))"
    using assms by (intro decodeCount_encodeCount) (auto simp: consts_def)
  ultimately show ?thesis using f by (simp add: length_encodeCount)
qed

theorem count_roundtrip_witness:
  "decodeCount TSP_ETS_WRAPPER (encodeCount TSP_ETS_WRAPPER 5000) 0 = Some (5000, 6)"
  using count_roundtrip [of 5000 "[]"] by simp

end
