(* ===== verification/Js_Text.thy ===== *)
theory Js_Text
  imports Prelude
begin

text \<open>
  JavaScript strings and the two standard codecs the packages use on them: \<open>TextEncoder.encode\<close>
  and \<open>new TextDecoder("utf-8", { fatal: true }).decode\<close>, as the Encoding Standard defines them.
  A string is a list of 16-bit code units. Encoding first replaces lone surrogates by
  \<open>U+FFFD\<close>; decoding refuses ill-formed input and removes a leading byte order mark.
\<close>

type_synonym jsstr = "16 word list"

text \<open>An ASCII literal of the source as a JavaScript string.\<close>

definition js :: "string \<Rightarrow> jsstr" where
  "js cs = map (\<lambda>c. word_of_nat (of_char c)) cs"

subsection \<open>Code units and scalar values\<close>

definition isLead :: "nat \<Rightarrow> bool" where "isLead u \<longleftrightarrow> 0xD800 \<le> u \<and> u \<le> 0xDBFF"
definition isTrail :: "nat \<Rightarrow> bool" where "isTrail u \<longleftrightarrow> 0xDC00 \<le> u \<and> u \<le> 0xDFFF"
definition isScalar :: "nat \<Rightarrow> bool" where
  "isScalar c \<longleftrightarrow> c < 0x110000 \<and> \<not> isLead c \<and> \<not> isTrail c"

lemmas surrogates = isLead_def isTrail_def isScalar_def

fun scalars :: "nat list \<Rightarrow> nat list" where
  "scalars [] = []"
| "scalars (u # us) =
     (if isLead u then
        (case us of
           v # vs \<Rightarrow>
             if isTrail v then (0x10000 + (u - 0xD800) * 0x400 + (v - 0xDC00)) # scalars vs
             else 0xFFFD # scalars us
         | [] \<Rightarrow> [0xFFFD])
      else if isTrail u then 0xFFFD # scalars us
      else u # scalars us)"

fun wellFormedUnits :: "nat list \<Rightarrow> bool" where
  "wellFormedUnits [] = True"
| "wellFormedUnits (u # us) =
     (if isLead u then
        (case us of v # vs \<Rightarrow> isTrail v \<and> wellFormedUnits vs | [] \<Rightarrow> False)
      else if isTrail u then False
      else wellFormedUnits us)"

definition unitsOf :: "nat \<Rightarrow> nat list" where
  "unitsOf c = (if c < 0x10000 then [c]
     else [0xD800 + (c - 0x10000) div 0x400, 0xDC00 + (c - 0x10000) mod 0x400])"

subsection \<open>UTF-8\<close>

definition utf8Bytes :: "nat \<Rightarrow> nat list" where
  "utf8Bytes c =
     (if c < 0x80 then [c]
      else if c < 0x800 then [0xC0 + c div 64, 0x80 + c mod 64]
      else if c < 0x10000 then [0xE0 + c div 4096, 0x80 + c div 64 mod 64, 0x80 + c mod 64]
      else [0xF0 + c div 262144, 0x80 + c div 4096 mod 64, 0x80 + c div 64 mod 64, 0x80 + c mod 64])"

definition isCont :: "nat \<Rightarrow> bool" where "isCont b \<longleftrightarrow> 0x80 \<le> b \<and> b \<le> 0xBF"

text \<open>The first continuation byte is restricted after E0, ED, F0 and F4.\<close>

definition firstContOk :: "nat \<Rightarrow> nat \<Rightarrow> bool" where
  "firstContOk lead b \<longleftrightarrow>
     (if lead = 0xE0 then 0xA0 else if lead = 0xF0 then 0x90 else 0x80) \<le> b \<and>
     b \<le> (if lead = 0xED then 0x9F else if lead = 0xF4 then 0x8F else 0xBF)"

fun utf8Scalars :: "nat list \<Rightarrow> nat list option" where
  "utf8Scalars [] = Some []"
| "utf8Scalars (b # bs) =
     (if b < 0x80 then map_option (Cons b) (utf8Scalars bs)
      else if 0xC2 \<le> b \<and> b \<le> 0xDF then
        (case bs of
           c1 # r \<Rightarrow>
             if isCont c1 then map_option (Cons ((b - 0xC0) * 64 + (c1 - 0x80))) (utf8Scalars r)
             else None
         | _ \<Rightarrow> None)
      else if 0xE0 \<le> b \<and> b \<le> 0xEF then
        (case bs of
           c1 # c2 # r \<Rightarrow>
             if firstContOk b c1 \<and> isCont c2
             then map_option (Cons ((b - 0xE0) * 4096 + (c1 - 0x80) * 64 + (c2 - 0x80))) (utf8Scalars r)
             else None
         | _ \<Rightarrow> None)
      else if 0xF0 \<le> b \<and> b \<le> 0xF4 then
        (case bs of
           c1 # c2 # c3 # r \<Rightarrow>
             if firstContOk b c1 \<and> isCont c2 \<and> isCont c3
             then map_option
                    (Cons ((b - 0xF0) * 262144 + (c1 - 0x80) * 4096 + (c2 - 0x80) * 64 + (c3 - 0x80)))
                    (utf8Scalars r)
             else None
         | _ \<Rightarrow> None)
      else None)"

subsection \<open>TextEncoder and the fatal TextDecoder\<close>

definition textEncode :: "jsstr \<Rightarrow> bytes" where
  "textEncode s = map word_of_nat (concat (map utf8Bytes (scalars (map unat s))))"

definition stripBom :: "nat list \<Rightarrow> nat list" where
  "stripBom bs = (if take 3 bs = [0xEF, 0xBB, 0xBF] then drop 3 bs else bs)"

definition textDecodeFatal :: "bytes \<Rightarrow> jsstr option" where
  "textDecodeFatal bs =
     map_option (\<lambda>cs. map word_of_nat (concat (map unitsOf cs))) (utf8Scalars (stripBom (map unat bs)))"

text \<open>
  Strings that survive the round trip: no lone surrogate, and not starting with a byte order mark.
\<close>

definition plainText :: "jsstr \<Rightarrow> bool" where
  "plainText s \<longleftrightarrow> wellFormedUnits (map unat s) \<and> take 1 s \<noteq> [0xFEFF]"

subsection \<open>Scalar values through UTF-16\<close>

declare scalars.simps(2) [simp del] wellFormedUnits.simps(2) [simp del] utf8Scalars.simps(2) [simp del]

lemma pair_scalar: "isLead u \<Longrightarrow> isTrail v \<Longrightarrow> isScalar (0x10000 + (u - 0xD800) * 0x400 + (v - 0xDC00))"
  unfolding surrogates by arith

lemma replacement_scalar: "isScalar 0xFFFD"
  by (simp add: surrogates)

lemma scalars_are_scalar: "list_all (\<lambda>u. u < 0x10000) us \<Longrightarrow> list_all isScalar (scalars us)"
proof (induction us rule: scalars.induct)
  case 1
  then show ?case by simp
next
  case (2 u us)
  have u: "\<not> isLead u \<Longrightarrow> \<not> isTrail u \<Longrightarrow> isScalar u"
    using "2.prems" by (simp add: isScalar_def)
  show ?case
    using "2.IH" "2.prems" u
    by (cases us) (simp_all add: scalars.simps(2) pair_scalar replacement_scalar del: One_nat_def)
qed

lemma unitsOf_pair:
  assumes "isLead u" and "isTrail v"
  shows "unitsOf (0x10000 + (u - 0xD800) * 0x400 + (v - 0xDC00)) = [u, v]"
proof -
  obtain a where u: "u = 0xD800 + a" using assms(1) by (auto simp: isLead_def le_iff_add)
  obtain b where v: "v = 0xDC00 + b" using assms(2) by (auto simp: isTrail_def le_iff_add)
  have "b < 0x400" using assms(2) by (simp add: v isTrail_def)
  then have "(a * 0x400 + b) div 0x400 = a" "(a * 0x400 + b) mod 0x400 = b" by simp_all
  then show ?thesis by (simp add: unitsOf_def u v)
qed

lemma units_of_scalars: "wellFormedUnits us \<Longrightarrow> list_all (\<lambda>u. u < 0x10000) us \<Longrightarrow>
    concat (map unitsOf (scalars us)) = us"
proof (induction us rule: scalars.induct)
  case 1
  then show ?case by simp
next
  case (2 u us)
  show ?case
  proof (cases "isLead u")
    case True
    with "2.prems" obtain v vs where us: "us = v # vs" "isTrail v" "wellFormedUnits vs"
      by (auto simp: wellFormedUnits.simps(2) split: list.splits)
    with "2.IH"(1) [OF True us(1,2)] "2.prems" True show ?thesis
      by (simp add: scalars.simps(2) unitsOf_pair)
  next
    case False
    with "2.prems" have "\<not> isTrail u" "wellFormedUnits us"
      by (auto simp: wellFormedUnits.simps(2) split: if_splits)
    with False "2.IH" "2.prems" show ?thesis
      by (simp add: scalars.simps(2) unitsOf_def)
  qed
qed

subsection \<open>Scalar values through UTF-8\<close>

lemma utf8Scalars_bytes:
  assumes "isScalar c"
  shows "utf8Scalars (utf8Bytes c @ rest) = map_option (Cons c) (utf8Scalars rest)"
proof -
  consider (one) "c < 0x80" | (two) "0x80 \<le> c" "c < 0x800" | (three) "0x800 \<le> c" "c < 0x10000"
    | (four) "0x10000 \<le> c" "c < 0x110000"
    using assms by (force simp: isScalar_def)
  then show ?thesis
  proof cases
    case one
    then show ?thesis by (simp add: utf8Bytes_def utf8Scalars.simps(2))
  next
    case two
    have "2 \<le> c div 64" "c div 64 < 32" "c mod 64 \<le> 63" using two by auto
    then show ?thesis
      using two by (simp add: utf8Bytes_def utf8Scalars.simps(2) isCont_def)
  next
    case three
    let ?a = "c div 4096" and ?b = "c div 64 mod 64"
    have a: "?a < 16" using three by auto
    have ab: "c div 64 = ?a * 64 + ?b"
      using div_mult_mod_eq [of "c div 64" 64] by (simp add: div_mult2_eq [symmetric])
    have "c = c div 64 * 64 + c mod 64" by simp
    then have "c = (?a * 64 + ?b) * 64 + c mod 64" unfolding ab [symmetric] .
    then have c: "?a * 4096 + ?b * 64 + c mod 64 = c" by simp
    have lo: "?a = 0 \<Longrightarrow> 32 \<le> ?b" using three ab by auto
    have hi: "?a = 13 \<Longrightarrow> ?b < 32" using assms three ab by (auto simp: surrogates)
    have "firstContOk (0xE0 + ?a) (0x80 + ?b)"
      using lo hi a mod_less_divisor [of 64 "c div 64"] by (auto simp: firstContOk_def)
    moreover have "isCont (0x80 + c mod 64)"
      using mod_less_divisor [of 64 c] by (simp add: isCont_def)
    ultimately show ?thesis
      using three a c by (simp add: utf8Bytes_def utf8Scalars.simps(2))
  next
    case four
    let ?a = "c div 262144" and ?b = "c div 4096 mod 64" and ?d = "c div 64 mod 64"
    have a: "?a < 5" using four by auto
    have ab: "c div 4096 = ?a * 64 + ?b"
      using div_mult_mod_eq [of "c div 4096" 64] by (simp add: div_mult2_eq [symmetric])
    have abd: "c div 64 = (c div 4096) * 64 + ?d"
      using div_mult_mod_eq [of "c div 64" 64] by (simp add: div_mult2_eq [symmetric])
    have "c = c div 64 * 64 + c mod 64" by simp
    then have "c = (c div 4096 * 64 + ?d) * 64 + c mod 64" unfolding abd [symmetric] .
    then have "c = ((?a * 64 + ?b) * 64 + ?d) * 64 + c mod 64" unfolding ab [symmetric] .
    then have c: "?a * 262144 + ?b * 4096 + ?d * 64 + c mod 64 = c" by simp
    have lo: "?a = 0 \<Longrightarrow> 16 \<le> ?b" using four ab by auto
    have hi: "?a = 4 \<Longrightarrow> ?b < 16" using four ab by auto
    have "firstContOk (0xF0 + ?a) (0x80 + ?b)"
      using lo hi a mod_less_divisor [of 64 "c div 4096"] by (auto simp: firstContOk_def)
    moreover have "isCont (0x80 + ?d)" "isCont (0x80 + c mod 64)"
      using mod_less_divisor [of 64 c] mod_less_divisor [of 64 "c div 64"]
      by (simp_all add: isCont_def)
    ultimately show ?thesis
      using four a c by (simp add: utf8Bytes_def utf8Scalars.simps(2))
  qed
qed

lemma utf8Scalars_concat: "list_all isScalar cs \<Longrightarrow> utf8Scalars (concat (map utf8Bytes cs)) = Some cs"
  by (induction cs) (auto simp: utf8Scalars_bytes)

lemma utf8Bytes_lt: "isScalar c \<Longrightarrow> list_all (\<lambda>b. b < 256) (utf8Bytes c)"
  by (auto simp: utf8Bytes_def isScalar_def less_mult_imp_div_less)

lemma utf8_unat_of_nat:
  "list_all isScalar cs \<Longrightarrow> map (\<lambda>b. unat (word_of_nat b :: byte)) (concat (map utf8Bytes cs)) =
     concat (map utf8Bytes cs)"
proof (induction cs)
  case Nil
  then show ?case by simp
next
  case (Cons c cs)
  then have "list_all (\<lambda>b. b < 256) (utf8Bytes c)" by (simp add: utf8Bytes_lt)
  then have "map (\<lambda>b. unat (word_of_nat b :: byte)) (utf8Bytes c) = utf8Bytes c"
    by (intro map_idI) (auto simp: list_all_iff unat_byte_of_nat)
  with Cons show ?case by simp
qed

subsection \<open>The byte order mark\<close>

lemma utf8Bytes_bom: "isScalar c \<Longrightarrow> c \<noteq> 0xFEFF \<Longrightarrow> take 3 (utf8Bytes c @ rest) \<noteq> [0xEF, 0xBB, 0xBF]"
proof
  assume s: "isScalar c" and ne: "c \<noteq> 0xFEFF" and "take 3 (utf8Bytes c @ rest) = [0xEF, 0xBB, 0xBF]"
  then have t: "take 3 (utf8Bytes c @ rest) = [0xEF, 0xBB, 0xBF]" by simp
  from t have hd: "hd (utf8Bytes c) = 0xEF"
    by (cases "utf8Bytes c") (auto simp: utf8Bytes_def split: if_splits)
  have "0x800 \<le> c \<and> c < 0x10000 \<and> c div 4096 = 15"
    using hd s by (auto simp: utf8Bytes_def isScalar_def split: if_splits)
  with t have "c div 4096 = 15" "c div 64 mod 64 = 59" "c mod 64 = 63"
    by (auto simp: utf8Bytes_def)
  moreover have "c div 4096 = c div 64 div 64" by (simp add: div_mult2_eq [symmetric])
  ultimately have "c div 64 = 15 * 64 + 59" using div_mult_mod_eq [of "c div 64" 64] by simp
  then have "c = (15 * 64 + 59) * 64 + 63"
    using div_mult_mod_eq [of c 64] \<open>c mod 64 = 63\<close> by simp
  with ne show False by simp
qed

lemma scalars_Nil [simp]: "scalars us = [] \<longleftrightarrow> us = []"
  by (cases us) (auto simp: scalars.simps(2) split: list.splits)

lemma scalars_hd_bom:
  assumes "wellFormedUnits us" and "scalars us = c # cs" and "c = 0xFEFF"
  shows "take 1 us = [0xFEFF]"
proof (cases us)
  case Nil
  with assms show ?thesis by simp
next
  case (Cons u vs)
  with assms show ?thesis
    by (auto simp: scalars.simps(2) wellFormedUnits.simps(2) split: list.splits if_splits)
qed

lemma unat16_lt: "list_all (\<lambda>u. u < 0x10000) (map unat (s :: jsstr))"
proof -
  have "unat u < 0x10000" for u :: "16 word" using unsigned_less [of u] by simp
  then show ?thesis by (simp add: list_all_iff)
qed

lemma strip_plain:
  assumes "plainText s"
  shows "stripBom (concat (map utf8Bytes (scalars (map unat s)))) = concat (map utf8Bytes (scalars (map unat s)))"
proof (cases "scalars (map unat s)")
  case Nil
  then show ?thesis by (simp add: stripBom_def)
next
  case (Cons c cs)
  have "c \<noteq> 0xFEFF"
  proof
    assume "c = 0xFEFF"
    with assms Cons have "take 1 (map unat s) = [0xFEFF]"
      by (intro scalars_hd_bom) (auto simp: plainText_def)
    then obtain u us where "s = u # us" "unat u = 0xFEFF" by (cases s) auto
    then have "word_of_nat (unat u) = (word_of_nat 0xFEFF :: 16 word)" by simp
    then have "u = 0xFEFF" by simp
    with \<open>s = u # us\<close> assms show False by (simp add: plainText_def)
  qed
  moreover have "isScalar c" using scalars_are_scalar [OF unat16_lt [of s]] Cons by simp
  ultimately show ?thesis using utf8Bytes_bom Cons by (simp add: stripBom_def)
qed

text \<open>The round trip of the two standard codecs on plain text.\<close>

lemma textDecode_textEncode:
  assumes "plainText s"
  shows "textDecodeFatal (textEncode s) = Some s"
proof -
  let ?us = "map unat s"
  have sc: "list_all isScalar (scalars ?us)" by (rule scalars_are_scalar [OF unat16_lt])
  have "map unat (textEncode s) = concat (map utf8Bytes (scalars ?us))"
    using utf8_unat_of_nat [OF sc] by (simp add: textEncode_def comp_def)
  then have "textDecodeFatal (textEncode s) = Some (map word_of_nat (concat (map unitsOf (scalars ?us))))"
    by (simp only: textDecodeFatal_def strip_plain [OF assms] utf8Scalars_concat [OF sc] option.map)
  also have "concat (map unitsOf (scalars ?us)) = ?us"
    using assms by (intro units_of_scalars unat16_lt) (simp add: plainText_def)
  finally show ?thesis by (simp add: comp_def)
qed

lemma textEncode_Nil [simp]: "textEncode s = [] \<longleftrightarrow> s = []"
proof
  assume "textEncode s = []"
  then have "concat (map utf8Bytes (scalars (map unat s))) = []" by (simp add: textEncode_def)
  moreover have "utf8Bytes c \<noteq> []" for c by (simp add: utf8Bytes_def)
  ultimately have "scalars (map unat s) = []" by (cases "scalars (map unat s)") auto
  then show "s = []" by simp
qed (simp add: textEncode_def)

lemma textEncode_inj: "plainText s \<Longrightarrow> plainText t \<Longrightarrow> textEncode s = textEncode t \<Longrightarrow> s = t"
  using textDecode_textEncode by (metis option.inject)

text \<open>ASCII text is plain.\<close>

lemma js_units: "list_all (\<lambda>c. of_char c < (128::nat)) cs \<Longrightarrow> wellFormedUnits (map unat (js cs))"
  by (induction cs) (auto simp: js_def wellFormedUnits.simps(2) surrogates unat_of_nat)

lemma textEncode_ascii:
  "list_all (\<lambda>c. of_char c < (128::nat)) cs \<Longrightarrow> textEncode (js cs) = map (\<lambda>c. word_of_nat (of_char c)) cs"
  by (induction cs)
    (auto simp: js_def textEncode_def scalars.simps(2) surrogates unat_of_nat utf8Bytes_def)

lemma plainText_ascii:
  assumes "list_all (\<lambda>c. of_char c < (128::nat)) cs" shows "plainText (js cs)"
proof -
  have "take 1 (js cs) \<noteq> [0xFEFF]"
  proof
    assume t: "take 1 (js cs) = [0xFEFF]"
    then obtain c ds where c: "cs = c # ds" by (cases cs) (auto simp: js_def)
    with t have "(word_of_nat (of_char c) :: 16 word) = 0xFEFF" by (simp add: js_def)
    then have "unat (word_of_nat (of_char c) :: 16 word) = 0xFEFF" by simp
    moreover have "(of_char c :: nat) < 128" using assms c by simp
    ultimately show False by (simp add: unat_of_nat)
  qed
  with js_units [OF assms] show ?thesis by (simp add: plainText_def)
qed

subsection \<open>Text that does not survive\<close>

lemma units_length: "list_all (\<lambda>u. u < 0x10000) us \<Longrightarrow> length (concat (map unitsOf (scalars us))) = length us"
proof (induction us rule: scalars.induct)
  case (2 u us)
  have r: "length (unitsOf 0xFFFD) = 1" by (simp add: unitsOf_def)
  show ?case
    using 2 by (cases us) (simp_all add: scalars.simps(2) unitsOf_pair r unitsOf_def del: One_nat_def)
qed simp

lemma unitsOf_scalar:
  assumes "isScalar c"
  shows "list_all (\<lambda>u. u < 0x10000) (unitsOf c)"
    and "wellFormedUnits us \<Longrightarrow> wellFormedUnits (unitsOf c @ us)"
proof -
  have hi: "(c - 0x10000) div 0x400 < 0x400" if "\<not> c < 0x10000"
  proof (rule less_mult_imp_div_less)
    have "c < 0x110000" using assms by (simp add: isScalar_def)
    then show "c - 0x10000 < 0x400 * 0x400" using that by simp
  qed
  have lo: "(c - 0x10000) mod 0x400 < 0x400" by simp
  obtain q r where qr: "q = (c - 0x10000) div 0x400" "r = (c - 0x10000) mod 0x400" by blast
  have u: "unitsOf c = (if c < 0x10000 then [c] else [0xD800 + q, 0xDC00 + r])"
    by (simp add: unitsOf_def qr)
  have hi: "c < 0x10000 \<or> q < 0x400" and lo: "r < 0x400" using hi lo unfolding qr by blast+
  show "list_all (\<lambda>u. u < 0x10000) (unitsOf c)"
    using hi lo by (auto simp: u)
  show "wellFormedUnits us \<Longrightarrow> wellFormedUnits (unitsOf c @ us)"
    using hi lo assms by (auto simp: u wellFormedUnits.simps(2) surrogates)
qed

lemma units_wellFormed:
  "list_all isScalar cs \<Longrightarrow> wellFormedUnits (concat (map unitsOf cs)) \<and>
    list_all (\<lambda>u. u < 0x10000) (concat (map unitsOf cs))"
  by (induction cs) (simp_all add: unitsOf_scalar)

lemma units_back:
  assumes "list_all isScalar cs" and "map word_of_nat (concat (map unitsOf cs)) = (s :: jsstr)"
  shows "map unat s = concat (map unitsOf cs)"
proof -
  have "map unat s = map (unat \<circ> (word_of_nat :: nat \<Rightarrow> 16 word)) (concat (map unitsOf cs))"
    unfolding assms(2) [symmetric] by simp
  also have "\<dots> = concat (map unitsOf cs)"
    using units_wellFormed [OF assms(1)] by (intro map_idI) (auto simp: list_all_iff unat_of_nat)
  finally show ?thesis .
qed

lemma textDecode_textEncode_iff: "textDecodeFatal (textEncode s) = Some s \<longleftrightarrow> plainText s"
proof
  assume d: "textDecodeFatal (textEncode s) = Some s"
  let ?us = "map unat s" and ?cs = "scalars (map unat s)"
  have sc: "list_all isScalar ?cs" by (rule scalars_are_scalar [OF unat16_lt])
  have b: "map unat (textEncode s) = concat (map utf8Bytes ?cs)"
    using utf8_unat_of_nat [OF sc] by (simp add: textEncode_def comp_def)
  show "plainText s"
  proof (cases "\<exists>cs. ?cs = 0xFEFF # cs")
    case True
    then obtain cs where cs: "?cs = 0xFEFF # cs" by blast
    then have sc': "list_all isScalar cs" using sc by simp
    have "stripBom (concat (map utf8Bytes ?cs)) = concat (map utf8Bytes cs)"
      by (simp add: cs stripBom_def utf8Bytes_def)
    then have "map word_of_nat (concat (map unitsOf cs)) = s"
      using d utf8Scalars_concat [OF sc'] by (simp add: textDecodeFatal_def b)
    then have "length s = length (concat (map unitsOf cs))" by (metis length_map)
    moreover have "length s = length (concat (map unitsOf ?cs))"
      using units_length [OF unat16_lt [of s]] by simp
    ultimately show ?thesis by (simp add: cs unitsOf_def)
  next
    case False
    have "stripBom (concat (map utf8Bytes ?cs)) = concat (map utf8Bytes ?cs)"
    proof (cases ?cs)
      case Nil
      then show ?thesis by (simp add: stripBom_def)
    next
      case (Cons c cs)
      with False sc have "isScalar c" "c \<noteq> 0xFEFF" by auto
      with Cons utf8Bytes_bom show ?thesis by (simp add: stripBom_def)
    qed
    then have "map word_of_nat (concat (map unitsOf ?cs)) = s"
      using d utf8Scalars_concat [OF sc] by (simp add: textDecodeFatal_def b)
    from units_back [OF sc this] have w: "wellFormedUnits ?us"
      using units_wellFormed [OF sc] by simp
    have "take 1 s \<noteq> [0xFEFF]"
    proof
      assume "take 1 s = [0xFEFF]"
      then obtain t where "s = 0xFEFF # t" by (cases s) auto
      then have "?cs = 0xFEFF # scalars (map unat t)"
        by (simp add: scalars.simps(2) isLead_def isTrail_def)
      with False show False by blast
    qed
    with w show ?thesis by (simp add: plainText_def)
  qed
qed (rule textDecode_textEncode)

subsection \<open>Properties\<close>

text \<open>A string survives its trip through the UTF-8 of the wire exactly when it has no lone surrogate and does
  not begin with \<open>U+FEFF\<close>: such a string is decoded back from its bytes, and any other one is not,
  because the encoder replaces lone surrogates and the decoder swallows a leading byte order mark.\<close>

theorem text_roundtrip: "textDecodeFatal (textEncode s) = Some s \<longleftrightarrow> plainText s"
  by (rule textDecode_textEncode_iff)

end
