(* ===== verification/Tsp_Fields.thy ===== *)
theory Tsp_Fields
  imports Cesr_Wire Js_Text
begin

text \<open>
  The payload field codecs of \<open>packages/tsp-js/src/v1/fields.ts\<close>, and the exceptions of the
  package. A VID is a JavaScript string. \<open>generateNonce\<close> draws from
  the runtime's random source: the nonce is an argument wherever the source calls it.
\<close>

text \<open>
  Exceptions carry their message, as the source's \<open>new Error(...)\<close> does; a \<open>TspRevisionError\<close>
  carries the version the frame declared beside it.
\<close>

datatype tsp_error =
    JsError string
  | TspRevisionError string "nat option" "nat option"

fun messageOf :: "tsp_error \<Rightarrow> string" where
  "messageOf (JsError m) = m"
| "messageOf (TspRevisionError m mj mn) = m"

definition DIGEST_LEN :: nat where "DIGEST_LEN = 32"
definition ENCODED_DIGEST_LEN :: nat where "ENCODED_DIGEST_LEN = 33"
definition NONCE_LEN :: nat where "NONCE_LEN = 16"
definition SIG_LEN :: nat where "SIG_LEN = 64"

lemmas field_lens = DIGEST_LEN_def ENCODED_DIGEST_LEN_def NONCE_LEN_def SIG_LEN_def

subsection \<open>Sender, padding, digest and nonce fields\<close>

definition encodeSenderField :: "jsstr \<Rightarrow> bytes" where
  "encodeSenderField senderVid = encodeVariableData TSP_VID (textEncode senderVid)"

definition senderFieldBytes :: "jsstr \<Rightarrow> bytes" where
  "senderFieldBytes senderVid = encodeSenderField senderVid"

definition encodeEmptyPadding :: bytes where
  "encodeEmptyPadding = encodeVariableData TSP_PLAINTEXT []"

definition decodePadding :: "bytes \<Rightarrow> offset \<Rightarrow> tsp_error + offset" where
  "decodePadding frame pos =
     (case decodeVariableData TSP_PLAINTEXT frame pos of
        None \<Rightarrow> Inl (JsError ''tsp: missing padding field'')
      | Some (_, pos') \<Rightarrow> Inr pos')"

definition encodeDigest :: "bytes \<Rightarrow> tsp_error + bytes" where
  "encodeDigest digest =
     throwIf (length digest \<noteq> DIGEST_LEN) (JsError ''tsp: digest must be 32 bytes'') (Inr (encodeFixedData TSP_SHA256 digest))"

definition decodeDigest :: "bytes \<Rightarrow> offset \<Rightarrow> tsp_error + (bytes \<times> offset)" where
  "decodeDigest frame pos = orThrow (decodeFixedData TSP_SHA256 DIGEST_LEN frame pos) (JsError ''tsp: missing digest field, or one not coded for HPKE-Base'')"

definition encodeNonce :: "bytes \<Rightarrow> tsp_error + bytes" where
  "encodeNonce nonce =
     throwIf (length nonce \<noteq> NONCE_LEN) (JsError ''tsp: nonce must be 16 bytes'') (Inr (encodeFixedData TSP_NONCE nonce))"

definition decodeNonce :: "bytes \<Rightarrow> offset \<Rightarrow> tsp_error + (bytes \<times> offset)" where
  "decodeNonce frame pos = orThrow (decodeFixedData TSP_NONCE NONCE_LEN frame pos) (JsError ''tsp: missing or malformed nonce'')"

subsection \<open>VID lists\<close>

definition bareVidBytes :: "jsstr \<Rightarrow> bytes" where
  "bareVidBytes vid = encodeVariableData TSP_VID (textEncode vid)"

definition emptyVidListBytes :: bytes where
  "emptyVidListBytes = encodeCount TSP_HOP_LIST 0"

definition encodeVidList :: "jsstr list \<Rightarrow> tsp_error + bytes" where
  "encodeVidList vids =
     (let body = concat (map (\<lambda>vid. encodeVariableData TSP_VID (textEncode vid)) vids)
      in throwIf (length body mod 3 \<noteq> 0) (JsError ''tsp: -J VID list not a multiple of 3 bytes'')
           (Inr (encodeCount TSP_HOP_LIST (length body div 3) @ body)))"

definition vidListBytes :: "jsstr list \<Rightarrow> tsp_error + bytes" where
  "vidListBytes vids = encodeVidList vids"

text \<open>The loop of \<open>decodeVidList\<close>: VIDs are read until the declared length is consumed.\<close>

function readVids :: "bytes \<Rightarrow> offset \<Rightarrow> offset \<Rightarrow> jsstr list \<Rightarrow> tsp_error + (jsstr list \<times> offset)" where
  "readVids s groupEnd pos vids =
     (if pos < groupEnd then
        (if length vids \<ge> MAX_HOPS then Inl (JsError ''tsp: too many hops'')
         else case decodeVariableData TSP_VID s pos of
             None \<Rightarrow> Inl (JsError ''tsp: malformed VID in -J list'')
           | Some (vid, pos') \<Rightarrow>
               (case textDecodeFatal vid of
                  None \<Rightarrow> Inl (JsError ''tsp: VID in -J list is not UTF-8'')
                | Some v \<Rightarrow> readVids s groupEnd pos' (vids @ [v])))
      else Inr (vids, pos))"
  by pat_completeness auto
termination
  by (relation "measure (\<lambda>(s, groupEnd, pos, vids). groupEnd - pos)")
    (auto dest: decodeVariableData_inside)

declare readVids.simps [simp del]

definition decodeVidList :: "bytes \<Rightarrow> offset \<Rightarrow> tsp_error + (jsstr list \<times> offset)" where
  "decodeVidList s pos =
     (case decodeCount TSP_HOP_LIST s pos of
        None \<Rightarrow> Inl (JsError ''tsp: missing -J VID list'')
      | Some (quadlets, pos1) \<Rightarrow>
          let groupLen = quadlets * 3; groupEnd = pos1 + groupLen
          in throwIf (groupLen > MAX_FIELD_SIZE) (JsError ''tsp: -J VID list too long'')
             (throwIf (groupEnd > length s) (JsError ''tsp: -J VID list overruns message'')
               (bindE (readVids s groupEnd pos1 []) (\<lambda>(vids, pos2).
                  throwIf (pos2 \<noteq> groupEnd) (JsError ''tsp: -J VID list does not fill its declared length'') (Inr (vids, pos2))))))"

fun concatBytes :: "bytes list \<Rightarrow> bytes" where
  "concatBytes [] = []"
| "concatBytes (p # ps) = p @ concatBytes ps"

subsection \<open>VIDs that survive the wire\<close>

text \<open>
  A VID the codec can carry: plain text that fits a variable-data field.
\<close>

definition vidOk :: "jsstr \<Rightarrow> bool" where
  "vidOk v \<longleftrightarrow> plainText v \<and> length (textEncode v) \<le> 3 * (2 ^ 24 - 1)"

definition vidListOk :: "jsstr list \<Rightarrow> bool" where
  "vidListOk vs \<longleftrightarrow> list_all vidOk vs \<and> length vs \<le> MAX_HOPS \<and>
     length (concat (map bareVidBytes vs)) \<le> MAX_FIELD_SIZE"

lemma vidOk_var: "vidOk v \<Longrightarrow> varOk TSP_VID (textEncode v)"
  by (simp add: vidOk_def varOk_def consts_def)

lemma varOk_Nil: "i < 64 \<Longrightarrow> varOk i []"
  by (simp add: varOk_def)

lemma bareVidBytes_pos: "0 < length (bareVidBytes v)"
  by (simp add: bareVidBytes_def length_encodeVariableData)

lemma bareVidBytes_aligned [aligned]: "3 dvd length (bareVidBytes v)"
  by (simp add: bareVidBytes_def encodeVariableData_aligned)

lemma bareVids_aligned [aligned]: "3 dvd length (concat (map bareVidBytes vs))"
  by (induction vs) (auto simp: bareVidBytes_aligned)

lemma encodeSenderField_eq: "encodeSenderField v = bareVidBytes v"
  by (simp add: encodeSenderField_def bareVidBytes_def)

text \<open>The alignment guard of \<open>encodeVidList\<close> never fires.\<close>

lemma encodeVidList_eq:
  "encodeVidList vs =
     Inr (encodeCount TSP_HOP_LIST (length (concat (map bareVidBytes vs)) div 3)
          @ concat (map bareVidBytes vs))"
  using bareVids_aligned [of vs]
  by (simp add: encodeVidList_def Let_def bareVidBytes_def [abs_def] dvd_eq_mod_eq_0)

lemma decode_vid_field:
  assumes "vidOk v" and "drop p s = bareVidBytes v @ rest"
  shows "decodeVariableData TSP_VID s p = Some (textEncode v, p + length (bareVidBytes v))"
    and "textDecodeFatal (textEncode v) = Some v"
  using decodeVariableData_encode [OF vidOk_var [OF assms(1)], of p s rest] assms
    textDecode_textEncode [of v]
  by (simp_all add: bareVidBytes_def vidOk_def)

subsection \<open>Reading a VID list back\<close>

lemma readVids_stop: "groupEnd \<le> pos \<Longrightarrow> readVids s groupEnd pos vids = Inr (vids, pos)"
  by (simp add: readVids.simps)

lemma readVids_encoded:
  assumes "list_all vidOk vs" and "length acc + length vs \<le> MAX_HOPS"
    and "drop p s = concat (map bareVidBytes vs) @ rest"
    and "groupEnd = p + length (concat (map bareVidBytes vs))"
  shows "readVids s groupEnd p acc = Inr (acc @ vs, groupEnd)"
  using assms
proof (induction vs arbitrary: acc p)
  case Nil
  then show ?case by (simp add: readVids_stop)
next
  case (Cons v vs)
  let ?p' = "p + length (bareVidBytes v)"
  have at: "drop p s = bareVidBytes v @ (concat (map bareVidBytes vs) @ rest)"
    using Cons.prems(3) by simp
  have v: "vidOk v" using Cons.prems(1) by simp
  have lt: "p < groupEnd" using Cons.prems(4) bareVidBytes_pos [of v] by simp
  have "readVids s groupEnd p acc = readVids s groupEnd ?p' (acc @ [v])"
    using lt decode_vid_field [OF v at] Cons.prems(2) by (subst readVids.simps) simp
  also have "\<dots> = Inr ((acc @ [v]) @ vs, groupEnd)"
    using Cons.prems drop_past [OF at] by (intro Cons.IH) auto
  finally show ?case by simp
qed

lemma decodeVidList_encodeVidList:
  assumes ok: "vidListOk vs" and at: "drop p s = projr (encodeVidList vs) @ rest"
  shows "decodeVidList s p = Inr (vs, p + length (projr (encodeVidList vs)))"
proof -
  let ?body = "concat (map bareVidBytes vs)"
  let ?q = "length ?body div 3"
  let ?c = "encodeCount TSP_HOP_LIST ?q"
  have q: "?q * 3 = length ?body" using bareVids_aligned [of vs] by simp
  have bound: "length ?body \<le> MAX_FIELD_SIZE" using ok by (simp add: vidListOk_def)
  then have q30: "?q < 2 ^ 30" by (simp add: MAX_FIELD_SIZE_eq less_mult_imp_div_less)
  have at': "drop p s = ?c @ (?body @ rest)" using at by (simp add: encodeVidList_eq)
  have dc: "decodeCount TSP_HOP_LIST s p = Some (?q, p + length ?c)"
    using q30 at' by (intro decodeCount_encodeCount) (auto simp: consts_def)
  have at2: "drop (p + length ?c) s = ?body @ rest" by (rule drop_past [OF at'])
  have "?c \<noteq> []" using length_encodeCount [of TSP_HOP_LIST ?q] by (auto split: if_splits)
  then have "p + length (?c @ ?body) \<le> length s"
    using at' by (intro drop_room [of _ _ _ rest]) auto
  then have room: "p + length ?c + length ?body \<le> length s" by (simp only: length_append add.assoc)
  have rv: "readVids s (p + length ?c + length ?body) (p + length ?c) [] =
      Inr (vs, p + length ?c + length ?body)"
    using readVids_encoded [OF _ _ at2 refl, of "[]"] ok by (simp add: vidListOk_def)
  show ?thesis
    using dc rv room bound by (simp add: decodeVidList_def Let_def q encodeVidList_eq add.assoc)
qed

lemma readVids_too_many:
  assumes "list_all vidOk vs" and "MAX_HOPS < length acc + length vs" and "length acc \<le> MAX_HOPS"
    and "drop p s = concat (map bareVidBytes vs) @ rest"
    and "groupEnd = p + length (concat (map bareVidBytes vs))"
  shows "readVids s groupEnd p acc = Inl (JsError ''tsp: too many hops'')"
  using assms
proof (induction vs arbitrary: acc p)
  case Nil
  then show ?case by simp
next
  case (Cons v vs)
  let ?p' = "p + length (bareVidBytes v)"
  have at: "drop p s = bareVidBytes v @ (concat (map bareVidBytes vs) @ rest)"
    using Cons.prems(4) by simp
  have v: "vidOk v" using Cons.prems(1) by simp
  have lt: "p < groupEnd" using Cons.prems(5) bareVidBytes_pos [of v] by simp
  show ?case
  proof (cases "MAX_HOPS \<le> length acc")
    case True
    with lt show ?thesis by (subst readVids.simps) simp
  next
    case False
    then have "readVids s groupEnd p acc = readVids s groupEnd ?p' (acc @ [v])"
      using lt decode_vid_field [OF v at] by (subst readVids.simps) simp
    also have "\<dots> = Inl (JsError ''tsp: too many hops'')"
      using Cons.prems False drop_past [OF at] by (intro Cons.IH) auto
    finally show ?thesis .
  qed
qed

text \<open>A list of more than \<open>MAX_HOPS\<close> VIDs is written without complaint and refused when read.\<close>

lemma decodeVidList_too_many:
  assumes ok: "list_all vidOk vs" "MAX_HOPS < length vs"
    and small: "length (concat (map bareVidBytes vs)) \<le> MAX_FIELD_SIZE"
    and at: "drop p s = projr (encodeVidList vs) @ rest"
  shows "decodeVidList s p = Inl (JsError ''tsp: too many hops'')"
proof -
  let ?body = "concat (map bareVidBytes vs)"
  let ?q = "length ?body div 3"
  let ?c = "encodeCount TSP_HOP_LIST ?q"
  have q: "?q * 3 = length ?body" using bareVids_aligned [of vs] by simp
  have q30: "?q < 2 ^ 30" using small by (simp add: MAX_FIELD_SIZE_eq less_mult_imp_div_less)
  have at': "drop p s = ?c @ (?body @ rest)" using at by (simp add: encodeVidList_eq)
  have dc: "decodeCount TSP_HOP_LIST s p = Some (?q, p + length ?c)"
    using q30 at' by (intro decodeCount_encodeCount) (auto simp: consts_def)
  have at2: "drop (p + length ?c) s = ?body @ rest" by (rule drop_past [OF at'])
  have "?c \<noteq> []" using length_encodeCount [of TSP_HOP_LIST ?q] by (auto split: if_splits)
  then have "p + length (?c @ ?body) \<le> length s"
    using at' by (intro drop_room [of _ _ _ rest]) auto
  then have room: "p + length ?c + length ?body \<le> length s" by (simp only: length_append add.assoc)
  have rv: "readVids s (p + length ?c + length ?body) (p + length ?c) [] = Inl (JsError ''tsp: too many hops'')"
    using readVids_too_many [OF ok(1) _ _ at2 refl, of "[]"] ok(2) by simp
  show ?thesis
    using dc rv room small by (simp add: decodeVidList_def Let_def q)
qed

lemma readVids_inside:
  "readVids s groupEnd p acc = Inr (vs, p') \<Longrightarrow> p \<le> p' \<and> length vs \<le> max MAX_HOPS (length acc)"
proof (induction s groupEnd p acc rule: readVids.induct)
  case (1 s groupEnd p acc)
  show ?case
  proof (cases "p < groupEnd")
    case True
    with "1.prems" obtain vid q v where r: "length acc < MAX_HOPS"
      "decodeVariableData TSP_VID s p = Some (vid, q)" "textDecodeFatal vid = Some v"
      "readVids s groupEnd q (acc @ [v]) = Inr (vs, p')"
      by (subst (asm) readVids.simps) (auto split: option.splits if_splits)
    from "1.IH" [OF True _ r(2) refl r(3) r(4)] r(1) decodeVariableData_inside [OF r(2)]
    show ?thesis by auto
  next
    case False
    with "1.prems" show ?thesis by (simp add: readVids_stop)
  qed
qed

lemma decodeVidList_inside:
  "decodeVidList s p = Inr (vs, p') \<Longrightarrow> p < p' \<and> p' \<le> length s \<and> length vs \<le> MAX_HOPS"
  by (fastforce simp: decodeVidList_def Let_def bindE_Inr split: option.splits prod.splits if_splits
      dest: decodeCount_inside readVids_inside)

interpretation vidList: aligned_codec "\<lambda>vs. projr (encodeVidList vs)"
    "\<lambda>s p. toOption (decodeVidList s p)" vidListOk
proof (unfold_locales, goal_cases)
  case (1 v p s rest)
  then show ?case using decodeVidList_encodeVidList by simp
next
  case (2 s p v p')
  then show ?case using decodeVidList_inside by simp
next
  case (3 v)
  show ?case by (simp add: encodeVidList_eq encodeCount_aligned bareVids_aligned)
qed

subsection \<open>Reading the other fields back\<close>

lemma decodePadding_empty [enc_dec]:
  assumes "drop p s = encodeEmptyPadding @ rest"
  shows "decodePadding s p = Inr (p + length encodeEmptyPadding)"
  using decodeVariableData_encode [of TSP_PLAINTEXT "[]" p s rest] assms
  by (simp add: decodePadding_def encodeEmptyPadding_def varOk_def consts_def)

lemma length_encodeEmptyPadding [simp]: "length encodeEmptyPadding = 3"
  by (simp add: encodeEmptyPadding_def length_encodeVariableData consts_def nextMul3_def)

lemma encodeDigest_eq: "length d = 32 \<Longrightarrow> encodeDigest d = Inr (encodeFixedData TSP_SHA256 d)"
  by (simp add: encodeDigest_def field_lens)

lemma encodeNonce_eq: "length n = 16 \<Longrightarrow> encodeNonce n = Inr (encodeFixedData TSP_NONCE n)"
  by (simp add: encodeNonce_def field_lens)

lemma decodeDigest_encode [enc_dec]:
  assumes "length d = 32" and "drop p s = encodeFixedData TSP_SHA256 d @ rest"
  shows "decodeDigest s p = Inr (d, p + length (encodeFixedData TSP_SHA256 d))"
  using decodeFixedData_encodeFixedData [OF assms(2)] assms(1)
  by (simp add: decodeDigest_def field_lens)

lemma decodeNonce_encode [enc_dec]:
  assumes "length n = 16" and "drop p s = encodeFixedData TSP_NONCE n @ rest"
  shows "decodeNonce s p = Inr (n, p + length (encodeFixedData TSP_NONCE n))"
  using decodeFixedData_encodeFixedData [OF assms(2)] assms(1)
  by (simp add: decodeNonce_def field_lens)

lemma decodeDigest_length: "decodeDigest s p = Inr (d, p') \<Longrightarrow> length d = 32"
  by (auto simp: decodeDigest_def field_lens dest: decodeFixedData_length)

lemma decodeNonce_length: "decodeNonce s p = Inr (n, p') \<Longrightarrow> length n = 16"
  by (auto simp: decodeNonce_def field_lens dest: decodeFixedData_length)

lemma concatBytes_eq [simp]: "concatBytes ps = concat ps"
  by (induction ps) auto

subsection \<open>Properties\<close>

text \<open>A hop list is read back as it was written, in order, at any offset and whatever follows it; a list that
  is read holds at most \<open>MAX_HOPS\<close> identifiers and ends inside the input.\<close>

theorem vid_list_roundtrip:
  assumes "vidListOk vs"
  shows "(\<exists>b. encodeVidList vs = Inr b \<and>
      decodeVidList (pre @ b @ rest) (length pre) = Inr (vs, length pre + length b)) \<and>
    (\<forall>s p ws p'. decodeVidList s p = Inr (ws, p') \<longrightarrow> p < p' \<and> p' \<le> length s \<and> length ws \<le> MAX_HOPS)"
proof -
  obtain b where b: "encodeVidList vs = Inr b" by (simp add: encodeVidList_eq)
  then have "decodeVidList (pre @ b @ rest) (length pre) = Inr (vs, length pre + length b)"
    using decodeVidList_encodeVidList [OF assms, of "length pre" "pre @ b @ rest" rest] by simp
  with b decodeVidList_inside show ?thesis by blast
qed

theorem vid_list_roundtrip_witness:
  "\<exists>b. encodeVidList [] = Inr b \<and> decodeVidList ([1] @ b @ [2]) (length [1 :: byte]) = Inr ([], length [1 :: byte] + length b)"
proof -
  have "vidListOk []" by (simp add: vidListOk_def)
  from vid_list_roundtrip [OF this] show ?thesis by blast
qed

end
