(* ===== verification/Tsp_Control.thy ===== *)
theory Tsp_Control
  imports Tsp_Fields
begin

text \<open>
  The relationship-forming control messages of \<open>packages/tsp-js/src/v1/control.ts\<close>: invite
  (\<open>XRFI\<close>), accept (\<open>XRFA\<close>) and cancel (\<open>XRFD\<close>), their self-addressing digest, and the referral
  an invite may carry. SHA-256 (\<open>@noble/hashes\<close>) is a parameter of the definitions that call it;
  the only fact used of it is that its output has 32 bytes.
\<close>

datatype controlType = Invite | Accept | Cancel

record referral =
  newVid :: jsstr
  newSignature :: bytes

record controlMessage =
  controlType :: controlType
  ownDigest :: "bytes option"
  inReplyTo :: "bytes option"
  inviteNonce :: "bytes option"
  replyRoute :: "jsstr list"
  inviteReferral :: "referral option"

type_synonym hash = "bytes \<Rightarrow> bytes"

definition SAID_DUMMY :: byte where "SAID_DUMMY = 0x23"

fun MARKERS :: "controlType \<Rightarrow> bytes" where
  "MARKERS Invite = XRFI"
| "MARKERS Accept = XRFA"
| "MARKERS Cancel = XRFD"

subsection \<open>The self-addressing digest\<close>

definition deriveSaid :: "hash \<Rightarrow> bytes \<Rightarrow> bytes \<Rightarrow> bytes \<Rightarrow> bytes \<Rightarrow> bytes" where
  "deriveSaid sha envelopeFields typeCode before after =
     sha (concatBytes [envelopeFields, typeCode, before, replicate ENCODED_DIGEST_LEN SAID_DUMMY, after])"

definition inviteDigestAfter :: "bytes \<Rightarrow> jsstr list \<Rightarrow> referral option \<Rightarrow> tsp_error + bytes" where
  "inviteDigestAfter nonce route ref =
     bindE (encodeNonce nonce) (\<lambda>nonceOut.
     bindE (vidListBytes route) (\<lambda>routeOut.
       Inr (concatBytes [nonceOut, routeOut,
         (case ref of Some r \<Rightarrow> bareVidBytes (newVid r) | None \<Rightarrow> emptyVidListBytes)])))"

definition referralSignedData ::
    "jsstr \<Rightarrow> bytes \<Rightarrow> bytes \<Rightarrow> jsstr list \<Rightarrow> jsstr \<Rightarrow> tsp_error + bytes" where
  "referralSignedData senderVid digest nonce route vid =
     bindE (encodeDigest digest) (\<lambda>digestOut.
     bindE (encodeNonce nonce) (\<lambda>nonceOut.
     bindE (vidListBytes route) (\<lambda>routeOut.
       Inr (concatBytes [XRFI, senderFieldBytes senderVid, digestOut, nonceOut, routeOut,
                         bareVidBytes vid]))))"

definition requireDigestMatch :: "bytes \<Rightarrow> bytes \<Rightarrow> tsp_error + unit" where
  "requireDigestMatch recomputed carried =
     throwIf (length recomputed \<noteq> length carried)
       (JsError ''tsp: TSP_Digest does not match the message it identifies'')
     (throwIf (fold (\<lambda>(a, b) diff. diff OR (a XOR b)) (zip recomputed carried) (0 :: byte) \<noteq> 0)
       (JsError ''tsp: TSP_Digest does not match the message it identifies'') (Inr ()))"

subsection \<open>The referral field and its signature attachment\<close>

definition SIG_GROUP_QUADLETS :: nat where "SIG_GROUP_QUADLETS = 22"
definition ATTACH_GROUP_QUADLETS :: nat where "ATTACH_GROUP_QUADLETS = SIG_GROUP_QUADLETS + 1"
definition SIG_INDEX :: nat where "SIG_INDEX = 0"

definition encodeSignatureAttachment :: "bytes \<Rightarrow> tsp_error + bytes" where
  "encodeSignatureAttachment signature =
     throwIf (length signature \<noteq> SIG_LEN) (JsError ''tsp: signature must be 64 bytes'')
       (Inr (encodeCount TSP_ATTACH_GRP ATTACH_GROUP_QUADLETS
             @ encodeCount TSP_INDEX_SIG_GRP SIG_GROUP_QUADLETS
             @ encodeIndexedEd25519Signature SIG_INDEX signature))"

text \<open>
  The two count codes of an attachment, read one after the other; a count that does not decode
  leaves the cursor where it is.
\<close>

definition readAttachCounts :: "bytes \<Rightarrow> offset \<Rightarrow> nat option \<times> nat option \<times> offset" where
  "readAttachCounts s pos =
     (let attach = decodeCount TSP_ATTACH_GRP s pos;
          pos1 = (case attach of None \<Rightarrow> pos | Some (_, q) \<Rightarrow> q);
          grp = decodeCount TSP_INDEX_SIG_GRP s pos1;
          pos2 = (case grp of None \<Rightarrow> pos1 | Some (_, q) \<Rightarrow> q)
      in (map_option fst attach, map_option fst grp, pos2))"

definition decodeSignatureAttachment :: "bytes \<Rightarrow> offset \<Rightarrow> tsp_error + (bytes \<times> offset)" where
  "decodeSignatureAttachment s pos =
     (case readAttachCounts s pos of (attach, grp, pos2) \<Rightarrow>
        throwIf (attach \<noteq> Some ATTACH_GROUP_QUADLETS \<or> grp \<noteq> Some SIG_GROUP_QUADLETS)
          (JsError ''tsp: unexpected referral signature group size'')
        (throwIf (pos2 + 2 + SIG_LEN > length s) (JsError ''tsp: truncated referral signature'')
        (let word = push_bit 16 (unat (s ! pos2)) OR push_bit 8 (unat (s ! (pos2 + 1)))
         in throwIf (drop_bit 18 word \<noteq> ED25519_SIGNATURE)
              (JsError ''tsp: referral signature is not the indexed Ed25519 code'')
            (Inr (slice s (pos2 + 2) (pos2 + 2 + SIG_LEN), pos2 + 2 + SIG_LEN)))))"

definition encodeReferral :: "referral option \<Rightarrow> tsp_error + bytes" where
  "encodeReferral ref =
     (case ref of
        None \<Rightarrow> Inr (encodeCount TSP_HOP_LIST 0)
      | Some r \<Rightarrow>
          bindE (encodeSignatureAttachment (newSignature r)) (\<lambda>att.
            let body = encodeVariableData TSP_VID (textEncode (newVid r)) @ att
            in throwIf (length body mod 3 \<noteq> 0)
                 (JsError ''tsp: referral group not a multiple of 3 bytes'')
                 (Inr (encodeCount TSP_HOP_LIST (length body div 3) @ body))))"

definition decodeReferral :: "bytes \<Rightarrow> offset \<Rightarrow> tsp_error + (referral option \<times> offset)" where
  "decodeReferral s pos =
     (case decodeCount TSP_HOP_LIST s pos of
        None \<Rightarrow> Inl (JsError ''tsp: missing referral field'')
      | Some (quadlets, pos1) \<Rightarrow>
          if quadlets = 0 then Inr (None, pos1)
          else let groupEnd = pos1 + quadlets * 3 in
            throwIf (groupEnd > length s) (JsError ''tsp: referral field overruns the payload'')
            (case decodeVariableData TSP_VID s pos1 of
               None \<Rightarrow> Inl (JsError ''tsp: malformed VID in referral field'')
             | Some (vidBytes, pos2) \<Rightarrow>
                 (case textDecodeFatal vidBytes of
                    None \<Rightarrow> Inl (JsError ''tsp: referral VID is not UTF-8'')
                  | Some vid \<Rightarrow>
                      throwIf (length vid = 0) (JsError ''tsp: referral field names the NULL VID'')
                      (bindE (decodeSignatureAttachment s pos2) (\<lambda>(signature, pos3).
                         throwIf (pos3 \<noteq> groupEnd)
                           (JsError ''tsp: referral field does not fill its own count'')
                           (Inr (Some \<lparr>newVid = vid, newSignature = signature\<rparr>, pos3)))))))"

subsection \<open>Control bodies\<close>

definition encodeControlBody ::
    "hash \<Rightarrow> controlMessage \<Rightarrow> jsstr \<Rightarrow> bytes \<Rightarrow> tsp_error + (bytes \<times> bytes)" where
  "encodeControlBody sha control senderVid envelopeFields =
     (let senderField = senderFieldBytes senderVid;
          marker = MARKERS (controlType control)
      in case controlType control of
        Invite \<Rightarrow>
          (case inviteNonce control of
             None \<Rightarrow> Inl (JsError ''tsp: an invite must carry a 128-bit nonce'')
           | Some nonce \<Rightarrow>
               throwIf (length nonce \<noteq> NONCE_LEN)
                 (JsError ''tsp: an invite must carry a 128-bit nonce'')
               (bindE (inviteDigestAfter nonce (replyRoute control) (inviteReferral control)) (\<lambda>after.
                let digest = deriveSaid sha envelopeFields marker senderField after in
                bindE (encodeDigest digest) (\<lambda>digestOut.
                bindE (encodeNonce nonce) (\<lambda>nonceOut.
                bindE (encodeVidList (replyRoute control)) (\<lambda>routeOut.
                bindE (encodeReferral (inviteReferral control)) (\<lambda>refOut.
                  Inr (marker @ senderField @ digestOut @ nonceOut @ routeOut @ refOut
                       @ encodeEmptyPadding, digest))))))))
      | Accept \<Rightarrow>
          (case inReplyTo control of
             None \<Rightarrow> Inl (JsError ''tsp: an accept must name the invite it answers'')
           | Some echoed \<Rightarrow>
               throwIf (length echoed \<noteq> DIGEST_LEN)
                 (JsError ''tsp: an accept must name the invite it answers'')
               (bindE (encodeDigest echoed) (\<lambda>echoedOut.
                let before = senderField @ echoedOut;
                    digest = deriveSaid sha envelopeFields marker before []
                in bindE (encodeDigest digest) (\<lambda>digestOut.
                     Inr (marker @ before @ digestOut @ encodeEmptyPadding, digest)))))
      | Cancel \<Rightarrow>
          (case inReplyTo control of
             None \<Rightarrow> Inl (JsError ''tsp: a cancel must name the relationship it ends'')
           | Some reference \<Rightarrow>
               throwIf (length reference \<noteq> DIGEST_LEN)
                 (JsError ''tsp: a cancel must name the relationship it ends'')
               (bindE (encodeDigest reference) (\<lambda>refOut.
                  Inr (marker @ senderField @ refOut @ encodeEmptyPadding, reference)))))"

text \<open>
  \<open>decodeControlBody\<close> starts past the sender field; its caller never looks at the cursor again,
  so only the message and the thread digest are returned.
\<close>

definition decodeControlBody ::
    "hash \<Rightarrow> controlType \<Rightarrow> bytes \<Rightarrow> offset \<Rightarrow> bytes \<Rightarrow> bytes \<Rightarrow> tsp_error + (controlMessage \<times> bytes)" where
  "decodeControlBody sha ct frame pos senderField envelopeFields =
     (let marker = MARKERS ct in
      bindE (decodeDigest frame pos) (\<lambda>(firstDigest, pos1).
      case ct of
        Invite \<Rightarrow>
          bindE (decodeNonce frame pos1) (\<lambda>(nonce, pos2).
          bindE (decodeVidList frame pos2) (\<lambda>(route, pos3).
          bindE (decodeReferral frame pos3) (\<lambda>(ref, pos4).
          bindE (decodePadding frame pos4) (\<lambda>_.
          bindE (inviteDigestAfter nonce route ref) (\<lambda>after.
          bindE (requireDigestMatch (deriveSaid sha envelopeFields marker senderField after) firstDigest)
            (\<lambda>_. Inr (\<lparr>controlType = Invite, ownDigest = Some firstDigest, inReplyTo = None,
                       inviteNonce = Some nonce, replyRoute = route, inviteReferral = ref\<rparr>,
                      firstDigest)))))))
      | Accept \<Rightarrow>
          bindE (decodeDigest frame pos1) (\<lambda>(own, pos2).
          bindE (decodePadding frame pos2) (\<lambda>_.
          bindE (encodeDigest firstDigest) (\<lambda>echoedOut.
          bindE (requireDigestMatch (deriveSaid sha envelopeFields marker (senderField @ echoedOut) []) own)
            (\<lambda>_. Inr (\<lparr>controlType = Accept, ownDigest = Some own, inReplyTo = Some firstDigest,
                       inviteNonce = None, replyRoute = [], inviteReferral = None\<rparr>, own)))))
      | Cancel \<Rightarrow>
          bindE (decodePadding frame pos1) (\<lambda>_.
            Inr (\<lparr>controlType = Cancel, ownDigest = Some firstDigest, inReplyTo = Some firstDigest,
                  inviteNonce = None, replyRoute = [], inviteReferral = None\<rparr>, firstDigest))))"

subsection \<open>The digest comparison\<close>

lemma byte_or_zero: "(a::byte) OR b = 0 \<longleftrightarrow> a = 0 \<and> b = 0"
  by (auto simp: bit_eq_iff bit_or_iff)

lemma byte_xor_zero: "(a::byte) XOR b = 0 \<longleftrightarrow> a = b"
  by (auto simp: bit_eq_iff bit_xor_iff)

lemma fold_diff_zero:
  "length xs = length ys \<Longrightarrow>
   fold (\<lambda>(a, b) diff. diff OR (a XOR b)) (zip xs ys) acc = (0 :: byte) \<longleftrightarrow> acc = 0 \<and> xs = ys"
  by (induction xs ys arbitrary: acc rule: list_induct2) (auto simp: byte_or_zero byte_xor_zero)

lemma requireDigestMatch_iff: "requireDigestMatch a b = Inr u \<longleftrightarrow> a = b"
  by (auto simp: requireDigestMatch_def fold_diff_zero)

lemma requireDigestMatch_refl [simp]: "requireDigestMatch a a = Inr ()"
  by (simp add: requireDigestMatch_iff)

subsection \<open>The signature attachment\<close>

lemmas sig_consts = SIG_GROUP_QUADLETS_def ATTACH_GROUP_QUADLETS_def SIG_INDEX_def

lemma readAttachCounts_encoded:
  assumes "drop p s = encodeCount TSP_ATTACH_GRP 23 @ encodeCount TSP_INDEX_SIG_GRP 22 @ rest"
  shows "readAttachCounts s p = (Some 23, Some 22, p + 6)"
    and "drop (p + 6) s = rest"
proof -
  have a: "decodeCount TSP_ATTACH_GRP s p = Some (23, p + 3)"
    using decodeCount_encodeCount [OF _ _ assms] by (simp add: length_encodeCount consts_def)
  have d: "drop (p + 3) s = encodeCount TSP_INDEX_SIG_GRP 22 @ rest"
    using assms by (intro drop_past_len) (auto simp: length_encodeCount)
  have b: "decodeCount TSP_INDEX_SIG_GRP s (p + 3) = Some (22, p + 6)"
    using decodeCount_encodeCount [OF _ _ d] by (simp add: length_encodeCount consts_def)
  show "readAttachCounts s p = (Some 23, Some 22, p + 6)"
    by (simp add: readAttachCounts_def a b)
  have "drop (p + 3 + 3) s = rest"
    using d by (rule drop_past_len) (simp add: length_encodeCount)
  then show "drop (p + 6) s = rest" by (simp add: add.commute)
qed

lemma readAttachCounts_inside:
  assumes "readAttachCounts s p = (Some a, Some b, q)"
  shows "p < q \<and> q \<le> length s"
proof -
  from assms obtain q1 where "decodeCount TSP_ATTACH_GRP s p = Some (a, q1)"
    "decodeCount TSP_INDEX_SIG_GRP s q1 = Some (b, q)"
    by (auto simp: readAttachCounts_def Let_def split: option.splits)
  then show ?thesis using decodeCount_inside by (metis less_trans)
qed

text \<open>The bytes of an indexed signature at key index 0.\<close>

lemma indexed_code_read:
  assumes at: "drop q s = encodeIndexedEd25519Signature 0 sig @ rest" and "length sig = 64"
  shows "s ! q = 4" and "s ! (q + 1) = 0" and "q + 2 + 64 \<le> length s"
    and "slice s (q + 2) (q + 2 + 64) = sig" and "drop (q + 66) s = rest"
proof -
  have at': "drop q s = [4, 0] @ (sig @ rest)" using at by (simp add: encodeIndexed_zero)
  show "s ! q = 4" "s ! (q + 1) = 0"
    using drop_nth [OF at', of 0] drop_nth [OF at', of 1] by simp_all
  have d: "drop (q + 2) s = sig @ rest" using at' by (intro drop_past_len) auto
  have ne: "sig \<noteq> []" using assms(2) by auto
  show "q + 2 + 64 \<le> length s" using drop_room [OF d ne] assms(2) by simp
  show "slice s (q + 2) (q + 2 + 64) = sig" using d by (rule slice_at_end) (simp add: assms(2))
  have "drop (q + 2 + 64) s = rest" using d by (rule drop_past_len) (simp add: assms(2))
  then show "drop (q + 66) s = rest" by (simp add: add.commute)
qed

definition attachmentBytes :: "bytes \<Rightarrow> bytes" where
  "attachmentBytes sig = encodeCount TSP_ATTACH_GRP 23 @ encodeCount TSP_INDEX_SIG_GRP 22 @
     encodeIndexedEd25519Signature 0 sig"

lemma length_attachmentBytes: "length sig = 64 \<Longrightarrow> length (attachmentBytes sig) = 72"
  by (simp add: attachmentBytes_def length_encodeCount)

lemma encodeSignatureAttachment_eq:
  "length sig = 64 \<Longrightarrow> encodeSignatureAttachment sig = Inr (attachmentBytes sig)"
  by (simp add: encodeSignatureAttachment_def attachmentBytes_def field_lens sig_consts)

lemma decodeSignatureAttachment_encoded:
  assumes "length sig = 64" and at: "drop p s = attachmentBytes sig @ rest"
  shows "decodeSignatureAttachment s p = Inr (sig, p + 72)"
proof -
  have at': "drop p s = encodeCount TSP_ATTACH_GRP 23 @ encodeCount TSP_INDEX_SIG_GRP 22 @
      (encodeIndexedEd25519Signature 0 sig @ rest)"
    using at by (simp add: attachmentBytes_def)
  note rc = readAttachCounts_encoded [OF at']
  note ic = indexed_code_read [OF rc(2) assms(1)]
  have "drop_bit 18 (push_bit 16 (unat (s ! (p + 6))) OR push_bit 8 (unat (s ! (p + 6 + 1)))) = 1"
    using ic by (simp add: drop_bit_eq_div push_bit_eq_mult)
  then show ?thesis
    unfolding decodeSignatureAttachment_def rc(1) prod.case Let_def
    using ic by (simp add: sig_consts field_lens consts_def)
qed

lemma decodeSignatureAttachment_inside:
  "decodeSignatureAttachment s p = Inr (sig, p') \<Longrightarrow> p < p' \<and> p' \<le> length s \<and> length sig = 64"
  by (fastforce simp: decodeSignatureAttachment_def Let_def field_lens length_slice
      split: prod.splits if_splits dest: readAttachCounts_inside)

subsection \<open>The referral field\<close>

fun referralOk :: "referral option \<Rightarrow> bool" where
  "referralOk None = True"
| "referralOk (Some r) =
     (vidOk (newVid r) \<and> newVid r \<noteq> [] \<and> length (newSignature r) = 64)"

definition referralBody :: "referral \<Rightarrow> bytes" where
  "referralBody r = bareVidBytes (newVid r) @ attachmentBytes (newSignature r)"

lemma vidOk_length: "vidOk v \<Longrightarrow> length (bareVidBytes v) < 50331660"
  using nextMul3_lt [of "length (textEncode v)"]
  by (simp add: vidOk_def bareVidBytes_def length_encodeVariableData)

lemma referralBody_facts:
  assumes "referralOk (Some r)"
  shows "3 dvd length (referralBody r)" and "length (referralBody r) div 3 < 2 ^ 30"
    and "length (referralBody r) div 3 \<noteq> 0"
  using assms vidOk_length [of "newVid r"] bareVidBytes_aligned [of "newVid r"]
  by (auto simp: referralBody_def length_attachmentBytes intro!: dvd_add)

lemma encodeReferral_eq:
  "encodeReferral None = Inr (encodeCount TSP_HOP_LIST 0)"
  "referralOk (Some r) \<Longrightarrow> encodeReferral (Some r) =
     Inr (encodeCount TSP_HOP_LIST (length (referralBody r) div 3) @ referralBody r)"
  using referralBody_facts(1) [of r]
  by (simp_all add: encodeReferral_def encodeSignatureAttachment_eq Let_def referralBody_def
      bareVidBytes_def dvd_eq_mod_eq_0)

lemma decodeReferral_encoded:
  assumes ok: "referralOk ref" and at: "drop p s = projr (encodeReferral ref) @ rest"
  shows "decodeReferral s p = Inr (ref, p + length (projr (encodeReferral ref)))"
proof (cases ref)
  case None
  then have "decodeCount TSP_HOP_LIST s p = Some (0, p + length (encodeCount TSP_HOP_LIST 0))"
    using at by (intro decodeCount_encodeCount) (auto simp: encodeReferral_eq consts_def)
  with None show ?thesis by (simp add: decodeReferral_def encodeReferral_eq)
next
  case (Some r)
  let ?b = "referralBody r"
  let ?c = "encodeCount TSP_HOP_LIST (length ?b div 3)"
  let ?v = "bareVidBytes (newVid r)"
  have ok': "referralOk (Some r)" using ok Some by simp
  note f = referralBody_facts [OF ok']
  have at1: "drop p s = ?c @ (?b @ rest)" using at Some ok' by (simp add: encodeReferral_eq)
  have dc: "decodeCount TSP_HOP_LIST s p = Some (length ?b div 3, p + length ?c)"
    using f at1 by (intro decodeCount_encodeCount) (auto simp: consts_def)
  have at2: "drop (p + length ?c) s = ?v @ (attachmentBytes (newSignature r) @ rest)"
    using drop_past [OF at1] by (simp add: referralBody_def)
  have "drop (p + length ?c) s = ?b @ rest" using at2 by (simp add: referralBody_def)
  moreover have "?b \<noteq> []" using f(3) by auto
  ultimately have room: "p + length ?c + length ?b \<le> length s" by (rule drop_room)
  note dv = decode_vid_field [OF _ at2]
  have sig: "decodeSignatureAttachment s (p + length ?c + length ?v) =
      Inr (newSignature r, p + length ?c + length ?v + 72)"
    using ok' drop_past [OF at2] by (intro decodeSignatureAttachment_encoded) auto
  have lb: "length ?b = length ?v + 72" using ok' by (simp add: referralBody_def length_attachmentBytes)
  have "p + length ?c + length ?b div 3 * 3 = p + length ?c + length ?b" using f(1) by simp
  then show ?thesis
    using dc f(3) room dv ok' sig lb Some
    by (simp add: decodeReferral_def Let_def encodeReferral_eq add.assoc)
qed

lemma decodeReferral_inside:
  assumes "decodeReferral s p = Inr (ref, p')"
  shows "p < p' \<and> p' \<le> length s"
proof -
  obtain n q where dc: "decodeCount TSP_HOP_LIST s p = Some (n, q)"
    using assms by (auto simp: decodeReferral_def split: option.splits)
  show ?thesis
  proof (cases "n = 0")
    case True
    with assms dc decodeCount_inside [OF dc] show ?thesis by (simp add: decodeReferral_def)
  next
    case False
    with assms dc obtain sig q2 where "decodeSignatureAttachment s q2 = Inr (sig, p')" "q < q2"
      by (auto simp: decodeReferral_def Let_def bindE_Inr split: option.splits if_splits
          dest!: decodeVariableData_inside)
    with decodeSignatureAttachment_inside decodeCount_inside [OF dc] show ?thesis
      by fastforce
  qed
qed

lemma encodeReferral_aligned [aligned]: "referralOk ref \<Longrightarrow> 3 dvd length (projr (encodeReferral ref))"
  using referralBody_facts(1)
  by (cases ref) (auto simp: encodeReferral_eq encodeCount_aligned simp del: referralOk.simps intro!: dvd_add)

interpretation referralField: aligned_codec "\<lambda>r. projr (encodeReferral r)"
    "\<lambda>s p. toOption (decodeReferral s p)" referralOk
proof (unfold_locales, goal_cases)
  case (1 v p s rest)
  then show ?case using decodeReferral_encoded by simp
next
  case (2 s p v p')
  then show ?case using decodeReferral_inside by simp
next
  case (3 v)
  then show ?case by (rule encodeReferral_aligned)
qed

subsection \<open>Control bodies read back\<close>

definition hashLen :: "hash \<Rightarrow> bool" where
  "hashLen sha \<longleftrightarrow> (\<forall>x. length (sha x) = 32)"

definition controlOk :: "controlMessage \<Rightarrow> bool" where
  "controlOk c = (case controlType c of
     Invite \<Rightarrow> (case inviteNonce c of None \<Rightarrow> False | Some n \<Rightarrow> length n = 16) \<and>
       vidListOk (replyRoute c) \<and> referralOk (inviteReferral c)
   | _ \<Rightarrow> (case inReplyTo c of None \<Rightarrow> False | Some d \<Rightarrow> length d = 32))"

text \<open>What the decoder makes of a message whose thread digest is \<open>dg\<close>.\<close>

definition asDecoded :: "controlMessage \<Rightarrow> bytes \<Rightarrow> controlMessage" where
  "asDecoded c dg = (case controlType c of
     Invite \<Rightarrow> \<lparr>controlType = Invite, ownDigest = Some dg, inReplyTo = None,
       inviteNonce = inviteNonce c, replyRoute = replyRoute c, inviteReferral = inviteReferral c\<rparr>
   | Accept \<Rightarrow> \<lparr>controlType = Accept, ownDigest = Some dg, inReplyTo = inReplyTo c,
       inviteNonce = None, replyRoute = [], inviteReferral = None\<rparr>
   | Cancel \<Rightarrow> \<lparr>controlType = Cancel, ownDigest = Some dg, inReplyTo = inReplyTo c,
       inviteNonce = None, replyRoute = [], inviteReferral = None\<rparr>)"

text \<open>The digest an encoded message identifies itself (or, for a cancel, the other message) by.\<close>

definition threadOf :: "hash \<Rightarrow> controlMessage \<Rightarrow> jsstr \<Rightarrow> bytes \<Rightarrow> bytes" where
  "threadOf sha c senderVid env = (case controlType c of
     Invite \<Rightarrow> deriveSaid sha env XRFI (senderFieldBytes senderVid)
       (projr (inviteDigestAfter (the (inviteNonce c)) (replyRoute c) (inviteReferral c)))
   | Accept \<Rightarrow> deriveSaid sha env XRFA
       (senderFieldBytes senderVid @ encodeFixedData TSP_SHA256 (the (inReplyTo c))) []
   | Cancel \<Rightarrow> the (inReplyTo c))"

text \<open>The fields after the sender field.\<close>

definition controlFields :: "hash \<Rightarrow> controlMessage \<Rightarrow> jsstr \<Rightarrow> bytes \<Rightarrow> bytes" where
  "controlFields sha c senderVid env = (case controlType c of
     Invite \<Rightarrow> encodeFixedData TSP_SHA256 (threadOf sha c senderVid env)
       @ encodeFixedData TSP_NONCE (the (inviteNonce c)) @ projr (encodeVidList (replyRoute c))
       @ projr (encodeReferral (inviteReferral c)) @ encodeEmptyPadding
   | Accept \<Rightarrow> encodeFixedData TSP_SHA256 (the (inReplyTo c))
       @ encodeFixedData TSP_SHA256 (threadOf sha c senderVid env) @ encodeEmptyPadding
   | Cancel \<Rightarrow> encodeFixedData TSP_SHA256 (the (inReplyTo c)) @ encodeEmptyPadding)"

lemma inviteDigestAfter_returns:
  "length n = 16 \<Longrightarrow> \<exists>a. inviteDigestAfter n route ref = Inr a"
  by (simp add: inviteDigestAfter_def encodeNonce_eq vidListBytes_def encodeVidList_eq)

lemma encodeReferral_returns: "referralOk ref \<Longrightarrow> \<exists>b. encodeReferral ref = Inr b"
  by (cases ref) (auto simp: encodeReferral_eq simp del: referralOk.simps)

lemma deriveSaid_length: "hashLen sha \<Longrightarrow> length (deriveSaid sha e m b a) = 32"
  by (simp add: deriveSaid_def hashLen_def)

lemma threadOf_length: "hashLen sha \<Longrightarrow> controlOk c \<Longrightarrow> length (threadOf sha c v env) = 32"
  by (auto simp: threadOf_def controlOk_def deriveSaid_length split: controlType.splits option.splits)

lemma encodeControlBody_eq:
  assumes h: "hashLen sha" and ok: "controlOk c"
  shows "encodeControlBody sha c v env =
    Inr (MARKERS (controlType c) @ senderFieldBytes v @ controlFields sha c v env, threadOf sha c v env)"
proof (cases "controlType c")
  case Invite
  with ok obtain n where n: "inviteNonce c = Some n" "length n = 16" "referralOk (inviteReferral c)"
    by (auto simp: controlOk_def split: option.splits)
  obtain a where a: "inviteDigestAfter n (replyRoute c) (inviteReferral c) = Inr a"
    using inviteDigestAfter_returns [OF n(2)] by blast
  obtain b where b: "encodeReferral (inviteReferral c) = Inr b"
    using encodeReferral_returns [OF n(3)] by blast
  show ?thesis
    using Invite n a b h
    by (simp add: encodeControlBody_def controlFields_def threadOf_def field_lens encodeVidList_eq
        encodeDigest_eq encodeNonce_eq deriveSaid_length Let_def)
next
  case Accept
  with ok obtain d where d: "inReplyTo c = Some d" "length d = 32"
    by (auto simp: controlOk_def split: option.splits)
  show ?thesis
    using Accept d h
    by (simp add: encodeControlBody_def controlFields_def threadOf_def field_lens
        encodeDigest_eq deriveSaid_length Let_def)
next
  case Cancel
  with ok obtain d where d: "inReplyTo c = Some d" "length d = 32"
    by (auto simp: controlOk_def split: option.splits)
  show ?thesis
    using Cancel d by (simp add: encodeControlBody_def controlFields_def threadOf_def field_lens
        encodeDigest_eq Let_def)
qed

lemma controlFields_aligned [aligned]:
  assumes "controlOk c" shows "3 dvd length (controlFields sha c v env)"
proof (cases "controlType c")
  case Invite
  with assms have "referralOk (inviteReferral c)" "vidListOk (replyRoute c)"
    by (auto simp: controlOk_def split: option.splits)
  with Invite show ?thesis
    using encodeReferral_aligned vidList.enc_aligned
    by (simp add: controlFields_def encodeFixedData_aligned)
qed (simp_all add: controlFields_def encodeFixedData_aligned)

lemma decodeControlBody_invite:
  assumes h: "hashLen sha" and ok: "controlOk c" and ty: "controlType c = Invite"
    and at: "drop p s = controlFields sha c v env @ rest"
  shows "decodeControlBody sha Invite s p (senderFieldBytes v) env =
    Inr (asDecoded c (threadOf sha c v env), threadOf sha c v env)"
proof -
  from ok ty obtain n where n: "inviteNonce c = Some n" "length n = 16"
      "referralOk (inviteReferral c)" "vidListOk (replyRoute c)"
    by (auto simp: controlOk_def split: option.splits)
  let ?d = "encodeFixedData TSP_SHA256 (threadOf sha c v env)" and ?n = "encodeFixedData TSP_NONCE n"
  let ?r = "projr (encodeVidList (replyRoute c))" and ?f = "projr (encodeReferral (inviteReferral c))"
  have a0: "drop p s = ?d @ (?n @ ?r @ ?f @ encodeEmptyPadding @ rest)"
    using at ty n by (simp add: controlFields_def)
  note a1 = drop_past [OF a0]
  note a2 = drop_past [OF a1]
  note a3 = drop_past [OF a2]
  note a4 = drop_past [OF a3]
  obtain a where a: "inviteDigestAfter n (replyRoute c) (inviteReferral c) = Inr a"
    using inviteDigestAfter_returns [OF n(2)] by blast
  have said: "deriveSaid sha env XRFI (senderFieldBytes v) a = threadOf sha c v env"
    using ty n a by (simp add: threadOf_def)
  show ?thesis
    using decodeDigest_encode [OF threadOf_length [OF h ok] a0] decodeNonce_encode [OF n(2) a1]
      decodeVidList_encodeVidList [OF n(4) a2] decodeReferral_encoded [OF n(3) a3]
      decodePadding_empty [OF a4] a said ty n
    by (simp add: decodeControlBody_def asDecoded_def)
qed

lemma decodeControlBody_accept:
  assumes h: "hashLen sha" and ok: "controlOk c" and ty: "controlType c = Accept"
    and at: "drop p s = controlFields sha c v env @ rest"
  shows "decodeControlBody sha Accept s p (senderFieldBytes v) env =
    Inr (asDecoded c (threadOf sha c v env), threadOf sha c v env)"
proof -
  from ok ty obtain d where d: "inReplyTo c = Some d" "length d = 32"
    by (auto simp: controlOk_def split: option.splits)
  let ?e = "encodeFixedData TSP_SHA256 d" and ?o = "encodeFixedData TSP_SHA256 (threadOf sha c v env)"
  have a0: "drop p s = ?e @ (?o @ encodeEmptyPadding @ rest)"
    using at ty d by (simp add: controlFields_def)
  note a1 = drop_past [OF a0]
  note a2 = drop_past [OF a1]
  have said: "deriveSaid sha env XRFA (senderFieldBytes v @ ?e) [] = threadOf sha c v env"
    using ty d by (simp add: threadOf_def)
  show ?thesis
    using decodeDigest_encode [OF d(2) a0] decodeDigest_encode [OF threadOf_length [OF h ok] a1]
      decodePadding_empty [OF a2] said ty d
    by (simp add: decodeControlBody_def asDecoded_def encodeDigest_eq)
qed

lemma decodeControlBody_cancel:
  assumes ok: "controlOk c" and ty: "controlType c = Cancel"
    and at: "drop p s = controlFields sha c v env @ rest"
  shows "decodeControlBody sha Cancel s p (senderFieldBytes v) env =
    Inr (asDecoded c (threadOf sha c v env), threadOf sha c v env)"
proof -
  from ok ty obtain d where d: "inReplyTo c = Some d" "length d = 32"
    by (auto simp: controlOk_def split: option.splits)
  have a0: "drop p s = encodeFixedData TSP_SHA256 d @ (encodeEmptyPadding @ rest)"
    using at ty d by (simp add: controlFields_def)
  show ?thesis
    using decodeDigest_encode [OF d(2) a0] decodePadding_empty [OF drop_past [OF a0]] ty d
    by (simp add: decodeControlBody_def asDecoded_def threadOf_def)
qed

lemma decodeControlBody_encoded:
  assumes "hashLen sha" and "controlOk c" and "drop p s = controlFields sha c v env @ rest"
  shows "decodeControlBody sha (controlType c) s p (senderFieldBytes v) env =
    Inr (asDecoded c (threadOf sha c v env), threadOf sha c v env)"
  using decodeControlBody_invite [OF assms(1,2) _ assms(3)]
    decodeControlBody_accept [OF assms(1,2) _ assms(3)]
    decodeControlBody_cancel [OF assms(2) _ assms(3)]
  by (cases "controlType c") simp_all

subsection \<open>A message that decodes identified itself\<close>

lemma decodeControlBody_said:
  assumes "decodeControlBody sha Invite s p senderField env = Inr (c, dg)"
  obtains n a where "inviteNonce c = Some n" "length n = 16" "ownDigest c = Some dg"
    "length (replyRoute c) \<le> MAX_HOPS"
    "inviteDigestAfter n (replyRoute c) (inviteReferral c) = Inr a"
    "dg = deriveSaid sha env XRFI senderField a"
  using assms
  by (fastforce simp: decodeControlBody_def bindE_Inr requireDigestMatch_iff split: prod.splits
      dest: decodeNonce_length decodeVidList_inside)

lemma decodeControlBody_said_accept:
  assumes "decodeControlBody sha Accept s p senderField env = Inr (c, dg)"
  obtains d where "inReplyTo c = Some d" "length d = 32" "ownDigest c = Some dg"
    "dg = deriveSaid sha env XRFA (senderField @ encodeFixedData TSP_SHA256 d) []"
  using assms
  by (fastforce simp: decodeControlBody_def bindE_Inr requireDigestMatch_iff encodeDigest_def
      field_lens split: prod.splits if_splits)

lemma decodeControlBody_type:
  "decodeControlBody sha ct s p sf env = Inr (c, dg) \<Longrightarrow> controlType c = ct \<and> ownDigest c = Some dg"
  by (cases ct) (auto simp: decodeControlBody_def bindE_Inr split: prod.splits)

end
