(* ===== verification/Tsp_Payload.thy ===== *)
theory Tsp_Payload
  imports Tsp_Control
begin

text \<open>
  The payload frame of \<open>packages/tsp-js/src/v1/payload.ts\<close>: the plaintext that is sealed. The
  theory models the dispatch on the type code, the three application layouts and the frame that
  wraps a control body, with the read-back lemma of every layout.
\<close>

datatype messageType = Direct | Nested | Routed | Control | Padding

datatype applicationKind = AppDirect | AppNested | AppRouted

record decodedFrame =
  frameKind :: messageType
  frameControl :: "controlMessage option"
  frameHops :: "jsstr list"
  frameBody :: bytes
  frameSender :: jsstr
  frameThread :: bytes

definition bytesEqual :: "bytes \<Rightarrow> bytes \<Rightarrow> bool" where
  "bytesEqual a b \<longleftrightarrow> length a = length b \<and> list_all (\<lambda>i. a ! i = b ! i) [0..<length a]"

definition frameFromBody :: "bytes \<Rightarrow> tsp_error + bytes" where
  "frameFromBody body =
     throwIf (length body mod 3 \<noteq> 0) (JsError ''tsp: payload frame not a multiple of 3 bytes'')
       (Inr (encodeCount TSP_PAYLOAD (length body div 3) @ body))"

definition encodePayloadFrame ::
    "hash \<Rightarrow> bytes \<Rightarrow> applicationKind \<Rightarrow> jsstr list \<Rightarrow> jsstr \<Rightarrow> tsp_error + (bytes \<times> bytes)" where
  "encodePayloadFrame sha body kind hops senderVid =
     bindE
       (if kind = AppDirect then
          let stream = encodeVariableData TSP_PLAINTEXT body
          in Inr (XSCS @ encodeSenderField senderVid @ encodeEmptyPadding
                  @ encodeCount TSP_GENERIC_STREAM (length stream div 3) @ stream)
        else
          bindE (encodeVidList (if kind = AppNested then [] else hops)) (\<lambda>hopsOut.
            throwIf (length body mod 3 \<noteq> 0)
              (JsError ''tsp: nested inner message is not quadlet-aligned'')
              (Inr (XHOP @ encodeSenderField senderVid @ hopsOut @ encodeEmptyPadding @ body))))
       (\<lambda>frameBody. bindE (frameFromBody frameBody) (\<lambda>frame. Inr (frame, sha frame)))"

definition encodeControlFrame ::
    "hash \<Rightarrow> controlMessage \<Rightarrow> jsstr \<Rightarrow> bytes \<Rightarrow> tsp_error + (bytes \<times> bytes)" where
  "encodeControlFrame sha control senderVid envelopeFields =
     bindE (encodeControlBody sha control senderVid envelopeFields) (\<lambda>(body, threadDigest).
     bindE (frameFromBody body) (\<lambda>frame. Inr (frame, threadDigest)))"

definition relationshipType :: "bytes \<Rightarrow> controlType option" where
  "relationshipType typeCode =
     (if bytesEqual typeCode XRFI then Some Invite
      else if bytesEqual typeCode XRFA then Some Accept
      else if bytesEqual typeCode XRFD then Some Cancel
      else None)"

text \<open>The part of \<open>decodePayloadFrame\<close> after the sender check: the dispatch on the type code.\<close>

definition decodeLayout ::
    "hash \<Rightarrow> bytes \<Rightarrow> offset \<Rightarrow> offset \<Rightarrow> bytes \<Rightarrow> bytes \<Rightarrow> jsstr \<Rightarrow> bytes \<Rightarrow> tsp_error + decodedFrame" where
  "decodeLayout sha frame frameEnd pos typeCode senderField senderVid envelopeFields =
     (let frameDigest = sha (slice frame 0 frameEnd) in
      if bytesEqual typeCode XSCS \<or> bytesEqual typeCode XCTL then
        bindE (decodePadding frame pos) (\<lambda>pos1.
        bindE (orThrow (decodeCount TSP_GENERIC_STREAM frame pos1)
                 (JsError ''tsp: missing -A payload stream'')) (\<lambda>(streamQuadlets, pos2).
        let streamEnd = pos2 + streamQuadlets * 3 in
        throwIf (streamEnd \<noteq> frameEnd) (JsError ''tsp: -A stream does not end the payload frame'')
        (bindE (orThrow (decodeVariableData TSP_PLAINTEXT frame pos2)
                  (JsError ''tsp: missing payload body'')) (\<lambda>(body, pos3).
         throwIf (pos3 \<noteq> streamEnd)
           (JsError ''tsp: -A stream must hold exactly one Bytes primitive'')
         (Inr \<lparr>frameKind = (if bytesEqual typeCode XSCS then Direct else Control),
               frameControl = None, frameHops = [], frameBody = body, frameSender = senderVid,
               frameThread = frameDigest\<rparr>)))))
      else if bytesEqual typeCode XHOP then
        bindE (decodeVidList frame pos) (\<lambda>(hops, pos1).
        bindE (decodePadding frame pos1) (\<lambda>pos2.
          Inr \<lparr>frameKind = (if length hops = 0 then Nested else Routed),
               frameControl = None, frameHops = hops, frameBody = slice frame pos2 frameEnd,
               frameSender = senderVid, frameThread = frameDigest\<rparr>))
      else case relationshipType typeCode of
        Some ct \<Rightarrow>
          bindE (decodeControlBody sha ct frame pos senderField envelopeFields)
            (\<lambda>(control, threadDigest).
               Inr \<lparr>frameKind = Control, frameControl = Some control, frameHops = [],
                    frameBody = [], frameSender = senderVid, frameThread = threadDigest\<rparr>)
      | None \<Rightarrow>
          if bytesEqual typeCode XPAD then
            Inr \<lparr>frameKind = Padding, frameControl = None, frameHops = [], frameBody = [],
                 frameSender = senderVid, frameThread = frameDigest\<rparr>
          else Inl (JsError ''tsp: unsupported payload type marker''))"

definition decodePayloadFrame :: "hash \<Rightarrow> bytes \<Rightarrow> jsstr \<Rightarrow> bytes \<Rightarrow> tsp_error + decodedFrame" where
  "decodePayloadFrame sha frame envelopeSender envelopeFields =
     bindE (orThrow (decodeCount TSP_PAYLOAD frame 0) (JsError ''tsp: missing -Z payload frame''))
       (\<lambda>(quadlets, pos0).
     let frameEnd = pos0 + quadlets * 3 in
     throwIf (frameEnd > length frame)
       (JsError ''tsp: -Z frame declares more content than the payload'')
     (throwIf (pos0 + 3 > length frame) (JsError ''tsp: truncated payload type code'')
     (let typeCode = slice frame pos0 (pos0 + 3); pos1 = pos0 + 3 in
      bindE (orThrow (decodeVariableData TSP_VID frame pos1)
               (JsError ''tsp: missing ESSR sender VID field'')) (\<lambda>(senderBytes, pos2).
      let senderField = slice frame pos1 pos2 in
      bindE (orThrow (textDecodeFatal senderBytes) (JsError ''tsp: ESSR sender VID is not UTF-8''))
        (\<lambda>senderVid.
      throwIf (length senderVid = 0)
        (JsError ''tsp: ESSR sender VID is the NULL VID; a confidential payload must name its sender'')
      (throwIf (senderVid \<noteq> envelopeSender)
        (JsError ''tsp: ESSR sender VID does not match the envelope sender'')
      (decodeLayout sha frame frameEnd pos2 typeCode senderField senderVid envelopeFields)))))))"

subsection \<open>Type codes\<close>

lemma bytesEqual_iff [simp]: "bytesEqual a b \<longleftrightarrow> a = b"
  unfolding bytesEqual_def list_all_iff by (auto intro: nth_equalityI)

lemma markers_distinct [simp]:
  "XSCS \<noteq> XHOP" "XHOP \<noteq> XSCS" "XHOP \<noteq> XCTL" "XSCS \<noteq> XCTL" "XCTL \<noteq> XSCS"
  by (simp_all add: marker_bytes)

lemma MARKERS_distinct [simp]:
  "MARKERS ct \<noteq> XSCS \<and> MARKERS ct \<noteq> XHOP \<and> MARKERS ct \<noteq> XCTL \<and> MARKERS ct \<noteq> XPAD"
  by (cases ct) (simp_all add: marker_bytes)

lemma relationshipType_MARKERS [simp]: "relationshipType (MARKERS ct) = Some ct"
  by (cases ct) (simp_all add: relationshipType_def marker_bytes)

lemma length_MARKERS [simp]: "length (MARKERS ct) = 3"
  by (cases ct) simp_all

lemma relationshipType_Some: "relationshipType t = Some ct \<Longrightarrow> t = MARKERS ct"
  by (auto simp: relationshipType_def split: if_splits)

subsection \<open>The part every frame shares\<close>

definition frameBytes :: "bytes \<Rightarrow> bytes" where
  "frameBytes body = encodeCount TSP_PAYLOAD (length body div 3) @ body"

lemma frameFromBody_eq: "3 dvd length body \<Longrightarrow> frameFromBody body = Inr (frameBytes body)"
  by (simp add: frameFromBody_def frameBytes_def dvd_eq_mod_eq_0)

text \<open>
  A frame whose body is a type code, the sender field and further fields decodes to what its
  layout decodes to, at the offset of those fields.
\<close>

lemma decodePayloadFrame_header:
  assumes tc: "length tc = 3" and v: "vidOk v" "v \<noteq> []"
    and al: "3 dvd length flds" and big: "length (tc @ bareVidBytes v @ flds) div 3 < 2 ^ 30"
  defines "body \<equiv> tc @ bareVidBytes v @ flds"
  defines "pos \<equiv> length (encodeCount TSP_PAYLOAD (length body div 3)) + 3 + length (bareVidBytes v)"
  shows "decodePayloadFrame sha (frameBytes body) v env =
      decodeLayout sha (frameBytes body) (length (frameBytes body)) pos tc (senderFieldBytes v) v env"
    and "drop pos (frameBytes body) = flds"
    and "pos + length flds = length (frameBytes body)"
proof -
  let ?f = "frameBytes body" and ?c = "encodeCount TSP_PAYLOAD (length body div 3)"
  let ?p0 = "length ?c"
  have al': "3 dvd length body"
    using tc al bareVidBytes_aligned [of v] by (auto simp: body_def intro!: dvd_add)
  have at0: "drop 0 ?f = ?c @ body" by (simp add: frameBytes_def)
  have dc: "decodeCount TSP_PAYLOAD ?f 0 = Some (length body div 3, ?p0)"
    using decodeCount_encodeCount [OF _ _ at0] big by (simp add: body_def consts_def)
  have at1: "drop ?p0 ?f = tc @ (bareVidBytes v @ flds)"
    using drop_past [OF at0] by (simp add: body_def)
  have at2: "drop (?p0 + 3) ?f = bareVidBytes v @ flds"
    using at1 by (rule drop_past_len) (simp add: tc)
  have tcs: "slice ?f ?p0 (?p0 + 3) = tc" using at1 by (rule slice_at_end) (simp add: tc)
  have len: "?p0 + length body = length ?f" by (simp add: frameBytes_def)
  have len3: "?p0 + length body div 3 * 3 = length ?f" using al' len by simp
  have r3: "\<not> ?p0 + 3 > length ?f" using tc len by (simp add: body_def)
  note dv = decode_vid_field [OF v(1) at2]
  have sf: "slice ?f (?p0 + 3) (?p0 + 3 + length (bareVidBytes v)) = senderFieldBytes v"
    using slice_at [OF at2] by (simp add: senderFieldBytes_def encodeSenderField_eq)
  show "decodePayloadFrame sha ?f v env = decodeLayout sha ?f (length ?f) pos tc (senderFieldBytes v) v env"
    unfolding decodePayloadFrame_def Let_def
    using dc len3 r3 tcs dv sf v by (simp add: pos_def)
  show "drop pos ?f = flds"
    unfolding pos_def by (rule drop_past [OF at2])
  show "pos + length flds = length ?f"
    using len tc by (simp add: pos_def body_def)
qed

subsection \<open>The three application layouts\<close>

definition directFields :: "bytes \<Rightarrow> bytes" where
  "directFields body = encodeEmptyPadding
     @ encodeCount TSP_GENERIC_STREAM (length (encodeVariableData TSP_PLAINTEXT body) div 3)
     @ encodeVariableData TSP_PLAINTEXT body"

definition hopFields :: "jsstr list \<Rightarrow> bytes \<Rightarrow> bytes" where
  "hopFields hops body = projr (encodeVidList hops) @ encodeEmptyPadding @ body"

text \<open>The fields after the sender of an application frame, and its type code.\<close>

fun appMarker :: "applicationKind \<Rightarrow> bytes" where
  "appMarker AppDirect = XSCS"
| "appMarker _ = XHOP"

fun appFields :: "applicationKind \<Rightarrow> jsstr list \<Rightarrow> bytes \<Rightarrow> bytes" where
  "appFields AppDirect hops body = directFields body"
| "appFields AppNested hops body = hopFields [] body"
| "appFields AppRouted hops body = hopFields hops body"

definition appFrame :: "applicationKind \<Rightarrow> jsstr list \<Rightarrow> bytes \<Rightarrow> jsstr \<Rightarrow> bytes" where
  "appFrame kind hops body v = frameBytes (appMarker kind @ bareVidBytes v @ appFields kind hops body)"

definition appOk :: "applicationKind \<Rightarrow> jsstr list \<Rightarrow> bytes \<Rightarrow> jsstr \<Rightarrow> bool" where
  "appOk kind hops body v \<longleftrightarrow> vidOk v \<and> v \<noteq> [] \<and>
     (if kind = AppDirect then varOk TSP_PLAINTEXT body
      else 3 dvd length body \<and> (kind = AppRouted \<longrightarrow> vidListOk hops) \<and> length body \<le> 2 ^ 30)"

lemma length_appMarker [simp]: "length (appMarker k) = 3"
  by (cases k) simp_all

lemma vidListBytes_aligned [aligned]: "3 dvd length (projr (encodeVidList vs))"
  by (simp add: encodeVidList_eq encodeCount_aligned bareVids_aligned)

lemma appFields_aligned:
  assumes "k = AppDirect \<or> 3 dvd length body" shows "3 dvd length (appFields k hops body)"
  using assms
  by (cases k) (auto simp: directFields_def hopFields_def aligned intro!: dvd_add)

lemma appOk_aligned: "appOk k hops body v \<Longrightarrow> k = AppDirect \<or> 3 dvd length body"
  by (auto simp: appOk_def split: if_splits)

lemma vidListBytes_length:
  "vidListOk vs \<Longrightarrow> length (projr (encodeVidList vs)) \<le> MAX_FIELD_SIZE + 6"
  by (auto simp: vidListOk_def encodeVidList_eq length_encodeCount)

lemma vidListOk_Nil [simp]: "vidListOk []"
  by (simp add: vidListOk_def)

lemma appFields_length:
  assumes "appOk k hops body v" shows "length (appFields k hops body) \<le> 2 ^ 30 + 60000000"
proof (cases k)
  case AppDirect
  with assms show ?thesis
    using nextMul3_lt [of "length body"]
    by (auto simp: directFields_def appOk_def varOk_def length_encodeVariableData length_encodeCount)
next
  case AppNested
  with assms show ?thesis
    using vidListBytes_length [of "[]"] by (auto simp: hopFields_def appOk_def MAX_FIELD_SIZE_eq)
next
  case AppRouted
  with assms show ?thesis
    using vidListBytes_length [of hops] by (auto simp: hopFields_def appOk_def MAX_FIELD_SIZE_eq)
qed

text \<open>\<open>encodePayloadFrame\<close> succeeds on what the codec can carry, and returns this frame.\<close>

lemma encodePayloadFrame_eq:
  assumes "k = AppDirect \<or> 3 dvd length body"
  shows "encodePayloadFrame sha body k hops v = Inr (appFrame k hops body v, sha (appFrame k hops body v))"
proof -
  let ?b = "appMarker k @ bareVidBytes v @ appFields k hops body"
  have "3 dvd length ?b"
    using appFields_aligned [OF assms] bareVidBytes_aligned [of v] by (auto intro!: dvd_add)
  note fb = frameFromBody_eq [OF this]
  show ?thesis
  proof (cases k)
    case AppDirect
    with fb show ?thesis
      by (simp add: encodePayloadFrame_def Let_def appFrame_def directFields_def encodeSenderField_eq)
  next
    case AppNested
    with fb assms show ?thesis
      by (simp add: encodePayloadFrame_def appFrame_def hopFields_def encodeSenderField_eq
          encodeVidList_eq dvd_eq_mod_eq_0)
  next
    case AppRouted
    with fb assms show ?thesis
      by (simp add: encodePayloadFrame_def appFrame_def hopFields_def encodeSenderField_eq
          encodeVidList_eq dvd_eq_mod_eq_0)
  qed
qed

text \<open>An XHOP frame with no hop left is a nested one, whatever it was packed as.\<close>

fun decodedKind :: "applicationKind \<Rightarrow> jsstr list \<Rightarrow> messageType" where
  "decodedKind AppDirect hops = Direct"
| "decodedKind AppNested hops = Nested"
| "decodedKind AppRouted hops = (if hops = [] then Nested else Routed)"

fun decodedHops :: "applicationKind \<Rightarrow> jsstr list \<Rightarrow> jsstr list" where
  "decodedHops AppRouted hops = hops"
| "decodedHops _ hops = []"

lemma decodeLayout_direct:
  assumes ok: "varOk TSP_PLAINTEXT body" and at: "drop pos f = directFields body"
    and fe: "pos + length (directFields body) = length f"
  shows "decodeLayout sha f (length f) pos XSCS sf v env = Inr
    \<lparr>frameKind = Direct, frameControl = None, frameHops = [], frameBody = body,
     frameSender = v, frameThread = sha f\<rparr>"
proof -
  let ?s = "encodeVariableData TSP_PLAINTEXT body"
  let ?c = "encodeCount TSP_GENERIC_STREAM (length ?s div 3)"
  have a0: "drop pos f = encodeEmptyPadding @ (?c @ ?s)" using at by (simp add: directFields_def)
  note a1 = drop_past [OF a0]
  note a2 = drop_past [OF a1]
  have q: "length ?s div 3 * 3 = length ?s" using encodeVariableData_aligned by simp
  have "length ?s < 2 ^ 30"
    using ok nextMul3_lt [of "length body"] by (auto simp: length_encodeVariableData varOk_def)
  then have "length ?s div 3 < 2 ^ 30" by (rule le_less_trans [OF div_le_dividend])
  then have c: "decodeCount TSP_GENERIC_STREAM f (pos + length encodeEmptyPadding) =
      Some (length ?s div 3, pos + length encodeEmptyPadding + length ?c)"
    using a1 by (intro decodeCount_encodeCount) (auto simp: consts_def)
  have d: "decodeVariableData TSP_PLAINTEXT f (pos + length encodeEmptyPadding + length ?c) =
      Some (body, pos + length encodeEmptyPadding + length ?c + length ?s)"
    using decodeVariableData_encode [OF ok, of _ f "[]"] a2 by simp
  have e: "pos + length encodeEmptyPadding + length ?c + length ?s = length f"
    using fe by (simp add: directFields_def)
  show ?thesis
    unfolding decodeLayout_def Let_def
    using decodePadding_empty [OF a0] c d e q by (simp add: slice_def del: length_encodeEmptyPadding)
qed

lemma decodeLayout_hops:
  assumes ok: "vidListOk hops" and at: "drop pos f = hopFields hops body"
    and fe: "pos + length (hopFields hops body) = length f"
  shows "decodeLayout sha f (length f) pos XHOP sf v env = Inr
    \<lparr>frameKind = (if hops = [] then Nested else Routed), frameControl = None, frameHops = hops,
     frameBody = body, frameSender = v, frameThread = sha f\<rparr>"
proof -
  let ?h = "projr (encodeVidList hops)"
  have a0: "drop pos f = ?h @ (encodeEmptyPadding @ body)" using at by (simp add: hopFields_def)
  note a1 = drop_past [OF a0]
  note a2 = drop_past [OF a1]
  have e: "length f = pos + length ?h + length encodeEmptyPadding + length body"
    using fe by (simp add: hopFields_def)
  have b: "slice f (pos + length ?h + length encodeEmptyPadding) (length f) = body"
    using a2 e by (intro slice_at_end [of _ _ _ "[]"]) simp_all
  show ?thesis
    unfolding decodeLayout_def Let_def
    using decodeVidList_encodeVidList [OF ok a0] decodePadding_empty [OF a1] b
    by (simp add: slice_def del: length_encodeEmptyPadding)
qed

lemma decodePayloadFrame_app:
  assumes ok: "appOk k hops body v"
  shows "decodePayloadFrame sha (appFrame k hops body v) v env = Inr
    \<lparr>frameKind = decodedKind k hops, frameControl = None, frameHops = decodedHops k hops,
     frameBody = body, frameSender = v, frameThread = sha (appFrame k hops body v)\<rparr>"
proof -
  let ?b = "appMarker k @ bareVidBytes v @ appFields k hops body"
  have v: "vidOk v" "v \<noteq> []" using ok by (auto simp: appOk_def)
  have "length ?b < 2 ^ 30 + 120000000"
    using appFields_length [OF ok] vidOk_length [OF v(1)] by simp
  then have big: "length ?b div 3 < 2 ^ 30" by simp
  note h = decodePayloadFrame_header [OF length_appMarker v appFields_aligned [OF appOk_aligned [OF ok]] big]
  show ?thesis
  proof (cases k)
    case AppDirect
    then show ?thesis
      using ok h decodeLayout_direct by (simp add: appFrame_def appOk_def)
  next
    case AppNested
    then show ?thesis
      using ok h decodeLayout_hops [of "[]"] by (simp add: appFrame_def appOk_def)
  next
    case AppRouted
    then show ?thesis
      using ok h decodeLayout_hops [of hops] by (simp add: appFrame_def appOk_def)
  qed
qed

text \<open>A routed frame with more hops than the decoder takes.\<close>

lemma decodePayloadFrame_too_many:
  assumes v: "vidOk v" "v \<noteq> []" and hops: "list_all vidOk hops" "MAX_HOPS < length hops"
    and al: "3 dvd length body" and small: "length (appFrame AppRouted hops body v) \<le> MAX_FIELD_SIZE"
  shows "decodePayloadFrame sha (appFrame AppRouted hops body v) v env =
    Inl (JsError ''tsp: too many hops'')"
proof -
  let ?b = "appMarker AppRouted @ bareVidBytes v @ appFields AppRouted hops body"
  have le: "length (concat (map bareVidBytes hops)) \<le> length (appFrame AppRouted hops body v)"
      "length ?b \<le> length (appFrame AppRouted hops body v)"
    by (simp_all add: appFrame_def frameBytes_def hopFields_def encodeVidList_eq)
  have big: "length ?b div 3 < 2 ^ 30" using le(2) small by (simp add: MAX_FIELD_SIZE_eq)
  have ok: "AppRouted = AppDirect \<or> 3 dvd length body" using al by simp
  note h = decodePayloadFrame_header [OF length_appMarker v appFields_aligned [OF ok] big]
  from h(2) have "decodeVidList (frameBytes ?b)
      (length (encodeCount TSP_PAYLOAD (length ?b div 3)) + 3 + length (bareVidBytes v)) =
      Inl (JsError ''tsp: too many hops'')"
    using le(1) small hops
    by (intro decodeVidList_too_many [where rest = "encodeEmptyPadding @ body"]) (auto simp: hopFields_def)
  then show ?thesis
    unfolding appFrame_def h(1) decodeLayout_def Let_def by simp
qed

subsection \<open>Control frames\<close>

definition controlFrame :: "hash \<Rightarrow> controlMessage \<Rightarrow> jsstr \<Rightarrow> bytes \<Rightarrow> bytes" where
  "controlFrame sha c v env =
     frameBytes (MARKERS (controlType c) @ bareVidBytes v @ controlFields sha c v env)"

lemma encodeReferral_length:
  assumes "referralOk ref" shows "length (projr (encodeReferral ref)) \<le> 60000000"
proof (cases ref)
  case None
  then show ?thesis by (simp add: encodeReferral_eq length_encodeCount)
next
  case (Some r)
  then have "referralOk (Some r)" using assms by simp
  moreover from this have "length (bareVidBytes (newVid r)) < 50331660"
    using vidOk_length by simp
  ultimately show ?thesis
    using Some by (simp add: encodeReferral_eq length_encodeCount referralBody_def length_attachmentBytes
        del: referralOk.simps) (simp add: length_attachmentBytes)
qed

lemma controlFields_length:
  assumes h: "hashLen sha" and ok: "controlOk c"
  shows "length (controlFields sha c v env) \<le> 2 ^ 27"
proof (cases "controlType c")
  case Invite
  with ok obtain n where n: "inviteNonce c = Some n" "length n = 16"
      "referralOk (inviteReferral c)" "vidListOk (replyRoute c)"
    by (auto simp: controlOk_def split: option.splits)
  have "length (projr (encodeVidList (replyRoute c))) \<le> 50331654"
    using vidListBytes_length [OF n(4)] by (simp add: MAX_FIELD_SIZE_eq)
  with Invite n show ?thesis
    using encodeReferral_length [OF n(3)] threadOf_length [OF h ok, of v env]
    by (simp add: controlFields_def length_encodeFixedData nextMul3_def)
next
  case Accept
  with ok obtain d where "inReplyTo c = Some d" "length d = 32"
    by (auto simp: controlOk_def split: option.splits)
  with Accept show ?thesis
    using threadOf_length [OF h ok, of v env]
    by (simp add: controlFields_def length_encodeFixedData nextMul3_def)
next
  case Cancel
  with ok obtain d where "inReplyTo c = Some d" "length d = 32"
    by (auto simp: controlOk_def split: option.splits)
  with Cancel show ?thesis
    by (simp add: controlFields_def length_encodeFixedData nextMul3_def)
qed

lemma encodeControlFrame_eq:
  assumes "hashLen sha" and "controlOk c"
  shows "encodeControlFrame sha c v env = Inr (controlFrame sha c v env, threadOf sha c v env)"
proof -
  have "3 dvd length (MARKERS (controlType c) @ bareVidBytes v @ controlFields sha c v env)"
    using controlFields_aligned [OF assms(2)] bareVidBytes_aligned by (auto intro!: dvd_add)
  from frameFromBody_eq [OF this] show ?thesis
    by (simp add: encodeControlFrame_def encodeControlBody_eq [OF assms] controlFrame_def
        senderFieldBytes_def encodeSenderField_eq)
qed

lemma decodePayloadFrame_control:
  assumes h: "hashLen sha" and ok: "controlOk c" and v: "vidOk v" "v \<noteq> []"
  shows "decodePayloadFrame sha (controlFrame sha c v env) v env = Inr
    \<lparr>frameKind = Control, frameControl = Some (asDecoded c (threadOf sha c v env)), frameHops = [],
     frameBody = [], frameSender = v, frameThread = threadOf sha c v env\<rparr>"
proof -
  let ?b = "MARKERS (controlType c) @ bareVidBytes v @ controlFields sha c v env"
  have "length ?b < 2 ^ 28"
    using controlFields_length [OF h ok, of v env] vidOk_length [OF v(1)] by simp
  then have big: "length ?b div 3 < 2 ^ 30" by simp
  note hd = decodePayloadFrame_header [OF length_MARKERS v controlFields_aligned [OF ok] big]
  from decodeControlBody_encoded [OF h ok, of _ _ v env "[]"] hd(2)
  have "decodeControlBody sha (controlType c) (frameBytes ?b)
      (length (encodeCount TSP_PAYLOAD (length ?b div 3)) + 3 + length (bareVidBytes v))
      (senderFieldBytes v) env = Inr (asDecoded c (threadOf sha c v env), threadOf sha c v env)"
    by simp
  then show ?thesis
    unfolding controlFrame_def hd(1) decodeLayout_def Let_def
    using MARKERS_distinct [of "controlType c"] by simp
qed

subsection \<open>What a frame that decodes guarantees\<close>

lemma decodeLayout_sender:
  "decodeLayout sha f fe pos tc sf v env = Inr d \<Longrightarrow> frameSender d = v"
  by (auto simp: decodeLayout_def Let_def bindE_Inr split: if_splits prod.splits option.splits)

lemma decodePayloadFrame_sender:
  "decodePayloadFrame sha f v env = Inr d \<Longrightarrow> frameSender d = v \<and> v \<noteq> []"
  by (auto simp: decodePayloadFrame_def Let_def bindE_Inr split: prod.splits if_splits
      dest!: decodeLayout_sender)

lemma decodeLayout_control:
  assumes "decodeLayout sha f fe pos tc sf v env = Inr d" and "frameControl d = Some c"
  shows "tc = MARKERS (controlType c) \<and> ownDigest c = Some (frameThread d) \<and> frameKind d = Control \<and>
    decodeControlBody sha (controlType c) f pos sf env = Inr (c, frameThread d)"
  using assms
  by (auto simp: decodeLayout_def Let_def bindE_Inr split: if_splits prod.splits option.splits
      dest!: relationshipType_Some dest: decodeControlBody_type)
    (frule decodeControlBody_type, simp)+

text \<open>
  A frame an invite or accept was read from carries the digest that its own envelope, sender field
  and contents hash to.
\<close>

lemma decodePayloadFrame_control_cases:
  assumes "decodePayloadFrame sha f v env = Inr d" and "frameControl d = Some c"
  obtains q p0 senderBytes p1 where
    "decodeCount TSP_PAYLOAD f 0 = Some (q, p0)" "slice f p0 (p0 + 3) = MARKERS (controlType c)"
    "decodeVariableData TSP_VID f (p0 + 3) = Some (senderBytes, p1)" "textDecodeFatal senderBytes = Some v"
    "decodeControlBody sha (controlType c) f p1 (slice f (p0 + 3) p1) env = Inr (c, frameThread d)"
    "frameKind d = Control" "ownDigest c = Some (frameThread d)"
proof -
  from assms(1) obtain q p0 sb p1 where p:
    "decodeCount TSP_PAYLOAD f 0 = Some (q, p0)"
    "decodeVariableData TSP_VID f (p0 + 3) = Some (sb, p1)" "textDecodeFatal sb = Some v"
    "decodeLayout sha f (p0 + q * 3) p1 (slice f p0 (p0 + 3)) (slice f (p0 + 3) p1) v env = Inr d"
    by (auto simp: decodePayloadFrame_def Let_def bindE_Inr split: prod.splits if_splits)
  from decodeLayout_control [OF p(4) assms(2)] p show thesis by (intro that) auto
qed

end
