(* ===== verification/Tsp_Envelope.thy ===== *)
theory Tsp_Envelope
  imports Tsp_Payload
begin

text \<open>
  The cleartext \<open>-E\<close> envelope of \<open>packages/tsp-js/src/v1/envelope.ts\<close>: the fields that are the
  associated data of the ciphertext, the frame closed over fields and ciphertext, and the decoder
  that reports the offsets at which a message is opened and verified.
\<close>

record envelope =
  envSender :: jsstr
  envReceiver :: jsstr

record decodedEnvelope =
  decEnvelope :: envelope
  aadBegin :: offset
  aadEnd :: offset
  headerLen :: offset
  contentEnd :: offset
  decMinor :: nat

definition encodeFields :: "jsstr \<Rightarrow> jsstr \<Rightarrow> tsp_error + bytes" where
  "encodeFields sender receiver =
     (let body = encodeVersion @ encodeVariableData TSP_VID (textEncode sender)
                 @ encodeVariableData TSP_VID (textEncode receiver)
      in throwIf (length body mod 3 \<noteq> 0) (JsError ''tsp: envelope fields not a multiple of 3 bytes'')
           (Inr body))"

definition finalizeFrame :: "bytes \<Rightarrow> bytes \<Rightarrow> tsp_error + bytes" where
  "finalizeFrame envFields body =
     (let contentLen = length envFields + length body
      in throwIf (contentLen mod 3 \<noteq> 0) (JsError ''tsp: envelope content not a multiple of 3 bytes'')
           (Inr (encodeCount TSP_ETS_WRAPPER (contentLen div 3) @ envFields @ body)))"

definition decodeEnvelope :: "bytes \<Rightarrow> tsp_error + decodedEnvelope" where
  "decodeEnvelope data =
     bindE (orThrow (decodeCount TSP_ETS_WRAPPER data 0) (JsError ''tsp: missing -E envelope frame''))
       (\<lambda>(quadlets, contentBegin).
     let cEnd = contentBegin + quadlets * 3 in
     throwIf (cEnd > length data)
       (JsError ''tsp: -E frame declares more content than the message'')
     (bindE (orThrow (readVersion data contentBegin)
               (JsError ''tsp: missing or malformed version marker'')) (\<lambda>(version, pos1).
      bindE (orThrow (decodeVariableData TSP_VID data pos1) (JsError ''tsp: missing sender VID''))
        (\<lambda>(senderBytes, pos2).
      bindE (orThrow (decodeVariableData TSP_VID data pos2)
               (JsError ''tsp: missing receiver VID field'')) (\<lambda>(receiverBytes, pos3).
      bindE (orThrow (textDecodeFatal senderBytes) (JsError ''tsp: invalid VID encoding'')) (\<lambda>sender.
      bindE (orThrow (textDecodeFatal receiverBytes) (JsError ''tsp: invalid VID encoding''))
        (\<lambda>receiver.
      throwIf (length sender = 0)
        (JsError ''tsp: sender VID is the NULL VID; every TSP message names its sender'')
      (throwIf (pos3 > cEnd) (JsError ''tsp: envelope fields overrun the -E frame count'')
      (Inr \<lparr>decEnvelope = \<lparr>envSender = sender, envReceiver = receiver\<rparr>, aadBegin = contentBegin,
            aadEnd = pos3, headerLen = pos3, contentEnd = cEnd, decMinor = snd version\<rparr>)))))))))"

subsection \<open>Encoding\<close>

definition envelopeFields :: "jsstr \<Rightarrow> jsstr \<Rightarrow> bytes" where
  "envelopeFields sender receiver = encodeVersion @ bareVidBytes sender @ bareVidBytes receiver"

lemma envelopeFields_aligned [aligned]: "3 dvd length (envelopeFields s r)"
  using bareVidBytes_aligned [of s] bareVidBytes_aligned [of r]
  by (simp add: envelopeFields_def)

text \<open>The alignment guards of the encoders never fire.\<close>

lemma encodeFields_eq: "encodeFields s r = Inr (envelopeFields s r)"
  using envelopeFields_aligned [of s r]
  by (simp add: encodeFields_def Let_def envelopeFields_def bareVidBytes_def dvd_eq_mod_eq_0)

lemma finalizeFrame_eq:
  assumes "3 dvd length body"
  shows "finalizeFrame (envelopeFields s r) body =
    Inr (encodeCount TSP_ETS_WRAPPER ((length (envelopeFields s r) + length body) div 3)
         @ envelopeFields s r @ body)"
proof -
  have "3 dvd length (envelopeFields s r) + length body"
    using assms envelopeFields_aligned by (rule dvd_add [rotated])
  then show ?thesis by (simp add: finalizeFrame_def Let_def dvd_eq_mod_eq_0)
qed

text \<open>A receiver field holds a VID or the NULL VID.\<close>

lemma vidOk_Nil [simp]: "vidOk []"
  by (simp add: vidOk_def plainText_def textEncode_def)

lemma envelopeFields_length: "vidOk s \<Longrightarrow> vidOk r \<Longrightarrow> length (envelopeFields s r) < 110000000"
  using vidOk_length [of s] vidOk_length [of r] by (simp add: envelopeFields_def)

subsection \<open>Reading an envelope back\<close>

lemma decodeEnvelope_encoded:
  assumes v: "vidOk s" "s \<noteq> []" "vidOk r" and al: "3 dvd length body"
    and big: "length body < 2 ^ 30"
  defines "fs \<equiv> envelopeFields s r"
  defines "p \<equiv> length (encodeCount TSP_ETS_WRAPPER ((length fs + length body) div 3))"
  defines "w \<equiv> encodeCount TSP_ETS_WRAPPER ((length fs + length body) div 3) @ fs @ body"
  shows "decodeEnvelope (w @ rest) = Inr
    \<lparr>decEnvelope = \<lparr>envSender = s, envReceiver = r\<rparr>, aadBegin = p, aadEnd = p + length fs,
     headerLen = p + length fs, contentEnd = length w, decMinor = TSP_VERSION_minor\<rparr>"
    and "drop p (w @ rest) = fs @ body @ rest"
    and "p + length fs + length body = length w"
proof -
  let ?q = "(length fs + length body) div 3" and ?d = "w @ rest"
  have al': "3 dvd length fs + length body"
    using al envelopeFields_aligned unfolding fs_def by (rule dvd_add [rotated])
  have q30: "?q < 2 ^ 30"
    using envelopeFields_length [OF v(1,3)] big by (simp add: fs_def)
  have at0: "drop 0 ?d = encodeCount TSP_ETS_WRAPPER ?q @ (fs @ body @ rest)" by (simp add: w_def)
  have dc: "decodeCount TSP_ETS_WRAPPER ?d 0 = Some (?q, p)"
    using decodeCount_encodeCount [OF q30 _ at0] by (simp add: consts_def p_def)
  show at1: "drop p ?d = fs @ body @ rest" using drop_past [OF at0] by (simp add: p_def)
  have a1: "drop p ?d = encodeVersion @ (bareVidBytes s @ bareVidBytes r @ body @ rest)"
    using at1 by (simp add: fs_def envelopeFields_def)
  note a2 = drop_past [OF a1]
  note a3 = drop_past [OF a2]
  have lenw: "p + length fs + length body = length w" by (simp add: w_def p_def)
  then show "p + length fs + length body = length w" .
  have ce: "p + ?q * 3 = length w" using al' lenw by simp
  have p3: "p + length encodeVersion + length (bareVidBytes s) + length (bareVidBytes r) = p + length fs"
    by (simp add: fs_def envelopeFields_def)
  have ok: "\<not> length w > length ?d" "\<not> p + length fs > length w" using lenw by simp_all
  show "decodeEnvelope ?d = Inr
    \<lparr>decEnvelope = \<lparr>envSender = s, envReceiver = r\<rparr>, aadBegin = p, aadEnd = p + length fs,
     headerLen = p + length fs, contentEnd = length w, decMinor = TSP_VERSION_minor\<rparr>"
    unfolding decodeEnvelope_def Let_def dc
    using readVersion_encodeVersion [OF a1] decode_vid_field [OF v(1) a2]
      decode_vid_field [OF v(3) a3] ce ok v(2) p3
    by simp
qed

subsection \<open>What a decoded envelope guarantees\<close>

lemma decodeEnvelope_facts:
  assumes "decodeEnvelope d = Inr e"
  shows "envSender (decEnvelope e) \<noteq> []" and "aadEnd e = headerLen e"
    and "aadBegin e < aadEnd e" and "headerLen e \<le> contentEnd e" and "contentEnd e \<le> length d"
  using assms
  by (auto simp: decodeEnvelope_def Let_def bindE_Inr split: prod.splits if_splits
      dest!: decodeVariableData_inside readVersion_inside)

end
