(* ===== verification/Hpke.thy ===== *)
theory Hpke
  imports Tsp_Fields
begin

text \<open>
  HPKE (RFC 9180) as \<open>packages/tsp-js/src/crypto/hpke-noble.ts\<close> builds it from X25519, HKDF and
  ChaCha20Poly1305, and the signature wrapper of \<open>crypto/sign.ts\<close>. The primitives come from the
  \<open>@noble\<close> packages, which are not in the repository: they are the fields of the record \<open>crypto\<close>,
  a parameter of every definition here. \<open>cryptoOk\<close> collects what the code relies on: output
  lengths, that Diffie-Hellman agrees from both ends, that decryption inverts encryption and
  verification accepts what signing produced. Ephemeral keys, which the source draws at
  random, are arguments.
\<close>

record crypto =
  sha256 :: "bytes \<Rightarrow> bytes"
  getSharedSecret :: "bytes \<Rightarrow> bytes \<Rightarrow> tsp_error + bytes"
  getPublicKey :: "bytes \<Rightarrow> bytes"
  hkdfExtract :: "bytes \<Rightarrow> bytes \<Rightarrow> bytes"
  hkdfExpand :: "bytes \<Rightarrow> bytes \<Rightarrow> nat \<Rightarrow> bytes"
  chachaEncrypt :: "bytes \<Rightarrow> bytes \<Rightarrow> bytes \<Rightarrow> bytes \<Rightarrow> bytes"
  chachaDecrypt :: "bytes \<Rightarrow> bytes \<Rightarrow> bytes \<Rightarrow> bytes \<Rightarrow> tsp_error + bytes"
  edSign :: "bytes \<Rightarrow> bytes \<Rightarrow> bytes"
  edVerify :: "bytes \<Rightarrow> bytes \<Rightarrow> bytes \<Rightarrow> tsp_error + bool"
  edPublicKey :: "bytes \<Rightarrow> bytes"

definition KEM_ID :: nat where "KEM_ID = 0x0020"
definition KDF_ID :: nat where "KDF_ID = 0x0001"
definition AEAD_ID :: nat where "AEAD_ID = 0x0003"
definition MODE_BASE :: byte where "MODE_BASE = 0x00"
definition MODE_AUTH :: byte where "MODE_AUTH = 0x02"
definition NSECRET :: nat where "NSECRET = 32"
definition NK :: nat where "NK = 32"
definition NN :: nat where "NN = 12"
definition NX25519 :: nat where "NX25519 = 32"

subsection \<open>Labeled extract and expand, key schedule\<close>

definition i2osp2 :: "nat \<Rightarrow> bytes" where
  "i2osp2 n = [word_of_nat (drop_bit 8 n AND 255), word_of_nat (n AND 255)]"

definition label :: "string \<Rightarrow> bytes" where
  "label s = map (\<lambda>c. word_of_nat (of_char c)) s"

definition HPKE_V1 :: bytes where "HPKE_V1 = label ''HPKE-v1''"

definition KEM_SUITE_ID :: bytes where "KEM_SUITE_ID = concatBytes [label ''KEM'', i2osp2 KEM_ID]"

definition HPKE_SUITE_ID :: bytes where
  "HPKE_SUITE_ID = concatBytes [label ''HPKE'', i2osp2 KEM_ID, i2osp2 KDF_ID, i2osp2 AEAD_ID]"

definition labeledExtract :: "crypto \<Rightarrow> bytes \<Rightarrow> bytes \<Rightarrow> string \<Rightarrow> bytes \<Rightarrow> bytes" where
  "labeledExtract C suiteId salt lbl ikm =
     hkdfExtract C (concatBytes [HPKE_V1, suiteId, label lbl, ikm]) salt"

definition labeledExpand :: "crypto \<Rightarrow> bytes \<Rightarrow> bytes \<Rightarrow> string \<Rightarrow> bytes \<Rightarrow> nat \<Rightarrow> bytes" where
  "labeledExpand C suiteId prk lbl info len =
     hkdfExpand C prk (concatBytes [i2osp2 len, HPKE_V1, suiteId, label lbl, info]) len"

definition extractAndExpand :: "crypto \<Rightarrow> bytes \<Rightarrow> bytes \<Rightarrow> bytes" where
  "extractAndExpand C dhBytes kemContext =
     (let eaePrk = labeledExtract C KEM_SUITE_ID [] ''eae_prk'' dhBytes
      in labeledExpand C KEM_SUITE_ID eaePrk ''shared_secret'' kemContext NSECRET)"

text \<open>The key and the base nonce of the single message.\<close>

definition keySchedule :: "crypto \<Rightarrow> byte \<Rightarrow> bytes \<Rightarrow> bytes \<Rightarrow> bytes \<times> bytes" where
  "keySchedule C mode sharedSecret info =
     (let pskIdHash = labeledExtract C HPKE_SUITE_ID [] ''psk_id_hash'' [];
          infoHash = labeledExtract C HPKE_SUITE_ID [] ''info_hash'' info;
          ksContext = concatBytes [[mode], pskIdHash, infoHash];
          secret = labeledExtract C HPKE_SUITE_ID sharedSecret ''secret'' []
      in (labeledExpand C HPKE_SUITE_ID secret ''key'' ksContext NK,
          labeledExpand C HPKE_SUITE_ID secret ''base_nonce'' ksContext NN))"

definition dh :: "crypto \<Rightarrow> bytes \<Rightarrow> bytes \<Rightarrow> tsp_error + bytes" where
  "dh C sk pk =
     bindE (getSharedSecret C sk pk) (\<lambda>shared.
     throwIf (list_all (\<lambda>b. b = 0) shared) (JsError ''tsp: DH produced the all-zero shared secret'')
       (Inr shared))"

definition deriveKeyPair :: "crypto \<Rightarrow> bytes \<Rightarrow> tsp_error + (bytes \<times> bytes)" where
  "deriveKeyPair C ikm =
     throwIf (length ikm < NX25519)
       (JsError (''tsp: DeriveKeyPair input must be at least '' @ natString NX25519 @ '' bytes''))
     (let dkpPrk = labeledExtract C KEM_SUITE_ID [] ''dkp_prk'' ikm;
          sk = labeledExpand C KEM_SUITE_ID dkpPrk ''sk'' [] NX25519
      in Inr (sk, getPublicKey C sk))"

subsection \<open>Encapsulation\<close>

definition encap :: "crypto \<Rightarrow> bytes \<Rightarrow> bytes \<Rightarrow> tsp_error + (bytes \<times> bytes)" where
  "encap C skE recipientPk =
     (let enc = getPublicKey C skE in
      bindE (dh C skE recipientPk) (\<lambda>d.
        Inr (extractAndExpand C d (concatBytes [enc, recipientPk]), enc)))"

definition decap :: "crypto \<Rightarrow> bytes \<Rightarrow> bytes \<Rightarrow> tsp_error + bytes" where
  "decap C enc recipientSk =
     (let kemContext = concatBytes [enc, getPublicKey C recipientSk] in
      bindE (dh C recipientSk enc) (\<lambda>d. Inr (extractAndExpand C d kemContext)))"

definition authEncap :: "crypto \<Rightarrow> bytes \<Rightarrow> bytes \<Rightarrow> bytes \<Rightarrow> tsp_error + (bytes \<times> bytes)" where
  "authEncap C skE recipientPk senderSk =
     (let enc = getPublicKey C skE in
      bindE (dh C skE recipientPk) (\<lambda>d1.
      bindE (dh C senderSk recipientPk) (\<lambda>d2.
      let dhBytes = concatBytes [d1, d2];
          kemContext = concatBytes [enc, recipientPk, getPublicKey C senderSk]
      in Inr (extractAndExpand C dhBytes kemContext, enc))))"

definition authDecap :: "crypto \<Rightarrow> bytes \<Rightarrow> bytes \<Rightarrow> bytes \<Rightarrow> tsp_error + bytes" where
  "authDecap C enc recipientSk senderPk =
     bindE (dh C recipientSk enc) (\<lambda>d1.
     bindE (dh C recipientSk senderPk) (\<lambda>d2.
     let dhBytes = concatBytes [d1, d2];
         kemContext = concatBytes [enc, getPublicKey C recipientSk, senderPk]
     in Inr (extractAndExpand C dhBytes kemContext)))"

subsection \<open>Single-shot seal and open\<close>

record sealResult =
  sealEnc :: bytes
  sealCiphertext :: bytes

definition seal :: "crypto \<Rightarrow> bytes \<Rightarrow> bytes \<Rightarrow> bytes \<Rightarrow> bytes \<Rightarrow> bytes \<Rightarrow> bytes \<Rightarrow> tsp_error + sealResult" where
  "seal C skE plaintext aad senderSk recipientPk info =
     bindE (authEncap C skE recipientPk senderSk) (\<lambda>(sharedSecret, enc).
     let (key, baseNonce) = keySchedule C MODE_AUTH sharedSecret info
     in Inr \<lparr>sealEnc = enc, sealCiphertext = chachaEncrypt C key baseNonce aad plaintext\<rparr>)"

definition open_auth :: "crypto \<Rightarrow> bytes \<Rightarrow> bytes \<Rightarrow> bytes \<Rightarrow> bytes \<Rightarrow> bytes \<Rightarrow> bytes \<Rightarrow> tsp_error + bytes" where
  "open_auth C ciphertext aad enc recipientSk senderPk info =
     bindE (authDecap C enc recipientSk senderPk) (\<lambda>sharedSecret.
     let (key, baseNonce) = keySchedule C MODE_AUTH sharedSecret info
     in chachaDecrypt C key baseNonce aad ciphertext)"

definition sealBase :: "crypto \<Rightarrow> bytes \<Rightarrow> bytes \<Rightarrow> bytes \<Rightarrow> bytes \<Rightarrow> bytes \<Rightarrow> tsp_error + sealResult" where
  "sealBase C skE plaintext aad recipientPk info =
     bindE (encap C skE recipientPk) (\<lambda>(sharedSecret, enc).
     let (key, baseNonce) = keySchedule C MODE_BASE sharedSecret info
     in Inr \<lparr>sealEnc = enc, sealCiphertext = chachaEncrypt C key baseNonce aad plaintext\<rparr>)"

definition openBase :: "crypto \<Rightarrow> bytes \<Rightarrow> bytes \<Rightarrow> bytes \<Rightarrow> bytes \<Rightarrow> bytes \<Rightarrow> tsp_error + bytes" where
  "openBase C ciphertext aad enc recipientSk info =
     bindE (decap C enc recipientSk) (\<lambda>sharedSecret.
     let (key, baseNonce) = keySchedule C MODE_BASE sharedSecret info
     in chachaDecrypt C key baseNonce aad ciphertext)"

subsection \<open>Key custody behind a capability\<close>

text \<open>\<open>agree\<close> is code outside the package; it may throw and may return anything.\<close>

record keyAgreement =
  kaPublicKey :: bytes
  kaAgree :: "bytes \<Rightarrow> tsp_error + bytes"

definition checkedAgree :: "keyAgreement \<Rightarrow> bytes \<Rightarrow> tsp_error + bytes" where
  "checkedAgree ka peerPublicKey =
     bindE (kaAgree ka peerPublicKey) (\<lambda>shared.
     throwIf (length shared \<noteq> NX25519)
       (JsError (''tsp: KeyAgreement.agree returned '' @ natString (length shared)
                 @ '' bytes, expected '' @ natString NX25519))
     (throwIf (list_all (\<lambda>b. b = 0) shared) (JsError ''tsp: DH produced the all-zero shared secret'')
       (Inr shared)))"

definition checkedPublicKey :: "keyAgreement \<Rightarrow> tsp_error + bytes" where
  "checkedPublicKey ka =
     throwIf (length (kaPublicKey ka) \<noteq> NX25519)
       (JsError (''tsp: KeyAgreement.publicKey is '' @ natString (length (kaPublicKey ka))
                 @ '' bytes, expected '' @ natString NX25519))
       (Inr (kaPublicKey ka))"

definition authEncapWithKeyAgreement ::
    "crypto \<Rightarrow> bytes \<Rightarrow> bytes \<Rightarrow> keyAgreement \<Rightarrow> tsp_error + (bytes \<times> bytes)" where
  "authEncapWithKeyAgreement C skE recipientPk senderKeyAgreement =
     bindE (checkedPublicKey senderKeyAgreement) (\<lambda>senderPk.
     let enc = getPublicKey C skE in
     bindE (checkedAgree senderKeyAgreement recipientPk) (\<lambda>staticDh.
     bindE (dh C skE recipientPk) (\<lambda>d1.
     let dhBytes = concatBytes [d1, staticDh];
         kemContext = concatBytes [enc, recipientPk, senderPk]
     in Inr (extractAndExpand C dhBytes kemContext, enc))))"

text \<open>
  The two agreements run concurrently in the source; when both fail the model reports the first
  of them.
\<close>

definition authDecapWithKeyAgreement ::
    "crypto \<Rightarrow> bytes \<Rightarrow> keyAgreement \<Rightarrow> bytes \<Rightarrow> tsp_error + bytes" where
  "authDecapWithKeyAgreement C enc recipientKeyAgreement senderPk =
     bindE (checkedPublicKey recipientKeyAgreement) (\<lambda>recipientPk.
     bindE (checkedAgree recipientKeyAgreement enc) (\<lambda>dhWithEnc.
     bindE (checkedAgree recipientKeyAgreement senderPk) (\<lambda>dhWithSender.
     let kemContext = concatBytes [enc, recipientPk, senderPk]
     in Inr (extractAndExpand C (concatBytes [dhWithEnc, dhWithSender]) kemContext))))"

definition sealWithKeyAgreement ::
    "crypto \<Rightarrow> bytes \<Rightarrow> bytes \<Rightarrow> bytes \<Rightarrow> keyAgreement \<Rightarrow> bytes \<Rightarrow> bytes \<Rightarrow> tsp_error + sealResult" where
  "sealWithKeyAgreement C skE plaintext aad senderKeyAgreement recipientPk info =
     bindE (authEncapWithKeyAgreement C skE recipientPk senderKeyAgreement) (\<lambda>(sharedSecret, enc).
     let (key, baseNonce) = keySchedule C MODE_AUTH sharedSecret info
     in Inr \<lparr>sealEnc = enc, sealCiphertext = chachaEncrypt C key baseNonce aad plaintext\<rparr>)"

definition openWithKeyAgreement ::
    "crypto \<Rightarrow> bytes \<Rightarrow> bytes \<Rightarrow> bytes \<Rightarrow> keyAgreement \<Rightarrow> bytes \<Rightarrow> bytes \<Rightarrow> tsp_error + bytes" where
  "openWithKeyAgreement C ciphertext aad enc recipientKeyAgreement senderPk info =
     bindE (authDecapWithKeyAgreement C enc recipientKeyAgreement senderPk) (\<lambda>sharedSecret.
     let (key, baseNonce) = keySchedule C MODE_AUTH sharedSecret info
     in chachaDecrypt C key baseNonce aad ciphertext)"

subsection \<open>Signatures\<close>

definition sign :: "crypto \<Rightarrow> bytes \<Rightarrow> bytes \<Rightarrow> bytes" where
  "sign C data privateKey = edSign C data privateKey"

definition verify :: "crypto \<Rightarrow> bytes \<Rightarrow> bytes \<Rightarrow> bytes \<Rightarrow> bool" where
  "verify C data signature publicKey =
     (case edVerify C signature data publicKey of Inl e \<Rightarrow> False | Inr b \<Rightarrow> b)"

record signingKey =
  skPublicKey :: bytes
  skSign :: "bytes \<Rightarrow> tsp_error + bytes"

definition signWithSigningKey :: "crypto \<Rightarrow> bytes \<Rightarrow> signingKey \<Rightarrow> tsp_error + bytes" where
  "signWithSigningKey C data k =
     bindE (skSign k data) (\<lambda>signature.
     throwIf (length signature \<noteq> 64)
       (JsError (''tsp: SigningKey.sign returned '' @ natString (length signature)
                 @ '' bytes, expected 64''))
     (throwIf (\<not> verify C data signature (skPublicKey k))
       (JsError ''tsp: SigningKey.sign produced a signature that does not verify under its own publicKey'')
       (Inr signature)))"

subsection \<open>What is relied on\<close>

definition cryptoOk :: "crypto \<Rightarrow> bool" where
  "cryptoOk C \<longleftrightarrow>
     (\<forall>x. length (sha256 C x) = 32) \<and>
     (\<forall>sk. length sk = 32 \<longrightarrow> length (getPublicKey C sk) = 32) \<and>
     (\<forall>sk pk s. getSharedSecret C sk pk = Inr s \<longrightarrow> length s = 32) \<and>
     (\<forall>a b. length a = 32 \<longrightarrow> length b = 32 \<longrightarrow>
        getSharedSecret C a (getPublicKey C b) = getSharedSecret C b (getPublicKey C a)) \<and>
     (\<forall>prk info n. n \<le> 255 * 32 \<longrightarrow> length (hkdfExpand C prk info n) = n) \<and>
     (\<forall>k n aad m. length k = 32 \<longrightarrow> length n = 12 \<longrightarrow>
        chachaDecrypt C k n aad (chachaEncrypt C k n aad m) = Inr m \<and>
        length (chachaEncrypt C k n aad m) = length m + 16) \<and>
     (\<forall>m sk. length sk = 32 \<longrightarrow>
        length (edSign C m sk) = 64 \<and> edVerify C (edSign C m sk) m (edPublicKey C sk) = Inr True)"

lemma cryptoOk_hash: "cryptoOk C \<Longrightarrow> length (sha256 C x) = 32"
  by (simp add: cryptoOk_def)

lemma cryptoOk_public: "cryptoOk C \<Longrightarrow> length sk = 32 \<Longrightarrow> length (getPublicKey C sk) = 32"
  by (simp add: cryptoOk_def)

lemma cryptoOk_shared: "cryptoOk C \<Longrightarrow> getSharedSecret C sk pk = Inr s \<Longrightarrow> length s = 32"
  by (simp add: cryptoOk_def)

lemma cryptoOk_agree:
  "cryptoOk C \<Longrightarrow> length a = 32 \<Longrightarrow> length b = 32 \<Longrightarrow>
   getSharedSecret C a (getPublicKey C b) = getSharedSecret C b (getPublicKey C a)"
  by (simp add: cryptoOk_def)

lemma cryptoOk_expand: "cryptoOk C \<Longrightarrow> n \<le> 255 * 32 \<Longrightarrow> length (hkdfExpand C prk info n) = n"
  by (simp add: cryptoOk_def)

lemma cryptoOk_chacha:
  assumes "cryptoOk C" "length k = 32" "length n = 12"
  shows "chachaDecrypt C k n aad (chachaEncrypt C k n aad m) = Inr m"
    and "length (chachaEncrypt C k n aad m) = length m + 16"
  using assms by (simp_all add: cryptoOk_def)

lemma cryptoOk_sign:
  assumes "cryptoOk C" "length sk = 32"
  shows "length (sign C m sk) = 64" and "verify C m (sign C m sk) (edPublicKey C sk)"
  using assms by (simp_all add: cryptoOk_def sign_def verify_def)

text \<open>The key schedule always produces a key and a nonce the cipher takes.\<close>

lemma keySchedule_lengths:
  "cryptoOk C \<Longrightarrow> keySchedule C mode ss info = (k, n) \<Longrightarrow> length k = 32 \<and> length n = 12"
  by (auto simp: keySchedule_def labeledExpand_def cryptoOk_expand NK_def NN_def Let_def)

lemma dh_agree:
  "cryptoOk C \<Longrightarrow> length a = 32 \<Longrightarrow> length b = 32 \<Longrightarrow> dh C a (getPublicKey C b) = dh C b (getPublicKey C a)"
  by (simp add: dh_def cryptoOk_agree)

lemma dh_nonzero: "dh C sk pk = Inr s \<Longrightarrow> \<exists>b \<in> set s. b \<noteq> 0"
  by (auto simp: dh_def bindE_Inr list_all_iff split: if_splits)

subsection \<open>Both ends derive the same secret\<close>

lemma decap_encap:
  assumes "cryptoOk C" "length e = 32" "length rsk = 32"
    and "encap C e (getPublicKey C rsk) = Inr (ss, enc)"
  shows "decap C enc rsk = Inr ss" and "enc = getPublicKey C e"
  using assms dh_agree [of C rsk e] by (auto simp: encap_def decap_def Let_def bindE_Inr)

lemma authDecap_authEncap:
  assumes "cryptoOk C" "length e = 32" "length rsk = 32" "length ssk = 32"
    and "authEncap C e (getPublicKey C rsk) ssk = Inr (ss, enc)"
  shows "authDecap C enc rsk (getPublicKey C ssk) = Inr ss" and "enc = getPublicKey C e"
  using assms dh_agree [of C rsk e] dh_agree [of C rsk ssk]
  by (auto simp: authEncap_def authDecap_def Let_def bindE_Inr)

subsection \<open>A sealed channel\<close>

text \<open>
  The contract of a seal and open pair: \<open>'k\<close> holds the long-term keys of both ends, the second
  argument is the ephemeral key. Opening what was sealed returns the plaintext, and the sizes are
  those the TSP ciphertext field is cut by.
\<close>

locale sealed_channel =
  fixes sealF :: "'k \<Rightarrow> bytes \<Rightarrow> bytes \<Rightarrow> bytes \<Rightarrow> bytes \<Rightarrow> tsp_error + sealResult"
    and openF :: "'k \<Rightarrow> bytes \<Rightarrow> bytes \<Rightarrow> bytes \<Rightarrow> bytes \<Rightarrow> tsp_error + bytes"
    and ok :: "'k \<Rightarrow> bytes \<Rightarrow> bool"
  assumes open_seal: "ok k e \<Longrightarrow> sealF k e m aad info = Inr r \<Longrightarrow>
      openF k (sealCiphertext r) aad (sealEnc r) info = Inr m"
    and seal_lengths: "ok k e \<Longrightarrow> sealF k e m aad info = Inr r \<Longrightarrow>
      length (sealEnc r) = 32 \<and> length (sealCiphertext r) = length m + 16"
begin

text \<open>The receiver splits \<open>enc ++ ct\<close> at the fixed length of \<open>enc\<close>.\<close>

lemma open_split:
  assumes "ok k e" and "sealF k e m aad info = Inr r"
  defines "field \<equiv> sealEnc r @ sealCiphertext r"
  shows "openF k (drop 32 field) aad (take 32 field) info = Inr m"
    and "length field = length m + 48"
  using open_seal [OF assms(1,2)] seal_lengths [OF assms(1,2)] by (simp_all add: field_def)

lemma plaintext_determined:
  assumes "ok k e" "sealF k e m aad info = Inr r" and "ok k e'" "sealF k e' m' aad info = Inr r"
  shows "m = m'"
  using open_seal [OF assms(1,2)] open_seal [OF assms(3,4)] by simp

end

lemma openBase_sealBase:
  assumes "cryptoOk C" "length e = 32" "length rsk = 32"
    and "sealBase C e m aad (getPublicKey C rsk) info = Inr r"
  shows "openBase C (sealCiphertext r) aad (sealEnc r) rsk info = Inr m"
    and "length (sealEnc r) = 32 \<and> length (sealCiphertext r) = length m + 16"
proof -
  from assms(4) obtain ss enc where e: "encap C e (getPublicKey C rsk) = Inr (ss, enc)"
    by (auto simp: sealBase_def bindE_Inr)
  obtain k n where k: "keySchedule C MODE_BASE ss info = (k, n)"
    by (cases "keySchedule C MODE_BASE ss info")
  have r: "r = \<lparr>sealEnc = enc, sealCiphertext = chachaEncrypt C k n aad m\<rparr>"
    using assms(4) e k by (simp add: sealBase_def)
  note d = decap_encap [OF assms(1-3) e] and l = keySchedule_lengths [OF assms(1) k]
  show "openBase C (sealCiphertext r) aad (sealEnc r) rsk info = Inr m"
    using d k r l cryptoOk_chacha(1) [OF assms(1)] by (simp add: openBase_def)
  show "length (sealEnc r) = 32 \<and> length (sealCiphertext r) = length m + 16"
    using d r l cryptoOk_chacha(2) [OF assms(1)] cryptoOk_public [OF assms(1,2)] by simp
qed

lemma open_auth_seal:
  assumes "cryptoOk C" "length e = 32" "length rsk = 32" "length ssk = 32"
    and "seal C e m aad ssk (getPublicKey C rsk) info = Inr r"
  shows "open_auth C (sealCiphertext r) aad (sealEnc r) rsk (getPublicKey C ssk) info = Inr m"
    and "length (sealEnc r) = 32 \<and> length (sealCiphertext r) = length m + 16"
proof -
  from assms(5) obtain ss enc where e: "authEncap C e (getPublicKey C rsk) ssk = Inr (ss, enc)"
    by (auto simp: seal_def bindE_Inr)
  obtain k n where k: "keySchedule C MODE_AUTH ss info = (k, n)"
    by (cases "keySchedule C MODE_AUTH ss info")
  have r: "r = \<lparr>sealEnc = enc, sealCiphertext = chachaEncrypt C k n aad m\<rparr>"
    using assms(5) e k by (simp add: seal_def)
  note d = authDecap_authEncap [OF assms(1-4) e] and l = keySchedule_lengths [OF assms(1) k]
  show "open_auth C (sealCiphertext r) aad (sealEnc r) rsk (getPublicKey C ssk) info = Inr m"
    using d k r l cryptoOk_chacha(1) [OF assms(1)] by (simp add: open_auth_def)
  show "length (sealEnc r) = 32 \<and> length (sealCiphertext r) = length m + 16"
    using d r l cryptoOk_chacha(2) [OF assms(1)] cryptoOk_public [OF assms(1,2)] by simp
qed

interpretation base: sealed_channel
    "\<lambda>(C, rsk) e m aad info. sealBase C e m aad (getPublicKey C rsk) info"
    "\<lambda>(C, rsk) ct aad enc info. openBase C ct aad enc rsk info"
    "\<lambda>(C, rsk) e. cryptoOk C \<and> length e = 32 \<and> length rsk = 32"
proof (unfold_locales, goal_cases)
  case (1 k e m aad info r)
  then show ?case using openBase_sealBase(1) by (auto split: prod.splits)
next
  case (2 k e m aad info r)
  then show ?case using openBase_sealBase(2) by (auto split: prod.splits)
qed

interpretation auth: sealed_channel
    "\<lambda>(C, ssk, rsk) e m aad info. seal C e m aad ssk (getPublicKey C rsk) info"
    "\<lambda>(C, ssk, rsk) ct aad enc info. open_auth C ct aad enc rsk (getPublicKey C ssk) info"
    "\<lambda>(C, ssk, rsk) e. cryptoOk C \<and> length e = 32 \<and> length rsk = 32 \<and> length ssk = 32"
proof (unfold_locales, goal_cases)
  case (1 k e m aad info r)
  then show ?case using open_auth_seal(1) by (auto split: prod.splits)
next
  case (2 k e m aad info r)
  then show ?case using open_auth_seal(2) by (auto split: prod.splits)
qed

subsection \<open>The capability variants compute the same\<close>

text \<open>A capability that wraps a raw key.\<close>

definition wraps :: "crypto \<Rightarrow> bytes \<Rightarrow> keyAgreement" where
  "wraps C sk = \<lparr>kaPublicKey = getPublicKey C sk, kaAgree = getSharedSecret C sk\<rparr>"

lemma checkedAgree_wraps: "cryptoOk C \<Longrightarrow> checkedAgree (wraps C sk) pk = dh C sk pk"
  by (cases "getSharedSecret C sk pk")
    (auto simp: checkedAgree_def wraps_def dh_def NX25519_def dest: cryptoOk_shared)

lemma checkedPublicKey_wraps: "cryptoOk C \<Longrightarrow> length sk = 32 \<Longrightarrow> checkedPublicKey (wraps C sk) = Inr (getPublicKey C sk)"
  by (simp add: checkedPublicKey_def wraps_def NX25519_def cryptoOk_public)

lemma openWithKeyAgreement_wraps:
  "cryptoOk C \<Longrightarrow> length rsk = 32 \<Longrightarrow>
   openWithKeyAgreement C ct aad enc (wraps C rsk) spk info = open_auth C ct aad enc rsk spk info"
  by (simp add: openWithKeyAgreement_def open_auth_def authDecapWithKeyAgreement_def authDecap_def
      checkedAgree_wraps checkedPublicKey_wraps Let_def)

text \<open>The two agreements of a seal run in the other order, so only the exception may differ.\<close>

lemma sealWithKeyAgreement_wraps:
  "cryptoOk C \<Longrightarrow> length ssk = 32 \<Longrightarrow>
   toOption (sealWithKeyAgreement C e m aad (wraps C ssk) rpk info) = toOption (seal C e m aad ssk rpk info)"
  by (cases "dh C e rpk"; cases "dh C ssk rpk")
    (simp_all add: sealWithKeyAgreement_def seal_def authEncapWithKeyAgreement_def authEncap_def
      checkedAgree_wraps checkedPublicKey_wraps Let_def split: prod.splits)

text \<open>
  Whatever a capability answers, a secret that is accepted has 32 bytes and is not all zero, and a
  signature that is returned verifies.
\<close>

lemma checkedAgree_safe: "checkedAgree ka pk = Inr s \<Longrightarrow> length s = 32 \<and> (\<exists>b \<in> set s. b \<noteq> 0)"
  by (auto simp: checkedAgree_def bindE_Inr list_all_iff NX25519_def split: if_splits)

lemma signWithSigningKey_safe:
  "signWithSigningKey C d k = Inr sig \<Longrightarrow> length sig = 64 \<and> verify C d sig (skPublicKey k)"
  by (auto simp: signWithSigningKey_def bindE_Inr split: if_splits)

subsection \<open>A concrete instance\<close>

lemma byte_nonzero_or: "(w :: byte) OR 1 \<noteq> 0"
proof
  assume "w OR 1 = 0"
  then have "bit (w OR 1) 0 = bit (0 :: byte) 0" by simp
  then show False by (simp add: bit_or_iff)
qed

text \<open>
  Functions with the lengths and inversion laws of the primitives, for evaluating examples. They
  are not secure.
\<close>

definition sampleCrypto :: crypto where
  "sampleCrypto = \<lparr>
     sha256 = (\<lambda>x. replicate 32 (word_of_nat (length x))),
     getSharedSecret = (\<lambda>sk pk. Inr (map (\<lambda>i. (sk ! i XOR pk ! i) OR 1) [0..<32])),
     getPublicKey = (\<lambda>sk. if length sk = 32 then sk else replicate 32 0),
     hkdfExtract = (\<lambda>ikm salt. replicate 32 7),
     hkdfExpand = (\<lambda>prk info n. replicate n 9),
     chachaEncrypt = (\<lambda>k n aad m. m @ replicate 16 0),
     chachaDecrypt = (\<lambda>k n aad c. if length c < 16 then Inl (JsError ''invalid tag'')
                                  else Inr (take (length c - 16) c)),
     edSign = (\<lambda>m sk. replicate 64 5),
     edVerify = (\<lambda>s m pk. Inr (s = replicate 64 5)),
     edPublicKey = (\<lambda>sk. sk)\<rparr>"

lemma sampleCrypto_ok: "cryptoOk sampleCrypto"
  by (auto simp: cryptoOk_def sampleCrypto_def xor.commute)

subsection \<open>Properties\<close>

text \<open>HPKE in both modes opens what it sealed: with the primitives' laws, a plaintext sealed to a receiver
  under any associated data and info is returned by the matching open with the receiver's secret key
  (and, in auth mode, the sender's public key), and the ciphertext is 16 bytes longer than the plaintext.\<close>

theorem hpke_roundtrip:
  assumes "cryptoOk C" and "length e = 32" and "length rsk = 32" and "length ssk = 32"
  shows "(\<forall>r. sealBase C e m aad (getPublicKey C rsk) info = Inr r \<longrightarrow>
      openBase C (sealCiphertext r) aad (sealEnc r) rsk info = Inr m \<and> length (sealCiphertext r) = length m + 16) \<and>
    (\<forall>r. seal C e m aad ssk (getPublicKey C rsk) info = Inr r \<longrightarrow>
      open_auth C (sealCiphertext r) aad (sealEnc r) rsk (getPublicKey C ssk) info = Inr m \<and>
      length (sealCiphertext r) = length m + 16)"
  using openBase_sealBase [OF assms(1-3)] open_auth_seal [OF assms] by blast

theorem hpke_roundtrip_witness:
  "\<exists>r. sealBase sampleCrypto (replicate 32 1) [4] [] (getPublicKey sampleCrypto (replicate 32 2)) [] = Inr r \<and>
     openBase sampleCrypto (sealCiphertext r) [] (sealEnc r) (replicate 32 2) [] = Inr [4]"
proof -
  have "(0 :: nat) \<in> set [0..<32]" by simp
  moreover have "(w :: byte) OR 1 \<noteq> 0" for w using byte_nonzero_or .
  ultimately have "\<exists>r. sealBase sampleCrypto (replicate 32 1) [4] [] (getPublicKey sampleCrypto (replicate 32 2)) [] = Inr r"
    by (auto simp: sealBase_def encap_def dh_def sampleCrypto_def list_all_iff bindE_Inr Let_def
        simp del: set_upt split: prod.splits intro!: bexI [of _ 0])
  then show ?thesis
    using hpke_roundtrip [OF sampleCrypto_ok, of "replicate 32 1" "replicate 32 2" "replicate 32 3" "[4]" "[]" "[]"]
    by auto
qed

text \<open>The variants that hold keys behind a capability compute the same as those on raw keys when the
  capability wraps the raw key: opening is equal in every case, errors included, and sealing gives the
  same ciphertext or fails with it.\<close>

theorem key_agreement_same:
  assumes "cryptoOk C" and "length sk = 32"
  shows "openWithKeyAgreement C ct aad enc (wraps C sk) spk info = open_auth C ct aad enc sk spk info \<and>
    toOption (sealWithKeyAgreement C e m aad (wraps C sk) rpk info) = toOption (seal C e m aad sk rpk info)"
  using openWithKeyAgreement_wraps [OF assms] sealWithKeyAgreement_wraps [OF assms] by simp

theorem key_agreement_same_witness:
  "openWithKeyAgreement sampleCrypto [] [] [] (wraps sampleCrypto (replicate 32 1)) [] [] =
   open_auth sampleCrypto [] [] [] (replicate 32 1) [] []"
  using key_agreement_same [OF sampleCrypto_ok length_replicate] by blast

text \<open>Whatever a key capability answers, nothing unsafe is accepted: an agreed secret has 32 bytes and is not
  all zero, a Diffie-Hellman secret computed from raw keys is not all zero either, and a signature that
  is returned has 64 bytes and verifies under the capability's own public key.\<close>

theorem capabilities_checked:
  "(\<forall>s. checkedAgree ka pk = Inr s \<longrightarrow> length s = 32 \<and> (\<exists>b \<in> set s. b \<noteq> 0)) \<and>
   (\<forall>s. dh C sk pk = Inr s \<longrightarrow> (\<exists>b \<in> set s. b \<noteq> 0)) \<and>
   (\<forall>sig. signWithSigningKey C d k = Inr sig \<longrightarrow> length sig = 64 \<and> verify C d sig (skPublicKey k))"
  by (intro conjI allI impI) (auto dest: checkedAgree_safe dh_nonzero signWithSigningKey_safe)

theorem capabilities_checked_witness:
  "length (replicate 32 (3 :: byte)) = 32 \<and>
   checkedAgree \<lparr>kaPublicKey = [], kaAgree = (\<lambda>_. Inr (replicate 32 3))\<rparr> [] = Inr (replicate 32 3)"
proof -
  have a: "checkedAgree \<lparr>kaPublicKey = [], kaAgree = (\<lambda>_. Inr (replicate 32 3))\<rparr> [] = Inr (replicate 32 3)"
    by (simp add: checkedAgree_def NX25519_def list_all_iff)
  with capabilities_checked [of "\<lparr>kaPublicKey = [], kaAgree = (\<lambda>_. Inr (replicate 32 3))\<rparr>" "[]"] show ?thesis by blast
qed

end
