(* ===== verification/Tsp_Direct.thy ===== *)
theory Tsp_Direct
  imports Tsp_Envelope Hpke
begin

text \<open>
  Pack and unpack of \<open>packages/tsp-js/src/v1/direct.ts\<close>: the envelope, the sealed payload and the
  signature come together here. The constants of the signature group are those of
  \<open>Tsp_Control\<close> (the source repeats them with the same values). Random draws are arguments: the
  ephemeral key \<open>eph\<close> of a seal and the nonce of an invite.
\<close>

definition ENC_LEN :: nat where "ENC_LEN = 32"
definition TAG_LEN :: nat where "TAG_LEN = 16"

record packKeys =
  senderSigningSk :: bytes
  receiverEncryptionPk :: bytes

record unpackKeys =
  receiverDecryptionSk :: bytes
  senderSigningPk :: bytes

record packedMessage =
  packedBytes :: bytes
  packedThread :: bytes

record unpackedMessage =
  msgPayload :: bytes
  msgSender :: jsstr
  msgReceiver :: jsstr
  msgType :: messageType
  msgControl :: "controlMessage option"
  msgHops :: "jsstr list"
  msgThread :: bytes

subsection \<open>Signature attachment\<close>

definition encodeSignatureFrame :: "bytes \<Rightarrow> bytes" where
  "encodeSignatureFrame signature =
     encodeCount TSP_ATTACH_GRP ATTACH_GROUP_QUADLETS
     @ encodeCount TSP_INDEX_SIG_GRP SIG_GROUP_QUADLETS
     @ encodeIndexedEd25519Signature SIG_INDEX signature"

definition decodeSignatureFrame :: "bytes \<Rightarrow> offset \<Rightarrow> tsp_error + (bytes \<times> offset)" where
  "decodeSignatureFrame data pos =
     (case readAttachCounts data pos of (attach, grp, pos2) \<Rightarrow>
        throwIf (attach \<noteq> Some ATTACH_GROUP_QUADLETS \<or> grp \<noteq> Some SIG_GROUP_QUADLETS)
          (JsError ''tsp: unexpected signature group size'')
        (throwIf (pos2 + 2 + SIG_LEN > length data) (JsError ''tsp: truncated signature attachment'')
        (let word = push_bit 16 (unat (data ! pos2)) OR push_bit 8 (unat (data ! (pos2 + 1)));
             index = drop_bit 12 word AND 0x3f
         in throwIf (drop_bit 18 word \<noteq> ED25519_SIGNATURE)
              (JsError ''tsp: signature is not the indexed Ed25519 code'')
            (throwIf (index \<noteq> SIG_INDEX)
              (JsError (''tsp: signature names key index '' @ natString index @ '', but only index ''
                        @ natString SIG_INDEX @ '' can be verified''))
            (Inr (slice data (pos2 + 2) (pos2 + 2 + SIG_LEN), pos2 + 2 + SIG_LEN))))))"

subsection \<open>Pack\<close>

text \<open>
  \<open>unsafe\<close> is the input of a derived ephemeral key, supplied by tests only; otherwise the
  ephemeral key is the random \<open>eph\<close>.
\<close>

definition sealFrame ::
    "crypto \<Rightarrow> bytes \<Rightarrow> bytes \<Rightarrow> bytes \<Rightarrow> packKeys \<Rightarrow> bytes option \<Rightarrow> tsp_error + bytes" where
  "sealFrame C eph envFields frame keys unsafe =
     bindE (case unsafe of
              None \<Rightarrow> sealBase C eph frame envFields (receiverEncryptionPk keys) TSP_INFO
            | Some ikmE \<Rightarrow> bindE (deriveKeyPair C ikmE) (\<lambda>(sk, _).
                sealBase C sk frame envFields (receiverEncryptionPk keys) TSP_INFO)) (\<lambda>sealed.
     let ciphertext = sealEnc sealed @ sealCiphertext sealed;
         field = encodeVariableData TSP_HPKE_BASE_CIPHERTEXT ciphertext
     in bindE (finalizeFrame envFields field) (\<lambda>wireBytes.
     let signature = sign C wireBytes (senderSigningSk keys)
     in Inr (wireBytes @ encodeSignatureFrame signature)))"

definition packWithHops ::
    "crypto \<Rightarrow> bytes \<Rightarrow> bytes \<Rightarrow> applicationKind \<Rightarrow> jsstr list \<Rightarrow> jsstr \<Rightarrow> jsstr \<Rightarrow> packKeys
     \<Rightarrow> bytes option \<Rightarrow> tsp_error + packedMessage" where
  "packWithHops C eph body kind hops senderVid receiverVid keys unsafe =
     bindE (encodeFields senderVid receiverVid) (\<lambda>envFields.
     bindE (encodePayloadFrame (sha256 C) body kind hops senderVid) (\<lambda>(frame, threadDigest).
     bindE (sealFrame C eph envFields frame keys unsafe) (\<lambda>out.
       Inr \<lparr>packedBytes = out, packedThread = threadDigest\<rparr>)))"

definition packControl ::
    "crypto \<Rightarrow> bytes \<Rightarrow> controlMessage \<Rightarrow> jsstr \<Rightarrow> jsstr \<Rightarrow> packKeys
     \<Rightarrow> bytes option \<Rightarrow> tsp_error + packedMessage" where
  "packControl C eph control senderVid receiverVid keys unsafe =
     bindE (encodeFields senderVid receiverVid) (\<lambda>envFields.
     bindE (encodeControlFrame (sha256 C) control senderVid envFields) (\<lambda>(frame, threadDigest).
     bindE (sealFrame C eph envFields frame keys unsafe) (\<lambda>out.
       Inr \<lparr>packedBytes = out, packedThread = threadDigest\<rparr>)))"

text \<open>
  \<open>optRoute\<close> and \<open>optNonce\<close> are the optional fields of \<open>opts\<close>, \<open>freshNonce\<close> what \<open>generateNonce\<close>
  returned.
\<close>

definition packInvite ::
    "crypto \<Rightarrow> bytes \<Rightarrow> bytes \<Rightarrow> jsstr \<Rightarrow> jsstr \<Rightarrow> packKeys \<Rightarrow> jsstr list option \<Rightarrow> bytes option
     \<Rightarrow> bytes option \<Rightarrow> tsp_error + packedMessage" where
  "packInvite C eph freshNonce senderVid receiverVid keys optRoute optNonce unsafe =
     packControl C eph
       \<lparr>controlType = Invite, ownDigest = None, inReplyTo = None,
        inviteNonce = Some (case optNonce of Some n \<Rightarrow> n | None \<Rightarrow> freshNonce),
        replyRoute = (case optRoute of Some r \<Rightarrow> r | None \<Rightarrow> []), inviteReferral = None\<rparr>
       senderVid receiverVid keys unsafe"

definition packAccept ::
    "crypto \<Rightarrow> bytes \<Rightarrow> bytes \<Rightarrow> jsstr \<Rightarrow> jsstr \<Rightarrow> packKeys \<Rightarrow> bytes option \<Rightarrow> tsp_error + packedMessage" where
  "packAccept C eph inviteDigest senderVid receiverVid keys unsafe =
     packControl C eph
       \<lparr>controlType = Accept, ownDigest = None, inReplyTo = Some inviteDigest,
        inviteNonce = None, replyRoute = [], inviteReferral = None\<rparr>
       senderVid receiverVid keys unsafe"

definition packCancel ::
    "crypto \<Rightarrow> bytes \<Rightarrow> bytes \<Rightarrow> jsstr \<Rightarrow> jsstr \<Rightarrow> packKeys \<Rightarrow> bytes option \<Rightarrow> tsp_error + packedMessage" where
  "packCancel C eph relationshipDigest senderVid receiverVid keys unsafe =
     packControl C eph
       \<lparr>controlType = Cancel, ownDigest = None, inReplyTo = Some relationshipDigest,
        inviteNonce = None, replyRoute = [], inviteReferral = None\<rparr>
       senderVid receiverVid keys unsafe"

definition pack ::
    "crypto \<Rightarrow> bytes \<Rightarrow> bytes \<Rightarrow> jsstr \<Rightarrow> jsstr \<Rightarrow> packKeys \<Rightarrow> bytes option \<Rightarrow> tsp_error + packedMessage" where
  "pack C eph body senderVid receiverVid keys unsafe =
     packWithHops C eph body AppDirect [] senderVid receiverVid keys unsafe"

subsection \<open>Unpack\<close>

text \<open>
  The body of \<open>unpack\<close> after the envelope. A ciphertext field whose lead bytes run past its data
  has a begin beyond its end; lengths are integers here, as in the source.
\<close>

definition openBody :: "crypto \<Rightarrow> bytes \<Rightarrow> decodedEnvelope \<Rightarrow> unpackKeys \<Rightarrow> tsp_error + unpackedMessage" where
  "openBody C wireBytes decoded keys =
     (let aad = slice wireBytes (aadBegin decoded) (aadEnd decoded) in
      case decodeVariableDataRange TSP_HPKE_BASE_CIPHERTEXT wireBytes (headerLen decoded) of
        None \<Rightarrow>
          if decodeVariableDataRange TSP_SEALED_BOX_CIPHERTEXT wireBytes (headerLen decoded) \<noteq> None
          then Inl (JsError (''tsp: message is sealed with the libsodium sealed box ('' @ [CHR 0xA7]
                    @ ''8.3), which this implementation does not support''))
          else Inl (JsError ''tsp: missing F ciphertext field'')
      | Some ((ctBegin, ctEnd), pos) \<Rightarrow>
          let ctLen = int ctEnd - int ctBegin in
          throwIf (ctLen > int MAX_FIELD_SIZE) (JsError ''tsp: ciphertext too large'')
          (throwIf (ctLen < int ENC_LEN + int TAG_LEN) (JsError ''tsp: ciphertext truncated'')
          (throwIf (pos \<noteq> contentEnd decoded) (JsError ''tsp: message body does not fill the -E frame'')
          (bindE (decodeSignatureFrame wireBytes pos) (\<lambda>(signature, pos').
           throwIf (pos' \<noteq> length wireBytes) (JsError ''tsp: trailing bytes after signature'')
           (throwIf (\<not> verify C (slice wireBytes 0 (contentEnd decoded)) signature (senderSigningPk keys))
             (JsError ''tsp: signature verification failed'')
           (let ciphertext = slice wireBytes ctBegin ctEnd in
            bindE (openBase C (drop ENC_LEN ciphertext) aad (take ENC_LEN ciphertext)
                     (receiverDecryptionSk keys) TSP_INFO) (\<lambda>payloadFrame.
            bindE (decodePayloadFrame (sha256 C) payloadFrame (envSender (decEnvelope decoded)) aad)
              (\<lambda>frame.
               Inr \<lparr>msgPayload = frameBody frame, msgSender = envSender (decEnvelope decoded),
                    msgReceiver = envReceiver (decEnvelope decoded), msgType = frameKind frame,
                    msgControl = frameControl frame, msgHops = frameHops frame,
                    msgThread = frameThread frame\<rparr>)))))))))"

definition unpackV1 :: "crypto \<Rightarrow> bytes \<Rightarrow> unpackKeys \<Rightarrow> tsp_error + unpackedMessage" where
  "unpackV1 C wireBytes keys =
     throwIf (length wireBytes < 48) (JsError ''tsp: message too short'')
     (bindE (decodeEnvelope wireBytes) (\<lambda>decoded. openBody C wireBytes decoded keys))"

subsection \<open>The signature attachment read back\<close>

lemma encodeSignatureFrame_eq: "encodeSignatureFrame sig = attachmentBytes sig"
  by (simp add: encodeSignatureFrame_def attachmentBytes_def sig_consts)


lemma decodeSignatureFrame_encoded:
  assumes "length sig = 64" and at: "drop p s = attachmentBytes sig @ rest"
  shows "decodeSignatureFrame s p = Inr (sig, p + 72)"
proof -
  have at': "drop p s = encodeCount TSP_ATTACH_GRP 23 @ encodeCount TSP_INDEX_SIG_GRP 22 @
      (encodeIndexedEd25519Signature 0 sig @ rest)"
    using at by (simp add: attachmentBytes_def)
  note rc = readAttachCounts_encoded [OF at']
  note ic = indexed_code_read [OF rc(2) assms(1)]
  let ?w = "push_bit 16 (unat (s ! (p + 6))) OR push_bit 8 (unat (s ! (p + 6 + 1)))"
  have "drop_bit 18 ?w = 1" "drop_bit 12 ?w AND 0x3f = 0"
    using ic by (simp_all add: drop_bit_eq_div push_bit_eq_mult and_3f)
  then show ?thesis
    unfolding decodeSignatureFrame_def rc(1) prod.case Let_def
    using ic by (simp add: sig_consts field_lens consts_def)
qed

lemma decodeSignatureFrame_inside:
  "decodeSignatureFrame s p = Inr (sig, p') \<Longrightarrow> p < p' \<and> p' \<le> length s \<and> length sig = 64"
  by (fastforce simp: decodeSignatureFrame_def Let_def field_lens length_slice
      split: prod.splits if_splits dest: readAttachCounts_inside)

subsection \<open>A sealed frame opened\<close>

text \<open>The keys of an exchange: what the sender packs with and the receiver unpacks with.\<close>

definition exchangeOk :: "crypto \<Rightarrow> bytes \<Rightarrow> bytes \<Rightarrow> bytes \<Rightarrow> bool" where
  "exchangeOk C eph ssk rsk \<longleftrightarrow> cryptoOk C \<and> length eph = 32 \<and> length ssk = 32 \<and> length rsk = 32 \<and>
     returns (dh C eph (getPublicKey C rsk))"

definition packKeysFor :: "crypto \<Rightarrow> bytes \<Rightarrow> bytes \<Rightarrow> packKeys" where
  "packKeysFor C ssk rsk = \<lparr>senderSigningSk = ssk, receiverEncryptionPk = getPublicKey C rsk\<rparr>"

definition unpackKeysFor :: "crypto \<Rightarrow> bytes \<Rightarrow> bytes \<Rightarrow> unpackKeys" where
  "unpackKeysFor C ssk rsk = \<lparr>receiverDecryptionSk = rsk, senderSigningPk = edPublicKey C ssk\<rparr>"

definition MAX_FRAME :: nat where "MAX_FRAME = 3 * (2 ^ 24 - 1) - 48"

lemma exchangeOk_parts:
  assumes "exchangeOk C eph ssk rsk"
  shows "cryptoOk C" "length eph = 32" "length ssk = 32" "length rsk = 32"
  using assms by (simp_all add: exchangeOk_def)

lemma sealBase_returns:
  assumes "exchangeOk C eph ssk rsk"
  shows "\<exists>r. sealBase C eph m aad (getPublicKey C rsk) info = Inr r"
  using assms by (auto simp: exchangeOk_def returns_iff sealBase_def encap_def Let_def split: prod.splits)

text \<open>The message a frame is sealed into.\<close>

definition sealedMessage :: "crypto \<Rightarrow> bytes \<Rightarrow> bytes \<Rightarrow> sealResult \<Rightarrow> bytes" where
  "sealedMessage C ssk envFields r =
     (let field = encodeVariableData TSP_HPKE_BASE_CIPHERTEXT (sealEnc r @ sealCiphertext r);
          w = encodeCount TSP_ETS_WRAPPER ((length envFields + length field) div 3) @ envFields @ field
      in w @ attachmentBytes (sign C w ssk))"

lemma sealFrame_eq:
  assumes "sealBase C eph frame (envelopeFields s r) (receiverEncryptionPk keys) TSP_INFO = Inr res"
  shows "sealFrame C eph (envelopeFields s r) frame keys None =
    Inr (sealedMessage C (senderSigningSk keys) (envelopeFields s r) res)"
  using finalizeFrame_eq [OF encodeVariableData_aligned] assms
  by (simp add: sealFrame_def sealedMessage_def Let_def encodeSignatureFrame_eq)

lemma decodeRange_ciphertext:
  assumes len: "length ct \<le> 3 * (2 ^ 24 - 1)"
    and at: "drop p s = encodeVariableData TSP_HPKE_BASE_CIPHERTEXT ct @ rest"
  defines "e \<equiv> p + length (encodeVariableData TSP_HPKE_BASE_CIPHERTEXT ct)"
  shows "decodeVariableDataRange TSP_HPKE_BASE_CIPHERTEXT s p = Some ((e - length ct, e), e)"
    and "slice s (e - length ct) e = ct" and "length ct \<le> e"
proof -
  have ok: "varOk TSP_HPKE_BASE_CIPHERTEXT ct" using len by (simp add: varOk_def consts_def)
  show r: "decodeVariableDataRange TSP_HPKE_BASE_CIPHERTEXT s p = Some ((e - length ct, e), e)"
    using decodeRange_encode [OF ok at] by (simp add: e_def)
  from decodeVariableData_encode [OF ok at] show "slice s (e - length ct) e = ct"
    by (simp add: decodeVariableData_def r e_def [symmetric])
  show "length ct \<le> e"
    using nextMul3_ge [of "length ct"] by (simp add: e_def length_encodeVariableData)
qed

lemma unpackV1_sealed:
  assumes ex: "exchangeOk C eph ssk rsk" and v: "vidOk s" "s \<noteq> []" "vidOk r"
    and small: "length frame \<le> MAX_FRAME"
    and seal: "sealBase C eph frame (envelopeFields s r) (getPublicKey C rsk) TSP_INFO = Inr res"
  shows "unpackV1 C (sealedMessage C ssk (envelopeFields s r) res) (unpackKeysFor C ssk rsk) =
    bindE (decodePayloadFrame (sha256 C) frame s (envelopeFields s r)) (\<lambda>d. Inr
    \<lparr>msgPayload = frameBody d, msgSender = s, msgReceiver = r, msgType = frameKind d,
     msgControl = frameControl d, msgHops = frameHops d, msgThread = frameThread d\<rparr>)"
proof -
  note C = exchangeOk_parts [OF ex]
  let ?fs = "envelopeFields s r" and ?ct = "sealEnc res @ sealCiphertext res"
  let ?field = "encodeVariableData TSP_HPKE_BASE_CIPHERTEXT ?ct"
  let ?c = "encodeCount TSP_ETS_WRAPPER ((length ?fs + length ?field) div 3)"
  let ?p = "length ?c" and ?w = "?c @ ?fs @ ?field"
  let ?sig = "sign C ?w ssk"
  let ?out = "?w @ attachmentBytes ?sig"
  have opn: "openBase C (drop 32 ?ct) ?fs (take 32 ?ct) rsk TSP_INFO = Inr frame"
      and len: "length ?ct = length frame + 48"
    using base.open_split [of "(C, rsk)" eph frame ?fs TSP_INFO res] C seal by auto
  have ctmax: "length ?ct \<le> 3 * (2 ^ 24 - 1)" using small len by (simp add: MAX_FRAME_def)
  have fieldmax: "length ?field < 2 ^ 30"
    using ctmax nextMul3_lt [of "length ?ct"] by (auto simp: length_encodeVariableData)
  note dec = decodeEnvelope_encoded(1,2) [OF v encodeVariableData_aligned fieldmax, of "attachmentBytes ?sig"]
  have at: "drop (?p + length ?fs) ?out = ?field @ attachmentBytes ?sig"
    using dec(2) by (rule drop_past)
  note ctr = decodeRange_ciphertext [OF ctmax at]
  have we: "?p + length ?fs + length ?field = length ?w" by simp
  have sl: "length ?sig = 64" "verify C ?w ?sig (edPublicKey C ssk)"
    using cryptoOk_sign [OF C(1) C(3)] by simp_all
  have dsig: "decodeSignatureFrame ?out (length ?w) = Inr (?sig, length ?w + 72)"
    by (rule decodeSignatureFrame_encoded [OF sl(1), of _ _ "[]"]) simp
  have lo: "length ?out = length ?w + 72" using sl(1) by (simp add: length_attachmentBytes)
  have aad: "slice ?out ?p (?p + length ?fs) = ?fs" using dec(2) by (rule slice_at)
  have w0: "slice ?out 0 (length ?w) = ?w" by (simp add: slice_def)
  have ctl: "int (length ?w) - int (length ?w - length ?ct) = int (length ?ct)"
    using ctr(3) unfolding we by simp
  have m: "\<not> int (length ?ct) > int MAX_FIELD_SIZE" "\<not> int (length ?ct) < 32 + 16"
    using ctmax len by (simp_all add: MAX_FIELD_SIZE_eq)
  have "unpackV1 C ?out (unpackKeysFor C ssk rsk) =
    bindE (decodePayloadFrame (sha256 C) frame s ?fs) (\<lambda>d. Inr
    \<lparr>msgPayload = frameBody d, msgSender = s, msgReceiver = r, msgType = frameKind d,
     msgControl = frameControl d, msgHops = frameHops d, msgThread = frameThread d\<rparr>)"
    unfolding unpackV1_def dec(1) openBody_def Let_def
    using ctr [unfolded we] ctl m dsig lo sl(2) w0 aad opn len
    by (simp add: ENC_LEN_def TAG_LEN_def unpackKeysFor_def del: length_append)
  then show ?thesis by (simp add: sealedMessage_def Let_def)
qed

subsection \<open>Pack and unpack\<close>

text \<open>The message \<open>packWithHops\<close> and \<open>packControl\<close> build from a frame.\<close>

definition messageOfFrame :: "crypto \<Rightarrow> bytes \<Rightarrow> bytes \<Rightarrow> bytes \<Rightarrow> jsstr \<Rightarrow> jsstr \<Rightarrow> bytes \<Rightarrow> bytes" where
  "messageOfFrame C eph ssk rsk s r frame =
     sealedMessage C ssk (envelopeFields s r)
       (projr (sealBase C eph frame (envelopeFields s r) (getPublicKey C rsk) TSP_INFO))"

lemma sealFrame_message:
  assumes "exchangeOk C eph ssk rsk"
  shows "sealFrame C eph (envelopeFields s r) frame (packKeysFor C ssk rsk) None =
    Inr (messageOfFrame C eph ssk rsk s r frame)"
proof -
  obtain res where "sealBase C eph frame (envelopeFields s r) (getPublicKey C rsk) TSP_INFO = Inr res"
    using sealBase_returns [OF assms] by blast
  then show ?thesis
    using sealFrame_eq [of C eph frame s r "packKeysFor C ssk rsk" res]
    by (simp add: packKeysFor_def messageOfFrame_def)
qed

lemma unpackV1_message:
  assumes ex: "exchangeOk C eph ssk rsk" and "vidOk s" "s \<noteq> []" "vidOk r"
    and "length frame \<le> MAX_FRAME"
  shows "unpackV1 C (messageOfFrame C eph ssk rsk s r frame) (unpackKeysFor C ssk rsk) =
    bindE (decodePayloadFrame (sha256 C) frame s (envelopeFields s r)) (\<lambda>d. Inr
    \<lparr>msgPayload = frameBody d, msgSender = s, msgReceiver = r, msgType = frameKind d,
     msgControl = frameControl d, msgHops = frameHops d, msgThread = frameThread d\<rparr>)"
proof -
  obtain res where r: "sealBase C eph frame (envelopeFields s r) (getPublicKey C rsk) TSP_INFO = Inr res"
    using sealBase_returns [OF ex] by blast
  show ?thesis
    using unpackV1_sealed [OF ex assms(2-5) r] by (simp add: messageOfFrame_def r)
qed

lemma packWithHops_eq:
  assumes "exchangeOk C eph ssk rsk" and "kind = AppDirect \<or> 3 dvd length body"
  shows "packWithHops C eph body kind hops s r (packKeysFor C ssk rsk) None = Inr
    \<lparr>packedBytes = messageOfFrame C eph ssk rsk s r (appFrame kind hops body s),
     packedThread = sha256 C (appFrame kind hops body s)\<rparr>"
  by (simp add: packWithHops_def encodeFields_eq encodePayloadFrame_eq [OF assms(2)]
      sealFrame_message [OF assms(1)])

lemma packControl_eq:
  assumes "exchangeOk C eph ssk rsk" and "controlOk c"
  shows "packControl C eph c s r (packKeysFor C ssk rsk) None = Inr
    \<lparr>packedBytes = messageOfFrame C eph ssk rsk s r (controlFrame (sha256 C) c s (envelopeFields s r)),
     packedThread = threadOf (sha256 C) c s (envelopeFields s r)\<rparr>"
proof -
  have "hashLen (sha256 C)"
    using exchangeOk_parts(1) [OF assms(1)] by (simp add: hashLen_def cryptoOk_hash)
  then show ?thesis
    by (simp add: packControl_def encodeFields_eq encodeControlFrame_eq [OF _ assms(2)]
        sealFrame_message [OF assms(1)])
qed

lemma unpackV1_app:
  assumes "exchangeOk C eph ssk rsk" and ok: "appOk kind hops body s" and "vidOk r"
    and "length (appFrame kind hops body s) \<le> MAX_FRAME"
  shows "unpackV1 C (messageOfFrame C eph ssk rsk s r (appFrame kind hops body s)) (unpackKeysFor C ssk rsk) =
    Inr \<lparr>msgPayload = body, msgSender = s, msgReceiver = r, msgType = decodedKind kind hops,
         msgControl = None, msgHops = decodedHops kind hops,
         msgThread = sha256 C (appFrame kind hops body s)\<rparr>"
  using unpackV1_message [OF assms(1) _ _ assms(3,4)] decodePayloadFrame_app [OF ok] ok
  by (simp add: appOk_def)

lemma unpackV1_control:
  assumes ex: "exchangeOk C eph ssk rsk" and ok: "controlOk c" and v: "vidOk s" "s \<noteq> []" "vidOk r"
    and "length (controlFrame (sha256 C) c s (envelopeFields s r)) \<le> MAX_FRAME"
  defines "dg \<equiv> threadOf (sha256 C) c s (envelopeFields s r)"
  shows "unpackV1 C (messageOfFrame C eph ssk rsk s r (controlFrame (sha256 C) c s (envelopeFields s r)))
      (unpackKeysFor C ssk rsk) =
    Inr \<lparr>msgPayload = [], msgSender = s, msgReceiver = r, msgType = Control,
         msgControl = Some (asDecoded c dg), msgHops = [], msgThread = dg\<rparr>"
proof -
  have "hashLen (sha256 C)"
    using exchangeOk_parts(1) [OF ex] by (simp add: hashLen_def cryptoOk_hash)
  from unpackV1_message [OF ex v assms(6)] decodePayloadFrame_control [OF this ok v(1,2)]
  show ?thesis by (simp add: dg_def)
qed

subsection \<open>What a message that unpacks guarantees\<close>

lemma openBody_facts:
  assumes "openBody C w e keys = Inr m"
  obtains b sig frame d where
    "decodeVariableDataRange TSP_HPKE_BASE_CIPHERTEXT w (headerLen e) = Some ((b, contentEnd e), contentEnd e)"
    "decodeSignatureFrame w (contentEnd e) = Inr (sig, length w)"
    "verify C (slice w 0 (contentEnd e)) sig (senderSigningPk keys)"
    "openBase C (drop 32 (slice w b (contentEnd e))) (slice w (aadBegin e) (aadEnd e))
       (take 32 (slice w b (contentEnd e))) (receiverDecryptionSk keys) TSP_INFO = Inr frame"
    "decodePayloadFrame (sha256 C) frame (envSender (decEnvelope e)) (slice w (aadBegin e) (aadEnd e)) = Inr d"
    "m = \<lparr>msgPayload = frameBody d, msgSender = envSender (decEnvelope e),
      msgReceiver = envReceiver (decEnvelope e), msgType = frameKind d, msgControl = frameControl d,
      msgHops = frameHops d, msgThread = frameThread d\<rparr>"
proof -
  from assms obtain b ct pos where r:
    "decodeVariableDataRange TSP_HPKE_BASE_CIPHERTEXT w (headerLen e) = Some ((b, ct), pos)"
    by (auto simp: openBody_def Let_def split: option.splits prod.splits if_splits)
  with assms have p: "pos = contentEnd e"
    by (auto simp: openBody_def Let_def split: if_splits)
  have c: "ct = contentEnd e" using decodeRange_inside [OF r] p by simp
  show thesis
    using assms r unfolding p c
    by (auto simp: openBody_def Let_def bindE_Inr ENC_LEN_def split: prod.splits if_splits intro: that)
qed

lemma unpackV1_facts:
  assumes "unpackV1 C w keys = Inr m"
  obtains e where "decodeEnvelope w = Inr e" "openBody C w e keys = Inr m"
  using assms by (auto simp: unpackV1_def bindE_Inr split: if_splits)

end
