(* ===== verification/Tsp_Message.thy ===== *)
theory Tsp_Message
  imports Tsp_Direct
begin

text \<open>
  The version gate of \<open>packages/tsp-js/src/revision.ts\<close> and the public message layer of
  \<open>packages/tsp-js/src/message/\<close>: \<open>direct.ts\<close> (the gate in front of \<open>unpack\<close> and its error
  report), \<open>envelope.ts\<close> (the keyless envelope decode of a relay) and \<open>routed.ts\<close>.
\<close>

subsection \<open>Versions\<close>

definition SUPPORTED_MAJOR :: nat where "SUPPORTED_MAJOR = TSP_VERSION_major"

definition KNOWN_VERSIONS :: "(string \<times> string) list" where
  "KNOWN_VERSIONS =
     [(''0.1'', ''Rev 2 (YTSP-AAB)''),
      (''0.2'', ''Rev 3 (YTSP-AAC)''),
      (''0.64'', ''Rev 3 pre-merge draft (YTSP-ABA)''),
      (''1.0'', ''TSP 1.0 (YTSP-BAA)'')]"

record peekedRevision =
  peekMajor :: nat
  peekMinor :: nat
  recognised :: bool

definition isRevisionError :: "tsp_error \<Rightarrow> bool" where
  "isRevisionError err = (case err of TspRevisionError _ _ _ \<Rightarrow> True | JsError _ \<Rightarrow> False)"

definition versionKey :: "nat \<Rightarrow> nat \<Rightarrow> string" where
  "versionKey mj mn = natString mj @ ''.'' @ natString mn"

definition describeVersion :: "nat \<Rightarrow> nat \<Rightarrow> string" where
  "describeVersion mj mn =
     (case map_of KNOWN_VERSIONS (versionKey mj mn) of
        Some name \<Rightarrow> name
      | None \<Rightarrow> ''MAJOR '' @ natString mj @ '', MINOR '' @ natString mn @ '' (unrecognised)'')"

definition describeRevision :: "peekedRevision \<Rightarrow> string" where
  "describeRevision peeked = describeVersion (peekMajor peeked) (peekMinor peeked)"

definition peekRevision :: "bytes \<Rightarrow> tsp_error + peekedRevision" where
  "peekRevision bs =
     throwIf (\<not> isTsp bs)
       (TspRevisionError ''tsp: not a TSP frame (no -E count code)'' None None)
     (let pos = (if bs ! 0 = TSP_MAGIC_BYTE_LONG then 6 else 3) in
      case readVersion bs pos of
        None \<Rightarrow> Inl (TspRevisionError ''tsp: missing or malformed YTSP version marker'' None None)
      | Some ((mj, mn), _) \<Rightarrow>
          throwIf (mj \<noteq> SUPPORTED_MAJOR)
            (TspRevisionError (''tsp: message is '' @ describeVersion mj mn
               @ ''; this implementation speaks ''
               @ describeVersion TSP_VERSION_major TSP_VERSION_minor) (Some mj) (Some mn))
            (Inr \<lparr>peekMajor = mj, peekMinor = mn,
                  recognised = (map_of KNOWN_VERSIONS (versionKey mj mn) \<noteq> None)\<rparr>))"

subsection \<open>Public unpack and envelope decode\<close>

definition unpack :: "crypto \<Rightarrow> bytes \<Rightarrow> unpackKeys \<Rightarrow> tsp_error + unpackedMessage" where
  "unpack C wireBytes keys =
     bindE (peekRevision wireBytes) (\<lambda>peeked.
       case unpackV1 C wireBytes keys of
         Inr m \<Rightarrow> Inr m
       | Inl err \<Rightarrow>
           if \<not> recognised peeked then
             Inl (TspRevisionError
               (''tsp: could not parse a message declaring '' @ describeRevision peeked
                @ ''; this implementation speaks '' @ describeVersion TSP_VERSION_major TSP_VERSION_minor
                @ ''. Underlying error: '' @ messageOf err)
               (Some (peekMajor peeked)) (Some (peekMinor peeked)))
           else Inl err)"

record publicEnvelope =
  pubEnvelope :: envelope
  pubHeaderLen :: offset
  pubMinor :: nat

definition decodeEnvelopePublic :: "bytes \<Rightarrow> tsp_error + publicEnvelope" where
  "decodeEnvelopePublic data =
     bindE (peekRevision data) (\<lambda>_.
     bindE (decodeEnvelope data) (\<lambda>decoded.
       Inr \<lparr>pubEnvelope = decEnvelope decoded, pubHeaderLen = headerLen decoded,
            pubMinor = decMinor decoded\<rparr>))"

subsection \<open>Routed and nested messages\<close>

definition packRouted ::
    "crypto \<Rightarrow> bytes \<Rightarrow> bytes \<Rightarrow> jsstr list \<Rightarrow> jsstr \<Rightarrow> jsstr \<Rightarrow> packKeys \<Rightarrow> tsp_error + packedMessage" where
  "packRouted C eph inner remainingRoute senderVid firstHopVid keys =
     throwIf (length remainingRoute = 0)
       (JsError ''tsp: a routed message requires at least one onward hop'')
     (throwIf (length remainingRoute > MAX_HOPS)
       (JsError (''tsp: route has '' @ natString (length remainingRoute) @ '' hops, exceeds max ''
                 @ natString MAX_HOPS))
     (packWithHops C eph inner AppRouted remainingRoute senderVid firstHopVid keys None))"

definition packNested ::
    "crypto \<Rightarrow> bytes \<Rightarrow> bytes \<Rightarrow> jsstr \<Rightarrow> jsstr \<Rightarrow> packKeys \<Rightarrow> tsp_error + packedMessage" where
  "packNested C eph innerBytes senderVid intermediaryVid keys =
     packWithHops C eph innerBytes AppNested [] senderVid intermediaryVid keys None"

datatype routeStep =
    Forward jsstr "jsstr list" bytes
  | Deliver bytes

fun nextHop :: "jsstr list \<Rightarrow> bytes \<Rightarrow> routeStep" where
  "nextHop [] inner = Deliver inner"
| "nextHop (next_hop # remaining) inner = Forward next_hop remaining inner"

subsection \<open>Which versions pass\<close>

text \<open>At the supported MAJOR the only recognised MINOR is 0; every other one is carried.\<close>

lemma natString_zero: "natString n = ''0'' \<longleftrightarrow> n = 0"
proof
  assume e: "natString n = ''0''"
  show "n = 0"
  proof (cases "n < 10")
    case True
    with e have "(char_of (48 + n) :: char) = CHR ''0''" by (simp add: natString_digit)
    then have "of_char (char_of (48 + n) :: char) = (48 :: nat)" by simp
    moreover have "(48 + n) mod 256 = 48 + n" using True by simp
    ultimately show ?thesis by simp
  next
    case False
    then have "2 \<le> length (natString n)" by (intro natString_long) simp
    with e show ?thesis by simp
  qed
next
  assume "n = 0"
  then show "natString n = ''0''" by (simp add: natString_digit char_of_def bit_Suc_0_iff)
qed

lemma natString_one: "natString 1 = ''1''" "natString (Suc 0) = ''1''"
  by (simp_all add: natString_digit char_of_def bit_Suc_0_iff)

lemma known_major_one:
  "map_of KNOWN_VERSIONS (versionKey 1 mn) \<noteq> None \<longleftrightarrow> mn = 0"
  using natString_zero [of mn]
  by (auto simp: KNOWN_VERSIONS_def versionKey_def natString_one)

lemma peekRevision_facts:
  assumes "peekRevision bs = Inr p"
  shows "isTsp bs" and "peekMajor p = 1" and "recognised p \<longleftrightarrow> peekMinor p = 0"
  using assms known_major_one
  by (auto simp: peekRevision_def Let_def SUPPORTED_MAJOR_def TSP_VERSION_major_def
      split: option.splits if_splits)

lemma peekRevision_error: "peekRevision bs = Inl e \<Longrightarrow> isRevisionError e"
  by (auto simp: peekRevision_def Let_def isRevisionError_def split: option.splits if_splits prod.splits)

text \<open>An exception of the public \<open>unpack\<close> on a frame of an unknown MINOR names the versions.\<close>

lemma unpack_unrecognised:
  assumes "peekRevision w = Inr p" and "peekMinor p \<noteq> 0" and "unpack C w keys = Inl e"
  shows "isRevisionError e"
  using assms peekRevision_facts(3) [OF assms(1)]
  by (auto simp: unpack_def isRevisionError_def split: sum.splits if_splits)

lemma unpack_V1: "unpack C w keys = Inr m \<Longrightarrow> unpackV1 C w keys = Inr m \<and> returns (peekRevision w)"
  by (cases "unpackV1 C w keys") (auto simp: unpack_def bindE_Inr returns_iff split: if_splits)

subsection \<open>A packed message passes the gate\<close>

lemma peekRevision_frame:
  assumes "n < 2 ^ 30" and bs: "bs = encodeCount TSP_ETS_WRAPPER n @ encodeVersion @ rest"
  shows "isTsp bs"
    and "peekRevision bs = Inr \<lparr>peekMajor = 1, peekMinor = 0, recognised = True\<rparr>"
proof -
  let ?c = "encodeCount TSP_ETS_WRAPPER n"
  have c0: "?c ! 0 = (if n < 4096 then TSP_MAGIC_BYTE else TSP_MAGIC_BYTE_LONG)"
    by (rule encodeCount_E_first [OF assms(1)])
  have ne: "0 < length ?c" by (simp add: length_encodeCount)
  have b0: "bs ! 0 = ?c ! 0" using ne by (simp add: bs nth_append)
  obtain x ys where "?c = x # ys" using ne by (cases ?c) auto
  then obtain xs where x: "bs = x # xs" by (simp add: bs)
  then have fx: "x = ?c ! 0" using b0 by simp
  show t: "isTsp bs" using x fx c0 by (simp add: isTsp_def)
  have pos: "(if bs ! 0 = TSP_MAGIC_BYTE_LONG then 6 else 3) = length ?c"
    using c0 b0 by (simp add: length_encodeCount TSP_MAGIC_BYTE_def TSP_MAGIC_BYTE_LONG_def)
  have "drop (length ?c) bs = encodeVersion @ rest" by (simp add: bs)
  note rv = readVersion_encodeVersion [OF this]
  have k: "map_of KNOWN_VERSIONS (versionKey 1 0) \<noteq> None" using known_major_one [of 0] by simp
  show "peekRevision bs = Inr \<lparr>peekMajor = 1, peekMinor = 0, recognised = True\<rparr>"
    unfolding peekRevision_def Let_def pos rv
    using t k by (simp add: SUPPORTED_MAJOR_def TSP_VERSION_major_def TSP_VERSION_minor_def)
qed

lemma sealedMessage_gate:
  assumes "vidOk s" "vidOk r" and len: "length (sealEnc res @ sealCiphertext res) \<le> 3 * (2 ^ 24 - 1)"
  shows "isTsp (sealedMessage C ssk (envelopeFields s r) res)"
    and "peekRevision (sealedMessage C ssk (envelopeFields s r) res) =
      Inr \<lparr>peekMajor = 1, peekMinor = 0, recognised = True\<rparr>"
proof -
  let ?field = "encodeVariableData TSP_HPKE_BASE_CIPHERTEXT (sealEnc res @ sealCiphertext res)"
  let ?n = "(length (envelopeFields s r) + length ?field) div 3"
  have "length ?field < 2 ^ 30"
    using len nextMul3_lt [of "length (sealEnc res @ sealCiphertext res)"]
    by (simp add: length_encodeVariableData)
  then have n: "?n < 2 ^ 30" using envelopeFields_length [OF assms(1,2)] by simp
  have e: "sealedMessage C ssk (envelopeFields s r) res = encodeCount TSP_ETS_WRAPPER ?n @ encodeVersion @
      (bareVidBytes s @ bareVidBytes r @ ?field @ attachmentBytes
        (sign C (encodeCount TSP_ETS_WRAPPER ?n @ envelopeFields s r @ ?field) ssk))"
    by (simp add: sealedMessage_def Let_def envelopeFields_def)
  show "isTsp (sealedMessage C ssk (envelopeFields s r) res)"
    and "peekRevision (sealedMessage C ssk (envelopeFields s r) res) =
      Inr \<lparr>peekMajor = 1, peekMinor = 0, recognised = True\<rparr>"
    using peekRevision_frame [OF n e] by simp_all
qed

lemma messageOfFrame_gate:
  assumes ex: "exchangeOk C eph ssk rsk" and v: "vidOk s" "vidOk r" and small: "length frame \<le> MAX_FRAME"
  shows "isTsp (messageOfFrame C eph ssk rsk s r frame)"
    and "peekRevision (messageOfFrame C eph ssk rsk s r frame) =
      Inr \<lparr>peekMajor = 1, peekMinor = 0, recognised = True\<rparr>"
proof -
  obtain res where r: "sealBase C eph frame (envelopeFields s r) (getPublicKey C rsk) TSP_INFO = Inr res"
    using sealBase_returns [OF ex] by blast
  have "length (sealEnc res @ sealCiphertext res) = length frame + 48"
    using base.open_split(2) [of "(C, rsk)" eph frame "envelopeFields s r" TSP_INFO res] r
      exchangeOk_parts [OF ex] by simp
  then have "length (sealEnc res @ sealCiphertext res) \<le> 3 * (2 ^ 24 - 1)"
    using small by (simp add: MAX_FRAME_def)
  from sealedMessage_gate [OF v this]
  show "isTsp (messageOfFrame C eph ssk rsk s r frame)"
    and "peekRevision (messageOfFrame C eph ssk rsk s r frame) =
      Inr \<lparr>peekMajor = 1, peekMinor = 0, recognised = True\<rparr>"
    by (simp_all add: messageOfFrame_def r)
qed

text \<open>So the public \<open>unpack\<close> of a packed message is the one of the codec.\<close>

lemma unpack_message:
  assumes "exchangeOk C eph ssk rsk" "vidOk s" "vidOk r" "length frame \<le> MAX_FRAME"
    and "unpackV1 C (messageOfFrame C eph ssk rsk s r frame) keys = Inr m"
  shows "unpack C (messageOfFrame C eph ssk rsk s r frame) keys = Inr m"
  using messageOfFrame_gate(2) [OF assms(1-4)] assms(5) by (simp add: unpack_def)

subsection \<open>Round trips of the public interface\<close>

text \<open>A VID of at most a mebibyte: with it a frame always fits its ciphertext field.\<close>

definition vidShort :: "jsstr \<Rightarrow> bool" where
  "vidShort v \<longleftrightarrow> plainText v \<and> v \<noteq> [] \<and> length (textEncode v) \<le> 2 ^ 20"

lemma vidShort_ok: "vidShort v \<Longrightarrow> vidOk v \<and> v \<noteq> []"
  by (simp add: vidShort_def vidOk_def)

lemma vidShort_length: "vidShort v \<Longrightarrow> length (bareVidBytes v) \<le> 2 ^ 20 + 8"
  using nextMul3_lt [of "length (textEncode v)"]
  by (simp add: vidShort_def bareVidBytes_def length_encodeVariableData)

lemma app_roundtrip:
  assumes "exchangeOk C eph ssk rsk" and ok: "appOk kind hops body s" and "vidOk r"
    and "length (appFrame kind hops body s) \<le> MAX_FRAME"
  shows "\<exists>p. packWithHops C eph body kind hops s r (packKeysFor C ssk rsk) None = Inr p \<and>
    packedThread p = sha256 C (appFrame kind hops body s) \<and>
    unpack C (packedBytes p) (unpackKeysFor C ssk rsk) = Inr
      \<lparr>msgPayload = body, msgSender = s, msgReceiver = r, msgType = decodedKind kind hops,
       msgControl = None, msgHops = decodedHops kind hops, msgThread = packedThread p\<rparr>"
proof -
  have "vidOk s" using ok by (simp add: appOk_def)
  with assms show ?thesis
    using unpackV1_app [OF assms] appOk_aligned [OF ok] by (simp add: packWithHops_eq unpack_message)
qed

lemma control_roundtrip:
  assumes "exchangeOk C eph ssk rsk" "controlOk c" "vidOk s" "s \<noteq> []" "vidOk r"
    and "length (controlFrame (sha256 C) c s (envelopeFields s r)) \<le> MAX_FRAME"
  shows "\<exists>p. packControl C eph c s r (packKeysFor C ssk rsk) None = Inr p \<and>
    unpack C (packedBytes p) (unpackKeysFor C ssk rsk) = Inr
      \<lparr>msgPayload = [], msgSender = s, msgReceiver = r, msgType = Control,
       msgControl = Some (asDecoded c (packedThread p)), msgHops = [], msgThread = packedThread p\<rparr>"
  using assms unpackV1_control [OF assms]
  by (simp add: packControl_eq unpack_message)

lemma plainControl_small:
  assumes "cryptoOk C" "controlOk c" "vidShort s" and "replyRoute c = []" "inviteReferral c = None"
  shows "length (controlFrame (sha256 C) c s env) \<le> MAX_FRAME"
proof -
  have h: "hashLen (sha256 C)" using assms(1) by (simp add: hashLen_def cryptoOk_hash)
  have "length (controlFields (sha256 C) c s env) \<le> 200"
  proof (cases "controlType c")
    case Invite
    with assms(2) obtain n where "inviteNonce c = Some n" "length n = 16"
      by (auto simp: controlOk_def split: option.splits)
    with Invite assms(4,5) show ?thesis
      using threadOf_length [OF h assms(2), of s env]
      by (simp add: controlFields_def length_encodeFixedData nextMul3_def encodeVidList_eq
          encodeReferral_eq length_encodeCount)
  next
    case Accept
    with assms(2) obtain d where "inReplyTo c = Some d" "length d = 32"
      by (auto simp: controlOk_def split: option.splits)
    with Accept show ?thesis
      using threadOf_length [OF h assms(2), of s env]
      by (simp add: controlFields_def length_encodeFixedData nextMul3_def)
  next
    case Cancel
    with assms(2) obtain d where "inReplyTo c = Some d" "length d = 32"
      by (auto simp: controlOk_def split: option.splits)
    with Cancel show ?thesis
      by (simp add: controlFields_def length_encodeFixedData nextMul3_def)
  qed
  then show ?thesis
    using vidShort_length [OF assms(3)]
    by (simp add: controlFrame_def frameBytes_def length_encodeCount MAX_FRAME_def)
qed

lemma invite_roundtrip:
  assumes ex: "exchangeOk C eph ssk rsk" and v: "vidShort s" "vidOk r" and n: "length nonce = 16"
  obtains p where "packInvite C eph nonce s r (packKeysFor C ssk rsk) None None None = Inr p"
    and "unpack C (packedBytes p) (unpackKeysFor C ssk rsk) = Inr
      \<lparr>msgPayload = [], msgSender = s, msgReceiver = r, msgType = Control,
       msgControl = Some \<lparr>controlType = Invite, ownDigest = Some (packedThread p), inReplyTo = None,
         inviteNonce = Some nonce, replyRoute = [], inviteReferral = None\<rparr>,
       msgHops = [], msgThread = packedThread p\<rparr>"
    and "length (packedThread p) = 32"
proof -
  let ?c = "\<lparr>controlType = Invite, ownDigest = None, inReplyTo = None, inviteNonce = Some nonce,
    replyRoute = [], inviteReferral = None\<rparr>"
  have ok: "controlOk ?c" using n by (simp add: controlOk_def)
  note C = exchangeOk_parts(1) [OF ex]
  have h: "hashLen (sha256 C)" using C by (simp add: hashLen_def cryptoOk_hash)
  from control_roundtrip [OF ex ok _ _ v(2) plainControl_small [OF C ok v(1)]] vidShort_ok [OF v(1)]
    packControl_eq [OF ex ok, of s r] threadOf_length [OF h ok]
  show thesis by (intro that) (auto simp: packInvite_def asDecoded_def)
qed

lemma accept_roundtrip:
  assumes ex: "exchangeOk C eph ssk rsk" and v: "vidShort s" "vidOk r" and d: "length d = 32"
  obtains p where "packAccept C eph d s r (packKeysFor C ssk rsk) None = Inr p"
    and "unpack C (packedBytes p) (unpackKeysFor C ssk rsk) = Inr
      \<lparr>msgPayload = [], msgSender = s, msgReceiver = r, msgType = Control,
       msgControl = Some \<lparr>controlType = Accept, ownDigest = Some (packedThread p), inReplyTo = Some d,
         inviteNonce = None, replyRoute = [], inviteReferral = None\<rparr>,
       msgHops = [], msgThread = packedThread p\<rparr>"
    and "length (packedThread p) = 32"
proof -
  let ?c = "\<lparr>controlType = Accept, ownDigest = None, inReplyTo = Some d, inviteNonce = None,
    replyRoute = [], inviteReferral = None\<rparr>"
  have ok: "controlOk ?c" using d by (simp add: controlOk_def)
  note C = exchangeOk_parts(1) [OF ex]
  have h: "hashLen (sha256 C)" using C by (simp add: hashLen_def cryptoOk_hash)
  from control_roundtrip [OF ex ok _ _ v(2) plainControl_small [OF C ok v(1)]] vidShort_ok [OF v(1)]
    packControl_eq [OF ex ok, of s r] threadOf_length [OF h ok]
  show thesis by (intro that) (auto simp: packAccept_def asDecoded_def)
qed

subsection \<open>Sample keys and identifiers\<close>

definition sampleA :: jsstr where "sampleA = js ''did:a''"
definition sampleB :: jsstr where "sampleB = js ''did:b''"

lemma sampleVids: "vidShort sampleA" "vidShort sampleB" "vidOk sampleA" "vidOk sampleB"
proof -
  have short: "vidShort (js cs)" if "list_all (\<lambda>c. of_char c < (128::nat)) cs" "cs \<noteq> []" "length cs < 100" for cs
    using that textEncode_ascii [OF that(1)] plainText_ascii [OF that(1)]
    by (simp add: vidShort_def js_def)
  show "vidShort sampleA" "vidShort sampleB"
    unfolding sampleA_def sampleB_def by (rule short; simp add: of_char_def)+
  then show "vidOk sampleA" "vidOk sampleB" using vidShort_ok by simp_all
qed

lemma sample_exchange:
  "length e = 32 \<Longrightarrow> length s = 32 \<Longrightarrow> length r = 32 \<Longrightarrow> exchangeOk sampleCrypto e s r"
proof -
  assume l: "length e = 32" "length s = 32" "length r = 32"
  have or1: "(w :: byte) OR 1 \<noteq> 0" for w using byte_or_zero [of w 1] by simp
  have "(0 :: nat) \<in> set [0..<32]" by simp
  then have "returns (dh sampleCrypto e (getPublicKey sampleCrypto r))"
    using or1 by (auto simp: dh_def sampleCrypto_def list_all_iff simp del: set_upt intro!: bexI [of _ 0])
  with l sampleCrypto_ok show ?thesis by (simp add: exchangeOk_def)
qed

lemma sampleApp:
  "appOk AppDirect [] [1, 2, 3] sampleA" "length (appFrame AppDirect [] [1, 2, 3] sampleA) \<le> MAX_FRAME"
  using sampleVids vidShort_ok [of sampleA] vidShort_length [of sampleA]
  by (simp_all add: appOk_def varOk_def consts_def appFrame_def frameBytes_def directFields_def
      length_encodeVariableData length_encodeCount nextMul3_def MAX_FRAME_def)

definition sampleInvite :: controlMessage where
  "sampleInvite = \<lparr>controlType = Invite, ownDigest = None, inReplyTo = None,
     inviteNonce = Some (replicate 16 9), replyRoute = [], inviteReferral = None\<rparr>"

lemma sampleInvite_ok:
  "controlOk sampleInvite"
  "length (controlFrame (sha256 sampleCrypto) sampleInvite sampleA env) \<le> MAX_FRAME"
proof -
  show ok: "controlOk sampleInvite" by (simp add: sampleInvite_def controlOk_def)
  show "length (controlFrame (sha256 sampleCrypto) sampleInvite sampleA env) \<le> MAX_FRAME"
    using plainControl_small [OF sampleCrypto_ok ok sampleVids(1)] by (simp add: sampleInvite_def)
qed

subsection \<open>Facts of a message that unpacks\<close>

lemma unpack_facts:
  assumes "unpack C w keys = Inr m"
  obtains e sig b frame d where "decodeEnvelope w = Inr e" "msgSender m = envSender (decEnvelope e)"
    "msgReceiver m = envReceiver (decEnvelope e)" "msgSender m \<noteq> []"
    "decodeSignatureFrame w (contentEnd e) = Inr (sig, length w)"
    "verify C (slice w 0 (contentEnd e)) sig (senderSigningPk keys)"
    "decodeVariableDataRange TSP_HPKE_BASE_CIPHERTEXT w (headerLen e) = Some ((b, contentEnd e), contentEnd e)"
    "openBase C (drop 32 (slice w b (contentEnd e))) (slice w (aadBegin e) (aadEnd e))
       (take 32 (slice w b (contentEnd e))) (receiverDecryptionSk keys) TSP_INFO = Inr frame"
    "decodePayloadFrame (sha256 C) frame (msgSender m) (slice w (aadBegin e) (aadEnd e)) = Inr d"
    "msgPayload m = frameBody d" "msgType m = frameKind d" "msgControl m = frameControl d"
    "msgHops m = frameHops d" "msgThread m = frameThread d" "frameSender d = msgSender m"
proof -
  have "unpackV1 C w keys = Inr m" using unpack_V1 [OF assms] by simp
  then obtain e where e: "decodeEnvelope w = Inr e" "openBody C w e keys = Inr m"
    by (rule unpackV1_facts)
  from e(2) obtain b sig frame d where o:
    "decodeVariableDataRange TSP_HPKE_BASE_CIPHERTEXT w (headerLen e) = Some ((b, contentEnd e), contentEnd e)"
    "decodeSignatureFrame w (contentEnd e) = Inr (sig, length w)"
    "verify C (slice w 0 (contentEnd e)) sig (senderSigningPk keys)"
    "openBase C (drop 32 (slice w b (contentEnd e))) (slice w (aadBegin e) (aadEnd e))
       (take 32 (slice w b (contentEnd e))) (receiverDecryptionSk keys) TSP_INFO = Inr frame"
    "decodePayloadFrame (sha256 C) frame (envSender (decEnvelope e)) (slice w (aadBegin e) (aadEnd e)) = Inr d"
    "m = \<lparr>msgPayload = frameBody d, msgSender = envSender (decEnvelope e),
      msgReceiver = envReceiver (decEnvelope e), msgType = frameKind d, msgControl = frameControl d,
      msgHops = frameHops d, msgThread = frameThread d\<rparr>"
    by (rule openBody_facts)
  have sn: "frameSender d = envSender (decEnvelope e)" "envSender (decEnvelope e) \<noteq> []"
    using decodePayloadFrame_sender [OF o(5)] by simp_all
  show thesis
    by (rule that [of e sig b frame d]) (use e(1) o(1-5) sn in \<open>simp_all add: o(6)\<close>)
qed

text \<open>The hop list of a message never exceeds the bound of a routed pack.\<close>

lemma decodeLayout_hops_bound: "decodeLayout sha f fe pos tc sf v env = Inr d \<Longrightarrow> length (frameHops d) \<le> MAX_HOPS"
  by (auto simp: decodeLayout_def Let_def bindE_Inr split: if_splits prod.splits option.splits
      dest!: decodeVidList_inside)

lemma decodePayloadFrame_hops_bound:
  "decodePayloadFrame sha f v env = Inr d \<Longrightarrow> length (frameHops d) \<le> MAX_HOPS"
  by (auto simp: decodePayloadFrame_def Let_def bindE_Inr split: prod.splits if_splits
      dest!: decodeLayout_hops_bound)

end
