(* ===== verification/Tsp_Route.thy ===== *)
theory Tsp_Route
  imports Tsp_Message
begin

text \<open>
  A message carried through an intermediary, with the functions of \<open>packages/tsp-js/src/message/\<close>:
  the wallet seals a message to its recipient, seals that one to the intermediary under a route,
  the intermediary opens the outer layer and reads off the next hop, and the recipient opens what
  it forwards. The lemmas bound the sizes on the way, and say what a relay without keys reads.
\<close>

subsection \<open>Sizes\<close>

lemma frameBytes_length: "length (frameBytes b) \<le> length b + 6"
  by (simp add: frameBytes_def length_encodeCount)

lemma vids_length: "list_all vidShort vs \<Longrightarrow> length (concat (map bareVidBytes vs)) \<le> (2 ^ 20 + 8) * length vs"
proof (induction vs)
  case (Cons v vs)
  then have "length (bareVidBytes v) \<le> 2 ^ 20 + 8" by (intro vidShort_length) simp
  moreover from Cons have "length (concat (map bareVidBytes vs)) \<le> (2 ^ 20 + 8) * length vs" by simp
  ultimately show ?case by simp
qed simp

lemma sealed_length:
  assumes ex: "exchangeOk C eph ssk rsk" and v: "vidShort s" "vidShort r"
  shows "length (messageOfFrame C eph ssk rsk s r frame) \<le> length frame + 2 ^ 22"
    and "3 dvd length (messageOfFrame C eph ssk rsk s r frame)"
proof -
  obtain res where r: "sealBase C eph frame (envelopeFields s r) (getPublicKey C rsk) TSP_INFO = Inr res"
    using sealBase_returns [OF ex] by blast
  let ?ct = "sealEnc res @ sealCiphertext res"
  let ?field = "encodeVariableData TSP_HPKE_BASE_CIPHERTEXT ?ct"
  let ?w = "encodeCount TSP_ETS_WRAPPER ((length (envelopeFields s r) + length ?field) div 3)
    @ envelopeFields s r @ ?field"
  have len: "length ?ct = length frame + 48"
    using base.open_split(2) [of "(C, rsk)" eph frame "envelopeFields s r" TSP_INFO res] r
      exchangeOk_parts [OF ex] by simp
  have sig: "length (sign C ?w ssk) = 64"
    using cryptoOk_sign(1) [OF exchangeOk_parts(1,3) [OF ex]] .
  have m: "messageOfFrame C eph ssk rsk s r frame = ?w @ attachmentBytes (sign C ?w ssk)"
    by (simp add: messageOfFrame_def r sealedMessage_def Let_def)
  show "length (messageOfFrame C eph ssk rsk s r frame) \<le> length frame + 2 ^ 22"
    using len vidShort_length [OF v(1)] vidShort_length [OF v(2)] nextMul3_lt [of "length ?ct"]
      length_attachmentBytes [OF sig]
    unfolding m by (simp add: envelopeFields_def length_encodeCount length_encodeVariableData)
  have "3 dvd length ?w"
    using envelopeFields_aligned [of s r] encodeCount_aligned encodeVariableData_aligned
    by (simp add: dvd_add)
  moreover have "3 dvd length (attachmentBytes (sign C ?w ssk))"
    using length_attachmentBytes [OF sig] by simp
  ultimately show "3 dvd length (messageOfFrame C eph ssk rsk s r frame)"
    unfolding m length_append by (rule dvd_add)
qed

lemma direct_ok:
  assumes "vidShort s" and "length body \<le> 2 ^ 20"
  shows "appOk AppDirect [] body s" and "length (appFrame AppDirect [] body s) \<le> 2 ^ 22"
    and "length (appFrame AppDirect [] body s) \<le> MAX_FRAME"
proof -
  show "appOk AppDirect [] body s"
    using assms vidShort_ok [OF assms(1)] by (simp add: appOk_def varOk_def consts_def)
  show l: "length (appFrame AppDirect [] body s) \<le> 2 ^ 22"
  proof -
    let ?b = "appMarker AppDirect @ bareVidBytes s @ appFields AppDirect [] body"
    have "length ?b \<le> 2 ^ 21 + 100"
      using assms(2) vidShort_length [OF assms(1)] nextMul3_lt [of "length body"]
      by (simp add: directFields_def length_encodeCount length_encodeVariableData)
    moreover have "(2::nat) ^ 21 + 100 + 6 \<le> 2 ^ 22" by simp
    ultimately show ?thesis using frameBytes_length [of ?b] unfolding appFrame_def by linarith
  qed
  then show "length (appFrame AppDirect [] body s) \<le> MAX_FRAME" by (simp add: MAX_FRAME_def)
qed

lemma routed_ok:
  assumes "vidShort s" and "list_all vidShort route" and "length route \<le> 16"
    and "3 dvd length inner" and "length inner \<le> 2 ^ 24"
  shows "appOk AppRouted route inner s" and "length (appFrame AppRouted route inner s) \<le> MAX_FRAME"
proof -
  have c: "length (concat (map bareVidBytes route)) \<le> (2 ^ 20 + 8) * 16"
    using vids_length [OF assms(2)] assms(3)
    by (meson le_trans mult_le_mono2)
  have "list_all (\<lambda>v. vidOk v \<and> v \<noteq> []) route" using assms(2) vidShort_ok by (auto simp: list_all_iff)
  with c show ok: "appOk AppRouted route inner s"
    using assms vidShort_ok [OF assms(1)]
    by (auto simp: appOk_def vidListOk_def MAX_FIELD_SIZE_eq MAX_HOPS_def list_all_iff)
  show "length (appFrame AppRouted route inner s) \<le> MAX_FRAME"
  proof -
    let ?b = "appMarker AppRouted @ bareVidBytes s @ appFields AppRouted route inner"
    have "length ?b \<le> 2 ^ 25 + 2 ^ 22"
      using c assms(5) vidShort_length [OF assms(1)]
      by (simp add: hopFields_def encodeVidList_eq length_encodeCount)
    moreover have "(2::nat) ^ 25 + 2 ^ 22 + 6 \<le> MAX_FRAME" by (simp add: MAX_FRAME_def)
    ultimately show ?thesis using frameBytes_length [of ?b] unfolding appFrame_def by linarith
  qed
qed

subsection \<open>Through an intermediary\<close>

lemma routed_roundtrip:
  assumes ex: "exchangeOk C eph ssk rsk" and v: "vidShort s" "vidShort r"
    and route: "list_all vidShort route" "route \<noteq> []" "length route \<le> 16"
    and inner: "3 dvd length inner" "length inner \<le> 2 ^ 24"
  obtains p where "packRouted C eph inner route s r (packKeysFor C ssk rsk) = Inr p"
    and "unpack C (packedBytes p) (unpackKeysFor C ssk rsk) = Inr
      \<lparr>msgPayload = inner, msgSender = s, msgReceiver = r, msgType = Routed,
       msgControl = None, msgHops = route, msgThread = packedThread p\<rparr>"
proof -
  note ok = routed_ok [OF v(1) route(1,3) inner]
  have "vidOk r" using vidShort_ok [OF v(2)] by simp
  from app_roundtrip [OF ex ok(1) this ok(2)] obtain p where
    p: "packWithHops C eph inner AppRouted route s r (packKeysFor C ssk rsk) None = Inr p"
      "unpack C (packedBytes p) (unpackKeysFor C ssk rsk) = Inr
      \<lparr>msgPayload = inner, msgSender = s, msgReceiver = r, msgType = decodedKind AppRouted route,
       msgControl = None, msgHops = decodedHops AppRouted route, msgThread = packedThread p\<rparr>"
    by blast
  show thesis
    by (rule that [of p]) (use p route in \<open>simp_all add: packRouted_def MAX_HOPS_def\<close>)
qed

lemma direct_roundtrip:
  assumes ex: "exchangeOk C eph ssk rsk" and v: "vidShort s" "vidShort r" and body: "length body \<le> 2 ^ 20"
  obtains p where "pack C eph body s r (packKeysFor C ssk rsk) None = Inr p"
    and "unpack C (packedBytes p) (unpackKeysFor C ssk rsk) = Inr
      \<lparr>msgPayload = body, msgSender = s, msgReceiver = r, msgType = Direct,
       msgControl = None, msgHops = [], msgThread = packedThread p\<rparr>"
    and "3 dvd length (packedBytes p)" and "length (packedBytes p) \<le> 2 ^ 23"
proof -
  note ok = direct_ok [OF v(1) body]
  have r: "vidOk r" using vidShort_ok [OF v(2)] by simp
  note e = packWithHops_eq [OF ex, of AppDirect body "[]" s r]
  show thesis
    by (rule that, simp add: pack_def e)
      (use app_roundtrip [OF ex ok(1) r ok(3)] e sealed_length [OF ex v, of "appFrame AppDirect [] body s"] ok(2)
        in simp_all)
qed

lemma delivery:
  assumes ex: "exchangeOk C eph1 ssk vsk" and ex2: "exchangeOk C eph2 ssk msk"
    and v: "vidShort w" "vidShort m" "vidShort vta" and body: "length body \<le> 2 ^ 20"
  obtains inner outer atMediator where "pack C eph1 body w vta (packKeysFor C ssk vsk) None = Inr inner"
    and "packRouted C eph2 (packedBytes inner) [vta] w m (packKeysFor C ssk msk) = Inr outer"
    and "unpack C (packedBytes outer) (unpackKeysFor C ssk msk) = Inr atMediator"
    and "nextHop (msgHops atMediator) (msgPayload atMediator) = Forward vta [] (packedBytes inner)"
    and "unpack C (packedBytes inner) (unpackKeysFor C ssk vsk) = Inr
      \<lparr>msgPayload = body, msgSender = w, msgReceiver = vta, msgType = Direct,
       msgControl = None, msgHops = [], msgThread = packedThread inner\<rparr>"
proof -
  obtain inner where i: "pack C eph1 body w vta (packKeysFor C ssk vsk) None = Inr inner"
    "unpack C (packedBytes inner) (unpackKeysFor C ssk vsk) = Inr
      \<lparr>msgPayload = body, msgSender = w, msgReceiver = vta, msgType = Direct,
       msgControl = None, msgHops = [], msgThread = packedThread inner\<rparr>"
    "3 dvd length (packedBytes inner)" "length (packedBytes inner) \<le> 2 ^ 23"
    by (rule direct_roundtrip [OF ex v(1,3) body])
  have "length (packedBytes inner) \<le> 2 ^ 24" using i(4) by simp
  then obtain outer where o: "packRouted C eph2 (packedBytes inner) [vta] w m (packKeysFor C ssk msk) = Inr outer"
    "unpack C (packedBytes outer) (unpackKeysFor C ssk msk) = Inr
      \<lparr>msgPayload = packedBytes inner, msgSender = w, msgReceiver = m, msgType = Routed,
       msgControl = None, msgHops = [vta], msgThread = packedThread outer\<rparr>"
    using routed_roundtrip [OF ex2 v(1,2), of "[vta]" "packedBytes inner"] v(3) i(3) by auto
  show thesis by (rule that [OF i(1) o _ i(2)]) simp
qed

subsection \<open>What a relay without keys reads\<close>

lemma envelope_of_message:
  assumes ex: "exchangeOk C eph ssk rsk" and v: "vidOk s" "s \<noteq> []" "vidOk r"
    and small: "length frame \<le> MAX_FRAME"
  shows "\<exists>h. decodeEnvelopePublic (messageOfFrame C eph ssk rsk s r frame) =
    Inr \<lparr>pubEnvelope = \<lparr>envSender = s, envReceiver = r\<rparr>, pubHeaderLen = h, pubMinor = 0\<rparr>"
proof -
  obtain res where r: "sealBase C eph frame (envelopeFields s r) (getPublicKey C rsk) TSP_INFO = Inr res"
    using sealBase_returns [OF ex] by blast
  let ?ct = "sealEnc res @ sealCiphertext res"
  let ?field = "encodeVariableData TSP_HPKE_BASE_CIPHERTEXT ?ct"
  have len: "length ?ct = length frame + 48"
    using base.open_split(2) [of "(C, rsk)" eph frame "envelopeFields s r" TSP_INFO res] r
      exchangeOk_parts [OF ex] by simp
  have "length ?field < 2 ^ 30"
    using small len nextMul3_lt [of "length ?ct"] by (simp add: length_encodeVariableData MAX_FRAME_def)
  from decodeEnvelope_encoded(1) [OF v encodeVariableData_aligned this]
  show ?thesis
    using messageOfFrame_gate(2) [OF ex v(1,3) small]
    by (simp add: decodeEnvelopePublic_def messageOfFrame_def r sealedMessage_def Let_def TSP_VERSION_minor_def)
qed

subsection \<open>More hops than the decoder takes\<close>

lemma too_many_hops:
  assumes ex: "exchangeOk C eph ssk rsk" and v: "vidOk s" "s \<noteq> []" "vidOk r"
    and hops: "list_all vidOk hops" "MAX_HOPS < length hops" and al: "3 dvd length body"
    and small: "length (appFrame AppRouted hops body s) \<le> MAX_FRAME"
  obtains p where "packWithHops C eph body AppRouted hops s r (packKeysFor C ssk rsk) None = Inr p"
    and "unpack C (packedBytes p) (unpackKeysFor C ssk rsk) = Inl (JsError ''tsp: too many hops'')"
proof -
  let ?f = "appFrame AppRouted hops body s"
  have "length ?f \<le> MAX_FIELD_SIZE" using small by (simp add: MAX_FRAME_def MAX_FIELD_SIZE_eq)
  from decodePayloadFrame_too_many [OF v(1,2) hops al this]
  have "unpackV1 C (messageOfFrame C eph ssk rsk s r ?f) (unpackKeysFor C ssk rsk) =
      Inl (JsError ''tsp: too many hops'')"
    by (simp add: unpackV1_message [OF ex v small])
  then have "unpack C (messageOfFrame C eph ssk rsk s r ?f) (unpackKeysFor C ssk rsk) =
      Inl (JsError ''tsp: too many hops'')"
    using messageOfFrame_gate(2) [OF ex v(1,3) small] by (simp add: unpack_def)
  with al show thesis
    by (intro that [OF packWithHops_eq [OF ex]]) simp_all
qed

subsection \<open>A sample exchange\<close>

definition sampleKey :: "byte \<Rightarrow> bytes" where "sampleKey b = replicate 32 b"

lemma sampleKey_exchange: "exchangeOk sampleCrypto (sampleKey a) (sampleKey b) (sampleKey c)"
  by (rule sample_exchange) (simp_all add: sampleKey_def)

definition sampleUnpackKeys :: unpackKeys where
  "sampleUnpackKeys = unpackKeysFor sampleCrypto (sampleKey 2) (sampleKey 3)"

text \<open>A message from one sample party to the other, and an invite.\<close>

definition sampleWire :: bytes where
  "sampleWire = packedBytes (projr (packWithHops sampleCrypto (sampleKey 1) [1, 2, 3] AppDirect []
     sampleA sampleB (packKeysFor sampleCrypto (sampleKey 2) (sampleKey 3)) None))"

definition sampleInviteWire :: bytes where
  "sampleInviteWire = packedBytes (projr (packControl sampleCrypto (sampleKey 1) sampleInvite
     sampleA sampleB (packKeysFor sampleCrypto (sampleKey 2) (sampleKey 3)) None))"

definition sampleAccept :: controlMessage where
  "sampleAccept = \<lparr>controlType = Accept, ownDigest = None, inReplyTo = Some (replicate 32 8),
     inviteNonce = None, replyRoute = [], inviteReferral = None\<rparr>"

definition sampleAcceptWire :: bytes where
  "sampleAcceptWire = packedBytes (projr (packControl sampleCrypto (sampleKey 1) sampleAccept
     sampleA sampleB (packKeysFor sampleCrypto (sampleKey 2) (sampleKey 3)) None))"

lemma sampleWire_unpacks: "\<exists>m. unpack sampleCrypto sampleWire sampleUnpackKeys = Inr m \<and> msgPayload m = [1, 2, 3]"
  using app_roundtrip [OF sampleKey_exchange sampleApp(1) sampleVids(4) sampleApp(2), of 1 2 3]
  by (auto simp: sampleWire_def sampleUnpackKeys_def)

lemma sampleA_ne: "sampleA \<noteq> []"
  using vidShort_ok [OF sampleVids(1)] by simp

lemma sampleInviteWire_unpacks:
  "\<exists>m c. unpack sampleCrypto sampleInviteWire sampleUnpackKeys = Inr m \<and> msgControl m = Some c \<and>
     controlType c = Invite"
  using control_roundtrip [OF sampleKey_exchange sampleInvite_ok(1) sampleVids(3) sampleA_ne sampleVids(4)
      sampleInvite_ok(2), of 1 2 3]
  by (auto simp: sampleInviteWire_def sampleUnpackKeys_def asDecoded_def sampleInvite_def)

lemma sampleAccept_ok:
  "controlOk sampleAccept"
  "length (controlFrame (sha256 sampleCrypto) sampleAccept sampleA env) \<le> MAX_FRAME"
proof -
  show ok: "controlOk sampleAccept" by (simp add: sampleAccept_def controlOk_def)
  show "length (controlFrame (sha256 sampleCrypto) sampleAccept sampleA env) \<le> MAX_FRAME"
    using plainControl_small [OF sampleCrypto_ok ok sampleVids(1)] by (simp add: sampleAccept_def)
qed

lemma sampleAcceptWire_unpacks:
  "\<exists>m c. unpack sampleCrypto sampleAcceptWire sampleUnpackKeys = Inr m \<and> msgControl m = Some c \<and>
     controlType c = Accept"
  using control_roundtrip [OF sampleKey_exchange sampleAccept_ok(1) sampleVids(3) sampleA_ne sampleVids(4)
      sampleAccept_ok(2), of 1 2 3]
  by (auto simp: sampleAcceptWire_def sampleUnpackKeys_def asDecoded_def sampleAccept_def)

text \<open>A route that is longer than the decoder takes.\<close>

lemma sampleB_length: "length (bareVidBytes sampleB) \<le> 100"
proof -
  have l: "length (textEncode (js ''did:b'')) = 5"
    by (subst textEncode_ascii) (simp_all add: of_char_def)
  then show ?thesis
    using nextMul3_lt [of 5] by (simp add: sampleB_def bareVidBytes_def length_encodeVariableData)
qed

lemma many_hops_frame: "length (appFrame AppRouted (replicate 65 sampleB) [] sampleA) \<le> MAX_FRAME"
proof -
  let ?hops = "replicate 65 sampleB"
  let ?b = "appMarker AppRouted @ bareVidBytes sampleA @ appFields AppRouted ?hops []"
  have "length (concat (map bareVidBytes ?hops)) \<le> 65 * 100"
    using sampleB_length by (simp add: length_concat sum_list_replicate)
  then have "length ?b \<le> 2 ^ 21"
    using vidShort_length [OF sampleVids(1)]
    by (simp add: hopFields_def encodeVidList_eq length_encodeCount)
  moreover have "(2::nat) ^ 21 + 6 \<le> MAX_FRAME" by (simp add: MAX_FRAME_def)
  ultimately show ?thesis using frameBytes_length [of ?b] unfolding appFrame_def by linarith
qed

lemma sample_hops_ok: "list_all vidOk (replicate 65 sampleB)" "MAX_HOPS < length (replicate 65 sampleB)"
  using sampleVids(4) by (simp_all add: list_all_iff MAX_HOPS_def)

lemma too_many_sample:
  "\<exists>w. unpack sampleCrypto w (unpackKeysFor sampleCrypto (sampleKey 2) (sampleKey 3)) =
    Inl (JsError ''tsp: too many hops'')"
proof (rule too_many_hops [OF sampleKey_exchange sampleVids(3) sampleA_ne sampleVids(4) sample_hops_ok])
  show "3 dvd length ([] :: bytes)" by simp
  show "length (appFrame AppRouted (replicate 65 sampleB) [] sampleA) \<le> MAX_FRAME" by (rule many_hops_frame)
qed blast

end
