(* ===== verification/Tsp_Relationship.thy ===== *)
theory Tsp_Relationship
  imports Tsp_Control
begin

text \<open>
  The relationship rules of \<open>packages/tsp-js/src/relationship.ts\<close>: the transition table, the
  gates on application messages, the invite race, and what a received accept or cancellation
  calls for. All of them are pure functions in the source. The theory adds the step relation of
  one endpoint and that of a pair of endpoints with the messages between them.
\<close>

datatype relationshipState = RelNone | RelPending | RelInviteReceived | RelBidirectional

datatype relationshipEvent =
    SendInvite | ReceiveInvite | SendAccept | ReceiveAccept | SendCancel | ReceiveCancel

fun TRANSITIONS :: "relationshipState \<Rightarrow> relationshipEvent \<Rightarrow> relationshipState option" where
  "TRANSITIONS RelNone SendInvite = Some RelPending"
| "TRANSITIONS RelNone ReceiveInvite = Some RelInviteReceived"
| "TRANSITIONS RelPending ReceiveAccept = Some RelBidirectional"
| "TRANSITIONS RelPending ReceiveCancel = Some RelNone"
| "TRANSITIONS RelPending SendCancel = Some RelNone"
| "TRANSITIONS RelInviteReceived SendAccept = Some RelBidirectional"
| "TRANSITIONS RelInviteReceived SendCancel = Some RelNone"
| "TRANSITIONS RelInviteReceived ReceiveCancel = Some RelNone"
| "TRANSITIONS RelBidirectional SendCancel = Some RelNone"
| "TRANSITIONS RelBidirectional ReceiveCancel = Some RelNone"
| "TRANSITIONS _ _ = None"

fun stateName :: "relationshipState \<Rightarrow> string" where
  "stateName RelNone = ''none''"
| "stateName RelPending = ''pending''"
| "stateName RelInviteReceived = ''inviteReceived''"
| "stateName RelBidirectional = ''bidirectional''"

fun eventName :: "relationshipEvent \<Rightarrow> string" where
  "eventName SendInvite = ''sendInvite''"
| "eventName ReceiveInvite = ''receiveInvite''"
| "eventName SendAccept = ''sendAccept''"
| "eventName ReceiveAccept = ''receiveAccept''"
| "eventName SendCancel = ''sendCancel''"
| "eventName ReceiveCancel = ''receiveCancel''"

text \<open>The message of an \<open>InvalidTransitionError\<close>; its fields are the two arguments.\<close>

definition invalidTransition :: "relationshipState \<Rightarrow> relationshipEvent \<Rightarrow> string" where
  "invalidTransition state event =
     ''tsp: cannot '' @ eventName event @ '' in relationship state '' @ stateName state"

definition transition ::
    "relationshipState \<Rightarrow> relationshipEvent \<Rightarrow> (relationshipState \<times> relationshipEvent) + relationshipState" where
  "transition state event =
     (case TRANSITIONS state event of None \<Rightarrow> Inl (state, event) | Some next_state \<Rightarrow> Inr next_state)"

definition canSend :: "relationshipState \<Rightarrow> bool" where
  "canSend state \<longleftrightarrow> state = RelBidirectional"

definition admitsApplicationMessage :: "relationshipState \<Rightarrow> bool" where
  "admitsApplicationMessage state \<longleftrightarrow> state \<noteq> RelNone"

subsection \<open>Races, accepts and cancellations\<close>

text \<open>The loop of \<open>compareBytes\<close> over the common prefix.\<close>

fun compareBytes :: "bytes \<Rightarrow> bytes \<Rightarrow> int" where
  "compareBytes (a # as) (b # bs) = (if a \<noteq> b then (if a < b then -1 else 1) else compareBytes as bs)"
| "compareBytes as bs = int (length as) - int (length bs)"

datatype raceOutcome = KeepOurs | KeepTheirs

definition resolveInviteRace :: "bytes \<Rightarrow> bytes \<Rightarrow> raceOutcome" where
  "resolveInviteRace ourInviteDigest theirInviteDigest =
     (let cmp = compareBytes ourInviteDigest theirInviteDigest
      in if cmp < 0 then KeepOurs else KeepTheirs)"

datatype acceptOutcome = AcceptAdopt | AcceptIgnore string

definition resolveAccept :: "relationshipState \<Rightarrow> bytes option \<Rightarrow> bytes option \<Rightarrow> acceptOutcome" where
  "resolveAccept state answeredDigest ourInviteDigest =
     (case ourInviteDigest of
        None \<Rightarrow> AcceptIgnore ''answers no invite we have outstanding''
      | Some ours \<Rightarrow>
          if state \<noteq> RelPending then AcceptIgnore ''answers no invite we have outstanding''
          else (case answeredDigest of
             None \<Rightarrow> AcceptIgnore ''answers an invite we did not send''
           | Some answered \<Rightarrow>
               if compareBytes answered ours \<noteq> 0 then AcceptIgnore ''answers an invite we did not send''
               else AcceptAdopt))"

datatype cancelOutcome = CancelIgnore string | CancelRemove | CancelRemoveAndReply

definition resolveCancel :: "relationshipState \<Rightarrow> bytes option \<Rightarrow> bytes list \<Rightarrow> cancelOutcome" where
  "resolveCancel state namedDigest knownDigests =
     (if state = RelNone then CancelIgnore ''names no relationship we hold''
      else if (case namedDigest of None \<Rightarrow> False
               | Some named \<Rightarrow> \<not> list_ex (\<lambda>d. compareBytes d named = 0) knownDigests)
        then CancelIgnore ''names an unrecognised relationship''
      else if state = RelBidirectional then CancelRemoveAndReply else CancelRemove)"

subsection \<open>The byte order\<close>

lemma compareBytes_zero: "compareBytes as bs = 0 \<longleftrightarrow> as = bs"
  by (induction as bs rule: compareBytes.induct) (auto simp: compareBytes.simps)

lemma compareBytes_Nil [simp]: "compareBytes [] bs = - int (length bs)" "compareBytes as [] = int (length as)"
  by (cases bs; simp) (cases as; simp)

lemma compareBytes_flip: "compareBytes as bs < 0 \<longleftrightarrow> 0 < compareBytes bs as"
  by (induction as bs rule: compareBytes.induct) (auto simp: compareBytes.simps)

lemma compareBytes_trans:
  "compareBytes as bs < 0 \<Longrightarrow> compareBytes bs cs < 0 \<Longrightarrow> compareBytes as cs < 0"
proof (induction as arbitrary: bs cs)
  case Nil
  then show ?case by (cases bs; cases cs) auto
next
  case (Cons a as)
  then show ?case by (cases bs; cases cs) (auto split: if_splits)
qed

text \<open>Both ends of a race settle on the same invite: exactly one of them keeps its own.\<close>

lemma race_opposite:
  "a \<noteq> b \<Longrightarrow> resolveInviteRace a b = KeepOurs \<longleftrightarrow> resolveInviteRace b a = KeepTheirs"
  using compareBytes_flip [of a b] compareBytes_flip [of b a] compareBytes_zero [of a b]
  by (auto simp: resolveInviteRace_def Let_def)

text \<open>The digest both ends keep, seen from either side.\<close>

definition keptDigest :: "bytes \<Rightarrow> bytes \<Rightarrow> bytes" where
  "keptDigest ours theirs = (case resolveInviteRace ours theirs of KeepOurs \<Rightarrow> ours | KeepTheirs \<Rightarrow> theirs)"

lemma keptDigest_commute: "keptDigest a b = keptDigest b a"
proof (cases "a = b")
  case False
  with race_opposite [OF False] race_opposite [of b a] show ?thesis
    by (cases "resolveInviteRace a b"; cases "resolveInviteRace b a") (auto simp: keptDigest_def)
qed simp

lemma resolveAccept_adopt:
  "resolveAccept st ans ours = AcceptAdopt \<longleftrightarrow> st = RelPending \<and> (\<exists>d. ours = Some d \<and> ans = Some d)"
  by (auto simp: resolveAccept_def compareBytes_zero split: option.splits)

lemma resolveCancel_ignore:
  "(\<exists>why. resolveCancel st nm known = CancelIgnore why) \<longleftrightarrow>
     st = RelNone \<or> (\<exists>d. nm = Some d \<and> d \<notin> set known)"
  by (auto simp: resolveCancel_def compareBytes_zero list_ex_iff split: option.splits)

lemma resolveCancel_reply: "resolveCancel st nm known = CancelRemoveAndReply \<Longrightarrow> st = RelBidirectional"
  by (auto simp: resolveCancel_def split: if_splits)

lemma transition_iff: "transition st ev = Inr st' \<longleftrightarrow> TRANSITIONS st ev = Some st'"
  by (auto simp: transition_def split: option.splits)

subsection \<open>Runs of one endpoint\<close>

inductive rel_trace :: "relationshipEvent list \<Rightarrow> relationshipState \<Rightarrow> bool" where
  init: "rel_trace [] RelNone"
| step: "rel_trace evs st \<Longrightarrow> transition st ev = Inr st' \<Longrightarrow> rel_trace (evs @ [ev]) st'"

inductive_cases rel_trace_NilE: "rel_trace [] st"
inductive_cases rel_trace_snocE: "rel_trace (evs @ [ev]) st"

fun_cases TRANSITIONS_pendingE: "TRANSITIONS st ev = Some RelPending"
fun_cases TRANSITIONS_receivedE: "TRANSITIONS st ev = Some RelInviteReceived"
fun_cases TRANSITIONS_bidirectionalE: "TRANSITIONS st ev = Some RelBidirectional"

lemmas TRANSITIONS_elims = TRANSITIONS_pendingE TRANSITIONS_receivedE TRANSITIONS_bidirectionalE

text \<open>How each state was entered: a complete relationship took an invite and its accept.\<close>

definition enteredBy :: "relationshipEvent list \<Rightarrow> relationshipState \<Rightarrow> bool" where
  "enteredBy evs st = (case st of
     RelNone \<Rightarrow> True
   | RelPending \<Rightarrow> (\<exists>pre. evs = pre @ [SendInvite] \<and> rel_trace pre RelNone)
   | RelInviteReceived \<Rightarrow> (\<exists>pre. evs = pre @ [ReceiveInvite] \<and> rel_trace pre RelNone)
   | RelBidirectional \<Rightarrow> (\<exists>pre. rel_trace pre RelNone \<and>
       (evs = pre @ [SendInvite, ReceiveAccept] \<or> evs = pre @ [ReceiveInvite, SendAccept])))"

lemma rel_trace_entered: "rel_trace evs st \<Longrightarrow> enteredBy evs st"
proof (induction rule: rel_trace.induct)
  case init
  then show ?case by (simp add: enteredBy_def)
next
  case (step evs st ev st')
  then show ?case
    by (cases st; cases ev) (auto simp: enteredBy_def transition_def)
qed

lemma rel_trace_functional: "rel_trace evs st \<Longrightarrow> rel_trace evs st' \<Longrightarrow> st = st'"
proof (induction arbitrary: st' rule: rel_trace.induct)
  case init
  then show ?case by (auto elim: rel_trace_NilE)
next
  case (step evs st ev st1)
  from step.prems obtain st2 where "rel_trace evs st2" "transition st2 ev = Inr st'"
    by (auto elim: rel_trace_snocE)
  with step.IH [of st2] step.hyps show ?case by simp
qed

subsection \<open>The two ends of one relationship\<close>

text \<open>The event of the other end when a message is sent and received at once, and its state.\<close>

fun mirrorEvent :: "relationshipEvent \<Rightarrow> relationshipEvent" where
  "mirrorEvent SendInvite = ReceiveInvite"
| "mirrorEvent ReceiveInvite = SendInvite"
| "mirrorEvent SendAccept = ReceiveAccept"
| "mirrorEvent ReceiveAccept = SendAccept"
| "mirrorEvent SendCancel = ReceiveCancel"
| "mirrorEvent ReceiveCancel = SendCancel"

fun mirrorState :: "relationshipState \<Rightarrow> relationshipState" where
  "mirrorState RelPending = RelInviteReceived"
| "mirrorState RelInviteReceived = RelPending"
| "mirrorState st = st"

lemma mirror_transition:
  "TRANSITIONS (mirrorState st) (mirrorEvent ev) = map_option mirrorState (TRANSITIONS st ev)"
  by (cases st; cases ev) simp_all

text \<open>So the two ends of an exchange without races are in mirrored states throughout.\<close>

lemma rel_trace_mirror: "rel_trace evs st \<Longrightarrow> rel_trace (map mirrorEvent evs) (mirrorState st)"
proof (induction rule: rel_trace.induct)
  case init
  show ?case using rel_trace.init by simp
next
  case (step evs st ev st')
  have "transition (mirrorState st) (mirrorEvent ev) = Inr (mirrorState st')"
    using step.hyps by (simp add: transition_iff mirror_transition)
  from rel_trace.step [OF step.IH this] show ?case by simp
qed

text \<open>A cancellation is possible in every state but the initial one, and leads back to it.\<close>

lemma cancel_resets:
  "ev = SendCancel \<or> ev = ReceiveCancel \<Longrightarrow>
   TRANSITIONS st ev = (if st = RelNone then None else Some RelNone)"
  by (cases st) auto

subsection \<open>Properties\<close>

text \<open>When both ends have sent an invite, the two decisions of \<open>resolveInviteRace\<close> agree: exactly one end
  keeps its own invite, both end up with the same digest, and it is the smaller one.\<close>

theorem invite_race_converges:
  assumes "a \<noteq> b"
  shows "(resolveInviteRace a b = KeepOurs \<longleftrightarrow> resolveInviteRace b a = KeepTheirs) \<and>
    keptDigest a b = keptDigest b a \<and>
    keptDigest a b = (if compareBytes a b < 0 then a else b) \<and>
    compareBytes (keptDigest a b) (if keptDigest a b = a then b else a) < 0"
  using race_opposite [OF assms] keptDigest_commute [of a b] compareBytes_flip [of a b]
    compareBytes_flip [of b a] compareBytes_zero [of a b] assms
  by (auto simp: keptDigest_def resolveInviteRace_def Let_def)

theorem invite_race_converges_witness:
  "keptDigest [1, 2] [1, 3] = keptDigest [1, 3] [1, 2] \<and> keptDigest [1, 2] [1, 3] = [1, 2]"
proof -
  have ne: "([1, 2] :: bytes) \<noteq> [1, 3]" by simp
  have "compareBytes ([1, 2] :: bytes) [1, 3] < 0" by simp
  with invite_race_converges [OF ne] show ?thesis by metis
qed

text \<open>An endpoint reaches the bidirectional state only through an invite and its accept: in every run of
  permitted events from the initial state, the last two events are an invite sent and an accept
  received, or an invite received and an accept sent, and before them there was no relationship.\<close>

theorem bidirectional_needs_invite_and_accept:
  assumes "rel_trace evs RelBidirectional"
  shows "\<exists>pre. rel_trace pre RelNone \<and>
    (evs = pre @ [SendInvite, ReceiveAccept] \<or> evs = pre @ [ReceiveInvite, SendAccept])"
  using rel_trace_entered [OF assms] by (simp add: enteredBy_def)

theorem bidirectional_needs_invite_and_accept_witness:
  "\<exists>pre. rel_trace pre RelNone \<and> [ReceiveInvite, SendAccept] = pre @ [ReceiveInvite, SendAccept]"
proof -
  have "rel_trace ([] @ [ReceiveInvite]) RelInviteReceived"
    by (rule rel_trace.step [OF rel_trace.init]) (simp add: transition_def)
  then have "rel_trace (([] @ [ReceiveInvite]) @ [SendAccept]) RelBidirectional"
    by (rule rel_trace.step) (simp add: transition_def)
  then have "rel_trace [ReceiveInvite, SendAccept] RelBidirectional" by simp
  from bidirectional_needs_invite_and_accept [OF this] show ?thesis by auto
qed

text \<open>Two ends that exchange their control messages without a race stay in mirrored states: whatever one
  end does, the other can follow with the mirrored event, pending on one side is an invite received on
  the other, and the state of a run is determined by its events.\<close>

theorem endpoints_mirror:
  assumes "rel_trace evs st"
  shows "rel_trace (map mirrorEvent evs) (mirrorState st) \<and>
    (\<forall>st'. rel_trace (map mirrorEvent evs) st' \<longrightarrow> st' = mirrorState st)"
  using rel_trace_mirror [OF assms] rel_trace_functional by blast

theorem endpoints_mirror_witness:
  "rel_trace [ReceiveInvite] RelInviteReceived"
proof -
  have "rel_trace ([] @ [SendInvite]) RelPending"
    by (rule rel_trace.step [OF rel_trace.init]) (simp add: transition_def)
  from endpoints_mirror [OF this] show ?thesis by simp
qed

end
