(* ===== verification/Js_Json.thy ===== *)
theory Js_Json
  imports Js_Text
begin

text \<open>
  JSON as the language gives it to the program: values, and the string quoting of
  \<open>JSON.stringify\<close> (\<open>QuoteJSONString\<close> of ECMA-262, with the escapes of lone surrogates). The
  reader of a string literal is the lemma tool that shows that quoting loses nothing and is
  delimited. Code units are handled as numbers.
\<close>

text \<open>
  A value as \<open>JSON.parse\<close> returns it. A number is integral (\<open>JInt\<close>, of magnitude below \<open>10^21\<close>,
  printed in plain decimal), another finite number given by the text \<open>String\<close> prints for it (\<open>JFloat\<close>),
  or non-finite, which only a JavaScript value may be; members keep their order. \<open>JUndefined\<close> stands for the values JSON has no form for.
\<close>

datatype jsval =
    JNull | JUndefined | JBool bool | JInt int | JFloat jsstr | JNonFinite | JStr jsstr
  | JArr "jsval list" | JObj "(jsstr \<times> jsval) list"

definition hexCode :: "nat \<Rightarrow> nat" where
  "hexCode d = (if d < 10 then 48 + d else 87 + d)"

definition hexValue :: "nat \<Rightarrow> nat" where
  "hexValue c = (if c < 58 then c - 48 else c - 87)"

definition hex4 :: "nat \<Rightarrow> nat list" where
  "hex4 u = [hexCode (u div 4096 mod 16), hexCode (u div 256 mod 16), hexCode (u div 16 mod 16), hexCode (u mod 16)]"

definition escapeU :: "nat \<Rightarrow> nat list" where
  "escapeU u = [92, 117] @ hex4 u"

text \<open>The two-character escapes: backspace, tab, line feed, form feed, return, quote, backslash.\<close>

definition shortEscape :: "nat \<Rightarrow> nat option" where
  "shortEscape u =
     (if u = 8 then Some 98 else if u = 9 then Some 116 else if u = 10 then Some 110
      else if u = 12 then Some 102 else if u = 13 then Some 114
      else if u = 34 then Some 34 else if u = 92 then Some 92 else None)"

fun quoteUnits :: "nat list \<Rightarrow> nat list" where
  "quoteUnits [] = []"
| "quoteUnits (u # us) =
     (case shortEscape u of
        Some c \<Rightarrow> [92, c] @ quoteUnits us
      | None \<Rightarrow>
          if u < 32 then escapeU u @ quoteUnits us
          else if isLead u then
            (case us of
               v # vs \<Rightarrow> if isTrail v then u # v # quoteUnits vs else escapeU u @ quoteUnits us
             | [] \<Rightarrow> escapeU u)
          else if isTrail u then escapeU u @ quoteUnits us
          else u # quoteUnits us)"

declare quoteUnits.simps(2) [simp del]

definition jsonQuote :: "jsstr \<Rightarrow> jsstr" where
  "jsonQuote s = map word_of_nat (34 # quoteUnits (map unat s) @ [34])"

subsection \<open>Reading a string literal\<close>

definition unescape :: "nat \<Rightarrow> nat option" where
  "unescape c =
     (if c = 98 then Some 8 else if c = 116 then Some 9 else if c = 110 then Some 10
      else if c = 102 then Some 12 else if c = 114 then Some 13
      else if c = 34 then Some 34 else if c = 92 then Some 92 else None)"

text \<open>\<open>readQuoted\<close> stands past the opening quote and returns the rest past the closing one.\<close>

fun readQuoted :: "nat list \<Rightarrow> (nat list \<times> nat list) option" where
  "readQuoted [] = None"
| "readQuoted (c # cs) =
     (if c = 34 then Some ([], cs)
      else if c = 92 then
        (case cs of
           e # r \<Rightarrow>
             if e = 117 then
               (case r of
                  a # b # d # f # r' \<Rightarrow>
                    map_option (\<lambda>(us, t). ((((hexValue a * 16 + hexValue b) * 16 + hexValue d) * 16
                                            + hexValue f) # us, t)) (readQuoted r')
                | _ \<Rightarrow> None)
             else (case unescape e of
                     Some u \<Rightarrow> map_option (\<lambda>(us, t). (u # us, t)) (readQuoted r)
                   | None \<Rightarrow> None)
         | [] \<Rightarrow> None)
      else map_option (\<lambda>(us, t). (c # us, t)) (readQuoted cs))"

declare readQuoted.simps(2) [simp del]

lemma hexValue_hexCode: "d < 16 \<Longrightarrow> hexValue (hexCode d) = d"
  by (simp add: hexValue_def hexCode_def)

lemma unescape_shortEscape: "shortEscape u = Some c \<Longrightarrow> unescape c = Some u \<and> c \<noteq> 117"
  by (auto simp: shortEscape_def unescape_def split: if_splits)

lemma shortEscape_None: "shortEscape u = None \<Longrightarrow> u \<noteq> 34 \<and> u \<noteq> 92"
  by (auto simp: shortEscape_def split: if_splits)

lemma hex4_value:
  fixes u :: nat
  assumes "u < 0x10000"
  shows "((u div 4096 mod 16 * 16 + u div 256 mod 16) * 16 + u div 16 mod 16) * 16 + u mod 16 = u"
proof -
  have a: "u div 4096 mod 16 = u div 4096" using assms by simp
  have b: "u div 4096 * 16 + u div 256 mod 16 = u div 256"
    using div_mult_mod_eq [of "u div 256" 16] by (simp add: div_mult2_eq [symmetric])
  have c: "u div 256 * 16 + u div 16 mod 16 = u div 16"
    using div_mult_mod_eq [of "u div 16" 16] by (simp add: div_mult2_eq [symmetric])
  show ?thesis unfolding a b c by simp
qed

lemma read_short:
  "shortEscape u = Some c \<Longrightarrow> readQuoted ([92, c] @ r) = map_option (\<lambda>(us, t). (u # us, t)) (readQuoted r)"
  using unescape_shortEscape [of u c] by (simp add: readQuoted.simps(2))

lemma read_escapeU:
  "u < 0x10000 \<Longrightarrow> readQuoted (escapeU u @ r) = map_option (\<lambda>(us, t). (u # us, t)) (readQuoted r)"
  using hex4_value [of u]
  by (simp add: escapeU_def hex4_def readQuoted.simps(2) hexValue_hexCode)

lemma read_plain:
  "shortEscape u = None \<Longrightarrow> readQuoted (u # r) = map_option (\<lambda>(us, t). (u # us, t)) (readQuoted r)"
  using shortEscape_None [of u] by (simp add: readQuoted.simps(2))

lemma surrogate_plain: "isTrail v \<Longrightarrow> shortEscape v = None"
  by (auto simp: isTrail_def shortEscape_def)

lemma read_end: "readQuoted (34 # r) = Some ([], r)"
  by (simp add: readQuoted.simps(2))

lemma readQuoted_quoteUnits:
  "list_all (\<lambda>u. u < 0x10000) us \<Longrightarrow> readQuoted (quoteUnits us @ 34 # r) = Some (us, r)"
proof (induction us rule: length_induct)
  case (1 us)
  show ?case
  proof (cases us)
    case Nil
    then show ?thesis by (simp add: read_end)
  next
    case (Cons u vs)
    have IH: "readQuoted (quoteUnits vs @ 34 # r) = Some (vs, r)"
      using 1 Cons by auto
    have IH2: "readQuoted (quoteUnits ws @ 34 # r) = Some (ws, r)" if "vs = v # ws" for v ws
      using 1 Cons that by auto
    have u: "u < 0x10000" using "1.prems" Cons by simp
    show ?thesis
    proof (cases "shortEscape u")
      case (Some c)
      then show ?thesis using Cons IH read_short [OF Some] by (simp add: quoteUnits.simps(2))
    next
      case None
      then show ?thesis
        using Cons IH IH2 read_escapeU [OF u] read_plain [OF None] read_plain [OF surrogate_plain]
        by (auto simp: quoteUnits.simps(2) [of u] read_end split: list.split)
    qed
  qed
qed

lemma map_unat_inj: "map unat (s :: jsstr) = map unat t \<Longrightarrow> s = t"
proof -
  have "inj (unat :: 16 word \<Rightarrow> nat)" by (rule injI) (rule unsigned_word_eqI)
  then show "map unat (s :: jsstr) = map unat t \<Longrightarrow> s = t" by simp
qed

text \<open>Quoted strings are delimited and determine the string.\<close>

lemma quoteUnits_delimited:
  assumes "quoteUnits (map unat (s :: jsstr)) @ 34 # r = quoteUnits (map unat (t :: jsstr)) @ 34 # r'"
  shows "s = t \<and> r = r'"
proof -
  have "Some (map unat s, r) = Some (map unat t, r')"
    unfolding readQuoted_quoteUnits [OF unat16_lt, symmetric] assms ..
  then show ?thesis using map_unat_inj [of s t] by simp
qed

lemma hexCode_lt: "hexCode (d mod 16) < 0x10000"
proof -
  have "d mod 16 < 16" by simp
  then have "hexCode (d mod 16) < 16 + 87" unfolding hexCode_def by (split if_split) linarith
  then show ?thesis by simp
qed

lemma shortEscape_lt: "shortEscape u = Some c \<Longrightarrow> c < 0x10000"
  by (auto simp: shortEscape_def split: if_splits)

lemma escapeU_lt: "list_all (\<lambda>u. u < 0x10000) (escapeU u)"
  by (simp add: escapeU_def hex4_def hexCode_lt)

lemma quoteUnits_lt:
  "list_all (\<lambda>u. u < 0x10000) us \<Longrightarrow> list_all (\<lambda>u. u < 0x10000) (quoteUnits us)"
proof (induction us rule: length_induct)
  case (1 us)
  show ?case
  proof (cases us)
    case Nil
    then show ?thesis by simp
  next
    case (Cons u vs)
    have IH: "list_all (\<lambda>u. u < 0x10000) (quoteUnits vs)" using 1 Cons by auto
    have IH2: "list_all (\<lambda>u. u < 0x10000) (quoteUnits ws)" if "vs = v # ws" for v ws
      using 1 Cons that by auto
    have u: "u < 0x10000" using "1.prems" Cons by simp
    have t: "isTrail v \<Longrightarrow> v < 0x10000" for v by (simp add: isTrail_def)
    show ?thesis
      using Cons u IH IH2 escapeU_lt [of u] shortEscape_lt [of u] t
      by (auto simp: quoteUnits.simps(2) [of u] split: option.split list.split)
  qed
qed

lemma unat_word16: "list_all (\<lambda>u. u < 0x10000) us \<Longrightarrow> map (unat \<circ> (word_of_nat :: nat \<Rightarrow> 16 word)) us = us"
  by (induction us) (auto simp: unat_of_nat)

lemma map_unat_jsonQuote: "map unat (jsonQuote s) = 34 # quoteUnits (map unat s) @ [34]"
  using unat_word16 [of "34 # quoteUnits (map unat s) @ [34]"] quoteUnits_lt [OF unat16_lt [of s]]
  by (simp add: jsonQuote_def)

lemma jsonQuote_delimited:
  assumes "jsonQuote s @ r = jsonQuote t @ r'"
  shows "s = t \<and> r = r'"
proof -
  have "quoteUnits (map unat s) @ 34 # map unat r = quoteUnits (map unat t) @ 34 # map unat r'"
    using arg_cong [OF assms, of "map unat"] by (simp add: map_unat_jsonQuote)
  from quoteUnits_delimited [OF this] show ?thesis using map_unat_inj [of r r'] by simp
qed

end
