(* ===== verification/Rel_Store.thy ===== *)
theory Rel_Store
  imports Tsp_Route Tsp_Relationship Js_Json "HOL-Library.AList"
begin

text \<open>
  Relationship records of the wallet, \<open>packages/core/src/vta/tsp-relationship.ts\<close>: the store
  interface and its in-memory implementation, the handshake that precedes the first message, and
  what an inbound control message does to a record. Each operation is cut where the source waits;
  in \<open>ensureRelationship\<close> \<open>envMeanwhile\<close> is what other code did to the store during the wait for the
  network, and \<open>rel_run\<close> interleaves the parts of all calls. Digests are kept as lowercase hex.
\<close>

record relationshipRecord =
  relState :: relationshipState
  relOurDigest :: "string option"
  relTheirDigest :: "string option"

subsection \<open>Hex\<close>

definition hexDigit :: "nat \<Rightarrow> char" where
  "hexDigit d = char_of (if d < 10 then 48 + d else 87 + d)"

definition hexByte :: "byte \<Rightarrow> string" where
  "hexByte b = (let n = unat b in
     if n < 16 then [CHR ''0'', hexDigit n] else [hexDigit (n div 16), hexDigit (n mod 16)])"

definition toHex :: "bytes \<Rightarrow> string" where
  "toHex bs = concat (map hexByte bs)"

definition isHexChar :: "char \<Rightarrow> bool" where
  "isHexChar c = (let n = of_char c :: nat in (48 \<le> n \<and> n \<le> 57) \<or> (97 \<le> n \<and> n \<le> 102))"

definition hexCharValue :: "char \<Rightarrow> nat" where
  "hexCharValue c = (let n = of_char c :: nat in if n < 58 then n - 48 else n - 87)"

fun hexPairs :: "string \<Rightarrow> bytes" where
  "hexPairs (a # b # cs) = word_of_nat (hexCharValue a * 16 + hexCharValue b) # hexPairs cs"
| "hexPairs _ = []"

definition fromHex :: "string option \<Rightarrow> bytes option" where
  "fromHex hex = (case hex of None \<Rightarrow> None
     | Some h \<Rightarrow> if length h mod 2 \<noteq> 0 \<or> \<not> list_all isHexChar h then None else Some (hexPairs h))"

subsection \<open>The store\<close>

record 's relStore =
  rsGet :: "'s \<Rightarrow> jsstr \<Rightarrow> jsstr \<Rightarrow> relationshipRecord option"
  rsSet :: "'s \<Rightarrow> jsstr \<Rightarrow> jsstr \<Rightarrow> relationshipRecord \<Rightarrow> 's"
  rsClear :: "'s \<Rightarrow> jsstr \<Rightarrow> jsstr \<Rightarrow> 's"

type_synonym memRel = "(jsstr \<times> relationshipRecord) list"

definition relKey :: "jsstr \<Rightarrow> jsstr \<Rightarrow> jsstr" where
  "relKey ourVid theirVid = js ''['' @ jsonQuote ourVid @ js '','' @ jsonQuote theirVid @ js '']''"

definition relMemGet :: "memRel \<Rightarrow> jsstr \<Rightarrow> jsstr \<Rightarrow> relationshipRecord option" where
  "relMemGet m ourVid theirVid = map_of m (relKey ourVid theirVid)"

definition relMemSet :: "memRel \<Rightarrow> jsstr \<Rightarrow> jsstr \<Rightarrow> relationshipRecord \<Rightarrow> memRel" where
  "relMemSet m ourVid theirVid r = AList.update (relKey ourVid theirVid) r m"

definition relMemClear :: "memRel \<Rightarrow> jsstr \<Rightarrow> jsstr \<Rightarrow> memRel" where
  "relMemClear m ourVid theirVid = AList.delete (relKey ourVid theirVid) m"

definition memoryRelationshipStore :: "memRel relStore" where
  "memoryRelationshipStore = \<lparr>rsGet = relMemGet, rsSet = relMemSet, rsClear = relMemClear\<rparr>"

subsection \<open>The handshake\<close>

record holderIdentity =
  holderVid :: jsstr
  holderSigningSk :: bytes
  holderEncryptionSk :: bytes

record remoteEndpoint =
  remoteVid :: jsstr
  remoteEncryptionPk :: bytes
  remoteSigningPk :: bytes

datatype relationshipOutcome =
    AlreadyEstablished
  | Established string
  | NotAnswered jsstr
  | Refused jsstr

fun typeName :: "messageType \<Rightarrow> string" where
  "typeName Direct = ''direct''"
| "typeName Nested = ''nested''"
| "typeName Routed = ''routed''"
| "typeName Control = ''control''"
| "typeName Padding = ''padding''"

fun controlName :: "controlType \<Rightarrow> string" where
  "controlName Invite = ''invite''"
| "controlName Accept = ''accept''"
| "controlName Cancel = ''cancel''"

text \<open>
  The \<open>claims\<close> predicate given to the transport: whether a frame is the accept that is waited for,
  and the reason it is declined by.
\<close>

definition acceptClaims ::
    "crypto \<Rightarrow> holderIdentity \<Rightarrow> remoteEndpoint \<Rightarrow> relationshipState \<Rightarrow> bytes \<Rightarrow> bytes \<Rightarrow> jsstr option" where
  "acceptClaims C holder vta pending inviteDigest bs =
     (case unpack C bs \<lparr>receiverDecryptionSk = holderEncryptionSk holder,
                        senderSigningPk = remoteSigningPk vta\<rparr> of
        Inl err \<Rightarrow> Some (js (''unpack failed: '' @ messageOf err))
      | Inr reply \<Rightarrow>
          if msgSender reply \<noteq> remoteVid vta then
            Some (js ''sealed by '' @ msgSender reply @ js '', not the VTA'')
          else (case (msgType reply, msgControl reply) of
            (Control, Some control) \<Rightarrow>
              if controlType control \<noteq> Accept then
                Some (js (''a '' @ controlName (controlType control) @ '', not an accept''))
              else (case resolveAccept pending (inReplyTo control) (Some inviteDigest) of
                      AcceptIgnore reason \<Rightarrow> Some (js (''an accept that '' @ reason))
                    | AcceptAdopt \<Rightarrow> None)
          | _ \<Rightarrow> Some (js (''not a control message ('' @ typeName (msgType reply) @ '')''))))"

text \<open>
  \<open>sendAndAwaitReply\<close> of the transport, which is not part of this module: while it waits it offers
  the frames \<open>offered\<close> to \<open>claims\<close> in turn, returns on the first one claimed and raises otherwise.
  The result is whether one was claimed, and the reason the last one was declined for.
\<close>

fun awaitReply :: "(bytes \<Rightarrow> jsstr option) \<Rightarrow> bytes list \<Rightarrow> jsstr option \<Rightarrow> bool \<times> jsstr option" where
  "awaitReply claims [] declined = (False, declined)"
| "awaitReply claims (f # fs) declined =
     (case claims f of None \<Rightarrow> (True, declined) | Some why \<Rightarrow> awaitReply claims fs (Some why))"

text \<open>
  What the network and the runtime decide during one handshake: the random draws, the frames
  offered, the message of the exception when none is claimed, and the other writers of the store.
\<close>

record 's handshakeEnv =
  envEph :: bytes
  envNonce :: bytes
  envOffered :: "bytes list"
  envFailure :: jsstr
  envMeanwhile :: "'s \<Rightarrow> 's"

text \<open>Up to the invite: what the record that is read allows. The call is over, or there is an invite to record.\<close>

definition beginHandshake ::
    "crypto \<Rightarrow> holderIdentity \<Rightarrow> remoteEndpoint \<Rightarrow> bytes \<Rightarrow> bytes \<Rightarrow> relationshipRecord option
     \<Rightarrow> relationshipOutcome + (relationshipState \<times> packedMessage)" where
  "beginHandshake C holder vta eph freshNonce existing =
     (if map_option relState existing = Some RelBidirectional then Inl AlreadyEstablished
      else
        let from_state = (case existing of Some r \<Rightarrow> relState r | None \<Rightarrow> RelNone) in
        case transition from_state SendInvite of
          Inl (s, ev) \<Rightarrow> Inl (Refused (js (invalidTransition s ev)))
        | Inr pending \<Rightarrow>
            (case packInvite C eph freshNonce (holderVid holder) (remoteVid vta)
                    \<lparr>senderSigningSk = holderSigningSk holder,
                     receiverEncryptionPk = remoteEncryptionPk vta\<rparr> None None None of
               Inl err \<Rightarrow> Inl (Refused (js (''could not pack invite: '' @ messageOf err)))
             | Inr invite \<Rightarrow> Inr (pending, invite)))"

text \<open>The record before the wait.\<close>

definition recordPending ::
    "'s relStore \<Rightarrow> holderIdentity \<Rightarrow> remoteEndpoint \<Rightarrow> relationshipState \<Rightarrow> packedMessage \<Rightarrow> 's \<Rightarrow> 's" where
  "recordPending S holder vta pending invite st =
     rsSet S st (holderVid holder) (remoteVid vta)
       \<lparr>relState = pending, relOurDigest = Some (toHex (packedThread invite)), relTheirDigest = None\<rparr>"

text \<open>The wait, and the record after it.\<close>

definition concludeHandshake ::
    "crypto \<Rightarrow> 's relStore \<Rightarrow> holderIdentity \<Rightarrow> remoteEndpoint \<Rightarrow> relationshipState \<Rightarrow> packedMessage \<Rightarrow> bytes list \<Rightarrow> jsstr \<Rightarrow> 's
     \<Rightarrow> (relationshipState \<times> relationshipEvent) + ('s \<times> relationshipOutcome)" where
  "concludeHandshake C S holder vta pending invite frames failure st =
     (let (claimed, declined) =
            awaitReply (acceptClaims C holder vta pending (packedThread invite)) frames None
      in if \<not> claimed then
           Inr (st, NotAnswered (case declined of
               Some why \<Rightarrow> failure @ js '' -- last frame declined: '' @ why
             | None \<Rightarrow> failure))
         else bindE (transition pending ReceiveAccept) (\<lambda>established.
           Inr (rsSet S st (holderVid holder) (remoteVid vta)
                  \<lparr>relState = established, relOurDigest = Some (toHex (packedThread invite)), relTheirDigest = None\<rparr>,
                Established (toHex (packedThread invite)))))"

definition ensureRelationship ::
    "crypto \<Rightarrow> 's relStore \<Rightarrow> holderIdentity \<Rightarrow> remoteEndpoint \<Rightarrow> 's handshakeEnv \<Rightarrow> 's
     \<Rightarrow> (relationshipState \<times> relationshipEvent) + ('s \<times> relationshipOutcome)" where
  "ensureRelationship C S holder vta env st =
     (case beginHandshake C holder vta (envEph env) (envNonce env) (rsGet S st (holderVid holder) (remoteVid vta)) of
        Inl outcome \<Rightarrow> Inr (st, outcome)
      | Inr (pending, invite) \<Rightarrow>
          concludeHandshake C S holder vta pending invite (envOffered env) (envFailure env)
            (envMeanwhile env (recordPending S holder vta pending invite st)))"

definition forgetOnFailure :: "'s relStore \<Rightarrow> 's \<Rightarrow> jsstr \<Rightarrow> jsstr \<Rightarrow> 's" where
  "forgetOnFailure S st ourVid theirVid = rsClear S st ourVid theirVid"

subsection \<open>Inbound control messages\<close>

datatype inboundControlOutcome =
    Adopted
  | Removed bool
  | Ignored string

text \<open>What the message does to the record that is read: nothing, a removal or another record.\<close>

definition decideInboundControl ::
    "relationshipRecord option \<Rightarrow> controlMessage
     \<Rightarrow> (relationshipState \<times> relationshipEvent) + (relationshipRecord option option \<times> inboundControlOutcome)" where
  "decideInboundControl rec control =
     (let state = (case rec of Some r \<Rightarrow> relState r | None \<Rightarrow> RelNone);
          ourHex = Option.bind rec relOurDigest;
          theirHex = Option.bind rec relTheirDigest
      in case controlType control of
           Accept \<Rightarrow>
             (case resolveAccept state (inReplyTo control) (fromHex ourHex) of
                AcceptIgnore reason \<Rightarrow> Inr (None, Ignored (''an accept that '' @ reason))
              | AcceptAdopt \<Rightarrow>
                  bindE (transition state ReceiveAccept) (\<lambda>s.
                    Inr (Some (Some
                           \<lparr>relState = s, relOurDigest = ourHex,
                            relTheirDigest = (case ownDigest control of
                                                Some d \<Rightarrow> Some (toHex d) | None \<Rightarrow> theirHex)\<rparr>),
                         Adopted)))
         | Cancel \<Rightarrow>
             (case resolveCancel state (inReplyTo control)
                     (List.map_filter id (map fromHex [ourHex, theirHex])) of
                CancelIgnore reason \<Rightarrow> Inr (None, Ignored (''a cancellation: '' @ reason))
              | CancelRemove \<Rightarrow> Inr (Some None, Removed False)
              | CancelRemoveAndReply \<Rightarrow> Inr (Some None, Removed True))
         | Invite \<Rightarrow>
             Inr (None, Ignored ''an invite: this wallet does not take inbound relationships''))"

definition writeRecord :: "'s relStore \<Rightarrow> jsstr \<Rightarrow> jsstr \<Rightarrow> relationshipRecord option option \<Rightarrow> 's \<Rightarrow> 's" where
  "writeRecord S ourVid theirVid change st =
     (case change of None \<Rightarrow> st | Some None \<Rightarrow> rsClear S st ourVid theirVid | Some (Some r) \<Rightarrow> rsSet S st ourVid theirVid r)"

definition applyInboundControl ::
    "'s relStore \<Rightarrow> 's \<Rightarrow> jsstr \<Rightarrow> jsstr \<Rightarrow> controlMessage
     \<Rightarrow> (relationshipState \<times> relationshipEvent) + ('s \<times> inboundControlOutcome)" where
  "applyInboundControl S st ourVid theirVid control =
     bindE (decideInboundControl (rsGet S st ourVid theirVid) control) (\<lambda>(change, outcome).
     Inr (writeRecord S ourVid theirVid change st, outcome))"

subsection \<open>Hex round trip\<close>

lemma hexDigit_value: "d < 16 \<Longrightarrow> hexCharValue (hexDigit d) = d \<and> isHexChar (hexDigit d)"
proof -
  assume d: "d < 16"
  have "of_char (hexDigit d) = (if d < 10 then 48 + d else 87 + d)"
    using d by (simp add: hexDigit_def)
  then show ?thesis using d by (simp add: hexCharValue_def isHexChar_def Let_def)
qed

lemma hexDigit_zero: "CHR ''0'' = hexDigit 0"
  by (simp add: hexDigit_def char_of_def bit_Suc_0_iff)

lemma hexByte_pair: "hexByte b = [hexDigit (unat b div 16), hexDigit (unat b mod 16)]"
  by (simp add: hexByte_def Let_def hexDigit_zero)

lemma hexPairs_toHex: "hexPairs (toHex bs) = bs"
proof (induction bs)
  case (Cons b bs)
  have "unat b div 16 < 16" using unat_byte_lt [of b] by simp
  with Cons show ?case
    by (simp add: toHex_def hexByte_pair hexDigit_value)
qed (simp add: toHex_def)

lemma toHex_chars: "list_all isHexChar (toHex bs)"
proof (induction bs)
  case (Cons b bs)
  have "unat b div 16 < 16" using unat_byte_lt [of b] by simp
  with Cons show ?case by (simp add: toHex_def hexByte_pair hexDigit_value)
qed (simp add: toHex_def)

lemma length_toHex: "length (toHex bs) = 2 * length bs"
  by (induction bs) (simp_all add: toHex_def hexByte_pair)

lemma fromHex_toHex [simp]: "fromHex (Some (toHex bs)) = Some bs"
  by (simp add: fromHex_def toHex_chars length_toHex hexPairs_toHex)

lemma toHex_eq [simp]: "toHex a = toHex b \<longleftrightarrow> a = b"
  using hexPairs_toHex by metis

text \<open>The two operations with their parts in place.\<close>

lemma ensure_unfold:
  "ensureRelationship C S holder vta env st =
     (let existing = rsGet S st (holderVid holder) (remoteVid vta) in
      if map_option relState existing = Some RelBidirectional then Inr (st, AlreadyEstablished)
      else
        let from_state = (case existing of Some r \<Rightarrow> relState r | None \<Rightarrow> RelNone) in
        case transition from_state SendInvite of
          Inl (s, ev) \<Rightarrow> Inr (st, Refused (js (invalidTransition s ev)))
        | Inr pending \<Rightarrow>
            (case packInvite C (envEph env) (envNonce env) (holderVid holder) (remoteVid vta)
                    \<lparr>senderSigningSk = holderSigningSk holder,
                     receiverEncryptionPk = remoteEncryptionPk vta\<rparr> None None None of
               Inl err \<Rightarrow> Inr (st, Refused (js (''could not pack invite: '' @ messageOf err)))
             | Inr invite \<Rightarrow>
                 let digest = toHex (packedThread invite);
                     st1 = rsSet S st (holderVid holder) (remoteVid vta)
                             \<lparr>relState = pending, relOurDigest = Some digest, relTheirDigest = None\<rparr>;
                     st2 = envMeanwhile env st1;
                     (claimed, declined) =
                       awaitReply (acceptClaims C holder vta pending (packedThread invite)) (envOffered env) None
                 in if \<not> claimed then
                      Inr (st2, NotAnswered (case declined of
                          Some why \<Rightarrow> envFailure env @ js '' -- last frame declined: '' @ why
                        | None \<Rightarrow> envFailure env))
                    else bindE (transition pending ReceiveAccept) (\<lambda>established.
                      Inr (rsSet S st2 (holderVid holder) (remoteVid vta)
                             \<lparr>relState = established, relOurDigest = Some digest, relTheirDigest = None\<rparr>,
                           Established digest))))"
  by (auto simp: ensureRelationship_def beginHandshake_def concludeHandshake_def recordPending_def Let_def split: sum.split option.split prod.split)

lemma bindE_then: "bindE (bindE m (\<lambda>s. Inr (f s))) g = bindE m (\<lambda>s. g (f s))"
  by (cases m) simp_all

lemma apply_unfold:
  "applyInboundControl S st ourVid theirVid control =
     (let rec = rsGet S st ourVid theirVid;
          state = (case rec of Some r \<Rightarrow> relState r | None \<Rightarrow> RelNone);
          ourHex = Option.bind rec relOurDigest;
          theirHex = Option.bind rec relTheirDigest
      in case controlType control of
           Accept \<Rightarrow>
             (case resolveAccept state (inReplyTo control) (fromHex ourHex) of
                AcceptIgnore reason \<Rightarrow> Inr (st, Ignored (''an accept that '' @ reason))
              | AcceptAdopt \<Rightarrow>
                  bindE (transition state ReceiveAccept) (\<lambda>s.
                    Inr (rsSet S st ourVid theirVid
                           \<lparr>relState = s, relOurDigest = ourHex,
                            relTheirDigest = (case ownDigest control of
                                                Some d \<Rightarrow> Some (toHex d) | None \<Rightarrow> theirHex)\<rparr>,
                         Adopted)))
         | Cancel \<Rightarrow>
             (case resolveCancel state (inReplyTo control)
                     (List.map_filter id (map fromHex [ourHex, theirHex])) of
                CancelIgnore reason \<Rightarrow> Inr (st, Ignored (''a cancellation: '' @ reason))
              | CancelRemove \<Rightarrow> Inr (rsClear S st ourVid theirVid, Removed False)
              | CancelRemoveAndReply \<Rightarrow> Inr (rsClear S st ourVid theirVid, Removed True))
         | Invite \<Rightarrow>
             Inr (st, Ignored ''an invite: this wallet does not take inbound relationships''))"
  by (cases "controlType control") (simp_all add: applyInboundControl_def decideInboundControl_def writeRecord_def Let_def bindE_then
      split: acceptOutcome.split cancelOutcome.split)

subsection \<open>The store contract\<close>

locale rel_store =
  fixes S :: "'s relStore" and empty :: 's
  assumes get_set: "rsGet S (rsSet S st u v r) u' v' = (if u' = u \<and> v' = v then Some r else rsGet S st u' v')"
    and get_clear: "rsGet S (rsClear S st u v) u' v' = (if u' = u \<and> v' = v then None else rsGet S st u' v')"
    and get_empty: "rsGet S empty u v = None"
begin

text \<open>An inbound control message is always answered with an outcome.\<close>

lemma apply_total: "\<exists>st' out. applyInboundControl S st u v c = Inr (st', out)"
  by (cases "controlType c")
    (auto simp: apply_unfold Let_def resolveAccept_adopt transition_def
      split: acceptOutcome.splits cancelOutcome.splits)

text \<open>It touches only the record of the pair it arrived on, and not even that when it is ignored.\<close>

lemma apply_frame:
  assumes "applyInboundControl S st u v c = Inr (st', out)"
  shows "(u', v') \<noteq> (u, v) \<Longrightarrow> rsGet S st' u' v' = rsGet S st u' v'"
    and "out = Ignored why \<Longrightarrow> st' = st"
  using assms
  by (auto simp: apply_unfold Let_def bindE_Inr get_set get_clear
      split: controlType.splits acceptOutcome.splits cancelOutcome.splits)

text \<open>An accept is adopted exactly when it echoes the invite that is outstanding.\<close>

lemma apply_accept:
  assumes "controlType c = Accept"
  shows "(\<exists>st'. applyInboundControl S st u v c = Inr (st', Adopted)) \<longleftrightarrow>
    (\<exists>r d. rsGet S st u v = Some r \<and> relState r = RelPending \<and> fromHex (relOurDigest r) = Some d \<and>
       inReplyTo c = Some d)"
  using assms
  by (auto simp: apply_unfold Let_def resolveAccept_def compareBytes_zero transition_def
      split: acceptOutcome.splits option.splits if_splits)

lemma apply_accept_record:
  assumes "controlType c = Accept" and "applyInboundControl S st u v c = Inr (st', Adopted)"
    and "rsGet S st u v = Some r"
  shows "rsGet S st' u v = Some \<lparr>relState = RelBidirectional, relOurDigest = relOurDigest r,
    relTheirDigest = (case ownDigest c of Some d \<Rightarrow> Some (toHex d) | None \<Rightarrow> relTheirDigest r)\<rparr>"
  using assms
  by (auto simp: apply_unfold Let_def bindE_Inr resolveAccept_adopt transition_def get_set
      split: acceptOutcome.splits option.splits)

text \<open>
  A cancellation removes the record when it names a half that is held, and is answered exactly
  when both halves were; otherwise nothing happens and nothing is sent.
\<close>

lemma apply_cancel:
  assumes "controlType c = Cancel" and "inReplyTo c = Some d" and "rsGet S st u v = Some r"
    and "relState r \<noteq> RelNone"
    and "d \<in> set (List.map_filter id (map fromHex [relOurDigest r, relTheirDigest r]))"
  shows "applyInboundControl S st u v c =
    Inr (rsClear S st u v, Removed (relState r = RelBidirectional))"
  using assms
  by (auto simp: apply_unfold Let_def resolveCancel_def list_ex_iff compareBytes_zero
      map_filter_simps split: option.splits)

lemma apply_cancel_unknown:
  assumes "controlType c = Cancel" and "inReplyTo c = Some d" and "rsGet S st u v = Some r"
    and "d \<notin> set (List.map_filter id (map fromHex [relOurDigest r, relTheirDigest r]))"
  shows "\<exists>why. applyInboundControl S st u v c = Inr (st, Ignored why)"
  using assms
  by (auto simp: apply_unfold Let_def resolveCancel_def list_ex_iff compareBytes_zero
      map_filter_simps split: option.splits)

lemma apply_no_record:
  "rsGet S st u v = None \<Longrightarrow> \<exists>why. applyInboundControl S st u v c = Inr (st, Ignored why)"
  by (cases "controlType c")
    (auto simp: apply_unfold Let_def resolveCancel_def resolveAccept_def split: option.splits)

end

lemma relKey_inj: "relKey a b = relKey c d \<Longrightarrow> a = c \<and> b = d"
proof -
  assume "relKey a b = relKey c d"
  then have e: "jsonQuote a @ js '','' @ jsonQuote b @ js '']'' = jsonQuote c @ js '','' @ jsonQuote d @ js '']''"
    by (simp add: relKey_def)
  from jsonQuote_delimited [OF e] have "a = c" "jsonQuote b @ js '']'' = jsonQuote d @ js '']''"
    by simp_all
  with jsonQuote_delimited show ?thesis by blast
qed

lemma relKey_eq [simp]: "relKey a b = relKey c d \<longleftrightarrow> a = c \<and> b = d"
  using relKey_inj by blast

interpretation memRel: rel_store memoryRelationshipStore "[]"
  by unfold_locales
    (auto simp: memoryRelationshipStore_def relMemGet_def relMemSet_def relMemClear_def
      update_conv' delete_conv')

subsection \<open>The handshake\<close>

lemma awaitReply_claimed:
  "fst (awaitReply claims fs d) \<longleftrightarrow> (\<exists>f \<in> set fs. claims f = None)"
  by (induction fs arbitrary: d) (auto split: option.splits)

text \<open>
  A frame is claimed exactly when it opens under the remote's keys, is from the remote, and is an
  accept that echoes the digest of the invite.
\<close>

lemma acceptClaims_iff:
  "acceptClaims C holder vta st d f = None \<longleftrightarrow> st = RelPending \<and>
    (\<exists>m c. unpack C f \<lparr>receiverDecryptionSk = holderEncryptionSk holder,
                       senderSigningPk = remoteSigningPk vta\<rparr> = Inr m \<and>
      msgSender m = remoteVid vta \<and> msgType m = Control \<and> msgControl m = Some c \<and>
      controlType c = Accept \<and> inReplyTo c = Some d)"
proof (cases "unpack C f \<lparr>receiverDecryptionSk = holderEncryptionSk holder, senderSigningPk = remoteSigningPk vta\<rparr>")
  case (Inl e)
  then show ?thesis by (simp add: acceptClaims_def)
next
  case (Inr m)
  then show ?thesis
    by (cases "msgControl m"; cases "msgType m")
      (auto simp: acceptClaims_def resolveAccept_def compareBytes_zero split: option.splits if_splits)
qed

text \<open>The parts of a handshake that got as far as sending an invite.\<close>

lemma ensure_cases [consumes 1]:
  assumes "ensureRelationship C S holder vta env st = res"
  obtains (already) r where "rsGet S st (holderVid holder) (remoteVid vta) = Some r"
      "relState r = RelBidirectional" "res = Inr (st, AlreadyEstablished)"
  | (refused) why where "res = Inr (st, Refused why)"
  | (sent) invite st2 where "packInvite C (envEph env) (envNonce env) (holderVid holder) (remoteVid vta)
        \<lparr>senderSigningSk = holderSigningSk holder, receiverEncryptionPk = remoteEncryptionPk vta\<rparr>
        None None None = Inr invite"
      "\<And>r. rsGet S st (holderVid holder) (remoteVid vta) = Some r \<Longrightarrow> relState r = RelNone"
      "st2 = envMeanwhile env (rsSet S st (holderVid holder) (remoteVid vta)
         \<lparr>relState = RelPending, relOurDigest = Some (toHex (packedThread invite)), relTheirDigest = None\<rparr>)"
      "if fst (awaitReply (acceptClaims C holder vta RelPending (packedThread invite)) (envOffered env) None)
       then res = Inr (rsSet S st2 (holderVid holder) (remoteVid vta)
         \<lparr>relState = RelBidirectional, relOurDigest = Some (toHex (packedThread invite)), relTheirDigest = None\<rparr>,
         Established (toHex (packedThread invite)))
       else (\<exists>why. res = Inr (st2, NotAnswered why))"
proof -
  let ?old = "rsGet S st (holderVid holder) (remoteVid vta)"
  let ?from = "case ?old of Some r \<Rightarrow> relState r | None \<Rightarrow> RelNone"
  consider (bi) "map_option relState ?old = Some RelBidirectional"
    | (no) "map_option relState ?old \<noteq> Some RelBidirectional" "?from \<noteq> RelNone"
    | (go) "map_option relState ?old \<noteq> Some RelBidirectional" "?from = RelNone" by blast
  then show thesis
  proof cases
    case bi
    then obtain r where "?old = Some r" "relState r = RelBidirectional" by (cases ?old) auto
    with assms show thesis by (intro already) (auto simp: ensure_unfold Let_def)
  next
    case no
    then have "transition ?from SendInvite = Inl (?from, SendInvite)"
      by (cases ?from) (simp_all add: transition_def)
    with no(1) assms show thesis by (intro refused) (auto simp: ensure_unfold Let_def)
  next
    case go
    have old: "relState r = RelNone" if "?old = Some r" for r using go(2) that by simp
    show thesis
    proof (cases "packInvite C (envEph env) (envNonce env) (holderVid holder) (remoteVid vta)
        \<lparr>senderSigningSk = holderSigningSk holder, receiverEncryptionPk = remoteEncryptionPk vta\<rparr> None None None")
      case (Inl e)
      with go assms show thesis by (intro refused) (auto simp: ensure_unfold Let_def transition_def)
    next
      case (Inr invite)
      with go assms show thesis
        by (intro sent [OF Inr old refl])
          (auto simp: ensure_unfold Let_def transition_def split: prod.splits)
    qed
  qed
qed

context rel_store
begin

text \<open>\<open>ensureRelationship\<close> never throws.\<close>

lemma ensure_total: "\<exists>st' out. ensureRelationship C S holder vta env st = Inr (st', out)"
proof -
  obtain res where e: "ensureRelationship C S holder vta env st = res" by blast
  show ?thesis by (cases rule: ensure_cases [OF e]) (auto simp: e split: if_splits)
qed

lemma ensure_established:
  assumes "ensureRelationship C S holder vta env st = Inr (st', Established h)"
  obtains invite f m c where
    "packInvite C (envEph env) (envNonce env) (holderVid holder) (remoteVid vta)
       \<lparr>senderSigningSk = holderSigningSk holder, receiverEncryptionPk = remoteEncryptionPk vta\<rparr>
       None None None = Inr invite"
    "h = toHex (packedThread invite)" "f \<in> set (envOffered env)"
    "unpack C f \<lparr>receiverDecryptionSk = holderEncryptionSk holder, senderSigningPk = remoteSigningPk vta\<rparr> = Inr m"
    "msgSender m = remoteVid vta" "msgControl m = Some c" "controlType c = Accept"
    "inReplyTo c = Some (packedThread invite)"
    "rsGet S st' (holderVid holder) (remoteVid vta) =
       Some \<lparr>relState = RelBidirectional, relOurDigest = Some h, relTheirDigest = None\<rparr>"
  using assms
proof (cases rule: ensure_cases)
  case (sent invite st2)
  then obtain f where "f \<in> set (envOffered env)"
      "acceptClaims C holder vta RelPending (packedThread invite) f = None"
    by (auto simp: awaitReply_claimed split: if_splits)
  with sent that show thesis
    by (auto simp: acceptClaims_iff get_set split: if_splits)
qed auto

text \<open>A handshake that is not answered leaves the record pending with the digest of its invite.\<close>

lemma ensure_not_answered:
  assumes "ensureRelationship C S holder vta env st = Inr (st', NotAnswered why)"
    and "\<And>s. rsGet S (envMeanwhile env s) (holderVid holder) (remoteVid vta) =
           rsGet S s (holderVid holder) (remoteVid vta)"
  obtains d where "rsGet S st' (holderVid holder) (remoteVid vta) =
    Some \<lparr>relState = RelPending, relOurDigest = Some (toHex d), relTheirDigest = None\<rparr>"
  using assms(1)
proof (cases rule: ensure_cases)
  case (sent invite st2)
  with assms(2) that show thesis by (auto simp: get_set split: if_splits)
qed auto

end

subsection \<open>A handshake between two endpoints\<close>

definition holderOf :: "jsstr \<Rightarrow> bytes \<Rightarrow> bytes \<Rightarrow> holderIdentity" where
  "holderOf vid ssk rsk = \<lparr>holderVid = vid, holderSigningSk = ssk, holderEncryptionSk = rsk\<rparr>"

definition remoteOf :: "crypto \<Rightarrow> jsstr \<Rightarrow> bytes \<Rightarrow> bytes \<Rightarrow> remoteEndpoint" where
  "remoteOf C vid ssk rsk =
     \<lparr>remoteVid = vid, remoteEncryptionPk = getPublicKey C rsk, remoteSigningPk = edPublicKey C ssk\<rparr>"

lemma keys_of_endpoints:
  "\<lparr>senderSigningSk = holderSigningSk (holderOf u ssk rsk),
     receiverEncryptionPk = remoteEncryptionPk (remoteOf C v ssk' rsk')\<rparr> = packKeysFor C ssk rsk'"
  "\<lparr>receiverDecryptionSk = holderEncryptionSk (holderOf u ssk rsk),
     senderSigningPk = remoteSigningPk (remoteOf C v ssk' rsk')\<rparr> = unpackKeysFor C ssk' rsk"
  by (simp_all add: holderOf_def remoteOf_def packKeysFor_def unpackKeysFor_def)

context rel_store
begin

text \<open>
  The remote opens the invite, answers it with \<open>packAccept\<close>, and the answer is among the frames the
  wallet is offered: the handshake establishes the relationship.
\<close>

lemma handshake_completes:
  assumes ex: "exchangeOk C eph ssk rsk'" and ex': "exchangeOk C eph' ssk' rsk"
    and v: "vidShort u" "vidShort v" and n: "length nonce = 16"
    and new: "rsGet S st u v = None"
  obtains invite m accept where
    "packInvite C eph nonce u v (packKeysFor C ssk rsk') None None None = Inr invite"
    "unpack C (packedBytes invite) (unpackKeysFor C ssk rsk') = Inr m"
    "packAccept C eph' (msgThread m) v u (packKeysFor C ssk' rsk) None = Inr accept"
    "\<And>env. envEph env = eph \<Longrightarrow> envNonce env = nonce \<Longrightarrow> packedBytes accept \<in> set (envOffered env) \<Longrightarrow>
       \<exists>st'. ensureRelationship C S (holderOf u ssk rsk) (remoteOf C v ssk' rsk') env st =
         Inr (st', Established (toHex (packedThread invite))) \<and>
         rsGet S st' u v = Some \<lparr>relState = RelBidirectional,
           relOurDigest = Some (toHex (packedThread invite)), relTheirDigest = None\<rparr>"
proof -
  have uv: "vidOk u" "vidOk v" using v vidShort_ok by auto
  obtain invite where i: "packInvite C eph nonce u v (packKeysFor C ssk rsk') None None None = Inr invite"
      "length (packedThread invite) = 32" and
      iu: "unpack C (packedBytes invite) (unpackKeysFor C ssk rsk') = Inr
      \<lparr>msgPayload = [], msgSender = u, msgReceiver = v, msgType = Control,
       msgControl = Some \<lparr>controlType = Invite, ownDigest = Some (packedThread invite), inReplyTo = None,
         inviteNonce = Some nonce, replyRoute = [], inviteReferral = None\<rparr>,
       msgHops = [], msgThread = packedThread invite\<rparr>"
    by (rule invite_roundtrip [OF ex v(1) uv(2) n])
  obtain accept where a: "packAccept C eph' (packedThread invite) v u (packKeysFor C ssk' rsk) None = Inr accept"
      and au: "unpack C (packedBytes accept) (unpackKeysFor C ssk' rsk) = Inr
      \<lparr>msgPayload = [], msgSender = v, msgReceiver = u, msgType = Control,
       msgControl = Some \<lparr>controlType = Accept, ownDigest = Some (packedThread accept),
         inReplyTo = Some (packedThread invite), inviteNonce = None, replyRoute = [], inviteReferral = None\<rparr>,
       msgHops = [], msgThread = packedThread accept\<rparr>"
    by (rule accept_roundtrip [OF ex' v(2) uv(1) i(2)])
  have cl: "acceptClaims C (holderOf u ssk rsk) (remoteOf C v ssk' rsk') RelPending (packedThread invite)
      (packedBytes accept) = None"
    unfolding acceptClaims_iff keys_of_endpoints using au by (simp add: remoteOf_def)
  show thesis
  proof (rule that [OF i(1) iu])
    show "packAccept C eph' (msgThread \<lparr>msgPayload = [], msgSender = u, msgReceiver = v, msgType = Control,
       msgControl = Some \<lparr>controlType = Invite, ownDigest = Some (packedThread invite), inReplyTo = None,
         inviteNonce = Some nonce, replyRoute = [], inviteReferral = None\<rparr>,
       msgHops = [], msgThread = packedThread invite\<rparr>) v u (packKeysFor C ssk' rsk) None = Inr accept"
      using a by simp
  next
    fix env :: "'s handshakeEnv"
    assume e: "envEph env = eph" "envNonce env = nonce" "packedBytes accept \<in> set (envOffered env)"
    obtain res where r: "ensureRelationship C S (holderOf u ssk rsk) (remoteOf C v ssk' rsk') env st = res"
      by blast
    have vids: "holderVid (holderOf u ssk rsk) = u" "remoteVid (remoteOf C v ssk' rsk') = v"
      by (simp_all add: holderOf_def remoteOf_def)
    have fr: "transition RelNone SendInvite = Inr RelPending" "transition RelPending ReceiveAccept = Inr RelBidirectional"
      by (simp_all add: transition_def)
    have "fst (awaitReply (acceptClaims C (holderOf u ssk rsk) (remoteOf C v ssk' rsk') RelPending
        (packedThread invite)) (envOffered env) None)"
      using cl e(3) by (auto simp: awaitReply_claimed)
    then show "\<exists>st'. ensureRelationship C S (holderOf u ssk rsk) (remoteOf C v ssk' rsk') env st =
         Inr (st', Established (toHex (packedThread invite))) \<and>
         rsGet S st' u v = Some \<lparr>relState = RelBidirectional,
           relOurDigest = Some (toHex (packedThread invite)), relTheirDigest = None\<rparr>"
      using new i(1) e(1,2)
      by (auto simp: ensure_unfold vids keys_of_endpoints Let_def fr get_set split: prod.splits)
  qed
qed

end

subsection \<open>Reachable stores\<close>

text \<open>
  Everything that writes a store, in the parts between which the source waits: a handshake reads the record and packs its
  invite, later records it as pending, later concludes over the frames it was offered; an inbound control message reads the record and
  decides, later writes; a record is forgotten. The parts of different calls come in any order, and a call may end anywhere.
  The log has what came from outside: who began a handshake with what random draws, the frames offered to one, the control messages.
\<close>

datatype relCall =
    Inviting holderIdentity remoteEndpoint relationshipState packedMessage
  | Waiting holderIdentity remoteEndpoint relationshipState packedMessage
  | Changing jsstr jsstr "relationshipRecord option option"

datatype relEvent =
    Began holderIdentity remoteEndpoint bytes bytes
  | Offered holderIdentity remoteEndpoint "bytes list"
  | Arrived jsstr jsstr controlMessage

inductive rel_run ::
    "crypto \<Rightarrow> 's relStore \<Rightarrow> 's \<Rightarrow> 's \<Rightarrow> relCall list \<Rightarrow> relEvent list \<Rightarrow> bool" for C S e where
  start: "rel_run C S e e [] []"
| begins: "rel_run C S e st calls log \<Longrightarrow>
    beginHandshake C holder vta eph freshNonce (rsGet S st (holderVid holder) (remoteVid vta)) = Inr (pending, invite) \<Longrightarrow>
    rel_run C S e st (Inviting holder vta pending invite # calls) (log @ [Began holder vta eph freshNonce])"
| records: "rel_run C S e st calls log \<Longrightarrow> Inviting holder vta pending invite \<in> set calls \<Longrightarrow>
    rel_run C S e (recordPending S holder vta pending invite st)
      (Waiting holder vta pending invite # remove1 (Inviting holder vta pending invite) calls) log"
| concludes: "rel_run C S e st calls log \<Longrightarrow> Waiting holder vta pending invite \<in> set calls \<Longrightarrow>
    concludeHandshake C S holder vta pending invite frames failure st = Inr (st', outcome) \<Longrightarrow>
    rel_run C S e st' (remove1 (Waiting holder vta pending invite) calls) (log @ [Offered holder vta frames])"
| arrives: "rel_run C S e st calls log \<Longrightarrow> decideInboundControl (rsGet S st u v) c = Inr (change, out) \<Longrightarrow>
    rel_run C S e st (Changing u v change # calls) (log @ [Arrived u v c])"
| changes: "rel_run C S e st calls log \<Longrightarrow> Changing u v change \<in> set calls \<Longrightarrow>
    rel_run C S e (writeRecord S u v change st) (remove1 (Changing u v change) calls) log"
| forgotten: "rel_run C S e st calls log \<Longrightarrow> rel_run C S e (forgetOnFailure S st u v) calls log"
| ends: "rel_run C S e st calls log \<Longrightarrow> rel_run C S e st (remove1 call calls) log"

text \<open>The operations, run from their first part to their last, are such runs; \<open>ensureRelationship\<close> with whatever the other
  writers did meanwhile.\<close>

lemma ensure_is_run:
  assumes "rel_run C S e st [] log"
    and "\<And>s calls gs. rel_run C S e s calls gs \<Longrightarrow> \<exists>more. rel_run C S e (envMeanwhile env s) calls (gs @ more)"
    and "ensureRelationship C S holder vta env st = Inr (st', out)"
  shows "\<exists>log'. rel_run C S e st' [] log'"
proof (cases "beginHandshake C holder vta (envEph env) (envNonce env) (rsGet S st (holderVid holder) (remoteVid vta))")
  case (Inl o')
  with assms(1,3) show ?thesis by (auto simp: ensureRelationship_def)
next
  case (Inr pi)
  obtain pending invite where pi: "pi = (pending, invite)" by fastforce
  from assms(2) [OF records [OF begins [OF assms(1) Inr [unfolded pi]], of holder vta pending invite]] obtain more where
    "rel_run C S e (envMeanwhile env (recordPending S holder vta pending invite st)) [Waiting holder vta pending invite]
       ((log @ [Began holder vta (envEph env) (envNonce env)]) @ more)" by auto
  from concludes [OF this, of holder vta pending invite "envOffered env" "envFailure env" st' out] assms(3) Inr pi show ?thesis
    by (auto simp: ensureRelationship_def)
qed

lemma apply_is_run:
  assumes "rel_run C S e st calls log" and "applyInboundControl S st u v c = Inr (st', out)"
  shows "rel_run C S e st' calls (log @ [Arrived u v c])"
proof -
  from assms(2) obtain change where d: "decideInboundControl (rsGet S st u v) c = Inr (change, out)" "st' = writeRecord S u v change st"
    by (auto simp: applyInboundControl_def bindE_Inr)
  from changes [OF arrives [OF assms(1) d(1)], of u v change] d(2) show ?thesis by simp
qed

text \<open>What the log says of a digest: the invite that has it, and the accept that answers it.\<close>

definition invitedFor :: "crypto \<Rightarrow> relEvent list \<Rightarrow> jsstr \<Rightarrow> jsstr \<Rightarrow> bytes \<Rightarrow> bool" where
  "invitedFor C log u v d \<longleftrightarrow> (\<exists>holder vta eph freshNonce invite. Began holder vta eph freshNonce \<in> set log \<and>
     holderVid holder = u \<and> remoteVid vta = v \<and>
     packInvite C eph freshNonce u v \<lparr>senderSigningSk = holderSigningSk holder, receiverEncryptionPk = remoteEncryptionPk vta\<rparr>
       None None None = Inr invite \<and> packedThread invite = d)"

definition answeredFor :: "crypto \<Rightarrow> relEvent list \<Rightarrow> jsstr \<Rightarrow> jsstr \<Rightarrow> bytes \<Rightarrow> bool" where
  "answeredFor C log u v d \<longleftrightarrow>
     (\<exists>holder vta frames f m c. Offered holder vta frames \<in> set log \<and> holderVid holder = u \<and> remoteVid vta = v \<and> f \<in> set frames \<and>
        unpack C f \<lparr>receiverDecryptionSk = holderEncryptionSk holder, senderSigningPk = remoteSigningPk vta\<rparr> = Inr m \<and>
        msgSender m = v \<and> msgControl m = Some c \<and> controlType c = Accept \<and> inReplyTo c = Some d) \<or>
     (\<exists>c. Arrived u v c \<in> set log \<and> controlType c = Accept \<and> inReplyTo c = Some d)"

definition recordOk :: "crypto \<Rightarrow> relEvent list \<Rightarrow> jsstr \<Rightarrow> jsstr \<Rightarrow> relationshipRecord \<Rightarrow> bool" where
  "recordOk C log u v r \<longleftrightarrow> (\<exists>d. relOurDigest r = Some (toHex d) \<and> invitedFor C log u v d \<and>
     (relState r = RelPending \<or> relState r = RelBidirectional \<and> answeredFor C log u v d))"

fun relCallOk :: "crypto \<Rightarrow> relEvent list \<Rightarrow> relCall \<Rightarrow> bool" where
  "relCallOk C log (Inviting holder vta pending invite) \<longleftrightarrow>
     pending = RelPending \<and> invitedFor C log (holderVid holder) (remoteVid vta) (packedThread invite)"
| "relCallOk C log (Waiting holder vta pending invite) \<longleftrightarrow>
     pending = RelPending \<and> invitedFor C log (holderVid holder) (remoteVid vta) (packedThread invite)"
| "relCallOk C log (Changing u v change) \<longleftrightarrow> (case change of Some (Some r) \<Rightarrow> recordOk C log u v r | _ \<Rightarrow> True)"

lemma invited_more: "invitedFor C log u v d \<Longrightarrow> invitedFor C (log @ l) u v d"
  unfolding invitedFor_def set_append by blast

lemma answered_more: "answeredFor C log u v d \<Longrightarrow> answeredFor C (log @ l) u v d"
  unfolding answeredFor_def set_append by blast

lemma record_more: "recordOk C log u v r \<Longrightarrow> recordOk C (log @ l) u v r"
  unfolding recordOk_def using invited_more answered_more by blast

lemma relCall_more: "relCallOk C log c \<Longrightarrow> relCallOk C (log @ l) c"
  by (cases c) (auto intro: invited_more record_more split: option.splits)

lemma relCalls_more: "list_all (relCallOk C log) calls \<Longrightarrow> list_all (relCallOk C (log @ l)) calls"
  by (auto simp: list_all_iff intro: relCall_more)

lemma relCalls_remove1: "list_all P calls \<Longrightarrow> list_all P (remove1 c calls)"
  using set_remove1_subset [of c calls] by (auto simp: list_all_iff)

lemma invite_pending: "transition s SendInvite = Inr p \<Longrightarrow> p = RelPending"
  by (cases s) (simp_all add: transition_def)

lemma began_ok:
  assumes "beginHandshake C holder vta eph freshNonce existing = Inr (pending, invite)"
  shows "pending = RelPending \<and> invitedFor C (log @ [Began holder vta eph freshNonce]) (holderVid holder) (remoteVid vta) (packedThread invite)"
proof -
  from assms invite_pending have "pending = RelPending" and p: "packInvite C eph freshNonce (holderVid holder) (remoteVid vta)
      \<lparr>senderSigningSk = holderSigningSk holder, receiverEncryptionPk = remoteEncryptionPk vta\<rparr> None None None = Inr invite"
    by (auto simp: beginHandshake_def Let_def split: if_splits sum.splits)
  moreover have "invitedFor C (log @ [Began holder vta eph freshNonce]) (holderVid holder) (remoteVid vta) (packedThread invite)"
    unfolding invitedFor_def using p by (metis in_set_conv_decomp)
  ultimately show ?thesis by blast
qed

text \<open>A change that is decided on a good record leaves a good record.\<close>

lemma decided_ok:
  assumes "decideInboundControl rec c = Inr (change, out)" and "\<And>r. rec = Some r \<Longrightarrow> recordOk C log u v r" and "change = Some (Some r')"
  shows "recordOk C (log @ [Arrived u v c]) u v r'"
proof -
  let ?state = "case rec of Some r \<Rightarrow> relState r | None \<Rightarrow> RelNone"
  from assms(1,3) have a: "controlType c = Accept" "resolveAccept ?state (inReplyTo c) (fromHex (Option.bind rec relOurDigest)) = AcceptAdopt"
    by (auto simp: decideInboundControl_def Let_def split: controlType.splits acceptOutcome.splits cancelOutcome.splits)
  then obtain r d where r: "rec = Some r" "relState r = RelPending" "fromHex (relOurDigest r) = Some d" "inReplyTo c = Some d"
    by (cases rec) (auto simp: resolveAccept_adopt)
  have "resolveAccept (relState r) (inReplyTo c) (fromHex (relOurDigest r)) = AcceptAdopt" using a(2) r(1) by simp
  moreover have "transition RelPending ReceiveAccept = Inr RelBidirectional" by (simp add: transition_def)
  ultimately have "decideInboundControl rec c = Inr (Some (Some \<lparr>relState = RelBidirectional, relOurDigest = relOurDigest r,
      relTheirDigest = (case ownDigest c of Some d \<Rightarrow> Some (toHex d) | None \<Rightarrow> relTheirDigest r)\<rparr>), Adopted)"
    unfolding decideInboundControl_def Let_def r(1) using a(1) r(2) by (simp split: option.split)
  with assms(1,3) have r': "relState r' = RelBidirectional" "relOurDigest r' = relOurDigest r" by auto
  from assms(2) [OF r(1)] obtain d' where d': "relOurDigest r = Some (toHex d')" "invitedFor C log u v d'" by (auto simp: recordOk_def)
  with r(3) have "d' = d" by simp
  moreover have "answeredFor C (log @ [Arrived u v c]) u v d" unfolding answeredFor_def using a(1) r(4) by auto
  ultimately show ?thesis unfolding recordOk_def using r' d' invited_more [OF d'(2)] by metis
qed

context rel_store
begin

text \<open>The invariant of every run.\<close>

abbreviation runOk :: "crypto \<Rightarrow> 's \<Rightarrow> relCall list \<Rightarrow> relEvent list \<Rightarrow> bool" where
  "runOk C st calls log \<equiv> (\<forall>u v r. rsGet S st u v = Some r \<longrightarrow> recordOk C log u v r) \<and> list_all (relCallOk C log) calls"

lemma concluded_ok:
  assumes "concludeHandshake C S holder vta RelPending invite frames failure st = Inr (st', outcome)"
    and "invitedFor C log (holderVid holder) (remoteVid vta) (packedThread invite)" and "\<And>u v r. rsGet S st u v = Some r \<Longrightarrow> recordOk C log u v r"
    and "rsGet S st' u v = Some r"
  shows "recordOk C (log @ [Offered holder vta frames]) u v r"
proof (cases "\<exists>f \<in> set frames. acceptClaims C holder vta RelPending (packedThread invite) f = None")
  case False
  then have "\<not> fst (awaitReply (acceptClaims C holder vta RelPending (packedThread invite)) frames None)" by (simp only: awaitReply_claimed simp_thms)
  with assms(1) have "st' = st" by (auto simp: concludeHandshake_def split: prod.splits)
  with assms(3,4) show ?thesis by (auto intro: record_more)
next
  case True
  then obtain f m c where f: "f \<in> set frames" "unpack C f \<lparr>receiverDecryptionSk = holderEncryptionSk holder, senderSigningPk = remoteSigningPk vta\<rparr> = Inr m"
    "msgSender m = remoteVid vta" "msgControl m = Some c" "controlType c = Accept" "inReplyTo c = Some (packedThread invite)"
    unfolding acceptClaims_iff by blast
  from True have "fst (awaitReply (acceptClaims C holder vta RelPending (packedThread invite)) frames None)" by (simp only: awaitReply_claimed)
  with assms(1) have st': "st' = rsSet S st (holderVid holder) (remoteVid vta)
      \<lparr>relState = RelBidirectional, relOurDigest = Some (toHex (packedThread invite)), relTheirDigest = None\<rparr>"
    by (auto simp: concludeHandshake_def transition_def split: prod.splits)
  show ?thesis
  proof (cases "u = holderVid holder \<and> v = remoteVid vta")
    case True
    have u: "u = holderVid holder" "v = remoteVid vta" using True by auto
    have "Offered holder vta frames \<in> set (log @ [Offered holder vta frames])" by simp
    then have "answeredFor C (log @ [Offered holder vta frames]) u v (packedThread invite)"
      unfolding answeredFor_def u using f by blast
    with assms(2,4) True st' show ?thesis by (auto simp: recordOk_def get_set intro: invited_more)
  next
    case False
    with assms(3,4) st' show ?thesis by (auto simp: get_set intro: record_more split: if_splits)
  qed
qed

lemma run_ok: "rel_run C S empty st calls log \<Longrightarrow> runOk C st calls log"
proof (induction rule: rel_run.induct)
  case start
  then show ?case by (simp add: get_empty)
next
  case (begins st calls log holder vta eph freshNonce pending invite)
  from began_ok [OF begins.hyps(2)] begins.IH show ?case by (auto intro: record_more relCalls_more)
next
  case (records st calls log holder vta pending invite)
  then have p: "pending = RelPending" "invitedFor C log (holderVid holder) (remoteVid vta) (packedThread invite)" by (auto simp: list_all_iff)
  with records.IH show ?case by (auto simp: recordPending_def get_set recordOk_def relCalls_remove1 split: if_splits)
next
  case (concludes st calls log holder vta pending invite frames failure st' outcome)
  then have p: "pending = RelPending" "invitedFor C log (holderVid holder) (remoteVid vta) (packedThread invite)" by (auto simp: list_all_iff)
  from concluded_ok [OF concludes.hyps(3) [unfolded p(1)] p(2)] concludes.IH show ?case by (auto intro: relCalls_remove1 relCalls_more)
next
  case (arrives st calls log u v c change out)
  then have "relCallOk C (log @ [Arrived u v c]) (Changing u v change)" using decided_ok [OF arrives.hyps(2)] by (auto split: option.split)
  with arrives.IH show ?case by (auto intro: record_more relCalls_more)
next
  case (changes st calls log u v change)
  then have "relCallOk C log (Changing u v change)" by (auto simp: list_all_iff)
  with changes.IH show ?case
    by (auto simp: writeRecord_def get_set get_clear intro: relCalls_remove1 split: option.splits if_splits)
next
  case (forgotten st calls log u v)
  then show ?case by (auto simp: forgetOnFailure_def get_clear split: if_splits)
next
  case (ends st calls log call)
  then show ?case by (auto intro: relCalls_remove1)
qed

end

subsection \<open>Samples\<close>

definition sampleHolder :: holderIdentity where
  "sampleHolder = holderOf sampleA (sampleKey 2) (sampleKey 3)"

definition sampleRemote :: remoteEndpoint where
  "sampleRemote = remoteOf sampleCrypto sampleB (sampleKey 4) (sampleKey 5)"

lemma sample_established:
  "\<exists>env st' h. ensureRelationship sampleCrypto memoryRelationshipStore sampleHolder sampleRemote env [] =
     Inr (st', Established h) \<and> envMeanwhile env = id"
proof (rule memRel.handshake_completes [OF sampleKey_exchange sampleKey_exchange sampleVids(1,2) _ memRel.get_empty,
      of "replicate 16 9" 1 2 5 6 4 3])
  fix invite m accept
  let ?env = "\<lparr>envEph = sampleKey 1, envNonce = replicate 16 9, envOffered = [packedBytes accept],
    envFailure = [], envMeanwhile = id\<rparr>"
  assume h: "\<And>env. envEph env = sampleKey 1 \<Longrightarrow> envNonce env = replicate 16 9 \<Longrightarrow>
       packedBytes accept \<in> set (envOffered env) \<Longrightarrow>
       \<exists>st'. ensureRelationship sampleCrypto memoryRelationshipStore
           (holderOf sampleA (sampleKey 2) (sampleKey 3)) (remoteOf sampleCrypto sampleB (sampleKey 4) (sampleKey 5))
           env [] = Inr (st', Established (toHex (packedThread invite))) \<and>
         rsGet memoryRelationshipStore st' sampleA sampleB = Some \<lparr>relState = RelBidirectional,
           relOurDigest = Some (toHex (packedThread invite)), relTheirDigest = None\<rparr>"
  from h [of ?env] show ?thesis unfolding sampleHolder_def sampleRemote_def by (intro exI [of _ ?env]) auto
qed simp

definition pendingSample :: relationshipRecord where
  "pendingSample = \<lparr>relState = RelPending, relOurDigest = Some (toHex [1, 2, 3]), relTheirDigest = None\<rparr>"

definition controlSample :: "controlType \<Rightarrow> bytes option \<Rightarrow> controlMessage" where
  "controlSample ct d = \<lparr>controlType = ct, ownDigest = Some [9], inReplyTo = d, inviteNonce = None,
     replyRoute = [], inviteReferral = None\<rparr>"

subsection \<open>Properties\<close>

text \<open>C3: A handshake completes end to end: the remote opens the invite the wallet packs, answers the thread it
  read with \<open>packAccept\<close>, and once that answer is among the frames the wallet is offered, whatever else
  is offered and whatever other code does to the store meanwhile, \<open>ensureRelationship\<close> returns
  established and records the pair as bidirectional under the digest of its invite.\<close>

theorem two_party_handshake:
  assumes "exchangeOk C eph ssk rsk'" and "exchangeOk C eph' ssk' rsk"
    and "vidShort u" and "vidShort v" and "length nonce = 16"
    and "rsGet memoryRelationshipStore st u v = None"
  shows "\<exists>invite m accept.
    packInvite C eph nonce u v (packKeysFor C ssk rsk') None None None = Inr invite \<and>
    unpack C (packedBytes invite) (unpackKeysFor C ssk rsk') = Inr m \<and>
    packAccept C eph' (msgThread m) v u (packKeysFor C ssk' rsk) None = Inr accept \<and>
    (\<forall>env. envEph env = eph \<longrightarrow> envNonce env = nonce \<longrightarrow> packedBytes accept \<in> set (envOffered env) \<longrightarrow>
       (\<exists>st'. ensureRelationship C memoryRelationshipStore (holderOf u ssk rsk) (remoteOf C v ssk' rsk') env st =
         Inr (st', Established (toHex (packedThread invite))) \<and>
         rsGet memoryRelationshipStore st' u v = Some \<lparr>relState = RelBidirectional,
           relOurDigest = Some (toHex (packedThread invite)), relTheirDigest = None\<rparr>))"
  using memRel.handshake_completes [OF assms] by metis

theorem two_party_handshake_witness:
  "\<exists>invite m accept.
    packInvite sampleCrypto (sampleKey 1) (replicate 16 9) sampleA sampleB
      (packKeysFor sampleCrypto (sampleKey 2) (sampleKey 5)) None None None = Inr invite \<and>
    unpack sampleCrypto (packedBytes invite) (unpackKeysFor sampleCrypto (sampleKey 2) (sampleKey 5)) = Inr m \<and>
    packAccept sampleCrypto (sampleKey 6) (msgThread m) sampleB sampleA
      (packKeysFor sampleCrypto (sampleKey 4) (sampleKey 3)) None = Inr accept \<and>
    (\<forall>env. envEph env = sampleKey 1 \<longrightarrow> envNonce env = replicate 16 9 \<longrightarrow> packedBytes accept \<in> set (envOffered env) \<longrightarrow>
       (\<exists>st'. ensureRelationship sampleCrypto memoryRelationshipStore
           (holderOf sampleA (sampleKey 2) (sampleKey 3)) (remoteOf sampleCrypto sampleB (sampleKey 4) (sampleKey 5)) env [] =
         Inr (st', Established (toHex (packedThread invite))) \<and>
         rsGet memoryRelationshipStore st' sampleA sampleB = Some \<lparr>relState = RelBidirectional,
           relOurDigest = Some (toHex (packedThread invite)), relTheirDigest = None\<rparr>))"
  by (rule two_party_handshake [OF sampleKey_exchange sampleKey_exchange sampleVids(1,2) length_replicate
        memRel.get_empty])

text \<open>\<open>ensureRelationship\<close> never throws, and what it leaves in the store fits what it reports: an
  existing relationship or a refusal leaves the store as it was, a handshake that was not answered
  leaves what other code made of the pending record, and an established one leaves the pair
  bidirectional under the digest that is reported.\<close>

theorem ensure_outcomes:
  "\<exists>st' out. ensureRelationship C memoryRelationshipStore holder vta env st = Inr (st', out) \<and>
    (case out of
       AlreadyEstablished \<Rightarrow> st' = st \<and>
         (\<exists>r. rsGet memoryRelationshipStore st (holderVid holder) (remoteVid vta) = Some r \<and> relState r = RelBidirectional)
     | Refused why \<Rightarrow> st' = st
     | NotAnswered why \<Rightarrow> (\<exists>d. st' = envMeanwhile env (rsSet memoryRelationshipStore st (holderVid holder) (remoteVid vta)
         \<lparr>relState = RelPending, relOurDigest = Some (toHex d), relTheirDigest = None\<rparr>))
     | Established h \<Rightarrow> rsGet memoryRelationshipStore st' (holderVid holder) (remoteVid vta) =
         Some \<lparr>relState = RelBidirectional, relOurDigest = Some h, relTheirDigest = None\<rparr>)"
proof -
  obtain res where e: "ensureRelationship C memoryRelationshipStore holder vta env st = res" by blast
  show ?thesis
    by (cases rule: ensure_cases [OF e]) (auto simp: e memRel.get_set split: if_splits)
qed

text \<open>A relationship is reported as established only on the remote's word: among the frames offered
  there is one that opens under the wallet's key and the remote's signature key, was sealed by the
  remote, and is an accept that answers the digest of the very invite this call packed.\<close>

theorem established_answers_our_invite:
  assumes "ensureRelationship C memoryRelationshipStore holder vta env st = Inr (st', Established h)"
  shows "\<exists>invite f m c. packInvite C (envEph env) (envNonce env) (holderVid holder) (remoteVid vta)
       \<lparr>senderSigningSk = holderSigningSk holder, receiverEncryptionPk = remoteEncryptionPk vta\<rparr>
       None None None = Inr invite \<and>
    h = toHex (packedThread invite) \<and> f \<in> set (envOffered env) \<and>
    unpack C f \<lparr>receiverDecryptionSk = holderEncryptionSk holder, senderSigningPk = remoteSigningPk vta\<rparr> = Inr m \<and>
    msgSender m = remoteVid vta \<and> msgControl m = Some c \<and> controlType c = Accept \<and>
    inReplyTo c = Some (packedThread invite)"
  using memRel.ensure_established [OF assms] by metis

theorem established_answers_our_invite_witness:
  "\<exists>(env :: memRel handshakeEnv) f m. f \<in> set (envOffered env) \<and>
    unpack sampleCrypto f \<lparr>receiverDecryptionSk = holderEncryptionSk sampleHolder,
      senderSigningPk = remoteSigningPk sampleRemote\<rparr> = Inr m \<and> msgSender m = remoteVid sampleRemote"
proof -
  obtain env st' h where
    "ensureRelationship sampleCrypto memoryRelationshipStore sampleHolder sampleRemote env [] = Inr (st', Established h)"
    using sample_established by blast
  from established_answers_our_invite [OF this] show ?thesis by blast
qed

text \<open>C28: In every store that handshakes, inbound control messages and forgotten records can produce, with the parts of their
  calls in any order, a record is pending or bidirectional and carries the digest of an invite that a handshake packed for that very peer;
  and a bidirectional one was answered: by an accept for that digest, among the frames a handshake of the pair was offered, that opens
  under the holder's key and the peer's signature key and was sealed by the peer, or by an inbound accept of the pair for that digest.\<close>

theorem reachable_records:
  assumes "rel_run C memoryRelationshipStore [] st calls log" and "rsGet memoryRelationshipStore st u v = Some r"
  shows "\<exists>d. relOurDigest r = Some (toHex d) \<and> invitedFor C log u v d \<and>
    (relState r = RelPending \<or> relState r = RelBidirectional \<and> answeredFor C log u v d)"
  using memRel.run_ok [OF assms(1)] assms(2) unfolding recordOk_def by blast

theorem reachable_records_witness:
  "\<exists>st log r d. rel_run sampleCrypto memoryRelationshipStore [] st [] log \<and>
    rsGet memoryRelationshipStore st sampleA sampleB = Some r \<and> relState r = RelBidirectional \<and>
    relOurDigest r = Some (toHex d) \<and> answeredFor sampleCrypto log sampleA sampleB d"
proof -
  obtain env st' h where e:
    "ensureRelationship sampleCrypto memoryRelationshipStore sampleHolder sampleRemote env [] = Inr (st', Established h)" "envMeanwhile env = id"
    using sample_established by blast
  have v: "holderVid sampleHolder = sampleA" "remoteVid sampleRemote = sampleB"
    by (simp_all add: sampleHolder_def sampleRemote_def holderOf_def remoteOf_def)
  have "\<exists>more. rel_run sampleCrypto memoryRelationshipStore [] (envMeanwhile env s) calls (gs @ more)"
    if "rel_run sampleCrypto memoryRelationshipStore [] s calls gs" for s calls gs
    using that e(2) by (intro exI [of _ "[]"]) simp
  from ensure_is_run [OF rel_run.start this e(1)] obtain log where run: "rel_run sampleCrypto memoryRelationshipStore [] st' [] log" by blast
  from memRel.ensure_established [OF e(1)] obtain r where r: "rsGet memoryRelationshipStore st' sampleA sampleB = Some r" "relState r = RelBidirectional"
    unfolding v by (metis relationshipRecord.select_convs(1))
  from reachable_records [OF run r(1)] r run show ?thesis by auto
qed

text \<open>An inbound accept is adopted exactly when the record of the pair is pending and the accept echoes the
  digest of the invite recorded there; then the record becomes bidirectional, keeps the digest of our
  invite and takes over the digest of the accept.\<close>

theorem inbound_accept:
  assumes "controlType c = Accept"
  shows "(\<exists>st'. applyInboundControl memoryRelationshipStore st u v c = Inr (st', Adopted) \<and>
      (\<exists>r. rsGet memoryRelationshipStore st u v = Some r \<and>
        rsGet memoryRelationshipStore st' u v = Some \<lparr>relState = RelBidirectional, relOurDigest = relOurDigest r,
          relTheirDigest = (case ownDigest c of Some d \<Rightarrow> Some (toHex d) | None \<Rightarrow> relTheirDigest r)\<rparr>)) \<longleftrightarrow>
    (\<exists>r d. rsGet memoryRelationshipStore st u v = Some r \<and> relState r = RelPending \<and>
       fromHex (relOurDigest r) = Some d \<and> inReplyTo c = Some d)"
  using memRel.apply_accept [OF assms] memRel.apply_accept_record [OF assms] by metis

theorem inbound_accept_witness:
  "\<exists>st'. applyInboundControl memoryRelationshipStore
     (rsSet memoryRelationshipStore [] sampleA sampleB pendingSample) sampleA sampleB
     (controlSample Accept (Some [1, 2, 3])) = Inr (st', Adopted)"
proof -
  have a: "controlType (controlSample Accept (Some [1, 2, 3])) = Accept" by (simp add: controlSample_def)
  have "\<exists>r d. rsGet memoryRelationshipStore (rsSet memoryRelationshipStore [] sampleA sampleB pendingSample)
      sampleA sampleB = Some r \<and> relState r = RelPending \<and> fromHex (relOurDigest r) = Some d \<and>
      inReplyTo (controlSample Accept (Some [1, 2, 3])) = Some d"
    by (simp add: memRel.get_set pendingSample_def controlSample_def)
  with inbound_accept [OF a] show ?thesis by blast
qed

text \<open>An inbound cancellation that names a digest the record holds removes the record, and asks for an
  answer exactly when the relationship was complete; one that names any other digest changes nothing
  and is not answered.\<close>

theorem inbound_cancel:
  assumes "controlType c = Cancel" and "inReplyTo c = Some d"
    and "rsGet memoryRelationshipStore st u v = Some r" and "relState r \<noteq> RelNone"
  shows "if d \<in> set (List.map_filter id (map fromHex [relOurDigest r, relTheirDigest r]))
    then applyInboundControl memoryRelationshipStore st u v c =
      Inr (rsClear memoryRelationshipStore st u v, Removed (relState r = RelBidirectional))
    else (\<exists>why. applyInboundControl memoryRelationshipStore st u v c = Inr (st, Ignored why))"
  using memRel.apply_cancel [OF assms] memRel.apply_cancel_unknown [OF assms(1-3)] by simp

theorem inbound_cancel_witness:
  "applyInboundControl memoryRelationshipStore
     (rsSet memoryRelationshipStore [] sampleA sampleB pendingSample) sampleA sampleB
     (controlSample Cancel (Some [1, 2, 3])) =
   Inr (rsClear memoryRelationshipStore (rsSet memoryRelationshipStore [] sampleA sampleB pendingSample)
     sampleA sampleB, Removed False)"
proof -
  have a: "controlType (controlSample Cancel (Some [1, 2, 3])) = Cancel"
    "inReplyTo (controlSample Cancel (Some [1, 2, 3])) = Some [1, 2, 3]" by (simp_all add: controlSample_def)
  have g: "rsGet memoryRelationshipStore (rsSet memoryRelationshipStore [] sampleA sampleB pendingSample)
      sampleA sampleB = Some pendingSample" by (simp add: memRel.get_set)
  have "relState pendingSample \<noteq> RelNone" by (simp add: pendingSample_def)
  from inbound_cancel [OF a g this] show ?thesis by (simp add: pendingSample_def map_filter_simps)
qed

text \<open>Every inbound control message has an outcome and no exception escapes; whatever it is, the records of
  all other pairs of identifiers stay as they were, and when it is ignored the whole store does.\<close>

theorem inbound_frame:
  "\<exists>st' out. applyInboundControl memoryRelationshipStore st u v c = Inr (st', out) \<and>
    (\<forall>u' v'. (u', v') = (u, v) \<or> rsGet memoryRelationshipStore st' u' v' = rsGet memoryRelationshipStore st u' v') \<and>
    (case out of Ignored why \<Rightarrow> st' = st | _ \<Rightarrow> True)"
proof -
  obtain st' out where e: "applyInboundControl memoryRelationshipStore st u v c = Inr (st', out)"
    using memRel.apply_total by blast
  have "case out of Ignored why \<Rightarrow> st' = st | _ \<Rightarrow> True"
    using memRel.apply_frame(2) [OF e] by (cases out) auto
  with e memRel.apply_frame(1) [OF e] show ?thesis by blast
qed

text \<open>A record that \<open>ensureRelationship\<close> has just completed does not know the remote's half: the digest of
  the accept was not stored, so a cancellation that names the relationship by any digest but that of
  our own invite is ignored and the record stays bidirectional.\<close>

theorem established_forgets_their_digest:
  assumes "ensureRelationship C memoryRelationshipStore holder vta env st = Inr (st', Established h)"
    and "controlType c = Cancel" and "inReplyTo c = Some d" and "toHex d \<noteq> h"
  shows "\<exists>why. applyInboundControl memoryRelationshipStore st' (holderVid holder) (remoteVid vta) c =
    Inr (st', Ignored why)"
proof -
  from memRel.ensure_established [OF assms(1)] obtain i where i: "h = toHex i"
      "rsGet memoryRelationshipStore st' (holderVid holder) (remoteVid vta) =
        Some \<lparr>relState = RelBidirectional, relOurDigest = Some h, relTheirDigest = None\<rparr>" by metis
  show ?thesis
    by (rule memRel.apply_cancel_unknown [OF assms(2,3) i(2)])
      (use assms(4) i(1) in \<open>simp add: map_filter_simps fromHex_def [of None]\<close>)
qed

theorem established_forgets_their_digest_witness:
  "\<exists>st' d why. rsGet memoryRelationshipStore st' sampleA sampleB \<noteq> None \<and>
     applyInboundControl memoryRelationshipStore st' sampleA sampleB (controlSample Cancel (Some d)) =
       Inr (st', Ignored why)"
proof -
  obtain env st' h where e:
    "ensureRelationship sampleCrypto memoryRelationshipStore sampleHolder sampleRemote env [] = Inr (st', Established h)"
    using sample_established by blast
  have v: "holderVid sampleHolder = sampleA" "remoteVid sampleRemote = sampleB"
    by (simp_all add: sampleHolder_def sampleRemote_def holderOf_def remoteOf_def)
  have c: "controlType (controlSample Cancel (Some d)) = Cancel"
    "inReplyTo (controlSample Cancel (Some d)) = Some d" for d by (simp_all add: controlSample_def)
  obtain d where "toHex d \<noteq> h" by (metis toHex_eq list.distinct(1))
  from established_forgets_their_digest [OF e c this] v memRel.ensure_established [OF e]
  show ?thesis by (metis option.distinct(1))
qed

end
