(* ===== verification/Js_Strings.thy ===== *)
theory Js_Strings
  imports Js_Text
begin

text \<open>
  The string operations of the language that the components below use, on strings as lists of
  UTF-16 code units: prefixes and suffixes, \<open>split\<close> and \<open>join\<close> on one code unit, \<open>indexOf\<close>,
  \<open>trim\<close>, decimal and hexadecimal digits, and \<open>Number.parseInt\<close> in base ten.
\<close>

subsection \<open>Prefixes and suffixes\<close>

definition startsWith :: "'a list \<Rightarrow> 'a list \<Rightarrow> bool" where
  "startsWith k p \<longleftrightarrow> take (length p) k = p"

definition endsWith :: "'a list \<Rightarrow> 'a list \<Rightarrow> bool" where
  "endsWith s t \<longleftrightarrow> length t \<le> length s \<and> drop (length s - length t) s = t"

lemma startsWith_iff: "startsWith k p \<longleftrightarrow> (\<exists>r. k = p @ r)"
  by (metis append_eq_conv_conj append_take_drop_id startsWith_def)

lemma endsWith_iff: "endsWith s t \<longleftrightarrow> (\<exists>r. s = r @ t)"
proof
  assume "endsWith s t"
  then have "s = take (length s - length t) s @ t" by (simp add: endsWith_def)
       (metis append_take_drop_id)
  then show "\<exists>r. s = r @ t" by blast
qed (auto simp: endsWith_def)

subsection \<open>Splitting and joining\<close>

fun splitOn :: "'a \<Rightarrow> 'a list \<Rightarrow> 'a list list" where
  "splitOn c [] = [[]]"
| "splitOn c (x # xs) =
     (if x = c then [] # splitOn c xs
      else case splitOn c xs of [] \<Rightarrow> [[x]] | p # ps \<Rightarrow> (x # p) # ps)"

fun joinWith :: "'a list \<Rightarrow> 'a list list \<Rightarrow> 'a list" where
  "joinWith sep [] = []"
| "joinWith sep [p] = p"
| "joinWith sep (p # q # ps) = p @ sep @ joinWith sep (q # ps)"

lemma splitOn_ne: "splitOn c s \<noteq> []"
  by (induction s) (auto split: list.splits)

lemma splitOn_plain: "c \<notin> set s \<Longrightarrow> splitOn c s = [s]"
  by (induction s) auto

lemma splitOn_append: "c \<notin> set p \<Longrightarrow> splitOn c (p @ c # s) = p # splitOn c s"
  by (induction p) auto

lemma splitOn_pieces: "p \<in> set (splitOn c s) \<Longrightarrow> c \<notin> set p"
  by (induction s arbitrary: p) (auto split: if_splits list.splits)

lemma joinWith_Cons: "ps \<noteq> [] \<Longrightarrow> joinWith sep (p # ps) = p @ sep @ joinWith sep ps"
  by (cases ps) auto

lemma join_splitOn: "joinWith [c] (splitOn c s) = s"
proof (induction s)
  case (Cons x xs)
  obtain p ps where s: "splitOn c xs = p # ps" using splitOn_ne [of c xs] by (cases "splitOn c xs") auto
  have "joinWith [c] ((x # p) # ps) = x # joinWith [c] (p # ps)" by (cases ps) auto
  with Cons s show ?case by (simp add: joinWith_Cons)
qed simp

lemma splitOn_join:
  "ps \<noteq> [] \<Longrightarrow> (\<And>p. p \<in> set ps \<Longrightarrow> c \<notin> set p) \<Longrightarrow> splitOn c (joinWith [c] ps) = ps"
proof (induction ps)
  case (Cons p ps)
  show ?case
  proof (cases ps)
    case Nil
    with Cons.prems show ?thesis by (simp add: splitOn_plain)
  next
    case (Cons q qs)
    with Cons.prems Cons.IH show ?thesis by (simp add: joinWith_Cons splitOn_append)
  qed
qed simp

lemma splitOn_iff:
  "splitOn c s = ps \<longleftrightarrow> ps \<noteq> [] \<and> (\<forall>p \<in> set ps. c \<notin> set p) \<and> s = joinWith [c] ps"
  using splitOn_ne splitOn_pieces join_splitOn splitOn_join by metis

fun indexOf :: "'a \<Rightarrow> 'a list \<Rightarrow> nat option" where
  "indexOf c [] = None"
| "indexOf c (x # xs) = (if x = c then Some 0 else map_option Suc (indexOf c xs))"

lemma indexOf_Some: "indexOf c s = Some i \<Longrightarrow> i < length s \<and> s = take i s @ c # drop (Suc i) s \<and> c \<notin> set (take i s)"
  by (induction s arbitrary: i) (auto split: if_splits)

lemma indexOf_None: "indexOf c s = None \<longleftrightarrow> c \<notin> set s"
  by (induction s) auto

subsection \<open>White space\<close>

text \<open>What \<open>trim\<close> and \<open>\s\<close> take for white space.\<close>

definition isJsSpace :: "16 word \<Rightarrow> bool" where
  "isJsSpace u \<longleftrightarrow> (let n = unat u in
     (9 \<le> n \<and> n \<le> 13) \<or> n = 0x20 \<or> n = 0xA0 \<or> n = 0x1680 \<or> (0x2000 \<le> n \<and> n \<le> 0x200A) \<or>
     n = 0x2028 \<or> n = 0x2029 \<or> n = 0x202F \<or> n = 0x205F \<or> n = 0x3000 \<or> n = 0xFEFF)"

definition trimStart :: "jsstr \<Rightarrow> jsstr" where "trimStart s = dropWhile isJsSpace s"
definition trimEnd :: "jsstr \<Rightarrow> jsstr" where "trimEnd s = rev (dropWhile isJsSpace (rev s))"
definition trim :: "jsstr \<Rightarrow> jsstr" where "trim s = trimEnd (trimStart s)"

subsection \<open>Letters and digits\<close>

definition isDigit :: "16 word \<Rightarrow> bool" where
  "isDigit u \<longleftrightarrow> 48 \<le> unat u \<and> unat u \<le> 57"

definition isHexDigit :: "16 word \<Rightarrow> bool" where
  "isHexDigit u \<longleftrightarrow> isDigit u \<or> (65 \<le> unat u \<and> unat u \<le> 70) \<or> (97 \<le> unat u \<and> unat u \<le> 102)"

definition digitVal :: "16 word \<Rightarrow> nat" where "digitVal u = unat u - 48"

definition hexDigitVal :: "16 word \<Rightarrow> nat" where
  "hexDigitVal u = (let n = unat u in if n \<le> 57 then n - 48 else if n \<le> 70 then n - 55 else n - 87)"

text \<open>\<open>toLowerCase\<close> on ASCII; the strings it is used on here are ASCII.\<close>

definition asciiLower :: "jsstr \<Rightarrow> jsstr" where
  "asciiLower s = map (\<lambda>u. if 65 \<le> unat u \<and> unat u \<le> 90 then u + 32 else u) s"

definition ofDigits :: "jsstr \<Rightarrow> nat" where
  "ofDigits ds = foldl (\<lambda>n u. n * 10 + digitVal u) 0 ds"

definition ofHexDigits :: "jsstr \<Rightarrow> nat" where
  "ofHexDigits ds = foldl (\<lambda>n u. n * 16 + hexDigitVal u) 0 ds"

lemma hexDigitVal_lt: "isHexDigit u \<Longrightarrow> hexDigitVal u < 16"
  by (auto simp: isHexDigit_def isDigit_def hexDigitVal_def Let_def)

lemma ofHexDigits_snoc: "ofHexDigits (ds @ [u]) = ofHexDigits ds * 16 + hexDigitVal u"
  by (simp add: ofHexDigits_def)

lemma ofHexDigits_lt: "list_all isHexDigit ds \<Longrightarrow> ofHexDigits ds < 16 ^ length ds"
proof (induction ds rule: rev_induct)
  case (snoc u ds)
  then have "ofHexDigits ds + 1 \<le> 16 ^ length ds" "hexDigitVal u < 16"
    by (simp_all add: hexDigitVal_lt)
  then have "ofHexDigits ds * 16 + hexDigitVal u < 16 ^ length ds * 16" by linarith
  then show ?case by (simp add: ofHexDigits_snoc)
qed (simp add: ofHexDigits_def)

text \<open>
  A non-negative integer as a JavaScript number: exact up to 53 significant bits, else rounded to the
  nearest such number, ties to the even one, and infinite from \<open>2 ^ 1024\<close> on.
\<close>

fun bitLength :: "nat \<Rightarrow> nat" where
  "bitLength n = (if n = 0 then 0 else Suc (bitLength (n div 2)))"

declare bitLength.simps [simp del]

definition roundNumber :: "nat \<Rightarrow> nat" where
  "roundNumber n =
     (let unt = 2 ^ (bitLength n - 53); q = n div unt; r = n mod unt
      in (if 2 * r > unt \<or> (2 * r = unt \<and> odd q) then q + 1 else q) * unt)"

datatype jsInteger = NaN | Infinite | Whole int

definition numberOf :: "bool \<Rightarrow> nat \<Rightarrow> jsInteger" where
  "numberOf neg n =
     (let m = roundNumber n in
      if 1024 < bitLength m then Infinite else Whole (if neg then - int m else int m))"

text \<open>\<open>Number.parseInt(s, 10)\<close>: leading white space, a sign, and the longest run of digits, if any.\<close>

definition parseInt10 :: "jsstr \<Rightarrow> jsInteger" where
  "parseInt10 s =
     (let t = trimStart s;
          neg = (take 1 t = js ''-'');
          u = (if neg \<or> take 1 t = js ''+'' then drop 1 t else t);
          ds = takeWhile isDigit u
      in if ds = [] then NaN else numberOf neg (ofDigits ds))"

lemma bitLength_le: "n < 2 ^ k \<Longrightarrow> bitLength n \<le> k"
proof (induction k arbitrary: n)
  case (Suc k)
  then have "n div 2 < 2 ^ k" by simp
  then show ?case using Suc.IH by (simp add: bitLength.simps [of n])
qed (simp add: bitLength.simps)

lemma roundNumber_exact: "n < 2 ^ 53 \<Longrightarrow> roundNumber n = n"
  using bitLength_le [of n 53] by (simp add: roundNumber_def Let_def)

lemma numberOf_exact: "n < 2 ^ 53 \<Longrightarrow> numberOf neg n = Whole (if neg then - int n else int n)"
  using bitLength_le [of n 53] by (simp add: numberOf_def roundNumber_exact Let_def)

lemma takeWhile_all: "list_all P xs \<Longrightarrow> takeWhile P xs = xs"
  by (induction xs) auto

subsection \<open>Numerals\<close>

lemma js_Nil [simp]: "js [] = []" by (simp add: js_def)
lemma js_append: "js (a @ b) = js a @ js b" by (simp add: js_def)

lemma ofDigits_snoc: "ofDigits (ds @ [u]) = ofDigits ds * 10 + digitVal u"
  by (simp add: ofDigits_def)

lemma js_digit: "n < 10 \<Longrightarrow> isDigit (hd (js [char_of (48 + n)])) \<and> digitVal (hd (js [char_of (48 + n)])) = n \<and>
    js [char_of (48 + n)] = [hd (js [char_of (48 + n)])]"
proof -
  assume n: "n < 10"
  have u: "unat (word_of_nat (48 + n) :: 16 word) = 48 + n" unfolding unat_of_nat using n by simp
  have "js [char_of (48 + n)] = [word_of_nat (48 + n)]" using n by (simp add: js_def del: of_nat_add)
  with u n show ?thesis by (simp add: isDigit_def digitVal_def del: of_nat_add)
qed

lemma natString_digits: "list_all isDigit (js (natString n)) \<and> ofDigits (js (natString n)) = n"
proof (induction n rule: natString.induct)
  case (1 n)
  show ?case
  proof (cases "n < 10")
    case True
    from js_digit [OF True] obtain u where "js [char_of (48 + n)] = [u]" "isDigit u" "digitVal u = n" by metis
    with True show ?thesis by (simp add: natString.simps [of n] ofDigits_def)
  next
    case False
    have "n mod 10 < 10" by simp
    from js_digit [OF this] obtain u where "js [char_of (48 + n mod 10)] = [u]" "isDigit u" "digitVal u = n mod 10"
      by metis
    with False 1 show ?thesis
      by (simp add: natString.simps [of n] js_append ofDigits_snoc)
  qed
qed

lemma natString_units: "u \<in> set (js (natString n)) \<Longrightarrow> isDigit u"
  using natString_digits [of n] by (simp add: list_all_iff)

lemma natString_ne: "js (natString n) \<noteq> []"
  using natString_not_empty [of n] by (simp add: js_def)

end
