(* ===== verification/Kv_Store.thy ===== *)
theory Kv_Store
  imports Js_Strings "HOL-Library.AList" "HOL-Library.List_Lexorder"
begin

text \<open>
  The key/value store of \<open>packages/core/src/store/kv-store.ts\<close>: the interface as a locale, and its
  two implementations. A stored value is an option because a JavaScript \<open>undefined\<close> can be stored
  and reads back like an absent key. \<open>structuredClone\<close> returns an equal value, so values, which
  are immutable here, are stored as they are.
\<close>

subsection \<open>The interface\<close>

text \<open>
  \<open>okKey\<close> are the keys for which the prefix scan is exact.
\<close>

locale kv_store =
  fixes get :: "'s \<Rightarrow> jsstr \<Rightarrow> 'v option"
    and put :: "'s \<Rightarrow> jsstr \<Rightarrow> 'v option \<Rightarrow> 's"
    and del :: "'s \<Rightarrow> jsstr \<Rightarrow> 's"
    and keys :: "'s \<Rightarrow> jsstr option \<Rightarrow> jsstr list"
    and empty :: 's
    and okKey :: "jsstr \<Rightarrow> bool"
  assumes get_put: "get (put s k v) k' = (if k' = k then v else get s k')"
    and get_del: "get (del s k) k' = (if k' = k then None else get s k')"
    and get_empty: "get empty k = None"
    and keys_put: "set (keys (put s k v) None) = insert k (set (keys s None))"
    and keys_del: "set (keys (del s k) None) = set (keys s None) - {k}"
    and keys_empty: "keys empty None = []"
    and get_keys: "get s k \<noteq> None \<Longrightarrow> k \<in> set (keys s None)"
    and keys_prefix: "okKey k \<Longrightarrow> k \<in> set (keys s (Some p)) \<longleftrightarrow> k \<in> set (keys s None) \<and> startsWith k p"
begin

lemma get_put_same: "get (put s k v) k = v"
  by (simp add: get_put)

lemma get_put_other: "k' \<noteq> k \<Longrightarrow> get (put s k v) k' = get s k'"
  by (simp add: get_put)

lemma put_put: "get (put (put s k v) k w) k' = get (put s k w) k'"
  by (simp add: get_put)

lemma put_commute: "k \<noteq> l \<Longrightarrow> get (put (put s k v) l w) k' = get (put (put s l w) k v) k'"
  by (simp add: get_put)

lemma del_put: "get (del (put s k v) k) k' = get (del s k) k'"
  by (simp add: get_put get_del)

text \<open>Reading, changing and writing back one key leaves the others alone.\<close>

lemma update_frame: "k' \<noteq> k \<Longrightarrow> get (put s k (f (get s k))) k' = get s k'"
  by (simp add: get_put)

text \<open>A prefix scan finds every value under the prefix.\<close>

lemma scan_complete: "okKey k \<Longrightarrow> startsWith k p \<Longrightarrow> get s k = Some v \<Longrightarrow> k \<in> set (keys s (Some p))"
  using get_keys [of s k] by (simp add: keys_prefix)

lemma scan_frame:
  "okKey k \<Longrightarrow> \<not> startsWith l p \<Longrightarrow> k \<in> set (keys (put s l v) (Some p)) \<longleftrightarrow> k \<in> set (keys s (Some p))"
  by (auto simp: keys_prefix keys_put)

end

subsection \<open>In memory\<close>

text \<open>A \<open>Map\<close> keeps insertion order; \<open>set\<close> on a key it holds replaces the value in place.\<close>

type_synonym 'v memKv = "(jsstr \<times> 'v option) list"

definition memGet :: "'v memKv \<Rightarrow> jsstr \<Rightarrow> 'v option" where
  "memGet m key = (case map_of m key of None \<Rightarrow> None | Some v \<Rightarrow> v)"

definition memPut :: "'v memKv \<Rightarrow> jsstr \<Rightarrow> 'v option \<Rightarrow> 'v memKv" where
  "memPut m key v = AList.update key v m"

definition memDelete :: "'v memKv \<Rightarrow> jsstr \<Rightarrow> 'v memKv" where
  "memDelete m key = AList.delete key m"

definition memKeys :: "'v memKv \<Rightarrow> jsstr option \<Rightarrow> jsstr list" where
  "memKeys m pfx = filter (\<lambda>k. case pfx of None \<Rightarrow> True | Some p \<Rightarrow> startsWith k p) (map fst m)"

interpretation mem: kv_store memGet memPut memDelete memKeys "[]" "\<lambda>_. True"
proof (unfold_locales, goal_cases)
  case (7 s k)
  then show ?case
    by (cases "map_of s k") (auto simp: memGet_def memKeys_def dest!: map_of_SomeD intro: rev_image_eqI)
qed (auto simp: memGet_def memPut_def memDelete_def memKeys_def update_conv' delete_conv'
      dom_update delete_keys split: option.splits)

subsection \<open>IndexedDB\<close>

text \<open>
  The object store is the browser's; of it the code uses that a put replaces, a delete removes and
  \<open>getAllKeys\<close> lists the keys of a range in ascending order, strings compared by code unit. The
  range is \<open>IDBKeyRange.bound(prefix, prefix + U+FFFF, false, false)\<close>, closed at both ends.
\<close>

definition idbRange :: "jsstr \<Rightarrow> jsstr \<Rightarrow> bool" where
  "idbRange p k \<longleftrightarrow> p \<le> k \<and> k \<le> p @ [0xFFFF]"

definition idbKeys :: "'v memKv \<Rightarrow> jsstr option \<Rightarrow> jsstr list" where
  "idbKeys m pfx =
     sort (filter (\<lambda>k. case pfx of None \<Rightarrow> True | Some p \<Rightarrow> idbRange p k) (map fst m))"

lemma max_unit: "(u :: 16 word) \<le> 0xFFFF"
proof -
  have "unat u < 65536" using unsigned_less [of u] by simp
  then show ?thesis by (simp add: word_le_nat_alt)
qed

text \<open>
  The range is the keys that start with the prefix, except those that go on with \<open>U+FFFF\<close> and
  something more.
\<close>

lemma idbRange_iff:
  "idbRange p k \<longleftrightarrow> (\<exists>r. k = p @ r \<and> (r = [] \<or> hd r < 0xFFFF \<or> r = [0xFFFF]))"
proof (induction p arbitrary: k)
  case Nil
  show ?case
  proof (cases k)
    case Nil
    then show ?thesis by (simp add: idbRange_def)
  next
    case (Cons u us)
    then show ?thesis
      using max_unit [of u] by (cases us) (auto simp: idbRange_def)
  qed
next
  case (Cons u p)
  show ?case
  proof (cases k)
    case Nil
    then show ?thesis by (simp add: idbRange_def)
  next
    case (Cons v vs)
    then show ?thesis using Cons.IH [of vs] by (auto simp: idbRange_def)
  qed
qed

lemma idbRange_plain: "0xFFFF \<notin> set k \<Longrightarrow> idbRange p k \<longleftrightarrow> startsWith k p"
proof -
  assume n: "0xFFFF \<notin> set k"
  show ?thesis
  proof
    assume "idbRange p k"
    then show "startsWith k p" by (auto simp: idbRange_iff startsWith_iff)
  next
    assume "startsWith k p"
    then obtain r where r: "k = p @ r" by (auto simp: startsWith_iff)
    then have "r = [] \<or> hd r < 0xFFFF"
      using n max_unit [of "hd r"] by (cases r) (auto simp: less_le)
    with r show "idbRange p k" by (auto simp: idbRange_iff)
  qed
qed

interpretation idb: kv_store memGet memPut memDelete idbKeys "[]" "\<lambda>k. 0xFFFF \<notin> set k"
proof (unfold_locales, goal_cases)
  case (7 s k)
  then show ?case
    by (cases "map_of s k") (auto simp: memGet_def idbKeys_def dest!: map_of_SomeD intro: rev_image_eqI)
next
  case (8 k s p)
  then show ?case by (auto simp: idbKeys_def idbRange_plain)
qed (auto simp: memGet_def memPut_def memDelete_def idbKeys_def update_conv' delete_conv'
      dom_update delete_keys split: option.splits)

subsection \<open>Properties\<close>

text \<open>The two stores agree: after any writes and deletions a read returns what was written last, and for keys
  without the code unit \<open>U+FFFF\<close> the prefix scan of the IndexedDB store lists the same keys as that of
  the in-memory store, each in its own order.\<close>

theorem stores_agree:
  assumes "\<And>k. k \<in> set (map fst m) \<Longrightarrow> 0xFFFF \<notin> set k"
  shows "set (idbKeys m pfx) = set (memKeys m pfx) \<and> sorted (idbKeys m pfx) \<and>
    memGet (memPut m k v) k' = (if k' = k then v else memGet m k') \<and>
    memGet (memDelete m k) k' = (if k' = k then None else memGet m k')"
proof -
  have "set (idbKeys m pfx) = set (memKeys m pfx)"
  proof (cases pfx)
    case None
    then show ?thesis by (simp add: idbKeys_def memKeys_def)
  next
    case (Some p)
    have "idbRange p k = startsWith k p" if "k \<in> set (map fst m)" for k
      using assms [OF that] by (rule idbRange_plain)
    with Some show ?thesis by (auto simp: idbKeys_def memKeys_def)
  qed
  then show ?thesis by (simp add: idbKeys_def mem.get_put mem.get_del)
qed

theorem stores_agree_witness:
  "set (idbKeys [(js ''b:1'', Some ()), (js ''a:1'', Some ())] (Some (js ''a:''))) =
   set (memKeys [(js ''b:1'', Some ()), (js ''a:1'', Some ())] (Some (js ''a:'')))"
proof -
  have "k \<in> set (map fst [(js ''b:1'', Some ()), (js ''a:1'', Some ())]) \<Longrightarrow> 0xFFFF \<notin> set k" for k
    by (auto simp: js_def)
  from stores_agree [OF this] show ?thesis by blast
qed

text \<open>The range the IndexedDB store scans is not the keys that start with the prefix: it misses exactly
  those that continue with \<open>U+FFFF\<close> and at least one more code unit.\<close>

theorem idb_range_exact:
  "idbRange p k \<longleftrightarrow> startsWith k p \<and> \<not> (\<exists>r. k = p @ 0xFFFF # r \<and> r \<noteq> [])"
proof
  assume "idbRange p k"
  then show "startsWith k p \<and> \<not> (\<exists>r. k = p @ 0xFFFF # r \<and> r \<noteq> [])"
    by (auto simp: idbRange_iff startsWith_iff)
next
  assume a: "startsWith k p \<and> \<not> (\<exists>r. k = p @ 0xFFFF # r \<and> r \<noteq> [])"
  then obtain r where r: "k = p @ r" by (auto simp: startsWith_iff)
  show "idbRange p k"
  proof (cases r)
    case Nil
    with r show ?thesis by (auto simp: idbRange_iff)
  next
    case (Cons u us)
    with a r max_unit [of u] show ?thesis by (auto simp: idbRange_iff less_le)
  qed
qed

end
