(* ===== verification/Inbound.thy ===== *)
theory Inbound
  imports Kv_Store Js_Json
begin

text \<open>
  What the wallet remembers of inbound messages, \<open>packages/core/src/inbound/\<close>: \<open>dedup.ts\<close> claims a
  document once (SPEC 7.2 item 11) and \<open>pending.ts\<close> keeps a message until its interaction has
  concluded. Both keep one list under one key of a \<open>KVStore\<close>; the operations take the store's
  \<open>get\<close> and \<open>put\<close>, and the lemmas are proved in the store's locale. \<open>documentDigest\<close> comes from the
  package \<open>@openvtc/trust-tasks\<close> and is a parameter.
\<close>

subsection \<open>Claims\<close>

definition CLAIMS_KEY :: jsstr where "CLAIMS_KEY = js ''inbound:claims/v2''"
definition MAX_CLAIMS :: nat where "MAX_CLAIMS = 256"

datatype inboundClaim = Fresh | Duplicate | Conflict

type_synonym claimRecord = "jsstr \<times> jsstr"

definition documentIdOf :: "jsval \<Rightarrow> jsstr option" where
  "documentIdOf doc =
     (case doc of
        JObj members \<Rightarrow>
          (case map_of members (js ''id'') of
             Some (JStr ident) \<Rightarrow> if length ident > 0 then Some ident else None
           | _ \<Rightarrow> None)
      | _ \<Rightarrow> None)"

text \<open>What a claim decides on the list it has read: the answer, and the list it writes.\<close>

definition decideClaim :: "claimRecord list \<Rightarrow> jsstr \<Rightarrow> jsstr \<Rightarrow> claimRecord list option \<times> inboundClaim" where
  "decideClaim claims ident digest =
     (case find (\<lambda>(claimedId, _). claimedId = ident) claims of
        Some seen \<Rightarrow> (None, if snd seen = digest then Duplicate else Conflict)
      | None \<Rightarrow>
          let pushed = claims @ [(ident, digest)];
              kept = (if length pushed > MAX_CLAIMS
                      then drop (length pushed - MAX_CLAIMS) pushed else pushed)
          in (Some kept, Fresh))"

text \<open>The read and the write are two awaits of the source; \<open>claimInboundDocument\<close> is a call with nothing in between.\<close>

definition claimInboundDocument ::
    "('s \<Rightarrow> jsstr \<Rightarrow> claimRecord list option) \<Rightarrow> ('s \<Rightarrow> jsstr \<Rightarrow> claimRecord list option \<Rightarrow> 's)
     \<Rightarrow> (jsval \<Rightarrow> jsstr) \<Rightarrow> 's \<Rightarrow> jsval \<Rightarrow> 's \<times> inboundClaim" where
  "claimInboundDocument get put documentDigest st doc =
     (case documentIdOf doc of
        None \<Rightarrow> (st, Fresh)
      | Some ident \<Rightarrow>
          let digest = documentDigest doc;
              claims = (case get st CLAIMS_KEY of None \<Rightarrow> [] | Some c \<Rightarrow> c)
          in case decideClaim claims ident digest of
               (None, claim) \<Rightarrow> (st, claim)
             | (Some kept, claim) \<Rightarrow> (put st CLAIMS_KEY (Some kept), claim))"

text \<open>Documents offered one after the other.\<close>

fun claimAll ::
    "('s \<Rightarrow> jsstr \<Rightarrow> claimRecord list option) \<Rightarrow> ('s \<Rightarrow> jsstr \<Rightarrow> claimRecord list option \<Rightarrow> 's)
     \<Rightarrow> (jsval \<Rightarrow> jsstr) \<Rightarrow> 's \<Rightarrow> jsval list \<Rightarrow> 's \<times> inboundClaim list" where
  "claimAll get put dg st [] = (st, [])"
| "claimAll get put dg st (doc # docs) =
     (let (st1, c) = claimInboundDocument get put dg st doc;
          (st2, cs) = claimAll get put dg st1 docs
      in (st2, c # cs))"

subsection \<open>The rule it implements\<close>

text \<open>
  The specification without a bound: a map from ids to digests. The first document under an id is
  fresh, the same document again a duplicate, another document under the id a conflict.
\<close>

type_synonym claimSpec = "jsstr \<Rightarrow> jsstr option"

definition specClaim :: "(jsval \<Rightarrow> jsstr) \<Rightarrow> claimSpec \<Rightarrow> jsval \<Rightarrow> claimSpec \<times> inboundClaim" where
  "specClaim dg m doc =
     (case documentIdOf doc of
        None \<Rightarrow> (m, Fresh)
      | Some ident \<Rightarrow>
          (case m ident of
             None \<Rightarrow> (m(ident \<mapsto> dg doc), Fresh)
           | Some d \<Rightarrow> (m, if d = dg doc then Duplicate else Conflict)))"

fun specAll :: "(jsval \<Rightarrow> jsstr) \<Rightarrow> claimSpec \<Rightarrow> jsval list \<Rightarrow> claimSpec \<times> inboundClaim list" where
  "specAll dg m [] = (m, [])"
| "specAll dg m (doc # docs) =
     (let (m1, c) = specClaim dg m doc; (m2, cs) = specAll dg m1 docs in (m2, c # cs))"

subsection \<open>Pending messages\<close>

definition PENDING_KEY :: jsstr where "PENDING_KEY = js ''inbound:pending''"
definition MAX_PENDING :: nat where "MAX_PENDING = 64"

record pendingInbound =
  pendId :: jsstr
  pendMessage :: jsval
  pendSender :: jsstr
  pendVta :: jsstr
  pendApprover :: bool
  pendReceivedAt :: nat

text \<open>
  \<open>nextPending\<close> is the list \<open>putPendingInbound\<close> writes, from the list it has read.
  \<open>entryReceivedAt\<close> is the optional \<open>receivedAt\<close> of the entry (its own field is not read) and \<open>now\<close>
  the clock.
\<close>

definition nextPending ::
    "nat \<Rightarrow> pendingInbound list \<Rightarrow> pendingInbound \<Rightarrow> nat option \<Rightarrow> pendingInbound list" where
  "nextPending now held entry entryReceivedAt =
     (let existing = find (\<lambda>p. pendId p = pendId entry) held;
          rec = entry\<lparr>pendReceivedAt :=
                  (case existing of Some p \<Rightarrow> pendReceivedAt p
                   | None \<Rightarrow> (case entryReceivedAt of Some t \<Rightarrow> t | None \<Rightarrow> now))\<rparr>;
          others = filter (\<lambda>p. pendId p \<noteq> pendId entry) held @ [rec]
      in if length others > MAX_PENDING then drop (length others - MAX_PENDING) others else others)"

definition putPendingInbound ::
    "('s \<Rightarrow> jsstr \<Rightarrow> pendingInbound list option) \<Rightarrow> ('s \<Rightarrow> jsstr \<Rightarrow> pendingInbound list option \<Rightarrow> 's)
     \<Rightarrow> nat \<Rightarrow> 's \<Rightarrow> pendingInbound \<Rightarrow> nat option \<Rightarrow> 's" where
  "putPendingInbound get put now st entry entryReceivedAt =
     (let held = (case get st PENDING_KEY of None \<Rightarrow> [] | Some l \<Rightarrow> l)
      in put st PENDING_KEY (Some (nextPending now held entry entryReceivedAt)))"

definition listPendingInbound :: "('s \<Rightarrow> jsstr \<Rightarrow> pendingInbound list option) \<Rightarrow> 's \<Rightarrow> pendingInbound list" where
  "listPendingInbound get st = (case get st PENDING_KEY of None \<Rightarrow> [] | Some l \<Rightarrow> l)"

definition removePendingInbound ::
    "('s \<Rightarrow> jsstr \<Rightarrow> pendingInbound list option) \<Rightarrow> ('s \<Rightarrow> jsstr \<Rightarrow> pendingInbound list option \<Rightarrow> 's)
     \<Rightarrow> 's \<Rightarrow> jsstr \<Rightarrow> 's" where
  "removePendingInbound get put st ident =
     (let held = (case get st PENDING_KEY of None \<Rightarrow> [] | Some l \<Rightarrow> l);
          others = filter (\<lambda>p. pendId p \<noteq> ident) held
      in if length others = length held then st else put st PENDING_KEY (Some others))"

subsection \<open>The claim list\<close>

lemma find_claim: "find (\<lambda>(k, _). k = i) cs = map_option (Pair i) (map_of cs i)"
  by (induction cs) auto

definition claimsOf :: "('s \<Rightarrow> jsstr \<Rightarrow> claimRecord list option) \<Rightarrow> 's \<Rightarrow> claimRecord list" where
  "claimsOf get st = (case get st CLAIMS_KEY of None \<Rightarrow> [] | Some c \<Rightarrow> c)"

definition claimsOk :: "claimRecord list \<Rightarrow> bool" where
  "claimsOk cs \<longleftrightarrow> distinct (map fst cs) \<and> length cs \<le> MAX_CLAIMS"

lemma drop_keeps_distinct: "distinct (map f xs) \<Longrightarrow> distinct (map f (drop n xs))"
  by (simp add: drop_map [symmetric])

lemma kept_claims:
  assumes "distinct (map fst l)"
  shows "claimsOk (drop (length l - MAX_CLAIMS) l)"
  using drop_keeps_distinct [OF assms] by (simp add: claimsOk_def)

lemma kept_last:
  assumes "distinct (map fst (l @ [(i, d)]))"
  shows "map_of (drop (length (l @ [(i, d)]) - MAX_CLAIMS) (l @ [(i, d)])) i = Some d"
proof -
  let ?k = "drop (length (l @ [(i, d)]) - MAX_CLAIMS) (l @ [(i, d)])"
  have "distinct (map fst ?k)" by (rule drop_keeps_distinct [OF assms])
  moreover have "(i, d) \<in> set ?k"
  proof -
    have "length (l @ [(i, d)]) - MAX_CLAIMS \<le> length l" by (simp add: MAX_CLAIMS_def)
    then show ?thesis by simp
  qed
  ultimately show ?thesis by (rule map_of_is_SomeI)
qed

locale claim_store = kv_store get put del keys empty okKey
  for get :: "'s \<Rightarrow> jsstr \<Rightarrow> claimRecord list option"
    and put :: "'s \<Rightarrow> jsstr \<Rightarrow> claimRecord list option \<Rightarrow> 's"
    and del keys empty okKey
begin

lemma claim_cases:
  assumes "claimInboundDocument get put dg st doc = (st', c)"
  obtains (no_id) "documentIdOf doc = None" "st' = st" "c = Fresh"
  | (seen) i d where "documentIdOf doc = Some i" "map_of (claimsOf get st) i = Some d" "st' = st"
      "c = (if d = dg doc then Duplicate else Conflict)"
  | (fresh) i where "documentIdOf doc = Some i" "map_of (claimsOf get st) i = None" "c = Fresh"
      "claimsOf get st' = drop (length (claimsOf get st @ [(i, dg doc)]) - MAX_CLAIMS)
         (claimsOf get st @ [(i, dg doc)])"
      "\<And>k. k \<noteq> CLAIMS_KEY \<Longrightarrow> get st' k = get st k"
proof (cases "documentIdOf doc")
  case None
  with assms show thesis by (intro no_id) (auto simp: claimInboundDocument_def)
next
  case (Some i)
  show thesis
  proof (cases "map_of (claimsOf get st) i")
    case None
    with Some assms show thesis
      by (intro fresh [OF Some None])
        (auto simp: claimInboundDocument_def decideClaim_def find_claim Let_def claimsOf_def [symmetric] get_put,
         auto simp: claimsOf_def get_put)
  next
    case (Some d)
    with \<open>documentIdOf doc = Some i\<close> assms show thesis
      by (intro seen [of i d]) (auto simp: claimInboundDocument_def decideClaim_def find_claim Let_def claimsOf_def)
  qed
qed

lemma claim_ok:
  assumes "claimInboundDocument get put dg st doc = (st', c)" and "claimsOk (claimsOf get st)"
  shows "claimsOk (claimsOf get st')"
  using assms(1)
proof (cases rule: claim_cases)
  case (fresh i)
  have "distinct (map fst (claimsOf get st @ [(i, dg doc)]))"
    using assms(2) fresh(2) by (auto simp: claimsOk_def map_of_eq_None_iff)
  from kept_claims [OF this] show ?thesis unfolding fresh(4) .
qed (use assms(2) in auto)

text \<open>A claim makes the same document a duplicate, and another document of its id a conflict.\<close>

lemma claim_then_claim:
  assumes "claimInboundDocument get put dg st doc = (st', Fresh)" and "documentIdOf doc = Some i"
    and "documentIdOf doc' = Some i" and "claimsOk (claimsOf get st)"
  shows "claimInboundDocument get put dg st' doc' =
    (st', if dg doc = dg doc' then Duplicate else Conflict)"
proof -
  obtain st2 c2 where c2: "claimInboundDocument get put dg st' doc' = (st2, c2)" by fastforce
  from assms(1) have m: "map_of (claimsOf get st') i = Some (dg doc)"
  proof (cases rule: claim_cases)
    case no_id
    with assms(2) show ?thesis by simp
  next
    case (seen j d)
    then show ?thesis by (simp split: if_splits)
  next
    case (fresh j)
    let ?l = "claimsOf get st @ [(i, dg doc)]"
    have j: "j = i" using fresh(1) assms(2) by simp
    have "distinct (map fst ?l)"
      using assms(4) fresh(2) j by (auto simp: claimsOk_def map_of_eq_None_iff)
    from kept_last [OF this] show ?thesis using fresh(4) j by simp
  qed
  from c2 show ?thesis
    by (cases rule: claim_cases) (use assms(3) m c2 in auto)
qed

text \<open>Up to the bound on distinct ids the store does what the specification says.\<close>

lemma claim_refines:
  assumes ok: "claimsOk (claimsOf get st)" and R: "map_of (claimsOf get st) = m"
    and room: "\<And>i. documentIdOf doc = Some i \<Longrightarrow> i \<notin> dom m \<Longrightarrow> card (dom m) < MAX_CLAIMS"
    and c: "claimInboundDocument get put dg st doc = (st', out)"
  shows "specClaim dg m doc = (map_of (claimsOf get st'), out)"
  using c
proof (cases rule: claim_cases)
  case (fresh i)
  have "length (claimsOf get st) = card (dom m)"
    using ok R distinct_card [of "map fst (claimsOf get st)"] dom_map_of_conv_image_fst [of "claimsOf get st"]
    by (auto simp: claimsOk_def)
  then have lt: "length (claimsOf get st) < MAX_CLAIMS"
    using room [OF fresh(1)] fresh(2) R by auto
  have n: "i \<notin> fst ` set (claimsOf get st)" using fresh(2) by (simp add: map_of_eq_None_iff)
  have "map_of (claimsOf get st @ [(i, dg doc)]) = m(i \<mapsto> dg doc)"
    using R n fresh(2) by (auto simp: map_add_def fun_eq_iff split: option.splits)
  with fresh lt R show ?thesis by (auto simp: specClaim_def)
qed (use R in \<open>auto simp: specClaim_def\<close>)

end

text \<open>The ids of a list of documents.\<close>

definition idsOf :: "jsval list \<Rightarrow> jsstr set" where
  "idsOf docs = {i. \<exists>d \<in> set docs. documentIdOf d = Some i}"

lemma finite_idsOf: "finite (idsOf docs)"
proof -
  have "idsOf docs \<subseteq> (\<lambda>d. the (documentIdOf d)) ` set docs"
    by (auto simp: idsOf_def intro!: rev_image_eqI)
  then show ?thesis by (rule finite_subset) simp
qed

lemma specClaim_dom:
  "specClaim dg m doc = (m', c) \<Longrightarrow> dom m' = dom m \<union> idsOf [doc]"
  by (auto simp: specClaim_def idsOf_def split: option.splits)

context claim_store
begin

lemma claimAll_refines:
  assumes "claimsOk (claimsOf get st)" and "map_of (claimsOf get st) = m"
    and "finite (dom m)" and "card (dom m \<union> idsOf docs) \<le> MAX_CLAIMS"
  shows "snd (claimAll get put dg st docs) = snd (specAll dg m docs)"
  using assms
proof (induction docs arbitrary: st m)
  case (Cons doc docs)
  obtain st1 c where c: "claimInboundDocument get put dg st doc = (st1, c)" by fastforce
  have sub: "dom m \<union> idsOf [doc] \<union> idsOf docs = dom m \<union> idsOf (doc # docs)"
    by (auto simp: idsOf_def)
  have fin: "finite (dom m \<union> idsOf (doc # docs))" using Cons.prems(3) finite_idsOf by simp
  have room: "card (dom m) < MAX_CLAIMS" if "documentIdOf doc = Some i" "i \<notin> dom m" for i
  proof -
    have "insert i (dom m) \<subseteq> dom m \<union> idsOf (doc # docs)" using that(1) by (auto simp: idsOf_def)
    from card_mono [OF fin this] Cons.prems(3,4) that(2) show ?thesis by simp
  qed
  note s = claim_refines [OF Cons.prems(1,2) room c]
  have d: "dom (map_of (claimsOf get st1)) = dom m \<union> idsOf [doc]" by (rule specClaim_dom [OF s])
  have "snd (claimAll get put dg st1 docs) = snd (specAll dg (map_of (claimsOf get st1)) docs)"
  proof (rule Cons.IH)
    show "claimsOk (claimsOf get st1)" by (rule claim_ok [OF c Cons.prems(1)])
    show "finite (dom (map_of (claimsOf get st1)))" by (rule finite_dom_map_of)
    show "card (dom (map_of (claimsOf get st1)) \<union> idsOf docs) \<le> MAX_CLAIMS"
      using Cons.prems(4) unfolding d sub .
  qed simp
  with c s show ?case by (simp add: split_beta)
qed simp

end

text \<open>What the specification answers for the document at a position.\<close>

lemma specAll_length: "length (snd (specAll dg m docs)) = length docs"
  by (induction docs arbitrary: m) (simp_all add: split_beta)

lemma specAll_nth:
  assumes "n < length docs" and "documentIdOf (docs ! n) = Some i"
  shows "snd (specAll dg m docs) ! n =
    (case (case m i of Some d \<Rightarrow> Some d
           | None \<Rightarrow> map_option dg (find (\<lambda>d. documentIdOf d = Some i) (take n docs))) of
       None \<Rightarrow> Fresh
     | Some d \<Rightarrow> if d = dg (docs ! n) then Duplicate else Conflict)"
  using assms
proof (induction docs arbitrary: m n)
  case (Cons doc docs)
  show ?case
  proof (cases n)
    case 0
    with Cons.prems show ?thesis by (auto simp: split_beta specClaim_def split: option.splits)
  next
    case (Suc k)
    obtain m1 c where s: "specClaim dg m doc = (m1, c)" by fastforce
    have "snd (specAll dg m (doc # docs)) ! n = snd (specAll dg m1 docs) ! k"
      using s Suc by (simp add: split_beta)
    also note Cons.IH [of k m1]
    finally show ?thesis
      using Cons.prems Suc s
      by (auto simp: specClaim_def split: option.splits if_splits)
  qed
qed simp

interpretation memClaims: claim_store memGet memPut memDelete memKeys "[]" "\<lambda>_. True"
  by unfold_locales

interpretation idbClaims: claim_store memGet memPut memDelete idbKeys "[]" "\<lambda>k. 0xFFFF \<notin> set k"
  by unfold_locales

subsection \<open>The pending list\<close>

definition pendingOk :: "pendingInbound list \<Rightarrow> bool" where
  "pendingOk l \<longleftrightarrow> distinct (map pendId l) \<and> length l \<le> MAX_PENDING"

text \<open>The time a message is recorded under: that of its first delivery.\<close>

definition receivedAt :: "nat \<Rightarrow> pendingInbound list \<Rightarrow> pendingInbound \<Rightarrow> nat option \<Rightarrow> nat" where
  "receivedAt now l e t = (case find (\<lambda>p. pendId p = pendId e) l of
     Some p \<Rightarrow> pendReceivedAt p | None \<Rightarrow> (case t of Some t \<Rightarrow> t | None \<Rightarrow> now))"

lemma nextPending_eq:
  "nextPending now l e t =
     (let new = filter (\<lambda>p. pendId p \<noteq> pendId e) l @ [e\<lparr>pendReceivedAt := receivedAt now l e t\<rparr>]
      in drop (length new - MAX_PENDING) new)"
  by (simp add: nextPending_def receivedAt_def Let_def)

lemma nextPending_last:
  "last (nextPending now l e t) = e\<lparr>pendReceivedAt := receivedAt now l e t\<rparr>" "nextPending now l e t \<noteq> []"
  by (simp_all add: nextPending_eq Let_def last_drop MAX_PENDING_def)

lemma kept_pending:
  assumes "distinct (map pendId l)"
  shows "pendingOk (drop (length l - MAX_PENDING) l)"
  using drop_keeps_distinct [OF assms] by (simp add: pendingOk_def)

lemma nextPending_ok: "distinct (map pendId l) \<Longrightarrow> pendingOk (nextPending now l e t)"
proof -
  assume d: "distinct (map pendId l)"
  let ?new = "filter (\<lambda>p. pendId p \<noteq> pendId e) l @ [e\<lparr>pendReceivedAt := receivedAt now l e t\<rparr>]"
  have "distinct (map pendId (filter (\<lambda>p. pendId p \<noteq> pendId e) l))"
    using d by (rule distinct_map_filter)
  then have "distinct (map pendId ?new)" by auto
  from kept_pending [OF this] show ?thesis unfolding nextPending_eq Let_def .
qed

text \<open>Below the bound nothing else is lost, and the order of the others is kept.\<close>

lemma nextPending_others:
  assumes "length l < MAX_PENDING \<or> (\<exists>p \<in> set l. pendId p = pendId e) \<and> length l \<le> MAX_PENDING"
  shows "filter (\<lambda>p. pendId p \<noteq> pendId e) (nextPending now l e t) = filter (\<lambda>p. pendId p \<noteq> pendId e) l"
proof -
  have "length (filter (\<lambda>p. pendId p \<noteq> pendId e) l) < MAX_PENDING"
    using assms
  proof
    assume "length l < MAX_PENDING"
    then show ?thesis by (rule le_less_trans [OF length_filter_le])
  next
    assume a: "(\<exists>p \<in> set l. pendId p = pendId e) \<and> length l \<le> MAX_PENDING"
    then obtain q where "q \<in> set l" "\<not> pendId q \<noteq> pendId e" by auto
    then have "length (filter (\<lambda>p. pendId p \<noteq> pendId e) l) < length l"
      by (rule length_filter_less)
    with a show ?thesis by simp
  qed
  then show ?thesis by (simp add: nextPending_eq Let_def)
qed

text \<open>
  Two \<open>putPendingInbound\<close> calls in flight: each awaits its read before its write, and nothing keeps
  the second read from coming before the first write.
\<close>

definition interleavedPuts ::
    "('s \<Rightarrow> jsstr \<Rightarrow> pendingInbound list option) \<Rightarrow> ('s \<Rightarrow> jsstr \<Rightarrow> pendingInbound list option \<Rightarrow> 's)
     \<Rightarrow> nat \<Rightarrow> 's \<Rightarrow> pendingInbound \<Rightarrow> nat option \<Rightarrow> pendingInbound \<Rightarrow> nat option \<Rightarrow> 's" where
  "interleavedPuts get put now st e1 t1 e2 t2 =
     (let read1 = listPendingInbound get st;
          read2 = listPendingInbound get st;
          st1 = put st PENDING_KEY (Some (nextPending now read1 e1 t1))
      in put st1 PENDING_KEY (Some (nextPending now read2 e2 t2)))"

locale pending_store = kv_store get put del keys empty okKey
  for get :: "'s \<Rightarrow> jsstr \<Rightarrow> pendingInbound list option"
    and put :: "'s \<Rightarrow> jsstr \<Rightarrow> pendingInbound list option \<Rightarrow> 's"
    and del keys empty okKey
begin

lemma list_put:
  "listPendingInbound get (putPendingInbound get put now st e t) =
     nextPending now (listPendingInbound get st) e t"
  by (simp add: listPendingInbound_def putPendingInbound_def Let_def get_put split: option.split)

lemma list_remove:
  "listPendingInbound get (removePendingInbound get put st i) =
     filter (\<lambda>p. pendId p \<noteq> i) (listPendingInbound get st)"
proof -
  let ?l = "listPendingInbound get st"
  have "length (filter (\<lambda>p. pendId p \<noteq> i) ?l) = length ?l \<Longrightarrow> filter (\<lambda>p. pendId p \<noteq> i) ?l = ?l"
    by (metis filter_id_conv length_filter_less less_irrefl)
  then show ?thesis
    by (auto simp: listPendingInbound_def removePendingInbound_def Let_def get_put split: option.splits)
qed

lemma remove_ok:
  "pendingOk (listPendingInbound get st) \<Longrightarrow> pendingOk (listPendingInbound get (removePendingInbound get put st i))"
  by (auto simp: list_remove pendingOk_def distinct_map_filter intro: order_trans [OF length_filter_le])

text \<open>A message is outstanding from the moment it is recorded until it is removed.\<close>

lemma recorded_until_removed:
  "\<exists>p \<in> set (listPendingInbound get (putPendingInbound get put now st e t)).
     pendId p = pendId e \<and> pendMessage p = pendMessage e \<and> pendSender p = pendSender e \<and>
     pendVta p = pendVta e \<and> pendApprover p = pendApprover e"
proof (rule bexI)
  let ?l = "nextPending now (listPendingInbound get st) e t"
  show "last ?l \<in> set (listPendingInbound get (putPendingInbound get put now st e t))"
    unfolding list_put using nextPending_last(2) by (rule last_in_set)
qed (simp add: nextPending_last)

lemma removed_is_gone:
  "p \<in> set (listPendingInbound get (removePendingInbound get put st i)) \<Longrightarrow> pendId p \<noteq> i"
  by (simp add: list_remove)

text \<open>
  Two recordings whose reads both come before the first write: the second write drops the message
  of the first.
\<close>

lemma lost_update:
  assumes "pendId e1 \<noteq> pendId e2" and "\<And>p. p \<in> set (listPendingInbound get st) \<Longrightarrow> pendId p \<noteq> pendId e1"
  shows "p \<in> set (listPendingInbound get (interleavedPuts get put now st e1 t1 e2 t2)) \<Longrightarrow>
    pendId p \<noteq> pendId e1"
proof -
  assume "p \<in> set (listPendingInbound get (interleavedPuts get put now st e1 t1 e2 t2))"
  then have "p \<in> set (nextPending now (listPendingInbound get st) e2 t2)"
    by (simp add: interleavedPuts_def Let_def listPendingInbound_def get_put)
  then have "p \<in> set (listPendingInbound get st) \<or> pendId p = pendId e2"
    by (auto simp: nextPending_eq Let_def dest!: in_set_dropD)
  with assms show ?thesis by metis
qed

end

interpretation memPending: pending_store memGet memPut memDelete memKeys "[]" "\<lambda>_. True"
  by unfold_locales

interpretation idbPending: pending_store memGet memPut memDelete idbKeys "[]" "\<lambda>k. 0xFFFF \<notin> set k"
  by unfold_locales

subsection \<open>Properties\<close>

text \<open>C29: Documents offered to \<open>claimInboundDocument\<close> one after the other, each call complete before the next, with at most
  \<open>MAX_CLAIMS\<close> (256) distinct ids among them: the first document under an id is fresh, a later one with the same digest is a
  duplicate and one with another digest a conflict. Past 256 ids the oldest claims are dropped and their documents are fresh again; calls that
  overlap are not covered (\<open>overlapping_claims\<close>); documents with equal digests count as the same.
  The store is the one behind both implementations of the interface.\<close>

theorem claimed_once:
  assumes "card (idsOf docs) \<le> MAX_CLAIMS" and "n < length docs" and "documentIdOf (docs ! n) = Some i"
  shows "snd (claimAll memGet memPut dg [] docs) ! n =
    (case find (\<lambda>d. documentIdOf d = Some i) (take n docs) of
       None \<Rightarrow> Fresh
     | Some first \<Rightarrow> if dg first = dg (docs ! n) then Duplicate else Conflict)"
proof -
  have e: "claimsOf memGet ([] :: claimRecord list memKv) = []"
    by (simp add: claimsOf_def memGet_def)
  have "snd (claimAll memGet memPut dg [] docs) = snd (specAll dg Map.empty docs)"
    by (rule memClaims.claimAll_refines) (use assms(1) e in \<open>simp_all add: claimsOk_def\<close>)
  then show ?thesis
    using specAll_nth [OF assms(2,3), of dg Map.empty] by (simp split: option.split)
qed

theorem claimed_once_witness:
  "\<exists>d1 d2. snd (claimAll memGet memPut (\<lambda>d. if d = d1 then js ''x'' else js ''y'') [] [d1, d2, d1]) ! 1 = Conflict"
proof -
  let ?d1 = "JObj [(js ''id'', JStr (js ''m''))]"
  let ?d2 = "JObj [(js ''id'', JStr (js ''m'')), (js ''v'', JNull)]"
  have ids: "documentIdOf ?d1 = Some (js ''m'')" "documentIdOf ?d2 = Some (js ''m'')"
    by (simp_all add: documentIdOf_def js_def)
  then have "idsOf [?d1, ?d2, ?d1] = {js ''m''}" by (auto simp: idsOf_def)
  then have c: "card (idsOf [?d1, ?d2, ?d1]) \<le> MAX_CLAIMS" by (simp add: MAX_CLAIMS_def)
  have "snd (claimAll memGet memPut (\<lambda>d. if d = ?d1 then js ''x'' else js ''y'') [] [?d1, ?d2, ?d1]) ! 1 = Conflict"
    using claimed_once [OF c, of 1 "js ''m''" "\<lambda>d. if d = ?d1 then js ''x'' else js ''y''"] ids
    by (simp add: js_def)
  then show ?thesis by blast
qed

text \<open>Two calls that both read the list before either writes: both documents are fresh, even under one id with different
  contents, and the list that is written last has forgotten the other claim.\<close>

lemma overlapping_claims:
  assumes "map_of claims i = None" and "map_of claims j = None"
  shows "snd (decideClaim claims i d) = Fresh \<and> snd (decideClaim claims j d') = Fresh \<and>
    (\<exists>kept. fst (decideClaim claims j d') = Some kept \<and> (i = j \<or> map_of kept i = None))"
proof -
  let ?kept = "\<lambda>k d. let l = claims @ [(k, d)] in if length l > MAX_CLAIMS then drop (length l - MAX_CLAIMS) l else l"
  have f: "decideClaim claims i d = (Some (?kept i d), Fresh)" "decideClaim claims j d' = (Some (?kept j d'), Fresh)"
    using assms by (simp_all add: decideClaim_def find_claim Let_def)
  have "set (?kept j d') \<subseteq> insert (j, d') (set claims)" by (auto simp: Let_def dest: in_set_dropD)
  with assms(1) have "i = j \<or> map_of (?kept j d') i = None" unfolding map_of_eq_None_iff by force
  with f show ?thesis by (simp only: fst_conv snd_conv simp_thms option.inject)
qed

text \<open>The list of claims stays well formed whatever is claimed: no id occurs twice and it never holds more
  than \<open>MAX_CLAIMS\<close> entries, and right after a document was fresh the store answers duplicate for
  it and conflict for any other document of its id.\<close>

theorem claim_list_invariant:
  assumes "claimInboundDocument memGet memPut dg st doc = (st', c)" and "claimsOk (claimsOf memGet st)"
  shows "claimsOk (claimsOf memGet st') \<and>
    (case documentIdOf doc of None \<Rightarrow> True | Some i \<Rightarrow>
       (c = Fresh) = (map_of (claimsOf memGet st) i = None) \<and>
       (\<forall>doc'. documentIdOf doc' = Some i \<longrightarrow> c = Fresh \<longrightarrow>
          claimInboundDocument memGet memPut dg st' doc' = (st', if dg doc = dg doc' then Duplicate else Conflict)))"
proof (cases "documentIdOf doc")
  case None
  with memClaims.claim_ok [OF assms] show ?thesis by simp
next
  case (Some i)
  have "(c = Fresh) = (map_of (claimsOf memGet st) i = None)"
    using assms(1) by (cases rule: memClaims.claim_cases) (use Some in auto)
  moreover have "claimInboundDocument memGet memPut dg st' doc' = (st', if dg doc = dg doc' then Duplicate else Conflict)"
    if "documentIdOf doc' = Some i" "c = Fresh" for doc'
    using memClaims.claim_then_claim [OF _ Some that(1) assms(2), of dg st'] assms(1) that(2) by simp
  ultimately show ?thesis using memClaims.claim_ok [OF assms] Some by simp
qed

theorem claim_list_invariant_witness:
  "\<exists>st'. claimInboundDocument memGet memPut (\<lambda>_. js ''x'') [] (JObj [(js ''id'', JStr (js ''m''))]) = (st', Fresh) \<and>
     claimsOk (claimsOf memGet st')"
proof -
  obtain st' c where r: "claimInboundDocument memGet memPut (\<lambda>_. js ''x'') [] (JObj [(js ''id'', JStr (js ''m''))]) = (st', c)"
    by fastforce
  have e: "claimsOf memGet ([] :: claimRecord list memKv) = []" by (simp add: claimsOf_def memGet_def)
  have ok: "claimsOk (claimsOf memGet [])" by (simp add: e claimsOk_def)
  have i: "documentIdOf (JObj [(js ''id'', JStr (js ''m''))]) = Some (js ''m'')"
    by (simp add: documentIdOf_def js_def)
  from claim_list_invariant [OF r ok] i e r show ?thesis by auto
qed

text \<open>A message recorded as pending is listed, with what it was recorded with, until it is removed by its id;
  recording it keeps all others below the bound, keeps ids distinct and the list bounded, and a second
  delivery of the same message keeps the time of the first.\<close>

theorem pending_until_removed:
  assumes "pendingOk (listPendingInbound memGet st)"
  shows "pendingOk (listPendingInbound memGet (putPendingInbound memGet memPut now st e t)) \<and>
    (\<exists>p \<in> set (listPendingInbound memGet (putPendingInbound memGet memPut now st e t)).
       pendId p = pendId e \<and> pendMessage p = pendMessage e \<and> pendSender p = pendSender e \<and>
       pendReceivedAt p = receivedAt now (listPendingInbound memGet st) e t) \<and>
    listPendingInbound memGet (removePendingInbound memGet memPut
        (putPendingInbound memGet memPut now st e t) (pendId e)) =
      filter (\<lambda>p. pendId p \<noteq> pendId e) (listPendingInbound memGet (putPendingInbound memGet memPut now st e t)) \<and>
    (length (listPendingInbound memGet st) < MAX_PENDING \<longrightarrow>
     filter (\<lambda>p. pendId p \<noteq> pendId e) (listPendingInbound memGet (putPendingInbound memGet memPut now st e t)) =
       filter (\<lambda>p. pendId p \<noteq> pendId e) (listPendingInbound memGet st))"
proof -
  let ?l = "nextPending now (listPendingInbound memGet st) e t"
  have "last ?l \<in> set ?l" using nextPending_last(2) by (rule last_in_set)
  then have "\<exists>p \<in> set ?l. pendId p = pendId e \<and> pendMessage p = pendMessage e \<and> pendSender p = pendSender e \<and>
       pendReceivedAt p = receivedAt now (listPendingInbound memGet st) e t"
    by (rule rev_bexI) (simp add: nextPending_last)
  moreover have "pendingOk ?l" using assms nextPending_ok by (simp add: pendingOk_def)
  ultimately show ?thesis
    using nextPending_others [of "listPendingInbound memGet st" e now t]
    by (simp add: memPending.list_put memPending.list_remove)
qed

theorem pending_until_removed_witness:
  "pendingOk (listPendingInbound memGet (putPendingInbound memGet memPut 5 []
     \<lparr>pendId = js ''m'', pendMessage = JNull, pendSender = [], pendVta = [], pendApprover = True, pendReceivedAt = 0\<rparr> None))"
proof -
  have "pendingOk (listPendingInbound memGet [])"
    by (simp add: pendingOk_def listPendingInbound_def memGet_def)
  from pending_until_removed [OF this] show ?thesis by blast
qed

text \<open>Two recordings whose reads both precede the first write lose a message: the second write puts back the
  list it had read, and the message of the first is no longer listed.\<close>

theorem pending_lost_update:
  assumes "pendId e1 \<noteq> pendId e2" and "\<And>p. p \<in> set (listPendingInbound memGet st) \<Longrightarrow> pendId p \<noteq> pendId e1"
  shows "find (\<lambda>p. pendId p = pendId e1)
    (listPendingInbound memGet (interleavedPuts memGet memPut now st e1 t1 e2 t2)) = None"
  using memPending.lost_update [OF assms] by (auto simp: find_None_iff)

theorem pending_lost_update_witness:
  "\<exists>e1 e2. find (\<lambda>p. pendId p = pendId e1)
    (listPendingInbound memGet (interleavedPuts memGet memPut 5 [] e1 None e2 None)) = None"
proof -
  let ?e = "\<lambda>i. \<lparr>pendId = js i, pendMessage = JNull, pendSender = [], pendVta = [], pendApprover = True, pendReceivedAt = 0\<rparr>"
  have "pendId (?e ''m'') \<noteq> pendId (?e ''mm'')" by (simp add: js_def)
  moreover have "p \<in> set (listPendingInbound memGet []) \<Longrightarrow> pendId p \<noteq> pendId (?e ''m'')" for p
    by (simp add: listPendingInbound_def memGet_def)
  ultimately show ?thesis using pending_lost_update [of "?e ''m''" "?e ''mm''" "[]" 5 None None] by blast
qed

end
