(* ===== verification/Reconnect.thy ===== *)
theory Reconnect
  imports Js_Text
begin

text \<open>
  The retry loop of inbound sessions, \<open>packages/core/src/inbound/reconnect.ts\<close>, as a state machine:
  the calls of the class and the two callbacks of the runtime, a timer that fires and an attempt
  that settles. An entry of the source is an object that closures hold on to, so entries have an
  identity. The gate \<open>shouldRetry\<close> is an argument of the step that consults it (\<open>True\<close> when the option is
  absent). A timer that was cleared does not fire.
\<close>

record reconnectOptions =
  baseMs :: nat
  maxMs :: nat

record rentry =
  entryId :: nat
  delayMs :: nat
  armed :: bool

text \<open>\<open>timers\<close> are the timers set and not fired or cleared: key, entry, and the delay it was set with.\<close>

record scheduler =
  entries :: "jsstr \<Rightarrow> rentry option"
  timers :: "(jsstr \<times> nat \<times> nat) list"
  inflight :: "(jsstr \<times> nat) list"
  freshId :: nat

definition initScheduler :: scheduler where
  "initScheduler = \<lparr>entries = (\<lambda>_. None), timers = [], inflight = [], freshId = 0\<rparr>"

definition clearKey :: "scheduler \<Rightarrow> jsstr \<Rightarrow> scheduler" where
  "clearKey s key =
     (case entries s key of
        None \<Rightarrow> s
      | Some e \<Rightarrow>
          s\<lparr>timers := (if armed e then filter (\<lambda>(k, i, d). (k, i) \<noteq> (key, entryId e)) (timers s) else timers s),
            entries := (entries s)(key := None)\<rparr>)"

definition clearAll :: "scheduler \<Rightarrow> jsstr list \<Rightarrow> scheduler" where
  "clearAll s keyList = fold (\<lambda>k s. clearKey s k) keyList s"

definition schedule :: "reconnectOptions \<Rightarrow> bool \<Rightarrow> scheduler \<Rightarrow> jsstr \<Rightarrow> scheduler" where
  "schedule opts shouldRetry s key =
     (if \<not> shouldRetry then clearKey s key
      else
        let (e, s1) = (case entries s key of
              Some e \<Rightarrow> (e, s)
            | None \<Rightarrow> (\<lparr>entryId = freshId s, delayMs = baseMs opts, armed = False\<rparr>, s\<lparr>freshId := freshId s + 1\<rparr>))
        in if armed e then s
           else s1\<lparr>timers := timers s1 @ [(key, entryId e, delayMs e)],
                   entries := (entries s1)(key := Some (e\<lparr>armed := True\<rparr>))\<rparr>)"

text \<open>The timer callback: the entry is disarmed and an attempt starts.\<close>

definition fire :: "scheduler \<Rightarrow> jsstr \<Rightarrow> nat \<Rightarrow> scheduler" where
  "fire s key i =
     s\<lparr>timers := filter (\<lambda>(k, j, d). (k, j) \<noteq> (key, i)) (timers s),
       entries := (case entries s key of
           Some e \<Rightarrow> if entryId e = i then (entries s)(key := Some (e\<lparr>armed := False\<rparr>)) else entries s
         | None \<Rightarrow> entries s),
       inflight := (key, i) # inflight s\<rparr>"

text \<open>
  The continuation of \<open>attempt\<close>: \<open>ok\<close> is its result; the gate is consulted there and again by
  \<open>schedule\<close>.
\<close>

definition settle ::
    "reconnectOptions \<Rightarrow> bool \<Rightarrow> bool \<Rightarrow> bool \<Rightarrow> scheduler \<Rightarrow> jsstr \<Rightarrow> nat \<Rightarrow> scheduler" where
  "settle opts ok shouldRetry shouldRetry2 s0 key i =
     (let s = s0\<lparr>inflight := remove1 (key, i) (inflight s0)\<rparr> in
      if ok then clearKey s key
      else if \<not> shouldRetry then clearKey s key
      else case entries s key of
        None \<Rightarrow> s
      | Some e \<Rightarrow>
          if entryId e \<noteq> i then s
          else schedule opts shouldRetry2
                 (s\<lparr>entries := (entries s)(key := Some (e\<lparr>delayMs := min (delayMs e * 2) (maxMs opts)\<rparr>))\<rparr>) key)"

definition pendingDelayMs :: "scheduler \<Rightarrow> jsstr \<Rightarrow> nat option" where
  "pendingDelayMs s key = map_option delayMs (entries s key)"

definition isArmed :: "scheduler \<Rightarrow> jsstr \<Rightarrow> bool" where
  "isArmed s key = (case entries s key of None \<Rightarrow> False | Some e \<Rightarrow> armed e)"

subsection \<open>Runs\<close>

inductive sched_run :: "reconnectOptions \<Rightarrow> scheduler \<Rightarrow> bool" for opts where
  start: "sched_run opts initScheduler"
| schedule: "sched_run opts s \<Longrightarrow> sched_run opts (schedule opts gate s key)"
| clear: "sched_run opts s \<Longrightarrow> sched_run opts (clearKey s key)"
| fire: "sched_run opts s \<Longrightarrow> (key, i, d) \<in> set (timers s) \<Longrightarrow> sched_run opts (fire s key i)"
| settle: "sched_run opts s \<Longrightarrow> (key, i) \<in> set (inflight s) \<Longrightarrow>
    sched_run opts (settle opts ok gate gate2 s key i)"

text \<open>
  The invariant, key by key: no entry, no timer; an armed entry has exactly one timer, its own; an
  entry that is not armed has its attempt in flight, so a retry loop never stops on its own; delays
  stay within the configured range.
\<close>

definition timersFor :: "(jsstr \<times> nat \<times> nat) list \<Rightarrow> jsstr \<Rightarrow> (jsstr \<times> nat \<times> nat) list" where
  "timersFor ts k = filter (\<lambda>t. fst t = k) ts"

definition delayOk :: "reconnectOptions \<Rightarrow> nat \<Rightarrow> bool" where
  "delayOk opts d \<longleftrightarrow> min (baseMs opts) (maxMs opts) \<le> d \<and> d \<le> max (baseMs opts) (maxMs opts)"

definition keyInv :: "reconnectOptions \<Rightarrow> scheduler \<Rightarrow> jsstr \<Rightarrow> bool" where
  "keyInv opts s k =
     (case entries s k of
        None \<Rightarrow> timersFor (timers s) k = []
      | Some e \<Rightarrow>
          (if armed e then \<exists>d. timersFor (timers s) k = [(k, entryId e, d)]
           else timersFor (timers s) k = [] \<and> (k, entryId e) \<in> set (inflight s)) \<and>
          delayOk opts (delayMs e))"

definition schedInv :: "reconnectOptions \<Rightarrow> scheduler \<Rightarrow> bool" where
  "schedInv opts s \<longleftrightarrow> (\<forall>k. keyInv opts s k)"

lemma timersFor_append [simp]: "timersFor (xs @ ys) k = timersFor xs k @ timersFor ys k"
  by (simp add: timersFor_def)

lemma timersFor_single [simp]: "timersFor [(k', i, d)] k = (if k' = k then [(k', i, d)] else [])"
  by (simp add: timersFor_def)

lemma timersFor_drop_other [simp]:
  "k' \<noteq> k \<Longrightarrow> timersFor (filter (\<lambda>(k, i, d). k = k' \<longrightarrow> i \<noteq> j) ts) k = timersFor ts k"
  by (auto simp: timersFor_def intro!: filter_cong)

lemma timersFor_drop_own:
  "timersFor ts k = [(k, j, d)] \<Longrightarrow> timersFor (filter (\<lambda>(k', i, d). k' = k \<longrightarrow> i \<noteq> j) ts) k = []"
proof -
  assume a: "timersFor ts k = [(k, j, d)]"
  have "timersFor (filter (\<lambda>(k', i, d). k' = k \<longrightarrow> i \<noteq> j) ts) k =
      filter (\<lambda>(k', i, d). k' = k \<longrightarrow> i \<noteq> j) (timersFor ts k)"
    by (simp add: timersFor_def conj_commute)
  with a show ?thesis by simp
qed

text \<open>The part of the invariant that does not mention attempts in flight.\<close>

definition timerInv :: "reconnectOptions \<Rightarrow> scheduler \<Rightarrow> jsstr \<Rightarrow> bool" where
  "timerInv opts s k =
     (case entries s k of
        None \<Rightarrow> timersFor (timers s) k = []
      | Some e \<Rightarrow> timersFor (timers s) k = [] \<and> \<not> armed e \<and> delayOk opts (delayMs e) \<or>
          (\<exists>d. timersFor (timers s) k = [(k, entryId e, d)]) \<and> armed e \<and> delayOk opts (delayMs e))"

definition invBut :: "reconnectOptions \<Rightarrow> scheduler \<Rightarrow> jsstr \<Rightarrow> bool" where
  "invBut opts s key \<longleftrightarrow> timerInv opts s key \<and> (\<forall>k. k \<noteq> key \<longrightarrow> keyInv opts s k)"

lemma keyInv_timerInv: "keyInv opts s k \<Longrightarrow> timerInv opts s k"
  by (cases "entries s k") (auto simp: keyInv_def timerInv_def split: if_splits)

lemma schedInv_but: "schedInv opts s \<Longrightarrow> invBut opts s key"
  by (simp add: invBut_def schedInv_def keyInv_timerInv)

lemma delayOk_double: "delayOk opts d \<Longrightarrow> delayOk opts (min (d * 2) (maxMs opts))"
  by (auto simp: delayOk_def)

lemma invBut_delay:
  assumes "invBut opts s key" and "entries s key = Some e" and "delayOk opts d"
  shows "invBut opts (s\<lparr>entries := (entries s)(key := Some (e\<lparr>delayMs := d\<rparr>))\<rparr>) key"
proof -
  have "keyInv opts (s\<lparr>entries := (entries s)(key := x)\<rparr>) k = keyInv opts s k" if "k \<noteq> key" for k x
    using that by (cases "entries s k") (simp_all add: keyInv_def)
  with assms show ?thesis by (auto simp: invBut_def timerInv_def)
qed

lemma schedInv_init: "schedInv opts initScheduler"
  by (simp add: schedInv_def keyInv_def initScheduler_def timersFor_def)

lemma clearKey_inv:
  assumes "invBut opts s key" shows "schedInv opts (clearKey s key)"
  unfolding schedInv_def
proof
  fix k
  have own: "timerInv opts s key" and other: "k \<noteq> key \<Longrightarrow> keyInv opts s k"
    using assms by (simp_all add: invBut_def)
  show "keyInv opts (clearKey s key) k"
  proof (cases "k = key")
    case True
    with own show ?thesis
      by (auto simp: keyInv_def timerInv_def clearKey_def timersFor_drop_own split: option.splits if_splits)
  next
    case False
    with other show ?thesis by (auto simp: keyInv_def clearKey_def split: option.splits)
  qed
qed

lemma schedule_inv:
  assumes "invBut opts s key" shows "schedInv opts (schedule opts gate s key)"
proof (cases gate)
  case False
  with clearKey_inv [OF assms] show ?thesis by (simp add: schedule_def)
next
  case True
  show ?thesis
    unfolding schedInv_def
  proof
    fix k
    have own: "timerInv opts s key" and other: "k \<noteq> key \<Longrightarrow> keyInv opts s k"
      using assms by (simp_all add: invBut_def)
    show "keyInv opts (schedule opts gate s key) k"
    proof (cases "k = key")
      case True
      with own \<open>gate\<close> show ?thesis
        by (cases "entries s key")
          (auto simp: keyInv_def timerInv_def schedule_def Let_def delayOk_def split: if_splits)
    next
      case False
      with other \<open>gate\<close> show ?thesis
        by (cases "entries s key") (auto simp: keyInv_def schedule_def Let_def split: option.splits)
    qed
  qed
qed

lemma fire_inv:
  assumes "schedInv opts s" and "(key, i, d) \<in> set (timers s)"
  shows "schedInv opts (fire s key i)"
  unfolding schedInv_def
proof
  fix k
  have own: "keyInv opts s key" and other: "keyInv opts s k" for k
    using assms(1) by (simp_all add: schedInv_def)
  have mem: "(key, i, d) \<in> set (timersFor (timers s) key)" using assms(2) by (simp add: timersFor_def)
  show "keyInv opts (fire s key i) k"
  proof (cases "k = key")
    case True
    with own mem show ?thesis
      by (auto simp: keyInv_def fire_def timersFor_drop_own split: option.splits if_splits)
  next
    case False
    with other [of k] show ?thesis
      by (auto simp: keyInv_def fire_def split: option.splits if_splits)
  qed
qed

text \<open>Settling an attempt whose entry is not the current one changes nothing but the attempt list.\<close>

lemma settle_inv:
  assumes "schedInv opts s" shows "schedInv opts (settle opts ok gate gate2 s key i)"
proof -
  let ?s1 = "s\<lparr>inflight := remove1 (key, i) (inflight s)\<rparr>"
  have but: "invBut opts s key" using assms by (rule schedInv_but)
  have others: "keyInv opts ?s1 k" if "k \<noteq> key" for k
  proof -
    have "keyInv opts s k" using assms by (simp add: schedInv_def)
    with that show ?thesis by (cases "entries s k") (auto simp: keyInv_def in_set_remove1)
  qed
  have but1: "invBut opts ?s1 key"
    using but others by (cases "entries s key") (simp_all add: invBut_def timerInv_def)
  show ?thesis
  proof (cases "ok \<or> \<not> gate")
    case True
    with clearKey_inv [OF but1] show ?thesis by (auto simp: settle_def Let_def)
  next
    case go: False
    show ?thesis
    proof (cases "entries s key")
      case None
      with others assms have "schedInv opts ?s1"
        unfolding schedInv_def by (metis (mono_tags, lifting) keyInv_def option.simps(4)
            scheduler.select_convs(1,2) scheduler.surjective scheduler.update_convs(3))
      with go None show ?thesis by (simp add: settle_def Let_def)
    next
      case (Some e)
      show ?thesis
      proof (cases "entryId e = i")
        case True
        let ?s2 = "?s1\<lparr>entries := (entries s)(key := Some (e\<lparr>delayMs := min (delayMs e * 2) (maxMs opts)\<rparr>))\<rparr>"
        have "delayOk opts (delayMs e)"
          using but Some by (auto simp: invBut_def timerInv_def)
        from invBut_delay [OF but1 _ delayOk_double [OF this]] Some have "invBut opts ?s2 key" by simp
        from schedule_inv [OF this] go Some True show ?thesis by (simp add: settle_def Let_def)
      next
        case False
        have "keyInv opts ?s1 key"
        proof -
          have "keyInv opts s key" using assms by (simp add: schedInv_def)
          with Some False show ?thesis by (auto simp: keyInv_def in_set_remove1)
        qed
        with others have "schedInv opts ?s1" unfolding schedInv_def by metis
        with go Some False show ?thesis by (simp add: settle_def Let_def)
      qed
    qed
  qed
qed

text \<open>The invariant holds in every run.\<close>

lemma sched_run_inv: "sched_run opts s \<Longrightarrow> schedInv opts s"
proof (induction rule: sched_run.induct)
  case start
  show ?case by (rule schedInv_init)
next
  case (schedule s gate key)
  from schedule_inv [OF schedInv_but [OF schedule.IH]] show ?case .
next
  case (clear s key)
  from clearKey_inv [OF schedInv_but [OF clear.IH]] show ?case .
next
  case (fire s key i d)
  from fire_inv [OF fire.IH fire.hyps(2)] show ?case .
next
  case (settle s key i ok gate gate2)
  from settle_inv [OF settle.IH] show ?case .
qed

lemma schedInv_one_timer: "schedInv opts s \<Longrightarrow> length (timersFor (timers s) k) \<le> 1"
  by (auto simp: schedInv_def keyInv_def dest!: spec [of _ k] split: option.splits if_splits)

lemma schedInv_alive:
  "schedInv opts s \<Longrightarrow> entries s k = Some e \<Longrightarrow>
   (\<exists>d. (k, entryId e, d) \<in> set (timers s)) \<or> (k, entryId e) \<in> set (inflight s)"
proof -
  assume "schedInv opts s" and e: "entries s k = Some e"
  then have "keyInv opts s k" by (simp add: schedInv_def)
  moreover have "set (timersFor (timers s) k) \<subseteq> set (timers s)" by (auto simp: timersFor_def)
  ultimately show ?thesis using e by (auto simp: keyInv_def split: if_splits)
qed

text \<open>A failed attempt of the current entry, not abandoned, is armed again with the doubled delay.\<close>

lemma settle_rearms:
  assumes "entries s key = Some e" and "\<not> armed e"
  shows "isArmed (settle opts False True True s key (entryId e)) key"
    and "pendingDelayMs (settle opts False True True s key (entryId e)) key =
      Some (min (delayMs e * 2) (maxMs opts))"
  using assms
  by (simp_all add: settle_def schedule_def Let_def isArmed_def pendingDelayMs_def)

text \<open>The delay after \<open>n\<close> failures in a row.\<close>

lemma backoff_iterate:
  assumes "baseMs opts \<le> maxMs opts"
  shows "((\<lambda>d. min (d * 2) (maxMs opts)) ^^ n) (baseMs opts) = min (baseMs opts * 2 ^ n) (maxMs opts)"
proof (induction n)
  case 0
  with assms show ?case by simp
next
  case (Suc n)
  then show ?case by (auto simp: min_def)
qed

subsection \<open>Properties\<close>

text \<open>C38: In every run of the scheduler - schedules, clears, timers that fire and attempts that settle in any
  order, late ones included - a key has at most one timer, a key without an entry has none, an entry
  that is not armed has its attempt in flight, so no retry loop dies on its own, and every delay stays
  within the configured range.\<close>

theorem scheduler_invariant:
  assumes "sched_run opts s"
  shows "length (timersFor (timers s) k) \<le> 1 \<and>
    (case entries s k of
       None \<Rightarrow> timersFor (timers s) k = []
     | Some e \<Rightarrow>
         ((\<exists>d. (k, entryId e, d) \<in> set (timers s)) \<or> (k, entryId e) \<in> set (inflight s)) \<and>
         min (baseMs opts) (maxMs opts) \<le> delayMs e \<and> delayMs e \<le> max (baseMs opts) (maxMs opts))"
proof -
  note inv = sched_run_inv [OF assms]
  then have k: "keyInv opts s k" by (simp add: schedInv_def)
  then show ?thesis
    using schedInv_one_timer [OF inv, of k] schedInv_alive [OF inv, of k]
    by (cases "entries s k") (auto simp: keyInv_def delayOk_def)
qed

theorem scheduler_invariant_witness:
  "length (timersFor (timers (schedule \<lparr>baseMs = 10, maxMs = 50\<rparr> True initScheduler [1])) [1]) \<le> 1"
proof -
  have "sched_run \<lparr>baseMs = 10, maxMs = 50\<rparr> (schedule \<lparr>baseMs = 10, maxMs = 50\<rparr> True initScheduler [1])"
    by (rule sched_run.schedule [OF sched_run.start])
  from scheduler_invariant [OF this, of "[1]"] show ?thesis by blast
qed

text \<open>An attempt of the current entry that failed and was not abandoned is armed again, with its delay
  doubled up to the maximum; after \<open>n\<close> failures in a row the delay is the base doubled \<open>n\<close> times,
  capped.\<close>

theorem failure_backs_off:
  assumes "entries s key = Some e" and "\<not> armed e" and "delayMs e = min (baseMs opts * 2 ^ n) (maxMs opts)"
  shows "isArmed (settle opts False True True s key (entryId e)) key \<and>
    pendingDelayMs (settle opts False True True s key (entryId e)) key =
      Some (min (baseMs opts * 2 ^ Suc n) (maxMs opts))"
proof -
  have "min (delayMs e * 2) (maxMs opts) = min (baseMs opts * 2 ^ Suc n) (maxMs opts)"
    unfolding assms(3) by (auto simp: min_def)
  with settle_rearms [OF assms(1,2), of opts] show ?thesis by simp
qed

theorem failure_backs_off_witness:
  "pendingDelayMs (settle \<lparr>baseMs = 10, maxMs = 50\<rparr> False True True
     (fire (schedule \<lparr>baseMs = 10, maxMs = 50\<rparr> True initScheduler [1]) [1] 0) [1] 0) [1] = Some 20"
proof -
  let ?o = "\<lparr>baseMs = 10, maxMs = 50\<rparr>"
  let ?s = "fire (schedule ?o True initScheduler [1]) [1] 0"
  let ?e = "\<lparr>entryId = 0, delayMs = 10, armed = False\<rparr>"
  have e: "entries ?s [1] = Some ?e" "\<not> armed ?e" "delayMs ?e = min (baseMs ?o * 2 ^ 0) (maxMs ?o)"
    by (simp_all add: fire_def schedule_def initScheduler_def Let_def)
  from failure_backs_off [OF e] show ?thesis by simp
qed

end
