(* ===== verification/Pages.thy ===== *)
theory Pages
  imports Js_Text
begin

text \<open>
  Reading a cursor-paginated listing to the end, \<open>packages/core/src/util/pages.ts\<close>. The far side is
  the function \<open>fetch\<close>: the answer to the call with that number and cursor, or the exception of
  the call.
\<close>

record 'a page =
  pageItems :: "'a list"
  nextCursor :: "jsstr option"

datatype 'e pageError = FetchFailed 'e | ListingError jsstr

definition MAX_PAGES :: nat where "MAX_PAGES = 50"

definition sameCursorTwice :: "jsstr \<Rightarrow> jsstr" where
  "sameCursorTwice what =
     what @ js '': your agent returned the same page cursor twice, so the listing cannot be finished''"

definition tooManyPages :: "jsstr \<Rightarrow> nat \<Rightarrow> jsstr" where
  "tooManyPages what maxPages =
     what @ js ('': still more after '' @ natString maxPages @ '' pages '') @ [0x2014]
     @ js '' refusing to keep asking, because a listing this long is ''
     @ js ''an agent misbehaving rather than a pool this size''"

text \<open>The loop: \<open>left\<close> is \<open>maxPages - page\<close>.\<close>

fun collectLoop ::
    "jsstr \<Rightarrow> (nat \<Rightarrow> jsstr option \<Rightarrow> 'e + 'a page) \<Rightarrow> nat \<Rightarrow> nat \<Rightarrow> nat \<Rightarrow> jsstr option \<Rightarrow> 'a list
     \<Rightarrow> 'e pageError + 'a list" where
  "collectLoop what fetch maxPages 0 page cursor all_items = Inl (ListingError (tooManyPages what maxPages))"
| "collectLoop what fetch maxPages (Suc left) page cursor all_items =
     (case fetch page cursor of
        Inl e \<Rightarrow> Inl (FetchFailed e)
      | Inr nxt \<Rightarrow>
          (case nextCursor nxt of
             None \<Rightarrow> Inr (all_items @ pageItems nxt)
           | Some c \<Rightarrow>
               if cursor = Some c then Inl (ListingError (sameCursorTwice what))
               else collectLoop what fetch maxPages left (page + 1) (Some c) (all_items @ pageItems nxt)))"

definition collectPages ::
    "jsstr \<Rightarrow> (nat \<Rightarrow> jsstr option \<Rightarrow> 'e + 'a page) \<Rightarrow> nat \<Rightarrow> 'e pageError + 'a list" where
  "collectPages what fetch maxPages = collectLoop what fetch maxPages maxPages 0 None []"

subsection \<open>A complete listing\<close>

text \<open>
  \<open>listing fetch n c ps\<close>: the far side answers \<open>ps\<close> from call \<open>n\<close> with cursor \<open>c\<close> on, each page but the
  last carrying the cursor of the next and the last carrying none.
\<close>

fun listing :: "(nat \<Rightarrow> jsstr option \<Rightarrow> 'e + 'a page) \<Rightarrow> nat \<Rightarrow> jsstr option \<Rightarrow> 'a page list \<Rightarrow> bool" where
  "listing fetch n c [] \<longleftrightarrow> False"
| "listing fetch n c (p # ps) \<longleftrightarrow> fetch n c = Inr p \<and>
     (case nextCursor p of None \<Rightarrow> ps = [] | Some c' \<Rightarrow> c \<noteq> Some c' \<and> listing fetch (n + 1) (Some c') ps)"

lemma collectLoop_iff:
  "collectLoop what fetch maxPages left n c acc = Inr xs \<longleftrightarrow>
   (\<exists>ps. listing fetch n c ps \<and> length ps \<le> left \<and> xs = acc @ concat (map pageItems ps))"
proof (induction left arbitrary: n c acc)
  case 0
  have "\<not> (listing fetch n c ps \<and> length ps \<le> 0)" for ps by (cases ps) auto
  then show ?case by auto
next
  case (Suc left)
  show ?case
  proof (cases "fetch n c")
    case (Inl e)
    have "\<not> listing fetch n c ps" for ps using Inl by (cases ps) auto
    with Inl show ?thesis by auto
  next
    case (Inr p)
    have split: "(\<exists>ps. listing fetch n c ps \<and> length ps \<le> Suc left \<and> Q ps) \<longleftrightarrow>
        (case nextCursor p of None \<Rightarrow> Q [p]
         | Some c' \<Rightarrow> c \<noteq> Some c' \<and> (\<exists>ps. listing fetch (n + 1) (Some c') ps \<and> length ps \<le> left \<and> Q (p # ps)))" for Q
    proof
      assume "\<exists>ps. listing fetch n c ps \<and> length ps \<le> Suc left \<and> Q ps"
      then obtain ps where ps: "listing fetch n c ps" "length ps \<le> Suc left" "Q ps" by blast
      with Inr show "case nextCursor p of None \<Rightarrow> Q [p]
         | Some c' \<Rightarrow> c \<noteq> Some c' \<and> (\<exists>ps. listing fetch (n + 1) (Some c') ps \<and> length ps \<le> left \<and> Q (p # ps))"
        by (cases ps) (auto split: option.splits)
    next
      assume a: "case nextCursor p of None \<Rightarrow> Q [p]
         | Some c' \<Rightarrow> c \<noteq> Some c' \<and> (\<exists>ps. listing fetch (n + 1) (Some c') ps \<and> length ps \<le> left \<and> Q (p # ps))"
      show "\<exists>ps. listing fetch n c ps \<and> length ps \<le> Suc left \<and> Q ps"
      proof (cases "nextCursor p")
        case None
        with a Inr show ?thesis by (intro exI [of _ "[p]"]) simp
      next
        case (Some c')
        with a obtain ps where "c \<noteq> Some c'" "listing fetch (n + 1) (Some c') ps" "length ps \<le> left" "Q (p # ps)"
          by auto
        with Some Inr show ?thesis by (intro exI [of _ "p # ps"]) simp
      qed
    qed
    show ?thesis
      unfolding split [of "\<lambda>ps. xs = acc @ concat (map pageItems ps)"]
      using Inr Suc.IH by (auto split: option.splits)
  qed
qed

lemma collectPages_iff:
  "collectPages what fetch maxPages = Inr xs \<longleftrightarrow>
   (\<exists>ps. listing fetch 0 None ps \<and> length ps \<le> maxPages \<and> xs = concat (map pageItems ps))"
  by (simp add: collectPages_def collectLoop_iff)

text \<open>No more calls are made than the bound: answers from call \<open>maxPages\<close> on do not matter.\<close>

lemma collectLoop_calls:
  "(\<And>k c. k < n + left \<Longrightarrow> f k c = g k c) \<Longrightarrow>
   collectLoop what f maxPages left n c acc = collectLoop what g maxPages left n c acc"
proof (induction left arbitrary: n c acc)
  case (Suc left)
  have "f n c = g n c" using Suc.prems [of n c] by simp
  moreover have "collectLoop what f maxPages left (n + 1) c' a = collectLoop what g maxPages left (n + 1) c' a" for c' a
    by (rule Suc.IH) (use Suc.prems in simp)
  ultimately show ?case by (auto split: sum.splits option.splits)
qed simp

subsection \<open>Properties\<close>

text \<open>\<open>collectPages\<close> returns a list exactly when the far side answers a listing that ends within the page
  bound and never repeats the cursor it was asked for, and then it is every item of every page in
  order: a truncated or looping listing is an error and never a shorter list.\<close>

theorem pages_complete:
  "collectPages what fetch maxPages = Inr xs \<longleftrightarrow>
   (\<exists>ps. listing fetch 0 None ps \<and> length ps \<le> maxPages \<and> xs = concat (map pageItems ps))"
  by (rule collectPages_iff)

text \<open>C40: \<open>collectPages\<close> makes at most \<open>maxPages\<close> calls: two far sides that agree on those calls get the same
  result, however they would answer further ones.\<close>

theorem pages_bounded_calls:
  assumes "\<And>k c. k < maxPages \<Longrightarrow> f k c = g k c"
  shows "collectPages what f maxPages = collectPages what g maxPages"
  unfolding collectPages_def by (rule collectLoop_calls) (use assms in simp)

theorem pages_bounded_calls_witness:
  "collectPages [] (\<lambda>k c. Inr \<lparr>pageItems = [k], nextCursor = Some (replicate k 1)\<rparr>) 2 =
   (collectPages [] (\<lambda>k c. if k < 2 then Inr \<lparr>pageItems = [k], nextCursor = Some (replicate k 1)\<rparr> else Inl ()) 2
     :: unit pageError + nat list)"
  by (rule pages_bounded_calls) simp

end
