(* ===== verification/Base64url.thy ===== *)
theory Base64url
  imports Js_Text
begin

text \<open>
  Unpadded base64url, \<open>packages/core/src/util/base64url.ts\<close>. Text is a list of code units as
  numbers. \<open>btoa\<close> and \<open>atob\<close> are the platform's (HTML standard, forgiving-base64): \<open>atob\<close> ignores the
  low bits of a last symbol that no byte uses, which is what the decoder has to guard against.
\<close>

type_synonym units = "nat list"

definition ascii :: "string \<Rightarrow> units" where
  "ascii s = map of_char s"

definition b64Char :: "nat \<Rightarrow> nat" where
  "b64Char v = (if v < 26 then 65 + v else if v < 52 then 71 + v else if v < 62 then v - 4
                else if v = 62 then 43 else 47)"

definition b64Value :: "nat \<Rightarrow> nat option" where
  "b64Value c = (if 65 \<le> c \<and> c \<le> 90 then Some (c - 65) else if 97 \<le> c \<and> c \<le> 122 then Some (c - 71)
                 else if 48 \<le> c \<and> c \<le> 57 then Some (c + 4) else if c = 43 then Some 62
                 else if c = 47 then Some 63 else None)"

text \<open>\<open>btoa\<close> of a string of byte-valued code units.\<close>

fun btoa :: "nat list \<Rightarrow> units" where
  "btoa (a # b # c # r) =
     [b64Char (a div 4), b64Char (a mod 4 * 16 + b div 16), b64Char (b mod 16 * 4 + c div 64), b64Char (c mod 64)]
     @ btoa r"
| "btoa [a, b] = [b64Char (a div 4), b64Char (a mod 4 * 16 + b div 16), b64Char (b mod 16 * 4), 61]"
| "btoa [a] = [b64Char (a div 4), b64Char (a mod 4 * 16), 61, 61]"
| "btoa [] = []"

fun fromSextets :: "nat list \<Rightarrow> nat list option" where
  "fromSextets (a # b # c # d # r) =
     map_option (\<lambda>bs. [a * 4 + b div 16, b mod 16 * 16 + c div 4, c mod 4 * 64 + d] @ bs) (fromSextets r)"
| "fromSextets [a, b, c] = Some [a * 4 + b div 16, b mod 16 * 16 + c div 4]"
| "fromSextets [a, b] = Some [a * 4 + b div 16]"
| "fromSextets [a] = None"
| "fromSextets [] = Some []"

fun b64Values :: "units \<Rightarrow> nat list option" where
  "b64Values [] = Some []"
| "b64Values (c # cs) = (case b64Value c of None \<Rightarrow> None | Some v \<Rightarrow> map_option (Cons v) (b64Values cs))"

text \<open>On a length divisible by four up to two padding characters are dropped first.\<close>

definition stripPadding :: "units \<Rightarrow> units" where
  "stripPadding s =
     (if length s mod 4 = 0 then
        (if drop (length s - 2) s = [61, 61] then take (length s - 2) s
         else if drop (length s - 1) s = [61] then take (length s - 1) s else s)
      else s)"

definition atob :: "units \<Rightarrow> nat list option" where
  "atob s = Option.bind (b64Values (stripPadding s)) fromSextets"

definition toUrl :: "nat \<Rightarrow> nat" where
  "toUrl c = (if c = 43 then 45 else if c = 47 then 95 else c)"

definition fromUrl :: "nat \<Rightarrow> nat" where
  "fromUrl c = (if c = 45 then 43 else if c = 95 then 47 else c)"

text \<open>\<open>replace(/=+$/, "")\<close>.\<close>

definition dropPads :: "units \<Rightarrow> units" where
  "dropPads s = rev (dropWhile (\<lambda>c. c = 61) (rev s))"

definition bytesToBase64url :: "bytes \<Rightarrow> units" where
  "bytesToBase64url bs = dropPads (map toUrl (btoa (map unat bs)))"

definition base64urlAlphabet :: "nat \<Rightarrow> bool" where
  "base64urlAlphabet c \<longleftrightarrow> (65 \<le> c \<and> c \<le> 90) \<or> (97 \<le> c \<and> c \<le> 122) \<or> (48 \<le> c \<and> c \<le> 57) \<or> c = 45 \<or> c = 95"

datatype base64Error =
    NotBase64url | BadLength | NonCanonical | AtobFailed

definition base64urlToBytes :: "units \<Rightarrow> base64Error + bytes" where
  "base64urlToBytes s =
     throwIf (\<not> list_all base64urlAlphabet s) NotBase64url
     (throwIf (length s mod 4 = 1) BadLength
     (let pad = (if length s mod 4 = 2 then [61, 61] else if length s mod 4 = 3 then [61] else []);
          b64 = map fromUrl (s @ pad)
      in bindE (orThrow (atob b64) AtobFailed) (\<lambda>bin.
         let out = map word_of_nat bin in
         throwIf (bytesToBase64url out \<noteq> s) NonCanonical (Inr out))))"

subsection \<open>Symbols\<close>

lemma b64Value_char: "v < 64 \<Longrightarrow> b64Value (b64Char v) = Some v"
  by (auto simp: b64Value_def b64Char_def)

lemma b64Char_url:
  "v < 64 \<Longrightarrow> base64urlAlphabet (toUrl (b64Char v)) \<and> fromUrl (toUrl (b64Char v)) = b64Char v \<and>
    b64Char v \<noteq> 61 \<and> toUrl (b64Char v) \<noteq> 61"
  by (auto simp: b64Char_def toUrl_def fromUrl_def base64urlAlphabet_def)

text \<open>The encoding without padding, as the six-bit values of its symbols.\<close>

fun sextets :: "nat list \<Rightarrow> nat list" where
  "sextets (a # b # c # r) = [a div 4, a mod 4 * 16 + b div 16, b mod 16 * 4 + c div 64, c mod 64] @ sextets r"
| "sextets [a, b] = [a div 4, a mod 4 * 16 + b div 16, b mod 16 * 4]"
| "sextets [a] = [a div 4, a mod 4 * 16]"
| "sextets [] = []"

definition padFor :: "nat \<Rightarrow> units" where
  "padFor n = (if n mod 4 = 2 then [61, 61] else if n mod 4 = 3 then [61] else [])"

lemma length_sextets_mod: "length (sextets bs) mod 4 \<noteq> 1"
  by (induction bs rule: sextets.induct) auto

lemma btoa_sextets: "btoa bs = map b64Char (sextets bs) @ padFor (length (sextets bs))"
  by (induction bs rule: btoa.induct) (simp_all add: padFor_def)

lemma sextet_bounds:
  fixes a b c :: nat
  assumes "a < 256" "b < 256" "c < 256"
  shows "a div 4 < 64 \<and> a mod 4 * 16 + b div 16 < 64 \<and> b mod 16 * 4 + c div 64 < 64 \<and> c mod 64 < 64 \<and>
    a mod 4 * 16 < 64 \<and> b mod 16 * 4 < 64"
proof -
  have "a mod 4 < 4" "b mod 16 < 16" "c mod 64 < 64" "a div 4 < 64" "b div 16 < 16" "c div 64 < 4"
    using assms by auto
  then show ?thesis by linarith
qed

lemma split_at: "(y :: nat) < n \<Longrightarrow> (x * n + y) div n = x \<and> (x * n + y) mod n = y"
  by simp

lemma sextets_lt: "list_all (\<lambda>b. b < 256) bs \<Longrightarrow> list_all (\<lambda>v. v < 64) (sextets bs)"
proof (induction bs rule: sextets.induct)
  case (1 a b c r)
  then show ?case using sextet_bounds [of a b c] by simp
next
  case (2 a b)
  then show ?case using sextet_bounds [of a b 0] by simp
next
  case (3 a)
  then show ?case using sextet_bounds [of a 0 0] by simp
qed simp

lemma rejoin:
  fixes a b c :: nat
  assumes "a < 256" "b < 256" "c < 256"
  shows "a div 4 * 4 + (a mod 4 * 16 + b div 16) div 16 = a"
    and "(a mod 4 * 16 + b div 16) mod 16 * 16 + (b mod 16 * 4 + c div 64) div 4 = b"
    and "(b mod 16 * 4 + c div 64) mod 4 * 64 + c mod 64 = c"
proof -
  have lt: "b div 16 < 16" "c div 64 < 4" using assms by auto
  note s = split_at [OF lt(1), of "a mod 4"] split_at [OF lt(2), of "b mod 16"]
  show "a div 4 * 4 + (a mod 4 * 16 + b div 16) div 16 = a"
    and "(a mod 4 * 16 + b div 16) mod 16 * 16 + (b mod 16 * 4 + c div 64) div 4 = b"
    and "(b mod 16 * 4 + c div 64) mod 4 * 64 + c mod 64 = c"
    by (simp_all only: s div_mult_mod_eq)
qed

lemma fromSextets_sextets: "list_all (\<lambda>b. b < 256) bs \<Longrightarrow> fromSextets (sextets bs) = Some bs"
proof (induction bs rule: sextets.induct)
  case (1 a b c r)
  then show ?case using rejoin [of a b c] by (simp del: mod_add_self1 div_mult_self3)
next
  case (2 a b)
  then show ?case using rejoin [of a b 0] by simp
next
  case (3 a)
  then show ?case using rejoin [of a 0 0] by simp
qed simp

lemma b64Values_chars: "list_all (\<lambda>v. v < 64) vs \<Longrightarrow> b64Values (map b64Char vs) = Some vs"
  by (induction vs) (auto simp: b64Value_char)

subsection \<open>Round trip\<close>

lemma bytes_lt256: "list_all (\<lambda>b. b < 256) (map unat (bs :: bytes))"
  using unat_byte_lt by (simp add: list_all_iff)

lemma dropPads_plain:
  assumes "list_all (\<lambda>c. c \<noteq> 61) xs"
  shows "dropPads (xs @ replicate n 61) = xs"
proof -
  have "dropWhile (\<lambda>c. c = 61) (replicate n 61 @ ys) = dropWhile (\<lambda>c. c = 61) ys" for ys :: units
    by (induction n) auto
  moreover have "dropWhile (\<lambda>c. c = 61) (rev xs) = rev xs"
    using assms by (cases xs rule: rev_cases) auto
  ultimately show ?thesis by (simp add: dropPads_def)
qed

lemma padFor_replicate: "padFor n = replicate (length (padFor n)) 61"
  by (simp add: padFor_def numeral_2_eq_2)

lemma encode_eq: "bytesToBase64url bs = map (toUrl \<circ> b64Char) (sextets (map unat bs))"
proof -
  let ?v = "sextets (map unat bs)"
  have "list_all (\<lambda>c. c \<noteq> 61) (map (toUrl \<circ> b64Char) ?v)"
    using sextets_lt [OF bytes_lt256 [of bs]] b64Char_url by (auto simp: list_all_iff)
  from dropPads_plain [OF this, of "length (padFor (length ?v))"] show ?thesis
    by (simp add: bytesToBase64url_def btoa_sextets padFor_replicate [symmetric] toUrl_def padFor_def
        split: if_splits)
qed

lemma stripPadding_encoded:
  assumes "list_all (\<lambda>c. c \<noteq> 61) xs" and "length xs mod 4 \<noteq> 1"
  shows "stripPadding (xs @ padFor (length xs)) = xs"
proof -
  have "length xs mod 4 = 0 \<or> length xs mod 4 = 2 \<or> length xs mod 4 = 3" using assms(2) by arith
  then consider (z) "length xs mod 4 = 0" | (two) "length xs mod 4 = 2" | (three) "length xs mod 4 = 3" by auto
  then show ?thesis
  proof cases
    case z
    have in_xs: "drop n xs \<noteq> [61, 61] \<and> drop n xs \<noteq> [61]" for n
      using assms(1) by (auto simp: list_all_iff dest: in_set_dropD [of 61])
        (metis in_set_dropD list.set_intros(1))+
    with z show ?thesis by (simp add: stripPadding_def padFor_def)
  next
    case two
    then have "(length xs + 2) mod 4 = 0" by presburger
    with two show ?thesis by (simp add: stripPadding_def padFor_def)
  next
    case three
    then have m: "(length xs + 1) mod 4 = 0" by presburger
    have "xs \<noteq> []" using three by auto
    then obtain ys y where xs: "xs = ys @ [y]" by (cases xs rule: rev_cases) auto
    with assms(1) have "y \<noteq> 61" by simp
    with three m xs show ?thesis by (simp add: stripPadding_def padFor_def)
  qed
qed

lemma decode_encode: "base64urlToBytes (bytesToBase64url bs) = Inr bs"
proof -
  let ?v = "sextets (map unat bs)" and ?s = "bytesToBase64url bs"
  have v: "list_all (\<lambda>v. v < 64) ?v" by (rule sextets_lt [OF bytes_lt256])
  have len: "length ?s = length ?v" by (simp add: encode_eq)
  have al: "list_all base64urlAlphabet ?s"
    using v b64Char_url by (auto simp: encode_eq list_all_iff)
  have mp: "map fromUrl ?s = map b64Char ?v"
    using v b64Char_url by (auto simp: encode_eq list_all_iff)
  have "map fromUrl (?s @ padFor (length ?v)) = map b64Char ?v @ padFor (length (map b64Char ?v))"
    by (simp add: mp padFor_def fromUrl_def)
  moreover have "stripPadding (map b64Char ?v @ padFor (length (map b64Char ?v))) = map b64Char ?v"
  proof (rule stripPadding_encoded)
    show "list_all (\<lambda>c. c \<noteq> 61) (map b64Char ?v)"
      using v b64Char_url by (auto simp: list_all_iff)
    show "length (map b64Char ?v) mod 4 \<noteq> 1" using length_sextets_mod by simp
  qed
  ultimately have at: "atob (map fromUrl (?s @ padFor (length ?v))) = Some (map unat bs)"
    by (simp add: atob_def b64Values_chars [OF v] fromSextets_sextets [OF bytes_lt256])
  have m1: "length ?s mod 4 \<noteq> 1" using length_sextets_mod len by simp
  have "(if length ?s mod 4 = 2 then [61, 61] else if length ?s mod 4 = 3 then [61] else []) = padFor (length ?v)"
    by (simp add: padFor_def len)
  then show ?thesis
    unfolding base64urlToBytes_def Let_def
    using al m1 at by (simp add: comp_def)
qed

text \<open>Only the encoding itself is accepted.\<close>

lemma decode_canonical: "base64urlToBytes s = Inr bs \<Longrightarrow> bytesToBase64url bs = s"
  by (auto simp: base64urlToBytes_def Let_def bindE_Inr split: if_splits)

lemma base64url_bij: "base64urlToBytes s = Inr bs \<longleftrightarrow> s = bytesToBase64url bs"
  using decode_canonical decode_encode by metis

subsection \<open>Properties\<close>

text \<open>\<open>base64urlToBytes\<close> accepts exactly the strings that \<open>bytesToBase64url\<close> produces and is its inverse on
  them: every byte string has one encoding, and no other string - padded, with stray bits in the last
  character or outside the alphabet - decodes to it.\<close>

theorem base64url_canonical: "base64urlToBytes s = Inr bs \<longleftrightarrow> s = bytesToBase64url bs"
  by (rule base64url_bij)

end
