(* ===== verification/Ip_Address.thy ===== *)
theory Ip_Address
  imports Js_Strings
begin

unbundle bit_operations_syntax

text \<open>
  The IP address literals of \<open>packages/core/src/did/egress-guard.ts\<close>: parsing of dotted quads and of
  IPv6 literals, and the tables of the address ranges that are not public. The facts say which literals
  parse and, octet by octet and group by group, which addresses are refused.
\<close>

subsection \<open>IPv4\<close>

type_synonym ipv4 = "nat \<times> nat \<times> nat \<times> nat"

definition parseOctet :: "jsstr \<Rightarrow> nat option" where
  "parseOctet octet =
     (if \<not> (1 \<le> length octet \<and> length octet \<le> 3 \<and> list_all isDigit octet) then None
      else if length octet > 1 \<and> startsWith octet (js ''0'') then None
      else let n = ofDigits octet in if n > 255 then None else Some n)"

definition parseIpv4 :: "jsstr \<Rightarrow> ipv4 option" where
  "parseIpv4 s =
     (case splitOn 46 s of
        [p, q, r, t] \<Rightarrow>
          (case (parseOctet p, parseOctet q, parseOctet r, parseOctet t) of
             (Some a, Some b, Some c, Some d) \<Rightarrow> Some (a, b, c, d)
           | _ \<Rightarrow> None)
      | _ \<Rightarrow> None)"

text \<open>\<open>x >>> 0\<close>: the value as an unsigned 32-bit integer.\<close>

definition toUint32 :: "nat \<Rightarrow> nat" where "toUint32 n = take_bit 32 n"

fun v4ToUint :: "ipv4 \<Rightarrow> nat" where
  "v4ToUint (a, b, c, d) = toUint32 (push_bit 24 a) + push_bit 16 b + push_bit 8 c + d"

text \<open>Network and prefix length.\<close>

definition V4_BLOCKED :: "(nat \<times> nat) list" where
  "V4_BLOCKED = map (\<lambda>(net, prefixLen). (v4ToUint (the (parseIpv4 (js net))), prefixLen))
     [(''0.0.0.0'', 8), (''10.0.0.0'', 8), (''100.64.0.0'', 10), (''127.0.0.0'', 8),
      (''169.254.0.0'', 16), (''172.16.0.0'', 12), (''192.0.0.0'', 24), (''192.0.2.0'', 24),
      (''192.168.0.0'', 16), (''198.18.0.0'', 15), (''198.51.100.0'', 24), (''203.0.113.0'', 24),
      (''224.0.0.0'', 4), (''240.0.0.0'', 4)]"

definition v4Blocked :: "nat \<Rightarrow> bool" where
  "v4Blocked n = list_ex (\<lambda>(net, prefixLen). let shift = 32 - prefixLen in
     drop_bit shift (toUint32 n) = drop_bit shift (toUint32 net)) V4_BLOCKED"

subsection \<open>IPv6\<close>

definition v6Blocked :: "nat list \<Rightarrow> bool" where
  "v6Blocked groups =
     (let g = (\<lambda>i. if i < length groups then groups ! i else 0);
          zeros = (\<lambda>from_i to_i. list_all (\<lambda>x. x = 0) (take (to_i - from_i) (drop from_i groups)));
          embedded = (\<lambda>hi lo. v4Blocked (toUint32 (push_bit 16 hi) + lo))
      in if zeros 0 6 then embedded (g 6) (g 7)
         else if zeros 0 5 \<and> g 5 = 0xffff then embedded (g 6) (g 7)
         else if zeros 0 4 \<and> g 4 = 0xffff \<and> g 5 = 0 then embedded (g 6) (g 7)
         else if g 0 = 0x64 \<and> g 1 = 0xff9b \<and> zeros 2 6 then embedded (g 6) (g 7)
         else if g 0 = 0x64 \<and> g 1 = 0xff9b \<and> g 2 = 1 then True
         else if g 0 = 0x2002 then embedded (g 1) (g 2)
         else if g 0 = 0x2001 \<and> g 1 < 0x200 then True
         else if g 0 = 0x2001 \<and> g 1 = 0xdb8 then True
         else if g 0 = 0x3fff \<and> g 1 AND 0xf000 = 0 then True
         else g 0 AND 0xe000 \<noteq> 0x2000)"

definition hexPiece :: "jsstr \<Rightarrow> nat option" where
  "hexPiece piece =
     (if 1 \<le> length piece \<and> length piece \<le> 4 \<and> list_all isHexDigit piece
      then Some (ofHexDigits piece) else None)"

fun hexPieces :: "jsstr list \<Rightarrow> nat list option" where
  "hexPieces [] = Some []"
| "hexPieces (p # ps) =
     (case hexPiece p of None \<Rightarrow> None | Some n \<Rightarrow> map_option (Cons n) (hexPieces ps))"

definition v6Groups :: "jsstr \<Rightarrow> nat list option" where
  "v6Groups part = (if part = [] then Some [] else hexPieces (splitOn 58 part))"

text \<open>\<open>s.indexOf("::")\<close> and \<open>s.lastIndexOf("::")\<close>.\<close>

fun gapAt :: "jsstr \<Rightarrow> nat option" where
  "gapAt (a # b # r) = (if a = 58 \<and> b = 58 then Some 0 else map_option Suc (gapAt (b # r)))"
| "gapAt _ = None"

fun lastGapAt :: "jsstr \<Rightarrow> nat option" where
  "lastGapAt (a # b # r) =
     (case lastGapAt (b # r) of
        Some i \<Rightarrow> Some (Suc i)
      | None \<Rightarrow> if a = 58 \<and> b = 58 then Some 0 else None)"
| "lastGapAt _ = None"

definition lastIndexOf :: "'a \<Rightarrow> 'a list \<Rightarrow> nat option" where
  "lastIndexOf c s = map_option (\<lambda>i. length s - 1 - i) (indexOf c (rev s))"

text \<open>The groups before a trailing dotted quad, and the two groups of the quad.\<close>

definition v6Tail :: "jsstr \<Rightarrow> nat \<Rightarrow> (jsstr \<times> nat list) option" where
  "v6Tail s lastColon =
     (if 46 \<notin> set s then Some (s, [])
      else case parseIpv4 (drop (lastColon + 1) s) of
        None \<Rightarrow> None
      | Some (a, b, c, d) \<Rightarrow>
          let tail_groups = [push_bit 8 a OR b, push_bit 8 c OR d];
              s1 = take (lastColon + 1) s;
              s2 = (if endsWith s1 (js ''::'') then s1 else take (length s1 - 1) s1)
          in Some (s2, tail_groups))"

definition parseIpv6 :: "jsstr \<Rightarrow> nat list option" where
  "parseIpv6 input =
     (let s0 = (if startsWith input (js ''['') \<and> endsWith input (js '']'')
                then take (length input - 2) (drop 1 input) else input) in
      if s0 = [] \<or> \<not> list_all (\<lambda>u. isHexDigit u \<or> u = 58 \<or> u = 46) s0 then None
      else case lastIndexOf 58 s0 of
        None \<Rightarrow> None
      | Some lastColon \<Rightarrow>
          (case v6Tail s0 lastColon of
             None \<Rightarrow> None
           | Some (s, tail_groups) \<Rightarrow>
               let want = 8 - length tail_groups in
               (case gapAt s of
                  None \<Rightarrow>
                    (case v6Groups s of
                       None \<Rightarrow> None
                     | Some all_groups \<Rightarrow>
                         if length all_groups \<noteq> want then None else Some (all_groups @ tail_groups))
                | Some gap \<Rightarrow>
                    if lastGapAt s \<noteq> Some gap then None
                    else (case (v6Groups (take gap s), v6Groups (drop (gap + 2) s)) of
                       (Some head, Some rest) \<Rightarrow>
                         if int want - int (length head) - int (length rest) < 1 then None
                         else Some (head @ replicate (want - length head - length rest) 0 @ rest @ tail_groups)
                     | _ \<Rightarrow> None))))"

definition isBlockedIp :: "jsstr \<Rightarrow> bool" where
  "isBlockedIp ip =
     (case parseIpv4 ip of
        Some v4 \<Rightarrow> v4Blocked (v4ToUint v4)
      | None \<Rightarrow> (case parseIpv6 ip of Some v6 \<Rightarrow> v6Blocked v6 | None \<Rightarrow> True))"

subsection \<open>IPv4 ranges by octet\<close>

definition octets :: "ipv4 \<Rightarrow> bool" where
  "octets v = (case v of (a, b, c, d) \<Rightarrow> a < 256 \<and> b < 256 \<and> c < 256 \<and> d < 256)"

text \<open>The ranges an address must not be in, octet by octet.\<close>

definition nonPublic :: "ipv4 \<Rightarrow> bool" where
  "nonPublic v = (case v of (a, b, c, d) \<Rightarrow>
     a = 0 \<or> a = 10 \<or> a = 127 \<or> a \<ge> 224 \<or>
     a = 100 \<and> 64 \<le> b \<and> b < 128 \<or>
     a = 169 \<and> b = 254 \<or>
     a = 172 \<and> 16 \<le> b \<and> b < 32 \<or>
     a = 192 \<and> (b = 168 \<or> b = 0 \<and> (c = 0 \<or> c = 2)) \<or>
     a = 198 \<and> (b = 18 \<or> b = 19 \<or> b = 51 \<and> c = 100) \<or>
     a = 203 \<and> b = 0 \<and> c = 113)"

lemma toUint32_id: "n < 2 ^ 32 \<Longrightarrow> toUint32 n = n"
  by (simp add: toUint32_def take_bit_nat_eq_self)

lemma v4ToUint_eq:
  assumes "octets (a, b, c, d)"
  shows "v4ToUint (a, b, c, d) = ((a * 256 + b) * 256 + c) * 256 + d"
proof -
  have "a * 16777216 < 2 ^ 32" using assms by (simp add: octets_def)
  then show ?thesis by (simp add: toUint32_id push_bit_eq_mult)
qed

lemma high_part: "(y :: nat) < m \<Longrightarrow> (x * m + y) div m = x"
  by simp

lemma pair_eq: "(y :: nat) < m \<Longrightarrow> y' < m \<Longrightarrow> x * m + y = x' * m + y' \<longleftrightarrow> x = x' \<and> y = y'"
  by (metis high_part mod_mult_self3 mod_less)

lemma part_div: "0 < (k :: nat) \<Longrightarrow> (x * (m * k) + y) div k = x * m + y div k"
  by (metis add.commute div_mult_self3 less_numeral_extra(3) mult.assoc)

subsection \<open>Dotted quads\<close>

definition digitUnit :: "nat \<Rightarrow> 16 word" where "digitUnit d = word_of_nat (48 + d)"

definition octetStr :: "nat \<Rightarrow> jsstr" where
  "octetStr n = map digitUnit
     (if n < 10 then [n] else if n < 100 then [n div 10, n mod 10] else [n div 100, n div 10 mod 10, n mod 10])"

fun quadStr :: "ipv4 \<Rightarrow> jsstr" where
  "quadStr (a, b, c, d) = joinWith [46] [octetStr a, octetStr b, octetStr c, octetStr d]"

lemma digitUnit_unat: "d < 10 \<Longrightarrow> unat (digitUnit d) = 48 + d"
  unfolding digitUnit_def unat_of_nat by simp

lemma digitUnit_facts: "d < 10 \<Longrightarrow> isDigit (digitUnit d) \<and> digitVal (digitUnit d) = d"
  by (simp add: isDigit_def digitVal_def digitUnit_unat)

lemma isDigit_unit: "isDigit u \<Longrightarrow> \<exists>d < 10. u = digitUnit d"
  unfolding isDigit_def
  by (intro exI [of _ "unat u - 48"]) (auto simp: digitUnit_def intro!: unsigned_word_eqI)

lemma digitUnit_eq: "d < 10 \<Longrightarrow> e < 10 \<Longrightarrow> digitUnit d = digitUnit e \<longleftrightarrow> d = e"
  using digitUnit_unat by (metis add_left_cancel)

lemma digitUnit_zero: "js ''0'' = [digitUnit 0]"
  by (simp add: js_def digitUnit_def)

lemma parseOctet_iff: "parseOctet s = Some n \<longleftrightarrow> n < 256 \<and> s = octetStr n"
proof
  assume p: "parseOctet s = Some n"
  then have l: "1 \<le> length s" "length s \<le> 3" "list_all isDigit s" "ofDigits s = n" "n < 256"
      "length s > 1 \<longrightarrow> \<not> startsWith s (js ''0'')"
    by (auto simp: parseOctet_def Let_def split: if_splits)
  consider u where "s = [u]" | u v where "s = [u, v]" | u v w where "s = [u, v, w]"
    using l(1,2) by (cases s; cases "tl s"; cases "tl (tl s)"; force)
  then show "n < 256 \<and> s = octetStr n"
  proof cases
    case 1
    with l(3) obtain d where "d < 10" "u = digitUnit d" using isDigit_unit by auto
    with 1 l(4,5) show ?thesis by (auto simp: ofDigits_def digitUnit_facts octetStr_def)
  next
    case 2
    with l(3) obtain d e where d: "d < 10" "u = digitUnit d" "e < 10" "v = digitUnit e"
      using 2 isDigit_unit [of u] isDigit_unit [of v] by auto
    with 2 l(6) have "digitUnit d \<noteq> digitUnit 0" by (simp add: startsWith_def digitUnit_zero)
    then have "d \<noteq> 0" by metis
    moreover have "n = d * 10 + e" using 2 d l(4) by (simp add: ofDigits_def digitUnit_facts)
    ultimately show ?thesis using 2 d l(5) by (auto simp: octetStr_def)
  next
    case 3
    with l(3) obtain d e f where d: "d < 10" "u = digitUnit d" "e < 10" "v = digitUnit e" "f < 10" "w = digitUnit f"
      using 3 isDigit_unit [of u] isDigit_unit [of v] isDigit_unit [of w] by auto
    with 3 l(6) have "digitUnit d \<noteq> digitUnit 0" by (simp add: startsWith_def digitUnit_zero)
    then have "d \<noteq> 0" by metis
    moreover have n: "n = (d * 10 + e) * 10 + f" using 3 d l(4) by (simp add: ofDigits_def digitUnit_facts)
    moreover have q: "n div 10 = d * 10 + e" unfolding n by (rule high_part [OF d(5)])
    moreover have "n div 100 = d" using q high_part [OF d(3)] by (simp add: div_mult2_eq [of n 10 10, simplified])
    moreover have "n div 10 mod 10 = e" "n mod 10 = f" 
      unfolding q unfolding n by (simp_all only: mod_mult_self3 mod_less d)
    ultimately show ?thesis using 3 d l(5) by (auto simp: octetStr_def)
  qed
next
  assume "n < 256 \<and> s = octetStr n"
  then have n: "n < 256" and s: "s = octetStr n" by simp_all
  consider "n < 10" | "10 \<le> n" "n < 100" | "100 \<le> n" by linarith
  then show "parseOctet s = Some n"
  proof cases
    case 1
    then show ?thesis by (simp add: s octetStr_def parseOctet_def digitUnit_facts ofDigits_def)
  next
    case 2
    then have "0 < n div 10" "n div 10 < 10" by auto
    with 2 show ?thesis
      by (simp add: s octetStr_def parseOctet_def digitUnit_facts ofDigits_def startsWith_def digitUnit_zero
          digitUnit_eq)
  next
    case 3
    then have h: "0 < n div 100" "n div 100 < 10" using n by auto
    have "(n div 100 * 10 + n div 10 mod 10) * 10 + n mod 10 = n"
    proof -
      have "n div 100 = n div 10 div 10" by (simp add: div_mult2_eq [symmetric])
      then show ?thesis by simp
    qed
    with 3 h n show ?thesis
      by (simp add: s octetStr_def parseOctet_def digitUnit_facts ofDigits_def startsWith_def digitUnit_zero
          digitUnit_eq)
  qed
qed

lemma octetStr_dot: "n < 256 \<Longrightarrow> 46 \<notin> set (octetStr n)"
proof
  assume n: "n < 256" and m: "46 \<in> set (octetStr n)"
  from n have "parseOctet (octetStr n) = Some n" by (simp add: parseOctet_iff)
  then have "list_all isDigit (octetStr n)" by (auto simp: parseOctet_def split: if_splits)
  with m have "isDigit 46" by (auto simp: list_all_iff)
  then show False by (simp add: isDigit_def)
qed

text \<open>\<open>parseIpv4\<close> accepts exactly the dotted quads without leading zeros.\<close>

lemma parseIpv4_iff: "parseIpv4 s = Some v \<longleftrightarrow> octets v \<and> s = quadStr v"
proof
  assume "parseIpv4 s = Some v"
  then obtain p q r t a b c d where sp: "splitOn 46 s = [p, q, r, t]"
      and o: "parseOctet p = Some a" "parseOctet q = Some b" "parseOctet r = Some c" "parseOctet t = Some d"
      and v: "v = (a, b, c, d)"
    by (auto simp: parseIpv4_def split: list.splits option.splits)
  from sp have "s = joinWith [46] [p, q, r, t]" using join_splitOn by metis
  with o v show "octets v \<and> s = quadStr v" by (simp add: parseOctet_iff octets_def)
next
  assume a: "octets v \<and> s = quadStr v"
  obtain a b c d where v: "v = (a, b, c, d)" by (cases v)
  with a have "splitOn 46 s = [octetStr a, octetStr b, octetStr c, octetStr d]"
    by (auto simp: octets_def octetStr_dot splitOn_append splitOn_plain)
  moreover have "parseOctet (octetStr n) = Some n" if "n < 256" for n using that by (simp add: parseOctet_iff)
  ultimately show "parseIpv4 s = Some v" using a v by (simp add: parseIpv4_def octets_def)
qed

subsection \<open>Blocked ranges\<close>

lemma v4_prefixes:
  assumes "octets (a, b, c, d)"
  defines "n \<equiv> v4ToUint (a, b, c, d)"
  shows "n div 2 ^ 24 = a" "n div 2 ^ 16 = a * 256 + b" "n div 2 ^ 8 = (a * 256 + b) * 256 + c"
    "n div 2 ^ 22 = (a * 256 + b) div 64" "n div 2 ^ 20 = (a * 256 + b) div 16"
    "n div 2 ^ 17 = (a * 256 + b) div 2" "n div 2 ^ 28 = a div 16" "n < 2 ^ 32"
proof -
  have n: "n = ((a * 256 + b) * 256 + c) * 256 + d" unfolding n_def by (rule v4ToUint_eq [OF assms(1)])
  have o: "b < 256" "c < 256" "d < 256" using assms(1) by (simp_all add: octets_def)
  have "n div 256 = (a * 256 + b) * 256 + c" unfolding n by (rule high_part [OF o(3)])
  then show b8: "n div 2 ^ 8 = (a * 256 + b) * 256 + c" by simp
  have "n div 2 ^ 16 = n div 2 ^ 8 div 256" by (simp add: div_mult2_eq [symmetric])
  then show b16: "n div 2 ^ 16 = a * 256 + b" unfolding b8 high_part [OF o(2)] .
  have "n div 2 ^ 24 = n div 2 ^ 16 div 256" by (simp add: div_mult2_eq [symmetric])
  then show b24: "n div 2 ^ 24 = a" unfolding b16 high_part [OF o(1)] .
  have "n div 2 ^ 22 = n div 2 ^ 16 div 64" "n div 2 ^ 20 = n div 2 ^ 16 div 16"
    "n div 2 ^ 17 = n div 2 ^ 16 div 2" "n div 2 ^ 28 = n div 2 ^ 24 div 16"
    by (simp_all add: div_mult2_eq [symmetric])
  then show "n div 2 ^ 22 = (a * 256 + b) div 64" "n div 2 ^ 20 = (a * 256 + b) div 16"
    "n div 2 ^ 17 = (a * 256 + b) div 2" "n div 2 ^ 28 = a div 16"
    unfolding b16 b24 by simp_all
  show "n < 2 ^ 32" using assms(1) by (simp add: n octets_def)
qed

lemma blocked_nets: "V4_BLOCKED = map (\<lambda>(net, prefixLen). (v4ToUint net, prefixLen))
     [((0, 0, 0, 0), 8), ((10, 0, 0, 0), 8), ((100, 64, 0, 0), 10), ((127, 0, 0, 0), 8),
      ((169, 254, 0, 0), 16), ((172, 16, 0, 0), 12), ((192, 0, 0, 0), 24), ((192, 0, 2, 0), 24),
      ((192, 168, 0, 0), 16), ((198, 18, 0, 0), 15), ((198, 51, 100, 0), 24), ((203, 0, 113, 0), 24),
      ((224, 0, 0, 0), 4), ((240, 0, 0, 0), 4)]"
proof -
  have p: "parseIpv4 (js ''0.0.0.0'') = Some (0, 0, 0, 0)" "parseIpv4 (js ''10.0.0.0'') = Some (10, 0, 0, 0)"
    "parseIpv4 (js ''100.64.0.0'') = Some (100, 64, 0, 0)" "parseIpv4 (js ''127.0.0.0'') = Some (127, 0, 0, 0)"
    "parseIpv4 (js ''169.254.0.0'') = Some (169, 254, 0, 0)" "parseIpv4 (js ''172.16.0.0'') = Some (172, 16, 0, 0)"
    "parseIpv4 (js ''192.0.0.0'') = Some (192, 0, 0, 0)" "parseIpv4 (js ''192.0.2.0'') = Some (192, 0, 2, 0)"
    "parseIpv4 (js ''192.168.0.0'') = Some (192, 168, 0, 0)" "parseIpv4 (js ''198.18.0.0'') = Some (198, 18, 0, 0)"
    "parseIpv4 (js ''198.51.100.0'') = Some (198, 51, 100, 0)"
    "parseIpv4 (js ''203.0.113.0'') = Some (203, 0, 113, 0)"
    "parseIpv4 (js ''224.0.0.0'') = Some (224, 0, 0, 0)" "parseIpv4 (js ''240.0.0.0'') = Some (240, 0, 0, 0)"
    by (simp_all add: parseIpv4_iff octets_def js_def octetStr_def digitUnit_def)
  show ?thesis unfolding V4_BLOCKED_def by (simp only: list.map prod.case p option.sel)
qed

lemma v4Blocked_div:
  assumes "n < 2 ^ 32"
  shows "v4Blocked n \<longleftrightarrow> n div 2 ^ 24 \<in> {0, 10, 127} \<or> n div 2 ^ 22 = 401 \<or> n div 2 ^ 16 \<in> {43518, 49320} \<or>
    n div 2 ^ 20 = 2753 \<or> n div 2 ^ 8 \<in> {12582912, 12582914, 12989284, 13303921} \<or>
    n div 2 ^ 17 = 25353 \<or> n div 2 ^ 28 \<in> {14, 15}"
  using assms
  by (simp add: v4Blocked_def blocked_nets toUint32_id drop_bit_eq_div push_bit_eq_mult Let_def) blast

lemma v4Blocked_octets:
  assumes "octets (a, b, c, d)"
  shows "v4Blocked (v4ToUint (a, b, c, d)) \<longleftrightarrow> nonPublic (a, b, c, d)"
proof -
  have o: "a < 256" "b < 256" "c < 256" using assms by (simp_all add: octets_def)
  have "(a * 256 + b) div 64 = a * 4 + b div 64" using part_div [of 64 a 4 b] by simp
  moreover have "a * 4 + b div 64 = 100 * 4 + 1 \<longleftrightarrow> a = 100 \<and> b div 64 = 1"
    using o by (intro pair_eq) (auto intro: less_mult_imp_div_less)
  ultimately have r64: "(a * 256 + b) div 64 = 401 \<longleftrightarrow> a = 100 \<and> 64 \<le> b \<and> b < 128" by auto
  have "(a * 256 + b) div 16 = a * 16 + b div 16" using part_div [of 16 a 16 b] by simp
  moreover have "a * 16 + b div 16 = 172 * 16 + 1 \<longleftrightarrow> a = 172 \<and> b div 16 = 1"
    using o by (intro pair_eq) (auto intro: less_mult_imp_div_less)
  ultimately have r16: "(a * 256 + b) div 16 = 2753 \<longleftrightarrow> a = 172 \<and> 16 \<le> b \<and> b < 32" by auto
  have "(a * 256 + b) div 2 = a * 128 + b div 2" using part_div [of 2 a 128 b] by simp
  moreover have "a * 128 + b div 2 = 198 * 128 + 9 \<longleftrightarrow> a = 198 \<and> b div 2 = 9"
    using o by (intro pair_eq) (auto intro: less_mult_imp_div_less)
  ultimately have r2: "(a * 256 + b) div 2 = 25353 \<longleftrightarrow> a = 198 \<and> (b = 18 \<or> b = 19)" by auto
  have r28: "a div 16 \<in> {14, 15} \<longleftrightarrow> 224 \<le> a" using o by auto
  have two: "a * 256 + b = x * 256 + y \<longleftrightarrow> a = x \<and> b = y" if "y < 256" for x y
    using o that by (intro pair_eq) auto
  have three: "(a * 256 + b) * 256 + c = (x * 256 + y) * 256 + z \<longleftrightarrow> a = x \<and> b = y \<and> c = z"
    if "y < 256" "z < 256" for x y z
    by (simp only: two [OF that(1)] pair_eq [OF o(3) that(2)] conj_assoc)
  have e: "a * 256 + b = 43518 \<longleftrightarrow> a = 169 \<and> b = 254" "a * 256 + b = 49320 \<longleftrightarrow> a = 192 \<and> b = 168"
    using two [of 254 169] two [of 168 192] by simp_all
  have t: "(a * 256 + b) * 256 + c = 12582912 \<longleftrightarrow> a = 192 \<and> b = 0 \<and> c = 0"
    "(a * 256 + b) * 256 + c = 12582914 \<longleftrightarrow> a = 192 \<and> b = 0 \<and> c = 2"
    "(a * 256 + b) * 256 + c = 12989284 \<longleftrightarrow> a = 198 \<and> b = 51 \<and> c = 100"
    "(a * 256 + b) * 256 + c = 13303921 \<longleftrightarrow> a = 203 \<and> b = 0 \<and> c = 113"
    using three [of 0 0 192] three [of 0 2 192] three [of 51 100 198] three [of 0 113 203] by simp_all
  have "v4Blocked (v4ToUint (a, b, c, d)) \<longleftrightarrow> a = 0 \<or> a = 10 \<or> a = 127 \<or>
      a = 100 \<and> 64 \<le> b \<and> b < 128 \<or> (a = 169 \<and> b = 254 \<or> a = 192 \<and> b = 168) \<or>
      a = 172 \<and> 16 \<le> b \<and> b < 32 \<or>
      (a = 192 \<and> b = 0 \<and> c = 0 \<or> a = 192 \<and> b = 0 \<and> c = 2 \<or> a = 198 \<and> b = 51 \<and> c = 100 \<or>
       a = 203 \<and> b = 0 \<and> c = 113) \<or> a = 198 \<and> (b = 18 \<or> b = 19) \<or> 224 \<le> a"
    unfolding v4Blocked_div [OF v4_prefixes(8) [OF assms]] v4_prefixes(1-7) [OF assms] r28
    by (simp only: insert_iff empty_iff e t r64 r16 r2 simp_thms disj_assoc)
  then show ?thesis unfolding nonPublic_def prod.case by blast
qed

subsection \<open>IPv6 groups\<close>

lemma hexPiece_lt: "hexPiece p = Some n \<Longrightarrow> n < 65536"
proof -
  assume "hexPiece p = Some n"
  then have l: "length p \<le> 4" "list_all isHexDigit p" "n = ofHexDigits p"
    by (auto simp: hexPiece_def split: if_splits)
  have "(16 :: nat) ^ length p \<le> 16 ^ 4" using l(1) by (intro power_increasing) auto
  with ofHexDigits_lt [OF l(2)] l(3) show ?thesis by simp
qed

lemma hexPieces_lt: "hexPieces ps = Some ns \<Longrightarrow> list_all (\<lambda>n. n < 65536) ns"
  by (induction ps arbitrary: ns) (auto split: option.splits dest: hexPiece_lt)

lemma v6Groups_lt: "v6Groups p = Some ns \<Longrightarrow> list_all (\<lambda>n. n < 65536) ns"
  by (auto simp: v6Groups_def split: if_splits dest: hexPieces_lt)

lemma byte_pair: "a < 256 \<Longrightarrow> b < 256 \<Longrightarrow> push_bit 8 a OR b = a * 256 + b \<and> a * 256 + b < (65536 :: nat)"
  using or_disjoint_add [of b 8 a] by simp

lemma v6Tail_groups: "v6Tail s k = Some (s', t) \<Longrightarrow> list_all (\<lambda>n. n < 65536) t \<and> (length t = 0 \<or> length t = 2)"
  using byte_pair
  by (auto simp: v6Tail_def Let_def parseIpv4_iff octets_def split: if_splits option.splits)

text \<open>A parsed IPv6 literal has eight groups of sixteen bits.\<close>

lemma parseIpv6_groups:
  assumes "parseIpv6 s = Some g"
  shows "length g = 8 \<and> list_all (\<lambda>n. n < 65536) g"
  using assms unfolding parseIpv6_def Let_def list_all_iff
  by (auto simp: split: if_splits option.splits prod.splits
      dest!: v6Tail_groups [unfolded list_all_iff] v6Groups_lt [unfolded list_all_iff])

lemma and_high:
  assumes "x < 2 ^ 16" and "k \<le> 16"
  shows "x AND push_bit k (mask (16 - k)) = push_bit k (drop_bit k (x :: nat))"
proof (rule bit_eqI)
  fix n
  have t: "take_bit 16 x = x" using assms(1) by (simp add: take_bit_nat_eq_self)
  have "bit x n \<Longrightarrow> n < 16" using t by (metis bit_take_bit_iff)
  then show "bit (x AND push_bit k (mask (16 - k))) n = bit (push_bit k (drop_bit k x)) n"
    by (auto simp: bit_and_iff bit_push_bit_iff bit_mask_iff bit_drop_bit_eq)
qed

lemma and_e000: "x < 65536 \<Longrightarrow> x AND 0xe000 = 0x2000 \<longleftrightarrow> 0x2000 \<le> x \<and> x < (0x4000 :: nat)"
  using and_high [of x 13] by (auto simp: push_bit_eq_mult drop_bit_eq_div mask_eq_exp_minus_1)

lemma and_f000: "x < 65536 \<Longrightarrow> x AND 0xf000 = 0 \<longleftrightarrow> x < (0x1000 :: nat)"
  using and_high [of x 12] by (auto simp: push_bit_eq_mult drop_bit_eq_div mask_eq_exp_minus_1)

subsection \<open>IPv6 addresses that carry an IPv4 address\<close>

text \<open>The embedding forms and the two groups that hold the address.\<close>

fun v6Embedded :: "nat list \<Rightarrow> (nat \<times> nat) option" where
  "v6Embedded [a, b, c, d, e, f, g, h] =
     (if [a, b, c, d, e] = [0, 0, 0, 0, 0] \<and> (f = 0 \<or> f = 0xffff) then Some (g, h)
      else if [a, b, c, d, e, f] = [0, 0, 0, 0, 0xffff, 0] then Some (g, h)
      else if [a, b, c, d, e, f] = [0x64, 0xff9b, 0, 0, 0, 0] then Some (g, h)
      else if a = 0x2002 then Some (b, c)
      else None)"
| "v6Embedded _ = None"

fun v4OfGroups :: "nat \<times> nat \<Rightarrow> ipv4" where
  "v4OfGroups (hi, lo) = (hi div 256, hi mod 256, lo div 256, lo mod 256)"

lemma regroup: "hi = a * 256 + b \<Longrightarrow> lo = c * 256 + d \<Longrightarrow>
    hi * 65536 + lo = ((a * 256 + b) * 256 + c) * 256 + (d :: nat)"
  by simp

lemma embedded_octets:
  assumes "hi < 65536" and "lo < 65536"
  shows "v4Blocked (toUint32 (push_bit 16 hi) + lo) \<longleftrightarrow> nonPublic (v4OfGroups (hi, lo))"
proof -
  have o: "octets (v4OfGroups (hi, lo))" using assms by (simp add: octets_def less_mult_imp_div_less)
  have "hi * 65536 < 2 ^ 32" using assms by simp
  then have "toUint32 (push_bit 16 hi) + lo = hi * 65536 + lo" by (simp add: toUint32_id push_bit_eq_mult)
  also have "\<dots> = ((hi div 256 * 256 + hi mod 256) * 256 + lo div 256) * 256 + lo mod 256"
    by (rule regroup [OF div_mult_mod_eq [symmetric] div_mult_mod_eq [symmetric]])
  also have "\<dots> = v4ToUint (v4OfGroups (hi, lo))"
    using v4ToUint_eq [OF o [unfolded v4OfGroups.simps]] by (simp only: v4OfGroups.simps)
  finally have "toUint32 (push_bit 16 hi) + lo = v4ToUint (v4OfGroups (hi, lo))" .
  with v4Blocked_octets o show ?thesis by simp
qed

lemma eight: "length gs = 8 \<Longrightarrow> \<exists>a b c d e f g h. gs = [a, b, c, d, e, f, g, h]"
  by (simp add: eval_nat_numeral length_Suc_conv) blast

definition globalUnicast :: "nat list \<Rightarrow> bool" where
  "globalUnicast gs \<longleftrightarrow> 0x2000 \<le> gs ! 0 \<and> gs ! 0 < 0x4000 \<and>
     \<not> (gs ! 0 = 0x2001 \<and> (gs ! 1 < 0x200 \<or> gs ! 1 = 0xdb8)) \<and> \<not> (gs ! 0 = 0x3fff \<and> gs ! 1 < 0x1000)"

lemma v6Blocked_iff:
  assumes "length gs = 8" and "list_all (\<lambda>n. n < 65536) gs"
  shows "v6Blocked gs \<longleftrightarrow>
    (case v6Embedded gs of Some v \<Rightarrow> nonPublic (v4OfGroups v) | None \<Rightarrow> \<not> globalUnicast gs)"
proof -
  obtain a b c d e f g h where gs: "gs = [a, b, c, d, e, f, g, h]" using eight [OF assms(1)] by blast
  with assms(2) have lt: "a < 65536" "b < 65536" "c < 65536" "g < 65536" "h < 65536" by simp_all
  note em = embedded_octets [OF lt(4,5)] embedded_octets [OF lt(2,3)]
  have z: "list_all (\<lambda>x. x = 0) (take (6 - 0) (drop 0 gs)) \<longleftrightarrow> a = 0 \<and> b = 0 \<and> c = 0 \<and> d = 0 \<and> e = 0 \<and> f = 0"
    "list_all (\<lambda>x. x = 0) (take (5 - 0) (drop 0 gs)) \<longleftrightarrow> a = 0 \<and> b = 0 \<and> c = 0 \<and> d = 0 \<and> e = 0"
    "list_all (\<lambda>x. x = 0) (take (4 - 0) (drop 0 gs)) \<longleftrightarrow> a = 0 \<and> b = 0 \<and> c = 0 \<and> d = 0"
    "list_all (\<lambda>x. x = 0) (take (6 - 2) (drop 2 gs)) \<longleftrightarrow> c = 0 \<and> d = 0 \<and> e = 0 \<and> f = 0"
    by (simp_all add: gs)
  have n: "gs ! 0 = a" "gs ! 1 = b" "gs ! 2 = c" "gs ! 4 = e" "gs ! 5 = f" "gs ! 6 = g" "gs ! 7 = h" "length gs = 8"
    by (simp_all add: gs)
  let ?tail = "if a = 0x64 \<and> b = 0xff9b \<and> c = 1 then True else if a = 0x2002 then nonPublic (v4OfGroups (b, c))
    else if a = 0x2001 \<and> b < 0x200 then True else if a = 0x2001 \<and> b = 0xdb8 then True
    else if a = 0x3fff \<and> b AND 0xf000 = 0 then True else a AND 0xe000 \<noteq> 0x2000"
  have V: "v6Blocked gs = (if a = 0 \<and> b = 0 \<and> c = 0 \<and> d = 0 \<and> e = 0 \<and> f = 0 then nonPublic (v4OfGroups (g, h))
      else if (a = 0 \<and> b = 0 \<and> c = 0 \<and> d = 0 \<and> e = 0) \<and> f = 0xffff then nonPublic (v4OfGroups (g, h))
      else if (a = 0 \<and> b = 0 \<and> c = 0 \<and> d = 0) \<and> e = 0xffff \<and> f = 0 then nonPublic (v4OfGroups (g, h))
      else if a = 0x64 \<and> b = 0xff9b \<and> c = 0 \<and> d = 0 \<and> e = 0 \<and> f = 0 then nonPublic (v4OfGroups (g, h))
      else ?tail)"
    unfolding v6Blocked_def Let_def z em [symmetric] by (simp only: n if_True less_numeral_simps) (simp add: n)
  consider (wide) "\<not> (a = 0 \<and> b = 0 \<and> c = 0 \<and> d = 0 \<and> e = 0 \<and> f = 0)"
      "\<not> ((a = 0 \<and> b = 0 \<and> c = 0 \<and> d = 0 \<and> e = 0) \<and> f = 0xffff)"
      "\<not> ((a = 0 \<and> b = 0 \<and> c = 0 \<and> d = 0) \<and> e = 0xffff \<and> f = 0)"
      "\<not> (a = 0x64 \<and> b = 0xff9b \<and> c = 0 \<and> d = 0 \<and> e = 0 \<and> f = 0)" "a \<noteq> 0x2002"
    | (zero) "a = 0" "b = 0" "c = 0" "d = 0" "e = 0" "f = 0 \<or> f = 0xffff"
    | (translated) "a = 0" "b = 0" "c = 0" "d = 0" "e = 0xffff" "f = 0"
    | (nat64) "a = 0x64" "b = 0xff9b" "c = 0" "d = 0" "e = 0" "f = 0"
    | (sixtofour) "a = 0x2002"
    by blast
  then show ?thesis
  proof cases
    case wide
    have "?tail \<longleftrightarrow> \<not> globalUnicast gs"
      unfolding globalUnicast_def n using wide(5) and_e000 [OF lt(1)] and_f000 [OF lt(2)] by auto
    moreover have "v6Blocked gs = ?tail" unfolding V by (simp only: wide(1-4) if_False)
    moreover have "\<not> ([a, b, c, d, e] = [0, 0, 0, 0, 0] \<and> (f = 0 \<or> f = 0xffff))"
      "[a, b, c, d, e, f] \<noteq> [0, 0, 0, 0, 0xffff, 0]" "[a, b, c, d, e, f] \<noteq> [0x64, 0xff9b, 0, 0, 0, 0]"
      unfolding list.inject using wide(1-4) by blast+
    then have "v6Embedded gs = None" unfolding gs v6Embedded.simps by (simp only: if_False wide(5))
    ultimately show ?thesis by simp
  next
    case zero
    then show ?thesis unfolding V by (auto simp: gs)
  next
    case translated
    then show ?thesis unfolding V by (simp add: gs)
  next
    case nat64
    then show ?thesis unfolding V by (simp add: gs)
  next
    case sixtofour
    then show ?thesis unfolding V by (simp add: gs)
  qed
qed

subsection \<open>Properties\<close>

text \<open>Every IPv6 form that carries an IPv4 address is judged as the dotted quad of that address is,
  and a dotted quad is refused exactly when its octets lie in a range that is not public.\<close>

theorem embedded_judged_alike:
  assumes "octets (a, b, c, d)"
  shows "isBlockedIp (quadStr (a, b, c, d)) = nonPublic (a, b, c, d) \<and>
    (let hi = a * 256 + b; lo = c * 256 + d; verdict = isBlockedIp (quadStr (a, b, c, d)) in
     v6Blocked [0, 0, 0, 0, 0, 0, hi, lo] = verdict \<and>
     v6Blocked [0, 0, 0, 0, 0, 0xffff, hi, lo] = verdict \<and>
     v6Blocked [0, 0, 0, 0, 0xffff, 0, hi, lo] = verdict \<and>
     v6Blocked [0x64, 0xff9b, 0, 0, 0, 0, hi, lo] = verdict \<and>
     v6Blocked [0x2002, hi, lo, 0, 0, 0, 0, 1] = verdict)"
proof -
  have o: "a < 256" "b < 256" "c < 256" "d < 256" using assms by (simp_all add: octets_def)
  have p: "isBlockedIp (quadStr (a, b, c, d)) = nonPublic (a, b, c, d)"
    using assms v4Blocked_octets [OF assms]
    by (simp only: isBlockedIp_def parseIpv4_iff [THEN iffD2, of "(a, b, c, d)"] simp_thms option.case)
  have lt: "a * 256 + b < 65536" "c * 256 + d < 65536" using o by linarith+
  have "v4OfGroups (a * 256 + b, c * 256 + d) = (a, b, c, d)" using o by simp
  then show ?thesis using p lt by (simp add: v6Blocked_iff Let_def)
qed

theorem embedded_judged_alike_witness:
  "isBlockedIp (quadStr (169, 254, 169, 254)) \<and> v6Blocked [0, 0, 0, 0, 0, 0xffff, 0xa9fe, 0xa9fe]"
  using embedded_judged_alike [of 169 254 169 254] by (simp add: octets_def nonPublic_def Let_def)

end
