(* ===== verification/Egress.thy ===== *)
theory Egress
  imports Ip_Address Js_Json
begin

text \<open>
  The host guard of DID resolution, \<open>packages/core/src/did/egress-guard.ts\<close>, with
  \<open>didWebvhDomain\<close> of \<open>did/verify.ts\<close>: a host is judged before anything is fetched from it. The
  WHATWG URL parser and Unicode normalisation belong to the platform and are parameters
  (\<open>parseUrl\<close>, \<open>nfc\<close>); a host name the URL parser returns is ASCII.
\<close>

datatype blockedReason = InvalidUrl | PrivateAddress | PrivateName

record blockedEndpointError =
  blockedMessage :: jsstr
  reason :: blockedReason
  blockedHost :: "jsstr option"

record parsedUrl =
  urlUsername :: jsstr
  urlPassword :: jsstr
  urlHostname :: jsstr
  urlPathname :: jsstr

subsection \<open>Names\<close>

definition BLOCKED_NAMES :: "jsstr list" where
  "BLOCKED_NAMES = [js ''localhost'', js ''local'', js ''internal'', js ''home.arpa'']"

definition isBlockedName :: "jsstr \<Rightarrow> bool" where
  "isBlockedName host =
     (if 46 \<notin> set host then True
      else list_ex (\<lambda>name. host = name \<or> endsWith host (js ''.'' @ name)) BLOCKED_NAMES)"

definition canonicalHost :: "jsstr \<Rightarrow> jsstr" where
  "canonicalHost hostname =
     (let h = asciiLower hostname in
      if startsWith h (js ''['') \<and> endsWith h (js '']'') then take (length h - 2) (drop 1 h)
      else rev (dropWhile (\<lambda>u. u = 46) (rev h)))"

subsection \<open>The guard\<close>

definition didWebvhDomain :: "jsstr \<Rightarrow> jsstr option" where
  "didWebvhDomain did =
     (if \<not> startsWith did (js ''did:webvh:'') then None
      else let parts = splitOn 58 did in if length parts > 3 then Some (parts ! 3) else None)"

text \<open>\<open>decodeURIComponent\<close>; \<open>None\<close> is the \<open>URIError\<close>.\<close>

fun percentBytes :: "nat \<Rightarrow> jsstr \<Rightarrow> (nat list \<times> jsstr) option" where
  "percentBytes 0 s = Some ([], s)"
| "percentBytes (Suc n) (p # h # l # s) =
     (if p = 37 \<and> isHexDigit h \<and> isHexDigit l
      then map_option (\<lambda>(bs, r). ((hexDigitVal h * 16 + hexDigitVal l) # bs, r)) (percentBytes n s)
      else None)"
| "percentBytes (Suc n) s = None"

definition utf8Length :: "nat \<Rightarrow> nat" where
  "utf8Length b = (if b < 0x80 then 1 else if 0xC0 \<le> b \<and> b < 0xE0 then 2
                   else if 0xE0 \<le> b \<and> b < 0xF0 then 3 else if 0xF0 \<le> b \<and> b < 0xF8 then 4 else 0)"

lemma percentBytes_shrinks: "percentBytes n s = Some (bs, r) \<Longrightarrow> length r + 3 * n = length s"
  by (induction n s arbitrary: bs rule: percentBytes.induct) (auto split: if_splits)

function decodeURIComponent :: "jsstr \<Rightarrow> jsstr option" where
  "decodeURIComponent [] = Some []"
| "decodeURIComponent (u # s) =
     (if u \<noteq> 37 then map_option (Cons u) (decodeURIComponent s)
      else case percentBytes 1 (u # s) of
        None \<Rightarrow> None
      | Some (bs, _) \<Rightarrow>
          let n = utf8Length (hd bs) in
          if n = 0 then None
          else (case percentBytes n (u # s) of
             None \<Rightarrow> None
           | Some (bytes, r) \<Rightarrow>
               (case utf8Scalars bytes of
                  Some [c] \<Rightarrow>
                    map_option (\<lambda>t. map word_of_nat (unitsOf c) @ t) (decodeURIComponent r)
                | _ \<Rightarrow> None)))"
  by pat_completeness auto

termination
proof (relation "measure length", goal_cases)
  case (3 u s x bs rest n x' bytes r ys c cs)
  then have "percentBytes (utf8Length (hd bs)) (u # s) = Some (bytes, r)" by auto
  from percentBytes_shrinks [OF this] 3 show ?case by auto
qed auto

definition isForbidden :: "16 word \<Rightarrow> bool" where
  "isForbidden u \<longleftrightarrow> u \<in> {47, 92, 64, 63, 35, 37} \<or> isJsSpace u"

definition notValid :: "jsstr option \<Rightarrow> blockedEndpointError" where
  "notValid raw = \<lparr>blockedMessage = js ''the DID's host '' @ jsonQuote (case raw of None \<Rightarrow> [] | Some r \<Rightarrow> r)
     @ js '' is not a valid host name, so it was not contacted'',
     reason = InvalidUrl, blockedHost = None\<rparr>"

definition assertResolvableWebvhHost ::
    "(jsstr \<Rightarrow> jsstr) \<Rightarrow> (jsstr \<Rightarrow> parsedUrl option) \<Rightarrow> jsstr \<Rightarrow> blockedEndpointError + unit" where
  "assertResolvableWebvhHost nfc parseUrl did =
     (let raw = didWebvhDomain did; invalid = Inl (notValid raw) in
      case raw of
        None \<Rightarrow> invalid
      | Some r \<Rightarrow>
          if r = [] then invalid
          else (case decodeURIComponent r of
             None \<Rightarrow> invalid
           | Some dec \<Rightarrow>
               let decoded = nfc dec in
               if decoded = [] \<or> list_ex isForbidden decoded then invalid
               else (case parseUrl (js ''https://'' @ decoded @ js ''/'') of
                  None \<Rightarrow> invalid
                | Some url \<Rightarrow>
                    if urlUsername url \<noteq> [] \<or> urlPassword url \<noteq> [] \<or> urlPathname url \<noteq> js ''/'' then invalid
                    else
                      let bracketed = startsWith (urlHostname url) (js ''['');
                          host = canonicalHost (urlHostname url)
                      in if host = [] then invalid
                         else if bracketed \<or> parseIpv4 host \<noteq> None then
                           (if isBlockedIp host then
                              let written = (if bracketed \<or> startsWith (asciiLower decoded) host then []
                                             else js '' (written '' @ decoded @ js '')'')
                              in Inl \<lparr>blockedMessage = js ''the DID's host '' @ host @ written
                                        @ js '' is not a public internet address, so it was not contacted'',
                                      reason = PrivateAddress, blockedHost = Some host\<rparr>
                            else Inr ())
                         else if isBlockedName host then
                           Inl \<lparr>blockedMessage = js ''the DID's host '' @ host
                                  @ js '' is a local-network name, not a public internet host, so it was not contacted'',
                                reason = PrivateName, blockedHost = Some host\<rparr>
                         else Inr ())))"

text \<open>\<open>didScid.scidToWebvhDid\<close> is code of another package.\<close>

definition assertResolvableScidHost ::
    "(jsstr \<Rightarrow> jsstr option) \<Rightarrow> (jsstr \<Rightarrow> jsstr) \<Rightarrow> (jsstr \<Rightarrow> parsedUrl option) \<Rightarrow> jsstr
     \<Rightarrow> blockedEndpointError + unit" where
  "assertResolvableScidHost scidToWebvhDid nfc parseUrl did =
     (case scidToWebvhDid did of
        None \<Rightarrow> Inl \<lparr>blockedMessage = js ''the did:scid names no usable source host, so it was not contacted'',
                     reason = InvalidUrl, blockedHost = None\<rparr>
      | Some webvh \<Rightarrow>
          if webvh = [] then
            Inl \<lparr>blockedMessage = js ''the did:scid names no usable source host, so it was not contacted'',
                 reason = InvalidUrl, blockedHost = None\<rparr>
          else assertResolvableWebvhHost nfc parseUrl webvh)"

subsection \<open>Properties\<close>

text \<open>A host the guard lets through, by what it is.\<close>

definition publicAddress :: "jsstr \<Rightarrow> bool" where
  "publicAddress host =
     (case parseIpv4 host of
        Some v \<Rightarrow> \<not> nonPublic v
      | None \<Rightarrow> (case parseIpv6 host of
          None \<Rightarrow> False
        | Some g \<Rightarrow> (case v6Embedded g of Some v \<Rightarrow> \<not> nonPublic (v4OfGroups v) | None \<Rightarrow> globalUnicast g)))"

definition publicName :: "jsstr \<Rightarrow> bool" where
  "publicName host \<longleftrightarrow> 46 \<in> set host \<and>
     (\<forall>name \<in> {js ''localhost'', js ''local'', js ''internal'', js ''home.arpa''}.
        host \<noteq> name \<and> (\<nexists>sub. host = sub @ js ''.'' @ name))"

definition publicHost :: "jsstr \<Rightarrow> bool" where
  "publicHost hostname =
     (let host = canonicalHost hostname in
      host \<noteq> [] \<and>
      (if startsWith hostname (js ''['') \<or> parseIpv4 host \<noteq> None then publicAddress host else publicName host))"

lemma parsed_v4: "parseIpv4 s = Some v \<Longrightarrow> v4Blocked (v4ToUint v) = nonPublic v"
  by (cases v) (simp only: parseIpv4_iff v4Blocked_octets)

lemma isBlockedIp_iff: "isBlockedIp ip = (\<not> publicAddress ip)"
proof (cases "parseIpv4 ip")
  case None
  then show ?thesis
    using parseIpv6_groups v6Blocked_iff
    by (auto simp: isBlockedIp_def publicAddress_def split: option.splits)
next
  case (Some v)
  then show ?thesis by (simp add: isBlockedIp_def publicAddress_def parsed_v4)
qed

lemma isBlockedName_iff: "isBlockedName host = (\<not> publicName host)"
  by (auto simp: isBlockedName_def publicName_def BLOCKED_NAMES_def endsWith_iff)

text \<open>C31: The guard lets a did:webvh through exactly when its host decodes to a non-empty name free of
  every character that could move the authority, the URL parser takes it for a bare authority, and the
  canonical host is an address outside every range that is not public (also when an IPv6 form carries
  it) or a name with a dot that is not under a local-only suffix.\<close>

theorem guard_verdict:
  "assertResolvableWebvhHost nfc parseUrl did = Inr () \<longleftrightarrow>
    (\<exists>raw dec url. didWebvhDomain did = Some raw \<and> raw \<noteq> [] \<and> decodeURIComponent raw = Some dec \<and>
       nfc dec \<noteq> [] \<and> list_all (\<lambda>u. \<not> isForbidden u) (nfc dec) \<and>
       parseUrl (js ''https://'' @ nfc dec @ js ''/'') = Some url \<and>
       urlUsername url = [] \<and> urlPassword url = [] \<and> urlPathname url = js ''/'' \<and>
       publicHost (urlHostname url))"
  unfolding assertResolvableWebvhHost_def isBlockedIp_iff isBlockedName_iff publicHost_def Let_def
  by (cases "didWebvhDomain did"; simp) (auto simp: list_all_iff list_ex_iff split: option.splits)

end
