(* ===== verification/Crc24.thy ===== *)
theory Crc24
  imports Prelude
begin

unbundle bit_operations_syntax

text \<open>
  The checksum of armored bundles, \<open>packages/core/src/provision/crc24.ts\<close>. The 32-bit operators of the
  source are the operations of \<open>32 word\<close>. The facts say what a corrupted body runs into: the loop over
  one bit is a linear bijection on 24 bits, hence no change within three consecutive bytes is missed.
\<close>

definition INIT :: "32 word" where "INIT = 0x00b704ce"
definition POLY :: "32 word" where "POLY = 0x01864cfb"

definition crcBit :: "32 word \<Rightarrow> 32 word" where
  "crcBit crc = (let c = push_bit 1 crc in if c AND 0x01000000 \<noteq> 0 then c XOR POLY else c)"

definition crcByte :: "32 word \<Rightarrow> byte \<Rightarrow> 32 word" where
  "crcByte crc b = (crcBit ^^ 8) (crc XOR push_bit 16 (ucast b))"

definition crc24 :: "bytes \<Rightarrow> 32 word" where
  "crc24 data = foldl crcByte INIT data AND 0x00ffffff"

definition crc24ToBytes :: "32 word \<Rightarrow> bytes" where
  "crc24ToBytes crc = [ucast (drop_bit 16 crc AND 0xff), ucast (drop_bit 8 crc AND 0xff), ucast (crc AND 0xff)]"

subsection \<open>One bit\<close>

lemma poly_high: "24 < n \<Longrightarrow> \<not> bit POLY n"
proof -
  assume n: "24 < n"
  have "take_bit 25 POLY = POLY" by (simp add: POLY_def)
  then have "bit POLY n \<Longrightarrow> n < 25" by (metis bit_take_bit_iff)
  with n show ?thesis by auto
qed

lemma poly_ends: "bit POLY 0" "bit POLY 24"
  by (simp_all add: POLY_def bit_simps)

lemma top_bit: "(y :: 32 word) AND 0x01000000 \<noteq> 0 \<longleftrightarrow> bit y 24"
  using and_exp_eq_0_iff_not_bit [of y 24] by simp

lemma crcBit_bit:
  "bit (crcBit x) n \<longleftrightarrow> (n < 32 \<and> 1 \<le> n \<and> bit x (n - 1)) \<noteq> (bit x 23 \<and> bit POLY n)"
proof -
  have p: "bit (push_bit 1 x) m \<longleftrightarrow> m < 32 \<and> 1 \<le> m \<and> bit x (m - 1)" for m
    by (simp only: bit_push_bit_iff possible_bit_word) auto
  have "crcBit x = (if bit x 23 then push_bit 1 x XOR POLY else push_bit 1 x)"
    unfolding crcBit_def Let_def top_bit p by simp
  then show ?thesis by (simp only: p bit_xor_iff split: if_split) blast
qed

lemma crcBit_xor: "crcBit (x XOR y) = crcBit x XOR crcBit y"
  by (rule bit_word_eqI) (auto simp: crcBit_bit bit_xor_iff)

lemma narrow_iff: "take_bit 24 (x :: 32 word) = x \<longleftrightarrow> (\<forall>n \<ge> 24. \<not> bit x n)"
proof
  assume "take_bit 24 x = x"
  then have "bit x n \<Longrightarrow> n < 24" for n by (metis bit_take_bit_iff)
  then show "\<forall>n \<ge> 24. \<not> bit x n" using not_less by blast
next
  assume "\<forall>n \<ge> 24. \<not> bit x n"
  then show "take_bit 24 x = x" by (intro bit_word_eqI) (auto simp: bit_take_bit_iff not_less [symmetric])
qed

lemma crcBit_narrow: "take_bit 24 x = x \<Longrightarrow> take_bit 24 (crcBit x) = crcBit x"
  unfolding narrow_iff
proof (intro allI impI)
  fix n :: nat
  assume a: "\<forall>n \<ge> 24. \<not> bit x n" and n: "24 \<le> n"
  show "\<not> bit (crcBit x) n"
  proof (cases "n = 24")
    case True
    then show ?thesis by (simp add: crcBit_bit poly_ends)
  next
    case False
    with n have "24 \<le> n - 1" "24 < n" by simp_all
    with a show ?thesis by (simp add: crcBit_bit poly_high)
  qed
qed

lemma crcBit_zero:
  assumes "take_bit 24 x = x" and "crcBit x = 0"
  shows "x = 0"
proof -
  have z: "\<not> bit (crcBit x) n" for n using assms(2) by simp
  from z [of 0] have top: "\<not> bit x 23" by (simp add: crcBit_bit poly_ends)
  have "\<not> bit x n" for n
  proof (cases "n < 24")
    case True
    with z [of "Suc n"] top show ?thesis by (simp add: crcBit_bit)
  next
    case False
    with assms(1) show ?thesis by (simp add: narrow_iff)
  qed
  then show ?thesis by (simp add: bit_eq_iff)
qed

lemma crcBits_add: "(crcBit ^^ (j + k)) x = (crcBit ^^ j) ((crcBit ^^ k) x)"
  by (simp add: funpow_add)

subsection \<open>Bytes\<close>

lemma crcBits_xor: "(crcBit ^^ k) (x XOR y) = (crcBit ^^ k) x XOR (crcBit ^^ k) y"
  by (induction k) (simp_all add: crcBit_xor)

lemma crcBits_narrow: "take_bit 24 x = x \<Longrightarrow> take_bit 24 ((crcBit ^^ k) x) = (crcBit ^^ k) x"
  by (induction k) (simp_all add: crcBit_narrow)

lemma crcBits_zero: "take_bit 24 x = x \<Longrightarrow> (crcBit ^^ k) x = 0 \<Longrightarrow> x = 0"
  by (induction k) (auto dest!: crcBit_zero [OF crcBits_narrow])

lemma xor_cancel: "(x :: 32 word) XOR z = y XOR z \<Longrightarrow> x = y"
proof -
  assume "x XOR z = y XOR z"
  then have "(x XOR z) XOR z = (y XOR z) XOR z" by (rule arg_cong)
  then show "x = y" by (simp add: xor.assoc)
qed

lemma crcBits_inj:
  assumes "take_bit 24 x = x" and "take_bit 24 y = y" and "(crcBit ^^ k) x = (crcBit ^^ k) y"
  shows "x = y"
proof -
  have "(crcBit ^^ k) (x XOR y) = 0" using assms(3) by (simp add: crcBits_xor)
  moreover have "take_bit 24 (x XOR y) = x XOR y" using assms by (simp add: take_bit_xor)
  ultimately have "x XOR y = 0" by (rule crcBits_zero [rotated])
  then show ?thesis by (metis xor.assoc xor.left_neutral xor_self_eq)
qed

lemma crcBits_shift:
  "(\<And>n. 24 - k \<le> n \<Longrightarrow> \<not> bit x n) \<Longrightarrow> k \<le> 24 \<Longrightarrow> (crcBit ^^ k) x = push_bit k x"
proof (induction k)
  case (Suc k)
  then have k: "(crcBit ^^ k) x = push_bit k x" by simp
  have "\<not> bit (push_bit k x) 23" using Suc.prems by (simp add: bit_push_bit_iff)
  then have "crcBit (push_bit k x) = push_bit (Suc k) x"
    by (intro bit_word_eqI) (auto simp: crcBit_bit bit_push_bit_iff simp del: push_bit_Suc)
  with k show ?case by simp
qed simp

lemma narrow_byte: "k \<le> 16 \<Longrightarrow> take_bit 24 (push_bit k (ucast (b :: byte)) :: 32 word) = push_bit k (ucast b)"
  unfolding narrow_iff by (auto simp: bit_push_bit_iff bit_ucast_iff dest: bit_imp_le_length)

lemma byte_shift:
  "j + 8 * k \<le> 16 \<Longrightarrow> (crcBit ^^ (8 * k)) (push_bit j (ucast (b :: byte))) = push_bit (j + 8 * k) (ucast b :: 32 word)"
  by (subst crcBits_shift) (auto simp: bit_push_bit_iff bit_ucast_iff push_bit_push_bit add.commute dest: bit_imp_le_length)

lemma narrow_xor: "take_bit 24 x = x \<Longrightarrow> take_bit 24 y = y \<Longrightarrow> take_bit 24 (x XOR y) = x XOR (y :: 32 word)"
  by (simp add: take_bit_xor)

lemmas narrow_input = narrow_xor [OF _ narrow_byte [OF order_refl]]

lemma crcByte_narrow: "take_bit 24 x = x \<Longrightarrow> take_bit 24 (crcByte x b) = crcByte x b"
  unfolding crcByte_def by (intro crcBits_narrow narrow_input)

lemma foldl_narrow: "take_bit 24 x = x \<Longrightarrow> take_bit 24 (foldl crcByte x bs) = foldl crcByte x bs"
  by (induction bs arbitrary: x) (simp_all add: crcByte_narrow)

lemma init_narrow: "take_bit 24 INIT = INIT"
  by (simp add: INIT_def take_bit_eq_mask mask_eq_exp_minus_1)

lemma crc24_fold: "crc24 data = foldl crcByte INIT data"
proof -
  have "(x :: 32 word) AND 0x00ffffff = take_bit 24 x" for x
    by (simp add: take_bit_eq_mask mask_eq_exp_minus_1)
  then show ?thesis by (simp add: crc24_def foldl_narrow init_narrow)
qed

lemma foldl_inj:
  "take_bit 24 x = x \<Longrightarrow> take_bit 24 y = y \<Longrightarrow> foldl crcByte x bs = foldl crcByte y bs \<Longrightarrow> x = y"
proof (induction bs arbitrary: x y)
  case (Cons b bs)
  then have "crcByte x b = crcByte y b" by (simp add: crcByte_narrow)
  then have "x XOR push_bit 16 (ucast b) = y XOR push_bit 16 (ucast b)"
    unfolding crcByte_def by (rule crcBits_inj [OF narrow_input [OF Cons.prems(1)] narrow_input [OF Cons.prems(2)]])
  then show ?case by (rule xor_cancel)
qed simp

text \<open>Three bytes are absorbed as the 24-bit number they form.\<close>

definition three :: "byte \<Rightarrow> byte \<Rightarrow> byte \<Rightarrow> 32 word" where
  "three a b c = push_bit 16 (ucast a) XOR (push_bit 8 (ucast b) XOR ucast c)"

lemma absorb_three: "foldl crcByte x [a, b, c] = (crcBit ^^ 24) (x XOR three a b c)"
proof -
  have b: "(push_bit 16 (ucast b) :: 32 word) = (crcBit ^^ 8) (push_bit 8 (ucast b))"
    using byte_shift [of 8 1 b] by simp
  have c: "(push_bit 16 (ucast c) :: 32 word) = (crcBit ^^ 16) (ucast c)"
    using byte_shift [of 0 2 c] by simp
  have n: "(crcBit ^^ 16) z = (crcBit ^^ 8) ((crcBit ^^ 8) z)"
    "(crcBit ^^ 24) z = (crcBit ^^ 8) ((crcBit ^^ 8) ((crcBit ^^ 8) z))" for z
    using crcBits_add [of 8 8 z] crcBits_add [of 8 16 z] by simp_all
  have "foldl crcByte x [a, b, c] = (crcBit ^^ 8) ((crcBit ^^ 8) ((crcBit ^^ 8)
      (x XOR push_bit 16 (ucast a)) XOR (crcBit ^^ 8) (push_bit 8 (ucast b))) XOR (crcBit ^^ 16) (ucast c))"
    unfolding b [symmetric] c [symmetric] by (simp add: crcByte_def)
  also have "\<dots> = (crcBit ^^ 24) (x XOR push_bit 16 (ucast a) XOR push_bit 8 (ucast b) XOR ucast c)"
    unfolding n crcBits_xor by (simp only: xor.assoc)
  finally show ?thesis by (simp only: three_def xor.assoc)
qed

lemma three_inj: "three a b c = three a' b' c' \<Longrightarrow> a = a' \<and> b = b' \<and> c = c'"
proof -
  assume e: "three a b c = three a' b' c'"
  have bits: "bit (three u v w) n = bit w n" "bit (three u v w) (n + 8) = bit v n"
    "bit (three u v w) (n + 16) = bit u n" if "n < 8" for n u v w
    using that bit_imp_le_length [of v "n + 8"] bit_imp_le_length [of w "n + 8"] bit_imp_le_length [of w "n + 16"]
    by (auto simp: add.commute [of 8] add.commute [of 16] three_def bit_xor_iff bit_push_bit_iff bit_ucast_iff)
  have "bit a n = bit a' n \<and> bit b n = bit b' n \<and> bit c n = bit c' n" if "n < 8" for n
    using bits [OF that, of a b c] bits [OF that, of a' b' c'] e by simp
  then show ?thesis by (intro conjI bit_word_eqI) simp_all
qed

lemma three_narrow: "take_bit 24 (three a b c) = three a b c"
  using narrow_byte [of 0 c] by (simp add: three_def take_bit_xor narrow_byte)

text \<open>No corruption of up to three consecutive bytes passes the checksum, wherever it is and
  whatever surrounds it.\<close>

theorem crc_detects_bursts:
  assumes "length ds = 3" and "length es = 3" and "ds \<noteq> es"
  shows "crc24 (xs @ ds @ ys) \<noteq> crc24 (xs @ es @ ys)"
proof
  assume "crc24 (xs @ ds @ ys) = crc24 (xs @ es @ ys)"
  then have f: "foldl crcByte (foldl crcByte (foldl crcByte INIT xs) ds) ys =
      foldl crcByte (foldl crcByte (foldl crcByte INIT xs) es) ys" by (simp add: crc24_fold)
  have n: "take_bit 24 (foldl crcByte INIT xs) = foldl crcByte INIT xs" by (rule foldl_narrow [OF init_narrow])
  obtain a b c where ds: "ds = [a, b, c]" using assms(1) by (auto simp: eval_nat_numeral length_Suc_conv)
  obtain a' b' c' where es: "es = [a', b', c']" using assms(2) by (auto simp: eval_nat_numeral length_Suc_conv)
  have "foldl crcByte (foldl crcByte INIT xs) ds = foldl crcByte (foldl crcByte INIT xs) es"
    by (rule foldl_inj [OF foldl_narrow [OF n] foldl_narrow [OF n] f])
  then have "foldl crcByte INIT xs XOR three a b c = foldl crcByte INIT xs XOR three a' b' c'"
    unfolding ds es absorb_three by (rule crcBits_inj [OF narrow_xor [OF n three_narrow] narrow_xor [OF n three_narrow]])
  then have "three a b c = three a' b' c'" unfolding xor.commute [of "foldl crcByte INIT xs"] by (rule xor_cancel)
  from three_inj [OF this] assms(3) show False by (simp add: ds es)
qed

theorem crc_detects_bursts_witness: "crc24 ([1, 2] @ [3, 4, 5] @ [6]) \<noteq> crc24 ([1, 2] @ [3, 0, 5] @ [6])"
  by (rule crc_detects_bursts) simp_all

end
