(* ===== verification/Armor.thy ===== *)
theory Armor
  imports Crc24 Js_Strings
begin

unbundle bit_operations_syntax

text \<open>
  The armor of sealed bundles, \<open>packages/core/src/provision/armor.ts\<close> with the records of \<open>types.ts\<close>:
  splitting the input into blocks, parsing a block's headers and body, grouping blocks by bundle id,
  and the associated data a chunk is sealed with. \<open>base64.decode\<close> belongs to another package and is the
  parameter \<open>b64\<close>; \<open>None\<close> is its exception. Every exception of the source is a constructor of
  \<open>bundleError\<close>, which the theory on opening bundles shares.
\<close>

datatype bundleError =
    InputTooLong nat | UnterminatedBlock | DigestAlgoDiffers | NoBlocks
  | BadHeader jsstr | UnknownHeader jsstr | BadVersion jsstr | BundleIdLength nat
  | BadChunkHeader jsstr | ChunkOutOfRange jsInteger jsInteger
  | MissingVersion | UnsupportedVersion int | MissingBundleId | MissingChunk | MissingDigestAlgo | MissingCrc
  | Base64Error jsstr | CrcLength nat | CrcMismatch "32 word" "32 word"
  | HexOddLength nat | HexNonHex "16 word" | AadBundleIdLength nat
  | SeedLength nat | SecretLength nat | EncapLength nat | HpkeFailed string
  | NoChunks | CborFailed | TypeError | NotAByte jsstr nat | NotBytes jsstr
  | KemEncapLength nat | FieldMissing jsstr | InnerBundleIdLength nat | HeadersDisagree
  | ChunkCount nat int | ChunkGap nat | PayloadKeyCount nat | PayloadNotObject jsstr | WrongVariant jsstr

record armoredChunk =
  chunkIndex :: int
  totalChunks :: int
  sealedBytes :: bytes

record sealedBundle =
  bundleId :: bytes
  digestAlgo :: jsstr
  chunks :: "armoredChunk list"

record parsedBlock =
  blockBundleId :: bytes
  blockDigestAlgo :: jsstr
  blockChunk :: armoredChunk

definition BEGIN :: jsstr where "BEGIN = js ''-----BEGIN VTA SEALED BUNDLE-----''"
definition END :: jsstr where "END = js ''-----END VTA SEALED BUNDLE-----''"
definition SUPPORTED_VERSION :: int where "SUPPORTED_VERSION = 1"

definition KNOWN_HEADERS :: "jsstr list" where
  "KNOWN_HEADERS = [js ''Version'', js ''Bundle-Id'', js ''Chunk'', js ''Digest-Algo'']"

definition MAX_ARMOR_INPUT_CHARS :: nat where "MAX_ARMOR_INPUT_CHARS = 4 * 1024 * 1024"

subsection \<open>Hexadecimal\<close>

definition hexNibble :: "16 word \<Rightarrow> bundleError + nat" where
  "hexNibble u =
     (let c = unat u in
      if 0x30 \<le> c \<and> c \<le> 0x39 then Inr (c - 0x30)
      else if 0x61 \<le> c \<and> c \<le> 0x66 then Inr (c - 0x61 + 10)
      else if 0x41 \<le> c \<and> c \<le> 0x46 then Inr (c - 0x41 + 10)
      else Inl (HexNonHex u))"

fun hexBytes :: "jsstr \<Rightarrow> bundleError + bytes" where
  "hexBytes (h # l # s) =
     bindE (hexNibble h) (\<lambda>hi. bindE (hexNibble l) (\<lambda>lo.
       bindE (hexBytes s) (\<lambda>out. Inr (word_of_nat (push_bit 4 hi OR lo) # out))))"
| "hexBytes _ = Inr []"

definition hexDecode :: "jsstr \<Rightarrow> bundleError + bytes" where
  "hexDecode s = (if length s mod 2 \<noteq> 0 then Inl (HexOddLength (length s)) else hexBytes s)"

subsection \<open>One block\<close>

text \<open>The variables the header loop assigns; \<open>None\<close> is \<open>undefined\<close>.\<close>

record headers =
  hVersion :: "int option"
  hBundleId :: "bytes option"
  hChunk :: "(int \<times> int) option"
  hDigestAlgo :: "jsstr option"

definition noHeaders :: headers where
  "noHeaders = \<lparr>hVersion = None, hBundleId = None, hChunk = None, hDigestAlgo = None\<rparr>"

definition parseChunkHeader :: "jsstr \<Rightarrow> bundleError + (int \<times> int)" where
  "parseChunkHeader v =
     (case indexOf 47 v of
        None \<Rightarrow> Inl (BadChunkHeader v)
      | Some slash \<Rightarrow>
          let oneBased = parseInt10 (take slash v); count = parseInt10 (drop (slash + 1) v) in
          (case (oneBased, count) of
             (Whole i, Whole n) \<Rightarrow>
               if i = 0 \<or> i > n then Inl (ChunkOutOfRange oneBased count) else Inr (i - 1, n)
           | _ \<Rightarrow> Inl (ChunkOutOfRange oneBased count)))"

definition parseHeader :: "jsstr \<Rightarrow> jsstr \<Rightarrow> headers \<Rightarrow> bundleError + headers" where
  "parseHeader key v hs =
     (if key = js ''Version'' then
        (case parseInt10 v of Whole n \<Rightarrow> Inr (hs\<lparr>hVersion := Some n\<rparr>) | _ \<Rightarrow> Inl (BadVersion v))
      else if key = js ''Bundle-Id'' then
        bindE (hexDecode v) (\<lambda>i. if length i \<noteq> 16 then Inl (BundleIdLength (length i))
                                 else Inr (hs\<lparr>hBundleId := Some i\<rparr>))
      else if key = js ''Chunk'' then
        bindE (parseChunkHeader v) (\<lambda>c. Inr (hs\<lparr>hChunk := Some c\<rparr>))
      else Inr (hs\<lparr>hDigestAlgo := Some v\<rparr>))"

fun parseHeaders :: "jsstr list \<Rightarrow> headers \<Rightarrow> bundleError + (headers \<times> jsstr list)" where
  "parseHeaders [] hs = Inr (hs, [])"
| "parseHeaders (raw # ls) hs =
     (let trimmed = trimEnd raw in
      if length trimmed = 0 then Inr (hs, ls)
      else case indexOf 58 trimmed of
        None \<Rightarrow> Inl (BadHeader trimmed)
      | Some colon \<Rightarrow>
          let key = trim (take colon trimmed); v = trim (drop (colon + 1) trimmed) in
          if key \<notin> set KNOWN_HEADERS then Inl (UnknownHeader key)
          else bindE (parseHeader key v hs) (parseHeaders ls))"

fun readBody :: "jsstr list \<Rightarrow> jsstr \<Rightarrow> jsstr \<times> jsstr option" where
  "readBody [] b64 = (b64, None)"
| "readBody (raw # ls) b64 =
     (let trimmed = trimEnd raw in
      if length trimmed = 0 then readBody ls b64
      else if startsWith trimmed (js ''='') then (b64, Some (drop 1 trimmed))
      else readBody ls (b64 @ trimmed))"

definition expectedCrc :: "bytes \<Rightarrow> 32 word" where
  "expectedCrc b = (push_bit 16 (ucast (b ! 0)) OR push_bit 8 (ucast (b ! 1))) OR ucast (b ! 2)"

definition decode64 :: "(jsstr \<Rightarrow> bytes option) \<Rightarrow> jsstr \<Rightarrow> bundleError + bytes" where
  "decode64 b64 s = orThrow (b64 s) (Base64Error s)"

definition parseBlock :: "(jsstr \<Rightarrow> bytes option) \<Rightarrow> jsstr list \<Rightarrow> bundleError + parsedBlock" where
  "parseBlock b64 ls =
     bindE (parseHeaders ls noHeaders) (\<lambda>(hs, rest).
     bindE (orThrow (hVersion hs) MissingVersion) (\<lambda>version.
     throwIf (version \<noteq> SUPPORTED_VERSION) (UnsupportedVersion version)
     (bindE (orThrow (hBundleId hs) MissingBundleId) (\<lambda>ident.
      bindE (orThrow (hChunk hs) MissingChunk) (\<lambda>(index, count).
      bindE (orThrow (hDigestAlgo hs) MissingDigestAlgo) (\<lambda>algo.
      throwIf (algo = []) MissingDigestAlgo
      (let (body, crc) = readBody rest [] in
       bindE (orThrow crc MissingCrc) (\<lambda>crcB64.
       bindE (decode64 b64 body) (\<lambda>sealed.
       bindE (decode64 b64 crcB64) (\<lambda>crcBytes.
       throwIf (length crcBytes \<noteq> 3) (CrcLength (length crcBytes))
       (let expected = expectedCrc crcBytes; got = crc24 sealed in
        if got \<noteq> expected then Inl (CrcMismatch expected got)
        else Inr \<lparr>blockBundleId = ident, blockDigestAlgo = algo,
                  blockChunk = \<lparr>chunkIndex = index, totalChunks = count, sealedBytes = sealed\<rparr>\<rparr>)))))))))))"

subsection \<open>The input\<close>

definition stripCr :: "jsstr \<Rightarrow> jsstr" where
  "stripCr l = (if endsWith l [13] then butlast l else l)"

text \<open>\<open>input.split(/\r?\n/)\<close>.\<close>

definition splitLines :: "jsstr \<Rightarrow> jsstr list" where
  "splitLines s = (let ps = splitOn 10 s in map stripCr (butlast ps) @ [last ps])"

text \<open>The block joins the first bundle with its id, or starts one.\<close>

fun addBlock :: "parsedBlock \<Rightarrow> sealedBundle list \<Rightarrow> bundleError + sealedBundle list" where
  "addBlock b [] = Inr [\<lparr>bundleId = blockBundleId b, digestAlgo = blockDigestAlgo b, chunks = [blockChunk b]\<rparr>]"
| "addBlock b (e # es) =
     (if bundleId e = blockBundleId b then
        (if digestAlgo e \<noteq> blockDigestAlgo b then Inl DigestAlgoDiffers
         else Inr (e\<lparr>chunks := chunks e @ [blockChunk b]\<rparr> # es))
      else bindE (addBlock b es) (\<lambda>es'. Inr (e # es')))"

lemma dropWhile_shorter: "dropWhile P xs = y # ys \<Longrightarrow> length ys < length xs"
  using length_dropWhile_le [of P xs] by simp

function armorLoop :: "(jsstr \<Rightarrow> bytes option) \<Rightarrow> jsstr list \<Rightarrow> sealedBundle list \<Rightarrow> bundleError + sealedBundle list" where
  "armorLoop b64 [] bundles = Inr bundles"
| "armorLoop b64 (l # ls) bundles =
     (if trim l \<noteq> BEGIN then armorLoop b64 ls bundles
      else case dropWhile (\<lambda>x. trim x \<noteq> END) ls of
        [] \<Rightarrow> Inl UnterminatedBlock
      | _ # rest \<Rightarrow>
          bindE (parseBlock b64 (takeWhile (\<lambda>x. trim x \<noteq> END) ls)) (\<lambda>block.
          bindE (addBlock block bundles) (\<lambda>bundles'. armorLoop b64 rest bundles')))"
  by pat_completeness auto

termination
  by (relation "measure (\<lambda>(_, ls, _). length ls)") (auto dest: dropWhile_shorter)

definition decodeArmor :: "(jsstr \<Rightarrow> bytes option) \<Rightarrow> jsstr \<Rightarrow> bundleError + sealedBundle list" where
  "decodeArmor b64 input =
     throwIf (length input > MAX_ARMOR_INPUT_CHARS) (InputTooLong (length input))
     (bindE (armorLoop b64 (splitLines input) []) (\<lambda>bundles.
      if length bundles = 0 then Inl NoBlocks else Inr bundles))"

subsection \<open>Associated data\<close>

text \<open>The arguments of \<open>buildChunkAad\<close> in the order of its parameter type.\<close>

definition buildChunkAad :: "int \<Rightarrow> bytes \<Rightarrow> int \<Rightarrow> int \<Rightarrow> jsstr \<Rightarrow> bundleError + bytes" where
  "buildChunkAad version ident index count algo =
     throwIf (length ident \<noteq> 16) (AadBundleIdLength (length ident))
     (let algoBytes = textEncode algo; algoLen = min (length algoBytes) 255 in
      Inr (word_of_int version # ident @
           [word_of_int (drop_bit 8 index AND 0xff), word_of_int (index AND 0xff),
            word_of_int (drop_bit 8 count AND 0xff), word_of_int (count AND 0xff), word_of_nat algoLen]
           @ take algoLen algoBytes))"

subsection \<open>What a decoded bundle looks like\<close>

text \<open>A chunk that came from a block: its index and count passed the header check, and its bytes were
  decoded from base64 and match the checksum of the block.\<close>

definition chunkOk :: "(jsstr \<Rightarrow> bytes option) \<Rightarrow> armoredChunk \<Rightarrow> bool" where
  "chunkOk b64 c \<longleftrightarrow> chunkIndex c \<noteq> - 1 \<and> chunkIndex c < totalChunks c \<and>
     (\<exists>body crc crcBytes. b64 body = Some (sealedBytes c) \<and> b64 crc = Some crcBytes \<and>
        length crcBytes = 3 \<and> expectedCrc crcBytes = crc24 (sealedBytes c))"

definition bundleOk :: "(jsstr \<Rightarrow> bytes option) \<Rightarrow> sealedBundle \<Rightarrow> bool" where
  "bundleOk b64 b \<longleftrightarrow> length (bundleId b) = 16 \<and> digestAlgo b \<noteq> [] \<and> chunks b \<noteq> [] \<and>
     list_all (chunkOk b64) (chunks b)"

definition headersOk :: "headers \<Rightarrow> bool" where
  "headersOk hs \<longleftrightarrow> (\<forall>i. hBundleId hs = Some i \<longrightarrow> length i = 16) \<and>
     (\<forall>i n. hChunk hs = Some (i, n) \<longrightarrow> i \<noteq> - 1 \<and> i < n)"

lemma parseChunkHeader_ok: "parseChunkHeader v = Inr (i, n) \<Longrightarrow> i \<noteq> - 1 \<and> i < n"
  by (auto simp: parseChunkHeader_def Let_def split: option.splits jsInteger.splits if_splits)

lemma parseHeader_ok: "parseHeader key v hs = Inr hs' \<Longrightarrow> headersOk hs \<Longrightarrow> headersOk hs'"
  by (auto simp: parseHeader_def headersOk_def bindE_Inr parseChunkHeader_ok
      split: if_splits jsInteger.splits)

lemma parseHeaders_ok: "parseHeaders ls hs = Inr (hs', rest) \<Longrightarrow> headersOk hs \<Longrightarrow> headersOk hs'"
proof (induction ls hs rule: parseHeaders.induct)
  case (2 raw ls hs)
  show ?case
  proof (cases "length (trimEnd raw) = 0")
    case False
    with 2(2) obtain colon hs1 where c: "indexOf 58 (trimEnd raw) = Some colon"
        and k: "trim (take colon (trimEnd raw)) \<in> set KNOWN_HEADERS"
        and h: "parseHeader (trim (take colon (trimEnd raw))) (trim (drop (colon + 1) (trimEnd raw))) hs = Inr hs1"
        and r: "parseHeaders ls hs1 = Inr (hs', rest)"
      by (auto simp: Let_def bindE_Inr split: option.splits if_splits)
    from 2(1) [OF refl False c refl refl _ r] k parseHeader_ok [OF h 2(3)] show ?thesis by simp
  qed (use 2 in auto)
qed simp

lemma parseBlock_ok:
  assumes "parseBlock b64 ls = Inr b"
  shows "length (blockBundleId b) = 16 \<and> blockDigestAlgo b \<noteq> [] \<and> chunkOk b64 (blockChunk b)"
proof -
  obtain hs rest where h: "parseHeaders ls noHeaders = Inr (hs, rest)"
    using assms by (auto simp: parseBlock_def bindE_Inr)
  obtain body crc where r: "readBody rest [] = (body, crc)" by fastforce
  from assms obtain i n where
      v: "hBundleId hs = Some (blockBundleId b)" "hChunk hs = Some (i, n)" "blockDigestAlgo b \<noteq> []"
        "chunkIndex (blockChunk b) = i" "totalChunks (blockChunk b) = n"
      and c: "\<exists>crcB64 crcBytes. b64 body = Some (sealedBytes (blockChunk b)) \<and> b64 crcB64 = Some crcBytes \<and>
        length crcBytes = 3 \<and> expectedCrc crcBytes = crc24 (sealedBytes (blockChunk b))"
    by (fastforce simp: parseBlock_def decode64_def exn_simps Let_def h r simp del: throwIf.simps split: if_splits)
  have "headersOk noHeaders" by (simp add: headersOk_def noHeaders_def)
  with parseHeaders_ok [OF h] v c show ?thesis unfolding headersOk_def chunkOk_def by blast
qed

lemma addBlock_ok:
  "addBlock b es = Inr es' \<Longrightarrow>
   length (blockBundleId b) = 16 \<and> blockDigestAlgo b \<noteq> [] \<and> chunkOk b64 (blockChunk b) \<Longrightarrow>
   list_all (bundleOk b64) es \<and> distinct (map bundleId es) \<Longrightarrow>
   list_all (bundleOk b64) es' \<and> distinct (map bundleId es') \<and>
   set (map bundleId es') = insert (blockBundleId b) (set (map bundleId es))"
proof (induction b es arbitrary: es' rule: addBlock.induct)
  case (2 b e es)
  show ?case
  proof (cases "bundleId e = blockBundleId b")
    case True
    with 2 show ?thesis by (auto simp: bundleOk_def split: if_splits)
  next
    case False
    with 2(2) obtain x where x: "addBlock b es = Inr x" "es' = e # x" by (auto simp: bindE_Inr)
    from 2(1) [OF False x(1) 2(3)] 2(4)
    have i: "list_all (bundleOk b64) x" "distinct (map bundleId x)"
      "set (map bundleId x) = insert (blockBundleId b) (set (map bundleId es))" by simp_all
    from 2(4) have "bundleId e \<notin> set (map bundleId es)" "bundleOk b64 e" by simp_all
    with False have "bundleId e \<notin> set (map bundleId x)" "bundleOk b64 e" unfolding i(3) by simp_all
    with i show ?thesis by (auto simp: x(2))
  qed
qed (simp add: bundleOk_def)

lemma armorLoop_ok:
  "armorLoop b64 ls bs = Inr bs' \<Longrightarrow> list_all (bundleOk b64) bs \<and> distinct (map bundleId bs) \<Longrightarrow>
   list_all (bundleOk b64) bs' \<and> distinct (map bundleId bs')"
proof (induction b64 ls bs rule: armorLoop.induct)
  case (2 b64 l ls bs)
  show ?case
  proof (cases "trim l = BEGIN")
    case True
    with 2(3) obtain e rest block bs1 where d: "dropWhile (\<lambda>x. trim x \<noteq> END) ls = e # rest"
        and b: "parseBlock b64 (takeWhile (\<lambda>x. trim x \<noteq> END) ls) = Inr block"
        and a: "addBlock block bs = Inr bs1" and r: "armorLoop b64 rest bs1 = Inr bs'"
      by (auto simp: bindE_Inr split: list.splits)
    from addBlock_ok [OF a parseBlock_ok [OF b] 2(4)]
    have "list_all (bundleOk b64) bs1 \<and> distinct (map bundleId bs1)" by simp
    with 2(2) True d r show ?thesis by simp
  next
    case False
    with 2 show ?thesis by simp
  qed
qed simp

lemma decodeArmor_ok:
  assumes "decodeArmor b64 input = Inr bs"
  shows "bs \<noteq> [] \<and> distinct (map bundleId bs) \<and> list_all (bundleOk b64) bs \<and>
    length input \<le> MAX_ARMOR_INPUT_CHARS"
proof -
  from assms have "armorLoop b64 (splitLines input) [] = Inr bs" and n: "bs \<noteq> []"
      and l: "length input \<le> MAX_ARMOR_INPUT_CHARS"
    by (auto simp: decodeArmor_def bindE_Inr split: if_splits)
  from armorLoop_ok [OF this(1)] n l show ?thesis by simp
qed

text \<open>The header check of the index does not ask for a positive number: minus one of two is taken, as the
  chunk with index minus two. Opening the bundle refuses it, since its indices must be \<open>0, \<dots>, n - 1\<close>.\<close>

lemma negative_chunk_taken: "parseChunkHeader (js ''-1/2'') = Inr (- 2, 2)"
  by (simp add: js_def parseChunkHeader_def parseInt10_def trimStart_def isJsSpace_def isDigit_def ofDigits_def
      digitVal_def numberOf_exact Let_def)

end
