(* ===== verification/Armor_Text.thy ===== *)
theory Armor_Text
  imports Armor
begin

unbundle bit_operations_syntax

text \<open>
  The armored text of a bundle, after the frame that the head of \<open>packages/core/src/provision/armor.ts\<close>
  describes (the repository holds only the decoder): one block per chunk, base64 in lines of 64
  characters, the checksum on a line of its own. The facts show that \<open>decodeArmor\<close> reads this text back.
\<close>

subsection \<open>Text\<close>

definition solid :: "jsstr \<Rightarrow> bool" where
  "solid s \<longleftrightarrow> s \<noteq> [] \<and> \<not> isJsSpace (hd s) \<and> \<not> isJsSpace (last s)"

lemma trimEnd_solid: "solid v \<Longrightarrow> trimEnd (x @ v) = x @ v"
proof -
  assume "solid v"
  then obtain v' u where "v = v' @ [u]" "\<not> isJsSpace u" by (cases v rule: rev_cases) (auto simp: solid_def)
  then show ?thesis by (simp add: trimEnd_def)
qed

lemma trim_solid: "solid v \<Longrightarrow> trim v = v"
  using trimEnd_solid [of v "[]"] by (cases v) (simp_all add: trim_def trimStart_def solid_def)

lemma trim_space: "trim (32 # v) = trim v"
  by (simp add: trim_def trimStart_def isJsSpace_def)

lemma solid_plain: "s \<noteq> [] \<Longrightarrow> (\<And>u. u \<in> set s \<Longrightarrow> \<not> isJsSpace u) \<Longrightarrow> solid s"
  by (simp add: solid_def)

subsection \<open>Numerals\<close>

lemma digit_facts: "isDigit u \<Longrightarrow> \<not> isJsSpace u \<and> u \<noteq> 45 \<and> u \<noteq> 43 \<and> u \<noteq> 47 \<and> u \<noteq> 10"
  by (auto simp: isDigit_def isJsSpace_def Let_def)

lemma parseInt_natString: "n < 2 ^ 53 \<Longrightarrow> parseInt10 (js (natString n)) = Whole (int n)"
proof -
  assume n: "n < 2 ^ 53"
  obtain u s where s: "js (natString n) = u # s" using natString_ne [of n] by (cases "js (natString n)") auto
  then have u: "isDigit u" using natString_units [of u n] by simp
  have all: "list_all isDigit (u # s)" "ofDigits (u # s) = n" using natString_digits [of n] s by simp_all
  have "js ''-'' = [45]" "js ''+'' = [43]" by (simp_all add: js_def)
  with u all n show ?thesis
    by (simp add: parseInt10_def s trimStart_def digit_facts takeWhile_all numberOf_exact Let_def
        del: takeWhile.simps)
qed

subsection \<open>Hexadecimal\<close>

definition hexUnit :: "nat \<Rightarrow> 16 word" where
  "hexUnit d = word_of_nat (if d < 10 then 48 + d else 87 + d)"

definition hexStr :: "bytes \<Rightarrow> jsstr" where
  "hexStr b = concat (map (\<lambda>x. [hexUnit (unat x div 16), hexUnit (unat x mod 16)]) b)"

lemma hexUnit_unat: "d < 16 \<Longrightarrow> unat (hexUnit d) = (if d < 10 then 48 + d else 87 + d)"
  unfolding hexUnit_def unat_of_nat by simp

lemma hexNibble_unit: "d < 16 \<Longrightarrow> hexNibble (hexUnit d) = Inr d"
  by (simp add: hexNibble_def hexUnit_unat Let_def)

lemma byte_nibbles: "unat (x :: byte) div 16 < 16 \<and> unat x mod 16 < 16"
  using unsigned_less [of x] by (auto intro: less_mult_imp_div_less)

lemma hexBytes_str: "hexBytes (hexStr b) = Inr b"
proof (induction b)
  case (Cons x b)
  have x: "unat x < 256" using unsigned_less [of x] by simp
  then have d: "unat x div 16 < 16" "unat x mod 16 < 16" by auto
  have "push_bit 4 (unat x div 16) OR (unat x mod 16) = unat x"
    using or_disjoint_add [of "unat x mod 16" 4 "unat x div 16"] by simp
  with Cons d show ?case by (simp add: hexStr_def hexNibble_unit)
qed (simp add: hexStr_def)

lemma length_hexStr: "length (hexStr b) = 2 * length b"
  by (induction b) (simp_all add: hexStr_def)

lemma hexDecode_str: "hexDecode (hexStr b) = Inr b"
  by (simp add: hexDecode_def length_hexStr hexBytes_str)

lemma hexStr_units: "u \<in> set (hexStr b) \<Longrightarrow> \<not> isJsSpace u \<and> u \<noteq> 10 \<and> u \<noteq> 61 \<and> u \<noteq> 45"
proof -
  assume "u \<in> set (hexStr b)"
  then obtain x where "x \<in> set b" "u = hexUnit (unat x div 16) \<or> u = hexUnit (unat x mod 16)"
    by (auto simp: hexStr_def)
  then obtain d where "d < 16" "u = hexUnit d" using byte_nibbles [of x] by blast
  then have "unat u = (if d < 10 then 48 + d else 87 + d)" "d < 16" by (simp_all add: hexUnit_unat)
  then show ?thesis by (auto simp: isJsSpace_def Let_def split: if_splits)
qed

subsection \<open>The armored text\<close>

function wrap64 :: "jsstr \<Rightarrow> jsstr list" where
  "wrap64 s = (if s = [] then [] else take 64 s # wrap64 (drop 64 s))"
  by auto
termination by (relation "measure length") auto

declare wrap64.simps [simp del]

definition blockBody :: "(bytes \<Rightarrow> jsstr) \<Rightarrow> bytes \<Rightarrow> jsstr \<Rightarrow> armoredChunk \<Rightarrow> jsstr list" where
  "blockBody enc ident algo c =
     (js ''Version'' @ js '': '' @ js ''1'') #
     (js ''Bundle-Id'' @ js '': '' @ hexStr ident) #
     (js ''Chunk'' @ js '': '' @ (js (natString (nat (chunkIndex c + 1))) @ js ''/'' @ js (natString (nat (totalChunks c))))) #
     (js ''Digest-Algo'' @ js '': '' @ algo) # [] #
     wrap64 (enc (sealedBytes c)) @ [js ''='' @ enc (crc24ToBytes (crc24 (sealedBytes c)))]"

definition armorBlock :: "(bytes \<Rightarrow> jsstr) \<Rightarrow> bytes \<Rightarrow> jsstr \<Rightarrow> armoredChunk \<Rightarrow> jsstr list" where
  "armorBlock enc ident algo c = BEGIN # blockBody enc ident algo c @ [END]"

definition armorText :: "(bytes \<Rightarrow> jsstr) \<Rightarrow> sealedBundle \<Rightarrow> jsstr" where
  "armorText enc b = joinWith [10] (concat (map (armorBlock enc (bundleId b) (digestAlgo b)) (chunks b)))"

text \<open>What is relied on of base64: decoding inverts encoding, the alphabet has neither white space nor a
  hyphen, and padding stands only in the last half of a group of four characters.\<close>

definition base64Ok :: "(bytes \<Rightarrow> jsstr) \<Rightarrow> (jsstr \<Rightarrow> bytes option) \<Rightarrow> bool" where
  "base64Ok enc b64 \<longleftrightarrow> (\<forall>x. b64 (enc x) = Some x \<and>
     (\<forall>u \<in> set (enc x). \<not> isJsSpace u \<and> u \<noteq> 45) \<and>
     (\<forall>i < length (enc x). i mod 4 = 0 \<longrightarrow> enc x ! i \<noteq> 61) \<and>
     (x \<noteq> [] \<longrightarrow> enc x \<noteq> []))"

text \<open>What an encoder is given: a chunk in range and an algorithm name that fits on its line.\<close>

definition encodable :: "jsstr \<Rightarrow> armoredChunk \<Rightarrow> bool" where
  "encodable algo c \<longleftrightarrow> 0 \<le> chunkIndex c \<and> chunkIndex c < totalChunks c \<and> totalChunks c < 2 ^ 53 \<and>
     solid algo \<and> 10 \<notin> set algo"

lemma wrap64_lines:
  assumes "\<And>i. i < length s \<Longrightarrow> i mod 4 = 0 \<Longrightarrow> s ! i \<noteq> 61"
  shows "concat (wrap64 s) = s \<and> (\<forall>l \<in> set (wrap64 s). l \<noteq> [] \<and> hd l \<noteq> 61 \<and> set l \<subseteq> set s)"
  using assms
proof (induction s rule: wrap64.induct)
  case (1 s)
  show ?case
  proof (cases "s = []")
    case False
    have "drop 64 s ! i \<noteq> 61" if "i < length (drop 64 s)" "i mod 4 = 0" for i
    proof -
      have "(64 + i) mod 4 = 0" using that(2) by presburger
      with 1(2) [of "64 + i"] that show ?thesis by simp
    qed
    note ih0 = 1(1) [OF False this]
    from ih0 have ih1: "concat (wrap64 (drop 64 s)) = drop 64 s" by (rule conjunct1)
    from ih0 have ih2: "\<forall>l \<in> set (wrap64 (drop 64 s)). l \<noteq> [] \<and> hd l \<noteq> 61 \<and> set l \<subseteq> set s"
      by (meson set_drop_subset subset_trans)
    have "take 64 s \<noteq> []" "hd (take 64 s) \<noteq> 61" "set (take 64 s) \<subseteq> set s"
      using False 1(2) [of 0] by (simp_all add: hd_conv_nth set_take_subset)
    with ih1 ih2 False show ?thesis by (simp add: wrap64.simps [of s])
  qed (simp add: wrap64.simps)
qed

lemma header_line:
  assumes "key \<in> set KNOWN_HEADERS" and "solid v"
  shows "parseHeaders ((key @ js '': '' @ v) # ls) hs = bindE (parseHeader key v hs) (parseHeaders ls)"
proof -
  have k: "58 \<notin> set key" "trim key = key"
    using assms(1) by (auto simp: KNOWN_HEADERS_def js_def trim_def trimEnd_def trimStart_def isJsSpace_def)
  have t: "trimEnd (key @ js '': '' @ v) = key @ 58 # 32 # v"
    using trimEnd_solid [OF assms(2), of "key @ js '': ''"] by (simp add: js_def)
  have "indexOf 58 (p @ 58 # r) = Some (length p)" if "58 \<notin> set p" for p r
    using that by (induction p) auto
  from this [OF k(1)] t k assms show ?thesis by (simp add: trim_space trim_solid)
qed

lemma readBody_lines:
  assumes "\<forall>l \<in> set ls. l \<noteq> [] \<and> hd l \<noteq> 61 \<and> (\<forall>u \<in> set l. \<not> isJsSpace u)"
    and "\<forall>u \<in> set crc. \<not> isJsSpace u"
  shows "readBody (ls @ [js ''='' @ crc]) acc = (acc @ concat ls, Some crc)"
  using assms(1)
proof (induction ls arbitrary: acc)
  case Nil
  have "solid (js ''='' @ crc)" using assms(2) by (intro solid_plain) (auto simp: js_def isJsSpace_def)
  from trimEnd_solid [OF this, of "[]"] show ?case by (simp add: startsWith_def js_def)
next
  case (Cons l ls)
  then have "solid l" by (intro solid_plain) auto
  from trimEnd_solid [OF this, of "[]"] have "trimEnd l = l" by simp
  with Cons show ?case by (cases l) (simp_all add: startsWith_def js_def)
qed

lemma crc_bytes: "length (crc24ToBytes x) = 3"
  by (simp add: crc24ToBytes_def)

lemma byte_of_crc: "bit (ucast (ucast (drop_bit j c AND 0xff) :: byte) :: 32 word) n \<longleftrightarrow> n < 8 \<and> bit (c :: 32 word) (j + n)"
proof -
  have m: "(x :: 32 word) AND 0xff = take_bit 8 x" for x by (simp add: take_bit_eq_mask mask_eq_exp_minus_1)
  show ?thesis using bit_imp_le_length [of c "j + n"]
    by (auto simp: m bit_ucast_iff bit_take_bit_iff bit_drop_bit_eq)
qed

lemma crc_expected: "expectedCrc (crc24ToBytes (crc24 d)) = crc24 d"
proof (rule bit_word_eqI)
  fix k assume k: "k < LENGTH(32)"
  define c where "c = crc24 d"
  have n: "take_bit 24 c = c" by (simp add: c_def crc24_fold foldl_narrow init_narrow)
  have e: "bit (expectedCrc (crc24ToBytes c)) k \<longleftrightarrow> (16 \<le> k \<and> k - 16 < 8 \<and> bit c (16 + (k - 16))) \<or>
      (8 \<le> k \<and> k - 8 < 8 \<and> bit c (8 + (k - 8))) \<or> (k < 8 \<and> bit c k)"
    using k byte_of_crc [of 0 c k]
    by (simp add: expectedCrc_def crc24ToBytes_def bit_or_iff bit_push_bit_iff byte_of_crc)
  consider "k < 8" | "8 \<le> k" "k < 16" | "16 \<le> k" "k < 24" | "24 \<le> k" by linarith
  then show "bit (expectedCrc (crc24ToBytes (crc24 d))) k = bit (crc24 d) k"
    unfolding c_def [symmetric] e using n by cases (auto simp: narrow_iff)
qed

subsection \<open>Reading a block back\<close>

lemma indexOf_first: "c \<notin> set p \<Longrightarrow> indexOf c (p @ c # r) = Some (length p)"
  by (induction p) auto

lemma chunk_header:
  assumes "encodable algo c"
  shows "parseChunkHeader (js (natString (nat (chunkIndex c + 1))) @ js ''/'' @ js (natString (nat (totalChunks c)))) =
    Inr (chunkIndex c, totalChunks c)"
proof -
  let ?i = "nat (chunkIndex c + 1)" and ?n = "nat (totalChunks c)"
  have b: "?i < 2 ^ 53" "?n < 2 ^ 53" "int ?i = chunkIndex c + 1" "int ?n = totalChunks c" "0 \<le> chunkIndex c"
    "chunkIndex c < totalChunks c"
    using assms by (auto simp: encodable_def)
  have "47 \<notin> set (js (natString ?i))" using natString_units digit_facts by blast
  from indexOf_first [OF this] parseInt_natString [OF b(1)] parseInt_natString [OF b(2)] b(3-6)
  show ?thesis by (simp add: parseChunkHeader_def Let_def js_def [of "''/''"])
qed

lemma base64_facts:
  assumes "base64Ok enc b64"
  shows "b64 (enc x) = Some x" "u \<in> set (enc x) \<Longrightarrow> \<not> isJsSpace u \<and> u \<noteq> 45"
    "concat (wrap64 (enc x)) = enc x"
    "l \<in> set (wrap64 (enc x)) \<Longrightarrow> l \<noteq> [] \<and> hd l \<noteq> 61 \<and> set l \<subseteq> set (enc x)"
proof -
  from assms have o: "b64 (enc x) = Some x" "\<forall>u \<in> set (enc x). \<not> isJsSpace u \<and> u \<noteq> 45"
    "\<forall>i < length (enc x). i mod 4 = 0 \<longrightarrow> enc x ! i \<noteq> 61" by (simp_all add: base64Ok_def)
  have w: "concat (wrap64 (enc x)) = enc x \<and> (\<forall>l \<in> set (wrap64 (enc x)). l \<noteq> [] \<and> hd l \<noteq> 61 \<and> set l \<subseteq> set (enc x))"
    by (rule wrap64_lines) (use o(3) in simp)
  show "b64 (enc x) = Some x" by (rule o(1))
  show "u \<in> set (enc x) \<Longrightarrow> \<not> isJsSpace u \<and> u \<noteq> 45" using o(2) by simp
  show "concat (wrap64 (enc x)) = enc x" using w by simp
  show "l \<in> set (wrap64 (enc x)) \<Longrightarrow> l \<noteq> [] \<and> hd l \<noteq> 61 \<and> set l \<subseteq> set (enc x)" using w by simp
qed

lemma chunk_value_solid:
  "solid (js (natString m) @ js ''/'' @ js (natString n))" "10 \<notin> set (js (natString m) @ js ''/'' @ js (natString n))"
proof -
  have u: "\<not> isJsSpace u \<and> u \<noteq> 10" if "u \<in> set (js (natString m) @ js ''/'' @ js (natString n))" for u
    using that natString_units digit_facts by (auto simp: js_def [of "''/''"] isJsSpace_def)
  then show "10 \<notin> set (js (natString m) @ js ''/'' @ js (natString n))" by blast
  show "solid (js (natString m) @ js ''/'' @ js (natString n))"
    using u by (intro solid_plain) (simp_all add: js_def [of "''/''"])
qed

lemma hexStr_solid: "length ident = 16 \<Longrightarrow> solid (hexStr ident)"
  using hexStr_units length_hexStr [of ident] by (intro solid_plain) auto

lemma one_solid: "solid (js ''1'')"
  by (simp add: solid_def js_def isJsSpace_def)

lemma parseBlock_body:
  assumes "base64Ok enc b64" and "encodable algo c" and "length ident = 16"
  shows "parseBlock b64 (blockBody enc ident algo c) =
    Inr \<lparr>blockBundleId = ident, blockDigestAlgo = algo, blockChunk = c\<rparr>"
proof -
  note b = base64_facts [OF assms(1)]
  have a: "solid algo" "algo \<noteq> []" using assms(2) by (simp_all add: encodable_def solid_def)
  have k: "js ''Version'' \<in> set KNOWN_HEADERS" "js ''Bundle-Id'' \<in> set KNOWN_HEADERS"
    "js ''Chunk'' \<in> set KNOWN_HEADERS" "js ''Digest-Algo'' \<in> set KNOWN_HEADERS"
    by (simp_all add: KNOWN_HEADERS_def)
  have ne: "js ''Bundle-Id'' \<noteq> js ''Version''" "js ''Chunk'' \<noteq> js ''Version''" "js ''Chunk'' \<noteq> js ''Bundle-Id''"
    "js ''Digest-Algo'' \<noteq> js ''Version''" "js ''Digest-Algo'' \<noteq> js ''Bundle-Id''" "js ''Digest-Algo'' \<noteq> js ''Chunk''"
    by (simp_all add: js_def)
  have v: "parseInt10 (js ''1'') = Whole 1"
    by (simp add: js_def parseInt10_def trimStart_def isJsSpace_def isDigit_def ofDigits_def digitVal_def
        numberOf_exact Let_def)
  let ?e = "enc (sealedBytes c)" and ?crc = "enc (crc24ToBytes (crc24 (sealedBytes c)))"
  have r: "readBody (wrap64 ?e @ [js ''='' @ ?crc]) [] = (?e, Some ?crc)"
    using readBody_lines [of "wrap64 ?e" ?crc "[]"] b by (fastforce simp: b(3))
  have "parseHeaders (blockBody enc ident algo c) noHeaders = Inr (\<lparr>hVersion = Some 1, hBundleId = Some ident,
      hChunk = Some (chunkIndex c, totalChunks c), hDigestAlgo = Some algo\<rparr>, wrap64 ?e @ [js ''='' @ ?crc])"
    unfolding blockBody_def header_line [OF k(1) one_solid] header_line [OF k(2) hexStr_solid [OF assms(3)]]
      header_line [OF k(3) chunk_value_solid(1)] header_line [OF k(4) a(1)]
    by (simp add: parseHeader_def noHeaders_def v hexDecode_str assms(3) chunk_header [OF assms(2)] ne trimEnd_def
        header_line [OF k(2) hexStr_solid [OF assms(3)]]
        header_line [OF k(3) chunk_value_solid(1)] header_line [OF k(4) a(1)] del: append_assoc)
  then show ?thesis
    by (simp add: parseBlock_def SUPPORTED_VERSION_def a(2) r decode64_def b(1) crc_bytes crc_expected Let_def)
qed

subsection \<open>Reading the text back\<close>

definition lineOk :: "jsstr \<Rightarrow> bool" where
  "lineOk l \<longleftrightarrow> 10 \<notin> set l \<and> (l = [] \<or> solid l)"

lemma lineOk_strip: "lineOk l \<Longrightarrow> stripCr l = l"
  by (auto simp: lineOk_def stripCr_def endsWith_iff solid_def isJsSpace_def)

lemma lineOk_trim: "lineOk l \<Longrightarrow> trim l = l"
  unfolding lineOk_def using trim_solid by (cases "l = []") (auto simp: trim_def trimStart_def trimEnd_def)

lemma splitLines_join:
  assumes "ls \<noteq> []" and "\<forall>l \<in> set ls. lineOk l"
  shows "splitLines (joinWith [10] ls) = ls"
proof -
  have "splitOn 10 (joinWith [10] ls) = ls" using assms by (intro splitOn_join) (auto simp: lineOk_def)
  moreover have "map stripCr (butlast ls) = butlast ls"
    using assms(2) by (intro map_idI lineOk_strip) (meson in_set_butlastD)
  ultimately show ?thesis using assms(1) by (simp add: splitLines_def Let_def)
qed

lemma frame_lines: "lineOk BEGIN" "lineOk END" "BEGIN \<noteq> END" "trim BEGIN = BEGIN" "trim END = END"
proof -
  show "lineOk BEGIN" "lineOk END"
    by (simp_all add: lineOk_def solid_def BEGIN_def END_def js_def isJsSpace_def)
  then show "trim BEGIN = BEGIN" "trim END = END" by (simp_all add: lineOk_trim)
  show "BEGIN \<noteq> END" by (simp add: BEGIN_def END_def js_def)
qed

lemma headed_line:
  assumes "solid v" and "10 \<notin> set v" and "key \<in> set KNOWN_HEADERS"
  shows "lineOk (key @ js '': '' @ v) \<and> key @ js '': '' @ v \<noteq> END"
proof -
  have "key \<noteq> []" "hd key \<noteq> 45" "\<not> isJsSpace (hd key)" "10 \<notin> set key"
    using assms(3) by (auto simp: KNOWN_HEADERS_def js_def isJsSpace_def)
  moreover have "hd END = 45" by (simp add: END_def js_def)
  ultimately show ?thesis using assms(1,2)
    by (auto simp: lineOk_def solid_def js_def [of "'': ''"] dest: arg_cong [where f = hd])
qed

lemma body_lines:
  assumes "base64Ok enc b64" and "encodable algo c" and "length ident = 16" and "l \<in> set (blockBody enc ident algo c)"
  shows "lineOk l \<and> l \<noteq> END"
proof -
  note b = base64_facts [OF assms(1)]
  have enc10: "10 \<notin> set (enc x)" for x using b(2) [of 10 x] by (auto simp: isJsSpace_def)
  have e: "hd END = 45" "END \<noteq> []" by (simp_all add: END_def js_def)
  have h: "10 \<notin> set (hexStr ident)" "10 \<notin> set (js ''1'')" using hexStr_units by (auto simp: js_def)
  have a: "solid algo" "10 \<notin> set algo" using assms(2) by (simp_all add: encodable_def)
  have k: "js ''Version'' \<in> set KNOWN_HEADERS" "js ''Bundle-Id'' \<in> set KNOWN_HEADERS"
    "js ''Chunk'' \<in> set KNOWN_HEADERS" "js ''Digest-Algo'' \<in> set KNOWN_HEADERS"
    by (simp_all add: KNOWN_HEADERS_def)
  note hs = headed_line [OF one_solid h(2) k(1)] headed_line [OF hexStr_solid [OF assms(3)] h(1) k(2)]
    headed_line [OF chunk_value_solid k(3)] headed_line [OF a k(4)]
  let ?eq = "js ''='' @ enc (crc24ToBytes (crc24 (sealedBytes c)))"
  have eq: "lineOk ?eq \<and> ?eq \<noteq> END"
  proof -
    have "\<not> isJsSpace u" if "u \<in> set ?eq" for u using that b(2) by (auto simp: js_def isJsSpace_def)
    then have "solid ?eq" by (intro solid_plain) (simp_all add: js_def)
    then show ?thesis using enc10 e by (auto simp: lineOk_def js_def dest: arg_cong [where f = hd])
  qed
  have wrapped: "lineOk l \<and> l \<noteq> END" if "l \<in> set (wrap64 (enc (sealedBytes c)))" for l
  proof -
    from b(4) [OF that] have l: "l \<noteq> []" "set l \<subseteq> set (enc (sealedBytes c))" by simp_all
    then have "\<not> isJsSpace u \<and> u \<noteq> 45" if "u \<in> set l" for u using that b(2) by blast
    moreover from this have "solid l" using l(1) by (intro solid_plain) auto
    moreover have "10 \<notin> set l" using l(2) enc10 by blast
    moreover have "hd l \<noteq> 45" using calculation(1) hd_in_set [OF l(1)] by blast
    ultimately show ?thesis using e by (auto simp: lineOk_def)
  qed
  have empty: "lineOk [] \<and> [] \<noteq> END" using e(2) by (simp add: lineOk_def)
  have "\<forall>l \<in> set (blockBody enc ident algo c). lineOk l \<and> l \<noteq> END"
    unfolding blockBody_def by (simp only: set_append list.set ball_simps ball_Un hs eq empty simp_thms)
      (use wrapped in blast)
  with assms(4) show ?thesis by blast
qed

lemma armorLoop_block:
  assumes "base64Ok enc b64" and "encodable algo c" and "length ident = 16"
  shows "armorLoop b64 (armorBlock enc ident algo c @ rest) bs =
    bindE (addBlock \<lparr>blockBundleId = ident, blockDigestAlgo = algo, blockChunk = c\<rparr> bs) (armorLoop b64 rest)"
proof -
  let ?P = "\<lambda>x. trim x \<noteq> END"
  have all: "\<forall>x \<in> set (blockBody enc ident algo c). ?P x" using body_lines [OF assms] lineOk_trim by metis
  have "takeWhile ?P (blockBody enc ident algo c @ END # rest) = blockBody enc ident algo c"
    "dropWhile ?P (blockBody enc ident algo c @ END # rest) = END # rest"
    using all by (simp_all add: takeWhile_append dropWhile_append3 frame_lines)
  then show ?thesis
    by (simp add: armorBlock_def frame_lines parseBlock_body [OF assms])
qed

lemma armorLoop_chunks:
  assumes "base64Ok enc b64" and "list_all (encodable algo) cs" and "length ident = 16"
  shows "armorLoop b64 (concat (map (armorBlock enc ident algo) cs))
      [\<lparr>bundleId = ident, digestAlgo = algo, chunks = ds\<rparr>] =
    Inr [\<lparr>bundleId = ident, digestAlgo = algo, chunks = ds @ cs\<rparr>]"
  using assms(2)
proof (induction cs arbitrary: ds)
  case (Cons c cs)
  then show ?case by (simp add: armorLoop_block [OF assms(1) _ assms(3)])
qed simp

lemma armor_reads_back:
  assumes "base64Ok enc b64" and "length (bundleId b) = 16" and "chunks b \<noteq> []"
    and "list_all (encodable (digestAlgo b)) (chunks b)" and "length (armorText enc b) \<le> MAX_ARMOR_INPUT_CHARS"
  shows "decodeArmor b64 (armorText enc b) = Inr [b]"
proof -
  let ?ls = "concat (map (armorBlock enc (bundleId b) (digestAlgo b)) (chunks b))"
  obtain c cs where cs: "chunks b = c # cs" using assms(3) by (cases "chunks b") auto
  have "lineOk l" if "d \<in> set (chunks b)" "l \<in> set (armorBlock enc (bundleId b) (digestAlgo b) d)" for l d
  proof -
    have "encodable (digestAlgo b) d" using that(1) assms(4) by (simp add: list_all_iff)
    from body_lines [OF assms(1) this assms(2)] that(2) frame_lines show ?thesis by (auto simp: armorBlock_def)
  qed
  then have "\<forall>l \<in> set ?ls. lineOk l" by auto
  moreover have "?ls \<noteq> []" by (simp add: cs armorBlock_def)
  ultimately have s: "splitLines (armorText enc b) = ?ls" unfolding armorText_def by (intro splitLines_join)
  from assms(4) have e: "encodable (digestAlgo b) c" "list_all (encodable (digestAlgo b)) cs" by (simp_all add: cs)
  have "armorLoop b64 ?ls [] = Inr [\<lparr>bundleId = bundleId b, digestAlgo = digestAlgo b, chunks = [c] @ cs\<rparr>]"
    using armorLoop_chunks [OF assms(1) e(2) assms(2)]
    by (simp add: cs armorLoop_block [OF assms(1) e(1) assms(2)])
  then show ?thesis using s assms(5) cs by (simp add: decodeArmor_def not_less)
qed

subsection \<open>Associated data\<close>

text \<open>Headers within the widths of the fields.\<close>

definition aadFits :: "int \<Rightarrow> int \<Rightarrow> int \<Rightarrow> jsstr \<Rightarrow> bool" where
  "aadFits v x n a \<longleftrightarrow> 0 \<le> v \<and> v < 256 \<and> 0 \<le> x \<and> x < 65536 \<and> 0 \<le> n \<and> n < 65536 \<and>
     length (textEncode a) \<le> 255 \<and> plainText a"

lemma byte_inj:
  assumes "0 \<le> v" "v < 256" "0 \<le> w" "w < 256" "(word_of_int v :: byte) = word_of_int w"
  shows "v = w"
proof -
  have "uint (word_of_int v :: byte) = uint (word_of_int w :: byte)" using assms(5) by simp
  with assms(1-4) show ?thesis by (simp add: uint_word_of_int)
qed

lemma two_bytes:
  assumes "0 \<le> x" "x < 65536" "0 \<le> y" "y < 65536"
    and "(word_of_int (drop_bit 8 x AND 0xff) :: byte) = word_of_int (drop_bit 8 y AND 0xff)"
    and "(word_of_int (x AND 0xff) :: byte) = word_of_int (y AND 0xff)"
  shows "x = (y :: int)"
proof -
  have m: "(z :: int) AND 0xff = z mod 256" for z
    using take_bit_eq_mask [of 8 z] by (simp add: take_bit_eq_mod mask_eq_exp_minus_1)
  have d: "drop_bit 8 x = x div 256" "drop_bit 8 y = y div 256" by (simp_all add: drop_bit_eq_div)
  have "x div 256 mod 256 = y div 256 mod 256"
    by (rule byte_inj) (use assms(5) in \<open>simp_all add: m d\<close>)
  moreover have "x mod 256 = y mod 256" by (rule byte_inj) (use assms(6) in \<open>simp_all add: m\<close>)
  moreover have "x div 256 < 256" "y div 256 < 256" using assms by simp_all
  ultimately have "x div 256 = y div 256" "x mod 256 = y mod 256" using assms by simp_all
  then show ?thesis by (metis div_mult_mod_eq)
qed

lemma aad_unique:
  assumes "buildChunkAad v i x n a = Inr d" and "buildChunkAad v' i' x' n' a' = Inr d"
    and "aadFits v x n a" and "aadFits v' x' n' a'"
  shows "v = v' \<and> i = i' \<and> x = x' \<and> n = n' \<and> a = a'"
proof -
  have l: "length i = 16" "length i' = 16" using assms(1,2) by (auto simp: buildChunkAad_def split: if_splits)
  have short: "take (min (length b) 255) b = b" if "length b \<le> 255" for b :: bytes using that by simp
  from assms l have e: "word_of_int v # i @ [word_of_int (drop_bit 8 x AND 0xff), word_of_int (x AND 0xff),
      word_of_int (drop_bit 8 n AND 0xff), word_of_int (n AND 0xff), word_of_nat (min (length (textEncode a)) 255)] @ textEncode a =
    word_of_int v' # i' @ [word_of_int (drop_bit 8 x' AND 0xff), word_of_int (x' AND 0xff),
      word_of_int (drop_bit 8 n' AND 0xff), word_of_int (n' AND 0xff), word_of_nat (min (length (textEncode a')) 255)] @ textEncode (a' :: jsstr)"
    by (simp only: buildChunkAad_def throwIf.simps Let_def aadFits_def short if_False simp_thms sum.inject)
  then have r: "i = i'" and "(word_of_int v :: byte) = word_of_int v'"
    "(word_of_int (drop_bit 8 x AND 0xff) :: byte) = word_of_int (drop_bit 8 x' AND 0xff)"
    "(word_of_int (x AND 0xff) :: byte) = word_of_int (x' AND 0xff)"
    "(word_of_int (drop_bit 8 n AND 0xff) :: byte) = word_of_int (drop_bit 8 n' AND 0xff)"
    "(word_of_int (n AND 0xff) :: byte) = word_of_int (n' AND 0xff)" and t: "textEncode a = textEncode a'"
    using l by (simp_all only: list.inject append_eq_append_conv append.simps simp_thms)
  then have "v = v'" "x = x'" "n = n'" using assms(3,4) byte_inj two_bytes unfolding aadFits_def by blast+
  moreover have "a = a'" using t assms(3,4) textDecode_textEncode_iff unfolding aadFits_def by (metis option.inject)
  ultimately show ?thesis using r by simp
qed

subsection \<open>A sample\<close>

definition unhex :: "jsstr \<Rightarrow> bytes option" where
  "unhex s = (case hexDecode s of Inr b \<Rightarrow> Some b | Inl _ \<Rightarrow> None)"

lemma hex_base64Ok: "base64Ok hexStr unhex"
proof -
  have "hexStr x \<noteq> []" if "x \<noteq> []" for x using that length_hexStr [of x] by (cases x) auto
  moreover have "hexStr x ! i \<noteq> 61" if "i < length (hexStr x)" for x i
    using hexStr_units [OF nth_mem [OF that]] by simp
  ultimately show ?thesis using hexStr_units by (auto simp: base64Ok_def unhex_def hexDecode_str)
qed

lemma length_joinWith: "length (joinWith [c] ls) \<le> sum_list (map length ls) + length ls"
  by (induction ls rule: induct_list012) auto

definition sampleArmored :: sealedBundle where
  "sampleArmored = \<lparr>bundleId = replicate 16 0, digestAlgo = js ''sha256'',
     chunks = [\<lparr>chunkIndex = 1, totalChunks = 2, sealedBytes = []\<rparr>, \<lparr>chunkIndex = 0, totalChunks = 2, sealedBytes = []\<rparr>]\<rparr>"

lemma sha256_solid: "solid (js ''sha256'')" "10 \<notin> set (js ''sha256'')"
  by (simp_all add: solid_def js_def isJsSpace_def)

lemma short_block:
  assumes "sealedBytes c = []" "0 \<le> chunkIndex c" "chunkIndex c < 9" "0 \<le> totalChunks c" "totalChunks c < 10"
  shows "sum_list (map length (armorBlock hexStr (replicate 16 0) (js ''sha256'') c)) \<le> 300"
    "length (armorBlock hexStr (replicate 16 0) (js ''sha256'') c) \<le> 10"
proof -
  have "length (js (natString (nat (chunkIndex c + 1)))) = 1" "length (js (natString (nat (totalChunks c)))) = 1"
    using assms by (simp_all add: natString_digit js_def)
  then show "sum_list (map length (armorBlock hexStr (replicate 16 0) (js ''sha256'') c)) \<le> 300"
    "length (armorBlock hexStr (replicate 16 0) (js ''sha256'') c) \<le> 10"
    using assms(1) by (simp_all add: armorBlock_def blockBody_def length_hexStr crc_bytes wrap64.simps hexStr_def [of "[]"]
        BEGIN_def END_def js_def)
qed

lemma short_text:
  assumes "bundleId b = replicate 16 0" "digestAlgo b = js ''sha256''" "length (chunks b) \<le> 2"
    and "\<forall>c \<in> set (chunks b). sealedBytes c = [] \<and> 0 \<le> chunkIndex c \<and> chunkIndex c < 9 \<and>
       0 \<le> totalChunks c \<and> totalChunks c < 10"
  shows "length (armorText hexStr b) \<le> MAX_ARMOR_INPUT_CHARS"
proof -
  let ?f = "armorBlock hexStr (replicate 16 0) (js ''sha256'')"
  have "sum_list (map length (concat (map ?f cs))) + length (concat (map ?f cs)) \<le> 310 * length cs"
    if "set cs \<subseteq> set (chunks b)" for cs
    using that
  proof (induction cs)
    case (Cons c cs)
    then have "sealedBytes c = []" "0 \<le> chunkIndex c" "chunkIndex c < 9" "0 \<le> totalChunks c" "totalChunks c < 10"
      using assms(4) by auto
    from short_block [OF this] Cons show ?case by simp
  qed simp
  from this [of "chunks b"] assms(1-3) length_joinWith [of 10 "concat (map ?f (chunks b))"]
  show ?thesis by (simp add: armorText_def MAX_ARMOR_INPUT_CHARS_def)
qed

lemma sampleArmored_read: "decodeArmor unhex (armorText hexStr sampleArmored) = Inr [sampleArmored]"
  by (rule armor_reads_back [OF hex_base64Ok])
     (auto intro!: short_text simp: sampleArmored_def encodable_def sha256_solid)

subsection \<open>Properties\<close>

text \<open>What \<open>decodeArmor\<close> returns is a non-empty list of bundles with distinct ids of 16 bytes, each
  with a digest algorithm and at least one chunk, and every chunk's bytes are what base64 decoding gave
  and have the checksum their block states, so nothing that fails the CRC reaches decryption.\<close>

theorem decoded_bundles:
  assumes "decodeArmor b64 input = Inr bs"
  shows "bs \<noteq> [] \<and> distinct (map bundleId bs) \<and> list_all (bundleOk b64) bs \<and>
    length input \<le> MAX_ARMOR_INPUT_CHARS"
  using assms by (rule decodeArmor_ok)

theorem decoded_bundles_witness:
  "list_all (bundleOk unhex) [sampleArmored] \<and> length (armorText hexStr sampleArmored) \<le> MAX_ARMOR_INPUT_CHARS"
  using decoded_bundles [OF sampleArmored_read] by simp

text \<open>The associated data of a chunk determines its header: two headers within the widths of the
  fields that give the same bytes are equal, so what was sealed under one header opens under no other.\<close>

theorem aad_unambiguous:
  assumes "buildChunkAad v i x n a = Inr d" and "buildChunkAad v' i' x' n' a' = Inr d"
    and "aadFits v x n a" and "aadFits v' x' n' a'"
  shows "v = v' \<and> i = i' \<and> x = x' \<and> n = n' \<and> a = a'"
  using assms by (rule aad_unique)

theorem aad_unambiguous_witness:
  "\<exists>d d'. buildChunkAad 1 (replicate 16 0) 0 2 (js ''sha256'') = Inr d \<and>
     buildChunkAad 1 (replicate 16 0) 1 2 (js ''sha256'') = Inr d' \<and> d \<noteq> d'"
proof -
  obtain d d' where d: "buildChunkAad 1 (replicate 16 0) 0 2 (js ''sha256'') = Inr d"
      "buildChunkAad 1 (replicate 16 0) 1 2 (js ''sha256'') = Inr d'"
    by (simp add: buildChunkAad_def Let_def)
  have "plainText (js ''sha256'')" by (rule plainText_ascii) simp
  moreover have "length (textEncode (js ''sha256'')) \<le> 255" by (simp add: textEncode_ascii)
  ultimately have "aadFits 1 0 2 (js ''sha256'')" "aadFits 1 1 2 (js ''sha256'')" by (simp_all add: aadFits_def)
  from aad_unambiguous [OF d(1) _ this] d show ?thesis by (metis zero_neq_one)
qed

end
