(* ===== verification/Sealed_Bundle.thy ===== *)
theory Sealed_Bundle
  imports Armor_Text Hpke "HOL-Library.Multiset"
begin

text \<open>
  Opening a sealed bundle, \<open>packages/core/src/provision/open.ts\<close> and \<open>provision/hpke.ts\<close>: every chunk is
  decrypted with its armor header as associated data, its inner header is compared with the armor, and
  the fragments are put together in index order. CBOR decoding and the conversion of the Ed25519 seed
  belong to other packages and are the parameters \<open>cbor\<close> (\<open>None\<close> is its exception) and
  \<open>toMontgomerySecret\<close>; \<open>crypto\<close> and \<open>openBase\<close> are those of the theory on HPKE.
\<close>

subsection \<open>Decoded CBOR\<close>

text \<open>What the decoder returns, as far as the code tells values apart. \<open>CNumber\<close> is a number that is not an
  integer, \<open>COther\<close> any other primitive with the name \<open>typeof\<close> gives it, and
  \<open>CExotic\<close> an object that is neither an array, nor bytes, nor a record.\<close>

datatype cborVal =
    CUndefined | CNull | COther jsstr | CInt int | CNumber jsstr | CStr jsstr
  | CBytes bytes | CArr "cborVal list" | CObj "(jsstr \<times> cborVal) list" | CExotic

definition typeofC :: "cborVal \<Rightarrow> jsstr" where
  "typeofC v = (case v of
     CUndefined \<Rightarrow> js ''undefined'' | COther t \<Rightarrow> t | CInt _ \<Rightarrow> js ''number'' | CNumber _ \<Rightarrow> js ''number''
   | CStr _ \<Rightarrow> js ''string'' | _ \<Rightarrow> js ''object'')"

text \<open>\<open>v[k]\<close> for the field names of the code, none of which a value that is not a record has.\<close>

definition fieldOf :: "cborVal \<Rightarrow> jsstr \<Rightarrow> bundleError + cborVal" where
  "fieldOf v k = (case v of
     CUndefined \<Rightarrow> Inl TypeError | CNull \<Rightarrow> Inl TypeError
   | CObj fs \<Rightarrow> Inr (case map_of fs k of Some x \<Rightarrow> x | None \<Rightarrow> CUndefined)
   | _ \<Rightarrow> Inr CUndefined)"

text \<open>The own enumerable properties: \<open>Object.keys(v)\<close> with the values.\<close>

fun indexed :: "nat \<Rightarrow> cborVal list \<Rightarrow> (jsstr \<times> cborVal) list" where
  "indexed i [] = []"
| "indexed i (x # xs) = (js (natString i), x) # indexed (i + 1) xs"

definition entriesOf :: "cborVal \<Rightarrow> bundleError + (jsstr \<times> cborVal) list" where
  "entriesOf v = (case v of
     CUndefined \<Rightarrow> Inl TypeError | CNull \<Rightarrow> Inl TypeError
   | CObj fs \<Rightarrow> Inr fs | CArr xs \<Rightarrow> Inr (indexed 0 xs)
   | CBytes bs \<Rightarrow> Inr (indexed 0 (map (\<lambda>b. CInt (uint b)) bs))
   | CStr s \<Rightarrow> Inr (indexed 0 (map (\<lambda>u. CStr [u]) s))
   | _ \<Rightarrow> Inr [])"

fun byteElements :: "jsstr \<Rightarrow> nat \<Rightarrow> cborVal list \<Rightarrow> bundleError + bytes" where
  "byteElements lbl i [] = Inr []"
| "byteElements lbl i (v # vs) =
     (case v of
        CInt n \<Rightarrow> if n < 0 \<or> n > 255 then Inl (NotAByte lbl i)
                  else bindE (byteElements lbl (i + 1) vs) (\<lambda>out. Inr (word_of_int n # out))
      | _ \<Rightarrow> Inl (NotAByte lbl i))"

definition asBytes :: "cborVal \<Rightarrow> jsstr \<Rightarrow> bundleError + bytes" where
  "asBytes v lbl = (case v of
     CBytes b \<Rightarrow> Inr b
   | CArr vs \<Rightarrow> byteElements lbl 0 vs
   | _ \<Rightarrow> Inl (NotBytes lbl))"

subsection \<open>The layers of a chunk\<close>

record hpkeSealed =
  kem_encap :: bytes
  aead_ciphertext :: bytes

text \<open>A number of the decoded header: an integer or not one.\<close>

datatype headerNumber = Integral int | Fractional jsstr

record chunkPlaintext =
  ptVersion :: headerNumber
  bundle_id :: bytes
  chunk_index :: headerNumber
  total_chunks :: headerNumber
  producer_did :: "jsstr option"
  producer_assertion :: "cborVal option"
  payload_fragment :: bytes

definition CHUNK_VERSION :: int where "CHUNK_VERSION = 1"

definition HPKE_INFO :: bytes where "HPKE_INFO = textEncode (js ''vta-sealed-transfer/v1'')"

definition decodeCbor :: "(bytes \<Rightarrow> cborVal option) \<Rightarrow> bytes \<Rightarrow> bundleError + cborVal" where
  "decodeCbor cbor bs = orThrow (cbor bs) CborFailed"

definition decodeHpkeSealed :: "(bytes \<Rightarrow> cborVal option) \<Rightarrow> bytes \<Rightarrow> bundleError + hpkeSealed" where
  "decodeHpkeSealed cbor bs =
     bindE (decodeCbor cbor bs) (\<lambda>v.
     bindE (bindE (fieldOf v (js ''kem_encap'')) (\<lambda>f. asBytes f (js ''HpkeSealed.kem_encap''))) (\<lambda>kemEncap.
     bindE (bindE (fieldOf v (js ''aead_ciphertext'')) (\<lambda>f. asBytes f (js ''HpkeSealed.aead_ciphertext''))) (\<lambda>ct.
     if length kemEncap \<noteq> 32 then Inl (KemEncapLength (length kemEncap))
     else Inr \<lparr>kem_encap = kemEncap, aead_ciphertext = ct\<rparr>)))"

definition asNumber :: "cborVal \<Rightarrow> jsstr \<Rightarrow> bundleError + headerNumber" where
  "asNumber v lbl = (case v of
     CInt n \<Rightarrow> Inr (Integral n) | CNumber t \<Rightarrow> Inr (Fractional t) | _ \<Rightarrow> Inl (FieldMissing lbl))"

definition decodeChunkPlaintext :: "(bytes \<Rightarrow> cborVal option) \<Rightarrow> bytes \<Rightarrow> bundleError + chunkPlaintext" where
  "decodeChunkPlaintext cbor bs =
     bindE (decodeCbor cbor bs) (\<lambda>v.
     bindE (fieldOf v (js ''version'')) (\<lambda>version.
     bindE (fieldOf v (js ''chunk_index'')) (\<lambda>index.
     bindE (fieldOf v (js ''total_chunks'')) (\<lambda>count.
     bindE (asNumber version (js ''version'')) (\<lambda>version.
     bindE (asNumber index (js ''chunk_index'')) (\<lambda>index.
     bindE (asNumber count (js ''total_chunks'')) (\<lambda>count.
     bindE (bindE (fieldOf v (js ''bundle_id'')) (\<lambda>f. asBytes f (js ''ChunkPlaintext.bundle_id''))) (\<lambda>ident.
     throwIf (length ident \<noteq> 16) (InnerBundleIdLength (length ident))
     (bindE (bindE (fieldOf v (js ''payload_fragment'')) (\<lambda>f. asBytes f (js ''ChunkPlaintext.payload_fragment'')))
        (\<lambda>fragment.
      bindE (fieldOf v (js ''producer_did'')) (\<lambda>did.
      bindE (fieldOf v (js ''producer_assertion'')) (\<lambda>pa.
      Inr \<lparr>ptVersion = version, bundle_id = ident, chunk_index = index, total_chunks = count,
           producer_did = (case did of CStr d \<Rightarrow> Some d | _ \<Rightarrow> None),
           producer_assertion = (if pa = CUndefined then None else Some pa),
           payload_fragment = fragment\<rparr>))))))))))))"

definition hpkeOpen :: "crypto \<Rightarrow> bytes \<Rightarrow> bytes \<Rightarrow> bytes \<Rightarrow> bytes \<Rightarrow> bundleError + bytes" where
  "hpkeOpen C recipientSecret kemEncap ciphertext aad =
     throwIf (length recipientSecret \<noteq> 32) (SecretLength (length recipientSecret))
     (throwIf (length kemEncap \<noteq> 32) (EncapLength (length kemEncap))
     (case openBase C ciphertext aad kemEncap recipientSecret HPKE_INFO of
        Inl err \<Rightarrow> Inl (HpkeFailed (messageOf err))
      | Inr m \<Rightarrow> Inr m))"

subsection \<open>The bundle\<close>

datatype sealedPayload = AdminRotation cborVal | TemplateBootstrap cborVal | OtherPayload jsstr cborVal

record openedBundle =
  openedId :: bytes
  openedAlgo :: jsstr
  openedPayload :: sealedPayload

text \<open>\<open>!body || typeof body !== "object"\<close>; every value of type object is truthy except \<open>null\<close>.\<close>

definition isObjectC :: "cborVal \<Rightarrow> bool" where
  "isObjectC v \<longleftrightarrow> v \<noteq> CNull \<and> typeofC v = js ''object''"

definition parseSealedPayload :: "cborVal \<Rightarrow> bundleError + sealedPayload" where
  "parseSealedPayload raw =
     bindE (entriesOf raw) (\<lambda>es. case es of
       [(tag, body)] \<Rightarrow>
         if \<not> isObjectC body then Inl (PayloadNotObject tag)
         else if tag = js ''admin_rotation'' then Inr (AdminRotation body)
         else if tag = js ''template_bootstrap'' then Inr (TemplateBootstrap body)
         else Inr (OtherPayload tag body)
     | _ \<Rightarrow> Inl (PayloadKeyCount (length es)))"

text \<open>The body of the loop over the chunks.\<close>

definition openChunk ::
    "crypto \<Rightarrow> (bytes \<Rightarrow> cborVal option) \<Rightarrow> bytes \<Rightarrow> sealedBundle \<Rightarrow> armoredChunk \<Rightarrow> bundleError + chunkPlaintext" where
  "openChunk C cbor secret bundle chunk =
     bindE (decodeHpkeSealed cbor (sealedBytes chunk)) (\<lambda>s.
     bindE (buildChunkAad CHUNK_VERSION (bundleId bundle) (chunkIndex chunk) (totalChunks chunk) (digestAlgo bundle))
       (\<lambda>aad.
     bindE (hpkeOpen C secret (kem_encap s) (aead_ciphertext s) aad) (\<lambda>ptBytes.
     bindE (decodeChunkPlaintext cbor ptBytes) (\<lambda>pt.
     if bundle_id pt \<noteq> bundleId bundle \<or> chunk_index pt \<noteq> Integral (chunkIndex chunk) \<or>
        total_chunks pt \<noteq> Integral (totalChunks chunk) \<or> ptVersion pt \<noteq> Integral CHUNK_VERSION
     then Inl HeadersDisagree else Inr pt))))"

fun openChunks ::
    "crypto \<Rightarrow> (bytes \<Rightarrow> cborVal option) \<Rightarrow> bytes \<Rightarrow> sealedBundle \<Rightarrow> armoredChunk list \<Rightarrow> bundleError + chunkPlaintext list" where
  "openChunks C cbor secret bundle [] = Inr []"
| "openChunks C cbor secret bundle (c # cs) =
     bindE (openChunk C cbor secret bundle c) (\<lambda>pt.
     bindE (openChunks C cbor secret bundle cs) (\<lambda>pts. Inr (pt # pts)))"

text \<open>All indices are integers when the chunks are sorted and compared.\<close>

definition whole :: "headerNumber \<Rightarrow> int" where
  "whole n = (case n of Integral i \<Rightarrow> i | Fractional _ \<Rightarrow> 0)"

lemma whole_Integral [simp]: "whole (Integral i) = i"
  by (simp add: whole_def)

fun checkIndices :: "nat \<Rightarrow> chunkPlaintext list \<Rightarrow> bundleError + unit" where
  "checkIndices i [] = Inr ()"
| "checkIndices i (p # ps) =
     (if chunk_index p \<noteq> Integral (int i) then Inl (ChunkGap i) else checkIndices (i + 1) ps)"

definition openBundle ::
    "crypto \<Rightarrow> (bytes \<Rightarrow> cborVal option) \<Rightarrow> sealedBundle \<Rightarrow> bytes \<Rightarrow> bundleError + openedBundle" where
  "openBundle C cbor bundle secret =
     throwIf (length (chunks bundle) = 0) NoChunks
     (bindE (openChunks C cbor secret bundle (chunks bundle)) (\<lambda>unsorted.
      let plaintexts = sort_key (\<lambda>p. whole (chunk_index p)) unsorted;
          count = whole (total_chunks (hd plaintexts)) in
      throwIf (int (length plaintexts) \<noteq> count) (ChunkCount (length plaintexts) count)
      (bindE (checkIndices 0 plaintexts) (\<lambda>_.
       let payloadBytes = concat (map payload_fragment plaintexts) in
       bindE (decodeCbor cbor payloadBytes) (\<lambda>raw.
       bindE (parseSealedPayload raw) (\<lambda>payload.
       Inr \<lparr>openedId = bundleId bundle, openedAlgo = digestAlgo bundle, openedPayload = payload\<rparr>))))))"

definition openSealedBundle ::
    "crypto \<Rightarrow> (jsstr \<Rightarrow> bytes option) \<Rightarrow> (bytes \<Rightarrow> cborVal option) \<Rightarrow> (bytes \<Rightarrow> bytes) \<Rightarrow> jsstr \<Rightarrow> bytes
     \<Rightarrow> bundleError + openedBundle" where
  "openSealedBundle C b64 cbor toMontgomerySecret armored edSeed =
     throwIf (length edSeed \<noteq> 32) (SeedLength (length edSeed))
     (let x25519Secret = toMontgomerySecret edSeed in
      bindE (decodeArmor b64 armored) (\<lambda>bundles. openBundle C cbor (hd bundles) x25519Secret))"

definition openAdminRotationBundle ::
    "crypto \<Rightarrow> (jsstr \<Rightarrow> bytes option) \<Rightarrow> (bytes \<Rightarrow> cborVal option) \<Rightarrow> (bytes \<Rightarrow> bytes) \<Rightarrow> jsstr \<Rightarrow> bytes
     \<Rightarrow> bundleError + (bytes \<times> cborVal)" where
  "openAdminRotationBundle C b64 cbor toMontgomerySecret armored edSeed =
     bindE (openSealedBundle C b64 cbor toMontgomerySecret armored edSeed) (\<lambda>opened.
     case openedPayload opened of
       AdminRotation body \<Rightarrow> Inr (openedId opened, body)
     | TemplateBootstrap body \<Rightarrow> Inl (WrongVariant (js ''template_bootstrap''))
     | OtherPayload tag body \<Rightarrow> Inl (WrongVariant tag))"

subsection \<open>Chunks and their order\<close>

lemma openChunks_iff:
  "openChunks C cbor k b cs = Inr ps \<longleftrightarrow> list_all2 (\<lambda>c p. openChunk C cbor k b c = Inr p) cs ps"
proof (induction cs arbitrary: ps)
  case (Cons c cs)
  then show ?case by (cases ps) (auto simp: bindE_Inr)
qed auto

lemma checkIndices_iff:
  "checkIndices i ps = Inr () \<longleftrightarrow> (\<forall>j < length ps. chunk_index (ps ! j) = Integral (int (i + j)))"
proof (induction i ps rule: checkIndices.induct)
  case (2 i p ps)
  then show ?case by (auto simp: less_Suc_eq_0_disj)
qed simp

lemma openChunk_header:
  "openChunk C cbor k b c = Inr p \<Longrightarrow> bundle_id p = bundleId b \<and> ptVersion p = Integral CHUNK_VERSION \<and>
    chunk_index p = Integral (chunkIndex c) \<and> total_chunks p = Integral (totalChunks c)"
  by (auto simp: openChunk_def bindE_Inr split: if_splits)

text \<open>Chunks whose indices are \<open>0, \<dots>, n - 1\<close> in some order, each with its opened plaintext.\<close>

definition opensTo ::
    "crypto \<Rightarrow> (bytes \<Rightarrow> cborVal option) \<Rightarrow> bytes \<Rightarrow> sealedBundle \<Rightarrow> chunkPlaintext list \<Rightarrow> bool" where
  "opensTo C cbor k b ps \<longleftrightarrow> length ps = length (chunks b) \<and>
     (\<forall>i < length ps. \<exists>c \<in> set (chunks b). chunkIndex c = int i \<and> openChunk C cbor k b c = Inr (ps ! i))"

lemma opensTo_indices:
  assumes "opensTo C cbor k b ps"
  shows "mset (map (nat \<circ> chunkIndex) (chunks b)) = mset [0..<length ps]"
    and "c \<in> set (chunks b) \<Longrightarrow> \<exists>i < length ps. chunkIndex c = int i \<and> openChunk C cbor k b c = Inr (ps ! i)"
proof -
  let ?n = "length ps" and ?L = "map (nat \<circ> chunkIndex) (chunks b)"
  have l: "length ?L = ?n" using assms by (simp add: opensTo_def)
  have sub: "{0..<?n} \<subseteq> set ?L" using assms by (force simp: opensTo_def)
  have "card (set ?L) \<le> ?n" using card_length [of ?L] l by simp
  with sub have eq: "set ?L = {0..<?n}" using card_seteq [of "set ?L" "{0..<?n}"] by simp
  then have d: "distinct ?L" using l by (intro card_distinct) simp
  show "mset ?L = mset [0..<?n]"
    by (rule iffD1 [OF set_eq_iff_mset_eq_distinct [OF d distinct_upt]]) (simp only: set_upt eq)
  assume c: "c \<in> set (chunks b)"
  then have "nat (chunkIndex c) \<in> set ?L" by simp
  then have i: "nat (chunkIndex c) < ?n" unfolding eq by simp
  then obtain c' where c': "c' \<in> set (chunks b)" "chunkIndex c' = int (nat (chunkIndex c))"
      "openChunk C cbor k b c' = Inr (ps ! nat (chunkIndex c))"
    using assms unfolding opensTo_def by blast
  have "inj_on (nat \<circ> chunkIndex) (set (chunks b))" using d by (simp add: distinct_map)
  moreover have "(nat \<circ> chunkIndex) c' = (nat \<circ> chunkIndex) c" using c'(2) by simp
  ultimately have "c' = c" by (rule inj_onD [OF _ _ c'(1) c])
  with c' i show "\<exists>i < ?n. chunkIndex c = int i \<and> openChunk C cbor k b c = Inr (ps ! i)" by auto
qed

lemma opensTo_sorted:
  assumes "opensTo C cbor k b ps"
  shows "\<exists>us. openChunks C cbor k b (chunks b) = Inr us \<and> sort_key (\<lambda>p. whole (chunk_index p)) us = ps"
proof -
  let ?us = "map ((!) ps) (map (nat \<circ> chunkIndex) (chunks b))" and ?key = "\<lambda>p. whole (chunk_index p)"
  have "list_all2 (\<lambda>c p. openChunk C cbor k b c = Inr p) (chunks b) ?us"
    using opensTo_indices(2) [OF assms] by (fastforce simp: list_all2_map2 list_all2_same)
  then have o: "openChunks C cbor k b (chunks b) = Inr ?us" by (simp only: openChunks_iff)
  have "mset ?us = image_mset ((!) ps) (mset [0..<length ps])"
    unfolding mset_map opensTo_indices(1) [OF assms, unfolded mset_map] ..
  also have "\<dots> = mset ps" using mset_map [of "(!) ps" "[0..<length ps]"] by (simp add: map_nth)
  finally have m: "mset ?us = mset ps" .
  have idx: "?key (ps ! i) = int i" if "i < length ps" for i
  proof -
    from that assms obtain c where "chunkIndex c = int i" "openChunk C cbor k b c = Inr (ps ! i)"
      unfolding opensTo_def by blast
    from openChunk_header [OF this(2)] this(1) show ?thesis by (simp add: whole_def)
  qed
  then have keys: "map ?key ps = map int [0..<length ps]" by (intro nth_equalityI) simp_all
  have s: "sorted (map ?key ps)" unfolding keys by (simp add: sorted_iff_nth_mono)
  have "distinct (map ?key ps)" unfolding keys by (simp add: distinct_map)
  then have "inj_on ?key (set ps)" by (simp add: distinct_map)
  moreover have "set ?us = set ps" using m by (rule mset_eq_setD)
  ultimately have "sort_key ?key ?us = ps" using m s by (intro sort_key_inj_key_eq) simp_all
  with o show ?thesis by blast
qed

lemma openBundle_iff:
  "openBundle C cbor b k = Inr out \<longleftrightarrow>
    (\<exists>ps raw payload. ps \<noteq> [] \<and> opensTo C cbor k b ps \<and> total_chunks (hd ps) = Integral (int (length ps)) \<and>
       cbor (concat (map payload_fragment ps)) = Some raw \<and> parseSealedPayload raw = Inr payload \<and>
       out = \<lparr>openedId = bundleId b, openedAlgo = digestAlgo b, openedPayload = payload\<rparr>)" (is "?L = ?R")
proof
  assume ?L
  then obtain us where ne: "chunks b \<noteq> []" and us: "openChunks C cbor k b (chunks b) = Inr us"
    by (auto simp: openBundle_def bindE_Inr split: if_splits)
  define ps where "ps = sort_key (\<lambda>p. whole (chunk_index p)) us"
  from \<open>?L\<close> ne us obtain raw payload where
      n: "int (length ps) = whole (total_chunks (hd ps))" and i: "checkIndices 0 ps = Inr ()"
      and r: "cbor (concat (map payload_fragment ps)) = Some raw" and p: "parseSealedPayload raw = Inr payload"
      and out: "out = \<lparr>openedId = bundleId b, openedAlgo = digestAlgo b, openedPayload = payload\<rparr>"
    by (auto simp: openBundle_def bindE_Inr Let_def decodeCbor_def ps_def [symmetric] simp del: length_sort split: if_splits)
  from us have a: "list_all2 (\<lambda>c p. openChunk C cbor k b c = Inr p) (chunks b) us" by (simp add: openChunks_iff)
  have l: "length ps = length (chunks b)" using list_all2_lengthD [OF a] by (simp add: ps_def)
  have from_chunk: "\<exists>c \<in> set (chunks b). openChunk C cbor k b c = Inr q" if "q \<in> set ps" for q
  proof -
    from that obtain j where j: "j < length us" "q = us ! j" by (auto simp: ps_def in_set_conv_nth)
    with a have "j < length (chunks b)" "openChunk C cbor k b (chunks b ! j) = Inr q"
      by (simp_all add: list_all2_conv_all_nth)
    then show ?thesis using nth_mem by blast
  qed
  have "opensTo C cbor k b ps"
    unfolding opensTo_def
  proof (intro conjI l allI impI)
    fix j assume j: "j < length ps"
    with from_chunk obtain c where "c \<in> set (chunks b)" "openChunk C cbor k b c = Inr (ps ! j)"
      using nth_mem by blast
    with openChunk_header i j
    show "\<exists>c \<in> set (chunks b). chunkIndex c = int j \<and> openChunk C cbor k b c = Inr (ps ! j)"
      by (fastforce simp: checkIndices_iff)
  qed
  moreover have "ps \<noteq> []" using ne l by auto
  moreover from this from_chunk [of "hd ps"] have "total_chunks (hd ps) = Integral (int (length ps))"
    using n openChunk_header by (fastforce simp: whole_def)
  ultimately show ?R using r p out by blast
next
  assume ?R
  then obtain ps raw payload where ps: "ps \<noteq> []" "opensTo C cbor k b ps"
      "total_chunks (hd ps) = Integral (int (length ps))" and r: "cbor (concat (map payload_fragment ps)) = Some raw"
      and p: "parseSealedPayload raw = Inr payload"
      and out: "out = \<lparr>openedId = bundleId b, openedAlgo = digestAlgo b, openedPayload = payload\<rparr>" by blast
  from opensTo_sorted [OF ps(2)] obtain us where us: "openChunks C cbor k b (chunks b) = Inr us"
      and s: "sort_key (\<lambda>p. whole (chunk_index p)) us = ps" by blast
  have "chunks b \<noteq> []" using ps by (auto simp: opensTo_def)
  moreover have "checkIndices 0 ps = Inr ()"
    unfolding checkIndices_iff using ps(2) openChunk_header by (fastforce simp: opensTo_def)
  ultimately show ?L using us s ps(3) r p out
    by (simp add: openBundle_def decodeCbor_def Let_def) (metis length_sort)
qed

subsection \<open>Sealing\<close>

text \<open>A byte field as the sender may encode it: a byte string or an array of integers.\<close>

definition bytesVal :: "cborVal \<Rightarrow> bytes \<Rightarrow> bool" where
  "bytesVal v b \<longleftrightarrow> v = CBytes b \<or> v = CArr (map (\<lambda>x. CInt (uint x)) b)"

lemma byteElements_ints: "byteElements lbl i (map (\<lambda>x. CInt (uint x)) b) = Inr b"
proof (induction b arbitrary: i)
  case (Cons x b)
  have "uint x \<le> 255" using uint_lt2p [of x] by simp
  with Cons show ?case by simp
qed simp

lemma asBytes_val: "bytesVal v b \<Longrightarrow> asBytes v lbl = Inr b"
  by (auto simp: bytesVal_def asBytes_def byteElements_ints)

text \<open>A chunk of \<open>n\<close> that was sealed to the public key of \<open>k\<close> with the bundle's header.\<close>

definition sealsChunk ::
    "crypto \<Rightarrow> (bytes \<Rightarrow> cborVal option) \<Rightarrow> bytes \<Rightarrow> sealedBundle \<Rightarrow> nat \<Rightarrow> bytes \<Rightarrow> armoredChunk \<Rightarrow> bool" where
  "sealsChunk C cbor k b n frag c \<longleftrightarrow> totalChunks c = int n \<and>
     (\<exists>e aad m r kem ct ident fragment.
        length e = 32 \<and>
        buildChunkAad 1 (bundleId b) (chunkIndex c) (totalChunks c) (digestAlgo b) = Inr aad \<and>
        sealBase C e m aad (getPublicKey C k) HPKE_INFO = Inr r \<and>
        bytesVal kem (sealEnc r) \<and> bytesVal ct (sealCiphertext r) \<and> bytesVal ident (bundleId b) \<and>
        bytesVal fragment frag \<and>
        cbor (sealedBytes c) = Some (CObj [(js ''kem_encap'', kem), (js ''aead_ciphertext'', ct)]) \<and>
        cbor m = Some (CObj [(js ''version'', CInt 1), (js ''bundle_id'', ident),
          (js ''chunk_index'', CInt (chunkIndex c)), (js ''total_chunks'', CInt (totalChunks c)),
          (js ''payload_fragment'', fragment)]))"

lemma sealed_chunk_opens:
  assumes ok: "cryptoOk C" "length k = 32" "length (bundleId b) = 16" and s: "sealsChunk C cbor k b n frag c"
  shows "\<exists>pt. openChunk C cbor k b c = Inr pt \<and> payload_fragment pt = frag"
proof -
  from s obtain e aad m r kem ct ident fragment where
      e: "length e = 32" and aad: "buildChunkAad 1 (bundleId b) (chunkIndex c) (totalChunks c) (digestAlgo b) = Inr aad"
      and r: "sealBase C e m aad (getPublicKey C k) HPKE_INFO = Inr r"
      and v: "bytesVal kem (sealEnc r)" "bytesVal ct (sealCiphertext r)" "bytesVal ident (bundleId b)" "bytesVal fragment frag"
      and c1: "cbor (sealedBytes c) = Some (CObj [(js ''kem_encap'', kem), (js ''aead_ciphertext'', ct)])"
      and c2: "cbor m = Some (CObj [(js ''version'', CInt 1), (js ''bundle_id'', ident),
          (js ''chunk_index'', CInt (chunkIndex c)), (js ''total_chunks'', CInt (totalChunks c)),
          (js ''payload_fragment'', fragment)])"
    unfolding sealsChunk_def by blast
  note vb = v [THEN asBytes_val]
  note op = openBase_sealBase [OF ok(1) e ok(2) r]
  have "decodeHpkeSealed cbor (sealedBytes c) = Inr \<lparr>kem_encap = sealEnc r, aead_ciphertext = sealCiphertext r\<rparr>"
    using op(2) by (simp add: decodeHpkeSealed_def decodeCbor_def c1 fieldOf_def js_def vb)
  moreover have "hpkeOpen C k (sealEnc r) (sealCiphertext r) aad = Inr m"
    using op ok(2) by (simp add: hpkeOpen_def)
  moreover have "decodeChunkPlaintext cbor m = Inr \<lparr>ptVersion = Integral 1, bundle_id = bundleId b,
      chunk_index = Integral (chunkIndex c), total_chunks = Integral (totalChunks c), producer_did = None,
      producer_assertion = None, payload_fragment = frag\<rparr>"
    using ok(3) by (simp add: decodeChunkPlaintext_def decodeCbor_def c2 fieldOf_def js_def asNumber_def vb)
  ultimately show ?thesis using aad by (simp add: openChunk_def CHUNK_VERSION_def)
qed

lemma bundle_opens:
  assumes "cryptoOk C" and "length k = 32" and "length (bundleId b) = 16" and "frags \<noteq> []"
    and "mset (map chunkIndex (chunks b)) = mset (map int [0..<length frags])"
    and "\<forall>c \<in> set (chunks b). sealsChunk C cbor k b (length frags) (frags ! nat (chunkIndex c)) c"
    and "cbor (concat frags) = Some raw" and "parseSealedPayload raw = Inr payload"
  shows "openBundle C cbor b k = Inr \<lparr>openedId = bundleId b, openedAlgo = digestAlgo b, openedPayload = payload\<rparr>"
proof -
  let ?n = "length frags"
  have l: "length (chunks b) = ?n" using mset_eq_length [OF assms(5)] by simp
  have "\<exists>p. \<exists>c \<in> set (chunks b). chunkIndex c = int i \<and> openChunk C cbor k b c = Inr p \<and>
      payload_fragment p = frags ! i \<and> total_chunks p = Integral (int ?n)" if i: "i < ?n" for i
  proof -
    have "int i \<in> set (map chunkIndex (chunks b))" using mset_eq_setD [OF assms(5)] i by simp
    then obtain c where c: "c \<in> set (chunks b)" "chunkIndex c = int i" by auto
    with assms(6) have s: "sealsChunk C cbor k b ?n (frags ! i) c" by force
    from sealed_chunk_opens [OF assms(1-3) s] obtain p where
        p: "openChunk C cbor k b c = Inr p" "payload_fragment p = frags ! i" by blast
    with c openChunk_header [OF p(1)] s show ?thesis by (auto simp: sealsChunk_def)
  qed
  then obtain f where f: "\<And>i. i < ?n \<Longrightarrow> \<exists>c \<in> set (chunks b). chunkIndex c = int i \<and>
      openChunk C cbor k b c = Inr (f i) \<and> payload_fragment (f i) = frags ! i \<and> total_chunks (f i) = Integral (int ?n)"
    by metis
  let ?ps = "map f [0..<?n]"
  have "opensTo C cbor k b ?ps" using f l by (fastforce simp: opensTo_def)
  moreover have "map payload_fragment ?ps = frags"
  proof (rule nth_equalityI)
    fix i assume "i < length (map payload_fragment ?ps)"
    with f [of i] show "map payload_fragment ?ps ! i = frags ! i" by auto
  qed simp
  moreover have ps0: "?ps = f 0 # map f [1..<?n]" using assms(4) by (simp add: upt_conv_Cons)
  moreover have "?ps \<noteq> []" "total_chunks (hd ?ps) = Integral (int (length ?ps))"
    using f [of 0] assms(4) by (auto simp: ps0)
  ultimately have "?ps \<noteq> [] \<and> opensTo C cbor k b ?ps \<and> total_chunks (hd ?ps) = Integral (int (length ?ps)) \<and>
      cbor (concat (map payload_fragment ?ps)) = Some raw" using assms(7) by simp
  with assms(8) show ?thesis unfolding openBundle_iff by blast
qed

subsection \<open>A sample\<close>

lemma sample_seals:
  "\<exists>r. sealBase sampleCrypto (replicate 32 1) m aad (getPublicKey sampleCrypto (replicate 32 2)) info = Inr r"
proof -
  have "(0 :: nat) \<in> set [0..<32]" by simp
  moreover have "(w :: byte) OR 1 \<noteq> 0" for w using byte_nonzero_or .
  ultimately show ?thesis
    by (auto simp: sealBase_def encap_def dh_def sampleCrypto_def list_all_iff bindE_Inr Let_def
        simp del: set_upt split: prod.splits intro!: bexI [of _ 0])
qed

definition sampleBundle :: sealedBundle where
  "sampleBundle = \<lparr>bundleId = replicate 16 0, digestAlgo = js ''sha256'',
     chunks = [\<lparr>chunkIndex = 0, totalChunks = 1, sealedBytes = []\<rparr>]\<rparr>"

definition sampleCbor :: "sealResult \<Rightarrow> bytes \<Rightarrow> cborVal option" where
  "sampleCbor r bs =
     (if bs = [] then Some (CObj [(js ''kem_encap'', CBytes (sealEnc r)), (js ''aead_ciphertext'', CBytes (sealCiphertext r))])
      else if bs = [1] then Some (CObj [(js ''version'', CInt 1), (js ''bundle_id'', CBytes (replicate 16 0)),
        (js ''chunk_index'', CInt 0), (js ''total_chunks'', CInt 1), (js ''payload_fragment'', CBytes [2])])
      else if bs = [2] then Some (CObj [(js ''admin_rotation'', CObj [])]) else None)"

lemma sample_sealed:
  "\<exists>r. sealsChunk sampleCrypto (sampleCbor r) (replicate 32 2) sampleBundle 1 [2]
     \<lparr>chunkIndex = 0, totalChunks = 1, sealedBytes = []\<rparr>"
proof -
  obtain aad where a: "buildChunkAad 1 (replicate 16 0) 0 1 (js ''sha256'') = Inr aad"
    by (simp add: buildChunkAad_def Let_def)
  obtain r where r: "sealBase sampleCrypto (replicate 32 1) [1] aad (getPublicKey sampleCrypto (replicate 32 2)) HPKE_INFO = Inr r"
    using sample_seals by blast
  have "sealsChunk sampleCrypto (sampleCbor r) (replicate 32 2) sampleBundle 1 [2]
      \<lparr>chunkIndex = 0, totalChunks = 1, sealedBytes = []\<rparr>"
    unfolding sealsChunk_def
    by (rule conjI, simp, rule exI [of _ "replicate 32 1"], rule exI [of _ aad], rule exI [of _ "[1]"], rule exI [of _ r],
        rule exI [of _ "CBytes (sealEnc r)"], rule exI [of _ "CBytes (sealCiphertext r)"],
        rule exI [of _ "CBytes (replicate 16 0)"], rule exI [of _ "CBytes [2]"])
       (simp add: a r sampleBundle_def sampleCbor_def bytesVal_def del: replicate.simps)
  then show ?thesis ..
qed

lemma sample_payload:
  "sampleCbor r [2] = Some (CObj [(js ''admin_rotation'', CObj [])])"
  "parseSealedPayload (CObj [(js ''admin_rotation'', CObj [])]) = Inr (AdminRotation (CObj []))"
  by (simp_all add: sampleCbor_def parseSealedPayload_def entriesOf_def isObjectC_def typeofC_def)

lemma sample_premises:
  "length (bundleId sampleBundle) = 16" "mset (map chunkIndex (chunks sampleBundle)) = mset (map int [0..<length [[2 :: byte]]])"
  "sealsChunk sampleCrypto (sampleCbor r) (replicate 32 2) sampleBundle 1 [2] \<lparr>chunkIndex = 0, totalChunks = 1, sealedBytes = []\<rparr>
   \<Longrightarrow> \<forall>c \<in> set (chunks sampleBundle). sealsChunk sampleCrypto (sampleCbor r) (replicate 32 2) sampleBundle (length [[2]])
        ([[2]] ! nat (chunkIndex c)) c"
  by (simp_all add: sampleBundle_def)

lemma sample_opens:
  "\<exists>r. openBundle sampleCrypto (sampleCbor r) sampleBundle (replicate 32 2) =
     Inr \<lparr>openedId = bundleId sampleBundle, openedAlgo = digestAlgo sampleBundle, openedPayload = AdminRotation (CObj [])\<rparr>"
proof -
  obtain r where r: "sealsChunk sampleCrypto (sampleCbor r) (replicate 32 2) sampleBundle 1 [2]
      \<lparr>chunkIndex = 0, totalChunks = 1, sealedBytes = []\<rparr>" using sample_sealed by blast
  have "cryptoOk sampleCrypto" "length (replicate 32 2 :: bytes) = 32" "[[2 :: byte]] \<noteq> []" "concat [[2 :: byte]] = [2]"
    by (simp_all add: sampleCrypto_ok)
  from bundle_opens [OF this(1,2) sample_premises(1) this(3) sample_premises(2) sample_premises(3) [OF r]]
    this(4) sample_payload
  show ?thesis by auto
qed

subsection \<open>Properties\<close>

text \<open>C32: An opened bundle is complete and authentic: its chunks are as many as the chunk of index \<open>0\<close> declares, \<open>n\<close>
  (\<open>openBundle\<close> compares no other chunk's count); their indices are \<open>0\<close> to \<open>n - 1\<close>, each once; every chunk decrypted under the recipient's key with the bundle id, its own index and count and
  the digest algorithm as associated data, and its inner header repeats them; and the payload is parsed
  from the fragments in index order.\<close>

theorem opened_bundle:
  assumes "openBundle C cbor b k = Inr out"
  shows "\<exists>frags raw. length frags = length (chunks b) \<and> frags \<noteq> [] \<and>
    (\<exists>c \<in> set (chunks b). chunkIndex c = 0 \<and> totalChunks c = int (length frags)) \<and>
    mset (map (nat \<circ> chunkIndex) (chunks b)) = mset [0..<length frags] \<and>
    (\<forall>c \<in> set (chunks b). \<exists>s aad m pt. decodeHpkeSealed cbor (sealedBytes c) = Inr s \<and>
       buildChunkAad 1 (bundleId b) (chunkIndex c) (totalChunks c) (digestAlgo b) = Inr aad \<and>
       openBase C (aead_ciphertext s) aad (kem_encap s) k HPKE_INFO = Inr m \<and>
       decodeChunkPlaintext cbor m = Inr pt \<and> bundle_id pt = bundleId b \<and>
       chunk_index pt = Integral (chunkIndex c) \<and> total_chunks pt = Integral (totalChunks c) \<and>
       payload_fragment pt = frags ! nat (chunkIndex c)) \<and>
    cbor (concat frags) = Some raw \<and> parseSealedPayload raw = Inr (openedPayload out) \<and>
    openedId out = bundleId b \<and> openedAlgo out = digestAlgo b"
proof -
  from assms obtain ps raw payload where ps: "ps \<noteq> []" "opensTo C cbor k b ps" "total_chunks (hd ps) = Integral (int (length ps))"
      and r: "cbor (concat (map payload_fragment ps)) = Some raw" "parseSealedPayload raw = Inr payload"
      and out: "out = \<lparr>openedId = bundleId b, openedAlgo = digestAlgo b, openedPayload = payload\<rparr>"
    unfolding openBundle_iff by blast
  have "\<exists>s aad m pt. decodeHpkeSealed cbor (sealedBytes c) = Inr s \<and>
       buildChunkAad 1 (bundleId b) (chunkIndex c) (totalChunks c) (digestAlgo b) = Inr aad \<and>
       openBase C (aead_ciphertext s) aad (kem_encap s) k HPKE_INFO = Inr m \<and>
       decodeChunkPlaintext cbor m = Inr pt \<and> bundle_id pt = bundleId b \<and>
       chunk_index pt = Integral (chunkIndex c) \<and> total_chunks pt = Integral (totalChunks c) \<and>
       payload_fragment pt = map payload_fragment ps ! nat (chunkIndex c)" if c: "c \<in> set (chunks b)" for c
  proof -
    from opensTo_indices(2) [OF ps(2) c] obtain i where i: "i < length ps" "chunkIndex c = int i"
        "openChunk C cbor k b c = Inr (ps ! i)" by blast
    with openChunk_header [OF i(3)] show ?thesis
      by (auto simp: openChunk_def bindE_Inr hpkeOpen_def CHUNK_VERSION_def split: if_splits sum.splits)
  qed
  moreover have "\<exists>c \<in> set (chunks b). chunkIndex c = 0 \<and> totalChunks c = int (length (map payload_fragment ps))"
  proof -
    have "0 < length ps" using ps(1) by simp
    with ps(2) obtain c where c: "c \<in> set (chunks b)" "chunkIndex c = int 0" "openChunk C cbor k b c = Inr (ps ! 0)"
      unfolding opensTo_def by blast
    from openChunk_header [OF c(3)] ps(1,3) have "totalChunks c = int (length ps)" by (simp add: hd_conv_nth)
    with c show ?thesis by (intro bexI [OF _ c(1)]) simp
  qed
  moreover have "length (map payload_fragment ps) = length (chunks b)" using ps(2) by (simp add: opensTo_def)
  ultimately show ?thesis using ps(1) opensTo_indices(1) [OF ps(2)] r out
    by (intro exI [of _ "map payload_fragment ps"] exI [of _ raw]) simp
qed

theorem opened_bundle_witness:
  "\<exists>cbor s aad m. decodeHpkeSealed cbor [] = Inr s \<and>
     openBase sampleCrypto (aead_ciphertext s) aad (kem_encap s) (replicate 32 2) HPKE_INFO = Inr m"
proof -
  obtain r out where "openBundle sampleCrypto (sampleCbor r) sampleBundle (replicate 32 2) = Inr out"
    using sample_opens by blast
  from opened_bundle [OF this] show ?thesis by (auto simp: sampleBundle_def)
qed

text \<open>C33: What was sealed and armored opens: when the fragments of a payload were sealed to the recipient,
  chunk by chunk with the bundle's header, then the armored text of these chunks in any order opens,
  from the seed of the recipient, to the payload.\<close>

theorem sealed_armor_opens:
  assumes "cryptoOk C" and "base64Ok enc b64" and "length seed = 32" and "length (toMontgomerySecret seed) = 32"
    and "length (bundleId b) = 16" and "frags \<noteq> []"
    and "mset (map chunkIndex (chunks b)) = mset (map int [0..<length frags])"
    and "\<forall>c \<in> set (chunks b). sealsChunk C cbor (toMontgomerySecret seed) b (length frags) (frags ! nat (chunkIndex c)) c"
    and "list_all (encodable (digestAlgo b)) (chunks b)" and "length (armorText enc b) \<le> MAX_ARMOR_INPUT_CHARS"
    and "cbor (concat frags) = Some raw" and "parseSealedPayload raw = Inr payload"
  shows "openSealedBundle C b64 cbor toMontgomerySecret (armorText enc b) seed =
    Inr \<lparr>openedId = bundleId b, openedAlgo = digestAlgo b, openedPayload = payload\<rparr>"
proof -
  have "chunks b \<noteq> []" using mset_eq_length [OF assms(7)] assms(6) by auto
  from armor_reads_back [OF assms(2,5) this assms(9,10)]
    bundle_opens [OF assms(1,4-8) assms(11,12)] assms(3)
  show ?thesis by (simp add: openSealedBundle_def Let_def)
qed

theorem sealed_armor_opens_witness:
  "\<exists>r. openSealedBundle sampleCrypto unhex (sampleCbor r) (\<lambda>seed. seed) (armorText hexStr sampleBundle) (replicate 32 2) =
     Inr \<lparr>openedId = replicate 16 0, openedAlgo = js ''sha256'', openedPayload = AdminRotation (CObj [])\<rparr>"
proof -
  obtain r where r: "sealsChunk sampleCrypto (sampleCbor r) (replicate 32 2) sampleBundle 1 [2]
      \<lparr>chunkIndex = 0, totalChunks = 1, sealedBytes = []\<rparr>" using sample_sealed by blast
  have k: "length (replicate 32 2 :: bytes) = 32" "[[2 :: byte]] \<noteq> []" "concat [[2 :: byte]] = [2]" by simp_all
  have t: "list_all (encodable (digestAlgo sampleBundle)) (chunks sampleBundle)"
    "length (armorText hexStr sampleBundle) \<le> MAX_ARMOR_INPUT_CHARS"
    by (auto intro!: short_text simp: sampleBundle_def encodable_def sha256_solid)
  show ?thesis
    using sealed_armor_opens [OF sampleCrypto_ok hex_base64Ok k(1), of "\<lambda>seed. seed", OF k(1) sample_premises(1) k(2)
        sample_premises(2) sample_premises(3) [OF r] t]
      k(3) sample_payload by (auto simp: sampleBundle_def)
qed

end
