(* ===== verification/Jcs.thy ===== *)
theory Jcs
  imports Js_Json Js_Strings "HOL-Library.List_Lexorder" "HOL-Library.Multiset"
begin

text \<open>
  The canonical form that signatures are made over: \<open>jcsCanonicalize\<close> of
  \<open>packages/core/src/trust-tasks/canonical.ts\<close>. Strings are ordered by their code units, which is the
  order of the library on lists of words. Values are trees, so the guard against circular references
  never fires. The facts show that the canonical form determines the value up to the order of members.
\<close>

datatype jcsError = NonFiniteNumber | CannotEncode

subsection \<open>The encoder\<close>

definition encUnit :: "nat \<Rightarrow> nat list" where
  "encUnit ch =
     (if ch = 0x22 then [92, 34]
      else if ch = 0x5c then [92, 92]
      else if ch = 0x08 then [92, 98]
      else if ch = 0x0c then [92, 102]
      else if ch = 0x0a then [92, 110]
      else if ch = 0x0d then [92, 114]
      else if ch = 0x09 then [92, 116]
      else if ch < 0x20 then escapeU ch
      else [ch])"

definition encString :: "jsstr \<Rightarrow> jsstr" where
  "encString s = map word_of_nat (34 # concat (map encUnit (map unat s)) @ [34])"

definition intString :: "int \<Rightarrow> jsstr" where
  "intString i = (if i < 0 then 45 # js (natString (nat (- i))) else js (natString (nat i)))"

lemma size_members_insort: "size_list f (insort_key g x xs) = f x + 1 + size_list f xs"
  by (induction xs) auto

lemma size_members_sort: "size_list f (sort_key g xs) = size_list f xs"
  by (induction xs) (simp_all add: size_members_insort)

function enc :: "jsval \<Rightarrow> jcsError + jsstr"
  and encItems :: "jsval list \<Rightarrow> jcsError + jsstr list"
  and encMembers :: "(jsstr \<times> jsval) list \<Rightarrow> jcsError + jsstr list" where
  "enc JNull = Inr (js ''null'')"
| "enc (JBool b) = Inr (js (if b then ''true'' else ''false''))"
| "enc JNonFinite = Inl NonFiniteNumber"
| "enc (JInt i) = Inr (intString i)"
| "enc (JFloat t) = Inr t"
| "enc (JStr s) = Inr (encString s)"
| "enc (JArr vs) = bindE (encItems vs) (\<lambda>parts. Inr (js ''['' @ joinWith (js '','') parts @ js '']''))"
| "enc (JObj ms) = bindE (encMembers (sort_key fst ms)) (\<lambda>parts. Inr (js ''{'' @ joinWith (js '','') parts @ js ''}''))"
| "enc JUndefined = Inl CannotEncode"
| "encItems [] = Inr []"
| "encItems (v # vs) = bindE (enc v) (\<lambda>p. bindE (encItems vs) (\<lambda>ps. Inr (p # ps)))"
| "encMembers [] = Inr []"
| "encMembers ((k, v) # ms) =
     bindE (enc v) (\<lambda>p. bindE (encMembers ms) (\<lambda>ps. Inr ((encString k @ js '':'' @ p) # ps)))"
  by pat_completeness auto

termination
  by (relation "measure (\<lambda>x. case x of Inl v \<Rightarrow> size v | Inr (Inl vs) \<Rightarrow> size_list size vs
        | Inr (Inr ms) \<Rightarrow> size_list (\<lambda>m. Suc (size (snd m))) ms)")
     (auto simp: size_members_sort size_prod_simp)

definition jcsCanonicalize :: "jsval \<Rightarrow> jcsError + jsstr" where
  "jcsCanonicalize v = enc v"

subsection \<open>Values\<close>

definition numberUnit :: "16 word \<Rightarrow> bool" where
  "numberUnit u \<longleftrightarrow> isDigit u \<or> u = 43 \<or> u = 45 \<or> u = 46 \<or> u = 101"

text \<open>What a value of the program satisfies: members are distinct, and the text of a number that is not
  a small integer has a point or an exponent.\<close>

fun valOk :: "jsval \<Rightarrow> bool" where
  "valOk (JFloat t) \<longleftrightarrow> t \<noteq> [] \<and> list_all numberUnit t \<and> (46 \<in> set t \<or> 101 \<in> set t) \<and> hd t \<noteq> 101"
| "valOk (JArr vs) \<longleftrightarrow> list_all valOk vs"
| "valOk (JObj ms) \<longleftrightarrow> distinct (map fst ms) \<and> list_all valOk (map snd ms)"
| "valOk _ \<longleftrightarrow> True"

text \<open>The value with the members of every object in order.\<close>

fun norm :: "jsval \<Rightarrow> jsval" where
  "norm (JArr vs) = JArr (map norm vs)"
| "norm (JObj ms) = JObj (sort_key fst (map (\<lambda>(k, v). (k, norm v)) ms))"
| "norm v = v"

subsection \<open>Strings and numbers are delimited\<close>

lemma read_encUnit:
  "u < 0x10000 \<Longrightarrow> readQuoted (encUnit u @ r) = map_option (\<lambda>(us, t). (u # us, t)) (readQuoted r)"
  using read_escapeU [of u r] by (simp add: encUnit_def readQuoted.simps(2) unescape_def)

lemma readQuoted_encUnits:
  "list_all (\<lambda>u. u < 0x10000) us \<Longrightarrow> readQuoted (concat (map encUnit us) @ 34 # r) = Some (us, r)"
  by (induction us) (simp_all add: read_end read_encUnit)

lemma encUnit_lt: "u < 0x10000 \<Longrightarrow> list_all (\<lambda>u. u < 0x10000) (encUnit u)"
  using escapeU_lt [of u] by (simp add: encUnit_def)

lemma map_unat_encString: "map unat (encString s) = 34 # concat (map encUnit (map unat s)) @ [34]"
proof -
  have "list_all (\<lambda>u. u < 0x10000) (concat (map encUnit us))" if "list_all (\<lambda>u. u < 0x10000) us" for us
    using that by (induction us) (simp_all add: encUnit_lt)
  from unat_word16 [of "34 # concat (map encUnit (map unat s)) @ [34]"] this [OF unat16_lt [of s]]
  show ?thesis by (simp add: encString_def)
qed

lemma encString_delimited:
  assumes "encString s @ r = encString t @ r'"
  shows "s = t \<and> r = r'"
proof -
  have "concat (map encUnit (map unat s)) @ 34 # map unat r = concat (map encUnit (map unat t)) @ 34 # map unat r'"
    using arg_cong [OF assms, of "map unat"] by (simp add: map_unat_encString)
  then have "Some (map unat s, map unat r) = Some (map unat t, map unat r')"
    unfolding readQuoted_encUnits [OF unat16_lt, symmetric] by (rule arg_cong)
  then show ?thesis using map_unat_inj [of s t] map_unat_inj [of r r'] by simp
qed

lemma intString_units: "list_all (\<lambda>u. isDigit u \<or> u = 45) (intString i)" "intString i \<noteq> []"
  using natString_units natString_ne by (auto simp: intString_def list_all_iff)

lemma intString_inj: "intString i = intString j \<Longrightarrow> i = j"
proof -
  assume e: "intString i = intString j"
  have d: "ofDigits (js (natString n)) = n" "45 \<notin> set (js (natString n))" for n
    using natString_digits [of n] by (auto simp: list_all_iff isDigit_def)
  have neq: "45 # xs \<noteq> js (natString n)" for xs n using d(2) [of n] by (metis list.set_intros(1))
  have inj: "js (natString m) = js (natString n) \<longleftrightarrow> m = n" for m n using d(1) by metis
  show ?thesis using e neq [of _ "nat i"] neq [of _ "nat j"]
    by (cases "i < 0"; cases "j < 0") (auto simp: intString_def inj dest: sym)
qed

text \<open>What follows an encoded value in the text of its parent, or nothing.\<close>

definition ends :: "jsstr \<Rightarrow> bool" where
  "ends r \<longleftrightarrow> r = [] \<or> hd r \<in> {44, 93, 125}"

lemma number_delimited:
  assumes "list_all numberUnit s" "list_all numberUnit t" "ends r" "ends r'" "s @ r = t @ r'"
  shows "s = t \<and> r = r'"
proof -
  have "\<not> numberUnit 44" "\<not> numberUnit 93" "\<not> numberUnit 125" by (simp_all add: numberUnit_def isDigit_def)
  then have "takeWhile numberUnit x = []" if "ends x" for x using that by (cases x) (auto simp: ends_def)
  then have "takeWhile numberUnit (y @ x) = y" if "list_all numberUnit y" "ends x" for x y
    using that by (simp add: takeWhile_append2 list_all_iff)
  with assms show ?thesis by (metis same_append_eq)
qed

lemma intString_number: "list_all numberUnit (intString i)"
  using intString_units(1) [of i] by (auto simp: list_all_iff numberUnit_def)

subsection \<open>What a value's text begins with\<close>

definition kindUnit :: "16 word \<Rightarrow> nat" where
  "kindUnit u = (if u = 110 then 0 else if u = 116 \<or> u = 102 then 1 else if u = 34 then 3
     else if u = 91 then 4 else if u = 123 then 5 else 2)"

fun textKind :: "jsval \<Rightarrow> nat" where
  "textKind JNull = 0" | "textKind (JBool _) = 1" | "textKind (JStr _) = 3" | "textKind (JArr _) = 4" | "textKind (JObj _) = 5"
| "textKind _ = 2"

lemma number_kind: "numberUnit u \<Longrightarrow> u \<noteq> 101 \<Longrightarrow> kindUnit u = 2 \<and> u \<notin> {44, 93, 125}"
  by (auto simp: numberUnit_def isDigit_def kindUnit_def)

lemma encString_hd: "encString s \<noteq> [] \<and> hd (encString s) = 34"
  by (simp add: encString_def)

lemma enc_kind:
  assumes "enc v = Inr s" and "valOk v"
  shows "s \<noteq> [] \<and> kindUnit (hd s) = textKind v \<and> hd s \<notin> {44, 93, 125}"
proof (cases v)
  case (JInt i)
  have "hd (intString i) \<noteq> 101" "numberUnit (hd (intString i))"
    using intString_units [of i] by (auto simp: list_all_iff isDigit_def numberUnit_def dest!: hd_in_set)
  with number_kind JInt assms intString_units(2) [of i] show ?thesis by auto
next
  case (JFloat t)
  with assms have "numberUnit (hd s)" "hd s \<noteq> 101" "s \<noteq> []" by (auto simp: list_all_iff)
  with number_kind JFloat show ?thesis by auto
next
  case (JBool b)
  with assms show ?thesis by (cases b) (auto simp: js_def kindUnit_def)
qed (use assms encString_hd in \<open>auto simp: js_def kindUnit_def bindE_Inr\<close>)

subsection \<open>Joined parts\<close>

definition tailOf :: "16 word \<Rightarrow> jsstr list \<Rightarrow> jsstr \<Rightarrow> jsstr" where
  "tailOf c ps r = (if ps = [] then c # r else 44 # joinWith [44] ps @ c # r)"

lemma join_tail: "joinWith [44] (p # ps) @ c # r = p @ tailOf c ps r"
  by (cases ps) (simp_all add: tailOf_def)

lemma tail_ends: "c \<in> {93, 125} \<Longrightarrow> ends (tailOf c ps r)"
  by (auto simp: tailOf_def ends_def)

lemma tail_eq:
  assumes "c \<in> {93, 125}" and "tailOf c ps r = tailOf c qs r'"
  shows "ps = [] \<and> qs = [] \<and> r = r' \<or> ps \<noteq> [] \<and> qs \<noteq> [] \<and> joinWith [44] ps @ c # r = joinWith [44] qs @ c # r'"
  using assms by (auto simp: tailOf_def split: if_splits)

lemma encItems_Nil: "encItems vs = Inr [] \<longleftrightarrow> vs = []"
  by (cases vs) (auto simp: bindE_Inr)

lemma encMembers_Nil: "encMembers ms = Inr [] \<longleftrightarrow> ms = []"
  by (cases ms) (auto simp: bindE_Inr)

subsection \<open>The canonical form determines the value\<close>

definition reads_val :: "jsval \<Rightarrow> bool" where
  "reads_val v \<longleftrightarrow> (\<forall>w s t r r'. enc v = Inr s \<longrightarrow> enc w = Inr t \<longrightarrow> valOk v \<longrightarrow> valOk w \<longrightarrow> ends r \<longrightarrow> ends r' \<longrightarrow>
     s @ r = t @ r' \<longrightarrow> norm v = norm w \<and> r = r')"

definition reads_items :: "jsval list \<Rightarrow> bool" where
  "reads_items vs \<longleftrightarrow> (\<forall>ws ps qs r r'. encItems vs = Inr ps \<longrightarrow> encItems ws = Inr qs \<longrightarrow> list_all valOk vs \<longrightarrow>
     list_all valOk ws \<longrightarrow> joinWith [44] ps @ 93 # r = joinWith [44] qs @ 93 # r' \<longrightarrow>
     map norm vs = map norm ws \<and> r = r')"

definition reads_members :: "(jsstr \<times> jsval) list \<Rightarrow> bool" where
  "reads_members ms \<longleftrightarrow> (\<forall>ns ps qs r r'. encMembers ms = Inr ps \<longrightarrow> encMembers ns = Inr qs \<longrightarrow>
     list_all valOk (map snd ms) \<longrightarrow> list_all valOk (map snd ns) \<longrightarrow>
     joinWith [44] ps @ 125 # r = joinWith [44] qs @ 125 # r' \<longrightarrow>
     map (\<lambda>(k, v). (k, norm v)) ms = map (\<lambda>(k, v). (k, norm v)) ns \<and> r = r')"

lemma reads_valD:
  assumes "reads_val v" "enc v = Inr s" "enc w = Inr t" "valOk v" "valOk w" "ends r" "ends r'" "s @ r = t @ r'"
  shows "norm v = norm w \<and> r = r'"
  using assms unfolding reads_val_def by blast

lemma reads_itemsD:
  assumes "reads_items vs" "encItems vs = Inr ps" "encItems ws = Inr qs" "list_all valOk vs" "list_all valOk ws"
    "joinWith [44] ps @ 93 # r = joinWith [44] qs @ 93 # r'"
  shows "map norm vs = map norm ws \<and> r = r'"
  using assms unfolding reads_items_def by blast

lemma reads_membersD:
  assumes "reads_members ms" "encMembers ms = Inr ps" "encMembers ns = Inr qs"
    "list_all valOk (map snd ms)" "list_all valOk (map snd ns)"
    "joinWith [44] ps @ 125 # r = joinWith [44] qs @ 125 # r'"
  shows "map (\<lambda>(k, v). (k, norm v)) ms = map (\<lambda>(k, v). (k, norm v)) ns \<and> r = r'"
  using assms unfolding reads_members_def by blast

lemma hd_append_eq: "s @ r = t @ r' \<Longrightarrow> s \<noteq> [] \<Longrightarrow> t \<noteq> [] \<Longrightarrow> hd s = hd t"
  by (cases s; cases t) auto

lemma same_kind:
  assumes "enc v = Inr s" "enc w = Inr t" "valOk v" "valOk w" "s @ r = t @ r'"
  shows "textKind v = textKind w"
  using enc_kind [OF assms(1,3)] enc_kind [OF assms(2,4)] hd_append_eq [OF assms(5)] by metis

lemma reads_items_Cons:
  assumes v: "reads_val v" and vs: "reads_items vs"
  shows "reads_items (v # vs)"
  unfolding reads_items_def
proof (intro allI impI)
  fix ws ps qs r r'
  assume e: "encItems (v # vs) = Inr ps" "encItems ws = Inr qs" and ok: "list_all valOk (v # vs)" "list_all valOk ws"
    and eq: "joinWith [44] ps @ 93 # r = joinWith [44] qs @ 93 # r'"
  from e(1) obtain p ps' where p: "enc v = Inr p" "encItems vs = Inr ps'" "ps = p # ps'" by (auto simp: bindE_Inr)
  have k: "p \<noteq> []" "hd p \<noteq> 93" using enc_kind [OF p(1)] ok(1) by auto
  show "map norm (v # vs) = map norm ws \<and> r = r'"
  proof (cases ws)
    case Nil
    then have "p @ tailOf 93 ps' r = 93 # r'" using eq e(2) unfolding p(3) join_tail by simp
    with k show ?thesis by (cases p) auto
  next
    case (Cons w ws')
    with e(2) obtain q qs' where q: "enc w = Inr q" "encItems ws' = Inr qs'" "qs = q # qs'" by (auto simp: bindE_Inr)
    have "p @ tailOf 93 ps' r = q @ tailOf 93 qs' r'" using eq unfolding p(3) q(3) join_tail .
    moreover have "valOk v" "valOk w" "(93 :: 16 word) \<in> {93, 125}" using ok Cons by simp_all
    ultimately
    have n: "norm v = norm w" and t: "tailOf 93 ps' r = tailOf 93 qs' r'"
      using reads_valD [OF v p(1) q(1) _ _ tail_ends tail_ends] by blast+
    from tail_eq [OF _ t] have "map norm vs = map norm ws' \<and> r = r'"
    proof (rule disjE)
      assume "ps' = [] \<and> qs' = [] \<and> r = r'"
      with p(2) q(2) show ?thesis by (simp add: encItems_Nil)
    next
      assume "ps' \<noteq> [] \<and> qs' \<noteq> [] \<and> joinWith [44] ps' @ 93 # r = joinWith [44] qs' @ 93 # r'"
      with reads_itemsD [OF vs p(2) q(2)] ok Cons show ?thesis by auto
    qed simp
    with n Cons show ?thesis by simp
  qed
qed

lemma member_split: "(encString k @ js '':'' @ p) @ r = encString k @ 58 # p @ r"
  by (simp add: js_def)

lemma reads_members_Cons:
  assumes v: "reads_val v" and ms: "reads_members ms"
  shows "reads_members ((k, v) # ms)"
  unfolding reads_members_def
proof (intro allI impI)
  fix ns ps qs r r'
  assume e: "encMembers ((k, v) # ms) = Inr ps" "encMembers ns = Inr qs"
    and ok: "list_all valOk (map snd ((k, v) # ms))" "list_all valOk (map snd ns)"
    and eq: "joinWith [44] ps @ 125 # r = joinWith [44] qs @ 125 # r'"
  from e(1) obtain p ps' where p: "enc v = Inr p" "encMembers ms = Inr ps'" "ps = (encString k @ js '':'' @ p) # ps'"
    by (auto simp: bindE_Inr)
  show "map (\<lambda>(k, v). (k, norm v)) ((k, v) # ms) = map (\<lambda>(k, v). (k, norm v)) ns \<and> r = r'"
  proof (cases ns)
    case Nil
    then have "encString k @ 58 # p @ tailOf 125 ps' r = 125 # r'"
      using eq e(2) unfolding p(3) join_tail member_split by simp
    with encString_hd [of k] show ?thesis by (cases "encString k") auto
  next
    case (Cons n ns')
    obtain l w where n: "n = (l, w)" by fastforce
    from Cons e(2) obtain q qs' where q: "enc w = Inr q" "encMembers ns' = Inr qs'"
        "qs = (encString l @ js '':'' @ q) # qs'" by (auto simp: bindE_Inr n)
    have "encString k @ 58 # p @ tailOf 125 ps' r = encString l @ 58 # q @ tailOf 125 qs' r'"
      using eq unfolding p(3) q(3) join_tail member_split .
    from encString_delimited [OF this] have kl: "k = l" and "p @ tailOf 125 ps' r = q @ tailOf 125 qs' r'" by simp_all
    moreover have "valOk v" "valOk w" "(125 :: 16 word) \<in> {93, 125}" using ok Cons n by simp_all
    ultimately
    have vw: "norm v = norm w" and t: "tailOf 125 ps' r = tailOf 125 qs' r'"
      using reads_valD [OF v p(1) q(1) _ _ tail_ends tail_ends] by blast+
    from tail_eq [OF _ t] have "map (\<lambda>(k, v). (k, norm v)) ms = map (\<lambda>(k, v). (k, norm v)) ns' \<and> r = r'"
    proof (rule disjE)
      assume "ps' = [] \<and> qs' = [] \<and> r = r'"
      with p(2) q(2) show ?thesis by (simp add: encMembers_Nil)
    next
      assume "ps' \<noteq> [] \<and> qs' \<noteq> [] \<and> joinWith [44] ps' @ 125 # r = joinWith [44] qs' @ 125 # r'"
      with reads_membersD [OF ms p(2) q(2)] ok Cons show ?thesis by auto
    qed simp
    with kl vw Cons n show ?thesis by simp
  qed
qed

lemma sort_norm: "sort_key fst (map (\<lambda>(k, v). (k, f v)) ms) = map (\<lambda>(k, v). (k, f v)) (sort_key fst ms)"
proof (induction ms)
  case (Cons m ms)
  have "insort_key fst (k, f v) (map (\<lambda>(k, v). (k, f v)) xs) = map (\<lambda>(k, v). (k, f v)) (insort_key fst (k, v) xs)" for k v xs
    by (induction xs) auto
  with Cons show ?case by (cases m) simp
qed simp

lemma reads_val_number:
  assumes "textKind v = 2"
  shows "reads_val v"
  unfolding reads_val_def
proof (intro allI impI)
  fix w s t r r'
  assume e: "enc v = Inr s" "enc w = Inr t" and ok: "valOk v" "valOk w" and r: "ends r" "ends r'" and eq: "s @ r = t @ r'"
  have num: "list_all numberUnit x" if "enc u = Inr x" "valOk u" "textKind u = 2" for u x
    using that intString_number by (cases u) auto
  have kw: "textKind w = 2" using same_kind [OF e ok eq] assms by simp
  from number_delimited [OF num [OF e(1) ok(1) assms] num [OF e(2) ok(2) kw] r eq] have st: "s = t" "r = r'" by simp_all
  have i: "intString i \<noteq> x" if "46 \<in> set x \<or> 101 \<in> set x" for i x
    using intString_units(1) [of i] that by (auto simp: list_all_iff isDigit_def)
  have "v = w" using e st ok assms kw i by (cases v; cases w) (auto dest: intString_inj)
  with st show "norm v = norm w \<and> r = r'" by simp
qed

lemma reads_val_word:
  assumes "textKind v \<le> 1"
  shows "reads_val v"
  unfolding reads_val_def
proof (intro allI impI)
  fix w s t r r'
  assume e: "enc v = Inr s" "enc w = Inr t" and ok: "valOk v" "valOk w" and eq: "s @ r = t @ r'"
  from same_kind [OF e ok eq] assms have "textKind w = textKind v" by simp
  with e eq assms show "norm v = norm w \<and> r = r'"
    by (cases v; cases w) (auto simp: js_def split: if_splits)
qed

lemma reads_val_string: "reads_val (JStr a)"
  unfolding reads_val_def
proof (intro allI impI)
  fix w s t r r'
  assume e: "enc (JStr a) = Inr s" "enc w = Inr t" and ok: "valOk (JStr a)" "valOk w" and eq: "s @ r = t @ r'"
  from same_kind [OF e ok eq] obtain b where w: "w = JStr b" by (cases w) auto
  from e w eq have "encString a @ r = encString b @ r'" by simp
  from encString_delimited [OF this] w show "norm (JStr a) = norm w \<and> r = r'" by simp
qed

lemma reads_val_array:
  assumes "reads_items vs"
  shows "reads_val (JArr vs)"
  unfolding reads_val_def
proof (intro allI impI)
  fix w s t r r'
  assume e: "enc (JArr vs) = Inr s" "enc w = Inr t" and ok: "valOk (JArr vs)" "valOk w" and eq: "s @ r = t @ r'"
  from same_kind [OF e ok eq] obtain ws where w: "w = JArr ws" by (cases w) auto
  from e(1) obtain ps where p: "encItems vs = Inr ps" "s = js ''['' @ joinWith (js '','') ps @ js '']''" by (auto simp: bindE_Inr)
  from e(2) w obtain qs where q: "encItems ws = Inr qs" "t = js ''['' @ joinWith (js '','') qs @ js '']''" by (auto simp: bindE_Inr)
  have "joinWith [44] ps @ 93 # r = joinWith [44] qs @ 93 # r'" using eq p(2) q(2) by (simp add: js_def)
  from reads_itemsD [OF assms p(1) q(1) _ _ this] ok w show "norm (JArr vs) = norm w \<and> r = r'" by simp
qed

lemma reads_val_object:
  assumes "reads_members (sort_key fst ms)"
  shows "reads_val (JObj ms)"
  unfolding reads_val_def
proof (intro allI impI)
  fix w s t r r'
  assume e: "enc (JObj ms) = Inr s" "enc w = Inr t" and ok: "valOk (JObj ms)" "valOk w" and eq: "s @ r = t @ r'"
  from same_kind [OF e ok eq] obtain ns where w: "w = JObj ns" by (cases w) auto
  from e(1) obtain ps where p: "encMembers (sort_key fst ms) = Inr ps" "s = js ''{'' @ joinWith (js '','') ps @ js ''}''"
    by (auto simp: bindE_Inr)
  from e(2) w obtain qs where q: "encMembers (sort_key fst ns) = Inr qs" "t = js ''{'' @ joinWith (js '','') qs @ js ''}''"
    by (auto simp: bindE_Inr)
  have "joinWith [44] ps @ 125 # r = joinWith [44] qs @ 125 # r'" using eq p(2) q(2) by (simp add: js_def)
  from reads_membersD [OF assms p(1) q(1) _ _ this] ok w
  show "norm (JObj ms) = norm w \<and> r = r'" by (simp add: sort_norm list_all_iff)
qed

lemma enc_reads: "reads_val v" "reads_items vs" "reads_members ms"
proof (induction v and vs and ms rule: enc_encItems_encMembers.induct)
  case (7 vs)
  then show ?case by (rule reads_val_array)
next
  case (8 ms)
  then show ?case by (rule reads_val_object)
next
  case (10)
  show ?case unfolding reads_items_def
  proof (intro allI impI)
    fix ws ps qs r r'
    assume e: "encItems [] = Inr ps" "encItems ws = Inr qs" and ok: "list_all valOk ws"
      and eq: "joinWith [44] ps @ 93 # r = joinWith [44] qs @ 93 # r'"
    show "map norm [] = map norm ws \<and> r = r'"
    proof (cases ws)
      case (Cons w ws')
      with e(2) obtain q qs' where q: "enc w = Inr q" "qs = q # qs'" by (auto simp: bindE_Inr)
      have "q @ tailOf 93 qs' r' = 93 # r" using eq e(1) unfolding q(2) join_tail by simp
      with enc_kind [OF q(1)] ok Cons show ?thesis by (cases q) auto
    qed (use e eq in simp)
  qed
next
  case (11 v vs)
  then show ?case by (intro reads_items_Cons)
next
  case 12
  show ?case unfolding reads_members_def
  proof (intro allI impI)
    fix ns ps qs r r'
    assume e: "encMembers [] = Inr ps" "encMembers ns = Inr qs"
      and eq: "joinWith [44] ps @ 125 # r = joinWith [44] qs @ 125 # r'"
    show "map (\<lambda>(k, v). (k, norm v)) [] = map (\<lambda>(k, v). (k, norm v)) ns \<and> r = r'"
    proof (cases ns)
      case (Cons n ns')
      with e(2) obtain l q qs' where q: "qs = (encString l @ js '':'' @ q) # qs'"
        by (cases n) (auto simp: bindE_Inr)
      have "encString l @ 58 # q @ tailOf 125 qs' r' = 125 # r"
        using eq e(1) unfolding q join_tail member_split by simp
      with encString_hd [of l] show ?thesis by (cases "encString l") auto
    qed (use e eq in simp)
  qed
next
  case (13 k v ms)
  then show ?case by (intro reads_members_Cons)
next
  case 9
  then show ?case by (simp add: reads_val_def)
qed (simp_all add: reads_val_number reads_val_word reads_val_string)

lemma enc_norm:
  "enc (norm v) = enc v" "encItems (map norm vs) = encItems vs"
  "encMembers (map (\<lambda>(k, v). (k, norm v)) ms) = encMembers ms"
proof (induction v and vs and ms rule: enc_encItems_encMembers.induct)
  case (8 ms)
  have "sort_key fst (sort_key fst xs) = sort_key fst xs" for xs :: "(jsstr \<times> jsval) list"
    by (rule sort_key_id_if_sorted) simp
  with 8 show ?case by (simp add: sort_norm)
qed simp_all

lemma canonical_iff:
  assumes "enc v = Inr s" "enc w = Inr t" "valOk v" "valOk w"
  shows "s = t \<longleftrightarrow> norm v = norm w"
proof
  assume "s = t"
  with reads_valD [OF enc_reads(1) assms(1-4), of "[]" "[]"] show "norm v = norm w" by (simp add: ends_def)
next
  assume "norm v = norm w"
  then have "enc v = enc w" using enc_norm(1) by metis
  with assms show "s = t" by simp
qed

subsection \<open>Which values have a canonical form\<close>

fun jsonValue :: "jsval \<Rightarrow> bool" where
  "jsonValue JUndefined \<longleftrightarrow> False"
| "jsonValue JNonFinite \<longleftrightarrow> False"
| "jsonValue (JArr vs) \<longleftrightarrow> list_all jsonValue vs"
| "jsonValue (JObj ms) \<longleftrightarrow> list_all jsonValue (map snd ms)"
| "jsonValue _ \<longleftrightarrow> True"

lemma returns_bindE: "returns (bindE m f) \<longleftrightarrow> (\<exists>x. m = Inr x \<and> returns (f x))"
  by (cases m) auto

lemma enc_returns:
  "returns (enc v) \<longleftrightarrow> jsonValue v" "returns (encItems vs) \<longleftrightarrow> list_all jsonValue vs"
  "returns (encMembers ms) \<longleftrightarrow> list_all jsonValue (map snd ms)"
proof (induction v and vs and ms rule: enc_encItems_encMembers.induct)
  case (8 ms)
  then show ?case by (simp add: returns_bindE list_all_iff) (auto simp: returns_iff)
qed (auto simp: returns_bindE returns_iff bindE_Inr)

subsection \<open>Well-formed text\<close>

text \<open>A value whose strings have no lone surrogate.\<close>

fun wellFormedValue :: "jsval \<Rightarrow> bool" where
  "wellFormedValue (JStr s) \<longleftrightarrow> wellFormedUnits (map unat s)"
| "wellFormedValue (JArr vs) \<longleftrightarrow> list_all wellFormedValue vs"
| "wellFormedValue (JObj ms) \<longleftrightarrow> list_all (\<lambda>m. wellFormedUnits (map unat (fst m)) \<and> wellFormedValue (snd m)) ms"
| "wellFormedValue _ \<longleftrightarrow> True"

lemma wellFormed_append: "wellFormedUnits us \<Longrightarrow> wellFormedUnits vs \<Longrightarrow> wellFormedUnits (us @ vs)"
  by (induction us rule: wellFormedUnits.induct) (auto simp: wellFormedUnits.simps(2) split: if_splits list.splits)

lemma wellFormed_low: "list_all (\<lambda>u. u < 0xD800) us \<Longrightarrow> wellFormedUnits us"
  by (induction us) (auto simp: wellFormedUnits.simps(2) surrogates)

lemma encUnit_surrogate: "0xD800 \<le> u \<Longrightarrow> encUnit u = [u]"
  by (simp add: encUnit_def)

lemma encUnit_low: "u < 0xD800 \<Longrightarrow> list_all (\<lambda>u. u < 0xD800) (encUnit u)"
  by (auto simp: encUnit_def escapeU_def hex4_def hexCode_def)

lemma wellFormed_encUnits: "wellFormedUnits us \<Longrightarrow> wellFormedUnits (concat (map encUnit us))"
proof (induction us rule: wellFormedUnits.induct)
  case (2 u us)
  consider (lead) v vs where "isLead u" "us = v # vs" "isTrail v" "wellFormedUnits vs"
    | (plain) "\<not> isLead u" "\<not> isTrail u" "wellFormedUnits us"
    using "2.prems" by (auto simp: wellFormedUnits.simps(2) split: if_splits list.splits)
  then show ?case
  proof cases
    case lead
    with 2 have "wellFormedUnits (concat (map encUnit vs))" by blast
    with lead show ?thesis
      using encUnit_surrogate [of u] encUnit_surrogate [of v] by (simp add: wellFormedUnits.simps(2) surrogates)
  next
    case plain
    have "wellFormedUnits (encUnit u)"
    proof (cases "u < 0xD800")
      case True
      then show ?thesis by (intro wellFormed_low encUnit_low)
    qed (use plain encUnit_surrogate [of u] in \<open>simp add: wellFormedUnits.simps(2)\<close>)
    with 2 plain show ?thesis by (simp add: wellFormed_append)
  qed
qed simp

lemma wellFormed_encString: "wellFormedUnits (map unat s) \<Longrightarrow> wellFormedUnits (map unat (encString s))"
  unfolding map_unat_encString using wellFormed_encUnits [of "map unat s"] wellFormed_append [of _ "[34]"]
  by (simp add: wellFormedUnits.simps(2) surrogates)

lemma wellFormed_join:
  assumes "wellFormedUnits (map unat sep)" and "list_all (\<lambda>p. wellFormedUnits (map unat p)) ps"
  shows "wellFormedUnits (map unat (joinWith sep ps))"
  using assms(2)
proof (induction ps)
  case (Cons p ps)
  with assms(1) show ?case by (cases ps) (simp_all add: wellFormed_append)
qed simp

lemma low_units: "list_all (\<lambda>u. u < 0xD800) (map unat s) \<Longrightarrow> wellFormedUnits (map unat s)"
  by (rule wellFormed_low)

lemma wellFormed_ascii: "list_all (\<lambda>c. of_char c < (128 :: nat)) cs \<Longrightarrow> wellFormedUnits (map unat (js cs))"
  by (rule js_units)

lemma wellFormed_intString: "wellFormedUnits (map unat (intString i))"
proof -
  have "list_all (\<lambda>u. u < 0xD800) (map unat (intString i))"
    using intString_units(1) [of i] by (auto simp: list_all_iff isDigit_def)
  then show ?thesis by (rule low_units)
qed

lemma wellFormed_number: "list_all numberUnit t \<Longrightarrow> wellFormedUnits (map unat t)"
  by (rule low_units) (auto simp: list_all_iff numberUnit_def isDigit_def)

lemma enc_wellFormed:
  "enc v = Inr s \<Longrightarrow> valOk v \<Longrightarrow> wellFormedValue v \<Longrightarrow> wellFormedUnits (map unat s)"
  "encItems vs = Inr ps \<Longrightarrow> list_all valOk vs \<Longrightarrow> list_all wellFormedValue vs \<Longrightarrow>
     list_all (\<lambda>p. wellFormedUnits (map unat p)) ps"
  "encMembers ms = Inr qs \<Longrightarrow> list_all valOk (map snd ms) \<Longrightarrow>
     list_all (\<lambda>m. wellFormedUnits (map unat (fst m)) \<and> wellFormedValue (snd m)) ms \<Longrightarrow>
     list_all (\<lambda>p. wellFormedUnits (map unat p)) qs"
proof (induction v and vs and ms arbitrary: s and ps and qs rule: enc_encItems_encMembers.induct)
  case (7 vs)
  then obtain ps where s: "s = js ''['' @ joinWith (js '','') ps @ js '']''" and ps: "encItems vs = Inr ps"
    by (auto simp: bindE_Inr)
  have "list_all (\<lambda>p. wellFormedUnits (map unat p)) ps" using 7 ps by simp
  then have "wellFormedUnits (map unat (joinWith (js '','') ps))" by (intro wellFormed_join wellFormed_ascii) simp
  then show ?case unfolding s map_append by (intro wellFormed_append wellFormed_ascii) simp_all
next
  case (8 ms)
  then obtain ps where s: "s = js ''{'' @ joinWith (js '','') ps @ js ''}''" and ps: "encMembers (sort_key fst ms) = Inr ps"
    by (auto simp: bindE_Inr)
  have "list_all (\<lambda>p. wellFormedUnits (map unat p)) ps" using 8 ps by (simp add: list_all_iff)
  then have "wellFormedUnits (map unat (joinWith (js '','') ps))" by (intro wellFormed_join wellFormed_ascii) simp
  then show ?case unfolding s map_append by (intro wellFormed_append wellFormed_ascii) simp_all
next
  case (13 k v ms)
  then obtain p ps where p: "enc v = Inr p" "encMembers ms = Inr ps" and qs: "qs = (encString k @ js '':'' @ p) # ps"
    by (auto simp: bindE_Inr)
  have "wellFormedUnits (map unat (encString k @ js '':'' @ p))"
    unfolding map_append using 13 p by (intro wellFormed_append wellFormed_encString wellFormed_ascii) simp_all
  with 13 p show ?case by (simp add: qs)
qed (auto simp: bindE_Inr wellFormed_encString wellFormed_intString wellFormed_number wellFormed_ascii)

subsection \<open>Properties\<close>

text \<open>C37: The canonical form determines the value up to the order of members: two values the encoder
  accepts have the same canonical form exactly when they are equal once the members of every object
  are sorted. What a signature over the canonical form covers is therefore the whole document.\<close>

theorem canonical_form_determines_value:
  assumes "jcsCanonicalize v = Inr s" and "jcsCanonicalize w = Inr t" and "valOk v" and "valOk w"
  shows "s = t \<longleftrightarrow> norm v = norm w"
  using assms unfolding jcsCanonicalize_def by (rule canonical_iff)

theorem canonical_form_determines_value_witness:
  "\<exists>s. jcsCanonicalize (JObj [(js ''b'', JInt 1), (js ''a'', JNull)]) = Inr s \<and>
     jcsCanonicalize (JObj [(js ''a'', JNull), (js ''b'', JInt 1)]) = Inr s"
proof -
  let ?v = "JObj [(js ''b'', JInt 1), (js ''a'', JNull)]" and ?w = "JObj [(js ''a'', JNull), (js ''b'', JInt 1)]"
  obtain s t where e: "jcsCanonicalize ?v = Inr s" "jcsCanonicalize ?w = Inr t"
    by (simp add: jcsCanonicalize_def js_def)
  have "norm ?v = norm ?w" by (simp add: js_def)
  with canonical_form_determines_value [OF e] have "s = t" by (simp add: js_def)
  with e show ?thesis by simp
qed

text \<open>C39: Which values can be signed: the canonical form exists exactly for values built from \<open>null\<close>, booleans,
  finite numbers, strings, arrays and objects, all the way down; \<open>undefined\<close> and numbers JSON cannot
  express make the encoder throw.\<close>

theorem canonical_form_exists: "(\<exists>s. jcsCanonicalize v = Inr s) \<longleftrightarrow> jsonValue v"
  using enc_returns(1) [of v] by (simp only: jcsCanonicalize_def returns_iff)

end
