(* ===== verification/Base58.thy ===== *)
theory Base58
  imports Js_Strings
begin

text \<open>
  The base58btc encoding of proof values, \<open>base58btcEncode\<close> and \<open>base58btcDecode\<close> of
  \<open>packages/core/src/trust-tasks/canonical.ts\<close>. Both are one change of base over a little-endian list of
  digits, with the leading zeros kept apart; the fact is that they are inverse to each other.
\<close>

definition B58_ALPHABET :: jsstr where
  "B58_ALPHABET = js ''123456789ABCDEFGHJKLMNPQRSTUVWXYZabcdefghijkmnopqrstuvwxyz''"

text \<open>\<open>while (carry > 0)\<close>: the digits of the carry are pushed.\<close>

function pushCarry :: "nat \<Rightarrow> nat \<Rightarrow> nat list" where
  "pushCarry b carry = (if b < 2 \<or> carry = 0 then [] else carry mod b # pushCarry b (carry div b))"
  by auto

termination by (relation "measure snd") auto

declare pushCarry.simps [simp del]

text \<open>The inner loop: every digit is multiplied by \<open>a\<close>, the carry added, and reduced to base \<open>b\<close>.\<close>

fun carryLoop :: "nat \<Rightarrow> nat \<Rightarrow> nat \<Rightarrow> nat list \<Rightarrow> nat list" where
  "carryLoop a b carry [] = pushCarry b carry"
| "carryLoop a b carry (d # ds) =
     (let c = carry + d * a in c mod b # carryLoop a b (c div b) ds)"

definition base58btcEncode :: "bytes \<Rightarrow> jsstr" where
  "base58btcEncode bs =
     (let zeros = length (takeWhile (\<lambda>b. b = 0) bs);
          digits = foldl (\<lambda>ds b. carryLoop 256 58 (unat b) ds) [] bs
      in replicate zeros (B58_ALPHABET ! 0) @ map (\<lambda>d. B58_ALPHABET ! d) (rev digits))"

text \<open>The values of the characters; \<open>Inl\<close> is the character that is thrown about.\<close>

fun b58Values :: "jsstr \<Rightarrow> 16 word + nat list" where
  "b58Values [] = Inr []"
| "b58Values (ch # s) =
     (case indexOf ch B58_ALPHABET of
        None \<Rightarrow> Inl ch
      | Some v \<Rightarrow> bindE (b58Values s) (\<lambda>vs. Inr (v # vs)))"

definition base58btcDecode :: "jsstr \<Rightarrow> 16 word + bytes" where
  "base58btcDecode s =
     (let zeros = length (takeWhile (\<lambda>ch. [ch] = js ''1'') s) in
      bindE (b58Values s) (\<lambda>vs.
      let bs = foldl (\<lambda>ds v. carryLoop 58 256 v ds) [] vs
      in Inr (replicate zeros 0 @ map word_of_nat (rev bs))))"

subsection \<open>Digits and their value\<close>

fun valueOf :: "nat \<Rightarrow> nat list \<Rightarrow> nat" where
  "valueOf b [] = 0"
| "valueOf b (d # ds) = d + b * valueOf b ds"

definition canonicalDigits :: "nat \<Rightarrow> nat list \<Rightarrow> bool" where
  "canonicalDigits b ds \<longleftrightarrow> (\<forall>d \<in> set ds. d < b) \<and> (ds \<noteq> [] \<longrightarrow> last ds \<noteq> 0)"

lemma pushCarry_value: "2 \<le> b \<Longrightarrow> valueOf b (pushCarry b c) = c"
proof (induction b c rule: pushCarry.induct)
  case (1 b c)
  then show ?case by (cases "c = 0") (simp_all add: pushCarry.simps [of b c] pushCarry.simps [of b 0])
qed

lemma pushCarry_canonical: "2 \<le> b \<Longrightarrow> canonicalDigits b (pushCarry b c)"
proof (induction b c rule: pushCarry.induct)
  case (1 b c)
  show ?case
  proof (cases "c = 0")
    case False
    with 1 have ih: "canonicalDigits b (pushCarry b (c div b))" by simp
    have "pushCarry b (c div b) = [] \<longleftrightarrow> c < b" using 1(2) by (simp add: pushCarry.simps [of b "c div b"] div_eq_0_iff)
    with ih False 1(2) show ?thesis by (simp add: pushCarry.simps [of b c] canonicalDigits_def)
  qed (simp add: pushCarry.simps canonicalDigits_def)
qed

lemma carryLoop_value: "2 \<le> b \<Longrightarrow> valueOf b (carryLoop a b c ds) = c + a * valueOf b ds"
proof (induction a b c ds rule: carryLoop.induct)
  case (2 a b c d ds)
  let ?x = "c + d * a"
  have "valueOf b (carryLoop a b c (d # ds)) = ?x mod b + b * (?x div b + a * valueOf b ds)"
    using 2 by (simp add: Let_def)
  also have "\<dots> = (?x mod b + b * (?x div b)) + a * (b * valueOf b ds)" by (simp add: algebra_simps)
  also have "?x mod b + b * (?x div b) = ?x" by simp
  finally show ?case by (simp add: algebra_simps)
qed (simp add: pushCarry_value)

lemma carryLoop_canonical: "2 \<le> b \<Longrightarrow> 1 \<le> a \<Longrightarrow> canonicalDigits b ds \<Longrightarrow> canonicalDigits b (carryLoop a b c ds)"
proof (induction a b c ds rule: carryLoop.induct)
  case (2 a b c d ds)
  let ?x = "c + d * a"
  show ?case
  proof (cases "ds = []")
    case True
    with 2 have d: "d \<noteq> 0" by (simp add: canonicalDigits_def)
    have "canonicalDigits b (pushCarry b (?x div b))" using 2 by (simp add: pushCarry_canonical)
    moreover have "pushCarry b (?x div b) = [] \<longleftrightarrow> ?x < b"
      using 2(2) by (simp add: pushCarry.simps [of b "?x div b"] div_eq_0_iff)
    moreover have "?x \<noteq> 0" using d 2(3) by simp
    ultimately show ?thesis using True 2(2) by (simp add: canonicalDigits_def Let_def)
  next
    case False
    with 2 have "canonicalDigits b (carryLoop a b (?x div b) ds)" by (simp add: canonicalDigits_def Let_def)
    moreover have "carryLoop a b (?x div b) ds \<noteq> []" using False by (cases ds) (simp_all add: Let_def)
    ultimately show ?thesis using 2(2) by (simp add: canonicalDigits_def Let_def)
  qed
qed (simp add: pushCarry_canonical)

lemma canonical_zero: "canonicalDigits b ds \<Longrightarrow> 2 \<le> b \<Longrightarrow> valueOf b ds = 0 \<Longrightarrow> ds = []"
proof (induction ds)
  case (Cons d ds)
  then show ?case by (cases "ds = []") (auto simp: canonicalDigits_def)
qed simp

lemma digits_unique:
  "canonicalDigits b ds \<Longrightarrow> canonicalDigits b es \<Longrightarrow> 2 \<le> b \<Longrightarrow> valueOf b ds = valueOf b es \<Longrightarrow> ds = es"
proof (induction ds arbitrary: es)
  case Nil
  then have "valueOf b es = 0" by simp
  with Nil.prems canonical_zero [of b es] show ?case by simp
next
  case (Cons d ds)
  show ?case
  proof (cases es)
    case Nil
    with Cons.prems canonical_zero [of b "d # ds"] show ?thesis by simp
  next
    case (Cons e es')
    from Cons.prems(1,2) Cons have lt: "d < b" "e < b" by (simp_all add: canonicalDigits_def)
    have eq: "d + b * valueOf b ds = e + b * valueOf b es'" using Cons.prems(4) Cons by simp
    then have "(d + b * valueOf b ds) mod b = (e + b * valueOf b es') mod b" by simp
    with lt have de: "d = e" by simp
    with eq Cons.prems(3) have "valueOf b ds = valueOf b es'" by simp
    moreover have "canonicalDigits b ds" "canonicalDigits b es'"
      using Cons.prems(1,2) Cons by (auto simp: canonicalDigits_def split: if_splits)
    ultimately have "ds = es'" using Cons.prems(3) by (intro Cons.IH)
    with Cons de show ?thesis by simp
  qed
qed

subsection \<open>Change of base\<close>

definition toBase :: "nat \<Rightarrow> nat \<Rightarrow> nat list \<Rightarrow> nat list" where
  "toBase a b ds = foldl (\<lambda>acc d. carryLoop a b d acc) [] ds"

definition rebase :: "nat \<Rightarrow> nat \<Rightarrow> nat list \<Rightarrow> nat list" where
  "rebase a b ds = replicate (length (takeWhile (\<lambda>d. d = 0) ds)) 0 @ rev (toBase a b ds)"

lemma valueOf_append: "valueOf b (ds @ es) = valueOf b ds + b ^ length ds * valueOf b es"
  by (induction ds) (simp_all add: algebra_simps)

lemma toBase_facts:
  "2 \<le> b \<Longrightarrow> 1 \<le> a \<Longrightarrow> valueOf b (toBase a b ds) = valueOf a (rev ds) \<and> canonicalDigits b (toBase a b ds)"
proof (induction ds rule: rev_induct)
  case (snoc d ds)
  then show ?case by (simp add: toBase_def carryLoop_value carryLoop_canonical)
qed (simp add: toBase_def canonicalDigits_def)

lemma stripped_canonical:
  "\<forall>d \<in> set ds. d < a \<Longrightarrow> canonicalDigits a (rev (dropWhile (\<lambda>d. d = 0) ds))"
proof -
  assume a: "\<forall>d \<in> set ds. d < a"
  have "dropWhile (\<lambda>d. d = 0) ds \<noteq> [] \<Longrightarrow> hd (dropWhile (\<lambda>d. d = 0) ds) \<noteq> 0"
    using hd_dropWhile [of "\<lambda>d. d = 0" ds] by simp
  with a show ?thesis by (auto simp: canonicalDigits_def last_rev dest: set_dropWhileD)
qed

lemma leading_zeros: "takeWhile (\<lambda>d. d = 0) ds = replicate (length (takeWhile (\<lambda>d. d = 0) ds)) (0 :: nat)"
  by (induction ds) auto

lemma valueOf_replicate: "valueOf a (replicate n 0) = 0"
  by (induction n) simp_all

lemma valueOf_zeros: "valueOf a (ds @ replicate n 0) = valueOf a ds"
  by (simp add: valueOf_append valueOf_replicate)

lemma stripped_value: "valueOf a (rev (dropWhile (\<lambda>d. d = 0) ds)) = valueOf a (rev ds)"
proof -
  have "rev ds = rev (dropWhile (\<lambda>d. d = 0) ds) @ replicate (length (takeWhile (\<lambda>d. d = 0) ds)) 0"
    using leading_zeros [of ds] by (metis rev_append rev_replicate takeWhile_dropWhile_id)
  then show ?thesis using valueOf_zeros by metis
qed

lemma canonical_leading: "canonicalDigits b ds \<Longrightarrow> takeWhile (\<lambda>d. d = 0) (replicate n 0 @ rev ds) = replicate n 0"
proof -
  assume "canonicalDigits b ds"
  then have "takeWhile (\<lambda>d. d = 0) (rev ds) = []"
    by (cases ds rule: rev_cases) (auto simp: canonicalDigits_def)
  then show ?thesis by (induction n) simp_all
qed

lemma rebase_back:
  assumes "2 \<le> a" "2 \<le> b" "\<forall>d \<in> set ds. d < a"
  shows "rebase b a (rebase a b ds) = ds"
proof -
  let ?n = "length (takeWhile (\<lambda>d. d = 0) ds)"
  have f: "valueOf b (toBase a b ds) = valueOf a (rev ds)" "canonicalDigits b (toBase a b ds)"
    using toBase_facts [of b a ds] assms by simp_all
  have g: "valueOf a (toBase b a (rebase a b ds)) = valueOf b (rev (rebase a b ds))"
    "canonicalDigits a (toBase b a (rebase a b ds))"
    using toBase_facts [of a b "rebase a b ds"] assms by simp_all
  have "valueOf b (rev (rebase a b ds)) = valueOf a (rev ds)" using f(1) by (simp add: rebase_def valueOf_zeros)
  with g stripped_value have "toBase b a (rebase a b ds) = rev (dropWhile (\<lambda>d. d = 0) ds)"
    by (intro digits_unique [OF g(2) stripped_canonical [OF assms(3)] assms(1)]) simp
  moreover have "takeWhile (\<lambda>d. d = 0) (rebase a b ds) = replicate ?n 0"
    unfolding rebase_def by (rule canonical_leading [OF f(2)])
  ultimately have "rebase b a (rebase a b ds) = replicate ?n 0 @ dropWhile (\<lambda>d. d = 0) ds"
    by (simp add: rebase_def [of b a])
  then show ?thesis using leading_zeros [of ds] by (metis takeWhile_dropWhile_id)
qed

lemma rebase_digits: "2 \<le> b \<Longrightarrow> 1 \<le> a \<Longrightarrow> d \<in> set (rebase a b ds) \<Longrightarrow> d < b"
  using toBase_facts [of b a ds] by (auto simp: rebase_def canonicalDigits_def)

subsection \<open>The alphabet\<close>

lemma alphabet: "length B58_ALPHABET = 58" "distinct B58_ALPHABET" "B58_ALPHABET ! 0 = hd (js ''1'')"
  by (simp_all add: B58_ALPHABET_def js_def)

lemma indexOf_at: "distinct xs \<Longrightarrow> i < length xs \<Longrightarrow> indexOf (xs ! i) xs = Some i"
proof (induction xs arbitrary: i)
  case (Cons x xs)
  show ?case
  proof (cases i)
    case (Suc j)
    with Cons.prems have "x \<noteq> xs ! j" by (metis distinct.simps(2) length_Cons not_less_eq nth_mem)
    with Suc Cons show ?thesis by simp
  qed simp
qed simp

lemma indexOf_value: "indexOf c xs = Some i \<Longrightarrow> i < length xs \<and> xs ! i = c"
  by (induction xs arbitrary: i) (auto split: if_splits)

lemma indexOf_nth: "distinct xs \<Longrightarrow> indexOf c xs = Some i \<longleftrightarrow> i < length xs \<and> xs ! i = c"
  using indexOf_at [of xs i] indexOf_value [of c xs i] by blast

lemma b58Values_iff: "b58Values s = Inr vs \<longleftrightarrow> (\<forall>v \<in> set vs. v < 58) \<and> s = map (\<lambda>d. B58_ALPHABET ! d) vs"
proof (induction s arbitrary: vs)
  case (Cons c s)
  show ?case
  proof (cases vs)
    case (Cons v vs')
    show ?thesis
      unfolding Cons using indexOf_nth [OF alphabet(2), of c v] alphabet(1) Cons.IH [of vs']
      by (auto simp: bindE_Inr split: option.splits)
  qed (auto simp: bindE_Inr split: option.splits)
qed auto

lemma b58_encode_eq: "base58btcEncode bs = map (\<lambda>d. B58_ALPHABET ! d) (rebase 256 58 (map unat bs))"
proof -
  have z: "length (takeWhile (\<lambda>b. b = 0) bs) = length (takeWhile (\<lambda>d. d = 0) (map unat bs))"
    by (induction bs) (simp_all add: unat_eq_0)
  have "foldl (\<lambda>ds b. carryLoop 256 58 (unat b) ds) acc bs = foldl (\<lambda>acc d. carryLoop 256 58 d acc) acc (map unat bs)" for acc
    by (induction bs arbitrary: acc) simp_all
  then show ?thesis by (simp add: base58btcEncode_def rebase_def toBase_def z Let_def)
qed

lemma b58_decode_eq: "base58btcDecode (map (\<lambda>d. B58_ALPHABET ! d) vs) = Inr (map word_of_nat (rebase 58 256 vs))"
  if "\<forall>v \<in> set vs. v < 58"
proof -
  have "takeWhile (\<lambda>ch. [ch] = js ''1'') (map (\<lambda>d. B58_ALPHABET ! d) vs) =
      map (\<lambda>d. B58_ALPHABET ! d) (takeWhile (\<lambda>d. d = 0) vs)"
    using that
  proof (induction vs)
    case (Cons v vs)
    have "[B58_ALPHABET ! v] = js ''1'' \<longleftrightarrow> B58_ALPHABET ! v = B58_ALPHABET ! 0"
      unfolding alphabet(3) by (simp add: js_def)
    also have "\<dots> \<longleftrightarrow> v = 0" using Cons.prems alphabet(1,2) by (simp add: nth_eq_iff_index_eq)
    finally show ?case using Cons by simp
  qed simp
  moreover have "b58Values (map (\<lambda>d. B58_ALPHABET ! d) vs) = Inr vs" using that by (simp add: b58Values_iff)
  ultimately show ?thesis by (simp add: base58btcDecode_def rebase_def toBase_def)
qed

lemma unat_of_digits: "\<forall>d \<in> set ds. d < 256 \<Longrightarrow> map (unat \<circ> (word_of_nat :: nat \<Rightarrow> byte)) ds = ds"
  by (induction ds) (simp_all add: unat_of_nat)

lemma b58_decode_iff: "base58btcDecode s = Inr bs \<longleftrightarrow> s = base58btcEncode bs"
proof
  assume d: "base58btcDecode s = Inr bs"
  then obtain vs where vs: "b58Values s = Inr vs" by (auto simp: base58btcDecode_def bindE_Inr Let_def)
  then have lt: "\<forall>v \<in> set vs. v < 58" and s: "s = map (\<lambda>d. B58_ALPHABET ! d) vs" by (simp_all add: b58Values_iff)
  from d have "bs = map word_of_nat (rebase 58 256 vs)" unfolding s b58_decode_eq [OF lt] by simp
  moreover have "\<forall>d \<in> set (rebase 58 256 vs). d < 256" using rebase_digits [of 256 58] by simp
  ultimately have "map unat bs = rebase 58 256 vs" by (simp add: unat_of_digits)
  then show "s = base58btcEncode bs" using rebase_back [of 58 256 vs] lt by (simp add: b58_encode_eq s)
next
  assume s: "s = base58btcEncode bs"
  let ?ds = "rebase 256 58 (map unat bs)"
  have "\<forall>d \<in> set ?ds. d < 58" using rebase_digits [of 58 256] by simp
  from b58_decode_eq [OF this] have "base58btcDecode s = Inr (map word_of_nat (rebase 58 256 ?ds))"
    by (simp add: s b58_encode_eq)
  moreover have "\<forall>d \<in> set (map unat bs). d < 256" using unsigned_less [where 'b = 8] by fastforce
  ultimately show "base58btcDecode s = Inr bs" using rebase_back [of 256 58 "map unat bs"] by (simp add: comp_def)
qed

subsection \<open>Properties\<close>

text \<open>Decoding accepts exactly the strings that encoding produces and is its inverse: leading zeros
  included, every byte string has one base58btc form and every accepted string is that form.\<close>

theorem base58_exact: "base58btcDecode s = Inr bs \<longleftrightarrow> s = base58btcEncode bs"
  by (rule b58_decode_iff)

end
