(* ===== verification/Js_Object.thy ===== *)
theory Js_Object
  imports Js_Json Js_Strings
begin

text \<open>
  Objects and dates of the language as the document code uses them: property access, copies with a
  member left out or set, truthiness, \<open>find\<close> and \<open>some\<close> with a callback that may throw, and
  \<open>toISOString\<close>. A property that is not there reads as \<open>JUndefined\<close>.
\<close>

type_synonym members = "(jsstr \<times> jsval) list"

subsection \<open>Members\<close>

definition getMember :: "members \<Rightarrow> jsstr \<Rightarrow> jsval" where
  "getMember ms k = (case map_of ms k of Some v \<Rightarrow> v | None \<Rightarrow> JUndefined)"

definition getProp :: "jsval \<Rightarrow> jsstr \<Rightarrow> jsval" where
  "getProp v k = (case v of JObj ms \<Rightarrow> getMember ms k | _ \<Rightarrow> JUndefined)"

text \<open>\<open>delete copy[k]\<close> on a copy made with the spread operator.\<close>

definition delMember :: "jsstr \<Rightarrow> members \<Rightarrow> members" where
  "delMember k ms = filter (\<lambda>m. fst m \<noteq> k) ms"

text \<open>\<open>o[k] = v\<close>: in place when the member is there, at the end when it is not.\<close>

definition setMember :: "jsstr \<Rightarrow> jsval \<Rightarrow> members \<Rightarrow> members" where
  "setMember k v ms =
     (if k \<in> fst ` set ms then map (\<lambda>m. if fst m = k then (k, v) else m) ms else ms @ [(k, v)])"

fun isNullish :: "jsval \<Rightarrow> bool" where
  "isNullish JNull = True"
| "isNullish JUndefined = True"
| "isNullish _ = False"

text \<open>\<open>typeof v === "object" && v !== null\<close>.\<close>

fun isObject :: "jsval \<Rightarrow> bool" where
  "isObject (JObj _) = True"
| "isObject (JArr _) = True"
| "isObject _ = False"

text \<open>Non-finite numbers do not occur in documents that were read from JSON; they count as true here.\<close>

fun truthy :: "jsval \<Rightarrow> bool" where
  "truthy JNull = False"
| "truthy JUndefined = False"
| "truthy (JBool b) = b"
| "truthy (JInt i) = (i \<noteq> 0)"
| "truthy (JStr s) = (s \<noteq> [])"
| "truthy _ = True"

fun asString :: "jsval \<Rightarrow> jsstr option" where
  "asString (JStr s) = Some s"
| "asString _ = None"

lemma asString_Some [simp]: "asString v = Some s \<longleftrightarrow> v = JStr s"
  by (cases v) auto

lemma getProp_JObj [simp]: "getProp (JObj ms) k = getMember ms k"
  by (simp add: getProp_def)

lemma getMember_Nil [simp]: "getMember [] k = JUndefined"
  by (simp add: getMember_def)

lemma getMember_Cons: "getMember ((k', v) # ms) k = (if k = k' then v else getMember ms k)"
  by (simp add: getMember_def)

lemma getMember_delMember: "getMember (delMember k ms) j = (if j = k then JUndefined else getMember ms j)"
  by (induction ms) (auto simp: delMember_def getMember_def)

lemma getMember_replace:
  "k \<in> fst ` set ms \<Longrightarrow> getMember (map (\<lambda>m. if fst m = k then (k, v) else m) ms) j = (if j = k then v else getMember ms j)"
proof (induction ms)
  case (Cons m ms)
  show ?case
  proof (cases "k \<in> fst ` set ms")
    case False
    then have "map (\<lambda>m. if fst m = k then (k, v) else m) ms = ms" by (intro map_idI) (metis image_eqI)
    with Cons.prems False show ?thesis by (cases m) (auto simp: getMember_Cons)
  qed (use Cons in \<open>cases m, auto simp: getMember_Cons\<close>)
qed simp

lemma getMember_snoc: "k \<notin> fst ` set ms \<Longrightarrow> getMember (ms @ [(k, v)]) j = (if j = k then v else getMember ms j)"
proof (induction ms)
  case (Cons m ms)
  then show ?case by (cases m) (auto simp: getMember_Cons)
qed (simp add: getMember_Cons)

lemma getMember_setMember: "getMember (setMember k v ms) j = (if j = k then v else getMember ms j)"
  unfolding setMember_def by (cases "k \<in> fst ` set ms") (simp_all add: getMember_replace getMember_snoc)

lemma delMember_replace: "delMember k (map (\<lambda>m. if fst m = k then (k, v) else m) ms) = delMember k ms"
  by (induction ms) (simp_all add: delMember_def)

lemma delMember_setMember [simp]: "delMember k (setMember k v ms) = delMember k ms"
  unfolding setMember_def by (auto simp: delMember_replace) (simp add: delMember_def)

lemma delMember_idem [simp]: "delMember k (delMember k ms) = delMember k ms"
  by (simp add: delMember_def)

subsection \<open>Searching with a callback that may throw\<close>

fun findE :: "('a \<Rightarrow> 'e + bool) \<Rightarrow> 'a list \<Rightarrow> 'e + 'a option" where
  "findE p [] = Inr None"
| "findE p (x # xs) = bindE (p x) (\<lambda>b. if b then Inr (Some x) else findE p xs)"

definition someE :: "('a \<Rightarrow> 'e + bool) \<Rightarrow> 'a list \<Rightarrow> 'e + bool" where
  "someE p xs = bindE (findE p xs) (\<lambda>m. Inr (m \<noteq> None))"

lemma findE_Some: "findE p xs = Inr (Some x) \<Longrightarrow> x \<in> set xs \<and> p x = Inr True"
  by (induction xs) (auto simp: bindE_Inr split: if_splits)

lemma someE_True: "someE p xs = Inr True \<Longrightarrow> \<exists>x \<in> set xs. p x = Inr True"
  by (auto simp: someE_def bindE_Inr dest: findE_Some)

subsection \<open>Dates\<close>

definition padded :: "nat \<Rightarrow> nat \<Rightarrow> string" where
  "padded w n = replicate (w - length (natString n)) (char_of (48 :: nat)) @ natString n"

text \<open>Year, month and day of a number of days since 1970-01-01, in the proleptic Gregorian calendar
  the language uses.\<close>

definition civil :: "int \<Rightarrow> int \<times> nat \<times> nat" where
  "civil days =
     (let z = days + 719468;
          doe = z mod 146097;
          yoe = (doe - doe div 1460 + doe div 36524 - doe div 146096) div 365;
          doy = doe - (365 * yoe + yoe div 4 - yoe div 100);
          mp = (5 * doy + 2) div 153;
          m = (if mp < 10 then mp + 3 else mp - 9)
      in (yoe + 400 * (z div 146097) + (if m \<le> 2 then 1 else 0), nat m, nat (doy - (153 * mp + 2) div 5 + 1)))"

text \<open>\<open>new Date(ms).toISOString()\<close>; \<open>None\<close> is the \<open>RangeError\<close> of a time value out of range.\<close>

definition toISOString :: "int \<Rightarrow> jsstr option" where
  "toISOString ms =
     (if \<bar>ms\<bar> > 8640000000000000 then None
      else let t = nat (ms mod 86400000); (y, m, d) = civil (ms div 86400000)
           in Some (js ((if 0 \<le> y \<and> y \<le> 9999 then padded 4 (nat y)
                         else (if y < 0 then ''-'' else ''+'') @ padded 6 (nat \<bar>y\<bar>)) @
                ''-'' @ padded 2 m @ ''-'' @ padded 2 d @ ''T'' @ padded 2 (t div 3600000) @ '':'' @
                padded 2 (t div 60000 mod 60) @ '':'' @ padded 2 (t div 1000 mod 60) @ ''.'' @
                padded 3 (t mod 1000) @ ''Z'')))"

lemma natString_step: "10 \<le> n \<Longrightarrow> natString n = natString (n div 10) @ [char_of (48 + n mod 10)]"
  by (simp add: natString.simps [of n])

lemmas numerals_of = natString_digit natString_step padded_def

lemma civil_epoch: "civil 0 = (1970, 1, 1)" "civil 19782 = (2024, 2, 29)"
  by code_simp+

lemma replicate_two: "replicate 2 x = [x, x]"
  by (simp add: numeral_2_eq_2)

lemma toISOString_epoch: "toISOString 0 = Some (js ''1970-01-01T00:00:00.000Z'')"
  by (simp add: toISOString_def civil_epoch numerals_of js_def replicate_two)

lemma toISOString_leap_day: "toISOString 1709208000123 = Some (js ''2024-02-29T12:00:00.123Z'')"
  by (simp add: toISOString_def civil_epoch numerals_of js_def replicate_two)

end
