(* ===== verification/Data_Integrity.thy ===== *)
theory Data_Integrity
  imports Js_Object Jcs Base58 Hpke
begin

text \<open>
  Data Integrity proofs (\<open>eddsa-jcs-2022\<close>) on trust-task documents: \<open>signTrustTask\<close> of
  \<open>packages/core/src/trust-tasks/sign.ts\<close>, \<open>verifyTrustTaskProof\<close> of \<open>verify.ts\<close> and the purpose a
  document is signed for (\<open>purpose.ts\<close>). A document is the members of its object. DID resolution and
  the helpers of \<open>@openvtc/vti-didcomm-js\<close> are the record \<open>didLib\<close>, Ed25519 and SHA-256 are those of
  \<open>crypto\<close>; the key of the signer is an argument and the time is the clock's milliseconds.
\<close>

subsection \<open>What the code calls\<close>

text \<open>An exception inside the resolution: the engine's \<open>TypeError\<close>, or one that was thrown with a message.\<close>

datatype failure = TypeErr | Thrown jsstr

record didLib =
  resolveDid :: "jsstr \<Rightarrow> failure + jsval"
  didKeyResolve :: "jsstr \<Rightarrow> failure + jsval"
  decodeMultikey :: "jsval \<Rightarrow> failure + (bytes \<times> bytes)"
  ed25519Pub :: bytes
  sameReference :: "jsval \<Rightarrow> jsstr \<Rightarrow> failure + bool"
  stripScidSrc :: "jsstr \<Rightarrow> jsstr"

datatype reason =
    NoProof | UnsupportedSuite jsval jsval | PurposeMismatch jsval jsstr | BadVerificationMethod | BadProofValue
  | ResolutionFailed failure | NotListedUnder jsstr jsstr jsstr | BadSignatureLength nat | SignatureFailed

datatype verifyResult = Verified jsstr | Unverified "jsstr option" reason

fun verifiedSigner :: "verifyResult \<Rightarrow> jsstr option" where
  "verifiedSigner (Verified s) = Some s"
| "verifiedSigner (Unverified _ _) = None"

text \<open>What escapes as an exception instead of a result.\<close>

datatype diError = Canonical jcsError | BadCharacter "16 word" | Primitive tsp_error | Library failure | BadDate | SignatureLength nat

fun mapErr :: "('e \<Rightarrow> 'f) \<Rightarrow> 'e + 'a \<Rightarrow> 'f + 'a" where
  "mapErr f (Inl e) = Inl (f e)"
| "mapErr f (Inr x) = Inr x"

lemma mapErr_Inr [simp]: "mapErr f m = Inr x \<longleftrightarrow> m = Inr x"
  by (cases m) auto

subsection \<open>The signing input\<close>

definition hashOf :: "crypto \<Rightarrow> members \<Rightarrow> diError + bytes" where
  "hashOf C ms = bindE (mapErr Canonical (jcsCanonicalize (JObj ms))) (\<lambda>s. Inr (sha256 C (textEncode s)))"

definition signingInput :: "crypto \<Rightarrow> members \<Rightarrow> members \<Rightarrow> diError + bytes" where
  "signingInput C proofConfig doc =
     bindE (hashOf C proofConfig) (\<lambda>proofConfigHash.
     bindE (hashOf C doc) (\<lambda>docHash. Inr (proofConfigHash @ docHash)))"

subsection \<open>Verification\<close>

definition controllerOf :: "jsstr \<Rightarrow> jsstr" where
  "controllerOf vm = takeWhile (\<lambda>u. [u] \<noteq> js ''#'') vm"

definition fragmentOf :: "jsstr \<Rightarrow> jsstr" where
  "fragmentOf vm = dropWhile (\<lambda>u. [u] \<noteq> js ''#'') vm"

definition hasHash :: "jsstr \<Rightarrow> bool" where
  "hasHash vm \<longleftrightarrow> fragmentOf vm \<noteq> []"

text \<open>\<open>names\<close> and the callback of \<open>some\<close> in \<open>listsMethodUnder\<close>.\<close>

definition namesMethod :: "didLib \<Rightarrow> jsstr \<Rightarrow> jsval \<Rightarrow> failure + bool" where
  "namesMethod L vm i =
     (case i of
        JStr s \<Rightarrow> bindE (sameReference L i vm) (\<lambda>same. Inr (same \<or> hasHash vm \<and> s = fragmentOf vm))
      | _ \<Rightarrow> Inr False)"

definition entryNames :: "didLib \<Rightarrow> jsstr \<Rightarrow> jsval \<Rightarrow> failure + bool" where
  "entryNames L vm entry =
     (case entry of
        JStr _ \<Rightarrow> namesMethod L vm entry
      | _ \<Rightarrow> if isObject entry then namesMethod L vm (getProp entry (js ''id'')) else Inr False)"

definition listsMethodUnder :: "didLib \<Rightarrow> jsval \<Rightarrow> jsstr \<Rightarrow> jsstr \<Rightarrow> failure + bool" where
  "listsMethodUnder L doc vm relationship =
     (case getProp doc relationship of
        JArr entries \<Rightarrow> someE (entryNames L vm) entries
      | _ \<Rightarrow> Inr False)"

text \<open>\<open>m.id\<close> of an element, which throws on \<open>null\<close>; \<open>endsWith\<close> throws on what is not a string.\<close>

definition idOf :: "jsval \<Rightarrow> failure + jsval" where
  "idOf m = throwIf (isNullish m) TypeErr (Inr (getProp m (js ''id'')))"

definition idEndsWith :: "jsstr \<Rightarrow> jsval \<Rightarrow> failure + bool" where
  "idEndsWith frag m = bindE (idOf m) (\<lambda>i. case i of JStr s \<Rightarrow> Inr (endsWith s frag) | _ \<Rightarrow> Inl TypeErr)"

definition findMethod :: "didLib \<Rightarrow> jsstr \<Rightarrow> jsval list \<Rightarrow> failure + jsval option" where
  "findMethod L vm methods =
     bindE (findE (\<lambda>m. bindE (idOf m) (\<lambda>i. sameReference L i vm)) methods) (\<lambda>found.
     case found of Some m \<Rightarrow> Inr (Some m) | None \<Rightarrow> findE (idEndsWith (fragmentOf vm)) methods)"

definition methodsOf :: "jsval \<Rightarrow> failure + jsval list" where
  "methodsOf doc =
     throwIf (isNullish doc) TypeErr
       (case getProp doc (js ''verificationMethod'') of
          JArr ms \<Rightarrow> Inr ms
        | v \<Rightarrow> if isNullish v then Inr [] else Inl TypeErr)"

fun at :: "'a list \<Rightarrow> nat \<Rightarrow> 'a option" where
  "at xs i = (if i < length xs then Some (xs ! i) else None)"

definition keyOfMethod :: "didLib \<Rightarrow> jsstr \<Rightarrow> jsval option \<Rightarrow> failure + bytes" where
  "keyOfMethod L vm m =
     (let pkm = (case m of Some v \<Rightarrow> getProp v (js ''publicKeyMultibase'') | None \<Rightarrow> JUndefined) in
      throwIf (\<not> truthy pkm)
        (Thrown (js ''verificationMethod '' @ vm @ js '' not found or missing publicKeyMultibase''))
      (bindE (decodeMultikey L pkm) (\<lambda>(codec, key).
       throwIf (at codec 0 \<noteq> at (ed25519Pub L) 0 \<or> at codec 1 \<noteq> at (ed25519Pub L) 1)
         (Thrown (js ''verificationMethod key is not Ed25519'')) (Inr key))))"

definition documentOf :: "didLib \<Rightarrow> jsstr \<Rightarrow> failure + jsval" where
  "documentOf L controller =
     (if startsWith controller (js ''did:key:'') then didKeyResolve L controller else resolveDid L controller)"

definition resolveEd25519Key :: "didLib \<Rightarrow> jsstr \<Rightarrow> jsstr \<Rightarrow> failure + (bytes \<times> jsval)" where
  "resolveEd25519Key L vm controller =
     bindE (documentOf L controller) (\<lambda>doc.
     bindE (methodsOf doc) (\<lambda>methods.
     bindE (findMethod L vm methods) (\<lambda>m.
     bindE (keyOfMethod L vm m) (\<lambda>key. Inr (key, doc)))))"

text \<open>The part after the key is known: the signing input is rebuilt and the signature checked.\<close>

definition checkSignature :: "crypto \<Rightarrow> members \<Rightarrow> members \<Rightarrow> jsstr \<Rightarrow> bytes \<Rightarrow> jsstr \<Rightarrow> diError + verifyResult" where
  "checkSignature C proof document proofValue key signer =
     bindE (signingInput C (delMember (js ''proofValue'') proof) (delMember (js ''proof'') document)) (\<lambda>toVerify.
     bindE (mapErr BadCharacter (base58btcDecode (tl proofValue))) (\<lambda>sig.
     if length sig \<noteq> 64 then Inr (Unverified (Some signer) (BadSignatureLength (length sig)))
     else bindE (mapErr Primitive (edVerify C sig toVerify key)) (\<lambda>v.
       Inr (if v then Verified signer else Unverified (Some signer) SignatureFailed))))"

definition verifyResolved ::
  "crypto \<Rightarrow> didLib \<Rightarrow> jsstr option \<Rightarrow> members \<Rightarrow> members \<Rightarrow> jsstr \<Rightarrow> jsstr \<Rightarrow> diError + verifyResult" where
  "verifyResolved C L expected document proof vm proofValue =
     (let controller = controllerOf vm; signer = stripScidSrc L controller in
      case resolveEd25519Key L vm controller of
        Inl e \<Rightarrow> Inr (Unverified (Some signer) (ResolutionFailed e))
      | Inr (key, didDocument) \<Rightarrow>
          bindE (case expected of None \<Rightarrow> Inr True
                 | Some purpose \<Rightarrow> mapErr Library (listsMethodUnder L didDocument vm purpose)) (\<lambda>listed.
          if \<not> listed then Inr (Unverified (Some signer) (NotListedUnder vm (the expected) controller))
          else checkSignature C proof document proofValue key signer))"

definition verifyTrustTaskProof :: "crypto \<Rightarrow> didLib \<Rightarrow> jsstr option \<Rightarrow> members \<Rightarrow> diError + verifyResult" where
  "verifyTrustTaskProof C L expected document =
     (let proof = getMember document (js ''proof''); field = (\<lambda>k. getProp proof (js k)) in
      if \<not> isObject proof then Inr (Unverified None NoProof)
      else if field ''type'' \<noteq> JStr (js ''DataIntegrityProof'') \<or> field ''cryptosuite'' \<noteq> JStr (js ''eddsa-jcs-2022'')
      then Inr (Unverified None (UnsupportedSuite (field ''type'') (field ''cryptosuite'')))
      else if expected \<noteq> None \<and> field ''proofPurpose'' \<noteq> JStr (the expected)
      then Inr (Unverified None (PurposeMismatch (field ''proofPurpose'') (the expected)))
      else case field ''verificationMethod'' of
        JStr vm \<Rightarrow>
          if \<not> hasHash vm then Inr (Unverified None BadVerificationMethod)
          else (case (field ''proofValue'', proof) of
            (JStr pv, JObj pm) \<Rightarrow>
              if \<not> startsWith pv (js ''z'') then Inr (Unverified None BadProofValue)
              else verifyResolved C L expected document pm vm pv
          | _ \<Rightarrow> Inr (Unverified None BadProofValue))
      | _ \<Rightarrow> Inr (Unverified None BadVerificationMethod))"

subsection \<open>Signing\<close>

definition DEFAULT_CLOCK_SKEW_MS :: int where "DEFAULT_CLOCK_SKEW_MS = 60000"

definition proofConfigOf :: "jsstr \<Rightarrow> jsstr \<Rightarrow> jsstr \<Rightarrow> members" where
  "proofConfigOf kid created purpose =
     [(js ''type'', JStr (js ''DataIntegrityProof'')),
      (js ''cryptosuite'', JStr (js ''eddsa-jcs-2022'')),
      (js ''verificationMethod'', JStr kid),
      (js ''created'', JStr created),
      (js ''proofPurpose'', JStr purpose)]"

definition signTrustTask ::
  "crypto \<Rightarrow> int \<Rightarrow> members \<Rightarrow> jsstr \<Rightarrow> bytes \<Rightarrow> jsstr \<Rightarrow> int \<Rightarrow> diError + members" where
  "signTrustTask C now envelope kid privateKey proofPurpose clockSkewMs =
     bindE (orThrow (toISOString (now - clockSkewMs)) BadDate) (\<lambda>created.
     let proofConfig = proofConfigOf kid created proofPurpose in
     bindE (signingInput C proofConfig (delMember (js ''proof'') envelope)) (\<lambda>toSign.
     let sig = edSign C toSign privateKey in
     throwIf (length sig \<noteq> 64) (SignatureLength (length sig))
       (Inr (setMember (js ''proof'')
          (JObj (setMember (js ''proofValue'') (JStr (js ''z'' @ base58btcEncode sig)) proofConfig)) envelope))))"

subsection \<open>The purpose of a document\<close>

definition REGISTRY_PREFIX :: jsstr where "REGISTRY_PREFIX = js ''https://trusttasks.org/spec/''"

definition ATTESTATION_SLUGS :: "jsstr list" where
  "ATTESTATION_SLUGS =
     [js ''auth/step-up/approve-response'', js ''task-consent/decision'', js ''confirm/response'', js ''auth/oob/grant'']"

definition ASSERTION_METHOD :: jsstr where "ASSERTION_METHOD = js ''assertionMethod''"
definition AUTHENTICATION :: jsstr where "AUTHENTICATION = js ''authentication''"

text \<open>The first group of \<open>/^(.+)\/(\d+)\.(\d+)$/\<close>: what precedes the last slash, when that is followed
  by a version. \<open>.\<close> does not match a line terminator.\<close>

definition lineTerminator :: "16 word \<Rightarrow> bool" where
  "lineTerminator u \<longleftrightarrow> u = 10 \<or> u = 13 \<or> u = 0x2028 \<or> u = 0x2029"

definition isVersion :: "jsstr \<Rightarrow> bool" where
  "isVersion v \<longleftrightarrow> (case splitOn (hd (js ''.'')) v of
     [a, b] \<Rightarrow> a \<noteq> [] \<and> b \<noteq> [] \<and> list_all isDigit a \<and> list_all isDigit b
   | _ \<Rightarrow> False)"

definition slugOf :: "jsstr \<Rightarrow> jsstr option" where
  "slugOf rest =
     (let parts = splitOn (hd (js ''/'')) rest; slug = joinWith (js ''/'') (butlast parts) in
      if 2 \<le> length parts \<and> isVersion (last parts) \<and> slug \<noteq> [] \<and> \<not> list_ex lineTerminator slug
      then Some slug else None)"

definition proofPurposeForDocumentType :: "jsstr \<Rightarrow> jsstr" where
  "proofPurposeForDocumentType typeUri =
     (if \<not> startsWith typeUri REGISTRY_PREFIX then AUTHENTICATION
      else if hd (js ''#'') \<in> set typeUri then AUTHENTICATION
      else case slugOf (drop (length REGISTRY_PREFIX) typeUri) of
        None \<Rightarrow> AUTHENTICATION
      | Some slug \<Rightarrow> if slug \<in> set ATTESTATION_SLUGS then ASSERTION_METHOD else AUTHENTICATION)"

subsection \<open>The purpose in terms of the registry\<close>

lemma splitOn_last: "c \<notin> set y \<Longrightarrow> splitOn c (x @ c # y) = splitOn c x @ [y]"
proof (induction x)
  case (Cons u x)
  obtain p ps where s: "splitOn c x = p # ps" using splitOn_ne [of c x] by (cases "splitOn c x") auto
  with Cons show ?case by simp
qed (simp add: splitOn_plain)

lemma isVersion_iff: "isVersion v \<longleftrightarrow> (\<exists>a b. v = a @ js ''.'' @ b \<and> a \<noteq> [] \<and> b \<noteq> [] \<and> list_all isDigit a \<and> list_all isDigit b)"
proof
  assume "isVersion v"
  then obtain a b where s: "splitOn (hd (js ''.'')) v = [a, b]" and ab: "a \<noteq> []" "b \<noteq> []" "list_all isDigit a" "list_all isDigit b"
    by (auto simp: isVersion_def split: list.splits)
  have "v = joinWith [hd (js ''.'')] [a, b]" using join_splitOn [of "hd (js ''.'')" v] s by simp
  with ab show "\<exists>a b. v = a @ js ''.'' @ b \<and> a \<noteq> [] \<and> b \<noteq> [] \<and> list_all isDigit a \<and> list_all isDigit b"
    by (intro exI [of _ a] exI [of _ b]) (simp add: js_def)
next
  assume "\<exists>a b. v = a @ js ''.'' @ b \<and> a \<noteq> [] \<and> b \<noteq> [] \<and> list_all isDigit a \<and> list_all isDigit b"
  then obtain a b where v: "v = a @ js ''.'' @ b" and ab: "a \<noteq> []" "b \<noteq> []" "list_all isDigit a" "list_all isDigit b"
    by blast
  have dot: "hd (js ''.'') \<notin> set x" if "list_all isDigit x" for x
    using that by (auto simp: list_all_iff js_def isDigit_def)
  have "splitOn (hd (js ''.'')) v = [a, b]"
    using splitOn_append [OF dot [OF ab(3)], of b] splitOn_plain [OF dot [OF ab(4)]] by (simp add: v js_def)
  with ab show "isVersion v" by (simp add: isVersion_def)
qed

lemma version_units: "isVersion v \<Longrightarrow> u \<in> set v \<Longrightarrow> isDigit u \<or> u = 46"
  by (auto simp: isVersion_iff list_all_iff js_def)

lemma version_plain: "isVersion v \<Longrightarrow> hd (js ''/'') \<notin> set v \<and> hd (js ''#'') \<notin> set v"
  using version_units [of v 47] version_units [of v 35] by (auto simp: js_def isDigit_def)

lemmas version_no_slash = conjunct1 [OF version_plain]

lemma slugOf_iff:
  "slugOf rest = Some slug \<longleftrightarrow>
     slug \<noteq> [] \<and> \<not> list_ex lineTerminator slug \<and> (\<exists>v. isVersion v \<and> rest = slug @ js ''/'' @ v)"
proof
  assume s: "slugOf rest = Some slug"
  let ?parts = "splitOn (hd (js ''/'')) rest"
  have two: "2 \<le> length ?parts" and v: "isVersion (last ?parts)"
    and slug: "slug = joinWith (js ''/'') (butlast ?parts)" "slug \<noteq> []" "\<not> list_ex lineTerminator slug"
    using s by (auto simp: slugOf_def Let_def split: if_splits)
  have j: "joinWith c (ps @ [p]) = joinWith c ps @ c @ p" if "ps \<noteq> []" for c p and ps :: "jsstr list"
    using that by (induction ps rule: list_nonempty_induct) (simp_all add: joinWith_Cons)
  have "rest = joinWith (js ''/'') (butlast ?parts @ [last ?parts])"
    using join_splitOn [of "hd (js ''/'')" rest] splitOn_ne [of "hd (js ''/'')" rest] by (simp add: js_def)
  also have "\<dots> = slug @ js ''/'' @ last ?parts"
    using two unfolding slug(1) by (intro j) (auto simp: butlast_conv_take)
  finally show "slug \<noteq> [] \<and> \<not> list_ex lineTerminator slug \<and> (\<exists>v. isVersion v \<and> rest = slug @ js ''/'' @ v)"
    using slug v by blast
next
  assume "slug \<noteq> [] \<and> \<not> list_ex lineTerminator slug \<and> (\<exists>v. isVersion v \<and> rest = slug @ js ''/'' @ v)"
  then obtain v where slug: "slug \<noteq> []" "\<not> list_ex lineTerminator slug" and v: "isVersion v" "rest = slug @ js ''/'' @ v"
    by blast
  have "splitOn (hd (js ''/'')) rest = splitOn (hd (js ''/'')) slug @ [v]"
    using splitOn_last [OF version_no_slash [OF v(1)], of slug] by (simp add: v(2) js_def)
  moreover have "joinWith (js ''/'') (splitOn (hd (js ''/'')) slug) = slug"
    using join_splitOn [of "hd (js ''/'')" slug] by (simp add: js_def)
  moreover have "1 \<le> length (splitOn (hd (js ''/'')) slug)" using splitOn_ne [of "hd (js ''/'')" slug] by (simp add: Suc_le_eq)
  ultimately show "slugOf rest = Some slug" using slug v(1) by (simp add: slugOf_def Let_def)
qed

lemma slugs_plain: "slug \<in> set ATTESTATION_SLUGS \<Longrightarrow>
  slug \<noteq> [] \<and> \<not> list_ex lineTerminator slug \<and> hd (js ''#'') \<notin> set slug"
  by (auto simp: ATTESTATION_SLUGS_def js_def lineTerminator_def)

lemma purpose_iff:
  "proofPurposeForDocumentType t = ASSERTION_METHOD \<longleftrightarrow>
     (\<exists>slug \<in> set ATTESTATION_SLUGS. \<exists>v. isVersion v \<and> t = REGISTRY_PREFIX @ slug @ js ''/'' @ v)"
proof -
  have ne: "AUTHENTICATION \<noteq> ASSERTION_METHOD" by (simp add: AUTHENTICATION_def ASSERTION_METHOD_def js_def)
  have hash: "hd (js ''#'') \<notin> set (REGISTRY_PREFIX @ slug @ js ''/'' @ v)" if "slug \<in> set ATTESTATION_SLUGS" "isVersion v" for slug v
    using slugs_plain [OF that(1)] version_plain [OF that(2)] by (simp add: REGISTRY_PREFIX_def js_def)
  show ?thesis
  proof
    assume "proofPurposeForDocumentType t = ASSERTION_METHOD"
    with ne obtain r slug where "t = REGISTRY_PREFIX @ r" "slugOf r = Some slug" "slug \<in> set ATTESTATION_SLUGS"
      by (auto simp: proofPurposeForDocumentType_def startsWith_iff split: if_splits option.splits)
    then show "\<exists>slug \<in> set ATTESTATION_SLUGS. \<exists>v. isVersion v \<and> t = REGISTRY_PREFIX @ slug @ js ''/'' @ v"
      by (auto simp: slugOf_iff)
  next
    assume "\<exists>slug \<in> set ATTESTATION_SLUGS. \<exists>v. isVersion v \<and> t = REGISTRY_PREFIX @ slug @ js ''/'' @ v"
    then obtain slug v where sv: "slug \<in> set ATTESTATION_SLUGS" "isVersion v" and t: "t = REGISTRY_PREFIX @ slug @ js ''/'' @ v"
      by blast
    have "slugOf (slug @ js ''/'' @ v) = Some slug" using slugs_plain [OF sv(1)] sv(2) by (simp add: slugOf_iff)
    with sv(1) hash [OF sv] show "proofPurposeForDocumentType t = ASSERTION_METHOD"
      by (simp add: proofPurposeForDocumentType_def t startsWith_iff)
  qed
qed

subsection \<open>Documents up to the order of members\<close>

definition sameDoc :: "members \<Rightarrow> members \<Rightarrow> bool" where
  "sameDoc d e \<longleftrightarrow> norm (JObj d) = norm (JObj e)"

abbreviation normMembers :: "members \<Rightarrow> members" where
  "normMembers ms \<equiv> map (\<lambda>(k, v). (k, norm v)) ms"

lemma normMembers_fst: "map fst (normMembers ms) = map fst ms"
  by (induction ms) auto

lemma sameDoc_sort: "sameDoc d e \<longleftrightarrow> sort_key fst (normMembers d) = sort_key fst (normMembers e)"
  by (simp add: sameDoc_def)

lemma sameDoc_mset: "sameDoc d e \<Longrightarrow> mset (normMembers d) = mset (normMembers e)"
  unfolding sameDoc_sort by (metis mset_sort)

lemma sameDoc_distinct: "sameDoc d e \<Longrightarrow> distinct (map fst e) \<Longrightarrow> distinct (map fst d)"
proof -
  assume s: "sameDoc d e" and e: "distinct (map fst e)"
  have "mset (map fst (normMembers d)) = mset (map fst (normMembers e))"
    using arg_cong [OF sameDoc_mset [OF s], of "image_mset fst"] by (simp only: mset_map)
  then have "mset (map fst d) = mset (map fst e)" unfolding normMembers_fst .
  with e show "distinct (map fst d)" by (metis mset_eq_imp_distinct_iff)
qed

lemma sameDoc_delMember: "sameDoc d e \<Longrightarrow> sameDoc (delMember k d) (delMember k e)"
proof -
  have f: "normMembers (delMember k ms) = filter (\<lambda>m. fst m \<noteq> k) (normMembers ms)" for ms
    by (induction ms) (auto simp: delMember_def)
  assume "sameDoc d e"
  then have "filter (\<lambda>m. fst m \<noteq> k) (sort_key fst (normMembers d)) = filter (\<lambda>m. fst m \<noteq> k) (sort_key fst (normMembers e))"
    by (simp add: sameDoc_sort)
  then show ?thesis unfolding sameDoc_sort f by (simp add: filter_sort)
qed

lemma sameDoc_getMember: "sameDoc d e \<Longrightarrow> distinct (map fst e) \<Longrightarrow> norm (getMember d k) = norm (getMember e k)"
proof -
  assume s: "sameDoc d e" and e: "distinct (map fst e)"
  have m: "norm (getMember ms k) = getMember (normMembers ms) k" for ms
    by (induction ms) (auto simp: getMember_def)
  have "set (normMembers d) = set (normMembers e)" using sameDoc_mset [OF s] by (metis set_mset_mset)
  moreover have "distinct (map fst (normMembers d))" "distinct (map fst (normMembers e))"
    unfolding normMembers_fst using e sameDoc_distinct [OF s e] by simp_all
  ultimately have "map_of (normMembers d) = map_of (normMembers e)" by (simp add: map_of_inject_set)
  then show ?thesis unfolding m by (simp add: getMember_def)
qed

lemma norm_string: "norm v = JStr s \<longleftrightarrow> v = JStr s"
  by (cases v) auto

lemma norm_object: "norm v = norm (JObj ms) \<Longrightarrow> \<exists>ns. v = JObj ns \<and> sameDoc ns ms"
  by (cases v) (auto simp: sameDoc_def)

lemma sameDoc_hash: "sameDoc d e \<Longrightarrow> hashOf C d = hashOf C e"
  unfolding sameDoc_def hashOf_def jcsCanonicalize_def using enc_norm(1) by metis

lemma sameDoc_signingInput: "sameDoc p q \<Longrightarrow> sameDoc d e \<Longrightarrow> signingInput C p d = signingInput C q e"
  by (simp add: signingInput_def sameDoc_hash [of p q] sameDoc_hash [of d e])

subsection \<open>What a verified document is\<close>

text \<open>The DID document of the controller holds \<open>key\<close> for the method and lists it under the purpose.\<close>

definition publishes :: "didLib \<Rightarrow> jsstr \<Rightarrow> bytes \<Rightarrow> jsstr \<Rightarrow> bool" where
  "publishes L vm key purpose \<longleftrightarrow> (\<exists>doc. resolveEd25519Key L vm (controllerOf vm) = Inr (key, doc) \<and>
     listsMethodUnder L doc vm purpose = Inr True)"

text \<open>The members of a proof object by the method \<open>vm\<close> for the purpose, with the signature \<open>sig\<close>.\<close>

definition proofFields :: "members \<Rightarrow> jsstr \<Rightarrow> jsstr \<Rightarrow> bytes \<Rightarrow> bool" where
  "proofFields pm vm purpose sig \<longleftrightarrow>
     getMember pm (js ''type'') = JStr (js ''DataIntegrityProof'') \<and>
     getMember pm (js ''cryptosuite'') = JStr (js ''eddsa-jcs-2022'') \<and>
     getMember pm (js ''proofPurpose'') = JStr purpose \<and>
     getMember pm (js ''verificationMethod'') = JStr vm \<and> hasHash vm \<and>
     getMember pm (js ''proofValue'') = JStr (js ''z'' @ base58btcEncode sig) \<and> length sig = 64"

definition signedUnder :: "crypto \<Rightarrow> didLib \<Rightarrow> jsstr \<Rightarrow> members \<Rightarrow> jsstr \<Rightarrow> bool" where
  "signedUnder C L purpose document vm \<longleftrightarrow>
     (\<exists>pm sig key input. getMember document (js ''proof'') = JObj pm \<and> proofFields pm vm purpose sig \<and>
        publishes L vm key purpose \<and>
        signingInput C (delMember (js ''proofValue'') pm) (delMember (js ''proof'') document) = Inr input \<and>
        edVerify C sig input key = Inr True)"

lemma checkSignature_Verified:
  "checkSignature C pm d pv key s = Inr (Verified s') \<longleftrightarrow>
     s' = s \<and> (\<exists>input sig. signingInput C (delMember (js ''proofValue'') pm) (delMember (js ''proof'') d) = Inr input \<and>
       tl pv = base58btcEncode sig \<and> length sig = 64 \<and> edVerify C sig input key = Inr True)"
  by (auto simp: checkSignature_def bindE_Inr b58_decode_iff)

lemma verifyResolved_Verified:
  "verifyResolved C L (Some p) d pm vm pv = Inr (Verified s) \<longleftrightarrow>
     (\<exists>key. publishes L vm key p \<and> checkSignature C pm d pv key (stripScidSrc L (controllerOf vm)) = Inr (Verified s))"
  by (auto simp: verifyResolved_def publishes_def Let_def bindE_Inr split: sum.splits if_splits)

lemma z_prefix: "pv = js ''z'' @ e \<longleftrightarrow> startsWith pv (js ''z'') \<and> tl pv = e"
  by (cases pv) (auto simp: startsWith_iff js_def)

lemma verified_iff:
  "verifyTrustTaskProof C L (Some p) d = Inr (Verified s) \<longleftrightarrow>
     (\<exists>vm. s = stripScidSrc L (controllerOf vm) \<and> signedUnder C L p d vm)" (is "?v \<longleftrightarrow> ?s")
proof
  assume ?v
  then obtain vm pv pm where pm: "getMember d (js ''proof'') = JObj pm"
    and f: "getMember pm (js ''type'') = JStr (js ''DataIntegrityProof'')"
      "getMember pm (js ''cryptosuite'') = JStr (js ''eddsa-jcs-2022'')" "getMember pm (js ''proofPurpose'') = JStr p"
      "getMember pm (js ''verificationMethod'') = JStr vm" "hasHash vm" "getMember pm (js ''proofValue'') = JStr pv"
      "startsWith pv (js ''z'')"
    and v: "verifyResolved C L (Some p) d pm vm pv = Inr (Verified s)"
    by (auto simp: verifyTrustTaskProof_def Let_def split: if_splits jsval.splits)
  from v obtain key sig input where k: "publishes L vm key p" and s: "s = stripScidSrc L (controllerOf vm)"
    and g: "signingInput C (delMember (js ''proofValue'') pm) (delMember (js ''proof'') d) = Inr input"
      "tl pv = base58btcEncode sig" "length sig = 64" "edVerify C sig input key = Inr True"
    by (auto simp: verifyResolved_Verified checkSignature_Verified)
  have "pv = js ''z'' @ base58btcEncode sig" using f(7) g(2) by (simp add: z_prefix)
  with f g(3) have "proofFields pm vm p sig" by (simp add: proofFields_def)
  with pm k s g(1,4) show ?s unfolding signedUnder_def by blast
next
  assume ?s
  then obtain vm pm sig key input where s: "s = stripScidSrc L (controllerOf vm)"
    and pm: "getMember d (js ''proof'') = JObj pm" and f: "proofFields pm vm p sig"
    and k: "publishes L vm key p"
    and g: "signingInput C (delMember (js ''proofValue'') pm) (delMember (js ''proof'') d) = Inr input"
      "edVerify C sig input key = Inr True"
    by (auto simp: signedUnder_def)
  let ?pv = "js ''z'' @ base58btcEncode sig"
  have pv: "startsWith ?pv (js ''z'')" "tl ?pv = base58btcEncode sig" using z_prefix [of ?pv "base58btcEncode sig"] by simp_all
  have "checkSignature C pm d ?pv key s = Inr (Verified s)"
    using g pv(2) f unfolding checkSignature_Verified proofFields_def by blast
  with k have "verifyResolved C L (Some p) d pm vm ?pv = Inr (Verified s)"
    unfolding verifyResolved_Verified s by blast
  with f pm pv(1) show ?v by (simp add: verifyTrustTaskProof_def proofFields_def Let_def)
qed

subsection \<open>Signing\<close>

lemma distinct_setMember: "distinct (map fst ms) \<Longrightarrow> distinct (map fst (setMember k v ms))"
  by (auto simp: setMember_def comp_def if_distrib cong: if_cong)

lemma signTrustTask_Inr:
  "signTrustTask C now env kid sk purpose skew = Inr out \<longleftrightarrow>
     (\<exists>created input. toISOString (now - skew) = Some created \<and>
        signingInput C (proofConfigOf kid created purpose) (delMember (js ''proof'') env) = Inr input \<and>
        length (edSign C input sk) = 64 \<and>
        out = setMember (js ''proof'') (JObj (setMember (js ''proofValue'')
          (JStr (js ''z'' @ base58btcEncode (edSign C input sk))) (proofConfigOf kid created purpose))) env)"
  by (auto simp: signTrustTask_def bindE_Inr Let_def split: if_splits)

lemma signTrustTask_proof:
  assumes C: "cryptoOk C" "length sk = 32" and out: "signTrustTask C now env kid sk purpose skew = Inr out"
    and kid: "hasHash kid"
  shows "\<exists>pm sig input. getMember out (js ''proof'') = JObj pm \<and> proofFields pm kid purpose sig \<and>
    signingInput C (delMember (js ''proofValue'') pm) (delMember (js ''proof'') out) = Inr input \<and>
    edVerify C sig input (edPublicKey C sk) = Inr True"
proof -
  from out obtain created input where input: "signingInput C (proofConfigOf kid created purpose) (delMember (js ''proof'') env) = Inr input"
    and s: "out = setMember (js ''proof'') (JObj (setMember (js ''proofValue'')
      (JStr (js ''z'' @ base58btcEncode (edSign C input sk))) (proofConfigOf kid created purpose))) env"
    unfolding signTrustTask_Inr by blast
  let ?pc = "proofConfigOf kid created purpose" and ?sig = "edSign C input sk"
  let ?pm = "setMember (js ''proofValue'') (JStr (js ''z'' @ base58btcEncode ?sig)) ?pc"
  have del: "delMember (js ''proofValue'') ?pm = ?pc"
    unfolding delMember_setMember by (simp add: delMember_def proofConfigOf_def js_def)
  have len: "length ?sig = 64" and ver: "edVerify C ?sig input (edPublicKey C sk) = Inr True"
    using C by (simp_all add: cryptoOk_def)
  have "proofFields ?pm kid purpose ?sig"
    using len kid by (simp add: proofFields_def getMember_setMember proofConfigOf_def getMember_Cons js_def)
  moreover have "getMember out (js ''proof'') = JObj ?pm" by (simp add: s getMember_setMember)
  moreover have "signingInput C (delMember (js ''proofValue'') ?pm) (delMember (js ''proof'') out) = Inr input"
    unfolding del using input by (simp add: s)
  ultimately show ?thesis using ver by blast
qed

lemma sameDoc_signedUnder:
  assumes same: "sameDoc d e" and e: "distinct (map fst e)" "\<And>pm. getMember e (js ''proof'') = JObj pm \<Longrightarrow> distinct (map fst pm)"
    and s: "signedUnder C L p e vm"
  shows "signedUnder C L p d vm"
proof -
  from s obtain pm sig key input where pm: "getMember e (js ''proof'') = JObj pm" "proofFields pm vm p sig"
    and k: "publishes L vm key p" "edVerify C sig input key = Inr True"
    and i: "signingInput C (delMember (js ''proofValue'') pm) (delMember (js ''proof'') e) = Inr input"
    by (auto simp: signedUnder_def)
  have "norm (getMember d (js ''proof'')) = norm (JObj pm)" using sameDoc_getMember [OF same e(1)] pm(1) by metis
  then obtain qm where qm: "getMember d (js ''proof'') = JObj qm" and sq: "sameDoc qm pm" using norm_object by blast
  have "norm (getMember qm k) = norm (getMember pm k)" for k by (rule sameDoc_getMember [OF sq e(2) [OF pm(1)]])
  then have "getMember qm k = JStr x" if "getMember pm k = JStr x" for k x using that norm_string [of "getMember qm k" x] by simp
  then have "proofFields qm vm p sig" using pm(2) by (simp add: proofFields_def)
  moreover have "signingInput C (delMember (js ''proofValue'') qm) (delMember (js ''proof'') d) = Inr input"
    using sameDoc_signingInput [OF sameDoc_delMember [OF sq] sameDoc_delMember [OF same]] i by simp
  ultimately show ?thesis using qm k unfolding signedUnder_def by blast
qed

lemma signed_verifies:
  assumes C: "cryptoOk C" "length sk = 32" and out: "signTrustTask C now env kid sk purpose skew = Inr out"
    and kid: "hasHash kid" "publishes L kid (edPublicKey C sk) purpose"
    and env: "distinct (map fst env)" and same: "sameDoc received out"
  shows "verifyTrustTaskProof C L (Some purpose) received = Inr (Verified (stripScidSrc L (controllerOf kid)))"
proof -
  obtain pm sig input where pm: "getMember out (js ''proof'') = JObj pm" "proofFields pm kid purpose sig"
    "signingInput C (delMember (js ''proofValue'') pm) (delMember (js ''proof'') out) = Inr input"
    "edVerify C sig input (edPublicKey C sk) = Inr True"
    using signTrustTask_proof [OF C out kid(1)] by blast
  have su: "signedUnder C L purpose out kid" using pm kid(2) unfolding signedUnder_def by blast
  from out obtain v where s: "out = setMember (js ''proof'') v env" unfolding signTrustTask_Inr by blast
  have d: "distinct (map fst out)" unfolding s using env by (rule distinct_setMember)
  have dp: "distinct (map fst pm)" if "getMember out (js ''proof'') = JObj pm" for pm
  proof -
    from out obtain created w where "getMember out (js ''proof'') = JObj (setMember (js ''proofValue'') w (proofConfigOf kid created purpose))"
      unfolding signTrustTask_Inr by (auto simp: getMember_setMember)
    with that have "pm = setMember (js ''proofValue'') w (proofConfigOf kid created purpose)" by simp
    then show ?thesis by (simp add: setMember_def proofConfigOf_def js_def)
  qed
  have "signedUnder C L purpose received kid" by (rule sameDoc_signedUnder [OF same d dp su])
  then show ?thesis unfolding verified_iff by blast
qed

subsection \<open>What a signature covers\<close>

text \<open>The text the canonical form of a document is, and the bytes that are hashed for it.\<close>

definition canonicalText :: "members \<Rightarrow> jsstr" where
  "canonicalText d = (case jcsCanonicalize (JObj d) of Inr s \<Rightarrow> s | Inl _ \<Rightarrow> [])"

definition canonicalBytes :: "members \<Rightarrow> bytes" where
  "canonicalBytes d = textEncode (canonicalText d)"

text \<open>Documents as they are read from well-formed JSON text.\<close>

definition goodDoc :: "members \<Rightarrow> bool" where
  "goodDoc d \<longleftrightarrow> valOk (JObj d) \<and> wellFormedValue (JObj d)"

lemma canonical_plain:
  assumes "enc (JObj d) = Inr s" and "goodDoc d"
  shows "plainText s"
proof -
  have "hd s = hd (js ''{'')" "s \<noteq> []" using assms(1) by (auto simp: bindE_Inr js_def)
  then have "take 1 s \<noteq> [0xFEFF]" by (cases s) (simp_all add: js_def)
  with enc_wellFormed(1) [OF assms(1)] assms(2) show ?thesis by (simp add: plainText_def goodDoc_def)
qed

lemma canonical_text: "enc (JObj d) = Inr s \<Longrightarrow> canonicalText d = s"
  by (simp add: canonicalText_def jcsCanonicalize_def)

lemma canonical_same:
  assumes "enc (JObj d) = Inr s" "enc (JObj e) = Inr t" "goodDoc d" "goodDoc e"
  shows "canonicalBytes d = canonicalBytes e \<longleftrightarrow> sameDoc d e"
proof -
  have "textEncode s = textEncode t \<longleftrightarrow> s = t" using canonical_plain assms textEncode_inj by metis
  with canonical_iff [OF assms(1,2)] assms show ?thesis
    by (simp add: canonicalBytes_def canonical_text goodDoc_def sameDoc_def)
qed

lemma hash_covers:
  assumes "hashOf C d = Inr h" "hashOf C e = Inr k" "goodDoc d" "goodDoc e"
    and "inj_on (sha256 C) {canonicalBytes d, canonicalBytes e}"
  shows "h = k \<longleftrightarrow> sameDoc d e"
proof -
  obtain s t where s: "enc (JObj d) = Inr s" "enc (JObj e) = Inr t"
    and h: "h = sha256 C (canonicalBytes d)" "k = sha256 C (canonicalBytes e)"
    using assms(1,2) by (auto simp: hashOf_def jcsCanonicalize_def bindE_Inr canonicalBytes_def canonicalText_def simp del: enc.simps)
  have "h = k \<longleftrightarrow> canonicalBytes d = canonicalBytes e" unfolding h using inj_on_eq_iff [OF assms(5)] by blast
  with canonical_same [OF s assms(3,4)] show ?thesis by simp
qed

lemma input_covers:
  assumes C: "cryptoOk C" and i: "signingInput C p d = Inr i" "signingInput C q e = Inr j"
    and good: "goodDoc p" "goodDoc d" "goodDoc q" "goodDoc e"
    and inj: "inj_on (sha256 C) {canonicalBytes p, canonicalBytes q}" "inj_on (sha256 C) {canonicalBytes d, canonicalBytes e}"
  shows "i = j \<longleftrightarrow> sameDoc p q \<and> sameDoc d e"
proof -
  obtain hp hd hq he where h: "hashOf C p = Inr hp" "hashOf C d = Inr hd" "hashOf C q = Inr hq" "hashOf C e = Inr he"
    and eq: "i = hp @ hd" "j = hq @ he" using i by (auto simp: signingInput_def bindE_Inr)
  have "length x = 32" if "hashOf C y = Inr x" for x y using that C by (auto simp: hashOf_def bindE_Inr cryptoOk_def)
  with h have "i = j \<longleftrightarrow> hp = hq \<and> hd = he" unfolding eq by (simp add: append_eq_append_conv)
  with hash_covers [OF h(1,3) good(1,3) inj(1)] hash_covers [OF h(2,4) good(2,4) inj(2)] show ?thesis by simp
qed

lemma surrogate_hash: "hashOf C [(js ''a'', JStr [0xD800])] = hashOf C [(js ''a'', JStr [0xDFFF])]"
  by (simp add: hashOf_def jcsCanonicalize_def encString_def encUnit_def js_def textEncode_def scalars.simps(2) surrogates)

subsection \<open>A sample resolver\<close>

text \<open>One DID document that holds one Ed25519 key and lists it under one relationship.\<close>

definition sampleDidLib :: "jsstr \<Rightarrow> bytes \<Rightarrow> jsstr \<Rightarrow> didLib" where
  "sampleDidLib vm key purpose = \<lparr>
     resolveDid = (\<lambda>d. Inr (JObj [(js ''verificationMethod'',
         JArr [JObj [(js ''id'', JStr vm), (js ''publicKeyMultibase'', JStr (js ''z6Mk''))]]), (purpose, JArr [JStr vm])])),
     didKeyResolve = (\<lambda>d. Inl (Thrown (js ''not a did:key''))),
     decodeMultikey = (\<lambda>v. Inr ([0xed, 0x01], key)),
     ed25519Pub = [0xed, 0x01],
     sameReference = (\<lambda>i v. Inr (i = JStr v)),
     stripScidSrc = (\<lambda>d. d)\<rparr>"

lemma sample_publishes:
  assumes "\<not> startsWith (controllerOf vm) (js ''did:key:'')" "purpose \<noteq> js ''verificationMethod''"
  shows "publishes (sampleDidLib vm key purpose) vm key purpose"
  using assms
  by (simp add: publishes_def resolveEd25519Key_def documentOf_def sampleDidLib_def methodsOf_def findMethod_def idOf_def
      keyOfMethod_def listsMethodUnder_def someE_def entryNames_def namesMethod_def getMember_Cons js_def)

lemma signing_input_returns: "jsonValue (JObj p) \<Longrightarrow> jsonValue (JObj d) \<Longrightarrow> \<exists>i. signingInput C p d = Inr i"
  using enc_returns(1) [of "JObj p"] enc_returns(1) [of "JObj d"]
  by (auto simp del: enc.simps simp: returns_iff signingInput_def hashOf_def jcsCanonicalize_def)

lemma signing_returns:
  assumes "jsonValue (JObj env)" "\<bar>now - skew\<bar> \<le> 8640000000000000" "\<And>m. length (edSign C m sk) = 64"
  shows "\<exists>out. signTrustTask C now env kid sk purpose skew = Inr out"
proof -
  obtain created where c: "toISOString (now - skew) = Some created"
    using assms(2) by (cases "civil ((now - skew) div 86400000)") (simp add: toISOString_def Let_def)
  have "jsonValue (JObj (delMember (js ''proof'') env))" using assms(1) by (auto simp: delMember_def list_all_iff)
  moreover have "jsonValue (JObj (proofConfigOf kid created purpose))" by (simp add: proofConfigOf_def)
  ultimately obtain i where "signingInput C (proofConfigOf kid created purpose) (delMember (js ''proof'') env) = Inr i"
    using signing_input_returns by blast
  with c assms(3) show ?thesis unfolding signTrustTask_Inr by blast
qed

lemma sample_signature: "length (edSign sampleCrypto m sk) = 64" "edPublicKey sampleCrypto sk = sk"
  by (simp_all add: sampleCrypto_def)

subsection \<open>Properties\<close>

text \<open>C19: A signed document verifies: what \<open>signTrustTask\<close> returns, read back with its members in any
  order, is accepted by \<open>verifyTrustTaskProof\<close> under the purpose it was signed for, with the DID of the
  signing key as the signer, when the DID document publishes that key under that purpose.\<close>

theorem signed_document_verifies:
  assumes "cryptoOk C" and "length sk = 32"
    and "signTrustTask C now env kid sk purpose skew = Inr out"
    and "hasHash kid" and "publishes L kid (edPublicKey C sk) purpose"
    and "distinct (map fst env)" and "sameDoc received out"
  shows "verifyTrustTaskProof C L (Some purpose) received = Inr (Verified (stripScidSrc L (controllerOf kid)))"
  using assms by (rule signed_verifies)

theorem signed_document_verifies_witness:
  "\<exists>out. signTrustTask sampleCrypto 60000 [(js ''type'', JStr (js ''t''))] (js ''did:x#k'') (replicate 32 1) AUTHENTICATION DEFAULT_CLOCK_SKEW_MS = Inr out \<and>
     verifyTrustTaskProof sampleCrypto (sampleDidLib (js ''did:x#k'') (replicate 32 1) AUTHENTICATION) (Some AUTHENTICATION) out
       = Inr (Verified (js ''did:x''))"
proof -
  let ?L = "sampleDidLib (js ''did:x#k'') (replicate 32 1) AUTHENTICATION"
  obtain out where out: "signTrustTask sampleCrypto 60000 [(js ''type'', JStr (js ''t''))] (js ''did:x#k'') (replicate 32 1)
      AUTHENTICATION DEFAULT_CLOCK_SKEW_MS = Inr out"
    using signing_returns [OF _ _ sample_signature(1), of "[(js ''type'', JStr (js ''t''))]" 60000 DEFAULT_CLOCK_SKEW_MS]
    by (simp add: DEFAULT_CLOCK_SKEW_MS_def) blast
  have c: "controllerOf (js ''did:x#k'') = js ''did:x''" "hasHash (js ''did:x#k'')"
    by (simp_all add: controllerOf_def hasHash_def fragmentOf_def js_def)
  have "publishes ?L (js ''did:x#k'') (replicate 32 1) AUTHENTICATION"
    by (rule sample_publishes, unfold c) (simp_all add: startsWith_def js_def AUTHENTICATION_def)
  then have "verifyTrustTaskProof sampleCrypto ?L (Some AUTHENTICATION) out = Inr (Verified (stripScidSrc ?L (controllerOf (js ''did:x#k''))))"
    by (intro signed_document_verifies [OF sampleCrypto_ok _ out]) (simp_all add: c sample_signature sameDoc_def)
  with out show ?thesis by (simp add: c sampleDidLib_def)
qed

text \<open>C8: A proof is accepted exactly when it is one: \<open>verifyTrustTaskProof\<close> reports a signer just when the
  document's proof names the suite and the required purpose, its verification method is found in the
  DID document of its controller and listed there under that purpose, and its 64 bytes are an
  Ed25519 signature by that key over the hashes of the proof options and of the rest of the document;
  the signer is the controller of that method.\<close>

theorem verified_exactly_when_signed:
  "verifyTrustTaskProof C L (Some p) d = Inr (Verified s) \<longleftrightarrow>
     (\<exists>vm. s = stripScidSrc L (controllerOf vm) \<and> signedUnder C L p d vm)"
  by (rule verified_iff)

text \<open>C20: A signature covers the whole of a document of well-formed text with no member twice (\<open>goodDoc\<close>; documents with lone
  surrogates are outside, \<open>lone_surrogates_not_covered\<close>): unless SHA-256 maps the canonical bytes at hand to one hash, two such
  documents with such proof options have the same signing input exactly when they are the same up to the order of members.\<close>

theorem signature_covers_document:
  assumes "cryptoOk C" and "signingInput C p d = Inr i" and "signingInput C q e = Inr j"
    and "goodDoc p" and "goodDoc d" and "goodDoc q" and "goodDoc e"
    and "inj_on (sha256 C) {canonicalBytes p, canonicalBytes q}" and "inj_on (sha256 C) {canonicalBytes d, canonicalBytes e}"
  shows "i = j \<longleftrightarrow> sameDoc p q \<and> sameDoc d e"
  using assms by (rule input_covers)

theorem signature_covers_document_witness:
  "\<exists>i. signingInput sampleCrypto [] [(js ''a'', JInt 1), (js ''b'', JNull)] = Inr i \<and>
      signingInput sampleCrypto [] [(js ''b'', JNull), (js ''a'', JInt 1)] = Inr i"
proof -
  let ?d = "[(js ''a'', JInt 1), (js ''b'', JNull)]" and ?e = "[(js ''b'', JNull), (js ''a'', JInt 1)]"
  have same: "sameDoc [] []" "sameDoc ?d ?e" by (simp_all add: sameDoc_def js_def)
  have ok: "jsonValue (JObj [])" "jsonValue (JObj ?d)" "jsonValue (JObj ?e)" by simp_all
  obtain i j where i: "signingInput sampleCrypto [] ?d = Inr i" "signingInput sampleCrypto [] ?e = Inr j"
    using signing_input_returns ok by metis
  have g: "goodDoc []" "goodDoc ?d" "goodDoc ?e"
    by (simp_all add: goodDoc_def js_def wellFormedUnits.simps(2) surrogates)
  have "canonicalBytes ?d = canonicalBytes ?e"
    using canonical_same [OF _ _ g(2,3)] same(2) ok(2,3) enc_returns(1) by (simp only: returns_iff) blast
  then have inj: "inj_on (sha256 sampleCrypto) {canonicalBytes [], canonicalBytes []}"
    "inj_on (sha256 sampleCrypto) {canonicalBytes ?d, canonicalBytes ?e}" by simp_all
  from signature_covers_document [OF sampleCrypto_ok i g(1,2,1,3) inj] same i show ?thesis by simp
qed

text \<open>Lone surrogates are outside what a signature covers: they are replaced when the canonical form is
  encoded, so two different documents have the same signing input. (RFC 8785 has them refused.)\<close>

theorem lone_surrogates_not_covered:
  "signingInput C p [(js ''a'', JStr [0xD800])] = signingInput C p [(js ''a'', JStr [0xDFFF])] \<and>
   \<not> sameDoc [(js ''a'', JStr [0xD800])] [(js ''a'', JStr [0xDFFF])]"
  using surrogate_hash by (simp add: signingInput_def sameDoc_def)

text \<open>A document is signed as an assertion exactly when its type is a versioned request of one of the
  four attestation slugs in the public registry; every other document, responses included, is signed
  for authentication.\<close>

theorem purpose_by_registry_type:
  "proofPurposeForDocumentType t =
     (if \<exists>slug \<in> set ATTESTATION_SLUGS. \<exists>v. isVersion v \<and> t = REGISTRY_PREFIX @ slug @ js ''/'' @ v
      then ASSERTION_METHOD else AUTHENTICATION)"
proof -
  have "proofPurposeForDocumentType t \<in> {ASSERTION_METHOD, AUTHENTICATION}"
    by (simp add: proofPurposeForDocumentType_def split: option.splits)
  then show ?thesis using purpose_iff [of t] by auto
qed

end
