(* ===== verification/Digests.thy ===== *)
theory Digests
  imports Data_Integrity
begin

text \<open>
  The digest that binds one operation, \<open>packages/core/src/trust-tasks/domain-digest.ts\<close>, and its decoding into
  the code two screens compare, \<open>digest.ts\<close>. The decoders of \<open>@scure/base\<close> and the language's case
  conversion of whole strings are the record \<open>baseLib\<close>.
\<close>

record baseLib =
  base64urlnopad :: "jsstr \<Rightarrow> failure + bytes"
  base64nopad :: "jsstr \<Rightarrow> failure + bytes"
  base32nopad :: "jsstr \<Rightarrow> failure + bytes"
  toUpperCase :: "jsstr \<Rightarrow> jsstr"
  toLowerCase :: "jsstr \<Rightarrow> jsstr"

datatype digestError =
    EmptyDigest | OddHex | NonHex | UnsupportedPrefix jsstr | NotMultibase failure | NotSha256 | WrongDigestLength nat

subsection \<open>Binding an operation\<close>

definition VTC_STEP_UP_DOMAIN :: jsstr where "VTC_STEP_UP_DOMAIN = js (''vtc/step-up/v1'' @ [CHR 0x00])"
definition TASK_CONSENT_DOMAIN :: jsstr where "TASK_CONSENT_DOMAIN = js (''vta/task-consent/v1'' @ [CHR 0x00])"
definition MULTIHASH_SHA2_256_32 :: bytes where "MULTIHASH_SHA2_256_32 = [0x12, 0x20]"

text \<open>\<open>setBigUint64\<close> keeps the low 64 bits.\<close>

fun beDigits :: "nat \<Rightarrow> nat \<Rightarrow> bytes" where
  "beDigits 0 n = []"
| "beDigits (Suc k) n = beDigits k (n div 256) @ [word_of_nat (n mod 256)]"

definition u64be :: "nat \<Rightarrow> bytes" where
  "u64be n = beDigits 8 n"

definition digestPreimage :: "jsstr \<Rightarrow> jsstr \<Rightarrow> jsstr \<Rightarrow> jsstr option \<Rightarrow> bytes" where
  "digestPreimage tag typeUri canonical salt =
     (let typeBytes = textEncode typeUri; payload = textEncode canonical in
      concat ([textEncode tag, u64be (length typeBytes), typeBytes, u64be (length payload), payload] @
        (case salt of Some s \<Rightarrow> [textEncode s] | None \<Rightarrow> [])))"

definition domainDigest :: "crypto \<Rightarrow> jsstr \<Rightarrow> jsstr \<Rightarrow> jsval \<Rightarrow> jsstr option \<Rightarrow> jcsError + jsstr" where
  "domainDigest C tag typeUri payload salt =
     bindE (jcsCanonicalize payload) (\<lambda>canonical.
       Inr (js ''z'' @ base58btcEncode (MULTIHASH_SHA2_256_32 @ sha256 C (digestPreimage tag typeUri canonical salt))))"

definition vtcStepUpBoundTo :: "crypto \<Rightarrow> jsstr \<Rightarrow> jsval \<Rightarrow> jsstr \<Rightarrow> jcsError + jsstr" where
  "vtcStepUpBoundTo C typeUri payload challenge = domainDigest C VTC_STEP_UP_DOMAIN typeUri payload (Some challenge)"

definition taskConsentWireDigest :: "crypto \<Rightarrow> jsstr \<Rightarrow> jsval \<Rightarrow> jsstr \<Rightarrow> jcsError + jsstr" where
  "taskConsentWireDigest C typeUri payload challenge = domainDigest C TASK_CONSENT_DOMAIN typeUri payload (Some challenge)"

subsection \<open>Reading a digest\<close>

text \<open>\<open>Number.parseInt(pair, 16)\<close>: white space, a sign and a \<open>0x\<close> before the digits are skipped, and what
  follows the digits is ignored; \<open>None\<close> is \<open>NaN\<close>.\<close>

definition parseInt16 :: "jsstr \<Rightarrow> int option" where
  "parseInt16 s =
     (let t = trimStart s;
          neg = (take 1 t = js ''-'');
          u = (if neg \<or> take 1 t = js ''+'' then drop 1 t else t);
          v = (if take 2 u = js ''0x'' \<or> take 2 u = js ''0X'' then drop 2 u else u);
          ds = takeWhile isHexDigit v
      in if ds = [] then None else Some (if neg then - int (ofHexDigits ds) else int (ofHexDigits ds)))"

fun hexPairBytes :: "jsstr \<Rightarrow> digestError + bytes" where
  "hexPairBytes (a # b # s) =
     bindE (orThrow (parseInt16 [a, b]) NonHex) (\<lambda>n. bindE (hexPairBytes s) (\<lambda>out. Inr (word_of_int n # out)))"
| "hexPairBytes _ = Inr []"

definition hexDecodeDigest :: "jsstr \<Rightarrow> digestError + bytes" where
  "hexDecodeDigest s = throwIf (length s mod 2 \<noteq> 0) OddHex (hexPairBytes s)"

definition dropEquals :: "jsstr \<Rightarrow> jsstr" where
  "dropEquals s = rev (dropWhile (\<lambda>u. [u] = js ''='') (rev s))"

definition decodeMultibase :: "baseLib \<Rightarrow> jsstr \<Rightarrow> digestError + bytes" where
  "decodeMultibase B value =
     (let prefix = take 1 value; body = drop 1 value in
      if prefix = [] \<or> body = [] then Inl EmptyDigest
      else if prefix = js ''z'' then
        (case base58btcDecode body of
           Inl ch \<Rightarrow> Inl (NotMultibase (Thrown (js ''invalid base58btc character: '' @ [ch])))
         | Inr bs \<Rightarrow> Inr bs)
      else if prefix = js ''u'' then mapErr NotMultibase (base64urlnopad B (dropEquals body))
      else if prefix = js ''m'' then mapErr NotMultibase (base64nopad B (dropEquals body))
      else if prefix = js ''b'' then mapErr NotMultibase (base32nopad B (toUpperCase B (dropEquals body)))
      else if prefix = js ''f'' \<or> prefix = js ''F'' then hexDecodeDigest (toLowerCase B body)
      else Inl (UnsupportedPrefix prefix))"

definition decodeDigestMultibase :: "baseLib \<Rightarrow> jsstr \<Rightarrow> digestError + bytes" where
  "decodeDigestMultibase B payloadDigest =
     bindE (decodeMultibase B payloadDigest) (\<lambda>bs.
     throwIf (length bs < length MULTIHASH_SHA2_256_32 \<or> at bs 0 \<noteq> at MULTIHASH_SHA2_256_32 0 \<or>
              at bs 1 \<noteq> at MULTIHASH_SHA2_256_32 1) NotSha256
     (let digest = drop (length MULTIHASH_SHA2_256_32) bs in
      throwIf (length digest \<noteq> 32) (WrongDigestLength (length digest)) (Inr digest)))"

definition MATCH_CODE_LEN :: nat where "MATCH_CODE_LEN = 6"

definition hexOfByte :: "byte \<Rightarrow> jsstr" where
  "hexOfByte b = map word_of_nat [hexCode (unat b div 16), hexCode (unat b mod 16)]"

definition matchCodeFromDigest :: "baseLib \<Rightarrow> jsstr \<Rightarrow> digestError + jsstr" where
  "matchCodeFromDigest B payloadDigest =
     bindE (decodeDigestMultibase B payloadDigest) (\<lambda>digest.
     let need = (MATCH_CODE_LEN + 1) div 2
     in Inr (take MATCH_CODE_LEN (concat (map (\<lambda>i. hexOfByte (digest ! i)) [0..<need]))))"

subsection \<open>The preimage is unambiguous\<close>

lemma length_beDigits [simp]: "length (beDigits k n) = k"
  by (induction k arbitrary: n) simp_all

lemma beDigits_inj: "m < 256 ^ k \<Longrightarrow> n < 256 ^ k \<Longrightarrow> beDigits k m = beDigits k n \<Longrightarrow> m = n"
proof (induction k arbitrary: m n)
  case (Suc k)
  have "beDigits k (m div 256) = beDigits k (n div 256)" and w: "(word_of_nat (m mod 256) :: byte) = word_of_nat (n mod 256)"
    using Suc.prems(3) by simp_all
  moreover have "m div 256 < 256 ^ k" "n div 256 < 256 ^ k"
    using Suc.prems(1,2) by (simp_all add: less_mult_imp_div_less mult.commute)
  ultimately have "m div 256 = n div 256" by (intro Suc.IH)
  moreover have "m mod 256 = n mod 256" using arg_cong [OF w, of unat] by (simp add: unat_of_nat)
  ultimately show ?case by (metis div_mult_mod_eq)
qed simp

definition saltText :: "jsstr option \<Rightarrow> jsstr" where
  "saltText salt = (case salt of Some s \<Rightarrow> s | None \<Rightarrow> [])"

lemma preimage_eq:
  "digestPreimage tag t c salt = textEncode tag @ u64be (length (textEncode t)) @ textEncode t @
     u64be (length (textEncode c)) @ textEncode c @ textEncode (saltText salt)"
  by (cases salt) (simp_all add: digestPreimage_def saltText_def textEncode_def Let_def)

lemma domain_bytes:
  "textEncode VTC_STEP_UP_DOMAIN = [0x76, 0x74, 0x63] @ textEncode (drop 3 VTC_STEP_UP_DOMAIN)"
  "textEncode TASK_CONSENT_DOMAIN = [0x76, 0x74, 0x61] @ textEncode (drop 3 TASK_CONSENT_DOMAIN)"
  by (simp_all add: VTC_STEP_UP_DOMAIN_def TASK_CONSENT_DOMAIN_def js_def textEncode_def scalars.simps(2) surrogates utf8Bytes_def)

lemma domains_apart:
  assumes "tag \<in> {VTC_STEP_UP_DOMAIN, TASK_CONSENT_DOMAIN}" "tag' \<in> {VTC_STEP_UP_DOMAIN, TASK_CONSENT_DOMAIN}"
    and "textEncode tag @ x = textEncode tag' @ y"
  shows "tag = tag' \<and> x = y"
proof (cases "tag = tag'")
  case False
  then have "textEncode VTC_STEP_UP_DOMAIN @ (if tag = VTC_STEP_UP_DOMAIN then x else y) =
      textEncode TASK_CONSENT_DOMAIN @ (if tag = VTC_STEP_UP_DOMAIN then y else x)"
    using assms by auto
  then show ?thesis unfolding domain_bytes by simp
qed (use assms(3) in simp)

definition fits64 :: "jsstr \<Rightarrow> bool" where
  "fits64 s \<longleftrightarrow> length (textEncode s) < 256 ^ 8"

lemma field_split:
  assumes "fits64 s" "fits64 t"
    and "u64be (length (textEncode s)) @ textEncode s @ x = u64be (length (textEncode t)) @ textEncode t @ y"
  shows "textEncode s = textEncode t \<and> x = y"
proof -
  have "u64be (length (textEncode s)) = u64be (length (textEncode t))" and r: "textEncode s @ x = textEncode t @ y"
    using assms(3) by (simp_all add: u64be_def append_eq_append_conv)
  then have "length (textEncode s) = length (textEncode t)"
    using assms(1,2) unfolding u64be_def fits64_def by (intro beDigits_inj)
  with r show ?thesis by simp
qed

lemma preimage_inj:
  assumes "tag \<in> {VTC_STEP_UP_DOMAIN, TASK_CONSENT_DOMAIN}" "tag' \<in> {VTC_STEP_UP_DOMAIN, TASK_CONSENT_DOMAIN}"
    and "fits64 t" "fits64 t'" "fits64 c" "fits64 c'" "digestPreimage tag t c salt = digestPreimage tag' t' c' salt'"
  shows "tag = tag' \<and> textEncode t = textEncode t' \<and> textEncode c = textEncode c' \<and>
    textEncode (saltText salt) = textEncode (saltText salt')"
  using domains_apart [OF assms(1,2)] field_split [OF assms(3,4)] field_split [OF assms(5,6)] assms(7)
  unfolding preimage_eq by blast

subsection \<open>Decoding what was encoded\<close>

lemma decode_multihash:
  "length d = 32 \<Longrightarrow> decodeDigestMultibase B (js ''z'' @ base58btcEncode (MULTIHASH_SHA2_256_32 @ d)) = Inr d"
proof -
  assume d: "length d = 32"
  let ?m = "MULTIHASH_SHA2_256_32 @ d"
  have dec: "base58btcDecode (base58btcEncode ?m) = Inr ?m" by (simp add: b58_decode_iff)
  then have ne: "base58btcEncode ?m \<noteq> []"
    by (auto simp: base58btcDecode_def MULTIHASH_SHA2_256_32_def Let_def)
  have "decodeMultibase B (js ''z'' @ base58btcEncode ?m) = Inr ?m"
    using dec ne by (simp add: decodeMultibase_def js_def)
  with d show ?thesis by (simp add: decodeDigestMultibase_def MULTIHASH_SHA2_256_32_def)
qed

lemma digest_decodes:
  "cryptoOk C \<Longrightarrow> domainDigest C tag t p salt = Inr dg \<Longrightarrow>
   \<exists>c. jcsCanonicalize p = Inr c \<and> decodeDigestMultibase B dg = Inr (sha256 C (digestPreimage tag t c salt))"
  by (auto simp: domainDigest_def bindE_Inr cryptoOk_def intro!: decode_multihash)

lemma digest_bytes:
  assumes "js ''z'' @ base58btcEncode (MULTIHASH_SHA2_256_32 @ x) = js ''z'' @ base58btcEncode (MULTIHASH_SHA2_256_32 @ y)"
  shows "x = y"
proof -
  have dec: "base58btcDecode (base58btcEncode m) = Inr m" for m by (simp add: b58_decode_iff)
  from assms have "base58btcEncode (MULTIHASH_SHA2_256_32 @ x) = base58btcEncode (MULTIHASH_SHA2_256_32 @ y)" by simp
  then have "(Inr (MULTIHASH_SHA2_256_32 @ x) :: 16 word + bytes) = Inr (MULTIHASH_SHA2_256_32 @ y)"
    unfolding dec [symmetric] by (rule arg_cong)
  then show ?thesis by simp
qed

lemma domainDigest_Inr:
  "domainDigest C tag t p salt = Inr dg \<longleftrightarrow> (\<exists>c. jcsCanonicalize p = Inr c \<and>
     dg = js ''z'' @ base58btcEncode (MULTIHASH_SHA2_256_32 @ sha256 C (digestPreimage tag t c salt)))"
  by (auto simp: domainDigest_def bindE_Inr)

text \<open>The operation a digest stands for: its type, payload and salt, of a size that fits the length fields.\<close>

definition operationOk :: "jsstr \<Rightarrow> members \<Rightarrow> bool" where
  "operationOk t p \<longleftrightarrow> goodDoc p \<and> fits64 t \<and> (\<forall>c. jcsCanonicalize (JObj p) = Inr c \<longrightarrow> fits64 c)"

text \<open>The bytes that are hashed for an operation.\<close>

definition operationBytes :: "jsstr \<Rightarrow> jsstr \<Rightarrow> members \<Rightarrow> jsstr option \<Rightarrow> bytes" where
  "operationBytes tag t p salt = digestPreimage tag t (canonicalText p) salt"

lemma digest_of_bytes:
  "domainDigest C tag t (JObj p) salt = Inr dg \<longleftrightarrow> returns (enc (JObj p)) \<and>
     dg = js ''z'' @ base58btcEncode (MULTIHASH_SHA2_256_32 @ sha256 C (operationBytes tag t p salt))"
  unfolding domainDigest_Inr operationBytes_def canonicalText_def jcsCanonicalize_def returns_iff
  by (cases "enc (JObj p)") (simp_all del: enc.simps)

lemma digest_binds:
  assumes tags: "tag \<in> {VTC_STEP_UP_DOMAIN, TASK_CONSENT_DOMAIN}" "tag' \<in> {VTC_STEP_UP_DOMAIN, TASK_CONSENT_DOMAIN}"
    and ok: "operationOk t p" "operationOk t' p'"
    and d: "domainDigest C tag t (JObj p) salt = Inr dg" "domainDigest C tag' t' (JObj p') salt' = Inr dg'"
    and inj: "inj_on (sha256 C) {operationBytes tag t p salt, operationBytes tag' t' p' salt'}"
  shows "dg = dg' \<longleftrightarrow> tag = tag' \<and> textEncode t = textEncode t' \<and> sameDoc p p' \<and>
      textEncode (saltText salt) = textEncode (saltText salt')"
proof -
  note e = d [unfolded digest_of_bytes]
  then obtain c c' where c: "enc (JObj p) = Inr c" "enc (JObj p') = Inr c'" unfolding returns_iff by blast
  have "dg = dg' \<longleftrightarrow> sha256 C (operationBytes tag t p salt) = sha256 C (operationBytes tag' t' p' salt')"
    using e digest_bytes by metis
  also have "\<dots> \<longleftrightarrow> operationBytes tag t p salt = operationBytes tag' t' p' salt'" using inj_on_eq_iff [OF inj] by blast
  also have "\<dots> \<longleftrightarrow> tag = tag' \<and> textEncode t = textEncode t' \<and> textEncode c = textEncode c' \<and>
      textEncode (saltText salt) = textEncode (saltText salt')" (is "?l \<longleftrightarrow> ?r")
  proof
    have f: "fits64 t" "fits64 t'" "fits64 c" "fits64 c'"
      using ok c unfolding operationOk_def jcsCanonicalize_def by blast+
    show "?l \<Longrightarrow> ?r"
      using preimage_inj [OF tags f] unfolding operationBytes_def canonical_text [OF c(1)] canonical_text [OF c(2)] by blast
  qed (simp add: operationBytes_def canonical_text [OF c(1)] canonical_text [OF c(2)] preimage_eq)
  also have "textEncode c = textEncode c' \<longleftrightarrow> sameDoc p p'"
    using canonical_same [OF c] ok canonical_text [OF c(1)] canonical_text [OF c(2)]
    by (simp add: operationOk_def canonicalBytes_def)
  finally show ?thesis .
qed

lemma match_code:
  assumes "cryptoOk C" and "domainDigest C tag t p salt = Inr dg"
  shows "\<exists>c. jcsCanonicalize p = Inr c \<and>
    matchCodeFromDigest B dg = Inr (concat (map hexOfByte (take 3 (sha256 C (digestPreimage tag t c salt)))))"
proof -
  obtain c where c: "jcsCanonicalize p = Inr c" "decodeDigestMultibase B dg = Inr (sha256 C (digestPreimage tag t c salt))"
    using digest_decodes [OF assms] by blast
  let ?h = "sha256 C (digestPreimage tag t c salt)"
  have "length ?h = 32" using assms(1) by (simp add: cryptoOk_def)
  then obtain a b d r where h: "?h = a # b # d # r" by (auto simp: numeral_eq_Suc length_Suc_conv)
  have u: "[0..<(MATCH_CODE_LEN + 1) div 2] = [0, 1, 2]" by (simp add: MATCH_CODE_LEN_def upt_rec)
  have three: "take 3 ?h = [a, b, d]" by (simp add: h numeral_eq_Suc)
  have "length (concat (map hexOfByte [a, b, d])) = MATCH_CODE_LEN" by (simp add: MATCH_CODE_LEN_def hexOfByte_def)
  then have "take MATCH_CODE_LEN (concat (map hexOfByte [a, b, d])) = concat (map hexOfByte [a, b, d])"
    by (intro take_all) simp
  moreover have "map (\<lambda>i. hexOfByte (?h ! i)) [0, 1, 2] = map hexOfByte [a, b, d]" by (simp add: h)
  ultimately have "matchCodeFromDigest B dg = Inr (concat (map hexOfByte (take 3 ?h)))"
    unfolding matchCodeFromDigest_def c(2) bindE.simps Let_def u three by (simp only:)
  with c(1) show ?thesis by blast
qed

definition sampleBaseLib :: baseLib where
  "sampleBaseLib = \<lparr>base64urlnopad = (\<lambda>s. Inl TypeErr), base64nopad = (\<lambda>s. Inl TypeErr), base32nopad = (\<lambda>s. Inl TypeErr),
     toUpperCase = (\<lambda>s. s), toLowerCase = asciiLower\<rparr>"

text \<open>One payload, its members in two orders.\<close>

definition samplePayload :: members where
  "samplePayload = [(js ''a'', JBool True), (js ''b'', JNull)]"

definition swappedPayload :: members where
  "swappedPayload = [(js ''b'', JNull), (js ''a'', JBool True)]"

definition sampleText :: jsstr where
  "sampleText = [123, 34, 97, 34, 58, 116, 114, 117, 101, 44, 34, 98, 34, 58, 110, 117, 108, 108, 125]"

lemma sample_payloads:
  "jcsCanonicalize (JObj samplePayload) = Inr sampleText" "jcsCanonicalize (JObj swappedPayload) = Inr sampleText"
  "samplePayload \<noteq> swappedPayload" "operationOk (js ''t'') samplePayload" "operationOk (js ''t'') swappedPayload"
proof -
  show j: "jcsCanonicalize (JObj samplePayload) = Inr sampleText" "jcsCanonicalize (JObj swappedPayload) = Inr sampleText"
    by (simp_all add: jcsCanonicalize_def samplePayload_def swappedPayload_def sampleText_def js_def encString_def encUnit_def)
  show "samplePayload \<noteq> swappedPayload" by (simp add: samplePayload_def swappedPayload_def js_def)
  have "fits64 (js ''t'')" "fits64 sampleText"
    by (simp_all add: fits64_def sampleText_def js_def textEncode_def scalars.simps(2) surrogates utf8Bytes_def)
  moreover have "goodDoc samplePayload" "goodDoc swappedPayload"
    by (simp_all add: goodDoc_def samplePayload_def swappedPayload_def js_def wellFormedUnits.simps(2) surrogates)
  ultimately show "operationOk (js ''t'') samplePayload" "operationOk (js ''t'') swappedPayload"
    using j by (simp_all add: operationOk_def)
qed

subsection \<open>Properties\<close>

text \<open>C27: A digest binds one operation, for operations whose payload is an object, with no member twice, of well-formed text
  (\<open>operationOk\<close>; a payload with lone surrogates can share its digest with another, \<open>lone_surrogates_not_covered\<close>): unless SHA-256
  maps the two byte strings at hand to one hash, digests under the two domain tags of the code are equal exactly for the same
  domain, the same payload up to the order of members, and types and challenges with the same UTF-8 encoding.\<close>

theorem digest_binds_operation:
  assumes "tag \<in> {VTC_STEP_UP_DOMAIN, TASK_CONSENT_DOMAIN}" and "tag' \<in> {VTC_STEP_UP_DOMAIN, TASK_CONSENT_DOMAIN}"
    and "operationOk t p" and "operationOk t' p'"
    and "domainDigest C tag t (JObj p) salt = Inr dg" and "domainDigest C tag' t' (JObj p') salt' = Inr dg'"
    and "inj_on (sha256 C) {operationBytes tag t p salt, operationBytes tag' t' p' salt'}"
  shows "dg = dg' \<longleftrightarrow> tag = tag' \<and> textEncode t = textEncode t' \<and> sameDoc p p' \<and>
      textEncode (saltText salt) = textEncode (saltText salt')"
  using assms by (rule digest_binds)

theorem digest_binds_operation_witness:
  "\<exists>dg dg'. domainDigest sampleCrypto TASK_CONSENT_DOMAIN (js ''t'') (JObj samplePayload) None = Inr dg \<and>
     domainDigest sampleCrypto TASK_CONSENT_DOMAIN (js ''t'') (JObj swappedPayload) None = Inr dg' \<and>
     samplePayload \<noteq> swappedPayload \<and> dg = dg' \<and> sameDoc samplePayload swappedPayload"
proof -
  note p = sample_payloads
  obtain dg where dg: "domainDigest sampleCrypto TASK_CONSENT_DOMAIN (js ''t'') (JObj samplePayload) None = Inr dg"
    "domainDigest sampleCrypto TASK_CONSENT_DOMAIN (js ''t'') (JObj swappedPayload) None = Inr dg"
    using p(1,2) by (simp add: domainDigest_def)
  have inj: "inj_on (sha256 sampleCrypto) {operationBytes TASK_CONSENT_DOMAIN (js ''t'') samplePayload None, operationBytes TASK_CONSENT_DOMAIN (js ''t'') swappedPayload None}"
    using p(1,2) by (simp add: operationBytes_def canonicalText_def jcsCanonicalize_def)
  from digest_binds_operation [OF _ _ p(4,5) dg inj] dg p(3) show ?thesis by blast
qed

text \<open>The code two approvers compare is taken from the digest itself: every digest the wallet computes is
  read back to its 32 hash bytes, and its match code is the first three of them in hexadecimal.\<close>

theorem match_code_of_digest:
  assumes "cryptoOk C" and "domainDigest C tag t p salt = Inr dg"
  shows "\<exists>c. jcsCanonicalize p = Inr c \<and>
    matchCodeFromDigest B dg = Inr (concat (map hexOfByte (take 3 (sha256 C (digestPreimage tag t c salt)))))"
  using assms by (rule match_code)

theorem match_code_of_digest_witness:
  "\<exists>dg code. domainDigest sampleCrypto TASK_CONSENT_DOMAIN (js ''t'') JNull None = Inr dg \<and>
     matchCodeFromDigest sampleBaseLib dg = Inr code"
proof -
  obtain dg where dg: "domainDigest sampleCrypto TASK_CONSENT_DOMAIN (js ''t'') JNull None = Inr dg"
    by (simp add: domainDigest_def jcsCanonicalize_def)
  with match_code_of_digest [OF sampleCrypto_ok dg, of sampleBaseLib] show ?thesis by blast
qed

text \<open>A base16 digest is read with \<open>parseInt\<close>, which stops at the first character that is not a digit.\<close>

lemma lax_hex: "hexDecodeDigest (js ''1g'') = Inr [1]"
  by (simp add: hexDecodeDigest_def parseInt16_def js_def trimStart_def isJsSpace_def isHexDigit_def isDigit_def
      ofHexDigits_def hexDigitVal_def)

end
