(* ===== verification/Trust_Task.thy ===== *)
theory Trust_Task
  imports Data_Integrity
begin

text \<open>
  The envelope every operation travels in, on every transport: \<open>packages/core/src/vta/trust-task.ts\<close> (building,
  signing and reading trust-task documents), the error documents of \<open>protocol.ts\<close>, the schema check of
  \<open>trust-tasks/validate.ts\<close> and the waiting times of \<open>budget.ts\<close>. The status codes of the framework runtime and
  the schema validator are parameters; the random id is an argument, the time the clock's milliseconds.
\<close>

subsection \<open>Errors\<close>

datatype vtaErrorCode =
    Unauthorized | Forbidden | Notfound | Conflict | RateLimited | BadRequest | Internal
  | ClientNetwork | ClientTimeout | ClientParse | ClientIdentity | InvalidSessionKey | SessionKeyNotBound | ClientUnsupported

datatype taskError =
    SignedNotSentAs jsval jsstr jsstr | IssuerNotSigner jsval jsval jsstr | NoRecipient jsval
  | ReplyUnverified jsstr reason | ReplyBySomeoneElse jsstr jsstr
  | TaskRefused vtaErrorCode jsval jsval | UnexpectedReplyType jsstr jsval jsval
  | ProofFailure diError | TaskTypeError

text \<open>The \<open>code\<close> of the \<open>VtaClientError\<close>; an exception of another kind has none.\<close>

fun errorCode :: "taskError \<Rightarrow> vtaErrorCode option" where
  "errorCode (SignedNotSentAs _ _ _) = Some ClientIdentity"
| "errorCode (IssuerNotSigner _ _ _) = Some ClientIdentity"
| "errorCode (NoRecipient _) = Some ClientIdentity"
| "errorCode (ReplyUnverified _ _) = Some ClientParse"
| "errorCode (ReplyBySomeoneElse _ _) = Some ClientParse"
| "errorCode (TaskRefused c _ _) = Some c"
| "errorCode (UnexpectedReplyType _ _ _) = Some ClientParse"
| "errorCode _ = None"

definition ERROR_TYPE_PREFIX :: jsstr where
  "ERROR_TYPE_PREFIX = js ''https://trusttasks.org/spec/trust-task-error/0.''"

definition isTrustTaskErrorType :: "jsval \<Rightarrow> bool" where
  "isTrustTaskErrorType t =
     (case t of
        JStr s \<Rightarrow> startsWith s ERROR_TYPE_PREFIX \<and>
          (let minor = drop (length ERROR_TYPE_PREFIX) s in minor \<noteq> [] \<and> list_all isDigit minor)
      | _ \<Rightarrow> False)"

subsection \<open>Building and signing a request\<close>

record taskOptions =
  optId :: "jsstr option"
  optIssuer :: "jsstr option"
  optRecipient :: "jsstr option"
  optIssuedAt :: "jsstr option"
  optThreadId :: "jsstr option"
  optExpiresAt :: "jsstr option"

definition whenSet :: "string \<Rightarrow> jsstr option \<Rightarrow> members" where
  "whenSet k v = (case v of Some s \<Rightarrow> [(js k, JStr s)] | None \<Rightarrow> [])"

text \<open>The current time as the code writes it; the clock of the platform is always in range.\<close>

definition nowText :: "int \<Rightarrow> jsstr" where
  "nowText now = (case toISOString now of Some t \<Rightarrow> t | None \<Rightarrow> [])"

definition buildTrustTask :: "jsstr \<Rightarrow> int \<Rightarrow> jsstr \<Rightarrow> jsval \<Rightarrow> taskOptions \<Rightarrow> members" where
  "buildTrustTask uuid now type payload opts =
     [(js ''id'', JStr (case optId opts of Some i \<Rightarrow> i | None \<Rightarrow> uuid)), (js ''type'', JStr type)] @
     whenSet ''issuer'' (optIssuer opts) @ whenSet ''recipient'' (optRecipient opts) @
     whenSet ''threadId'' (optThreadId opts) @
     [(js ''issuedAt'', JStr (case optIssuedAt opts of Some t \<Rightarrow> t | None \<Rightarrow> nowText now))] @
     whenSet ''expiresAt'' (optExpiresAt opts) @ [(js ''payload'', payload)]"

record taskSigner =
  signerDid :: jsstr
  signEnvelope :: "members \<Rightarrow> jsstr option \<Rightarrow> taskError + members"

definition purposeOfDocument :: "members \<Rightarrow> jsstr" where
  "purposeOfDocument envelope =
     (case getMember envelope (js ''type'') of JStr t \<Rightarrow> proofPurposeForDocumentType t | _ \<Rightarrow> AUTHENTICATION)"

definition localTaskSigner :: "crypto \<Rightarrow> int \<Rightarrow> jsstr \<Rightarrow> jsstr \<Rightarrow> bytes \<Rightarrow> taskSigner" where
  "localTaskSigner C now did kid privateKey = \<lparr>
     signerDid = did,
     signEnvelope = (\<lambda>envelope purpose. mapErr ProofFailure (signTrustTask C now envelope kid privateKey
       (case purpose of Some p \<Rightarrow> p | None \<Rightarrow> purposeOfDocument envelope) DEFAULT_CLOCK_SKEW_MS))\<rparr>"

definition setIf :: "bool \<Rightarrow> string \<Rightarrow> jsstr \<Rightarrow> members \<Rightarrow> members" where
  "setIf c k v ms = (if c then setMember (js k) (JStr v) ms else ms)"

text \<open>What is filled in before signing.\<close>

definition completeEnvelope :: "jsstr \<Rightarrow> int \<Rightarrow> jsstr \<Rightarrow> members \<Rightarrow> members" where
  "completeEnvelope uuid now did envelope =
     (let withIssuer = setIf (getMember envelope (js ''issuer'') = JUndefined) ''issuer'' did envelope;
          withId = setIf (\<not> truthy (getMember withIssuer (js ''id''))) ''id'' uuid withIssuer
      in setIf (\<not> truthy (getMember withId (js ''issuedAt''))) ''issuedAt'' (nowText now) withId)"

definition signOutboundTask ::
  "jsstr \<Rightarrow> int \<Rightarrow> taskSigner \<Rightarrow> jsstr option \<Rightarrow> members \<Rightarrow> taskError + members" where
  "signOutboundTask uuid now signer transportSender envelope =
     (let type = getMember envelope (js ''type''); issuer = getMember envelope (js ''issuer'') in
      if transportSender \<noteq> None \<and> signerDid signer \<noteq> the transportSender
      then Inl (SignedNotSentAs type (signerDid signer) (the transportSender))
      else if issuer \<noteq> JUndefined \<and> issuer \<noteq> JStr (signerDid signer)
      then Inl (IssuerNotSigner type issuer (signerDid signer))
      else let completed = completeEnvelope uuid now (signerDid signer) envelope in
        if \<not> truthy (getMember completed (js ''recipient'')) then Inl (NoRecipient type)
        else signEnvelope signer completed (Some (purposeOfDocument completed)))"

subsection \<open>Reading a reply\<close>

definition verifyTrustTaskReply :: "crypto \<Rightarrow> didLib \<Rightarrow> jsstr \<Rightarrow> jsstr option \<Rightarrow> members \<Rightarrow> taskError + unit" where
  "verifyTrustTaskReply C L expectedSigner proofPurpose doc =
     (if isTrustTaskErrorType (getMember doc (js ''type'')) then Inr ()
      else let purpose = (case proofPurpose of Some p \<Rightarrow> p | None \<Rightarrow> AUTHENTICATION) in
        bindE (mapErr ProofFailure (verifyTrustTaskProof C L (if purpose = js ''any'' then None else Some purpose) doc))
          (\<lambda>result. case result of
             Unverified _ r \<Rightarrow> Inl (ReplyUnverified expectedSigner r)
           | Verified signer \<Rightarrow> throwIf (signer \<noteq> expectedSigner) (ReplyBySomeoneElse expectedSigner signer) (Inr ())))"

record codeLib =
  normalizeCode :: "jsstr \<Rightarrow> jsstr"
  isStandardCode :: "jsstr \<Rightarrow> bool"

definition coerceTrustTaskCode :: "codeLib \<Rightarrow> jsstr \<Rightarrow> vtaErrorCode" where
  "coerceTrustTaskCode R raw =
     (let norm = normalizeCode R raw;
          local = (if isStandardCode R norm then norm else normalizeCode R (last (splitOn (hd (js '':'')) raw)))
      in if local = js ''permissionDenied'' then Forbidden
         else if local = js ''idConflict'' then Conflict
         else if local = js ''internalError'' \<or> local = js ''unavailable'' then Internal
         else BadRequest)"

fun orElse :: "jsval \<Rightarrow> jsval \<Rightarrow> jsval" where
  "orElse v w = (if isNullish v then w else v)"

text \<open>A status code that is not a string makes \<open>lastIndexOf\<close> throw.\<close>

definition refusal :: "codeLib \<Rightarrow> jsval \<Rightarrow> taskError" where
  "refusal R err =
     (let code = getProp err (js ''code'');
          text = orElse (getProp err (js ''message'')) (orElse code (JStr (js ''trust-task error'')))
      in case orElse code (JStr []) of
           JStr raw \<Rightarrow> TaskRefused (coerceTrustTaskCode R raw) text err
         | _ \<Rightarrow> TaskTypeError)"

definition parseTrustTaskReply ::
  "codeLib \<Rightarrow> jsstr option \<Rightarrow> jsstr option \<Rightarrow> members \<Rightarrow> taskError + jsval" where
  "parseTrustTaskReply R expectedResponseType operationLabel doc =
     (let type = getMember doc (js ''type''); payload = orElse (getMember doc (js ''payload'')) (JObj []) in
      if isTrustTaskErrorType type then Inl (refusal R payload)
      else if expectedResponseType \<noteq> None \<and> type \<noteq> JStr (the expectedResponseType)
      then Inl (UnexpectedReplyType (case operationLabel of Some l \<Rightarrow> l | None \<Rightarrow> the expectedResponseType)
              (orElse type (JStr (js ''(none)''))) (JObj doc))
      else Inr payload)"

subsection \<open>The schema of a payload\<close>

type_synonym violation = "jsstr \<times> jsstr"

datatype schemaResult = ValidPayload | Violations "violation list"

text \<open>\<open>run schema payload\<close> is the validator of \<open>@cfworker/json-schema\<close>: the errors it lists, or none. The map of
  compiled validators changes nothing about the result.\<close>

definition validateAgainstSchema :: "(jsval \<Rightarrow> jsval \<Rightarrow> violation list option) \<Rightarrow> jsval \<Rightarrow> jsval \<Rightarrow> schemaResult" where
  "validateAgainstSchema run schema payload =
     (if \<not> isObject schema then Violations [([], js ''no schema to validate against'')]
      else case run schema payload of None \<Rightarrow> ValidPayload | Some errors \<Rightarrow> Violations errors)"

definition describeViolations :: "violation list \<Rightarrow> jsstr" where
  "describeViolations vs =
     joinWith (js ''; '') (map (\<lambda>(loc, err). (if loc = [] then js ''(root)'' else loc) @ js '': '' @ err) vs)"

subsection \<open>How long to wait\<close>

definition TSP_REPLY_TIMEOUT_MS :: int where "TSP_REPLY_TIMEOUT_MS = 30000"
definition RELAY_HOPS :: int where "RELAY_HOPS = 2"
definition REFORM_MARGIN_MS :: int where "REFORM_MARGIN_MS = 10000"
definition CLIENT_MARGIN_MS :: int where "CLIENT_MARGIN_MS = 10000"

definition relayWorstCaseMs :: int where "relayWorstCaseMs = RELAY_HOPS * TSP_REPLY_TIMEOUT_MS + REFORM_MARGIN_MS"
definition minRelayBudgetMs :: int where "minRelayBudgetMs = relayWorstCaseMs + CLIENT_MARGIN_MS"

definition RELAYS_ONWARD :: "jsstr list" where
  "RELAYS_ONWARD = map (\<lambda>s. js (''https://trusttasks.org/spec/'' @ s))
     [''vta/webvh/dids/create/1.2'', ''vta/webvh/dids/delete/1.0'', ''vta/webvh/dids/update/1.1'',
      ''vta/webvh/dids/rotate-keys/1.0'', ''vta/webvh/dids/register-with-server/1.0'',
      ''vta/webvh/agent-name/list/1.1'', ''vta/webvh/agent-name/check/1.0'', ''vta/webvh/agent-name/set/1.0'',
      ''vta/webvh/agent-name/remove/1.0'', ''vta/webvh/agent-name/disable/1.0'', ''vta/webvh/agent-name/enable/1.0'',
      ''vta/webvh/servers/domains/0.1'', ''vta/webvh/servers/reconcile/0.1'', ''vta/webvh/servers/retire-orphan/0.1'',
      ''rooms/owner/register/0.2'', ''rooms/keys/backfill/0.2'', ''rooms/keys/read/0.2'', ''rooms/keys/browse/0.4'',
      ''vault/proxy-login/0.2'', ''provision/integration/0.3'']"

definition relaysOnward :: "jsstr \<Rightarrow> bool" where "relaysOnward type \<longleftrightarrow> type \<in> set RELAYS_ONWARD"

definition clientBudgetMs :: "jsstr \<Rightarrow> int \<Rightarrow> int" where
  "clientBudgetMs type requestedMs = (if relaysOnward type then max requestedMs minRelayBudgetMs else requestedMs)"

subsection \<open>What leaves and what is believed\<close>

lemma budget_exceeds_worst_case: "relaysOnward type \<Longrightarrow> relayWorstCaseMs < clientBudgetMs type requestedMs"
  "requestedMs \<le> clientBudgetMs type requestedMs"
  by (simp_all add: clientBudgetMs_def minRelayBudgetMs_def CLIENT_MARGIN_MS_def)

lemma getMember_setIf: "getMember (setIf c k v ms) j = (if c \<and> j = js k then JStr v else getMember ms j)"
  by (simp add: setIf_def getMember_setMember)

lemma distinct_setIf: "distinct (map fst ms) \<Longrightarrow> distinct (map fst (setIf c k v ms))"
  by (simp add: setIf_def distinct_setMember)

lemma distinct_complete: "distinct (map fst env) \<Longrightarrow> distinct (map fst (completeEnvelope uuid now did env))"
  unfolding completeEnvelope_def Let_def by (intro distinct_setIf)

lemma complete_others:
  "j \<notin> {js ''issuer'', js ''id'', js ''issuedAt''} \<Longrightarrow> getMember (completeEnvelope uuid now did env) j = getMember env j"
  by (simp add: completeEnvelope_def Let_def getMember_setIf)

lemma member_names: "js ''issuer'' \<noteq> js ''id''" "js ''issuer'' \<noteq> js ''issuedAt''" "js ''id'' \<noteq> js ''issuedAt''"
  "js ''proof'' \<noteq> js ''id''" "js ''proof'' \<noteq> js ''issuer''" "js ''proof'' \<noteq> js ''issuedAt''" "js ''proof'' \<noteq> js ''type''"
  "js ''type'' \<noteq> js ''id''" "js ''type'' \<noteq> js ''issuer''" "js ''type'' \<noteq> js ''issuedAt''" "js ''recipient'' \<noteq> js ''id''"
  "js ''recipient'' \<noteq> js ''issuer''" "js ''recipient'' \<noteq> js ''issuedAt''" "js ''recipient'' \<noteq> js ''proof''"
  by (simp_all add: js_def)

lemma complete_named:
  assumes "getMember env (js ''issuer'') \<in> {JUndefined, JStr did}" "uuid \<noteq> []" "nowText now \<noteq> []"
  shows "getMember (completeEnvelope uuid now did env) (js ''issuer'') = JStr did"
    "truthy (getMember (completeEnvelope uuid now did env) (js ''id''))"
    "truthy (getMember (completeEnvelope uuid now did env) (js ''issuedAt''))"
  using assms member_names by (auto simp: completeEnvelope_def Let_def getMember_setIf)

lemma signOutbound_local:
  "signOutboundTask uuid now (localTaskSigner C t did kid sk) sender env = Inr out \<longleftrightarrow>
     (sender = None \<or> sender = Some did) \<and> getMember env (js ''issuer'') \<in> {JUndefined, JStr did} \<and>
     truthy (getMember env (js ''recipient'')) \<and>
     signTrustTask C t (completeEnvelope uuid now did env) kid sk (purposeOfDocument env) DEFAULT_CLOCK_SKEW_MS = Inr out"
proof -
  have p: "purposeOfDocument (completeEnvelope uuid now did env) = purposeOfDocument env"
    using member_names by (simp add: purposeOfDocument_def complete_others)
  have r: "getMember (completeEnvelope uuid now did env) (js ''recipient'') = getMember env (js ''recipient'')"
    using member_names by (simp add: complete_others)
  show ?thesis unfolding signOutboundTask_def localTaskSigner_def Let_def
    by (cases sender) (auto simp: p r)
qed

lemma signed_others:
  "signTrustTask C t env kid sk purpose skew = Inr out \<Longrightarrow> j \<noteq> js ''proof'' \<Longrightarrow> getMember out j = getMember env j"
  by (auto simp: signTrustTask_Inr getMember_setMember)

text \<open>A document as every consumer requires it: named issuer, id, time and audience.\<close>

definition addressed :: "jsstr \<Rightarrow> members \<Rightarrow> bool" where
  "addressed did d \<longleftrightarrow> getMember d (js ''issuer'') = JStr did \<and> truthy (getMember d (js ''id'')) \<and>
     truthy (getMember d (js ''issuedAt'')) \<and> truthy (getMember d (js ''recipient''))"

lemma outbound:
  assumes C: "cryptoOk C" "length sk = 32" and kid: "hasHash kid" "controllerOf kid = did"
    and L: "publishes L kid (edPublicKey C sk) (purposeOfDocument env)" "stripScidSrc L did = did"
    and env: "distinct (map fst env)" "uuid \<noteq> []" "nowText now \<noteq> []"
    and out: "signOutboundTask uuid now (localTaskSigner C t did kid sk) sender env = Inr out"
    and same: "sameDoc received out"
  shows "verifyTrustTaskProof C L (Some (purposeOfDocument out)) received = Inr (Verified did) \<and> addressed did out \<and>
    (sender = None \<or> sender = Some did) \<and>
    (\<forall>j. j \<notin> {js ''issuer'', js ''id'', js ''issuedAt'', js ''proof''} \<longrightarrow> getMember out j = getMember env j)"
proof -
  let ?e = "completeEnvelope uuid now did env"
  have s: "sender = None \<or> sender = Some did" "getMember env (js ''issuer'') \<in> {JUndefined, JStr did}"
    "truthy (getMember env (js ''recipient''))"
    "signTrustTask C t ?e kid sk (purposeOfDocument env) DEFAULT_CLOCK_SKEW_MS = Inr out"
    using out unfolding signOutbound_local by simp_all
  have o: "getMember out j = getMember ?e j" if "j \<noteq> js ''proof''" for j using signed_others [OF s(4) that] .
  have p: "purposeOfDocument out = purposeOfDocument env"
    using member_names by (simp add: purposeOfDocument_def o complete_others)
  have v: "verifyTrustTaskProof C L (Some (purposeOfDocument env)) received = Inr (Verified (stripScidSrc L (controllerOf kid)))"
    by (rule signed_verifies [OF C s(4) kid(1) L(1) distinct_complete [OF env(1)] same])
  have a: "addressed did out"
    using complete_named [OF s(2) env(2,3)] s(3) o member_names by (simp add: addressed_def complete_others)
  have "getMember out j = getMember env j" if "j \<notin> {js ''issuer'', js ''id'', js ''issuedAt'', js ''proof''}" for j
    using that o [of j] complete_others [of j] by simp
  with v p a s(1) L(2) kid(2) show ?thesis by simp
qed

lemma reply_verified:
  "verifyTrustTaskReply C L agent purpose doc = Inr () \<Longrightarrow> purpose \<noteq> Some (js ''any'') \<Longrightarrow>
   \<not> isTrustTaskErrorType (getMember doc (js ''type'')) \<Longrightarrow>
   \<exists>vm. agent = stripScidSrc L (controllerOf vm) \<and>
     signedUnder C L (case purpose of Some p \<Rightarrow> p | None \<Rightarrow> AUTHENTICATION) doc vm"
proof -
  assume v: "verifyTrustTaskReply C L agent purpose doc = Inr ()" "purpose \<noteq> Some (js ''any'')"
    "\<not> isTrustTaskErrorType (getMember doc (js ''type''))"
  let ?p = "case purpose of Some p \<Rightarrow> p | None \<Rightarrow> AUTHENTICATION"
  have p: "?p \<noteq> js ''any''" using v(2) by (auto simp: AUTHENTICATION_def js_def split: option.splits)
  with v(1,3) obtain r where r: "verifyTrustTaskProof C L (Some ?p) doc = Inr r"
    and c: "(case r of Unverified _ x \<Rightarrow> Inl (ReplyUnverified agent x)
             | Verified signer \<Rightarrow> throwIf (signer \<noteq> agent) (ReplyBySomeoneElse agent signer) (Inr ())) = Inr ()"
    unfolding verifyTrustTaskReply_def Let_def bindE_Inr by (simp only: if_False mapErr_Inr bindE_Inr) blast
  from c have "r = Verified agent" by (cases r) (simp_all split: if_splits)
  with r verified_iff show ?thesis by blast
qed

lemma parse_reply:
  "parseTrustTaskReply R expected lbl doc = Inr payload \<longleftrightarrow>
     \<not> isTrustTaskErrorType (getMember doc (js ''type'')) \<and>
     (\<forall>t. expected = Some t \<longrightarrow> getMember doc (js ''type'') = JStr t) \<and>
     payload = orElse (getMember doc (js ''payload'')) (JObj [])"
  by (cases expected) (auto simp: parseTrustTaskReply_def Let_def)

definition sampleSigner :: taskSigner where
  "sampleSigner = localTaskSigner sampleCrypto 60000 (js ''did:x'') (js ''did:x#k'') (replicate 32 1)"

definition sampleTask :: members where
  "sampleTask = [(js ''type'', JStr (js ''t'')), (js ''recipient'', JStr (js ''did:y''))]"

abbreviation sampleLib :: didLib where
  "sampleLib \<equiv> sampleDidLib (js ''did:x#k'') (replicate 32 1) AUTHENTICATION"

lemma sample_did: "controllerOf (js ''did:x#k'') = js ''did:x''" "hasHash (js ''did:x#k'')" "stripScidSrc sampleLib d = d"
  "publishes sampleLib (js ''did:x#k'') (replicate 32 1) AUTHENTICATION"
proof -
  show c: "controllerOf (js ''did:x#k'') = js ''did:x''" "hasHash (js ''did:x#k'')"
    by (simp_all add: controllerOf_def hasHash_def fragmentOf_def js_def)
  show "publishes sampleLib (js ''did:x#k'') (replicate 32 1) AUTHENTICATION"
    by (rule sample_publishes, unfold c) (simp_all add: startsWith_def js_def AUTHENTICATION_def)
qed (simp add: sampleDidLib_def)

lemma sample_purpose: "purposeOfDocument sampleTask = AUTHENTICATION"
  by (simp add: purposeOfDocument_def sampleTask_def getMember_Cons proofPurposeForDocumentType_def startsWith_def REGISTRY_PREFIX_def js_def)

lemma sample_signs: "\<exists>out. signOutboundTask (js ''u'') 0 sampleSigner None sampleTask = Inr out"
proof -
  have "jsonValue (JObj (completeEnvelope (js ''u'') 0 (js ''did:x'') sampleTask))"
    by (simp add: completeEnvelope_def Let_def sampleTask_def setIf_def getMember_Cons setMember_def js_def)
  from signing_returns [OF this _ sample_signature(1), of 60000 DEFAULT_CLOCK_SKEW_MS]
  obtain out where o: "signTrustTask sampleCrypto 60000 (completeEnvelope (js ''u'') 0 (js ''did:x'') sampleTask)
      (js ''did:x#k'') (replicate 32 1) (purposeOfDocument sampleTask) DEFAULT_CLOCK_SKEW_MS = Inr out"
    by (simp add: DEFAULT_CLOCK_SKEW_MS_def) blast
  have "getMember sampleTask (js ''issuer'') = JUndefined" "truthy (getMember sampleTask (js ''recipient''))"
    by (simp_all add: sampleTask_def getMember_Cons js_def)
  with o show ?thesis unfolding sampleSigner_def signOutbound_local by blast
qed

lemma nowText_epoch: "nowText 0 \<noteq> []"
  by (simp add: nowText_def toISOString_epoch js_def)

subsection \<open>Properties\<close>

text \<open>What leaves is accepted: a document signed on its way out with the wallet's own key names its issuer,
  id, time and audience, is sent by its signer, keeps every other member, and verifies at the
  receiver under the purpose its type requires, in whatever order its members arrive.\<close>

theorem outbound_task_verifies:
  assumes "cryptoOk C" and "length sk = 32" and "hasHash kid" and "controllerOf kid = did"
    and "publishes L kid (edPublicKey C sk) (purposeOfDocument env)" and "stripScidSrc L did = did"
    and "distinct (map fst env)" and "uuid \<noteq> []" and "nowText now \<noteq> []"
    and "signOutboundTask uuid now (localTaskSigner C t did kid sk) sender env = Inr out"
    and "sameDoc received out"
  shows "verifyTrustTaskProof C L (Some (purposeOfDocument out)) received = Inr (Verified did) \<and> addressed did out \<and>
    (sender = None \<or> sender = Some did) \<and>
    (\<forall>j. j \<notin> {js ''issuer'', js ''id'', js ''issuedAt'', js ''proof''} \<longrightarrow> getMember out j = getMember env j)"
  using assms by (rule outbound)

theorem outbound_task_verifies_witness:
  "\<exists>out. signOutboundTask (js ''u'') 0 sampleSigner None sampleTask = Inr out \<and>
     verifyTrustTaskProof sampleCrypto sampleLib (Some (purposeOfDocument out)) out = Inr (Verified (js ''did:x''))"
proof -
  obtain out where o: "signOutboundTask (js ''u'') 0 sampleSigner None sampleTask = Inr out" using sample_signs by blast
  have d: "distinct (map fst sampleTask)" by (simp add: sampleTask_def js_def)
  have "publishes sampleLib (js ''did:x#k'') (edPublicKey sampleCrypto (replicate 32 1)) (purposeOfDocument sampleTask)"
    unfolding sample_signature(2) sample_purpose by (rule sample_did(4))
  from outbound_task_verifies [OF sampleCrypto_ok length_replicate sample_did(2,1) this sample_did(3) d _ nowText_epoch
      o [unfolded sampleSigner_def], of out]
  show ?thesis using o by (simp add: sameDoc_def js_def)
qed

text \<open>A result is evidence: a reply that passes \<open>verifyTrustTaskReply\<close> and \<open>parseTrustTaskReply\<close> is not an error
  document, is of the expected type, and is signed as a whole by the very agent the channel is talking to
  under the required purpose; what is returned is its payload.\<close>

theorem reply_is_evidence:
  assumes "verifyTrustTaskReply C L agent purpose doc = Inr ()" and "purpose \<noteq> Some (js ''any'')"
    and "parseTrustTaskReply R expected lbl doc = Inr payload"
  shows "(\<exists>vm. agent = stripScidSrc L (controllerOf vm) \<and>
      signedUnder C L (case purpose of Some p \<Rightarrow> p | None \<Rightarrow> AUTHENTICATION) doc vm) \<and>
    \<not> isTrustTaskErrorType (getMember doc (js ''type'')) \<and>
    (\<forall>ty. expected = Some ty \<longrightarrow> getMember doc (js ''type'') = JStr ty) \<and>
    payload = orElse (getMember doc (js ''payload'')) (JObj [])"
  using reply_verified [OF assms(1,2)] assms(3) unfolding parse_reply by blast

theorem reply_is_evidence_witness:
  "\<exists>out. verifyTrustTaskReply sampleCrypto sampleLib (js ''did:x'') None out = Inr () \<and>
     parseTrustTaskReply \<lparr>normalizeCode = (\<lambda>c. c), isStandardCode = (\<lambda>c. True)\<rparr> (Some (js ''t'')) None out = Inr (JObj []) \<and>
     (\<exists>vm. js ''did:x'' = stripScidSrc sampleLib (controllerOf vm) \<and> signedUnder sampleCrypto sampleLib AUTHENTICATION out vm)"
proof -
  obtain out where o: "signOutboundTask (js ''u'') 0 sampleSigner None sampleTask = Inr out" using sample_signs by blast
  have d: "distinct (map fst sampleTask)" by (simp add: sampleTask_def js_def)
  have p: "publishes sampleLib (js ''did:x#k'') (edPublicKey sampleCrypto (replicate 32 1)) (purposeOfDocument sampleTask)"
    unfolding sample_signature(2) sample_purpose by (rule sample_did(4))
  have v: "verifyTrustTaskProof sampleCrypto sampleLib (Some (purposeOfDocument out)) out = Inr (Verified (js ''did:x''))"
    and m: "\<And>j. j \<notin> {js ''issuer'', js ''id'', js ''issuedAt'', js ''proof''} \<Longrightarrow> getMember out j = getMember sampleTask j"
    using outbound [OF sampleCrypto_ok length_replicate sample_did(2,1) p sample_did(3) d _ nowText_epoch
      o [unfolded sampleSigner_def], of out] by (simp_all add: sameDoc_def js_def)
  have t: "getMember out (js ''type'') = JStr (js ''t'')" and y: "getMember out (js ''payload'') = JUndefined"
    using m [of "js ''type''"] m [of "js ''payload''"] by (simp_all add: sampleTask_def getMember_Cons js_def)
  have ne: "\<not> isTrustTaskErrorType (getMember out (js ''type''))"
    unfolding t by (simp add: isTrustTaskErrorType_def startsWith_def ERROR_TYPE_PREFIX_def js_def)
  have "purposeOfDocument out = AUTHENTICATION"
    using sample_purpose m [of "js ''type''"] member_names by (simp add: purposeOfDocument_def)
  with v have v': "verifyTrustTaskReply sampleCrypto sampleLib (js ''did:x'') None out = Inr ()"
    by (simp add: verifyTrustTaskReply_def ne AUTHENTICATION_def js_def)
  have "parseTrustTaskReply \<lparr>normalizeCode = (\<lambda>c. c), isStandardCode = (\<lambda>c. True)\<rparr> (Some (js ''t'')) None out = Inr (JObj [])"
    unfolding parse_reply y using ne t by simp
  with v' reply_is_evidence [OF v' _ this] show ?thesis by auto
qed

end
