(* ===== verification/Task_Consent.thy ===== *)
theory Task_Consent
  imports Trust_Task
begin

text \<open>
  Task-execution consent, \<open>packages/core/src/inbound/task-consent.ts\<close>: the checks a request passes before a human
  is shown anything, what is shown, the signed decision, and the reading of the executor's answer. A
  message and a document are values as \<open>JSON.parse\<close> returns them. The schema validator, the published
  schemas, and \<open>new Date\<close> of a text are the record \<open>consentLib\<close>; packing for DIDComm is a function.
\<close>

subsection \<open>Types\<close>

definition TRUST_TASK_ENVELOPE_TYPE :: jsstr where
  "TRUST_TASK_ENVELOPE_TYPE = js ''https://trusttasks.org/binding/didcomm/0.1/envelope''"
definition TASK_CONSENT_REQUEST_TYPE :: jsstr where
  "TASK_CONSENT_REQUEST_TYPE = js ''https://trusttasks.org/spec/task-consent/request/0.1''"
definition TASK_CONSENT_DECISION_TYPE :: jsstr where
  "TASK_CONSENT_DECISION_TYPE = js ''https://trusttasks.org/spec/task-consent/decision/0.2''"
definition TASK_CONSENT_GRANTED_TYPE :: jsstr where
  "TASK_CONSENT_GRANTED_TYPE = js ''https://trusttasks.org/spec/task-consent/granted/0.1''"
definition TASK_CONSENT_DECISION_RESPONSE_TYPE :: jsstr where
  "TASK_CONSENT_DECISION_RESPONSE_TYPE = TASK_CONSENT_DECISION_TYPE @ js ''#response''"

definition emDash :: jsstr where "emDash = [0x20, 0x2014, 0x20]"

record consentLib =
  validatePayload :: "jsval \<Rightarrow> jsval \<Rightarrow> schemaResult"
  requestSchema :: jsval
  decisionResponseSchema :: jsval
  dateTime :: "jsval \<Rightarrow> int option"

definition field :: "jsval \<Rightarrow> string \<Rightarrow> jsval" where
  "field v k = getProp v (js k)"

text \<open>The members of an object, for the functions that take a document.\<close>

fun membersOf :: "jsval \<Rightarrow> members" where
  "membersOf (JObj ms) = ms"
| "membersOf _ = []"

definition bodyOf :: "jsval \<Rightarrow> jsval" where
  "bodyOf message = orElse (field message ''body'') (JObj [])"

definition firstString :: "jsval list \<Rightarrow> jsstr option" where
  "firstString vs = map_option (\<lambda>v. the (asString v)) (find (\<lambda>v. asString v \<noteq> None) vs)"

subsection \<open>The request\<close>

datatype rejection = NotATaskConsentRequest | MalformedPayload | UntrustedIssuer | Expired | NotEligible

datatype detail =
    ProofDetail reason | NotEnrolled jsstr | IssuerMismatch | RecipientAbsent | OtherRecipient
  | SchemaDetail jsstr | LapsedAt jsval | ProposedHere

record parsedRequest =
  executorDid :: jsstr
  requestPayload :: jsval
  requestThid :: jsstr

datatype consentResult = Accepted_request parsedRequest | Rejected rejection "detail option"

datatype consentError = ConsentProof diError | ConsentTypeError

text \<open>The checks after the schema: expiry and eligibility. Reading a member of \<open>null\<close> throws.\<close>

definition checkLive :: "consentLib \<Rightarrow> int \<Rightarrow> jsstr \<Rightarrow> jsval \<Rightarrow> consentError + (rejection \<times> detail) option" where
  "checkLive V now holderDid payload =
     throwIf (isNullish payload) ConsentTypeError
       (let lapsed = (case dateTime V (field payload ''expiresAt'') of None \<Rightarrow> True | Some t \<Rightarrow> t \<le> now) in
        if lapsed then Inr (Some (Expired, LapsedAt (field payload ''expiresAt'')))
        else if truthy (field payload ''excludeRequester'') \<and> field payload ''requester'' = JStr holderDid
        then Inr (Some (NotEligible, ProposedHere)) else Inr None)"

definition checkDocument :: "consentLib \<Rightarrow> int \<Rightarrow> jsstr \<Rightarrow> jsstr \<Rightarrow> jsval \<Rightarrow> consentError + (rejection \<times> detail) option" where
  "checkDocument V now holderDid signer doc =
     (if asString (field doc ''issuer'') \<noteq> None \<and> field doc ''issuer'' \<noteq> JStr signer
      then Inr (Some (UntrustedIssuer, IssuerMismatch))
      else if asString (field doc ''recipient'') = None then Inr (Some (UntrustedIssuer, RecipientAbsent))
      else if field doc ''recipient'' \<noteq> JStr holderDid then Inr (Some (UntrustedIssuer, OtherRecipient))
      else case validatePayload V (requestSchema V) (field doc ''payload'') of
        Violations vs \<Rightarrow> Inr (Some (MalformedPayload,
          SchemaDetail (js ''payload does not satisfy '' @ TASK_CONSENT_REQUEST_TYPE @ emDash @ describeViolations vs)))
      | ValidPayload \<Rightarrow> checkLive V now holderDid (field doc ''payload''))"

definition requestThread :: "jsval \<Rightarrow> jsval \<Rightarrow> jsstr" where
  "requestThread message doc =
     (case firstString [field message ''thid'', field doc ''id'', field message ''id''] of Some t \<Rightarrow> t | None \<Rightarrow> [])"

definition parseTaskConsentRequest ::
  "crypto \<Rightarrow> didLib \<Rightarrow> consentLib \<Rightarrow> int \<Rightarrow> jsstr list \<Rightarrow> jsstr \<Rightarrow> jsval \<Rightarrow> consentError + consentResult" where
  "parseTaskConsentRequest C L V now enrolledExecutorDids holderDid message =
     (let doc = bodyOf message in
      if field message ''type'' \<noteq> JStr TRUST_TASK_ENVELOPE_TYPE then Inr (Rejected NotATaskConsentRequest None)
      else if field doc ''type'' \<noteq> JStr TASK_CONSENT_REQUEST_TYPE then Inr (Rejected NotATaskConsentRequest None)
      else bindE (mapErr ConsentProof (verifyTrustTaskProof C L (Some AUTHENTICATION) (membersOf doc))) (\<lambda>verification.
      case verification of
        Unverified _ r \<Rightarrow> Inr (Rejected UntrustedIssuer (Some (ProofDetail r)))
      | Verified signer \<Rightarrow>
          if signer = [] \<or> signer \<notin> set enrolledExecutorDids
          then Inr (Rejected UntrustedIssuer (Some (NotEnrolled signer)))
          else bindE (checkDocument V now holderDid signer doc) (\<lambda>problem.
          case problem of
            Some (r, d) \<Rightarrow> Inr (Rejected r (Some d))
          | None \<Rightarrow> Inr (Accepted_request \<lparr>executorDid = signer, requestPayload = field doc ''payload'',
              requestThid = requestThread message doc\<rparr>))))"

text \<open>What the human is shown; the arguments are the \<open>effects\<close> and \<open>consequences\<close> of the verified payload.\<close>

definition UNDETERMINED :: jsstr where
  "UNDETERMINED = js ''This agent could not determine what this task will do.''"

definition describeEffects :: "jsval list \<Rightarrow> jsval list option \<Rightarrow> jsval list \<times> bool" where
  "describeEffects effects consequences =
     (if effects \<noteq> [] then (map (\<lambda>e. field e ''summary'') effects, True)
      else case consequences of
        Some (c # cs) \<Rightarrow> (c # cs, True)
      | _ \<Rightarrow> ([JStr UNDETERMINED], False))"

subsection \<open>The decision\<close>

record decisionArgs =
  signingDid :: jsstr
  signingKid :: jsstr
  signingKey :: bytes
  approve :: bool
  challengeOf :: jsstr
  payloadDigestOf :: jsstr
  reasonOf :: "jsstr option"
  executorOf :: jsstr
  threadOf :: jsstr

definition decisionEnvelope :: "jsstr \<Rightarrow> int \<Rightarrow> decisionArgs \<Rightarrow> members" where
  "decisionEnvelope uuid now args =
     [(js ''id'', JStr (js ''urn:uuid:'' @ uuid)), (js ''type'', JStr TASK_CONSENT_DECISION_TYPE),
      (js ''issuer'', JStr (signingDid args)), (js ''recipient'', JStr (executorOf args)),
      (js ''issuedAt'', JStr (nowText now)),
      (js ''payload'', JObj (
        [(js ''challenge'', JStr (challengeOf args)), (js ''payloadDigest'', JStr (payloadDigestOf args)),
         (js ''decision'', JStr (js (if approve args then ''approve'' else ''deny'')))] @
        (case reasonOf args of Some (u # r) \<Rightarrow> [(js ''reason'', JStr (u # r))] | _ \<Rightarrow> [])))]"

definition buildTaskConsentDecisionDocument :: "crypto \<Rightarrow> jsstr \<Rightarrow> int \<Rightarrow> int \<Rightarrow> decisionArgs \<Rightarrow> diError + members" where
  "buildTaskConsentDecisionDocument C uuid now signNow args =
     signTrustTask C signNow (decisionEnvelope uuid now args) (signingKid args) (signingKey args)
       (proofPurposeForDocumentType TASK_CONSENT_DECISION_TYPE) DEFAULT_CLOCK_SKEW_MS"

datatype decisionError = SentAsSomeoneElse jsstr jsstr | DecisionSigning diError

text \<open>\<open>pack sender message\<close> authcrypts the message to the executor as \<open>sender\<close>, and wraps and authcrypts the
  forward to the mediator as the holder.\<close>

definition buildTaskConsentDecision ::
  "crypto \<Rightarrow> (jsstr \<Rightarrow> members \<Rightarrow> 'wire) \<Rightarrow> jsstr \<Rightarrow> int \<Rightarrow> int \<Rightarrow> jsstr \<Rightarrow> jsstr option \<Rightarrow> decisionArgs
     \<Rightarrow> decisionError + ('wire \<times> jsval)" where
  "buildTaskConsentDecision C pack uuid now signNow holderDid senderDid args =
     (let sender = (case senderDid of Some s \<Rightarrow> s | None \<Rightarrow> holderDid) in
      throwIf (sender \<noteq> signingDid args) (SentAsSomeoneElse sender (signingDid args))
      (bindE (mapErr DecisionSigning (buildTaskConsentDecisionDocument C uuid now signNow args)) (\<lambda>document.
       let message = [(js ''id'', getMember document (js ''id'')), (js ''type'', JStr TRUST_TASK_ENVELOPE_TYPE),
                      (js ''from'', JStr sender), (js ''to'', JArr [JStr (executorOf args)]),
                      (js ''thid'', JStr (threadOf args)), (js ''body'', JObj document)]
       in Inr (pack sender message, getMember document (js ''id'')))))"

subsection \<open>The answer to a decision\<close>

record acceptedOutcome =
  outStatus :: jsstr
  outApprovals :: "jsval option"
  outNeeded :: "jsval option"
  outPayloadDigest :: "jsstr option"
  outThid :: "jsstr option"

record refusedOutcome =
  refCode :: jsstr
  refMessage :: "jsstr option"
  refRetryable :: bool
  refDetails :: "jsval option"
  refThid :: "jsstr option"

datatype outcome = Accepted_outcome acceptedOutcome | Refused_outcome refusedOutcome

definition nonEmpty :: "jsstr option \<Rightarrow> jsstr option" where
  "nonEmpty s = (if s = Some [] then None else s)"

definition taskConsentOutcomeThread :: "jsval \<Rightarrow> jsstr option" where
  "taskConsentOutcomeThread message = firstString [field message ''thid'', field (bodyOf message) ''threadId'']"

fun asNumber :: "jsval \<Rightarrow> jsval option" where
  "asNumber (JInt i) = Some (JInt i)"
| "asNumber (JFloat t) = Some (JFloat t)"
| "asNumber JNonFinite = Some JNonFinite"
| "asNumber _ = None"

definition textOr :: "string \<Rightarrow> jsval \<Rightarrow> jsstr" where
  "textOr d v = (case asString v of Some s \<Rightarrow> s | None \<Rightarrow> js d)"

definition refusedOutcomeOf :: "jsval \<Rightarrow> jsstr option \<Rightarrow> outcome" where
  "refusedOutcomeOf doc thid =
     (let payload = orElse (field doc ''payload'') (JObj []) in
      Refused_outcome \<lparr>refCode = textOr ''unknown'' (field payload ''code''),
        refMessage = asString (field payload ''message''),
        refRetryable = (field payload ''retryable'' = JBool True),
        refDetails = (if field payload ''details'' = JUndefined then None else Some (field payload ''details'')),
        refThid = nonEmpty thid\<rparr>)"

definition acceptedOutcomeOf :: "consentLib \<Rightarrow> jsval \<Rightarrow> jsstr option \<Rightarrow> consentError + outcome" where
  "acceptedOutcomeOf V doc thid =
     (let payload = field doc ''payload'' in
      case validatePayload V (decisionResponseSchema V) payload of
        Violations vs \<Rightarrow> Inr (Refused_outcome \<lparr>refCode = js ''malformedRequest'',
          refMessage = Some (js ''the executor's decision response does not satisfy '' @
            TASK_CONSENT_DECISION_RESPONSE_TYPE @ emDash @ describeViolations vs),
          refRetryable = False, refDetails = None, refThid = nonEmpty thid\<rparr>)
      | ValidPayload \<Rightarrow> throwIf (isNullish payload) ConsentTypeError
          (Inr (Accepted_outcome \<lparr>outStatus = textOr ''unknown'' (field payload ''status''),
             outApprovals = asNumber (field payload ''approvals''), outNeeded = asNumber (field payload ''needed''),
             outPayloadDigest = asString (field payload ''payloadDigest''), outThid = nonEmpty thid\<rparr>)))"

text \<open>Whether the proof of the answer settles it: none, or verified for the expected executor.\<close>

definition proofAgrees :: "crypto \<Rightarrow> didLib \<Rightarrow> jsstr \<Rightarrow> jsval \<Rightarrow> consentError + bool" where
  "proofAgrees C L expectedExecutorDid doc =
     (if field doc ''proof'' = JUndefined then Inr True
      else bindE (mapErr ConsentProof (verifyTrustTaskProof C L (Some AUTHENTICATION) (membersOf doc))) (\<lambda>proof.
        Inr (proof = Verified expectedExecutorDid \<and> field doc ''issuer'' = JStr expectedExecutorDid)))"

definition parseTaskConsentOutcome ::
  "crypto \<Rightarrow> didLib \<Rightarrow> consentLib \<Rightarrow> jsstr option \<Rightarrow> jsstr \<Rightarrow> jsval \<Rightarrow> consentError + outcome option" where
  "parseTaskConsentOutcome C L V senderDid expectedExecutorDid message =
     (let doc = bodyOf message; isError = isTrustTaskErrorType (field doc ''type'');
          isResponse = (field doc ''type'' = JStr TASK_CONSENT_DECISION_RESPONSE_TYPE);
          thid = taskConsentOutcomeThread message in
      if field message ''type'' \<noteq> JStr TRUST_TASK_ENVELOPE_TYPE then Inr None
      else if nonEmpty senderDid = None \<or> senderDid \<noteq> Some expectedExecutorDid then Inr None
      else if \<not> isError \<and> \<not> isResponse then Inr None
      else if field doc ''issuer'' \<noteq> JUndefined \<and> field doc ''issuer'' \<noteq> JStr expectedExecutorDid then Inr None
      else if isResponse \<and> field doc ''proof'' = JUndefined then Inr None
      else bindE (proofAgrees C L expectedExecutorDid doc) (\<lambda>agrees.
        if \<not> agrees then Inr None
        else if isError then Inr (Some (refusedOutcomeOf doc thid))
        else bindE (acceptedOutcomeOf V doc thid) (\<lambda>out. Inr (Some out))))"

definition parseTaskConsentGranted :: "jsstr \<Rightarrow> jsstr option \<Rightarrow> jsval \<Rightarrow> jsstr option" where
  "parseTaskConsentGranted expectedVtaDid senderDid message =
     (let doc = bodyOf message in
      if field message ''type'' \<noteq> JStr TRUST_TASK_ENVELOPE_TYPE then None
      else if nonEmpty senderDid = None \<or> senderDid \<noteq> Some expectedVtaDid then None
      else if field doc ''type'' \<noteq> JStr TASK_CONSENT_GRANTED_TYPE then None
      else if asString (field doc ''issuer'') \<noteq> None \<and> field doc ''issuer'' \<noteq> JStr expectedVtaDid then None
      else asString (field (field doc ''payload'') ''payloadDigest''))"

subsection \<open>What is shown was verified\<close>

text \<open>Everything a request must satisfy before it reaches a human.\<close>

definition consentOk ::
  "crypto \<Rightarrow> didLib \<Rightarrow> consentLib \<Rightarrow> int \<Rightarrow> jsstr list \<Rightarrow> jsstr \<Rightarrow> jsval \<Rightarrow> jsval \<Rightarrow> jsstr \<Rightarrow> bool" where
  "consentOk C L V now enrolled holder message doc executor \<longleftrightarrow>
     field message ''type'' = JStr TRUST_TASK_ENVELOPE_TYPE \<and>
     field doc ''type'' = JStr TASK_CONSENT_REQUEST_TYPE \<and>
     (\<exists>vm. executor = stripScidSrc L (controllerOf vm) \<and> signedUnder C L AUTHENTICATION (membersOf doc) vm) \<and>
     executor \<noteq> [] \<and> executor \<in> set enrolled \<and>
     (\<forall>i. field doc ''issuer'' = JStr i \<longrightarrow> i = executor) \<and> field doc ''recipient'' = JStr holder \<and>
     validatePayload V (requestSchema V) (field doc ''payload'') = ValidPayload \<and> \<not> isNullish (field doc ''payload'') \<and>
     (\<exists>t. dateTime V (field (field doc ''payload'') ''expiresAt'') = Some t \<and> now < t) \<and>
     \<not> (truthy (field (field doc ''payload'') ''excludeRequester'') \<and> field (field doc ''payload'') ''requester'' = JStr holder)"

lemma checkLive_None:
  "checkLive V now holder payload = Inr None \<longleftrightarrow> \<not> isNullish payload \<and>
     (\<exists>t. dateTime V (field payload ''expiresAt'') = Some t \<and> now < t) \<and>
     \<not> (truthy (field payload ''excludeRequester'') \<and> field payload ''requester'' = JStr holder)"
  by (auto simp: checkLive_def Let_def split: option.splits)

lemma issuer_agrees:
  "\<not> (asString v \<noteq> None \<and> v \<noteq> JStr s) \<longleftrightarrow> (\<forall>i. v = JStr i \<longrightarrow> i = s)"
  by (cases v) auto

lemma checkDocument_None:
  "checkDocument V now holder signer doc = Inr None \<longleftrightarrow>
     (\<forall>i. field doc ''issuer'' = JStr i \<longrightarrow> i = signer) \<and> field doc ''recipient'' = JStr holder \<and>
     validatePayload V (requestSchema V) (field doc ''payload'') = ValidPayload \<and>
     checkLive V now holder (field doc ''payload'') = Inr None"
  unfolding checkDocument_def issuer_agrees [symmetric]
  by (auto split: schemaResult.splits)

lemma consent_accepted:
  "parseTaskConsentRequest C L V now enrolled holder message = Inr (Accepted_request p) \<longleftrightarrow>
     consentOk C L V now enrolled holder message (bodyOf message) (executorDid p) \<and>
     requestPayload p = field (bodyOf message) ''payload'' \<and>
     requestThid p = requestThread message (bodyOf message)" (is "?l \<longleftrightarrow> ?r")
proof -
  let ?doc = "bodyOf message"
  have "?l \<longleftrightarrow> field message ''type'' = JStr TRUST_TASK_ENVELOPE_TYPE \<and> field ?doc ''type'' = JStr TASK_CONSENT_REQUEST_TYPE \<and>
      (\<exists>signer. verifyTrustTaskProof C L (Some AUTHENTICATION) (membersOf ?doc) = Inr (Verified signer) \<and>
         signer \<noteq> [] \<and> signer \<in> set enrolled \<and> checkDocument V now holder signer ?doc = Inr None \<and>
         p = \<lparr>executorDid = signer, requestPayload = field ?doc ''payload'', requestThid = requestThread message ?doc\<rparr>)"
  proof (cases "verifyTrustTaskProof C L (Some AUTHENTICATION) (membersOf ?doc)")
    case (Inl e)
    then show ?thesis by (simp add: parseTaskConsentRequest_def Let_def)
  next
    case (Inr v)
    show ?thesis
    proof (cases v)
      case (Verified s)
      show ?thesis
        by (cases "checkDocument V now holder s ?doc")
          (auto simp: parseTaskConsentRequest_def Let_def Inr Verified split: option.splits)
    qed (simp add: parseTaskConsentRequest_def Let_def Inr)
  qed
  also have "\<dots> \<longleftrightarrow> ?r"
    unfolding consentOk_def verified_iff checkDocument_None checkLive_None by (cases p) auto
  finally show ?thesis .
qed

lemma effects_always_shown:
  "fst (describeEffects effects consequences) \<noteq> [] \<and>
   (snd (describeEffects effects consequences) \<longleftrightarrow> effects \<noteq> [] \<or> (\<exists>c cs. consequences = Some (c # cs)))"
  by (auto simp: describeEffects_def split: option.splits list.splits)

subsection \<open>The decision and its answer\<close>

lemma decision_purpose: "proofPurposeForDocumentType TASK_CONSENT_DECISION_TYPE = ASSERTION_METHOD"
proof -
  have "isVersion (js ''0.2'')" by (simp add: isVersion_def js_def isDigit_def)
  moreover have "TASK_CONSENT_DECISION_TYPE = REGISTRY_PREFIX @ js ''task-consent/decision'' @ js ''/'' @ js ''0.2''"
    by (simp add: TASK_CONSENT_DECISION_TYPE_def REGISTRY_PREFIX_def js_def)
  moreover have "js ''task-consent/decision'' \<in> set ATTESTATION_SLUGS" by (simp add: ATTESTATION_SLUGS_def)
  ultimately show ?thesis unfolding purpose_iff by blast
qed

lemma decision_members: "distinct (map fst (decisionEnvelope uuid now args))"
  by (simp add: decisionEnvelope_def js_def)

lemma decision_built:
  assumes C: "cryptoOk C" "length (signingKey args) = 32" and kid: "hasHash (signingKid args)"
    and L: "publishes L (signingKid args) (edPublicKey C (signingKey args)) ASSERTION_METHOD"
    and out: "buildTaskConsentDecisionDocument C uuid now signNow args = Inr document" and same: "sameDoc received document"
  shows "verifyTrustTaskProof C L (Some ASSERTION_METHOD) received = Inr (Verified (stripScidSrc L (controllerOf (signingKid args)))) \<and>
    (\<forall>k. k \<noteq> js ''proof'' \<longrightarrow> getMember document k = getMember (decisionEnvelope uuid now args) k)"
  using signed_verifies [OF C out [unfolded buildTaskConsentDecisionDocument_def decision_purpose] kid L decision_members same]
    signed_others [OF out [unfolded buildTaskConsentDecisionDocument_def]] by blast

lemma nonEmpty_iff: "nonEmpty s \<noteq> None \<longleftrightarrow> (\<exists>u t. s = Some (u # t))"
  by (cases s) (auto simp: nonEmpty_def neq_Nil_conv)

lemma proofAgrees_True:
  "proofAgrees C L e doc = Inr True \<longleftrightarrow> field doc ''proof'' = JUndefined \<or>
     field doc ''issuer'' = JStr e \<and>
       (\<exists>vm. e = stripScidSrc L (controllerOf vm) \<and> signedUnder C L AUTHENTICATION (membersOf doc) vm)"
  unfolding proofAgrees_def verified_iff [symmetric] by (auto simp: bindE_Inr field_def)

lemma outcome_believed:
  assumes "parseTaskConsentOutcome C L V sender executor message = Inr (Some out)"
  shows "sender = Some executor \<and> executor \<noteq> [] \<and>
    (field (bodyOf message) ''proof'' \<noteq> JUndefined \<or> (\<exists>a. out = Accepted_outcome a) \<longrightarrow>
       field (bodyOf message) ''issuer'' = JStr executor \<and>
       (\<exists>vm. executor = stripScidSrc L (controllerOf vm) \<and> signedUnder C L AUTHENTICATION (membersOf (bodyOf message)) vm))"
proof -
  let ?doc = "bodyOf message"
  from assms have s: "nonEmpty sender \<noteq> None" "sender = Some executor"
    and a: "proofAgrees C L executor ?doc = Inr True"
    and k: "isTrustTaskErrorType (field ?doc ''type'') \<and> out = refusedOutcomeOf ?doc (taskConsentOutcomeThread message) \<or>
      field ?doc ''proof'' \<noteq> JUndefined"
    by (auto simp: parseTaskConsentOutcome_def Let_def bindE_Inr split: if_splits)
  have "(\<exists>x. out = Accepted_outcome x) \<longrightarrow> field ?doc ''proof'' \<noteq> JUndefined"
    using k by (auto simp: refusedOutcomeOf_def Let_def)
  with s a show ?thesis unfolding proofAgrees_True by (auto simp: nonEmpty_def)
qed

subsection \<open>Examples\<close>

definition sampleArgs :: decisionArgs where
  "sampleArgs = \<lparr>signingDid = js ''did:x'', signingKid = js ''did:x#k'', signingKey = replicate 32 1, approve = True,
     challengeOf = js ''c'', payloadDigestOf = js ''z1'', reasonOf = None, executorOf = js ''did:y'', threadOf = js ''t''\<rparr>"

definition sampleConsentLib :: consentLib where
  "sampleConsentLib = \<lparr>validatePayload = (\<lambda>s p. ValidPayload), requestSchema = JObj [], decisionResponseSchema = JObj [],
     dateTime = (\<lambda>v. Some 1)\<rparr>"

definition sampleRefusal :: jsval where
  "sampleRefusal = JObj [(js ''type'', JStr TRUST_TASK_ENVELOPE_TYPE),
     (js ''body'', JObj [(js ''type'', JStr (js ''https://trusttasks.org/spec/trust-task-error/0.5''))])]"

lemma sample_assertion: "publishes (sampleDidLib (js ''did:x#k'') (replicate 32 1) ASSERTION_METHOD) (js ''did:x#k'') (replicate 32 1) ASSERTION_METHOD"
  by (rule sample_publishes, unfold sample_did(1)) (simp_all add: startsWith_def js_def ASSERTION_METHOD_def)

lemma sample_decision: "\<exists>d. buildTaskConsentDecisionDocument sampleCrypto (js ''u'') 0 60000 sampleArgs = Inr d"
  unfolding buildTaskConsentDecisionDocument_def
  by (rule signing_returns) (simp_all add: decisionEnvelope_def sampleArgs_def DEFAULT_CLOCK_SKEW_MS_def sample_signature)

lemma sample_refused: "\<exists>out. parseTaskConsentOutcome sampleCrypto L sampleConsentLib (Some (js ''did:y'')) (js ''did:y'') sampleRefusal = Inr (Some out)"
proof -
  have b: "bodyOf sampleRefusal = JObj [(js ''type'', JStr (js ''https://trusttasks.org/spec/trust-task-error/0.5''))]"
    by (simp add: bodyOf_def sampleRefusal_def field_def getMember_Cons js_def)
  have e: "isTrustTaskErrorType (field (bodyOf sampleRefusal) ''type'')"
    by (simp add: b field_def getMember_Cons isTrustTaskErrorType_def startsWith_def ERROR_TYPE_PREFIX_def js_def isDigit_def)
  have f: "field (bodyOf sampleRefusal) ''issuer'' = JUndefined" "field (bodyOf sampleRefusal) ''proof'' = JUndefined"
    "field (bodyOf sampleRefusal) ''type'' \<noteq> JStr TASK_CONSENT_DECISION_RESPONSE_TYPE"
    by (simp_all add: b field_def getMember_Cons js_def TASK_CONSENT_DECISION_RESPONSE_TYPE_def TASK_CONSENT_DECISION_TYPE_def)
  have t: "field sampleRefusal ''type'' = JStr TRUST_TASK_ENVELOPE_TYPE" "nonEmpty (Some (js ''did:y'')) \<noteq> None"
    by (simp_all add: sampleRefusal_def field_def getMember_Cons nonEmpty_def js_def)
  show ?thesis using e f t by (simp add: parseTaskConsentOutcome_def Let_def proofAgrees_def)
qed

subsection \<open>Properties\<close>

text \<open>C9: A consent request reaches a human exactly when everything about it has been checked: it is a consent
  request in its envelope, signed as a whole for authentication by an enrolled executor that any
  issuer it names agrees with, addressed to this device, valid under the published schema, not
  lapsed, and not proposed by this device where that is excluded. What is passed on is the signed payload.\<close>

theorem consent_shown_exactly_when_checked:
  "parseTaskConsentRequest C L V now enrolled holder message = Inr (Accepted_request p) \<longleftrightarrow>
     consentOk C L V now enrolled holder message (bodyOf message) (executorDid p) \<and>
     requestPayload p = field (bodyOf message) ''payload'' \<and>
     requestThid p = requestThread message (bodyOf message)"
  by (rule consent_accepted)

text \<open>A decision is the approver's attestation: the document built for it verifies at the executor under
  \<open>assertionMethod\<close> as signed by the approver's key, names the approver as issuer and the executor as
  recipient, and echoes the challenge and the digest of the request with the human's answer.\<close>

theorem decision_is_attested:
  assumes "cryptoOk C" and "length (signingKey args) = 32" and "hasHash (signingKid args)"
    and "publishes L (signingKid args) (edPublicKey C (signingKey args)) ASSERTION_METHOD"
    and "buildTaskConsentDecisionDocument C uuid now signNow args = Inr document" and "sameDoc received document"
  shows "verifyTrustTaskProof C L (Some ASSERTION_METHOD) received = Inr (Verified (stripScidSrc L (controllerOf (signingKid args)))) \<and>
    (\<forall>k. k \<noteq> js ''proof'' \<longrightarrow> getMember document k = getMember (decisionEnvelope uuid now args) k)"
  using assms by (rule decision_built)

theorem decision_is_attested_witness:
  "\<exists>d. buildTaskConsentDecisionDocument sampleCrypto (js ''u'') 0 60000 sampleArgs = Inr d \<and>
     verifyTrustTaskProof sampleCrypto (sampleDidLib (js ''did:x#k'') (replicate 32 1) ASSERTION_METHOD) (Some ASSERTION_METHOD) d
       = Inr (Verified (js ''did:x''))"
proof -
  let ?L = "sampleDidLib (js ''did:x#k'') (replicate 32 1) ASSERTION_METHOD"
  obtain d where d: "buildTaskConsentDecisionDocument sampleCrypto (js ''u'') 0 60000 sampleArgs = Inr d"
    using sample_decision by blast
  have k: "signingKey sampleArgs = replicate 32 1" "signingKid sampleArgs = js ''did:x#k''" by (simp_all add: sampleArgs_def)
  have s: "stripScidSrc ?L x = x" for x by (simp add: sampleDidLib_def)
  have "verifyTrustTaskProof sampleCrypto ?L (Some ASSERTION_METHOD) d = Inr (Verified (stripScidSrc ?L (controllerOf (signingKid sampleArgs))))"
    using decision_is_attested [OF sampleCrypto_ok _ _ _ d, of ?L d] sample_assertion sample_did(2)
    by (simp add: k sample_signature sameDoc_def)
  with d show ?thesis by (simp add: s k sample_did(1))
qed

text \<open>C22: An answer is believed only from the executor it was asked of: whenever an outcome is reported, the
  authenticated sender is that executor, and a success - or any answer that carries a proof - is
  signed as a whole by it for authentication and names it as issuer.\<close>

theorem outcome_only_from_executor:
  assumes "parseTaskConsentOutcome C L V sender executor message = Inr (Some out)"
  shows "sender = Some executor \<and> executor \<noteq> [] \<and>
    (field (bodyOf message) ''proof'' \<noteq> JUndefined \<or> (\<exists>a. out = Accepted_outcome a) \<longrightarrow>
       field (bodyOf message) ''issuer'' = JStr executor \<and>
       (\<exists>vm. executor = stripScidSrc L (controllerOf vm) \<and> signedUnder C L AUTHENTICATION (membersOf (bodyOf message)) vm))"
  using assms by (rule outcome_believed)

theorem outcome_only_from_executor_witness:
  "\<exists>out. parseTaskConsentOutcome sampleCrypto sampleLib sampleConsentLib (Some (js ''did:y'')) (js ''did:y'') sampleRefusal = Inr (Some out) \<and>
     js ''did:y'' \<noteq> []"
  using sample_refused [of sampleLib] outcome_only_from_executor [of sampleCrypto sampleLib sampleConsentLib "Some (js ''did:y'')" "js ''did:y''" sampleRefusal]
  by blast

end
