(* ===== verification/Step_Up.thy ===== *)
theory Step_Up
  imports Task_Consent
begin

text \<open>
  The step-up ceremony, \<open>packages/core/src/vta/step-up.ts\<close>: an approve-request is verified before anything of it
  is shown or signed over, and the approval is the signed answer.
\<close>

definition STEP_UP_APPROVE_REQUEST_TYPE :: jsstr where
  "STEP_UP_APPROVE_REQUEST_TYPE = js ''https://trusttasks.org/spec/auth/step-up/approve-request/0.5''"
definition MSG_APPROVE_RESPONSE :: jsstr where
  "MSG_APPROVE_RESPONSE = js ''https://trusttasks.org/spec/auth/step-up/approve-response/0.7''"

record stepUpRequest =
  suSubject :: jsstr
  suSessionId :: jsstr
  suChallenge :: jsstr
  suReason :: "jsstr option"

datatype stepUpRefusal =
    NoDocument | WrongDocumentType jsval | ProofRefused "reason option" | IssuerNotProven | SignerNotEnrolled jsstr
  | MissingMembers | NotDidSigned | RequestLapsed jsstr

datatype stepUpResult = StepUpOk jsstr stepUpRequest "jsstr option" | StepUpRefused stepUpRefusal

text \<open>The first of the two expiries, if any, that is not a date after \<open>now\<close>.\<close>

definition lapsedAt :: "consentLib \<Rightarrow> int \<Rightarrow> jsval list \<Rightarrow> jsstr option" where
  "lapsedAt V now ats =
     firstString (filter (\<lambda>x. asString x \<noteq> None \<and>
       (case dateTime V x of None \<Rightarrow> True | Some t \<Rightarrow> t \<le> now)) ats)"

definition checkApproveRequest :: "consentLib \<Rightarrow> int \<Rightarrow> jsval \<Rightarrow> jsstr \<Rightarrow> stepUpResult" where
  "checkApproveRequest V now doc signer =
     (let payload = orElse (field doc ''payload'') (JObj []);
          accepts = (case field payload ''accepts'' of JArr as \<Rightarrow> JStr (js ''didSigned'') \<in> set as | _ \<Rightarrow> False)
      in case (asString (field payload ''subject''), asString (field payload ''sessionId''), asString (field payload ''challenge'')) of
           (Some subject, Some sessionId, Some challenge) \<Rightarrow>
             if \<not> accepts then StepUpRefused NotDidSigned
             else (case lapsedAt V now [field doc ''expiresAt'', field payload ''expiresAt''] of
               Some x \<Rightarrow> StepUpRefused (RequestLapsed x)
             | None \<Rightarrow> StepUpOk signer
                 \<lparr>suSubject = subject, suSessionId = sessionId, suChallenge = challenge,
                  suReason = asString (field payload ''reason'')\<rparr>
                 (firstString [field doc ''expiresAt'', field payload ''expiresAt'']))
         | _ \<Rightarrow> StepUpRefused MissingMembers)"

definition verifyStepUpApproveRequest ::
  "crypto \<Rightarrow> didLib \<Rightarrow> consentLib \<Rightarrow> int \<Rightarrow> jsstr list \<Rightarrow> jsval \<Rightarrow> diError + stepUpResult" where
  "verifyStepUpApproveRequest C L V now enrolledExecutorDids doc =
     (let type = field doc ''type'' in
      if \<not> isObject doc then Inr (StepUpRefused NoDocument)
      else if type \<noteq> JStr STEP_UP_APPROVE_REQUEST_TYPE then Inr (StepUpRefused (WrongDocumentType type))
      else bindE (verifyTrustTaskProof C L (Some AUTHENTICATION) (membersOf doc)) (\<lambda>verification.
        case verification of
          Unverified _ r \<Rightarrow> Inr (StepUpRefused (ProofRefused (Some r)))
        | Verified signer \<Rightarrow>
            if signer = [] then Inr (StepUpRefused (ProofRefused None))
            else if field doc ''issuer'' \<noteq> JStr signer then Inr (StepUpRefused IssuerNotProven)
            else if signer \<notin> set enrolledExecutorDids then Inr (StepUpRefused (SignerNotEnrolled signer))
            else Inr (checkApproveRequest V now doc signer)))"

definition approvalEnvelope :: "jsstr \<Rightarrow> int \<Rightarrow> jsstr \<Rightarrow> jsstr \<Rightarrow> stepUpRequest \<Rightarrow> bool \<Rightarrow> jsstr option \<Rightarrow> members" where
  "approvalEnvelope uuid now did rpDid request approved deniedReason =
     [(js ''id'', JStr uuid), (js ''type'', JStr MSG_APPROVE_RESPONSE), (js ''issuer'', JStr did),
      (js ''recipient'', JStr rpDid), (js ''issuedAt'', JStr (nowText now)),
      (js ''payload'', JObj (
        [(js ''subject'', JStr (suSubject request)), (js ''sessionId'', JStr (suSessionId request)),
         (js ''challenge'', JStr (suChallenge request)),
         (js ''decision'', JStr (js (if approved then ''approved'' else ''denied'')))] @
        (case nonEmpty deniedReason of Some r \<Rightarrow> if approved then [] else [(js ''deniedReason'', JStr r)] | None \<Rightarrow> [])))]"

definition buildStepUpApproval ::
  "crypto \<Rightarrow> jsstr \<Rightarrow> int \<Rightarrow> int \<Rightarrow> jsstr \<Rightarrow> jsstr \<Rightarrow> bytes \<Rightarrow> jsstr \<Rightarrow> stepUpRequest \<Rightarrow> bool \<Rightarrow> jsstr option
     \<Rightarrow> diError + members" where
  "buildStepUpApproval C uuid now signNow did kid key rpDid request approved deniedReason =
     signTrustTask C signNow (approvalEnvelope uuid now did rpDid request approved deniedReason) kid key
       ASSERTION_METHOD DEFAULT_CLOCK_SKEW_MS"

subsection \<open>What the checks establish\<close>

lemma firstString_None: "firstString vs = None \<longleftrightarrow> (\<forall>s. JStr s \<notin> set vs)"
proof -
  have "asString v = None \<longleftrightarrow> (\<forall>s. v \<noteq> JStr s)" for v by (cases v) auto
  then show ?thesis by (auto simp: firstString_def find_None_iff)
qed

lemma lapsedAt_None:
  "lapsedAt V now ats = None \<longleftrightarrow> (\<forall>s. JStr s \<in> set ats \<longrightarrow> (\<exists>t. dateTime V (JStr s) = Some t \<and> now < t))"
proof -
  have "(case dateTime V x of None \<Rightarrow> True | Some t \<Rightarrow> t \<le> now) \<longleftrightarrow> \<not> (\<exists>t. dateTime V x = Some t \<and> now < t)" for x
    by (auto split: option.splits)
  then show ?thesis unfolding lapsedAt_def firstString_None by simp
qed

text \<open>What an approve-request that is accepted says, all of it from inside the signature.\<close>

definition stepUpSays :: "consentLib \<Rightarrow> int \<Rightarrow> jsval \<Rightarrow> jsval \<Rightarrow> stepUpRequest \<Rightarrow> bool" where
  "stepUpSays V now doc payload r \<longleftrightarrow>
     field payload ''subject'' = JStr (suSubject r) \<and> field payload ''sessionId'' = JStr (suSessionId r) \<and>
     field payload ''challenge'' = JStr (suChallenge r) \<and> suReason r = asString (field payload ''reason'') \<and>
     (\<exists>as. field payload ''accepts'' = JArr as \<and> JStr (js ''didSigned'') \<in> set as) \<and>
     (\<forall>s. JStr s \<in> {field doc ''expiresAt'', field payload ''expiresAt''} \<longrightarrow> (\<exists>t. dateTime V (JStr s) = Some t \<and> now < t))"

lemma checkApproveRequest_Ok:
  "checkApproveRequest V now doc signer = StepUpOk s r e \<longleftrightarrow>
     s = signer \<and> stepUpSays V now doc (orElse (field doc ''payload'') (JObj [])) r \<and>
     e = firstString [field doc ''expiresAt'', field (orElse (field doc ''payload'') (JObj [])) ''expiresAt'']"
proof -
  let ?p = "orElse (field doc ''payload'') (JObj [])"
  let ?x = "[field doc ''expiresAt'', field ?p ''expiresAt'']"
  have acc: "(case field ?p ''accepts'' of JArr as \<Rightarrow> JStr (js ''didSigned'') \<in> set as | _ \<Rightarrow> False) \<longleftrightarrow>
      (\<exists>as. field ?p ''accepts'' = JArr as \<and> JStr (js ''didSigned'') \<in> set as)"
    by (cases "field ?p ''accepts''") simp_all
  have lap: "(\<forall>s. JStr s \<in> {field doc ''expiresAt'', field ?p ''expiresAt''} \<longrightarrow> (\<exists>t. dateTime V (JStr s) = Some t \<and> now < t))
      \<longleftrightarrow> lapsedAt V now ?x = None"
    by (simp add: lapsedAt_None)
  show ?thesis
    unfolding checkApproveRequest_def Let_def stepUpSays_def acc lap
    by (cases "asString (field ?p ''subject'')"; cases "asString (field ?p ''sessionId'')"; cases "asString (field ?p ''challenge'')";
        cases "lapsedAt V now ?x"; cases r) (simp_all del: orElse.simps, auto)
qed

lemma step_up_ok:
  "verifyStepUpApproveRequest C L V now enrolled doc = Inr (StepUpOk s r e) \<longleftrightarrow>
     field doc ''type'' = JStr STEP_UP_APPROVE_REQUEST_TYPE \<and>
     (\<exists>vm. s = stripScidSrc L (controllerOf vm) \<and> signedUnder C L AUTHENTICATION (membersOf doc) vm) \<and>
     s \<noteq> [] \<and> field doc ''issuer'' = JStr s \<and> s \<in> set enrolled \<and>
     stepUpSays V now doc (orElse (field doc ''payload'') (JObj [])) r \<and>
     e = firstString [field doc ''expiresAt'', field (orElse (field doc ''payload'') (JObj [])) ''expiresAt'']"
proof -
  have obj: "isObject doc" if "field doc ''type'' = JStr x" for x
    using that by (cases doc) (simp_all add: field_def getProp_def)
  have "verifyStepUpApproveRequest C L V now enrolled doc = Inr (StepUpOk s r e) \<longleftrightarrow>
      field doc ''type'' = JStr STEP_UP_APPROVE_REQUEST_TYPE \<and>
      verifyTrustTaskProof C L (Some AUTHENTICATION) (membersOf doc) = Inr (Verified s) \<and>
      s \<noteq> [] \<and> field doc ''issuer'' = JStr s \<and> s \<in> set enrolled \<and> checkApproveRequest V now doc s = StepUpOk s r e"
  proof (cases "verifyTrustTaskProof C L (Some AUTHENTICATION) (membersOf doc)")
    case (Inl x)
    then show ?thesis by (simp add: verifyStepUpApproveRequest_def Let_def)
  next
    case (Inr v)
    show ?thesis
    proof (cases v)
      case (Verified signer)
      have "checkApproveRequest V now doc signer = StepUpOk s r e \<Longrightarrow> s = signer" by (simp add: checkApproveRequest_Ok)
      with obj show ?thesis by (auto simp: verifyStepUpApproveRequest_def Let_def Inr Verified split: if_splits)
    qed (simp add: verifyStepUpApproveRequest_def Let_def Inr)
  qed
  then show ?thesis unfolding verified_iff checkApproveRequest_Ok by auto
qed

lemma approval_built:
  assumes "cryptoOk C" "length key = 32" "hasHash kid" "publishes L kid (edPublicKey C key) ASSERTION_METHOD"
    and "buildStepUpApproval C uuid now signNow did kid key rpDid request approved deniedReason = Inr document"
    and "sameDoc received document"
  shows "verifyTrustTaskProof C L (Some ASSERTION_METHOD) received = Inr (Verified (stripScidSrc L (controllerOf kid)))"
proof -
  have "distinct (map fst (approvalEnvelope uuid now did rpDid request approved deniedReason))"
    by (simp add: approvalEnvelope_def js_def)
  from signed_verifies [OF assms(1,2) assms(5) [unfolded buildStepUpApproval_def] assms(3,4) this assms(6)] show ?thesis .
qed

subsection \<open>Properties\<close>

text \<open>C23: An approve-request is accepted exactly when it is the pinned version, signed as a whole for
  authentication by an enrolled executor that it names as issuer, accepts a DID-signed answer, and no
  expiry it carries has passed; the reason and challenge the wallet goes on with are those of the signed
  document.\<close>

theorem step_up_accepted_exactly_when_checked:
  "verifyStepUpApproveRequest C L V now enrolled doc = Inr (StepUpOk s r e) \<longleftrightarrow>
     field doc ''type'' = JStr STEP_UP_APPROVE_REQUEST_TYPE \<and>
     (\<exists>vm. s = stripScidSrc L (controllerOf vm) \<and> signedUnder C L AUTHENTICATION (membersOf doc) vm) \<and>
     s \<noteq> [] \<and> field doc ''issuer'' = JStr s \<and> s \<in> set enrolled \<and>
     stepUpSays V now doc (orElse (field doc ''payload'') (JObj [])) r \<and>
     e = firstString [field doc ''expiresAt'', field (orElse (field doc ''payload'') (JObj [])) ''expiresAt'']"
  by (rule step_up_ok)

end
