(* ===== verification/Tsp_Binding.thy ===== *)
theory Tsp_Binding
  imports Rel_Store Trust_Task
begin

text \<open>
  How a trust task is carried in a TSP payload: \<open>packages/core/src/vta/tsp-binding.ts\<close>, with what the language
  gives for it: \<open>JSON.stringify\<close> of a value and the \<open>TextDecoder\<close> that replaces ill-formed bytes. \<open>JSON.parse\<close> is
  a function argument.
\<close>

subsection \<open>JSON.stringify\<close>

text \<open>\<open>None\<close> is \<open>undefined\<close>: such members are left out, such elements become \<open>null\<close>.\<close>

fun jsonStringify :: "jsval \<Rightarrow> jsstr option" where
  "jsonStringify JNull = Some (js ''null'')"
| "jsonStringify JUndefined = None"
| "jsonStringify (JBool b) = Some (js (if b then ''true'' else ''false''))"
| "jsonStringify (JInt i) = Some (intString i)"
| "jsonStringify (JFloat t) = Some t"
| "jsonStringify JNonFinite = Some (js ''null'')"
| "jsonStringify (JStr s) = Some (jsonQuote s)"
| "jsonStringify (JArr vs) = Some (js ''['' @ joinWith (js '','')
     (map (\<lambda>v. case jsonStringify v of Some t \<Rightarrow> t | None \<Rightarrow> js ''null'') vs) @ js '']'')"
| "jsonStringify (JObj ms) = Some (js ''{'' @ joinWith (js '','')
     (concat (map (\<lambda>(k, v). case jsonStringify v of Some t \<Rightarrow> [jsonQuote k @ js '':'' @ t] | None \<Rightarrow> []) ms)) @ js ''}'')"

subsection \<open>The replacing TextDecoder\<close>

text \<open>How many of the next bytes continue a character that starts with \<open>lead\<close>.\<close>

definition contNeeded :: "nat \<Rightarrow> nat" where
  "contNeeded b = (if 0xC2 \<le> b \<and> b \<le> 0xDF then 1 else if 0xE0 \<le> b \<and> b \<le> 0xEF then 2
     else if 0xF0 \<le> b \<and> b \<le> 0xF4 then 3 else 0)"

definition continuing :: "nat \<Rightarrow> nat list \<Rightarrow> nat list" where
  "continuing b bs =
     (case bs of
        [] \<Rightarrow> []
      | c # r \<Rightarrow> if contNeeded b = 0 \<or> \<not> firstContOk b c then []
                  else c # takeWhile isCont (take (contNeeded b - 1) r))"

definition leadBits :: "nat \<Rightarrow> nat" where
  "leadBits b = b - (if b < 0xE0 then 0xC0 else if b < 0xF0 then 0xE0 else 0xF0)"

function utf8Lossy :: "nat list \<Rightarrow> nat list" where
  "utf8Lossy [] = []"
| "utf8Lossy (b # bs) =
     (let cs = continuing b bs in
      if b < 0x80 then b # utf8Lossy bs
      else (if contNeeded b \<noteq> 0 \<and> length cs = contNeeded b then foldl (\<lambda>a c. a * 64 + (c - 0x80)) (leadBits b) cs
            else 0xFFFD) # utf8Lossy (drop (length cs) bs))"
  by pat_completeness auto

termination by (relation "measure length") auto

definition textDecode :: "bytes \<Rightarrow> jsstr" where
  "textDecode bs = map word_of_nat (concat (map unitsOf (utf8Lossy (stripBom (map unat bs)))))"

declare utf8Lossy.simps(2) [simp del]

lemma two_byte: "0xC2 \<le> b \<Longrightarrow> b \<le> 0xDF \<Longrightarrow> firstContOk b c = isCont c"
  by (auto simp: firstContOk_def isCont_def)

lemma lossy_of_valid: "utf8Scalars bs = Some cs \<Longrightarrow> utf8Lossy bs = cs"
proof (induction bs arbitrary: cs rule: utf8Scalars.induct)
  case (2 b bs)
  consider (one) "b < 0x80" | (two) "0xC2 \<le> b" "b \<le> 0xDF" | (three) "0xE0 \<le> b" "b \<le> 0xEF" | (four) "0xF0 \<le> b" "b \<le> 0xF4"
    using "2.prems" by (fastforce simp: utf8Scalars.simps(2) split: if_splits)
  then show ?case
  proof cases
    case one
    with "2.prems" obtain ds where "utf8Scalars bs = Some ds" "cs = b # ds" by (auto simp: utf8Scalars.simps(2))
    with one "2.IH"(1) show ?thesis by (simp add: utf8Lossy.simps(2) Let_def)
  next
    case two
    with "2.prems" obtain c1 r ds where s: "bs = c1 # r" "isCont c1" "utf8Scalars r = Some ds"
      "cs = ((b - 0xC0) * 64 + (c1 - 0x80)) # ds" by (auto simp: utf8Scalars.simps(2) split: list.splits if_splits)
    with two "2.IH"(2) have "utf8Lossy r = ds" by auto
    with two s show ?thesis by (simp add: utf8Lossy.simps(2) continuing_def contNeeded_def two_byte leadBits_def Let_def)
  next
    case three
    with "2.prems" obtain c1 c2 r ds where s: "bs = c1 # c2 # r" "firstContOk b c1" "isCont c2" "utf8Scalars r = Some ds"
      "cs = ((b - 0xE0) * 4096 + (c1 - 0x80) * 64 + (c2 - 0x80)) # ds"
      by (auto simp: utf8Scalars.simps(2) split: list.splits if_splits)
    with three "2.IH"(3) have "utf8Lossy r = ds" by auto
    with three s show ?thesis by (simp add: utf8Lossy.simps(2) continuing_def contNeeded_def leadBits_def Let_def algebra_simps)
  next
    case four
    with "2.prems" obtain c1 c2 c3 r ds where s: "bs = c1 # c2 # c3 # r" "firstContOk b c1" "isCont c2" "isCont c3"
      "utf8Scalars r = Some ds"
      "cs = ((b - 0xF0) * 262144 + (c1 - 0x80) * 4096 + (c2 - 0x80) * 64 + (c3 - 0x80)) # ds"
      by (auto simp: utf8Scalars.simps(2) split: list.splits if_splits)
    with four "2.IH"(4) have "utf8Lossy r = ds" by auto
    with four s show ?thesis
      by (simp add: utf8Lossy.simps(2) continuing_def contNeeded_def leadBits_def Let_def algebra_simps numeral_2_eq_2)
  qed
qed simp

lemma textDecode_valid: "textDecodeFatal bs = Some s \<Longrightarrow> textDecode bs = s"
  by (auto simp: textDecodeFatal_def textDecode_def dest: lossy_of_valid)

subsection \<open>The binding envelope\<close>

definition TSP_BINDING_ENVELOPE_TYPE :: jsstr where
  "TSP_BINDING_ENVELOPE_TYPE = js ''https://trusttasks.org/binding/tsp/0.1/envelope''"

datatype bindingError = NotJson | NotAnObject | OtherEnvelope jsval | NoEnvelopeDocument

definition bindingEnvelope :: "jsval \<Rightarrow> jsval" where
  "bindingEnvelope document = JObj [(js ''type'', JStr TSP_BINDING_ENVELOPE_TYPE), (js ''document'', document)]"

definition wrapTspEnvelope :: "jsval \<Rightarrow> jsstr" where
  "wrapTspEnvelope document = the (jsonStringify (bindingEnvelope document))"

definition openTspEnvelope :: "(jsstr \<Rightarrow> jsval option) \<Rightarrow> jsstr \<Rightarrow> bindingError + jsval" where
  "openTspEnvelope parse plaintext =
     bindE (orThrow (parse plaintext) NotJson) (\<lambda>envelope.
     let type = getProp envelope (js ''type''); document = getProp envelope (js ''document'') in
     throwIf (\<not> isObject envelope) NotAnObject
     (throwIf (type \<noteq> JStr TSP_BINDING_ENVELOPE_TYPE) (OtherEnvelope type)
     (throwIf (\<not> isObject document) NoEnvelopeDocument (Inr document))))"

lemma open_envelope:
  "openTspEnvelope parse p = Inr d \<longleftrightarrow>
     (\<exists>e. parse p = Some e \<and> getProp e (js ''type'') = JStr TSP_BINDING_ENVELOPE_TYPE \<and> getProp e (js ''document'') = d \<and> isObject d)"
proof -
  have "isObject e" if "getProp e (js ''type'') = JStr t" for e t
    using that by (cases e) (simp_all add: getProp_def)
  then show ?thesis unfolding openTspEnvelope_def by (auto simp: bindE_Inr Let_def)
qed

lemma open_wrapped:
  "parse (wrapTspEnvelope d) = Some (bindingEnvelope d) \<Longrightarrow> isObject d \<Longrightarrow> openTspEnvelope parse (wrapTspEnvelope d) = Inr d"
  unfolding open_envelope by (simp add: bindingEnvelope_def getMember_Cons js_def)

end
