(* ===== verification/Tsp_Channel.thy ===== *)
theory Tsp_Channel
  imports Tsp_Binding Tsp_Route Step_Up
begin

text \<open>
  Trust tasks over TSP: the frames that arrive unasked, \<open>packages/core/src/vta/tsp-inbound.ts\<close>, and the request
  channel, \<open>tsp-channel.ts\<close>, which forms the relationship, signs, wraps and seals a request and decides which
  of the frames on the shared socket is its reply. The transport offers frames in an order of its own: it
  is the list of them, and the exception it raises when none is claimed.
\<close>

subsection \<open>Frames that arrive unasked\<close>

datatype inboundTspError =
    UnreadableEnvelope tsp_error | SenderUnresolved jsstr failure | UnpackFailed jsstr tsp_error
  | OtherSenderProven jsstr jsstr | BindingRefused bindingError | NotADocument

datatype inboundTsp = InboundMessage jsval | InboundControl jsstr controlMessage

definition inboundMessage :: "jsstr \<Rightarrow> jsstr \<Rightarrow> jsstr \<Rightarrow> jsval \<Rightarrow> jsval" where
  "inboundMessage i from_vid to_vid doc = JObj
     [(js ''id'', JStr i), (js ''type'', JStr TRUST_TASK_ENVELOPE_TYPE), (js ''from'', JStr from_vid),
      (js ''to'', JArr [JStr to_vid]), (js ''body'', doc), (js ''transport'', JStr (js ''tsp''))]"

definition openInbound :: "(jsstr \<Rightarrow> jsval option) \<Rightarrow> holderIdentity \<Rightarrow> unpackedMessage \<Rightarrow> inboundTspError + inboundTsp" where
  "openInbound parse holder opened =
     (case msgControl opened of
        Some control \<Rightarrow> Inr (InboundControl (msgSender opened) control)
      | None \<Rightarrow> bindE (mapErr BindingRefused (openTspEnvelope parse (textDecode (msgPayload opened)))) (\<lambda>doc.
          bindE (orThrow (asString (field doc ''id'')) NotADocument) (\<lambda>i.
          throwIf (i = [] \<or> asString (field doc ''type'') = None) NotADocument
            (Inr (InboundMessage (inboundMessage i (msgSender opened) (holderVid holder) doc))))))"

definition unpackInboundTsp ::
  "crypto \<Rightarrow> (jsstr \<Rightarrow> jsval option) \<Rightarrow> (jsstr \<Rightarrow> failure + remoteEndpoint) \<Rightarrow> holderIdentity \<Rightarrow> bytes
     \<Rightarrow> inboundTspError + inboundTsp" where
  "unpackInboundTsp C parse resolveSender holder bs =
     bindE (mapErr UnreadableEnvelope (decodeEnvelopePublic bs)) (\<lambda>decoded.
     let claimedSender = envSender (pubEnvelope decoded) in
     bindE (mapErr (SenderUnresolved claimedSender) (resolveSender claimedSender)) (\<lambda>sender.
     bindE (mapErr (UnpackFailed claimedSender)
         (unpack C bs \<lparr>receiverDecryptionSk = holderEncryptionSk holder, senderSigningPk = remoteSigningPk sender\<rparr>)) (\<lambda>opened.
     throwIf (msgSender opened \<noteq> claimedSender) (OtherSenderProven (msgSender opened) claimedSender)
       (openInbound parse holder opened))))"

subsection \<open>The reply to a request\<close>

datatype declined =
    DeclinedUnpack tsp_error | DeclinedText | DeclinedBinding bindingError | SealedBy jsstr | OtherThread jsval jsval jsval

definition openReply :: "crypto \<Rightarrow> (jsstr \<Rightarrow> jsval option) \<Rightarrow> holderIdentity \<Rightarrow> remoteEndpoint \<Rightarrow> bytes \<Rightarrow> declined + (jsstr \<times> jsval)" where
  "openReply C parse holder vta bs =
     bindE (mapErr DeclinedUnpack
         (unpack C bs \<lparr>receiverDecryptionSk = holderEncryptionSk holder, senderSigningPk = remoteSigningPk vta\<rparr>)) (\<lambda>reply.
     bindE (orThrow (textDecodeFatal (msgPayload reply)) DeclinedText) (\<lambda>text.
     bindE (mapErr DeclinedBinding (openTspEnvelope parse text)) (\<lambda>doc. Inr (msgSender reply, doc))))"

definition replyClaims ::
  "crypto \<Rightarrow> (jsstr \<Rightarrow> jsval option) \<Rightarrow> holderIdentity \<Rightarrow> remoteEndpoint \<Rightarrow> jsval \<Rightarrow> bytes \<Rightarrow> declined + jsval" where
  "replyClaims C parse holder vta requestId bs =
     bindE (openReply C parse holder vta bs) (\<lambda>(sender, doc).
     throwIf (sender \<noteq> remoteVid vta) (SealedBy sender)
     (throwIf (field doc ''threadId'' \<noteq> requestId)
        (OtherThread (field doc ''threadId'') (field doc ''type'') (field doc ''id'')) (Inr doc)))"

text \<open>\<open>sendAndAwaitReply\<close>: the frames are offered in turn and the first that is claimed ends the wait; without
  one the result is the reason the last was declined for.\<close>

fun awaitClaim :: "(bytes \<Rightarrow> declined + jsval) \<Rightarrow> bytes list \<Rightarrow> declined option \<Rightarrow> declined option + jsval" where
  "awaitClaim claims [] lastDecline = Inl lastDecline"
| "awaitClaim claims (f # fs) lastDecline =
     (case claims f of Inr doc \<Rightarrow> Inr doc | Inl why \<Rightarrow> awaitClaim claims fs (Some why))"

text \<open>One unpack per frame and key set, however many requests wait: results are kept by the frame object (its
  number here) and the public keys.\<close>

type_synonym replyCache = "nat \<Rightarrow> (bytes \<times> bytes \<times> bytes \<Rightarrow> (declined + (jsstr \<times> jsval)) option) option"

definition openReplyOnce ::
  "crypto \<Rightarrow> (jsstr \<Rightarrow> jsval option) \<Rightarrow> replyCache \<Rightarrow> nat \<times> bytes \<Rightarrow> holderIdentity \<Rightarrow> remoteEndpoint
     \<Rightarrow> replyCache \<times> (declined + (jsstr \<times> jsval))" where
  "openReplyOnce C parse openedFrames frame holder vta =
     (let keys = (getPublicKey C (holderEncryptionSk holder), remoteEncryptionPk vta, remoteSigningPk vta);
          byKeys = (case openedFrames (fst frame) of Some m \<Rightarrow> m | None \<Rightarrow> Map.empty)
      in case byKeys keys of
           Some cached \<Rightarrow> (openedFrames(fst frame \<mapsto> byKeys), cached)
         | None \<Rightarrow> let opened = openReply C parse holder vta (snd frame)
                   in (openedFrames(fst frame \<mapsto> byKeys(keys \<mapsto> opened)), opened))"

subsection \<open>The request channel\<close>

datatype sendError = SendTask taskError | SendPack tsp_error | SendHandshake relationshipState relationshipEvent | NoReply "declined option"
  | NoOneWaySend | TransportFailed | WireClosed

text \<open>What the outside decides in one request: random draws, the clock, whether the socket takes the frame
  (\<open>MediatorSessionTspTransport.sendAndAwaitReply\<close> of \<open>tsp-mediator-transport.ts\<close> refuses with \<open>e.client.unsupported\<close>
  when it does not, and reports a wait without a claimed frame as \<open>e.client.network\<close>), the frames that arrive.\<close>

record 's sendEnv =
  sendHandshake :: "'s handshakeEnv"
  sendUuid :: jsstr
  sendNow :: int
  sendEph :: bytes
  sendOpen :: bool
  sendOffered :: "bytes list"

definition packForVta ::
  "crypto \<Rightarrow> taskSigner \<Rightarrow> holderIdentity \<Rightarrow> remoteEndpoint \<Rightarrow> 's sendEnv \<Rightarrow> members \<Rightarrow> sendError + (members \<times> bytes)" where
  "packForVta C signer holder vta env envelope =
     bindE (mapErr SendTask (signOutboundTask (sendUuid env) (sendNow env) signer (Some (holderVid holder)) envelope)) (\<lambda>out.
     bindE (mapErr SendPack (pack C (sendEph env) (textEncode (wrapTspEnvelope (JObj out))) (holderVid holder) (remoteVid vta)
        \<lparr>senderSigningSk = holderSigningSk holder, receiverEncryptionPk = remoteEncryptionPk vta\<rparr> None)) (\<lambda>packed.
     Inr (out, packedBytes packed)))"

text \<open>The result is the store afterwards, the frame that was sent, if any, and what \<open>send\<close> resolves to.\<close>

definition channelSend ::
  "crypto \<Rightarrow> didLib \<Rightarrow> codeLib \<Rightarrow> (jsstr \<Rightarrow> jsval option) \<Rightarrow> 's relStore \<Rightarrow> taskSigner \<Rightarrow> holderIdentity \<Rightarrow> remoteEndpoint
     \<Rightarrow> 's sendEnv \<Rightarrow> jsstr option \<Rightarrow> jsstr option \<Rightarrow> members \<Rightarrow> 's \<Rightarrow> 's \<times> bytes option \<times> (sendError + jsval)" where
  "channelSend C L R parse S signer holder vta env expectedType operationLabel envelope st =
     (case ensureRelationship C S holder vta (sendHandshake env) st of
        Inl (s, ev) \<Rightarrow> (st, None, Inl (SendHandshake s ev))
      | Inr (st1, _) \<Rightarrow>
         (case packForVta C signer holder vta env envelope of
            Inl e \<Rightarrow> (st1, None, Inl e)
          | Inr (out, wire) \<Rightarrow>
             if \<not> sendOpen env then (forgetOnFailure S st1 (holderVid holder) (remoteVid vta), None, Inl WireClosed) else
             (case awaitClaim (replyClaims C parse holder vta (getMember out (js ''id''))) (sendOffered env) None of
                Inl lastDecline \<Rightarrow>
                  (forgetOnFailure S st1 (holderVid holder) (remoteVid vta), Some wire, Inl (NoReply lastDecline))
              | Inr doc \<Rightarrow>
                  (st1, Some wire,
                   mapErr SendTask
                     (bindE (verifyTrustTaskReply C L (remoteVid vta) None (membersOf doc)) (\<lambda>_.
                        parseTrustTaskReply R expectedType operationLabel (membersOf doc)))))))"

text \<open>\<open>notify\<close> seals and sends without waiting; \<open>oneWay\<close> is whether the transport has such a path and whether it
  takes the frame.\<close>

definition channelNotify ::
  "crypto \<Rightarrow> 's relStore \<Rightarrow> taskSigner \<Rightarrow> holderIdentity \<Rightarrow> remoteEndpoint \<Rightarrow> 's sendEnv \<Rightarrow> bool option \<Rightarrow> members \<Rightarrow> 's
     \<Rightarrow> 's \<times> bytes option \<times> (sendError + unit)" where
  "channelNotify C S signer holder vta env oneWay envelope st =
     (case oneWay of
        None \<Rightarrow> (st, None, Inl NoOneWaySend)
      | Some taken \<Rightarrow>
         (case ensureRelationship C S holder vta (sendHandshake env) st of
            Inl (s, ev) \<Rightarrow> (st, None, Inl (SendHandshake s ev))
          | Inr (st1, _) \<Rightarrow>
             (case packForVta C signer holder vta env envelope of
                Inl e \<Rightarrow> (st1, None, Inl e)
              | Inr (_, wire) \<Rightarrow>
                  if taken then (st1, Some wire, Inr ())
                  else (forgetOnFailure S st1 (holderVid holder) (remoteVid vta), Some wire, Inl TransportFailed))))"

lemma notify_sends:
  "channelNotify C S signer holder vta env oneWay envelope st = (st', wire, Inr ()) \<longleftrightarrow>
     oneWay = Some True \<and> (\<exists>oc out w. ensureRelationship C S holder vta (sendHandshake env) st = Inr (st', oc) \<and>
       packForVta C signer holder vta env envelope = Inr (out, w) \<and> wire = Some w)"
  by (auto simp: channelNotify_def split: option.splits sum.splits prod.splits if_splits)

subsection \<open>A reply is evidence\<close>

lemma openReply_Inr:
  "openReply C parse holder vta bs = Inr (sender, doc) \<longleftrightarrow>
     (\<exists>m text. unpack C bs \<lparr>receiverDecryptionSk = holderEncryptionSk holder, senderSigningPk = remoteSigningPk vta\<rparr> = Inr m \<and>
        textDecodeFatal (msgPayload m) = Some text \<and> openTspEnvelope parse text = Inr doc \<and> sender = msgSender m)"
  by (auto simp: openReply_def bindE_Inr)

lemma replyClaims_Inr:
  "replyClaims C parse holder vta rid bs = Inr doc \<longleftrightarrow>
     openReply C parse holder vta bs = Inr (remoteVid vta, doc) \<and> field doc ''threadId'' = rid"
  by (auto simp: replyClaims_def bindE_Inr split: prod.splits if_splits)

lemma awaitClaim_Inr:
  "awaitClaim claims fs d = Inr doc \<Longrightarrow> \<exists>others f later. fs = others @ f # later \<and> claims f = Inr doc \<and>
     (\<forall>g \<in> set others. \<not> returns (claims g))"
proof (induction fs arbitrary: d)
  case (Cons g fs)
  show ?case
  proof (cases "claims g")
    case (Inl why)
    with Cons obtain others f later where "fs = others @ f # later" "claims f = Inr doc" "\<forall>h \<in> set others. \<not> returns (claims h)"
      by fastforce
    with Inl show ?thesis by (intro exI [of _ "g # others"]) (auto simp: returns_iff)
  next
    case (Inr x)
    with Cons.prems have "g # fs = [] @ g # fs" "claims g = Inr doc" by auto
    then show ?thesis by (metis empty_iff list.set(1))
  qed
qed simp

lemma awaitClaim_first:
  "claims f = Inr doc \<Longrightarrow> (\<forall>g \<in> set fs. \<not> returns (claims g)) \<Longrightarrow> awaitClaim claims (fs @ f # gs) d = Inr doc"
proof (induction fs arbitrary: d)
  case (Cons g fs)
  then show ?case by (cases "claims g") (auto simp: returns_iff)
qed simp

text \<open>The frame \<open>bs\<close> opened under the agent's keys, proven to come from it, and threaded to the request.\<close>

definition replyFrame ::
  "crypto \<Rightarrow> (jsstr \<Rightarrow> jsval option) \<Rightarrow> holderIdentity \<Rightarrow> remoteEndpoint \<Rightarrow> jsval \<Rightarrow> bytes \<Rightarrow> jsval \<Rightarrow> bool" where
  "replyFrame C parse holder vta rid bs doc \<longleftrightarrow>
     (\<exists>m text. unpack C bs \<lparr>receiverDecryptionSk = holderEncryptionSk holder, senderSigningPk = remoteSigningPk vta\<rparr> = Inr m \<and>
        msgSender m = remoteVid vta \<and> textDecodeFatal (msgPayload m) = Some text \<and>
        openTspEnvelope parse text = Inr doc \<and> field doc ''threadId'' = rid)"

lemma replyFrame_iff: "replyFrame C parse holder vta rid bs doc \<longleftrightarrow> replyClaims C parse holder vta rid bs = Inr doc"
  unfolding replyClaims_Inr openReply_Inr replyFrame_def by auto

lemma field_members: "isObject doc \<Longrightarrow> getMember (membersOf doc) (js k) = field doc k"
  by (cases doc) (simp_all add: field_def getProp_def)

lemma send_iff:
  "channelSend C L R parse S signer holder vta env expected lbl envelope st = (st', wire, Inr payload) \<longleftrightarrow>
     (\<exists>oc out w others bs later doc vm. ensureRelationship C S holder vta (sendHandshake env) st = Inr (st', oc) \<and>
        packForVta C signer holder vta env envelope = Inr (out, w) \<and> sendOpen env \<and> wire = Some w \<and>
        sendOffered env = others @ bs # later \<and>
        \<not> (\<exists>g d. g \<in> set others \<and> replyFrame C parse holder vta (getMember out (js ''id'')) g d) \<and>
        replyFrame C parse holder vta (getMember out (js ''id'')) bs doc \<and>
        remoteVid vta = stripScidSrc L (controllerOf vm) \<and> signedUnder C L AUTHENTICATION (membersOf doc) vm \<and>
        verifyTrustTaskReply C L (remoteVid vta) None (membersOf doc) = Inr () \<and>
        parseTrustTaskReply R expected lbl (membersOf doc) = Inr payload)" (is "?l \<longleftrightarrow> ?r")
proof
  assume l: ?l
  then obtain st1 oc where h: "ensureRelationship C S holder vta (sendHandshake env) st = Inr (st1, oc)"
    by (cases "ensureRelationship C S holder vta (sendHandshake env) st") (auto simp: channelSend_def)
  with l obtain out w where p: "packForVta C signer holder vta env envelope = Inr (out, w)"
    by (cases "packForVta C signer holder vta env envelope") (auto simp: channelSend_def)
  from l h p have open_wire: "sendOpen env" by (auto simp: channelSend_def split: if_splits)
  let ?claims = "replyClaims C parse holder vta (getMember out (js ''id''))"
  from l h p open_wire obtain doc where a: "awaitClaim ?claims (sendOffered env) None = Inr doc"
    by (cases "awaitClaim ?claims (sendOffered env) None") (auto simp: channelSend_def)
  then obtain others bs later where f: "sendOffered env = others @ bs # later" "?claims bs = Inr doc"
    "\<forall>g \<in> set others. \<not> returns (?claims g)" using awaitClaim_Inr by blast
  from l h p open_wire a have v: "wire = Some w" "st' = st1" "verifyTrustTaskReply C L (remoteVid vta) None (membersOf doc) = Inr ()"
    "parseTrustTaskReply R expected lbl (membersOf doc) = Inr payload"
    by (auto simp: channelSend_def bindE_Inr)
  from v(4) have "\<not> isTrustTaskErrorType (getMember (membersOf doc) (js ''type''))" unfolding parse_reply by simp
  from reply_verified [OF v(3) _ this] obtain vm where
    "remoteVid vta = stripScidSrc L (controllerOf vm)" "signedUnder C L AUTHENTICATION (membersOf doc) vm" by auto
  moreover have "\<not> (\<exists>g d. g \<in> set others \<and> replyFrame C parse holder vta (getMember out (js ''id'')) g d)"
    using f(3) by (auto simp: replyFrame_iff returns_iff)
  ultimately show ?r using h p open_wire v f(1,2) unfolding replyFrame_iff by blast
next
  assume ?r
  then obtain oc out w others bs later doc where r: "ensureRelationship C S holder vta (sendHandshake env) st = Inr (st', oc)"
    "packForVta C signer holder vta env envelope = Inr (out, w)" "wire = Some w" "sendOpen env" "sendOffered env = others @ bs # later"
    "\<not> (\<exists>g d. g \<in> set others \<and> replyFrame C parse holder vta (getMember out (js ''id'')) g d)"
    "replyFrame C parse holder vta (getMember out (js ''id'')) bs doc"
    "verifyTrustTaskReply C L (remoteVid vta) None (membersOf doc) = Inr ()"
    "parseTrustTaskReply R expected lbl (membersOf doc) = Inr payload" by blast
  have "awaitClaim (replyClaims C parse holder vta (getMember out (js ''id''))) (others @ bs # later) None = Inr doc"
    using r(6,7) unfolding replyFrame_iff by (intro awaitClaim_first) (auto simp: returns_iff)
  with r(1-5,8,9) show ?l by (simp add: channelSend_def)
qed

subsection \<open>The cache of opened frames\<close>

text \<open>The cache holds only what opening would give, for frames whose bytes do not change and secrets that
  their public keys tell apart.\<close>

definition cacheOk :: "crypto \<Rightarrow> (jsstr \<Rightarrow> jsval option) \<Rightarrow> (nat \<Rightarrow> bytes) \<Rightarrow> bytes set \<Rightarrow> replyCache \<Rightarrow> bool" where
  "cacheOk C parse frames secrets cache \<longleftrightarrow> inj_on (getPublicKey C) secrets \<and>
     (\<forall>n m holder vta r. cache n = Some m \<longrightarrow> holderEncryptionSk holder \<in> secrets \<longrightarrow>
        m (getPublicKey C (holderEncryptionSk holder), remoteEncryptionPk vta, remoteSigningPk vta) = Some r \<longrightarrow>
        r = openReply C parse holder vta (frames n))"

lemma openReply_keys:
  "holderEncryptionSk h = holderEncryptionSk h' \<Longrightarrow> remoteSigningPk v = remoteSigningPk v' \<Longrightarrow>
   openReply C parse h v bs = openReply C parse h' v' bs"
  by (simp add: openReply_def)

lemma cache_step:
  assumes ok: "cacheOk C parse frames secrets cache" and h: "holderEncryptionSk holder \<in> secrets"
    and s: "openReplyOnce C parse cache (n, frames n) holder vta = (cache', r)"
  shows "r = openReply C parse holder vta (frames n) \<and> cacheOk C parse frames secrets cache'"
proof -
  let ?k = "(getPublicKey C (holderEncryptionSk holder), remoteEncryptionPk vta, remoteSigningPk vta)"
  let ?m = "case cache n of Some m \<Rightarrow> m | None \<Rightarrow> Map.empty"
  have inj: "inj_on (getPublicKey C) secrets" using ok by (simp add: cacheOk_def)
  have hit: "r' = openReply C parse h v (frames n)"
    if "?m (getPublicKey C (holderEncryptionSk h), remoteEncryptionPk v, remoteSigningPk v) = Some r'"
      "holderEncryptionSk h \<in> secrets" for h v r'
    using that ok unfolding cacheOk_def by (cases "cache n") auto
  show ?thesis
  proof (cases "?m ?k")
    case (Some c)
    with s have e: "r = c" "cache' = cache(n \<mapsto> ?m)" by (auto simp: openReplyOnce_def Let_def)
    have "cacheOk C parse frames secrets cache'"
      using ok hit unfolding cacheOk_def e(2) by (auto split: if_splits)
    with hit [OF Some h] e(1) show ?thesis by simp
  next
    case None
    with s have e: "r = openReply C parse holder vta (frames n)" "cache' = cache(n \<mapsto> ?m(?k \<mapsto> r))"
      by (auto simp: openReplyOnce_def Let_def)
    have "r' = openReply C parse h v (frames i)" if c: "cache' i = Some m" "holderEncryptionSk h \<in> secrets"
      "m (getPublicKey C (holderEncryptionSk h), remoteEncryptionPk v, remoteSigningPk v) = Some r'" for i m h v r'
    proof (cases "i = n")
      case True
      show ?thesis
      proof (cases "(getPublicKey C (holderEncryptionSk h), remoteEncryptionPk v, remoteSigningPk v) = ?k")
        case same: True
        with inj h c(2) have "holderEncryptionSk h = holderEncryptionSk holder" by (auto dest: inj_onD)
        with same c True e openReply_keys [of h holder v vta] show ?thesis by auto
      next
        case False
        with c True e(2) hit [of h v r'] show ?thesis by auto
      qed
    next
      case False
      with c e(2) ok show ?thesis unfolding cacheOk_def by auto
    qed
    with inj e(1) show ?thesis unfolding cacheOk_def by blast
  qed
qed

fun openReplies ::
  "crypto \<Rightarrow> (jsstr \<Rightarrow> jsval option) \<Rightarrow> (nat \<Rightarrow> bytes) \<Rightarrow> replyCache \<Rightarrow> (nat \<times> holderIdentity \<times> remoteEndpoint) list
     \<Rightarrow> (declined + (jsstr \<times> jsval)) list" where
  "openReplies C parse frames cache [] = []"
| "openReplies C parse frames cache ((n, holder, vta) # calls) =
     (case openReplyOnce C parse cache (n, frames n) holder vta of
        (cache', r) \<Rightarrow> r # openReplies C parse frames cache' calls)"

lemma openReplies_cached:
  assumes "cacheOk C parse frames secrets cache" and "\<forall>c \<in> set calls. holderEncryptionSk (fst (snd c)) \<in> secrets"
  shows "openReplies C parse frames cache calls = map (\<lambda>(n, h, v). openReply C parse h v (frames n)) calls"
  using assms
proof (induction calls arbitrary: cache)
  case (Cons c calls)
  obtain n h v where c: "c = (n, h, v)" by (cases c)
  obtain cache' r where o: "openReplyOnce C parse cache (n, frames n) h v = (cache', r)" by fastforce
  from cache_step [OF Cons.prems(1) _ o] Cons.prems(2) c
  have "r = openReply C parse h v (frames n)" "cacheOk C parse frames secrets cache'" by auto
  with Cons c o show ?case by simp
qed simp

subsection \<open>What arrives unasked\<close>

lemma openInbound_Inr:
  "openInbound parse holder m = Inr x \<longleftrightarrow>
     (\<exists>c. msgControl m = Some c \<and> x = InboundControl (msgSender m) c) \<or>
     (msgControl m = None \<and> (\<exists>doc i t. openTspEnvelope parse (textDecode (msgPayload m)) = Inr doc \<and>
        field doc ''id'' = JStr i \<and> i \<noteq> [] \<and> field doc ''type'' = JStr t \<and>
        x = InboundMessage (inboundMessage i (msgSender m) (holderVid holder) doc)))"
  by (cases "msgControl m") (auto simp: openInbound_def bindE_Inr not_None_eq split: if_splits)

lemma public_envelope:
  assumes "unpack C w keys = Inr m"
  shows "\<exists>d. decodeEnvelopePublic w = Inr d \<and> envSender (pubEnvelope d) = msgSender m"
proof -
  obtain e where "decodeEnvelope w = Inr e" "msgSender m = envSender (decEnvelope e)" using unpack_facts [OF assms] by metis
  then show ?thesis using unpack_V1 [OF assms] by (auto simp: decodeEnvelopePublic_def returns_iff)
qed

lemma unpackInbound_Inr:
  "unpackInboundTsp C parse resolve holder bs = Inr x \<longleftrightarrow>
     (\<exists>sender m. resolve (msgSender m) = Inr sender \<and>
        unpack C bs \<lparr>receiverDecryptionSk = holderEncryptionSk holder, senderSigningPk = remoteSigningPk sender\<rparr> = Inr m \<and>
        openInbound parse holder m = Inr x)" (is "?l \<longleftrightarrow> ?r")
proof
  assume ?l
  then obtain d sender m where "decodeEnvelopePublic bs = Inr d" "resolve (envSender (pubEnvelope d)) = Inr sender" "openInbound parse holder m = Inr x"
    "unpack C bs \<lparr>receiverDecryptionSk = holderEncryptionSk holder, senderSigningPk = remoteSigningPk sender\<rparr> = Inr m"
    "msgSender m = envSender (pubEnvelope d)"
    unfolding unpackInboundTsp_def bindE_Inr Let_def throwIf_Inr mapErr_Inr by blast
  then show ?r by metis
next
  assume ?r
  then obtain sender m where r: "resolve (msgSender m) = Inr sender" "openInbound parse holder m = Inr x"
    "unpack C bs \<lparr>receiverDecryptionSk = holderEncryptionSk holder, senderSigningPk = remoteSigningPk sender\<rparr> = Inr m" by blast
  from public_envelope [OF r(3)] obtain d where "decodeEnvelopePublic bs = Inr d" "envSender (pubEnvelope d) = msgSender m" by blast
  with r show ?l by (simp add: unpackInboundTsp_def Let_def)
qed

lemma inbound_iff:
  "unpackInboundTsp C parse resolve holder bs = Inr x \<longleftrightarrow>
     (\<exists>sender m e sig. resolve (msgSender m) = Inr sender \<and> decodeEnvelope bs = Inr e \<and>
        msgSender m = envSender (decEnvelope e) \<and> verify C (slice bs 0 (contentEnd e)) sig (remoteSigningPk sender) \<and>
        unpack C bs \<lparr>receiverDecryptionSk = holderEncryptionSk holder, senderSigningPk = remoteSigningPk sender\<rparr> = Inr m \<and>
        ((\<exists>c. msgControl m = Some c \<and> x = InboundControl (msgSender m) c) \<or>
         (msgControl m = None \<and> (\<exists>doc i t. openTspEnvelope parse (textDecode (msgPayload m)) = Inr doc \<and>
            field doc ''id'' = JStr i \<and> i \<noteq> [] \<and> field doc ''type'' = JStr t \<and>
            x = InboundMessage (inboundMessage i (msgSender m) (holderVid holder) doc)))))" (is "?l \<longleftrightarrow> ?r")
proof
  assume ?l
  then obtain sender m where r: "resolve (msgSender m) = Inr sender" "openInbound parse holder m = Inr x"
    "unpack C bs \<lparr>receiverDecryptionSk = holderEncryptionSk holder, senderSigningPk = remoteSigningPk sender\<rparr> = Inr m"
    unfolding unpackInbound_Inr by blast
  obtain e sig where "decodeEnvelope bs = Inr e" "msgSender m = envSender (decEnvelope e)"
    "verify C (slice bs 0 (contentEnd e)) sig (remoteSigningPk sender)" using unpack_facts [OF r(3)] by (metis unpackKeys.select_convs(2))
  with r show ?r unfolding openInbound_Inr by blast
next
  assume ?r
  then show ?l unfolding unpackInbound_Inr openInbound_Inr by blast
qed

subsection \<open>A request reaches the other side\<close>

text \<open>The signed document fits a frame and survives its text: short names, well-formed text, and \<open>JSON.parse\<close>
  reading what \<open>JSON.stringify\<close> wrote.\<close>

definition carried :: "(jsstr \<Rightarrow> jsval option) \<Rightarrow> members \<Rightarrow> jsstr \<Rightarrow> jsstr \<Rightarrow> bool" where
  "carried parse out u v \<longleftrightarrow> vidShort u \<and> vidShort v \<and>
     (let text = wrapTspEnvelope (JObj out) in
      plainText text \<and> length (textEncode text) \<le> 2 ^ 20 \<and> parse text = Some (bindingEnvelope (JObj out)))"

lemma packForVta_Inr:
  "packForVta C signer holder vta env envelope = Inr (out, w) \<longleftrightarrow>
     signOutboundTask (sendUuid env) (sendNow env) signer (Some (holderVid holder)) envelope = Inr out \<and>
     (\<exists>p. pack C (sendEph env) (textEncode (wrapTspEnvelope (JObj out))) (holderVid holder) (remoteVid vta)
        \<lparr>senderSigningSk = holderSigningSk holder, receiverEncryptionPk = remoteEncryptionPk vta\<rparr> None = Inr p \<and> w = packedBytes p)"
  by (auto simp: packForVta_def bindE_Inr)

lemma request_received:
  assumes ex: "exchangeOk C (sendEph env) ssk rsk'" and c: "carried parse out u v"
    and p: "signOutboundTask (sendUuid env) (sendNow env) signer (Some u) envelope = Inr out"
    and r: "resolve u = Inr sender" "remoteSigningPk sender = edPublicKey C ssk"
    and d: "getMember out (js ''id'') = JStr i" "i \<noteq> []" "getMember out (js ''type'') = JStr t"
  shows "\<exists>w. packForVta C signer (holderOf u ssk rsk) (remoteOf C v ssk' rsk') env envelope = Inr (out, w) \<and>
    unpackInboundTsp C parse resolve (holderOf v ssk' rsk') w = Inr (InboundMessage (inboundMessage i u v (JObj out)))"
proof -
  let ?body = "textEncode (wrapTspEnvelope (JObj out))"
  have v: "vidShort u" "vidShort v" and b: "plainText (wrapTspEnvelope (JObj out))" "length ?body \<le> 2 ^ 20"
    "parse (wrapTspEnvelope (JObj out)) = Some (bindingEnvelope (JObj out))" using c by (simp_all add: carried_def Let_def)
  have vv: "vidOk v" using v vidShort_ok by simp
  from app_roundtrip [OF ex direct_ok(1) [OF v(1) b(2)] vv direct_ok(3) [OF v(1) b(2)]] obtain q m where
    q: "pack C (sendEph env) ?body u v (packKeysFor C ssk rsk') None = Inr q" and
    m: "unpack C (packedBytes q) (unpackKeysFor C ssk rsk') = Inr m" "msgPayload m = ?body" "msgSender m = u" "msgControl m = None"
    by (auto simp: pack_def)
  have packed: "packForVta C signer (holderOf u ssk rsk) (remoteOf C v ssk' rsk') env envelope = Inr (out, packedBytes q)"
    unfolding packForVta_Inr keys_of_endpoints using p q by (auto simp: holderOf_def remoteOf_def)
  have k: "\<lparr>receiverDecryptionSk = holderEncryptionSk (holderOf v ssk' rsk'), senderSigningPk = remoteSigningPk sender\<rparr> =
      unpackKeysFor C ssk rsk'" by (simp add: unpackKeysFor_def holderOf_def r(2))
  have "textDecode ?body = wrapTspEnvelope (JObj out)"
    using b(1) textDecode_textEncode_iff by (intro textDecode_valid) blast
  then have o: "openTspEnvelope parse (textDecode (msgPayload m)) = Inr (JObj out)"
    using open_wrapped [where parse = parse, OF b(3)] m(2) by simp
  have "openInbound parse (holderOf v ssk' rsk') m = Inr (InboundMessage (inboundMessage i u v (JObj out)))"
    unfolding openInbound_Inr using m(3,4) o d by (simp add: field_def holderOf_def)
  with m(1,3) r(1) k have "unpackInboundTsp C parse resolve (holderOf v ssk' rsk') (packedBytes q) =
      Inr (InboundMessage (inboundMessage i u v (JObj out)))" unfolding unpackInbound_Inr by metis
  with packed show ?thesis by blast
qed

definition sampleRequest :: members where
  "sampleRequest = [(js ''id'', JStr (js ''1'')), (js ''type'', JStr (js ''t'')), (js ''issuer'', JStr sampleA),
     (js ''issuedAt'', JStr (js ''d'')), (js ''recipient'', JStr sampleB)]"

definition plainSigner :: taskSigner where
  "plainSigner = \<lparr>signerDid = sampleA, signEnvelope = (\<lambda>m purpose. Inr m)\<rparr>"

definition sampleParse :: "members \<Rightarrow> jsstr \<Rightarrow> jsval option" where
  "sampleParse out = (\<lambda>t. Some (bindingEnvelope (JObj out)))"

lemma sample_members:
  "getMember sampleRequest (js ''id'') = JStr (js ''1'')" "getMember sampleRequest (js ''type'') = JStr (js ''t'')"
  "getMember sampleRequest (js ''issuer'') = JStr sampleA" "getMember sampleRequest (js ''issuedAt'') = JStr (js ''d'')"
  "getMember sampleRequest (js ''recipient'') = JStr sampleB"
  by (simp_all add: sampleRequest_def getMember_Cons js_def)

lemma sample_request_signed: "signOutboundTask u now plainSigner (Some sampleA) sampleRequest = Inr sampleRequest"
proof -
  have "js ''1'' \<noteq> []" "js ''d'' \<noteq> []" "sampleA \<noteq> []" "sampleB \<noteq> []" by (simp_all add: js_def sampleA_def sampleB_def)
  then have "completeEnvelope u now sampleA sampleRequest = sampleRequest"
    by (simp add: completeEnvelope_def setIf_def sample_members)
  with \<open>sampleB \<noteq> []\<close> show ?thesis by (simp add: signOutboundTask_def plainSigner_def sample_members Let_def)
qed

lemma quoteUnits_plain: "list_all (\<lambda>u. 32 \<le> u \<and> u < 128 \<and> u \<noteq> 34 \<and> u \<noteq> 92) us \<Longrightarrow> quoteUnits us = us"
  by (induction us) (simp_all add: quoteUnits.simps(2) shortEscape_def isLead_def isTrail_def)

lemma jsonQuote_js:
  assumes "list_all (\<lambda>c. 32 \<le> (of_char c :: nat) \<and> of_char c < (128 :: nat) \<and> of_char c \<noteq> (34 :: nat) \<and> of_char c \<noteq> (92 :: nat)) cs"
  shows "jsonQuote (js cs) = js ([CHR 0x22] @ cs @ [CHR 0x22])"
proof -
  have "quoteUnits (map unat (js cs)) = map unat (js cs)"
    using assms by (intro quoteUnits_plain) (auto simp: js_def list_all_iff unat_of_nat)
  then show ?thesis by (simp add: jsonQuote_def js_def)
qed

lemma js_fits:
  assumes "list_all (\<lambda>c. of_char c < (128 :: nat)) cs" and "length cs < 1000"
  shows "plainText (js cs) \<and> length (textEncode (js cs)) \<le> 2 ^ 20"
  using plainText_ascii [OF assms(1)] textEncode_ascii [OF assms(1)] assms(2) by simp

lemma sample_request_carried: "carried (sampleParse sampleRequest) sampleRequest sampleA sampleB"
proof -
  let ?t = "wrapTspEnvelope (JObj sampleRequest)"
  have "plainText ?t \<and> length (textEncode ?t) \<le> 2 ^ 20"
    unfolding wrapTspEnvelope_def bindingEnvelope_def sampleRequest_def sampleA_def sampleB_def TSP_BINDING_ENVELOPE_TYPE_def
    by (simp add: jsonQuote_js js_append [symmetric] del: power_numeral power2_eq_square) (rule js_fits; simp)
  then show ?thesis using sampleVids by (simp add: carried_def Let_def sampleParse_def)
qed

subsection \<open>Properties\<close>

text \<open>C10: A frame that arrives unasked is handed on exactly when its claimed sender resolves and the frame unpacks
  under that sender's key, and then it is attributed to the sender the signature proves: a relationship
  message as such, anything else only as an enveloped document with an identity and a type.\<close>

theorem unasked_frame_exactly_when_proven:
  "unpackInboundTsp C parse resolve holder bs = Inr x \<longleftrightarrow>
     (\<exists>sender m e sig. resolve (msgSender m) = Inr sender \<and> decodeEnvelope bs = Inr e \<and>
        msgSender m = envSender (decEnvelope e) \<and> verify C (slice bs 0 (contentEnd e)) sig (remoteSigningPk sender) \<and>
        unpack C bs \<lparr>receiverDecryptionSk = holderEncryptionSk holder, senderSigningPk = remoteSigningPk sender\<rparr> = Inr m \<and>
        ((\<exists>c. msgControl m = Some c \<and> x = InboundControl (msgSender m) c) \<or>
         (msgControl m = None \<and> (\<exists>doc i t. openTspEnvelope parse (textDecode (msgPayload m)) = Inr doc \<and>
            field doc ''id'' = JStr i \<and> i \<noteq> [] \<and> field doc ''type'' = JStr t \<and>
            x = InboundMessage (inboundMessage i (msgSender m) (holderVid holder) doc)))))"
  by (rule inbound_iff)

text \<open>C4: \<open>send\<close> returns a result exactly when the relationship stands, the request could be signed, sealed and
  written to the socket, and the first of the arriving frames that opens under the agent's keys, proves the agent as its sender and
  carries the request's own id as its thread is a document the agent signed, which is not an error
  document; the result is that document's payload. Frames for other requests are passed over.\<close>

theorem send_returns_evidence:
  "channelSend C L R parse S signer holder vta env expected lbl envelope st = (st', wire, Inr payload) \<longleftrightarrow>
     (\<exists>oc out w others bs later doc vm. ensureRelationship C S holder vta (sendHandshake env) st = Inr (st', oc) \<and>
        packForVta C signer holder vta env envelope = Inr (out, w) \<and> sendOpen env \<and> wire = Some w \<and>
        sendOffered env = others @ bs # later \<and>
        \<not> (\<exists>g d. g \<in> set others \<and> replyFrame C parse holder vta (getMember out (js ''id'')) g d) \<and>
        replyFrame C parse holder vta (getMember out (js ''id'')) bs doc \<and>
        remoteVid vta = stripScidSrc L (controllerOf vm) \<and> signedUnder C L AUTHENTICATION (membersOf doc) vm \<and>
        verifyTrustTaskReply C L (remoteVid vta) None (membersOf doc) = Inr () \<and>
        parseTrustTaskReply R expected lbl (membersOf doc) = Inr payload)"
  by (rule send_iff)

text \<open>One decryption per frame: however many waiting requests look at the same frames, and in whatever order,
  each is told what opening the frame under its own keys would tell it, as long as different secrets in
  use have different public keys.\<close>

theorem reply_cache_transparent:
  assumes "inj_on (getPublicKey C) (set (map (\<lambda>c. holderEncryptionSk (fst (snd c))) calls))"
  shows "openReplies C parse frames (\<lambda>n. None) calls = map (\<lambda>(n, h, v). openReply C parse h v (frames n)) calls"
  using assms by (intro openReplies_cached) (auto simp: cacheOk_def)

theorem reply_cache_transparent_witness:
  "openReplies sampleCrypto (\<lambda>t. None) (\<lambda>n. []) (\<lambda>n. None) [(0, sampleHolder, sampleRemote), (0, sampleHolder, sampleRemote)] =
     [openReply sampleCrypto (\<lambda>t. None) sampleHolder sampleRemote [],
      openReply sampleCrypto (\<lambda>t. None) sampleHolder sampleRemote []]"
proof -
  have "inj_on (getPublicKey sampleCrypto) (set (map (\<lambda>c. holderEncryptionSk (fst (snd c)))
      [(0::nat, sampleHolder, sampleRemote), (0, sampleHolder, sampleRemote)]))" by simp
  from reply_cache_transparent [OF this, of "\<lambda>t. None" "\<lambda>n. []"] show ?thesis by simp
qed

text \<open>C21: A request reaches the agent: what the channel packs for a remote is, when the remote's own inbound path
  opens it and resolves the wallet's key, exactly the signed document, attributed to the wallet. Names are
  short, the text is well formed and at most 1 MiB, and \<open>JSON.parse\<close> reads what \<open>JSON.stringify\<close> wrote.\<close>

theorem request_reaches_agent:
  assumes "exchangeOk C (sendEph env) ssk rsk'" and "carried parse out u v"
    and "signOutboundTask (sendUuid env) (sendNow env) signer (Some u) envelope = Inr out"
    and "resolve u = Inr sender" and "remoteSigningPk sender = edPublicKey C ssk"
    and "getMember out (js ''id'') = JStr i" and "i \<noteq> []" and "getMember out (js ''type'') = JStr t"
  shows "\<exists>w. packForVta C signer (holderOf u ssk rsk) (remoteOf C v ssk' rsk') env envelope = Inr (out, w) \<and>
    unpackInboundTsp C parse resolve (holderOf v ssk' rsk') w = Inr (InboundMessage (inboundMessage i u v (JObj out)))"
  using assms by (rule request_received)

theorem request_reaches_agent_witness:
  "\<exists>env w. packForVta sampleCrypto plainSigner (holderOf sampleA (sampleKey 2) (sampleKey 3))
      (remoteOf sampleCrypto sampleB (sampleKey 4) (sampleKey 5)) env sampleRequest = Inr (sampleRequest, w) \<and>
    unpackInboundTsp sampleCrypto (sampleParse sampleRequest)
      (\<lambda>d. Inr (remoteOf sampleCrypto sampleA (sampleKey 2) (sampleKey 3))) (holderOf sampleB (sampleKey 4) (sampleKey 5)) w =
      Inr (InboundMessage (inboundMessage (js ''1'') sampleA sampleB (JObj sampleRequest)))"
proof -
  let ?env = "\<lparr>sendHandshake = undefined, sendUuid = [], sendNow = 0, sendEph = sampleKey 1, sendOpen = True, sendOffered = []\<rparr>"
  have ex: "exchangeOk sampleCrypto (sendEph ?env) (sampleKey 2) (sampleKey 5)" using sampleKey_exchange by simp
  have k: "remoteSigningPk (remoteOf sampleCrypto sampleA (sampleKey 2) (sampleKey 3)) = edPublicKey sampleCrypto (sampleKey 2)"
    by (simp add: remoteOf_def)
  have n: "js ''1'' \<noteq> []" by (simp add: js_def)
  show ?thesis
    using request_reaches_agent [where env = ?env and
        resolve = "\<lambda>d. Inr (remoteOf sampleCrypto sampleA (sampleKey 2) (sampleKey 3))", OF ex sample_request_carried sample_request_signed refl k
        sample_members(1) n sample_members(2)] by blast
qed

end
