(* ===== verification/Http_Reply.thy ===== *)
theory Http_Reply
  imports Trust_Task
begin

text \<open>
  Reading a trust task's answer off an HTTP response: \<open>packages/core/src/vta/errors.ts\<close> (typed errors, who refused
  with a 429 and how long to wait) and \<open>http-reply.ts\<close> (a reply to a request, the acknowledgement of a one-way
  task). A response is its status, headers and parsed body; \<open>Date.parse\<close> is a function argument.
\<close>

subsection \<open>Typed errors\<close>

fun codeText :: "vtaErrorCode \<Rightarrow> jsstr" where
  "codeText Unauthorized = js ''e.p.msg.unauthorized''"
| "codeText Forbidden = js ''e.p.msg.forbidden''"
| "codeText Notfound = js ''e.p.msg.notfound''"
| "codeText Conflict = js ''e.p.msg.conflict''"
| "codeText RateLimited = js ''e.p.msg.rate_limited''"
| "codeText BadRequest = js ''e.p.msg.bad_request''"
| "codeText Internal = js ''e.p.msg.internal''"
| "codeText ClientNetwork = js ''e.client.network''"
| "codeText ClientTimeout = js ''e.client.timeout''"
| "codeText ClientParse = js ''e.client.parse''"
| "codeText ClientIdentity = js ''e.client.identity''"
| "codeText InvalidSessionKey = js ''e.client.invalid_session_key''"
| "codeText SessionKeyNotBound = js ''e.client.session_key_not_bound''"
| "codeText ClientUnsupported = js ''e.client.unsupported''"

definition KNOWN_CODES :: "vtaErrorCode list" where
  "KNOWN_CODES = [Unauthorized, Forbidden, Notfound, Conflict, RateLimited, BadRequest, Internal]"

definition statusCode :: "nat \<Rightarrow> vtaErrorCode" where
  "statusCode status =
     (if status = 401 then Unauthorized else if status = 403 then Forbidden else if status = 404 then Notfound
      else if status = 409 then Conflict else if status = 429 then RateLimited
      else if status \<ge> 500 then Internal else BadRequest)"

definition coerceCode :: "jsval \<Rightarrow> nat \<Rightarrow> vtaErrorCode" where
  "coerceCode raw status =
     (case find (\<lambda>c. raw = JStr (codeText c)) KNOWN_CODES of Some c \<Rightarrow> c | None \<Rightarrow> statusCode status)"

datatype rateLimitSource = FromVta | FromVtc | FromMediator | FromDidHost | FromUpstream

record rateLimit =
  rlSource :: rateLimitSource
  rlLimiter :: "jsstr option"
  rlRetryAfterSecs :: "int option"

datatype errorDetails = NoDetails | ErrorDetails jsval | RateDetails rateLimit

record vtaClientError =
  veCode :: vtaErrorCode
  veMessage :: jsval
  veStatus :: "nat option"
  veDetails :: errorDetails
  veSuggestion :: jsval

text \<open>\<open>v?.k\<close> reads a member, and \<open>undefined\<close> from \<open>null\<close> and \<open>undefined\<close>: here \<open>getProp\<close> is that already.\<close>

definition errorFromBody :: "jsval \<Rightarrow> nat \<Rightarrow> jsstr \<Rightarrow> vtaClientError" where
  "errorFromBody body status statusText =
     (let error = getProp body (js ''error''); details = getProp error (js ''details'') in
      \<lparr>veCode = coerceCode (getProp error (js ''code'')) status,
       veMessage = orElse (getProp error (js ''message'')) (JStr (trim (js (natString status) @ js '' '' @ statusText))),
       veStatus = Some status,
       veDetails = (if details = JUndefined then NoDetails else ErrorDetails details),
       veSuggestion = getProp error (js ''suggestion'')\<rparr>)"

subsection \<open>Who refused, and for how long\<close>

record response =
  resStatus :: nat
  resStatusText :: jsstr
  resHeader :: "string \<Rightarrow> jsstr option"
  resJson :: "jsval option"

definition resOk :: "response \<Rightarrow> bool" where
  "resOk res \<longleftrightarrow> 200 \<le> resStatus res \<and> resStatus res \<le> 299"

definition MAX_RETRY_AFTER_SECS :: int where "MAX_RETRY_AFTER_SECS = 86400 * 365"
definition MAX_LIMITER_LEN :: nat where "MAX_LIMITER_LEN = 128"

definition ceilSecs :: "int \<Rightarrow> int" where
  "ceilSecs ms = - ((- ms) div 1000)"

definition parseRetryAfter :: "(jsstr \<Rightarrow> int option) \<Rightarrow> jsstr option \<Rightarrow> int \<Rightarrow> int option" where
  "parseRetryAfter dateParse value nowMs =
     (case value of
        None \<Rightarrow> None
      | Some raw \<Rightarrow>
          let v = trim raw in
          if v \<noteq> [] \<and> list_all isDigit v then Some (min (int (ofDigits v)) MAX_RETRY_AFTER_SECS)
          else (case dateParse v of
                  None \<Rightarrow> None
                | Some at_ms \<Rightarrow> Some (min (max 0 (ceilSecs (at_ms - nowMs))) MAX_RETRY_AFTER_SECS)))"

definition sourceName :: "jsstr \<Rightarrow> rateLimitSource option" where
  "sourceName h =
     (if h = js ''vta'' then Some FromVta else if h = js ''vtc'' then Some FromVtc
      else if h = js ''mediator'' then Some FromMediator else if h = js ''did-host'' then Some FromDidHost else None)"

fun firstSome :: "'a option list \<Rightarrow> 'a option" where
  "firstSome [] = None"
| "firstSome (Some x # _) = Some x"
| "firstSome (None # xs) = firstSome xs"

text \<open>The seconds of a limiter's body, a whole number or the text of another one, which the ceiling takes up to
  the next whole number. Numbers JSON cannot express do not occur in a body.\<close>

definition bodySecs :: "(jsstr \<Rightarrow> int) \<Rightarrow> jsval \<Rightarrow> int option" where
  "bodySecs mathCeil v =
     (case v of
        JInt i \<Rightarrow> if 0 \<le> i then Some (min i MAX_RETRY_AFTER_SECS) else None
      | JFloat t \<Rightarrow> if startsWith t (js ''-'') then None else Some (min (mathCeil t) MAX_RETRY_AFTER_SECS)
      | _ \<Rightarrow> None)"

record clockLib =
  dateParse :: "jsstr \<Rightarrow> int option"
  mathCeil :: "jsstr \<Rightarrow> int"

definition rateLimitFrom :: "clockLib \<Rightarrow> (string \<Rightarrow> jsstr option) \<Rightarrow> jsval \<Rightarrow> int \<Rightarrow> rateLimit" where
  "rateLimitFrom K headers body nowMs =
     (let isLimiterBody = (getProp body (js ''error'') = JStr (js ''rate_limited''));
          header = (case headers ''x-rate-limit-source'' of Some h \<Rightarrow> asciiLower (trim h) | None \<Rightarrow> []);
          retry = (\<lambda>h. parseRetryAfter (dateParse K) (headers h) nowMs)
      in \<lparr>rlSource = (case sourceName header of Some s \<Rightarrow> s | None \<Rightarrow> if isLimiterBody then FromVta else FromUpstream),
          rlLimiter = (if isLimiterBody then
                         (case getProp body (js ''limiter'') of JStr (u # l) \<Rightarrow> Some (take MAX_LIMITER_LEN (u # l)) | _ \<Rightarrow> None)
                       else None),
          rlRetryAfterSecs = firstSome [retry ''retry-after'', retry ''x-ratelimit-after'',
            if isLimiterBody then bodySecs (mathCeil K) (getProp body (js ''retryAfterSecs'')) else None]\<rparr>)"

fun SOURCE_LABEL :: "rateLimitSource \<Rightarrow> jsstr" where
  "SOURCE_LABEL FromVta = js ''the agent''"
| "SOURCE_LABEL FromVtc = js ''the VTC''"
| "SOURCE_LABEL FromMediator = js ''the mediator''"
| "SOURCE_LABEL FromDidHost = js ''the DID host''"
| "SOURCE_LABEL FromUpstream = js ''something in front of the agent (a CDN or proxy), not the agent's own limiter''"

definition rateLimitedError :: "clockLib \<Rightarrow> response \<Rightarrow> jsval \<Rightarrow> int \<Rightarrow> vtaClientError" where
  "rateLimitedError K res body nowMs =
     (let r = rateLimitFrom K (resHeader res) body nowMs;
          who = (case rlLimiter r of
                   Some l \<Rightarrow> if rlSource r \<noteq> FromUpstream
                     then SOURCE_LABEL (rlSource r) @ js [CHR 0x27] @ js ''s `'' @ l @ js ''` limiter'' else SOURCE_LABEL (rlSource r)
                 | None \<Rightarrow> SOURCE_LABEL (rlSource r));
          wait = (case rlRetryAfterSecs r of
                    Some n \<Rightarrow> [0x20, 0x2014, 0x20] @ js ''retry after '' @ intString n @ js '' s'' | None \<Rightarrow> [])
      in \<lparr>veCode = RateLimited, veMessage = JStr (js ''rate limited by '' @ who @ wait), veStatus = Some (resStatus res),
          veDetails = RateDetails r, veSuggestion = JUndefined\<rparr>)"

definition errorFromResponse :: "response \<Rightarrow> vtaClientError" where
  "errorFromResponse res =
     (let error = getProp (case resJson res of Some b \<Rightarrow> b | None \<Rightarrow> JUndefined) (js ''error'');
          details = getProp error (js ''details'')
      in \<lparr>veCode = coerceCode (getProp error (js ''code'')) (resStatus res),
          veMessage = orElse (getProp error (js ''message'')) (JStr (js (natString (resStatus res)) @ js '' '' @ resStatusText res)),
          veStatus = Some (resStatus res),
          veDetails = (if details = JUndefined then NoDetails else ErrorDetails details),
          veSuggestion = getProp error (js ''suggestion'')\<rparr>)"

definition taskRefusalReason :: "vtaClientError \<Rightarrow> jsstr option" where
  "taskRefusalReason err =
     (case veDetails err of
        ErrorDetails d \<Rightarrow> asString (getProp (getProp d (js ''details'')) (js ''reason''))
      | _ \<Rightarrow> None)"

subsection \<open>Replies\<close>

datatype httpError =
    HttpFailed vtaClientError | HttpNotJson nat | HttpTask taskError
  | OtherThread_reply jsval | OtherRecipient_reply jsval | HttpTypeError

definition failedStatus :: "clockLib \<Rightarrow> int \<Rightarrow> response \<Rightarrow> jsval \<Rightarrow> vtaClientError" where
  "failedStatus K nowMs res body =
     (if resStatus res = 429 then rateLimitedError K res body nowMs
      else errorFromBody body (resStatus res) (resStatusText res))"

definition isErrorDocument :: "jsval \<Rightarrow> bool" where
  "isErrorDocument doc \<longleftrightarrow> isTrustTaskErrorType (getProp doc (js ''type''))"

definition decodeTrustTaskHttpAck :: "clockLib \<Rightarrow> int \<Rightarrow> response \<Rightarrow> vtaClientError + unit" where
  "decodeTrustTaskHttpAck K nowMs res =
     (if resOk res then Inr ()
      else case resJson res of
        None \<Rightarrow> Inl (failedStatus K nowMs res JUndefined)
      | Some doc \<Rightarrow>
          if resStatus res = 429 \<and> \<not> isErrorDocument doc then Inl (rateLimitedError K res doc nowMs)
          else Inl (errorFromBody doc (resStatus res) (resStatusText res)))"

text \<open>The members of the parsed document; a value without members has none.\<close>

fun docMembers :: "jsval \<Rightarrow> members" where
  "docMembers (JObj ms) = ms"
| "docMembers _ = []"

definition checkThread :: "members option \<Rightarrow> jsval \<Rightarrow> httpError + unit" where
  "checkThread inReplyTo doc =
     (case inReplyTo of
        None \<Rightarrow> Inr ()
      | Some request \<Rightarrow>
          if isErrorDocument doc then Inr ()
          else let thread = orElse (getMember request (js ''threadId'')) (getMember request (js ''id''));
                   issuer = getMember request (js ''issuer'') in
            throwIf (getProp doc (js ''threadId'') \<noteq> thread) (OtherThread_reply (getProp doc (js ''threadId'')))
            (throwIf (issuer \<noteq> JUndefined \<and> getProp doc (js ''recipient'') \<noteq> issuer)
               (OtherRecipient_reply (getProp doc (js ''recipient''))) (Inr ())))"

definition decodeTrustTaskHttpReply ::
  "crypto \<Rightarrow> didLib \<Rightarrow> codeLib \<Rightarrow> clockLib \<Rightarrow> int \<Rightarrow> response \<Rightarrow> jsstr option \<Rightarrow> jsstr option \<Rightarrow> jsstr option \<Rightarrow> members option
     \<Rightarrow> httpError + jsval" where
  "decodeTrustTaskHttpReply C L R K nowMs res expectedResponseType operationLabel expectedSigner inReplyTo =
     (case resJson res of
        None \<Rightarrow> if resStatus res = 429 \<or> \<not> resOk res then Inl (HttpFailed (failedStatus K nowMs res JUndefined))
                else Inl (HttpNotJson (resStatus res))
      | Some doc \<Rightarrow>
          if \<not> resOk res \<and> \<not> isErrorDocument doc then Inl (HttpFailed (failedStatus K nowMs res doc))
          else bindE (case expectedSigner of None \<Rightarrow> Inr ()
                 | Some s \<Rightarrow> mapErr HttpTask (verifyTrustTaskReply C L s None (docMembers doc))) (\<lambda>_.
               bindE (checkThread inReplyTo doc) (\<lambda>_.
               throwIf (isNullish doc) HttpTypeError
                 (mapErr HttpTask (parseTrustTaskReply R expectedResponseType operationLabel (docMembers doc))))))"

subsection \<open>Codes\<close>

lemma mapErr_Inl: "mapErr f m = Inl e \<longleftrightarrow> (\<exists>d. m = Inl d \<and> e = f d)"
  by (cases m) auto

lemma codeText_inj: "codeText c = codeText d \<longleftrightarrow> c = d"
  by (cases c; cases d) (simp_all add: js_def)

lemma coerce_known: "coerceCode (JStr (codeText c)) status = (if c \<in> set KNOWN_CODES then c else statusCode status)"
  by (cases c) (simp_all add: coerceCode_def KNOWN_CODES_def codeText_inj del: codeText.simps)

lemma statusCode_known: "statusCode status \<in> set KNOWN_CODES"
  by (simp add: statusCode_def KNOWN_CODES_def)

lemma coerceCode_known: "coerceCode raw status \<in> set KNOWN_CODES"
  unfolding coerceCode_def using statusCode_known by (auto simp: find_Some_iff split: option.splits)

fun httpErrorCode :: "httpError \<Rightarrow> vtaErrorCode option" where
  "httpErrorCode (HttpFailed e) = Some (veCode e)"
| "httpErrorCode (HttpNotJson _) = Some ClientParse"
| "httpErrorCode (HttpTask t) = errorCode t"
| "httpErrorCode (OtherThread_reply _) = Some ClientParse"
| "httpErrorCode (OtherRecipient_reply _) = Some ClientParse"
| "httpErrorCode HttpTypeError = None"

lemma failedStatus_known: "veCode (failedStatus K now res body) \<in> set KNOWN_CODES"
  using coerceCode_known by (simp add: failedStatus_def rateLimitedError_def errorFromBody_def Let_def) (simp add: KNOWN_CODES_def)

lemma coerceTask_known: "coerceTrustTaskCode R raw \<in> set KNOWN_CODES"
  by (simp add: coerceTrustTaskCode_def KNOWN_CODES_def Let_def)

lemma refusal_code: "errorCode (refusal R err) \<noteq> Some ClientUnsupported"
proof (cases "orElse (getProp err (js ''code'')) (JStr [])")
  case (JStr raw)
  then show ?thesis using coerceTask_known [of R raw] by (auto simp: refusal_def Let_def KNOWN_CODES_def)
qed (simp_all add: refusal_def Let_def)

lemma parse_code: "parseTrustTaskReply R expected lbl doc = Inl e \<Longrightarrow> errorCode e \<noteq> Some ClientUnsupported"
  using refusal_code by (auto simp: parseTrustTaskReply_def Let_def split: if_splits)

lemma verify_code:
  assumes "verifyTrustTaskReply C L s p doc = Inl e" shows "errorCode e \<noteq> Some ClientUnsupported"
proof -
  let ?check = "\<lambda>r. case r of Unverified _ w \<Rightarrow> Inl (ReplyUnverified s w)
    | Verified x \<Rightarrow> throwIf (x \<noteq> s) (ReplyBySomeoneElse s x) (Inr ())"
  have "errorCode e \<noteq> Some ClientUnsupported" if "?check r = Inl e" for r
    using that by (cases r) (auto split: if_splits)
  with assms show ?thesis
    unfolding verifyTrustTaskReply_def Let_def by (auto simp: bindE_Inl mapErr_Inl split: if_splits simp del: throwIf.simps)
qed

lemma known_supported: "c \<in> set KNOWN_CODES \<Longrightarrow> c \<noteq> ClientUnsupported"
  by (auto simp: KNOWN_CODES_def)

lemma reply_code:
  assumes "decodeTrustTaskHttpReply C L R K now res expected lbl signer request = Inl e"
  shows "httpErrorCode e \<noteq> Some ClientUnsupported"
proof -
  have f: "veCode (failedStatus K now res b) \<noteq> ClientUnsupported" for b
    using failedStatus_known known_supported by blast
  show ?thesis
  proof (cases "resJson res")
    case None
    with assms f show ?thesis by (auto simp: decodeTrustTaskHttpReply_def split: if_splits)
  next
    case (Some doc)
    show ?thesis
    proof (cases "\<not> resOk res \<and> \<not> isErrorDocument doc")
      case True
      with Some assms f show ?thesis by (auto simp: decodeTrustTaskHttpReply_def)
    next
      case False
      have t: "checkThread request doc = Inl x \<Longrightarrow> httpErrorCode x = Some ClientParse" for x
        by (auto simp: checkThread_def Let_def split: option.splits if_splits)
      from False Some assms t verify_code parse_code show ?thesis
        by (auto simp: decodeTrustTaskHttpReply_def bindE_Inl mapErr_Inl split: option.splits if_splits)
    qed
  qed
qed

subsection \<open>What a reply over HTTP proves\<close>

text \<open>Threaded to the request and addressed back to its issuer, as far as the request says.\<close>

definition answers :: "members option \<Rightarrow> jsval \<Rightarrow> bool" where
  "answers inReplyTo doc \<longleftrightarrow>
     (case inReplyTo of
        None \<Rightarrow> True
      | Some request \<Rightarrow>
          getProp doc (js ''threadId'') = orElse (getMember request (js ''threadId'')) (getMember request (js ''id'')) \<and>
          getMember request (js ''issuer'') \<in> {JUndefined, getProp doc (js ''recipient'')})"

definition typeFits :: "jsstr option \<Rightarrow> jsval \<Rightarrow> bool" where
  "typeFits expected doc \<longleftrightarrow> (case expected of None \<Rightarrow> True | Some t \<Rightarrow> getProp doc (js ''type'') = JStr t)"

lemma docMembers_get: "getMember (docMembers doc) k = getProp doc k"
  by (cases doc) (simp_all add: getProp_def)

lemma checkThread_ok: "\<not> isErrorDocument doc \<Longrightarrow> checkThread request doc = Inr () \<longleftrightarrow> answers request doc"
  by (auto simp: checkThread_def answers_def Let_def split: option.splits)

lemma verify_authentication:
  assumes "\<not> isErrorDocument doc"
  shows "verifyTrustTaskReply C L agent None (docMembers doc) = Inr () \<longleftrightarrow>
    (\<exists>vm. agent = stripScidSrc L (controllerOf vm) \<and> signedUnder C L AUTHENTICATION (docMembers doc) vm)" (is "?l \<longleftrightarrow> ?r")
proof
  assume ?l
  with reply_verified [of C L agent None "docMembers doc"] assms show ?r
    by (auto simp: isErrorDocument_def docMembers_get)
next
  assume ?r
  then have "verifyTrustTaskProof C L (Some AUTHENTICATION) (docMembers doc) = Inr (Verified agent)"
    unfolding verified_iff by blast
  moreover have "AUTHENTICATION \<noteq> js ''any''" by (simp add: AUTHENTICATION_def js_def)
  ultimately show ?l using assms by (simp add: verifyTrustTaskReply_def isErrorDocument_def docMembers_get)
qed

lemma signed_not_nullish: "signedUnder C L p (docMembers doc) vm \<Longrightarrow> \<not> isNullish doc"
  by (cases doc) (auto simp: signedUnder_def)

lemma http_reply_iff:
  "decodeTrustTaskHttpReply C L R K now res expected lbl (Some agent) inReplyTo = Inr payload \<longleftrightarrow>
     (\<exists>doc vm. resJson res = Some doc \<and> resOk res \<and> \<not> isErrorDocument doc \<and>
        agent = stripScidSrc L (controllerOf vm) \<and> signedUnder C L AUTHENTICATION (docMembers doc) vm \<and>
        answers inReplyTo doc \<and> typeFits expected doc \<and> payload = orElse (getProp doc (js ''payload'')) (JObj []))"
proof (cases "resJson res")
  case None
  then show ?thesis by (simp add: decodeTrustTaskHttpReply_def)
next
  case (Some doc)
  show ?thesis
  proof (cases "isErrorDocument doc")
    case True
    then have "parseTrustTaskReply R expected lbl (docMembers doc) \<noteq> Inr payload"
      unfolding parse_reply by (simp add: isErrorDocument_def docMembers_get)
    with True Some show ?thesis by (simp add: decodeTrustTaskHttpReply_def bindE_Inr)
  next
    case False
    have parse: "parseTrustTaskReply R expected lbl (docMembers doc) = Inr payload \<longleftrightarrow>
        typeFits expected doc \<and> payload = orElse (getProp doc (js ''payload'')) (JObj [])"
      unfolding parse_reply using False by (simp add: isErrorDocument_def docMembers_get typeFits_def split: option.splits)
    show ?thesis
    proof (cases "resOk res")
      case True
      with False Some show ?thesis using signed_not_nullish
        by (auto simp: decodeTrustTaskHttpReply_def bindE_Inr checkThread_ok verify_authentication parse)
    qed (use False Some in \<open>simp add: decodeTrustTaskHttpReply_def\<close>)
  qed
qed

lemma ack_code:
  assumes "\<not> resOk res" and "resJson res = Some doc" and "isErrorDocument doc" and "getProp doc (js ''error'') = JUndefined"
  shows "\<exists>e. decodeTrustTaskHttpAck K now res = Inl e \<and> veCode e = statusCode (resStatus res) \<and> veDetails e = NoDetails"
proof -
  have "getProp JUndefined k = JUndefined" for k by (simp add: getProp_def)
  moreover have "coerceCode JUndefined status = statusCode status" for status
    by (simp add: coerceCode_def KNOWN_CODES_def)
  ultimately show ?thesis using assms by (simp add: decodeTrustTaskHttpAck_def errorFromBody_def)
qed

lemma wait_bounded:
  assumes "\<And>t. \<not> startsWith t (js ''-'') \<Longrightarrow> 0 \<le> mathCeil K t" and "rlRetryAfterSecs (rateLimitFrom K headers body now) = Some n"
  shows "0 \<le> n \<and> n \<le> MAX_RETRY_AFTER_SECS"
proof -
  have p: "parseRetryAfter f v t = Some m \<Longrightarrow> 0 \<le> m \<and> m \<le> MAX_RETRY_AFTER_SECS" for f v t m
    by (auto simp: parseRetryAfter_def MAX_RETRY_AFTER_SECS_def Let_def split: option.splits if_splits)
  have b: "bodySecs (mathCeil K) v = Some m \<Longrightarrow> 0 \<le> m \<and> m \<le> MAX_RETRY_AFTER_SECS" for v m
    using assms(1) by (auto simp: bodySecs_def MAX_RETRY_AFTER_SECS_def split: jsval.splits if_splits)
  have f: "firstSome xs = Some m \<Longrightarrow> Some m \<in> set xs" for xs and m :: int
    by (induction xs rule: firstSome.induct) auto
  from assms(2) have "firstSome [parseRetryAfter (dateParse K) (headers ''retry-after'') now,
      parseRetryAfter (dateParse K) (headers ''x-ratelimit-after'') now,
      if getProp body (js ''error'') = JStr (js ''rate_limited'') then bodySecs (mathCeil K) (getProp body (js ''retryAfterSecs'')) else None] = Some n"
    by (simp only: rateLimitFrom_def Let_def rateLimit.select_convs)
  from f [OF this] p b show ?thesis by (auto split: if_splits)
qed

subsection \<open>Properties\<close>

text \<open>C24: A reply over HTTP is evidence: a result is returned exactly for a successful status whose body is a
  document signed as a whole by the agent the channel is bound to, no error document, of the expected type,
  and, where the request is given, threaded to it and addressed back to its issuer.\<close>

theorem http_reply_is_evidence:
  "decodeTrustTaskHttpReply C L R K now res expected lbl (Some agent) inReplyTo = Inr payload \<longleftrightarrow>
     (\<exists>doc vm. resJson res = Some doc \<and> resOk res \<and> \<not> isErrorDocument doc \<and>
        agent = stripScidSrc L (controllerOf vm) \<and> signedUnder C L AUTHENTICATION (docMembers doc) vm \<and>
        answers inReplyTo doc \<and> typeFits expected doc \<and> payload = orElse (getProp doc (js ''payload'')) (JObj []))"
  by (rule http_reply_iff)

text \<open>The far side cannot ask for another transport: whatever an answer over HTTP holds, its status, headers
  and body, the error it becomes never carries the code that makes a session try its next channel.\<close>

theorem reply_never_unsupported:
  "case decodeTrustTaskHttpReply C L R K now res expected lbl signer request of
     Inl e \<Rightarrow> httpErrorCode e \<noteq> Some ClientUnsupported | Inr payload \<Rightarrow> True"
  using reply_code [of C L R K now res expected lbl signer request]
  by (simp split: sum.splits)

text \<open>A refused one-way task loses its reason: the code and the details an error document carries in its
  payload are not read, the error that is thrown has the code of the status and no details.\<close>

theorem refusal_loses_its_code:
  assumes "\<not> resOk res" and "resJson res = Some doc" and "isErrorDocument doc" and "getProp doc (js ''error'') = JUndefined"
  shows "\<exists>e. decodeTrustTaskHttpAck K now res = Inl e \<and> veCode e = statusCode (resStatus res) \<and> veDetails e = NoDetails"
  using assms by (rule ack_code)

theorem refusal_loses_its_code_witness:
  "\<exists>e. decodeTrustTaskHttpAck \<lparr>dateParse = (\<lambda>t. None), mathCeil = (\<lambda>t. 0)\<rparr> 0 \<lparr>resStatus = 400, resStatusText = [], resHeader = (\<lambda>h. None), resJson = Some (JObj
       [(js ''type'', JStr (ERROR_TYPE_PREFIX @ js ''5'')), (js ''payload'', JObj [(js ''code'', JStr (js ''idConflict''))])])\<rparr> = Inl e \<and>
     veCode e = BadRequest \<and> veDetails e = NoDetails"
proof -
  let ?doc = "JObj [(js ''type'', JStr (ERROR_TYPE_PREFIX @ js ''5'')), (js ''payload'', JObj [(js ''code'', JStr (js ''idConflict''))])]"
  let ?res = "\<lparr>resStatus = 400, resStatusText = [], resHeader = (\<lambda>h. None), resJson = Some ?doc\<rparr>"
  have "isErrorDocument ?doc"
    by (simp add: isErrorDocument_def isTrustTaskErrorType_def startsWith_def getMember_Cons isDigit_def js_def)
  from refusal_loses_its_code [of ?res, OF _ _ this]
  show ?thesis by (simp add: resOk_def statusCode_def getMember_Cons js_def)
qed

text \<open>A hint how long to wait is bounded: whatever the headers and the body say, the seconds an error names
  lie between zero and a year.\<close>

theorem retry_wait_bounded:
  assumes "\<And>t. \<not> startsWith t (js ''-'') \<Longrightarrow> 0 \<le> mathCeil K t" and "rlRetryAfterSecs (rateLimitFrom K headers body now) = Some n"
  shows "0 \<le> n \<and> n \<le> MAX_RETRY_AFTER_SECS"
  using assms by (rule wait_bounded)

theorem retry_wait_bounded_witness:
  "rlRetryAfterSecs (rateLimitFrom \<lparr>dateParse = (\<lambda>t. None), mathCeil = (\<lambda>t. 1)\<rparr>
     (\<lambda>h. if h = ''retry-after'' then Some (js ''99999999999'') else None) JNull 0) = Some MAX_RETRY_AFTER_SECS \<and>
   0 \<le> MAX_RETRY_AFTER_SECS"
proof -
  let ?K = "\<lparr>dateParse = (\<lambda>t. None), mathCeil = (\<lambda>t. 1)\<rparr> :: clockLib"
  let ?h = "\<lambda>h. if h = ''retry-after'' then Some (js ''99999999999'') else None"
  have "rlRetryAfterSecs (rateLimitFrom ?K ?h JNull 0) = Some MAX_RETRY_AFTER_SECS"
    by (simp add: rateLimitFrom_def parseRetryAfter_def trim_def trimStart_def trimEnd_def isJsSpace_def isDigit_def
        ofDigits_def digitVal_def MAX_RETRY_AFTER_SECS_def js_def Let_def)
  with retry_wait_bounded [of ?K ?h JNull 0 MAX_RETRY_AFTER_SECS] show ?thesis by simp
qed

end
