(* ===== verification/Rest_Channel.thy ===== *)
theory Rest_Channel
  imports Http_Reply Tsp_Binding
begin

text \<open>
  Trust tasks over HTTP: the endpoint of an agent, \<open>packages/core/src/vta/endpoint.ts\<close>, the bearer a request carries,
  \<open>auth.ts\<close> with the two sign-in tasks of \<open>auth-tasks.ts\<close>, and the channel, \<open>rest-channel.ts\<close>. The far side answers
  a request as it likes, given all that was posted before; the clock and the random ids are functions of the
  number of requests made so far, the URL parser is a function argument.
\<close>

subsection \<open>The endpoint in a DID document\<close>

definition TRUST_TASK_HTTPS_SERVICE_TYPE :: jsstr where "TRUST_TASK_HTTPS_SERVICE_TYPE = js ''TrustTaskHTTPS''"
definition TRUST_TASK_PATH :: jsstr where "TRUST_TASK_PATH = js ''/trust-tasks''"

definition stripSlashes :: "jsstr \<Rightarrow> jsstr" where
  "stripSlashes s = rev (dropWhile (\<lambda>u. [u] = js ''/'') (rev s))"

definition trustTaskUrl :: "jsstr \<Rightarrow> jsstr" where
  "trustTaskUrl base = stripSlashes base @ TRUST_TASK_PATH"

text \<open>The first element of an array that yields a URI that is not empty, to any depth.\<close>

fun firstUri :: "jsstr option list \<Rightarrow> jsstr option" where
  "firstUri [] = None"
| "firstUri (Some (u # s) # _) = Some (u # s)"
| "firstUri (_ # xs) = firstUri xs"

fun endpointUri :: "jsval \<Rightarrow> jsstr option" where
  "endpointUri (JStr s) = Some s"
| "endpointUri (JArr items) = firstUri (map endpointUri items)"
| "endpointUri (JObj ms) = asString (getMember ms (js ''uri''))"
| "endpointUri _ = None"

definition hasType :: "jsval \<Rightarrow> jsstr \<Rightarrow> bool" where
  "hasType service wanted =
     (case getProp service (js ''type'') of
        JStr t \<Rightarrow> t = wanted
      | JArr ts \<Rightarrow> JStr wanted \<in> set ts
      | _ \<Rightarrow> False)"

text \<open>\<open>protocol\<close> is what the URL parser gives for a text, or nothing for a text it rejects.\<close>

fun baseOfServices :: "(jsstr \<Rightarrow> jsstr option) \<Rightarrow> jsval list \<Rightarrow> jsstr + jsstr option" where
  "baseOfServices protocol [] = Inr None"
| "baseOfServices protocol (entry # rest) =
     (if \<not> isObject entry \<or> \<not> hasType entry TRUST_TASK_HTTPS_SERVICE_TYPE then baseOfServices protocol rest
      else case endpointUri (getProp entry (js ''serviceEndpoint'')) of
        Some (u # s) \<Rightarrow>
          (case protocol (u # s) of
             None \<Rightarrow> baseOfServices protocol rest
           | Some p \<Rightarrow> if p \<noteq> js ''https:'' then Inl p else Inr (Some (stripSlashes (u # s))))
      | _ \<Rightarrow> baseOfServices protocol rest)"

definition trustTaskBaseFromDocument :: "(jsstr \<Rightarrow> jsstr option) \<Rightarrow> jsval \<Rightarrow> jsstr + jsstr option" where
  "trustTaskBaseFromDocument protocol doc =
     (case getProp doc (js ''service'') of JArr services \<Rightarrow> baseOfServices protocol services | _ \<Rightarrow> Inr None)"

subsection \<open>The wire\<close>

record httpRequest =
  reqUrl :: jsstr
  reqBearer :: "jsval option"
  reqBody :: jsstr

datatype fetchFailure = FetchTimedOut | FetchBlocked | FetchFailed

record bearerEntry =
  bearerToken :: jsval
  bearerExpiresAt :: int

record restWorld =
  restLog :: "httpRequest list"
  bearerCache :: "jsstr \<Rightarrow> bearerEntry option"

record restEnv =
  envFetch :: "httpRequest list \<Rightarrow> httpRequest \<Rightarrow> fetchFailure + response"
  envUuid :: "nat \<Rightarrow> jsstr"
  envNow :: "nat \<Rightarrow> int"
  envMillis :: "jsstr \<Rightarrow> int"

record restConfig =
  baseUrl :: jsstr
  authDid :: jsstr
  serviceDid :: jsstr
  restSigner :: taskSigner
  cfgCrypto :: crypto
  cfgDid :: didLib
  cfgCodes :: codeLib
  cfgClock :: clockLib

datatype restError =
    RestTask taskError | RestReply httpError | RestRefused vtaClientError | RestTimedOut | RestNetwork | RestBlocked | RestNoToken

fun restErrorCode :: "restError \<Rightarrow> vtaErrorCode option" where
  "restErrorCode (RestTask t) = errorCode t"
| "restErrorCode (RestReply h) = httpErrorCode h"
| "restErrorCode (RestRefused e) = Some (veCode e)"
| "restErrorCode RestTimedOut = Some ClientTimeout"
| "restErrorCode RestNetwork = Some ClientNetwork"
| "restErrorCode RestBlocked = None"
| "restErrorCode RestNoToken = Some ClientParse"

definition uuidOf :: "restEnv \<Rightarrow> restWorld \<Rightarrow> jsstr" where "uuidOf E w = envUuid E (length (restLog w))"
definition nowOf :: "restEnv \<Rightarrow> restWorld \<Rightarrow> int" where "nowOf E w = envNow E (length (restLog w))"

definition fetchOnce :: "restEnv \<Rightarrow> httpRequest \<Rightarrow> restWorld \<Rightarrow> restWorld \<times> (fetchFailure + response)" where
  "fetchOnce E req w = (w\<lparr>restLog := restLog w @ [req]\<rparr>, envFetch E (restLog w) req)"

subsection \<open>Signing in\<close>

definition AUTH_CHALLENGE :: jsstr where "AUTH_CHALLENGE = js ''https://trusttasks.org/spec/auth/challenge/0.1''"
definition AUTH_AUTHENTICATE :: jsstr where "AUTH_AUTHENTICATE = js ''https://trusttasks.org/spec/auth/authenticate/0.3''"

definition bearerCacheKey :: "jsstr \<Rightarrow> jsstr \<Rightarrow> jsstr" where
  "bearerCacheKey base holderDid = stripSlashes base @ js ''|'' @ holderDid"

definition BEARER_TTL_MS :: int where "BEARER_TTL_MS = 600000"

definition cacheKey :: "restConfig \<Rightarrow> jsstr" where
  "cacheKey cfg = bearerCacheKey (baseUrl cfg) (authDid cfg)"

text \<open>Both sign-in tasks: signed, posted without a bearer, and the reply must answer this very document.\<close>

definition preSessionSend ::
  "restEnv \<Rightarrow> restConfig \<Rightarrow> members \<Rightarrow> jsstr \<Rightarrow> jsstr \<Rightarrow> restWorld \<Rightarrow> restWorld \<times> (restError + jsval)" where
  "preSessionSend E cfg envelope expectedType lbl w =
     (case signOutboundTask (uuidOf E w) (nowOf E w) (restSigner cfg) None envelope of
        Inl e \<Rightarrow> (w, Inl (RestTask e))
      | Inr out \<Rightarrow>
         (case fetchOnce E \<lparr>reqUrl = trustTaskUrl (baseUrl cfg), reqBearer = None, reqBody = the (jsonStringify (JObj out))\<rparr> w of
            (w', Inl FetchTimedOut) \<Rightarrow> (w', Inl RestTimedOut)
          | (w', Inl FetchBlocked) \<Rightarrow> (w', Inl RestBlocked)
          | (w', Inl FetchFailed) \<Rightarrow> (w', Inl RestNetwork)
          | (w', Inr res) \<Rightarrow>
              (w', mapErr RestReply (decodeTrustTaskHttpReply (cfgCrypto cfg) (cfgDid cfg) (cfgCodes cfg) (cfgClock cfg)
                     (nowOf E w') res (Some expectedType) (Some lbl) (Some (serviceDid cfg)) (Some out)))))"

definition authTask :: "restEnv \<Rightarrow> restConfig \<Rightarrow> jsstr \<Rightarrow> jsval \<Rightarrow> restWorld \<Rightarrow> members" where
  "authTask E cfg type payload w =
     buildTrustTask (uuidOf E w) (nowOf E w) type payload
       \<lparr>optId = None, optIssuer = Some (authDid cfg), optRecipient = Some (serviceDid cfg), optIssuedAt = None,
        optThreadId = None, optExpiresAt = None\<rparr>"

definition requestAuthChallenge :: "restEnv \<Rightarrow> restConfig \<Rightarrow> restWorld \<Rightarrow> restWorld \<times> (restError + jsval)" where
  "requestAuthChallenge E cfg w =
     (let payload = JObj (if authDid cfg = [] then [] else [(js ''subject'', JStr (authDid cfg))])
      in preSessionSend E cfg (authTask E cfg AUTH_CHALLENGE payload w) (AUTH_CHALLENGE @ js ''#response'')
           (js ''auth/challenge/0.1'') w)"

definition authenticateSession :: "restEnv \<Rightarrow> restConfig \<Rightarrow> jsval \<Rightarrow> jsval \<Rightarrow> restWorld \<Rightarrow> restWorld \<times> (restError + jsval)" where
  "authenticateSession E cfg challenge sessionId w =
     preSessionSend E cfg
       (authTask E cfg AUTH_AUTHENTICATE (JObj [(js ''challenge'', challenge), (js ''sessionId'', sessionId)]) w)
       (AUTH_AUTHENTICATE @ js ''#response'') (js ''auth/authenticate/0.3'') w"

text \<open>How long a fresh token may be used; a fraction of a millisecond counts up, which no comparison with the
  clock can tell.\<close>

definition lifetimeMs :: "restEnv \<Rightarrow> jsval \<Rightarrow> int" where
  "lifetimeMs E expiresIn =
     (case expiresIn of
        JInt s \<Rightarrow> min BEARER_TTL_MS (s * 1000 - 60000)
      | JFloat t \<Rightarrow> min BEARER_TTL_MS (envMillis E t - 60000)
      | _ \<Rightarrow> BEARER_TTL_MS)"

definition signInForBearer :: "restEnv \<Rightarrow> restConfig \<Rightarrow> restWorld \<Rightarrow> restWorld \<times> (restError + jsval)" where
  "signInForBearer E cfg w =
     (case requestAuthChallenge E cfg w of
        (w1, Inl e) \<Rightarrow> (w1, Inl e)
      | (w1, Inr challenge) \<Rightarrow>
         (case authenticateSession E cfg (getProp challenge (js ''challenge'')) (getProp challenge (js ''sessionId'')) w1 of
            (w2, Inl e) \<Rightarrow> (w2, Inl e)
          | (w2, Inr authed) \<Rightarrow>
              let tokens = getProp authed (js ''tokens''); accessToken = getProp tokens (js ''accessToken'') in
              if \<not> truthy accessToken then (w2, Inl RestNoToken)
              else (w2\<lparr>bearerCache := (bearerCache w2)(cacheKey cfg \<mapsto> \<lparr>bearerToken = accessToken,
                      bearerExpiresAt = nowOf E w2 + lifetimeMs E (getProp tokens (js ''expiresIn''))\<rparr>)\<rparr>, Inr accessToken)))"

definition getVtaBearer :: "restEnv \<Rightarrow> restConfig \<Rightarrow> restWorld \<Rightarrow> restWorld \<times> (restError + jsval)" where
  "getVtaBearer E cfg w =
     (case bearerCache w (cacheKey cfg) of
        Some cached \<Rightarrow> if nowOf E w < bearerExpiresAt cached then (w, Inr (bearerToken cached)) else signInForBearer E cfg w
      | None \<Rightarrow> signInForBearer E cfg w)"

definition invalidateVtaBearer :: "jsstr \<Rightarrow> jsstr \<Rightarrow> restWorld \<Rightarrow> restWorld" where
  "invalidateVtaBearer base holderDid w = w\<lparr>bearerCache := (bearerCache w)(bearerCacheKey base holderDid := None)\<rparr>"

definition makeReauth :: "restEnv \<Rightarrow> restConfig \<Rightarrow> jsval option \<Rightarrow> restWorld \<Rightarrow> restWorld \<times> (restError + jsval)" where
  "makeReauth E cfg rejected w =
     (let drop_it = (case rejected of None \<Rightarrow> True
            | Some t \<Rightarrow> (case bearerCache w (cacheKey cfg) of Some b \<Rightarrow> bearerToken b = t | None \<Rightarrow> False))
      in getVtaBearer E cfg (if drop_it then invalidateVtaBearer (baseUrl cfg) (authDid cfg) w else w))"

subsection \<open>The channel\<close>

definition postOnce :: "restEnv \<Rightarrow> restConfig \<Rightarrow> jsstr \<Rightarrow> jsval \<Rightarrow> restWorld \<Rightarrow> restWorld \<times> (restError + response)" where
  "postOnce E cfg body bearer w =
     (case fetchOnce E \<lparr>reqUrl = trustTaskUrl (baseUrl cfg), reqBearer = Some bearer, reqBody = body\<rparr> w of
        (w', Inl FetchTimedOut) \<Rightarrow> (w', Inl RestTimedOut)
      | (w', Inl _) \<Rightarrow> (w', Inl RestNetwork)
      | (w', Inr res) \<Rightarrow> (w', Inr res))"

definition restPost :: "restEnv \<Rightarrow> restConfig \<Rightarrow> members \<Rightarrow> restWorld \<Rightarrow> restWorld \<times> (restError + response)" where
  "restPost E cfg envelope w =
     (case signOutboundTask (uuidOf E w) (nowOf E w) (restSigner cfg) None envelope of
        Inl e \<Rightarrow> (w, Inl (RestTask e))
      | Inr out \<Rightarrow>
          let body = the (jsonStringify (JObj out)) in
          (case getVtaBearer E cfg w of
             (w1, Inl e) \<Rightarrow> (w1, Inl e)
           | (w1, Inr bearer) \<Rightarrow>
              (case postOnce E cfg body bearer w1 of
                 (w2, Inl e) \<Rightarrow> (w2, Inl e)
               | (w2, Inr res) \<Rightarrow>
                   if resStatus res \<noteq> 401 then (w2, Inr res)
                   else (case makeReauth E cfg (Some bearer) w2 of
                           (w3, Inl e) \<Rightarrow> (w3, Inl e)
                         | (w3, Inr fresh) \<Rightarrow> postOnce E cfg body fresh w3))))"

definition restSend ::
  "restEnv \<Rightarrow> restConfig \<Rightarrow> jsstr option \<Rightarrow> jsstr option \<Rightarrow> members \<Rightarrow> restWorld \<Rightarrow> restWorld \<times> (restError + jsval)" where
  "restSend E cfg expectedType operationLabel envelope w =
     (case restPost E cfg envelope w of
        (w', Inl e) \<Rightarrow> (w', Inl e)
      | (w', Inr res) \<Rightarrow>
          (w', mapErr RestReply (decodeTrustTaskHttpReply (cfgCrypto cfg) (cfgDid cfg) (cfgCodes cfg) (cfgClock cfg)
                 (nowOf E w') res expectedType
                 (case operationLabel of Some l \<Rightarrow> Some l | None \<Rightarrow> asString (getMember envelope (js ''type'')))
                 (Some (serviceDid cfg)) None)))"

definition restNotify :: "restEnv \<Rightarrow> restConfig \<Rightarrow> members \<Rightarrow> restWorld \<Rightarrow> restWorld \<times> (restError + unit)" where
  "restNotify E cfg envelope w =
     (case restPost E cfg envelope w of
        (w', Inl e) \<Rightarrow> (w', Inl e)
      | (w', Inr res) \<Rightarrow> (w', mapErr RestRefused (decodeTrustTaskHttpAck (cfgClock cfg) (nowOf E w') res)))"

subsection \<open>What is put on the wire\<close>

text \<open>\<open>w'\<close> is \<open>w\<close> after further requests that carry no bearer.\<close>

definition signedInFrom :: "restWorld \<Rightarrow> restWorld \<Rightarrow> bool" where
  "signedInFrom w w' \<longleftrightarrow> (\<exists>xs. restLog w' = restLog w @ xs \<and> filter (\<lambda>r. reqBearer r \<noteq> None) xs = [])"

lemma signedIn_refl: "signedInFrom w w"
  by (simp add: signedInFrom_def)

lemma signedIn_trans: "signedInFrom w w1 \<Longrightarrow> signedInFrom w1 w2 \<Longrightarrow> signedInFrom w w2"
  by (auto simp: signedInFrom_def)

lemma signedIn_cache [simp]:
  "signedInFrom w (w'\<lparr>bearerCache := c\<rparr>) = signedInFrom w w'" "signedInFrom (w\<lparr>bearerCache := c\<rparr>) w' = signedInFrom w w'"
  by (simp_all add: signedInFrom_def)

lemma preSession_step:
  assumes "preSessionSend E cfg envelope expected lbl w = (w', out)"
  shows "signedInFrom w w' \<and> bearerCache w' = bearerCache w \<and> (returns out \<longrightarrow> length (restLog w) < length (restLog w'))"
proof (cases "signOutboundTask (uuidOf E w) (nowOf E w) (restSigner cfg) None envelope")
  case (Inl e)
  with assms show ?thesis by (auto simp: preSessionSend_def signedIn_refl returns_iff)
next
  case (Inr doc)
  let ?req = "\<lparr>reqUrl = trustTaskUrl (baseUrl cfg), reqBearer = None, reqBody = the (jsonStringify (JObj doc))\<rparr>"
  have "w' = w\<lparr>restLog := restLog w @ [?req]\<rparr>"
  proof (cases "envFetch E (restLog w) ?req")
    case (Inl f)
    with assms Inr show ?thesis by (cases f) (auto simp: preSessionSend_def fetchOnce_def)
  qed (use assms Inr in \<open>auto simp: preSessionSend_def fetchOnce_def\<close>)
  then show ?thesis by (simp add: signedInFrom_def)
qed

lemma signIn_step:
  assumes "signInForBearer E cfg w = (w', out)"
  shows "signedInFrom w w' \<and>
    (case out of
       Inl e \<Rightarrow> bearerCache w' = bearerCache w
     | Inr t \<Rightarrow> length (restLog w) < length (restLog w') \<and> (\<exists>b. bearerCache w' = (bearerCache w)(cacheKey cfg \<mapsto> b) \<and>
         bearerToken b = t \<and> bearerExpiresAt b \<le> nowOf E w' + BEARER_TTL_MS))"
proof -
  obtain w1 c where c: "requestAuthChallenge E cfg w = (w1, c)" by fastforce
  have s1: "signedInFrom w w1" "bearerCache w1 = bearerCache w" "returns c \<Longrightarrow> length (restLog w) < length (restLog w1)"
    using preSession_step c unfolding requestAuthChallenge_def Let_def by blast+
  show ?thesis
  proof (cases c)
    case (Inl e)
    with assms c s1 show ?thesis by (auto simp: signInForBearer_def)
  next
    case (Inr ch)
    obtain w2 a where a: "authenticateSession E cfg (getProp ch (js ''challenge'')) (getProp ch (js ''sessionId'')) w1 = (w2, a)" by fastforce
    have s2: "signedInFrom w1 w2" "bearerCache w2 = bearerCache w1" "returns a \<Longrightarrow> length (restLog w1) < length (restLog w2)"
      using preSession_step a unfolding authenticateSession_def by blast+
    have s: "signedInFrom w w2" using signedIn_trans s1(1) s2(1) .
    show ?thesis
    proof (cases a)
      case (Inl e)
      with assms c Inr a s s1(2) s2(2) show ?thesis by (auto simp: signInForBearer_def)
    next
      case authed: (Inr v)
      have l: "length (restLog w) < length (restLog w2)" using s1(3) s2(3) Inr authed by (simp add: returns_iff)
      have life: "lifetimeMs E x \<le> BEARER_TTL_MS" for x by (simp add: lifetimeMs_def split: jsval.splits)
      show ?thesis
      proof (cases "truthy (getProp (getProp v (js ''tokens'')) (js ''accessToken''))")
        case True
        let ?b = "\<lparr>bearerToken = getProp (getProp v (js ''tokens'')) (js ''accessToken''),
          bearerExpiresAt = nowOf E w2 + lifetimeMs E (getProp (getProp v (js ''tokens'')) (js ''expiresIn''))\<rparr>"
        have "w' = w2\<lparr>bearerCache := (bearerCache w)(cacheKey cfg \<mapsto> ?b)\<rparr>" "out = Inr (bearerToken ?b)"
          using True assms c Inr a authed s1(2) s2(2) by (auto simp: signInForBearer_def Let_def)
        moreover have "bearerExpiresAt ?b \<le> nowOf E w2 + BEARER_TTL_MS" using life by simp
        ultimately show ?thesis using s l
          by (simp add: nowOf_def) (intro exI [of _ ?b], simp add: nowOf_def)
      next
        case False
        with assms c Inr a authed s s1(2) s2(2) show ?thesis by (auto simp: signInForBearer_def Let_def)
      qed
    qed
  qed
qed

lemma bearer_step:
  assumes "getVtaBearer E cfg w = (w', out)"
  shows "signedInFrom w w' \<and>
    (case out of
       Inl e \<Rightarrow> bearerCache w' = bearerCache w
     | Inr t \<Rightarrow> (w' = w \<and> (\<exists>b. bearerCache w (cacheKey cfg) = Some b \<and> bearerToken b = t \<and> nowOf E w < bearerExpiresAt b)) \<or>
         (length (restLog w) < length (restLog w') \<and> (\<exists>b. bearerCache w' = (bearerCache w)(cacheKey cfg \<mapsto> b) \<and>
           bearerToken b = t \<and> bearerExpiresAt b \<le> nowOf E w' + BEARER_TTL_MS)))"
proof (cases "\<exists>b. bearerCache w (cacheKey cfg) = Some b \<and> nowOf E w < bearerExpiresAt b")
  case True
  with assms show ?thesis by (auto simp: getVtaBearer_def signedIn_refl)
next
  case False
  with assms have "signInForBearer E cfg w = (w', out)" by (auto simp: getVtaBearer_def split: option.splits if_splits)
  from signIn_step [OF this] show ?thesis by (auto split: sum.splits)
qed

lemma reauth_step:
  assumes "makeReauth E cfg (Some r) w = (w', out)"
  shows "signedInFrom w w' \<and>
    (case out of
       Inl e \<Rightarrow> True
     | Inr t \<Rightarrow> length (restLog w) < length (restLog w') \<or>
         (\<exists>b. bearerCache w (cacheKey cfg) = Some b \<and> bearerToken b = t \<and> t \<noteq> r \<and> nowOf E w < bearerExpiresAt b))"
proof -
  let ?drop = "case bearerCache w (cacheKey cfg) of Some b \<Rightarrow> bearerToken b = r | None \<Rightarrow> False"
  let ?w = "if ?drop then invalidateVtaBearer (baseUrl cfg) (authDid cfg) w else w"
  have g: "getVtaBearer E cfg ?w = (w', out)" using assms by (simp add: makeReauth_def)
  have log: "restLog ?w = restLog w" "nowOf E ?w = nowOf E w" by (simp_all add: invalidateVtaBearer_def nowOf_def)
  have s: "signedInFrom w w'" using bearer_step [OF g] log(1) by (simp add: signedInFrom_def)
  have gone: "bearerCache ?w (cacheKey cfg) = (if ?drop then None else bearerCache w (cacheKey cfg))"
    by (simp add: invalidateVtaBearer_def cacheKey_def)
  show ?thesis
  proof (cases out)
    case (Inr t)
    with bearer_step [OF g] log gone s show ?thesis by (auto split: if_splits option.splits)
  qed (use s in simp)
qed









subsection \<open>No error asks for another channel\<close>

definition plainErrors :: "taskSigner \<Rightarrow> bool" where
  "plainErrors signer \<longleftrightarrow> (\<forall>env p e. signEnvelope signer env p = Inl e \<longrightarrow> errorCode e \<noteq> Some ClientUnsupported)"

lemma local_plain: "plainErrors (localTaskSigner C t did kid sk)"
  by (auto simp: plainErrors_def localTaskSigner_def mapErr_Inl)

lemma sign_code:
  assumes "plainErrors signer" and "signOutboundTask uuid now signer sender env = Inl e"
  shows "errorCode e \<noteq> Some ClientUnsupported"
  using assms by (auto simp: signOutboundTask_def plainErrors_def Let_def split: if_splits)

lemma preSession_code:
  assumes "plainErrors (restSigner cfg)" and "preSessionSend E cfg env expected lbl w = (w', Inl e)"
  shows "restErrorCode e \<noteq> Some ClientUnsupported"
  using assms sign_code [OF assms(1)] reply_code
  by (auto simp: preSessionSend_def fetchOnce_def mapErr_Inl split: sum.splits fetchFailure.splits prod.splits)

lemma signIn_code:
  assumes "plainErrors (restSigner cfg)" and "signInForBearer E cfg w = (w', Inl e)"
  shows "restErrorCode e \<noteq> Some ClientUnsupported"
  using assms(2) preSession_code [OF assms(1)]
  by (auto simp: signInForBearer_def requestAuthChallenge_def authenticateSession_def Let_def split: prod.splits sum.splits if_splits)

lemma bearer_code:
  assumes "plainErrors (restSigner cfg)" and "getVtaBearer E cfg w = (w', Inl e)"
  shows "restErrorCode e \<noteq> Some ClientUnsupported"
  using assms(2) signIn_code [OF assms(1)] by (auto simp: getVtaBearer_def split: option.splits if_splits)

lemma postOnce_code: "postOnce E cfg body b w = (w', Inl e) \<Longrightarrow> restErrorCode e \<noteq> Some ClientUnsupported"
  by (auto simp: postOnce_def split: prod.splits sum.splits fetchFailure.splits)

lemma restPost_code:
  assumes "plainErrors (restSigner cfg)" and "restPost E cfg env w = (w', Inl e)"
  shows "restErrorCode e \<noteq> Some ClientUnsupported"
  using assms(2) sign_code [OF assms(1)] bearer_code [OF assms(1)] postOnce_code
  unfolding restPost_def makeReauth_def Let_def by (auto split: prod.splits sum.splits if_splits)

lemma restSend_code:
  assumes "plainErrors (restSigner cfg)" and "restSend E cfg expected lbl env w = (w', Inl e)"
  shows "restErrorCode e \<noteq> Some ClientUnsupported"
  using assms(2) restPost_code [OF assms(1)] reply_code
  by (auto simp: restSend_def mapErr_Inl split: prod.splits sum.splits)

subsection \<open>The request an answer belongs to\<close>

text \<open>The channel does not say which request a reply must answer: a response that yields a result for one
  document yields the same result for any other it is given for.\<close>

lemma rest_reply_unthreaded:
  assumes "restSend E cfg expected lbl env w = (w1, Inr payload)" and "restPost E cfg env w = (w1, Inr res)"
    and "restPost E' cfg env' v = (v1, Inr res)"
  shows "restSend E' cfg expected lbl' env' v = (v1, Inr payload)"
proof -
  have "decodeTrustTaskHttpReply (cfgCrypto cfg) (cfgDid cfg) (cfgCodes cfg) (cfgClock cfg) (nowOf E w1) res expected
      (case lbl of Some l \<Rightarrow> Some l | None \<Rightarrow> asString (getMember env (js ''type''))) (Some (serviceDid cfg)) None = Inr payload"
    using assms(1,2) by (simp add: restSend_def)
  then show ?thesis using assms(3) unfolding restSend_def by (simp add: http_reply_iff)
qed

subsection \<open>Properties\<close>


text \<open>A token is reused only while it may be: \<open>getVtaBearer\<close> hands out a cached token exactly as long as it has
  not expired, otherwise one from a fresh sign-in, kept for at most ten minutes; a failed sign-in leaves
  the cache as it was.\<close>

theorem bearer_reuse:
  "case getVtaBearer E cfg w of
     (w', Inl e) \<Rightarrow> bearerCache w' = bearerCache w
   | (w', Inr t) \<Rightarrow>
       (w' = w \<and> (\<exists>b. bearerCache w (cacheKey cfg) = Some b \<and> bearerToken b = t \<and> nowOf E w < bearerExpiresAt b)) \<or>
       (length (restLog w) < length (restLog w') \<and> (\<exists>b. bearerCache w' = (bearerCache w)(cacheKey cfg \<mapsto> b) \<and>
          bearerToken b = t \<and> bearerExpiresAt b \<le> nowOf E w' + BEARER_TTL_MS))"
  by (cases "getVtaBearer E cfg w") (auto dest!: bearer_step split: sum.splits)

text \<open>A refused token is not handed out again: after a 401 the token comes from a new sign-in, or from the
  cache when another request has already replaced the refused one there.\<close>

theorem reauth_not_refused:
  "case makeReauth E cfg (Some refused) w of
     (w', Inl e) \<Rightarrow> True
   | (w', Inr t) \<Rightarrow> length (restLog w) < length (restLog w') \<or>
       (\<exists>b. bearerCache w (cacheKey cfg) = Some b \<and> bearerToken b = t \<and> t \<noteq> refused \<and> nowOf E w < bearerExpiresAt b)"
  by (cases "makeReauth E cfg (Some refused) w") (auto dest!: reauth_step split: sum.splits)

end
