(* ===== verification/Vta_Session.thy ===== *)
theory Vta_Session
  imports Tsp_Channel Rest_Channel
begin

text \<open>
  The session over all transports of an agent, \<open>packages/core/src/vta/session.ts\<close>: channels in their order of
  preference, a request sent over the first that can carry it, and the next one tried only when a channel
  says it does not carry the task. A channel is a step of the world it acts on; what the two channels of
  this library promise is a locale, interpreted on both.
\<close>

subsection \<open>Channels and their order\<close>

datatype channelKind = KindTsp | KindDidcomm | KindRest

definition CHANNEL_PRIORITY :: "channelKind list" where
  "CHANNEL_PRIORITY = [KindTsp, KindDidcomm, KindRest]"

definition priorityOf :: "channelKind \<Rightarrow> nat" where
  "priorityOf k = length (takeWhile (\<lambda>j. j \<noteq> k) CHANNEL_PRIORITY)"

record ('w, 'e, 'r) channel =
  chanKind :: channelKind
  chanSupports :: "(jsval \<Rightarrow> bool) option"
  chanSend :: "'w \<Rightarrow> 'w \<times> ('e + 'r)"
  chanNotify :: "'w \<Rightarrow> 'w \<times> ('e + unit)"

definition orderChannelsByPriority :: "('w, 'e, 'r) channel list \<Rightarrow> ('w, 'e, 'r) channel list" where
  "orderChannelsByPriority channels = sort_key (\<lambda>c. priorityOf (chanKind c)) channels"

datatype 'e sessionError = NoChannel | NoRoute jsval | ChannelFailed 'e

definition newSession :: "('w, 'e, 'r) channel list \<Rightarrow> 'e sessionError + ('w, 'e, 'r) channel list" where
  "newSession channels = (if channels = [] then Inl NoChannel else Inr (orderChannelsByPriority channels))"

subsection \<open>Routing\<close>

definition candidates :: "jsval \<Rightarrow> ('w, 'e, 'r) channel list \<Rightarrow> ('w, 'e, 'r) channel list" where
  "candidates type channels = filter (\<lambda>c. case chanSupports c of None \<Rightarrow> True | Some supports \<Rightarrow> supports type) channels"

fun tryChannels ::
  "('e \<Rightarrow> vtaErrorCode option) \<Rightarrow> ('c \<Rightarrow> 'w \<Rightarrow> 'w \<times> ('e + 'r)) \<Rightarrow> 'c \<Rightarrow> 'c list \<Rightarrow> 'w \<Rightarrow> 'w \<times> ('e sessionError + 'r)" where
  "tryChannels codeOf act c rest w =
     (case act c w of
        (w', Inr r) \<Rightarrow> (w', Inr r)
      | (w', Inl e) \<Rightarrow>
          (case rest of
             [] \<Rightarrow> (w', Inl (ChannelFailed e))
           | d # ds \<Rightarrow> if codeOf e = Some ClientUnsupported then tryChannels codeOf act d ds w'
                       else (w', Inl (ChannelFailed e))))"

declare tryChannels.simps [simp del]

definition sessionRoute ::
  "('e \<Rightarrow> vtaErrorCode option) \<Rightarrow> (('w, 'e, 'q) channel \<Rightarrow> 'w \<Rightarrow> 'w \<times> ('e + 'r)) \<Rightarrow> ('w, 'e, 'q) channel list \<Rightarrow> jsval \<Rightarrow> 'w
     \<Rightarrow> 'w \<times> ('e sessionError + 'r)" where
  "sessionRoute codeOf act channels type w =
     (case candidates type channels of
        [] \<Rightarrow> (w, Inl (NoRoute type))
      | c # cs \<Rightarrow> tryChannels codeOf act c cs w)"

definition sessionSend ::
  "('e \<Rightarrow> vtaErrorCode option) \<Rightarrow> ('w, 'e, 'r) channel list \<Rightarrow> jsval \<Rightarrow> 'w \<Rightarrow> 'w \<times> ('e sessionError + 'r)" where
  "sessionSend codeOf channels type w = sessionRoute codeOf chanSend channels type w"

definition sessionNotify ::
  "('e \<Rightarrow> vtaErrorCode option) \<Rightarrow> ('w, 'e, 'r) channel list \<Rightarrow> jsval \<Rightarrow> 'w \<Rightarrow> 'w \<times> ('e sessionError + unit)" where
  "sessionNotify codeOf channels type w = sessionRoute codeOf chanNotify channels type w"

subsection \<open>Which channel answers\<close>

text \<open>Channels that were asked one after the other and said they do not carry the task.\<close>

fun declinedBy ::
  "('e \<Rightarrow> vtaErrorCode option) \<Rightarrow> ('c \<Rightarrow> 'w \<Rightarrow> 'w \<times> ('e + 'r)) \<Rightarrow> 'c list \<Rightarrow> 'w \<Rightarrow> 'w \<Rightarrow> bool" where
  "declinedBy codeOf act [] w w' \<longleftrightarrow> w' = w"
| "declinedBy codeOf act (c # cs) w w' \<longleftrightarrow>
     (\<exists>w1 e. act c w = (w1, Inl e) \<and> codeOf e = Some ClientUnsupported \<and> declinedBy codeOf act cs w1 w')"

text \<open>An outcome after which no further channel is tried.\<close>

definition settles :: "('e \<Rightarrow> vtaErrorCode option) \<Rightarrow> 'c list \<Rightarrow> 'e + 'r \<Rightarrow> bool" where
  "settles codeOf later raw \<longleftrightarrow> (case raw of Inr _ \<Rightarrow> True | Inl e \<Rightarrow> later = [] \<or> codeOf e \<noteq> Some ClientUnsupported)"

lemma tryChannels_iff:
  "tryChannels codeOf act c cs w = (w', out) \<longleftrightarrow>
     (\<exists>declined d later before raw. c # cs = declined @ d # later \<and> declinedBy codeOf act declined w before \<and>
        act d before = (w', raw) \<and> settles codeOf later raw \<and> out = mapErr ChannelFailed raw)" (is "_ \<longleftrightarrow> ?r c cs w")
proof (induction cs arbitrary: c w)
  case Nil
  obtain w1 raw where a: "act c w = (w1, raw)" by fastforce
  have "?r c [] w \<longleftrightarrow> w' = w1 \<and> out = mapErr ChannelFailed raw"
    by (auto simp: Cons_eq_append_conv a settles_def split: sum.splits)
  then show ?case by (cases raw) (auto simp: a tryChannels.simps)
next
  case (Cons d ds)
  obtain w1 raw where a: "act c w = (w1, raw)" by fastforce
  show ?case
  proof (cases "\<exists>e. raw = Inl e \<and> codeOf e = Some ClientUnsupported")
    case True
    then obtain e where e: "raw = Inl e" "codeOf e = Some ClientUnsupported" by blast
    have "?r c (d # ds) w \<longleftrightarrow> ?r d ds w1"
    proof
      assume "?r c (d # ds) w"
      then obtain declined x later before r where s: "c # d # ds = declined @ x # later" "declinedBy codeOf act declined w before"
        "act x before = (w', r)" "settles codeOf later r" "out = mapErr ChannelFailed r" by blast
      from s(1,2,3,4) e a obtain declined' where d': "declined = c # declined'"
        by (cases declined) (auto simp: settles_def)
      with s a e have "d # ds = declined' @ x # later" "declinedBy codeOf act declined' w1 before" by auto
      with s(3-5) show "?r d ds w1" by blast
    next
      assume "?r d ds w1"
      then obtain declined x later before r where "d # ds = declined @ x # later" "declinedBy codeOf act declined w1 before"
        "act x before = (w', r)" "settles codeOf later r" "out = mapErr ChannelFailed r" by blast
      with a e have "c # d # ds = (c # declined) @ x # later" "declinedBy codeOf act (c # declined) w before"
        "act x before = (w', r)" "settles codeOf later r" "out = mapErr ChannelFailed r" by auto
      then show "?r c (d # ds) w" by blast
    qed
    with Cons.IH [of d w1] e a show ?thesis by (simp add: tryChannels.simps [of _ _ c])
  next
    case False
    have "?r c (d # ds) w \<longleftrightarrow> w' = w1 \<and> out = mapErr ChannelFailed raw"
    proof
      assume "?r c (d # ds) w"
      then obtain declined x later before r where s: "c # d # ds = declined @ x # later" "declinedBy codeOf act declined w before"
        "act x before = (w', r)" "out = mapErr ChannelFailed r" by blast
      with a False have "declined = []" by (cases declined) auto
      with s a show "w' = w1 \<and> out = mapErr ChannelFailed raw" by auto
    next
      assume r: "w' = w1 \<and> out = mapErr ChannelFailed raw"
      have "settles codeOf (d # ds) raw" using False by (auto simp: settles_def split: sum.splits)
      with r a have "c # d # ds = [] @ c # d # ds \<and> declinedBy codeOf act [] w w \<and> act c w = (w', raw) \<and>
        settles codeOf (d # ds) raw \<and> out = mapErr ChannelFailed raw" by simp
      then show "?r c (d # ds) w" by blast
    qed
    moreover have "tryChannels codeOf act c (d # ds) w = (w1, mapErr ChannelFailed raw)"
      using False a by (cases raw) (auto simp: tryChannels.simps)
    ultimately show ?thesis by auto
  qed
qed

lemma route_iff:
  "sessionRoute codeOf act channels type w = (w', out) \<longleftrightarrow>
     (candidates type channels = [] \<and> w' = w \<and> out = Inl (NoRoute type)) \<or>
     (\<exists>declined c later before raw. candidates type channels = declined @ c # later \<and>
        declinedBy codeOf act declined w before \<and> act c before = (w', raw) \<and> settles codeOf later raw \<and>
        out = mapErr ChannelFailed raw)"
proof (cases "candidates type channels")
  case (Cons c cs)
  then show ?thesis by (simp add: sessionRoute_def tryChannels_iff)
qed (auto simp: sessionRoute_def)

subsection \<open>Order\<close>

lemma order_channels:
  "mset (orderChannelsByPriority channels) = mset channels"
  "sorted (map (\<lambda>c. priorityOf (chanKind c)) (orderChannelsByPriority channels))"
  "filter (\<lambda>c. chanKind c = k) (orderChannelsByPriority channels) = filter (\<lambda>c. chanKind c = k) channels"
proof -
  have inj: "chanKind c = k \<longleftrightarrow> priorityOf (chanKind c) = priorityOf k" for c :: "('w, 'e, 'r) channel"
    by (cases "chanKind c"; cases k) (simp_all add: priorityOf_def CHANNEL_PRIORITY_def)
  show "filter (\<lambda>c. chanKind c = k) (orderChannelsByPriority channels) = filter (\<lambda>c. chanKind c = k) channels"
    unfolding orderChannelsByPriority_def inj by (rule sort_key_stable)
qed (simp_all add: orderChannelsByPriority_def)

subsection \<open>A declined request was not sent\<close>

text \<open>What the fallback relies on: a channel that says it does not carry a task has put nothing on its wire.\<close>

locale declining_unsent =
  fixes codeOf :: "'e \<Rightarrow> vtaErrorCode option" and sent :: "'w \<Rightarrow> 'q"
    and act :: "('w, 'e, 'p) channel \<Rightarrow> 'w \<Rightarrow> 'w \<times> ('e + 'r)" and cs :: "('w, 'e, 'p) channel set"
  assumes unsent: "c \<in> cs \<Longrightarrow> act c w = (w', Inl e) \<Longrightarrow> codeOf e = Some ClientUnsupported \<Longrightarrow> sent w' = sent w"
begin

lemma declined_unsent: "set declined \<subseteq> cs \<Longrightarrow> declinedBy codeOf act declined w w' \<Longrightarrow> sent w' = sent w"
  by (induction declined arbitrary: w) (auto dest: unsent)

lemma one_carrier:
  assumes "set channels \<subseteq> cs" and "sessionRoute codeOf act channels type w = (w', out)"
  shows "sent w' = sent w \<or> (\<exists>c before raw. c \<in> set (candidates type channels) \<and> sent before = sent w \<and>
    act c before = (w', raw) \<and> out = mapErr ChannelFailed raw)"
proof (cases "candidates type channels = []")
  case True
  with assms(2) show ?thesis by (simp add: sessionRoute_def)
next
  case False
  with assms(2) obtain declined c later before raw where s: "candidates type channels = declined @ c # later"
    "declinedBy codeOf act declined w before" "act c before = (w', raw)" "out = mapErr ChannelFailed raw"
    unfolding route_iff by blast
  have "set (candidates type channels) \<subseteq> set channels" by (auto simp: candidates_def)
  with s(1) assms(1) have "set declined \<subseteq> cs" by auto
  from declined_unsent [OF this s(2)] s show ?thesis by auto
qed

end

subsection \<open>The channels of the wallet\<close>

record 's walletWorld =
  tspStore :: 's
  tspFrames :: "bytes list"
  restWorld :: restWorld
  taskDoc :: members

record 's tspSetup =
  tsCrypto :: crypto
  tsDid :: didLib
  tsCodes :: codeLib
  tsParse :: "jsstr \<Rightarrow> jsval option"
  tsStore :: "'s relStore"
  tsSigner :: taskSigner
  tsHolder :: holderIdentity
  tsVta :: remoteEndpoint
  tsEnv :: "'s sendEnv"
  tsOneWay :: "bool option"

datatype walletError = TspFailed sendError | RestFailed restError

fun sendErrorCode :: "sendError \<Rightarrow> vtaErrorCode option" where
  "sendErrorCode (SendTask t) = errorCode t"
| "sendErrorCode (NoReply _) = Some ClientNetwork"
| "sendErrorCode NoOneWaySend = Some ClientUnsupported"
| "sendErrorCode WireClosed = Some ClientUnsupported"
| "sendErrorCode _ = None"

fun walletCode :: "walletError \<Rightarrow> vtaErrorCode option" where
  "walletCode (TspFailed e) = sendErrorCode e"
| "walletCode (RestFailed e) = restErrorCode e"

text \<open>Signing writes the proof into the caller's document, which the next channel is then handed.\<close>

definition signedInPlace :: "jsstr \<Rightarrow> int \<Rightarrow> taskSigner \<Rightarrow> jsstr option \<Rightarrow> members \<Rightarrow> members" where
  "signedInPlace uuid now signer sender doc =
     (case signOutboundTask uuid now signer sender doc of Inr out \<Rightarrow> out | Inl _ \<Rightarrow> doc)"

definition tspStep :: "'s tspSetup \<Rightarrow> 's walletWorld \<Rightarrow> 's \<times> bytes option \<times> (sendError + 'r) \<Rightarrow> 's walletWorld \<times> (walletError + 'r)" where
  "tspStep T w result =
     (case result of (st, wire, r) \<Rightarrow>
        (w\<lparr>tspStore := st, tspFrames := tspFrames w @ (case wire of None \<Rightarrow> [] | Some b \<Rightarrow> [b]),
           taskDoc := signedInPlace (sendUuid (tsEnv T)) (sendNow (tsEnv T)) (tsSigner T) (Some (holderVid (tsHolder T))) (taskDoc w)\<rparr>,
         mapErr TspFailed r))"

definition tspChannel :: "'s tspSetup \<Rightarrow> jsstr option \<Rightarrow> jsstr option \<Rightarrow> ('s walletWorld, walletError, jsval) channel" where
  "tspChannel T expected lbl = \<lparr>chanKind = KindTsp, chanSupports = None,
     chanSend = (\<lambda>w. tspStep T w (channelSend (tsCrypto T) (tsDid T) (tsCodes T) (tsParse T) (tsStore T) (tsSigner T)
       (tsHolder T) (tsVta T) (tsEnv T) expected lbl (taskDoc w) (tspStore w))),
     chanNotify = (\<lambda>w. tspStep T w (channelNotify (tsCrypto T) (tsStore T) (tsSigner T) (tsHolder T) (tsVta T) (tsEnv T)
       (tsOneWay T) (taskDoc w) (tspStore w)))\<rparr>"

definition restStep :: "restEnv \<Rightarrow> restConfig \<Rightarrow> 's walletWorld \<Rightarrow> restWorld \<times> (restError + 'r) \<Rightarrow> 's walletWorld \<times> (walletError + 'r)" where
  "restStep E cfg w result =
     (case result of (rw, r) \<Rightarrow>
        (w\<lparr>restWorld := rw,
           taskDoc := signedInPlace (uuidOf E (restWorld w)) (nowOf E (restWorld w)) (restSigner cfg) None (taskDoc w)\<rparr>,
         mapErr RestFailed r))"

definition restChannel :: "restEnv \<Rightarrow> restConfig \<Rightarrow> jsstr option \<Rightarrow> jsstr option \<Rightarrow> ('s walletWorld, walletError, jsval) channel" where
  "restChannel E cfg expected lbl = \<lparr>chanKind = KindRest, chanSupports = None,
     chanSend = (\<lambda>w. restStep E cfg w (restSend E cfg expected lbl (taskDoc w) (restWorld w))),
     chanNotify = (\<lambda>w. restStep E cfg w (restNotify E cfg (taskDoc w) (restWorld w)))\<rparr>"

text \<open>What was put on a wire so far.\<close>

definition sentSoFar :: "'s walletWorld \<Rightarrow> bytes list \<times> httpRequest list" where
  "sentSoFar w = (tspFrames w, restLog (restWorld w))"

definition walletChannels :: "('s walletWorld, walletError, jsval) channel set" where
  "walletChannels = {c. (\<exists>T expected lbl. c = tspChannel T expected lbl) \<or>
     (\<exists>E cfg expected lbl. plainErrors (restSigner cfg) \<and> c = restChannel E cfg expected lbl)}"

lemma channelSend_unsent:
  assumes "channelSend C L R parse S signer holder vta env expected lbl envelope st = (st', wire, Inl e)"
    and "sendErrorCode e = Some ClientUnsupported"
  shows "wire = None"
proof -
  have post: "mapErr SendTask (bindE (verifyTrustTaskReply C L s None doc) (\<lambda>_. parseTrustTaskReply R expected lbl doc)) \<noteq> Inl e" for s doc
    using assms(2) verify_code parse_code by (auto simp: mapErr_Inl bindE_Inl)
  show ?thesis
  proof (cases "ensureRelationship C S holder vta (sendHandshake env) st")
    case (Inl x)
    with assms(1) show ?thesis by (cases x) (auto simp: channelSend_def)
  next
    case (Inr x)
    obtain st1 oc where x: "x = (st1, oc)" by (cases x)
    show ?thesis
    proof (cases "packForVta C signer holder vta env envelope")
      case (Inl y)
      with assms(1) Inr x show ?thesis by (auto simp: channelSend_def)
    next
      case p: (Inr y)
      obtain out w where y: "y = (out, w)" by (cases y)
      show ?thesis
        using assms Inr x p y post
        by (cases "awaitClaim (replyClaims C parse holder vta (getMember out (js ''id''))) (sendOffered env) None")
          (auto simp: channelSend_def split: if_splits)
    qed
  qed
qed

lemma channelNotify_unsent:
  assumes "channelNotify C S signer holder vta env oneWay envelope st = (st', wire, Inl e)"
    and "sendErrorCode e = Some ClientUnsupported"
  shows "wire = None"
  using assms by (auto simp: channelNotify_def split: option.splits sum.splits prod.splits if_splits)

lemma restNotify_code:
  assumes "plainErrors (restSigner cfg)" and "restNotify E cfg env w = (w', Inl e)"
  shows "restErrorCode e \<noteq> Some ClientUnsupported"
proof -
  have ack: "decodeTrustTaskHttpAck K now res = Inl x \<Longrightarrow> veCode x \<noteq> ClientUnsupported" for K now res x
    using failedStatus_known coerceCode_known known_supported
    by (auto simp: decodeTrustTaskHttpAck_def errorFromBody_def rateLimitedError_def Let_def split: if_splits option.splits)
  from assms(2) restPost_code [OF assms(1)] ack show ?thesis
    by (auto simp: restNotify_def mapErr_Inl split: prod.splits sum.splits)
qed

interpretation wallet: declining_unsent walletCode sentSoFar chanSend walletChannels
proof
  fix c :: "('s walletWorld, walletError, jsval) channel" and w w' e
  assume "c \<in> walletChannels" and s: "chanSend c w = (w', Inl e)" "walletCode e = Some ClientUnsupported"
  then consider (tsp) T x l where "c = tspChannel T x l" | (rest) E cfg x l where "plainErrors (restSigner cfg)" "c = restChannel E cfg x l"
    by (auto simp: walletChannels_def)
  then show "sentSoFar w' = sentSoFar w"
  proof cases
    case tsp
    with s show ?thesis
      by (auto simp: tspChannel_def tspStep_def sentSoFar_def mapErr_Inl split: prod.splits dest: channelSend_unsent)
  next
    case rest
    with s restSend_code [OF rest(1)] show ?thesis
      by (auto simp: restChannel_def restStep_def mapErr_Inl split: prod.splits)
  qed
qed

interpretation walletOneWay: declining_unsent walletCode sentSoFar chanNotify walletChannels
proof
  fix c :: "('s walletWorld, walletError, jsval) channel" and w w' e
  assume "c \<in> walletChannels" and s: "chanNotify c w = (w', Inl e)" "walletCode e = Some ClientUnsupported"
  then consider (tsp) T x l where "c = tspChannel T x l" | (rest) E cfg x l where "plainErrors (restSigner cfg)" "c = restChannel E cfg x l"
    by (auto simp: walletChannels_def)
  then show "sentSoFar w' = sentSoFar w"
  proof cases
    case tsp
    with s show ?thesis
      by (auto simp: tspChannel_def tspStep_def sentSoFar_def mapErr_Inl split: prod.splits dest: channelNotify_unsent)
  next
    case rest
    with s restNotify_code [OF rest(1)] show ?thesis
      by (auto simp: restChannel_def restStep_def mapErr_Inl split: prod.splits)
  qed
qed

subsection \<open>Samples\<close>

text \<open>A wallet whose socket is down, and an agent whose HTTP endpoint does not answer.\<close>

definition sampleTsp :: "(jsstr \<times> relationshipRecord) list tspSetup" where
  "sampleTsp = \<lparr>tsCrypto = sampleCrypto, tsDid = sampleLib, tsCodes = \<lparr>normalizeCode = (\<lambda>c. c), isStandardCode = (\<lambda>c. True)\<rparr>,
     tsParse = (\<lambda>t. None), tsStore = memoryRelationshipStore, tsSigner = sampleSigner, tsHolder = sampleHolder,
     tsVta = sampleRemote,
     tsEnv = \<lparr>sendHandshake = \<lparr>envEph = sampleKey 1, envNonce = replicate 16 9, envOffered = [], envFailure = [], envMeanwhile = id\<rparr>,
       sendUuid = js ''u'', sendNow = 0, sendEph = sampleKey 1, sendOpen = False, sendOffered = []\<rparr>,
     tsOneWay = None\<rparr>"

definition sampleRestEnv :: restEnv where
  "sampleRestEnv = \<lparr>envFetch = (\<lambda>before req. Inl FetchTimedOut), envUuid = (\<lambda>n. js ''u''), envNow = (\<lambda>n. 0), envMillis = (\<lambda>t. 0)\<rparr>"

definition sampleRestConfig :: restConfig where
  "sampleRestConfig = \<lparr>baseUrl = js ''https://a/'', authDid = js ''did:x'', serviceDid = js ''did:y'', restSigner = sampleSigner,
     cfgCrypto = sampleCrypto, cfgDid = sampleLib, cfgCodes = \<lparr>normalizeCode = (\<lambda>c. c), isStandardCode = (\<lambda>c. True)\<rparr>,
     cfgClock = \<lparr>dateParse = (\<lambda>t. None), mathCeil = (\<lambda>t. 0)\<rparr>\<rparr>"

definition sampleWorld :: "(jsstr \<times> relationshipRecord) list walletWorld" where
  "sampleWorld = \<lparr>tspStore = [], tspFrames = [], restWorld = \<lparr>restLog = [], bearerCache = (\<lambda>k. None)\<rparr>, taskDoc = sampleTask\<rparr>"

lemma sample_channels:
  "set [restChannel sampleRestEnv sampleRestConfig None None, tspChannel sampleTsp None None] \<subseteq> walletChannels"
proof -
  have "plainErrors (restSigner sampleRestConfig)" by (simp add: sampleRestConfig_def sampleSigner_def local_plain)
  then have "restChannel sampleRestEnv sampleRestConfig None None \<in> walletChannels" unfolding walletChannels_def by blast
  moreover have "tspChannel sampleTsp None None \<in> walletChannels" unfolding walletChannels_def by blast
  ultimately show ?thesis by simp
qed

subsection \<open>Properties\<close>

text \<open>Channels are tried in the order TSP, DIDComm, REST: the session holds exactly the channels it was given,
  sorted by that preference, those of one kind in the order they came in.\<close>

theorem channels_in_order:
  "mset (orderChannelsByPriority channels) = mset channels \<and>
   sorted (map (\<lambda>c. priorityOf (chanKind c)) (orderChannelsByPriority channels)) \<and>
   filter (\<lambda>c. chanKind c = k) (orderChannelsByPriority channels) = filter (\<lambda>c. chanKind c = k) channels \<and>
   map priorityOf [KindTsp, KindDidcomm, KindRest] = [0, 1, 2]"
proof -
  have "map priorityOf [KindTsp, KindDidcomm, KindRest] = [0, 1, 2]" by (simp add: priorityOf_def CHANNEL_PRIORITY_def)
  then show ?thesis using order_channels by blast
qed

text \<open>Which channel answers: without a channel for the task the session says so and does nothing; otherwise the
  outcome is that of the first capable channel that does not report the task as unsupported, or of the
  last one; every channel before it was asked once and reported just that, and none after it is asked.\<close>

theorem session_routes:
  "sessionSend codeOf channels type w = (w', out) \<longleftrightarrow>
     (candidates type channels = [] \<and> w' = w \<and> out = Inl (NoRoute type)) \<or>
     (\<exists>declined c later before raw. candidates type channels = declined @ c # later \<and>
        declinedBy codeOf chanSend declined w before \<and> chanSend c before = (w', raw) \<and> settles codeOf later raw \<and>
        out = mapErr ChannelFailed raw)"
  unfolding sessionSend_def by (rule route_iff)

text \<open>C25: A request goes out over one transport: of the wallet's TSP and REST channels, in whatever number and
  order, at most one puts anything on its wire, and the session's outcome is the outcome of that one. A
  request that may have been applied is therefore never repeated on another transport.\<close>

theorem one_transport_carries:
  assumes "set channels \<subseteq> walletChannels" and "sessionSend walletCode channels type w = (w', out)"
  shows "sentSoFar w' = sentSoFar w \<or> (\<exists>c before raw. c \<in> set (candidates type channels) \<and>
    sentSoFar before = sentSoFar w \<and> chanSend c before = (w', raw) \<and> out = mapErr ChannelFailed raw)"
  using wallet.one_carrier [OF assms(1)] assms(2) unfolding sessionSend_def by blast

theorem one_transport_carries_witness:
  "\<exists>w' out. sessionSend walletCode (orderChannelsByPriority
       [restChannel sampleRestEnv sampleRestConfig None None, tspChannel sampleTsp None None]) (JStr (js ''t'')) sampleWorld = (w', out) \<and>
     (sentSoFar w' = sentSoFar sampleWorld \<or> (\<exists>c before raw. c \<in> walletChannels \<and>
       sentSoFar before = sentSoFar sampleWorld \<and> chanSend c before = (w', raw) \<and> out = mapErr ChannelFailed raw))"
proof -
  let ?cs = "orderChannelsByPriority [restChannel sampleRestEnv sampleRestConfig None None, tspChannel sampleTsp None None]"
  have cs: "set ?cs \<subseteq> walletChannels"
    using sample_channels by (simp add: orderChannelsByPriority_def)
  obtain w' out where r: "sessionSend walletCode ?cs (JStr (js ''t'')) sampleWorld = (w', out)" by fastforce
  from one_transport_carries [OF cs r] have "sentSoFar w' = sentSoFar sampleWorld \<or> (\<exists>c before raw. c \<in> walletChannels \<and>
       sentSoFar before = sentSoFar sampleWorld \<and> chanSend c before = (w', raw) \<and> out = mapErr ChannelFailed raw)"
    using cs unfolding candidates_def by (simp only: set_filter) blast
  with r show ?thesis by blast
qed

end
