(* ===== verification/Tsp_Demux.thy ===== *)
theory Tsp_Demux
  imports Prelude
begin

text \<open>
  One socket, many requests: how the mediator session of \<open>packages/core/src/didcomm/index.ts\<close> offers an arriving TSP
  frame to the requests that wait for a reply, and hands it to the inbox when none claims it. A claim takes
  time, so between the moment a waiter is asked and the moment it answers, other requests begin, time out or
  are asked about other frames: each of these is a step, and a run is any sequence of them.
\<close>

subsection \<open>State\<close>

datatype settlement = Resolved bytes | TimedOut | SessionClosed

text \<open>Waiters are numbered in the order they register. \<open>offered\<close> are the frames whose next answer is awaited,
  with the position of the loop and the waiter that was asked.\<close>

record demux =
  tspWaiters :: "nat list"
  waiting :: "nat \<Rightarrow> bool"
  settled :: "nat \<Rightarrow> settlement option"
  registered :: nat
  offered :: "(bytes \<times> nat \<times> nat) list"
  inboundFrames :: "bytes list"

definition newDemux :: demux where
  "newDemux = \<lparr>tspWaiters = [], waiting = (\<lambda>w. False), settled = (\<lambda>w. None), registered = 0, offered = [], inboundFrames = []\<rparr>"

subsection \<open>Steps\<close>

text \<open>A promise keeps its first settlement; \<open>waiting\<close> is whether the timer of the waiter is still set.\<close>

definition settle_with :: "nat \<Rightarrow> settlement \<Rightarrow> demux \<Rightarrow> demux" where
  "settle_with w s d = d\<lparr>waiting := (waiting d)(w := False),
     settled := (settled d)(w := (case settled d w of None \<Rightarrow> Some s | Some s' \<Rightarrow> Some s'))\<rparr>"

definition awaitTspFrame :: "demux \<Rightarrow> demux" where
  "awaitTspFrame d = d\<lparr>tspWaiters := tspWaiters d @ [registered d], waiting := (waiting d)(registered d := True),
     registered := Suc (registered d)\<rparr>"

definition spliceAt :: "nat \<Rightarrow> 'a list \<Rightarrow> 'a list" where
  "spliceAt i xs = take i xs @ drop (Suc i) xs"

text \<open>The head of the loop: ask the waiter at position \<open>i\<close>, or give the frame to the inbox.\<close>

definition offer :: "bytes \<Rightarrow> nat \<Rightarrow> demux \<Rightarrow> demux" where
  "offer f i d =
     (if i < length (tspWaiters d) then d\<lparr>offered := offered d @ [(f, i, tspWaiters d ! i)]\<rparr>
      else d\<lparr>inboundFrames := inboundFrames d @ [f]\<rparr>)"

definition onTspFrame :: "bytes \<Rightarrow> demux \<Rightarrow> demux" where
  "onTspFrame f d = offer f 0 d"

text \<open>The waiter answers: the position found before the answer is the one that is spliced out.\<close>

definition answered :: "(nat \<Rightarrow> bytes \<Rightarrow> bool) \<Rightarrow> bytes \<times> nat \<times> nat \<Rightarrow> demux \<Rightarrow> demux" where
  "answered claims p d =
     (case p of (f, i, w) \<Rightarrow>
        let d' = d\<lparr>offered := remove1 p (offered d)\<rparr> in
        if claims w f then settle_with w (Resolved f) (d'\<lparr>tspWaiters := spliceAt i (tspWaiters d')\<rparr>)
        else offer f (Suc i) d')"

definition timedOut :: "nat \<Rightarrow> demux \<Rightarrow> demux" where
  "timedOut w d = settle_with w TimedOut (d\<lparr>tspWaiters := remove1 w (tspWaiters d)\<rparr>)"

definition rejectTspWaiters :: "demux \<Rightarrow> demux" where
  "rejectTspWaiters d = fold (\<lambda>w. settle_with w SessionClosed) (tspWaiters d) (d\<lparr>tspWaiters := []\<rparr>)"

inductive demux_run :: "(nat \<Rightarrow> bytes \<Rightarrow> bool) \<Rightarrow> demux \<Rightarrow> bool" for claims where
  start: "demux_run claims newDemux"
| await: "demux_run claims d \<Longrightarrow> demux_run claims (awaitTspFrame d)"
| arrive: "demux_run claims d \<Longrightarrow> demux_run claims (onTspFrame f d)"
| answer: "demux_run claims d \<Longrightarrow> p \<in> set (offered d) \<Longrightarrow> demux_run claims (answered claims p d)"
| timeout: "demux_run claims d \<Longrightarrow> waiting d w \<Longrightarrow> demux_run claims (timedOut w d)"
| close: "demux_run claims d \<Longrightarrow> demux_run claims (rejectTspWaiters d)"

subsection \<open>A request is only given a frame it claims\<close>

lemma settled_settle: "settled (settle_with w s d) v = (if v = w \<and> settled d w = None then Some s else settled d v)"
  by (cases "settled d w") (simp_all add: settle_with_def)

lemma settled_offer [simp]: "settled (offer f i d) = settled d"
  by (simp add: offer_def)

lemma settled_reject:
  "settled (fold (\<lambda>w. settle_with w SessionClosed) ws d) v = Some (Resolved f) \<longleftrightarrow> settled d v = Some (Resolved f)"
  by (induction ws arbitrary: d) (auto simp: settled_settle)

lemma run_claimed: "demux_run claims d \<Longrightarrow> settled d w = Some (Resolved f) \<Longrightarrow> claims w f"
proof (induction arbitrary: w f rule: demux_run.induct)
  case start
  then show ?case by (simp add: newDemux_def)
next
  case (await d)
  then show ?case by (simp add: awaitTspFrame_def)
next
  case (arrive d g)
  then show ?case by (simp add: onTspFrame_def)
next
  case (answer d p)
  obtain g i v where p: "p = (g, i, v)" by (cases p)
  show ?case
  proof (cases "claims v g")
    case True
    with answer.prems answer.IH [of w f] p show ?thesis by (auto simp: answered_def settled_settle Let_def split: if_splits)
  next
    case False
    with answer.prems answer.IH [of w f] p show ?thesis by (simp add: answered_def Let_def)
  qed
next
  case (timeout d v)
  then show ?case by (auto simp: timedOut_def settled_settle split: if_splits)
next
  case (close d)
  then show ?case by (simp add: rejectTspWaiters_def settled_reject)
qed

subsection \<open>An undisturbed frame\<close>

text \<open>Without other steps in between, a frame is taken by the first waiter that claims it.\<close>

fun answerAll :: "(nat \<Rightarrow> bytes \<Rightarrow> bool) \<Rightarrow> nat \<Rightarrow> demux \<Rightarrow> demux" where
  "answerAll claims 0 d = d"
| "answerAll claims (Suc n) d = (case offered d of [] \<Rightarrow> d | p # _ \<Rightarrow> answerAll claims n (answered claims p d))"

lemma answerAll_run: "demux_run claims d \<Longrightarrow> demux_run claims (answerAll claims n d)"
proof (induction n arbitrary: d)
  case (Suc n)
  show ?case
  proof (cases "offered d")
    case (Cons p ps)
    then have "demux_run claims (answered claims p d)" using Suc.prems demux_run.answer by (metis list.set_intros(1))
    with Cons Suc.IH show ?thesis by simp
  qed (use Suc.prems in simp)
qed simp

lemma offered_none: "offered d = [] \<Longrightarrow> d\<lparr>offered := []\<rparr> = d"
  by (cases d) simp

lemma find_SomeE:
  assumes "find P xs = Some x"
  obtains ys zs where "xs = ys @ x # zs" "\<forall>y \<in> set ys. \<not> P y" "P x"
  using assms
proof (induction xs arbitrary: thesis)
  case (Cons y xs)
  show ?case
  proof (cases "P y")
    case True
    with Cons.prems(1) [of "[]" xs] Cons.prems(2) show ?thesis by simp
  next
    case False
    with Cons.prems(2) have "find P xs = Some x" by simp
    then obtain ys zs where "xs = ys @ x # zs" "\<forall>y \<in> set ys. \<not> P y" "P x" using Cons.IH by blast
    with False Cons.prems(1) [of "y # ys" zs] show ?thesis by simp
  qed
qed simp

lemma answerAll_idle: "offered d = [] \<Longrightarrow> answerAll claims n d = d"
  by (cases n) simp_all

lemma answerAll_none:
  "offered d = [] \<Longrightarrow> \<forall>w \<in> set (drop i (tspWaiters d)). \<not> claims w f \<Longrightarrow> length (tspWaiters d) - i \<le> n \<Longrightarrow>
   answerAll claims n (offer f i d) = d\<lparr>inboundFrames := inboundFrames d @ [f]\<rparr>"
proof (induction n arbitrary: i)
  case 0
  then show ?case by (simp add: offer_def)
next
  case (Suc n)
  show ?case
  proof (cases "i < length (tspWaiters d)")
    case True
    then have d: "drop i (tspWaiters d) = tspWaiters d ! i # drop (Suc i) (tspWaiters d)" by (simp add: Cons_nth_drop_Suc)
    with Suc.prems have n: "\<not> claims (tspWaiters d ! i) f" by simp
    have "answerAll claims (Suc n) (offer f i d) = answerAll claims n (offer f (Suc i) d)"
      using True n Suc.prems(1) by (simp add: offer_def [of f i] answered_def Let_def offered_none)
    with Suc.IH [of "Suc i"] Suc.prems d show ?thesis by simp
  next
    case False
    with Suc.prems(1) show ?thesis by (simp add: offer_def)
  qed
qed

lemma answerAll_first:
  "offered d = [] \<Longrightarrow> tspWaiters d = xs @ w # ys \<Longrightarrow> \<forall>v \<in> set (drop i xs). \<not> claims v f \<Longrightarrow> claims w f \<Longrightarrow> i \<le> length xs \<Longrightarrow>
   length xs - i < n \<Longrightarrow> answerAll claims n (offer f i d) = settle_with w (Resolved f) (d\<lparr>tspWaiters := xs @ ys\<rparr>)"
proof (induction n arbitrary: i)
  case (Suc n)
  show ?case
  proof (cases "i = length xs")
    case True
    with Suc.prems have "answered claims (f, i, w) (offer f i d) = settle_with w (Resolved f) (d\<lparr>tspWaiters := xs @ ys\<rparr>)"
      by (simp add: offer_def answered_def spliceAt_def Let_def offered_none nth_append)
    moreover have "offered (settle_with w (Resolved f) (d\<lparr>tspWaiters := xs @ ys\<rparr>)) = []"
      using Suc.prems(1) by (simp add: settle_with_def)
    ultimately show ?thesis using True Suc.prems by (simp add: offer_def answerAll_idle)
  next
    case False
    with Suc.prems have l: "i < length xs" by simp
    then have d: "drop i xs = xs ! i # drop (Suc i) xs" by (simp add: Cons_nth_drop_Suc)
    with Suc.prems have n: "\<not> claims (xs ! i) f" by simp
    have "answerAll claims (Suc n) (offer f i d) = answerAll claims n (offer f (Suc i) d)"
      using l n Suc.prems(1,2) by (simp add: offer_def [of f i] answered_def nth_append Let_def offered_none)
    with Suc.IH [of "Suc i"] Suc.prems d l show ?thesis by simp
  qed
qed simp

subsection \<open>Properties\<close>

text \<open>Whatever else happens on the socket while claims are being decided, a request that is answered was answered
  with a frame it claimed as its own: no order of requests, arrivals, timeouts and answers gives one request the reply
  of another.\<close>

theorem resolved_frames_claimed: "demux_run claims d \<Longrightarrow> settled d w = Some (Resolved f) \<Longrightarrow> claims w f"
  by (rule run_claimed)

lemma await_runs: "demux_run claims ((awaitTspFrame ^^ n) newDemux)"
  by (induction n) (auto intro: demux_run.intros)

abbreviation own :: "nat \<Rightarrow> bytes \<Rightarrow> bool" where
  "own w f \<equiv> f = [of_nat w]"

definition oneAnswered :: demux where
  "oneAnswered = answered own ([0], 0, 0) (onTspFrame [0] (awaitTspFrame newDemux))"

lemma oneAnswered_settled: "settled oneAnswered 0 = Some (Resolved [0])"
  by (simp add: oneAnswered_def answered_def onTspFrame_def offer_def awaitTspFrame_def newDemux_def settle_with_def)

lemma oneAnswered_run: "demux_run own oneAnswered"
  unfolding oneAnswered_def
  by (intro demux_run.intros) (simp add: onTspFrame_def offer_def awaitTspFrame_def newDemux_def)

theorem resolved_frames_claimed_witness:
  "demux_run own oneAnswered \<and> settled oneAnswered 0 = Some (Resolved [0]) \<and> own 0 [0]"
  using resolved_frames_claimed [OF oneAnswered_run oneAnswered_settled] oneAnswered_run oneAnswered_settled by blast

text \<open>A frame whose claims are decided with nothing else happening in between goes to the first waiting request, in
  the order they registered, that claims it, which leaves the queue; when none claims it, it goes to the inbox and
  every request keeps waiting.\<close>

theorem frame_delivery:
  "offered d = [] \<Longrightarrow> answerAll claims (Suc (length (tspWaiters d))) (onTspFrame f d) =
   (case find (\<lambda>w. claims w f) (tspWaiters d) of
      None \<Rightarrow> d\<lparr>inboundFrames := inboundFrames d @ [f]\<rparr>
    | Some w \<Rightarrow> settle_with w (Resolved f) (d\<lparr>tspWaiters := remove1 w (tspWaiters d)\<rparr>))"
proof (cases "find (\<lambda>w. claims w f) (tspWaiters d)")
  case None
  assume d: "offered d = []"
  from None have "\<forall>w \<in> set (drop 0 (tspWaiters d)). \<not> claims w f" by (simp add: find_None_iff)
  with answerAll_none [of d 0 claims f "Suc (length (tspWaiters d))"] d None show ?thesis by (simp add: onTspFrame_def)
next
  case (Some w)
  assume d: "offered d = []"
  obtain xs ys where q: "tspWaiters d = xs @ w # ys" and n: "\<forall>v \<in> set xs. \<not> claims v f" and c: "claims w f"
    using Some by (elim find_SomeE)
  then have "w \<notin> set xs" by auto
  with answerAll_first [of d xs w ys 0 claims f "Suc (length (tspWaiters d))"] d n c Some q show ?thesis by (simp add: onTspFrame_def remove1_append)
qed

theorem frame_delivery_witness:
  "answerAll (\<lambda>w f. w = 1) 3 (onTspFrame [9] ((awaitTspFrame ^^ 2) newDemux)) =
   settle_with 1 (Resolved [9]) (((awaitTspFrame ^^ 2) newDemux)\<lparr>tspWaiters := [0]\<rparr>)"
  using frame_delivery [of "(awaitTspFrame ^^ 2) newDemux" "\<lambda>w f. w = 1" "[9]"]
  by (simp add: awaitTspFrame_def newDemux_def numeral_2_eq_2 numeral_3_eq_3)

lemma set_spliceAt: "set (spliceAt i xs) \<subseteq> set xs"
  by (auto simp: spliceAt_def dest: in_set_takeD in_set_dropD)

lemma distinct_spliceAt: "distinct xs \<Longrightarrow> distinct (spliceAt i xs)"
  by (simp add: spliceAt_def set_take_disj_set_drop_if_distinct)

lemma queue_settle [simp]: "tspWaiters (settle_with w s d) = tspWaiters d" "registered (settle_with w s d) = registered d"
  by (simp_all add: settle_with_def)

lemma queue_fold [simp]: "tspWaiters (fold (\<lambda>w. settle_with w s) ws d) = tspWaiters d" "registered (fold (\<lambda>w. settle_with w s) ws d) = registered d"
  by (induction ws arbitrary: d) simp_all

lemma queue_offer [simp]: "tspWaiters (offer f i d) = tspWaiters d" "registered (offer f i d) = registered d"
  by (simp_all add: offer_def)

abbreviation queueOk :: "demux \<Rightarrow> bool" where
  "queueOk d \<equiv> distinct (tspWaiters d) \<and> (\<forall>w \<in> set (tspWaiters d). w < registered d)"

lemma answered_queue: "set (tspWaiters (answered claims p d)) \<subseteq> set (tspWaiters d)" "registered (answered claims p d) = registered d"
  "distinct (tspWaiters d) \<Longrightarrow> distinct (tspWaiters (answered claims p d))"
  by (cases p, use set_spliceAt [of "fst (snd p)" "tspWaiters d"] distinct_spliceAt [of "tspWaiters d" "fst (snd p)"] in
      \<open>simp add: answered_def Let_def\<close>)+

lemma run_distinct: "demux_run claims d \<Longrightarrow> queueOk d"
proof (induction rule: demux_run.induct)
  case (await d)
  then show ?case by (auto simp: awaitTspFrame_def)
next
  case (answer d p)
  then show ?case using answered_queue [where claims = claims and p = p and d = d] by (metis subsetD)
next
  case (timeout d w)
  then show ?case using set_remove1_subset [of w "tspWaiters d"] by (auto simp: timedOut_def)
qed (simp_all add: newDemux_def onTspFrame_def rejectTspWaiters_def)

text \<open>The queue shifts while a claim is decided.\<close>

definition shiftedAnswer :: "(nat \<Rightarrow> bytes \<Rightarrow> bool) \<Rightarrow> bytes \<Rightarrow> nat \<Rightarrow> nat \<Rightarrow> demux \<Rightarrow> demux" where
  "shiftedAnswer claims f u v d = answered claims (f, 1, v) (timedOut u (answered claims (f, 0, u) (onTspFrame f d)))"

lemma shifted_asked:
  assumes "tspWaiters d = u # v # w # ys" and "offered d = []" and "\<not> claims u f"
  shows "answered claims (f, 0, u) (onTspFrame f d) = d\<lparr>offered := [(f, 1, v)]\<rparr>"
  using assms by (simp add: onTspFrame_def offer_def answered_def Let_def)

text \<open>C30: The first of the waiting requests does not claim a frame, and while the second is being asked about it the first
  times out. The position found before the answer now belongs to the third request, so that one is spliced out: it still
  waits, its timer still runs, the inbox is as before, and yet a later frame that it and no other request in the queue claims is given
  to the inbox; the second, which is answered, stays in the queue.\<close>

theorem waiting_request_skipped:
  assumes "demux_run claims d" and "tspWaiters d = u # v # w # ys" and "offered d = []" and "waiting d u" and "waiting d w" and "settled d w = None"
    and "settled d v = None" and "\<not> claims u f" and "claims v f" and "claims w g" and "\<forall>x \<in> set (v # ys). \<not> claims x g"
  shows "demux_run claims (shiftedAnswer claims f u v d) \<and> settled (shiftedAnswer claims f u v d) v = Some (Resolved f) \<and>
    tspWaiters (shiftedAnswer claims f u v d) = v # ys \<and>
    waiting (shiftedAnswer claims f u v d) w \<and> settled (shiftedAnswer claims f u v d) w = None \<and>
    inboundFrames (shiftedAnswer claims f u v d) = inboundFrames d \<and>
    inboundFrames (answerAll claims (Suc (length ys)) (onTspFrame g (shiftedAnswer claims f u v d))) = inboundFrames d @ [g]"
proof -
  let ?d = "shiftedAnswer claims f u v d"
  from run_distinct [OF assms(1)] assms(2) have dis: "u \<noteq> v" "u \<noteq> w" "v \<noteq> w" by auto
  have asked: "answered claims (f, 0, u) (onTspFrame f d) = d\<lparr>offered := [(f, 1, v)]\<rparr>"
    by (rule shifted_asked) (use assms(2,3,8) in simp_all)
  have e: "?d = settle_with v (Resolved f) ((timedOut u (d\<lparr>offered := [(f, 1, v)]\<rparr>))\<lparr>offered := [], tspWaiters := v # ys\<rparr>)"
    unfolding shiftedAnswer_def asked using assms(2,9) by (simp add: answered_def Let_def timedOut_def spliceAt_def settle_with_def)
  have run: "demux_run claims ?d"
    unfolding shiftedAnswer_def asked
  proof (rule demux_run.answer [OF demux_run.timeout])
    have "demux_run claims (answered claims (f, 0, u) (onTspFrame f d))"
      by (rule demux_run.answer [OF demux_run.arrive [OF assms(1)]]) (use assms(2) in \<open>simp add: onTspFrame_def offer_def\<close>)
    then show "demux_run claims (d\<lparr>offered := [(f, 1, v)]\<rparr>)" unfolding asked .
  qed (use assms(4) in \<open>simp_all add: timedOut_def settle_with_def\<close>)
  have q: "tspWaiters ?d = v # ys" "offered ?d = []" "inboundFrames ?d = inboundFrames d" "waiting ?d w" "settled ?d w = None"
    "settled ?d v = Some (Resolved f)"
    using assms(4,5,6,7) dis by (simp_all add: e timedOut_def settle_with_def)
  have "answerAll claims (Suc (length ys)) (offer g 0 ?d) = ?d\<lparr>inboundFrames := inboundFrames ?d @ [g]\<rparr>"
    by (rule answerAll_none) (use q assms(11) in simp_all)
  then have "inboundFrames (answerAll claims (Suc (length ys)) (onTspFrame g ?d)) = inboundFrames d @ [g]"
    using q(3) by (simp add: onTspFrame_def)
  with run q show ?thesis by blast
qed

definition threeWaiting :: demux where
  "threeWaiting = \<lparr>tspWaiters = [0, 1, 2], waiting = (\<lambda>w. w < 3), settled = (\<lambda>w. None), registered = 3, offered = [], inboundFrames = []\<rparr>"

lemma three_await: "(awaitTspFrame ^^ 3) newDemux = threeWaiting"
proof -
  have "(awaitTspFrame ^^ 3) newDemux = awaitTspFrame (awaitTspFrame (awaitTspFrame newDemux))" by (simp only: funpow.simps numeral_3_eq_3 comp_apply id_apply)
  then show ?thesis by (auto simp: awaitTspFrame_def newDemux_def threeWaiting_def fun_eq_iff)
qed

theorem waiting_request_skipped_witness:
  "demux_run own threeWaiting \<and> own 2 [2] \<and> waiting (shiftedAnswer own [1] 0 1 threeWaiting) 2 \<and>
   inboundFrames (shiftedAnswer own [1] 0 1 threeWaiting) = [] \<and>
   inboundFrames (answerAll own 1 (onTspFrame [2] (shiftedAnswer own [1] 0 1 threeWaiting))) = [[2]]"
proof -
  have run: "demux_run own threeWaiting" using await_runs [of own 3] unfolding three_await .
  have w: "tspWaiters threeWaiting = [0, 1, 2]" "offered threeWaiting = []" "waiting threeWaiting 0" "waiting threeWaiting 2"
    "settled threeWaiting 2 = None" "settled threeWaiting 1 = None" "inboundFrames threeWaiting = []" by (simp_all add: threeWaiting_def)
  have c: "\<not> own 0 [1]" "own 1 [1]" "own 2 [2]" "\<forall>x \<in> set [1]. \<not> own x [2]" by simp_all
  note skipped = waiting_request_skipped [where claims = own and f = "[1]" and g = "[2]", OF run w(1-6) c]
  let ?d = "shiftedAnswer own [1] 0 1 threeWaiting"
  from skipped have "waiting ?d 2" "inboundFrames ?d = []" unfolding w(7) by blast+
  moreover from skipped have "inboundFrames (answerAll own (Suc (length ([] :: nat list))) (onTspFrame [2] ?d)) = [] @ [[2]]" unfolding w(7) by blast
  then have "inboundFrames (answerAll own 1 (onTspFrame [2] ?d)) = [[2]]" unfolding list.size(3) One_nat_def append_Nil .
  ultimately show ?thesis using run c(3) by blast
qed

end
