(* ===== verification/Link_Text.thy ===== *)
theory Link_Text
  imports Egress Tsp_Binding Base64url
begin

text \<open>
  The text-level rules of trigger links, the lower half of \<open>packages/core/src/links/trigger-link.ts\<close>: fields of a
  fragment read as a form, the host rules, handles, expiry numbers, DID syntax and the paths of flows. The
  regular expressions of the source are written as scanners: each of them has at most one way to match.
\<close>

subsection \<open>Characters\<close>

definition isLower :: "16 word \<Rightarrow> bool" where "isLower u \<longleftrightarrow> 97 \<le> unat u \<and> unat u \<le> 122"
definition isUpper :: "16 word \<Rightarrow> bool" where "isUpper u \<longleftrightarrow> 65 \<le> unat u \<and> unat u \<le> 90"
definition isLowerAlnum :: "16 word \<Rightarrow> bool" where "isLowerAlnum u \<longleftrightarrow> isLower u \<or> isDigit u"
definition isAlnum :: "16 word \<Rightarrow> bool" where "isAlnum u \<longleftrightarrow> isLower u \<or> isUpper u \<or> isDigit u"

lemmas letters = isLower_def isUpper_def isLowerAlnum_def isAlnum_def isDigit_def

text \<open>\<open>[class]+\<close> up to a given character, which is dropped: what follows it.\<close>

definition spanTo :: "(16 word \<Rightarrow> bool) \<Rightarrow> 16 word \<Rightarrow> jsstr \<Rightarrow> jsstr option" where
  "spanTo P c s =
     (let t = takeWhile P s in
      if t = [] then None
      else case drop (length t) s of x # r \<Rightarrow> if x = c then Some r else None | [] \<Rightarrow> None)"

subsection \<open>Forms\<close>

record formPair =
  pairName :: jsstr
  pairValue :: jsstr
  rawValue :: jsstr

definition isHexByte :: "byte \<Rightarrow> bool" where
  "isHexByte b \<longleftrightarrow> (0x30 \<le> b \<and> b \<le> 0x39) \<or> (0x41 \<le> b \<and> b \<le> 0x46) \<or> (0x61 \<le> b \<and> b \<le> 0x66)"

definition hexVal :: "byte \<Rightarrow> byte" where
  "hexVal b = (if b \<le> 0x39 then b - 0x30 else if b \<le> 0x46 then b - 0x41 + 10 else b - 0x61 + 10)"

fun percentUnescape :: "bytes \<Rightarrow> bytes" where
  "percentUnescape (b # h # l # r) =
     (if b = 0x25 \<and> isHexByte h \<and> isHexByte l then (push_bit 4 (hexVal h) OR hexVal l) # percentUnescape r
      else b # percentUnescape (h # l # r))"
| "percentUnescape [b, h] = [b, h]"
| "percentUnescape [b] = [b]"
| "percentUnescape [] = []"

definition percentDecode :: "jsstr \<Rightarrow> jsstr" where
  "percentDecode s = textDecode (percentUnescape (textEncode s))"

definition formDecode :: "jsstr \<Rightarrow> jsstr" where
  "formDecode s = percentDecode (map (\<lambda>u. if u = 43 then 32 else u) s)"

definition readPair :: "jsstr \<Rightarrow> formPair" where
  "readPair sq =
     (let (rawName, raw) = (case indexOf 61 sq of None \<Rightarrow> (sq, []) | Some eq \<Rightarrow> (take eq sq, drop (eq + 1) sq))
      in \<lparr>pairName = formDecode rawName, pairValue = formDecode raw, rawValue = raw\<rparr>)"

definition parseFormPairs :: "jsstr \<Rightarrow> formPair list" where
  "parseFormPairs input = map readPair (filter (\<lambda>sq. sq \<noteq> []) (splitOn 38 input))"

subsection \<open>Host rules\<close>

definition isDnsLabel :: "jsstr \<Rightarrow> bool" where
  "isDnsLabel l \<longleftrightarrow> l \<noteq> [] \<and> length l \<le> 63 \<and> isLowerAlnum (hd l) \<and> isLowerAlnum (last l) \<and>
     list_all (\<lambda>u. isLowerAlnum u \<or> u = 45) l"

definition meetsHostRules :: "jsstr \<Rightarrow> bool" where
  "meetsHostRules host =
     (if host = [] \<or> length host > 253 then False
      else if endsWith host (js ''.'') then False
      else let labels = splitOn 46 host in
        if length labels < 2 then False
        else if \<not> list_all isDnsLabel labels then False
        else if list_all isDigit (last labels) then False
        else if host = js ''localhost'' \<or> endsWith host (js ''.localhost'') then False
        else if endsWith host (js ''.local'') then False
        else if host = js ''home.arpa'' \<or> endsWith host (js ''.home.arpa'') then False
        else True)"

text \<open>The URL parser of the platform, with the port the record of the host guard leaves out.\<close>

record portUrl = parsedUrl +
  urlPort :: jsstr

definition whatwgHost :: "(jsstr \<Rightarrow> portUrl option) \<Rightarrow> jsstr \<Rightarrow> jsstr option" where
  "whatwgHost parseUrl authority =
     (if authority = [] then None
      else case parseUrl (js ''https://'' @ authority @ js ''/'') of
        None \<Rightarrow> None
      | Some u \<Rightarrow> if urlUsername u \<noteq> [] \<or> urlPassword u \<noteq> [] \<or> urlPort u \<noteq> [] then None else Some (urlHostname u))"

subsection \<open>Handles and numbers\<close>

definition B64URL :: jsstr where
  "B64URL = js ''ABCDEFGHIJKLMNOPQRSTUVWXYZabcdefghijklmnopqrstuvwxyz0123456789-_''"

definition isHandleUnit :: "16 word \<Rightarrow> bool" where
  "isHandleUnit u \<longleftrightarrow> isAlnum u \<or> u = 95 \<or> u = 45"

definition isValidHandle :: "jsstr \<Rightarrow> bool" where
  "isValidHandle ident =
     (if \<not> (list_all isHandleUnit ident \<and> 22 \<le> length ident \<and> length ident \<le> 43) then False
      else let rem = length ident mod 4 in
        if rem = 1 then False
        else if rem = 0 then True
        else case indexOf (last ident) B64URL of
          None \<Rightarrow> False
        | Some v \<Rightarrow> v AND (if rem = 2 then 15 else 3) = 0)"

text \<open>\<open>0\<close>, or digits without a leading zero.\<close>

definition isDecimal :: "jsstr \<Rightarrow> bool" where
  "isDecimal s \<longleftrightarrow> s = js ''0'' \<or> (s \<noteq> [] \<and> hd s \<noteq> 48 \<and> list_all isDigit s)"

definition MAX_SAFE_INTEGER :: nat where "MAX_SAFE_INTEGER = 2 ^ 53 - 1"

definition parseEpochSeconds :: "jsstr \<Rightarrow> nat option" where
  "parseEpochSeconds s =
     (if \<not> isDecimal s then None
      else if length s > 16 then None
      else let n = roundNumber (ofDigits s) in if n \<le> MAX_SAFE_INTEGER then Some n else None)"

subsection \<open>DIDs\<close>

fun idChars :: "jsstr \<Rightarrow> bool" where
  "idChars [] = True"
| "idChars (u # s) =
     (if u = 37 then (case s of h # l # r \<Rightarrow> isHexDigit h \<and> isHexDigit l \<and> idChars r | _ \<Rightarrow> False)
      else (isAlnum u \<or> u \<in> {46, 95, 45}) \<and> idChars s)"

definition isDid :: "jsstr \<Rightarrow> bool" where
  "isDid s \<longleftrightarrow> startsWith s (js ''did:'') \<and>
     (case spanTo isLowerAlnum 58 (drop 4 s) of
        None \<Rightarrow> False
      | Some ident \<Rightarrow> list_all idChars (splitOn 58 ident) \<and> last (splitOn 58 ident) \<noteq> [])"

definition scidSrcOf :: "jsstr \<Rightarrow> jsstr option" where
  "scidSrcOf did =
     (if \<not> startsWith did (js ''did:scid:'') then None
      else case indexOf 63 did of
        None \<Rightarrow> None
      | Some q \<Rightarrow>
          let query = hd (splitOn 35 (drop (q + 1) did)) in
          if \<not> startsWith query (js ''src='') then None
          else let src = drop 4 query in if src \<noteq> [] \<and> 38 \<notin> set src then Some src else None)"

definition beforeQuery :: "jsstr \<Rightarrow> jsstr" where
  "beforeQuery s = (case indexOf 63 s of None \<Rightarrow> s | Some q \<Rightarrow> take q s)"

definition isSrcUnit :: "16 word \<Rightarrow> bool" where
  "isSrcUnit u \<longleftrightarrow> isAlnum u \<or> u \<in> {46, 95, 126, 58, 37, 47, 45}"

definition isContactDidSyntax :: "jsstr \<Rightarrow> bool" where
  "isContactDidSyntax s =
     (case scidSrcOf s of
        None \<Rightarrow> isDid s
      | Some src \<Rightarrow> isDid (beforeQuery s) \<and> 35 \<notin> set s \<and> list_all isSrcUnit src)"

definition scidWellFormed :: "jsstr \<Rightarrow> bool" where
  "scidWellFormed did =
     (if \<not> startsWith did (js ''did:scid:'') then False
      else case Option.bind (spanTo isLowerAlnum 58 (drop 9 did)) (spanTo isDigit 58) of
        None \<Rightarrow> False
      | Some rest \<Rightarrow>
          let scid = takeWhile (\<lambda>u. isAlnum u \<or> u \<in> {46, 95, 45}) rest; tl = drop (length scid) rest in
          scid \<noteq> [] \<and> (tl = [] \<or> (startsWith tl (js ''?src='') \<and> drop 5 tl \<noteq> [] \<and> list_all (\<lambda>u. u \<notin> {63, 35, 38}) (drop 5 tl))))"

definition isBase58Unit :: "16 word \<Rightarrow> bool" where
  "isBase58Unit u \<longleftrightarrow> isAlnum u \<and> u \<notin> {48, 79, 73, 108}"

definition didKeyWellFormed :: "jsstr \<Rightarrow> bool" where
  "didKeyWellFormed did \<longleftrightarrow> startsWith did (js ''did:key:z'') \<and> drop 9 did \<noteq> [] \<and> list_all isBase58Unit (drop 9 did)"

subsection \<open>Paths of flows\<close>

definition isVersionSegment :: "jsstr \<Rightarrow> bool" where
  "isVersionSegment seg = (case splitOn 46 seg of [major, minor] \<Rightarrow> isDecimal major \<and> isDecimal minor | _ \<Rightarrow> False)"

definition isPathUnit :: "16 word \<Rightarrow> bool" where
  "isPathUnit u \<longleftrightarrow> isAlnum u \<or> u \<in> {45, 46, 95, 126, 47}"

definition isFlowPath :: "jsstr \<Rightarrow> bool" where
  "isFlowPath path =
     (if \<not> (startsWith path (js ''/'') \<and> length path > 1 \<and> list_all isPathUnit path) then False
      else let segments = splitOn 47 (drop 1 path) in
        if list_ex (\<lambda>seg. seg \<in> {[], js ''.'', js ''..''}) segments then False
        else isVersionSegment (last segments))"

definition resolveFlowType :: "jsstr \<Rightarrow> jsstr \<Rightarrow> jsstr option" where
  "resolveFlowType raw host =
     (if startsWith raw (js ''/'') then (if isFlowPath raw then Some (js ''https://'' @ asciiLower host @ raw) else None)
      else if \<not> startsWith raw (js ''https://'') then None
      else let rest = drop 8 raw in
        case indexOf 47 rest of
          None \<Rightarrow> None
        | Some slash \<Rightarrow>
            if \<not> meetsHostRules (take slash rest) then None
            else if isFlowPath (drop slash rest) then Some raw else None)"

subsection \<open>Handles are encodings\<close>

lemma handle_unit: "isHandleUnit u \<longleftrightarrow> base64urlAlphabet (unat u)"
proof -
  have w: "u = 95 \<longleftrightarrow> unat u = 95" "u = 45 \<longleftrightarrow> unat u = 45" by (simp_all add: word_unat_eq_iff)
  show ?thesis unfolding isHandleUnit_def letters base64urlAlphabet_def w by auto
qed

lemma B64URL_units: "map unat B64URL = map (toUrl \<circ> b64Char) [0..<64]"
  by code_simp

lemma indexOf_in_nth: "distinct xs \<Longrightarrow> indexOf c xs = Some i \<longleftrightarrow> i < length xs \<and> xs ! i = c"
proof (induction xs arbitrary: i)
  case (Cons x xs)
  show ?case
  proof (cases "x = c")
    case True
    then have "i < length (x # xs) \<and> (x # xs) ! i = c \<longleftrightarrow> i = 0"
      using Cons.prems by (cases i) (auto simp: in_set_conv_nth)
    with True show ?thesis by auto
  next
    case False
    then show ?thesis using Cons by (cases i) simp_all
  qed
qed simp

lemma b64_symbol_inj: "v < 64 \<Longrightarrow> w < 64 \<Longrightarrow> toUrl (b64Char v) = toUrl (b64Char w) \<Longrightarrow> v = w"
  by (metis b64Char_url b64Value_char option.inject)

lemma B64URL_index: "indexOf u B64URL = Some v \<longleftrightarrow> v < 64 \<and> unat u = toUrl (b64Char v)"
proof -
  have len: "length B64URL = 64" by (simp add: B64URL_def js_def)
  have nth: "unat (B64URL ! i) = toUrl (b64Char i)" if "i < 64" for i
    using arg_cong [OF B64URL_units, of "\<lambda>xs. xs ! i"] that len by simp
  have "distinct (map unat B64URL)"
    unfolding B64URL_units using b64_symbol_inj by (auto simp: distinct_map inj_on_def)
  then have "distinct B64URL" by (simp add: distinct_map)
  then show ?thesis using nth len by (auto simp: indexOf_in_nth word_unat_eq_iff)
qed

lemma alphabet_symbol:
  assumes "base64urlAlphabet c"
  obtains v where "v < 64" "c = toUrl (b64Char v)"
proof -
  consider "65 \<le> c" "c \<le> 90" | "97 \<le> c" "c \<le> 122" | "48 \<le> c" "c \<le> 57" | "c = 45" | "c = 95"
    using assms by (auto simp: base64urlAlphabet_def)
  then show thesis
  proof cases
    case 1
    then have "c - 65 < 26" by linarith
    with 1 show thesis by (intro that [of "c - 65"]) (simp_all add: b64Char_def toUrl_def)
  next
    case 2
    then have "c - 71 < 52" "\<not> c - 71 < 26" by linarith+
    with 2 show thesis by (intro that [of "c - 71"]) (simp_all add: b64Char_def toUrl_def)
  next
    case 3
    then show thesis by (intro that [of "c + 4"]) (simp_all add: b64Char_def toUrl_def)
  next
    case 4
    then show thesis by (intro that [of 62]) (simp_all add: b64Char_def toUrl_def)
  next
    case 5
    then show thesis by (intro that [of 63]) (simp_all add: b64Char_def toUrl_def)
  qed
qed

text \<open>The bits of the last symbol that no byte uses.\<close>

definition noStrayBits :: "nat list \<Rightarrow> bool" where
  "noStrayBits vs \<longleftrightarrow> (length vs mod 4 \<noteq> 2 \<or> last vs mod 16 = 0) \<and> (length vs mod 4 \<noteq> 3 \<or> last vs mod 4 = 0)"

lemma noStrayBits_step: "noStrayBits (a # b # c # d # r) \<longleftrightarrow> r = [] \<or> noStrayBits r"
  by (cases "r = []") (simp_all add: noStrayBits_def)

lemma sextets_strayless: "noStrayBits (sextets bs)"
proof (induction bs rule: sextets.induct)
  case (1 a b c r)
  then show ?case by (simp add: noStrayBits_step)
qed (simp_all add: noStrayBits_def)

lemma sextets_cover:
  "list_all (\<lambda>v. v < 64) vs \<Longrightarrow> length vs mod 4 \<noteq> 1 \<Longrightarrow> noStrayBits vs \<Longrightarrow>
   \<exists>bs. list_all (\<lambda>b. b < 256) bs \<and> sextets bs = vs"
proof (induction vs rule: fromSextets.induct)
  case (1 a b c d r)
  have "r = [] \<or> noStrayBits r" using "1.prems"(3) by (simp only: noStrayBits_step)
  then have "noStrayBits r" by (auto simp: noStrayBits_def)
  moreover have "length r mod 4 \<noteq> 1" using "1.prems"(2) by simp
  ultimately obtain bs where bs: "list_all (\<lambda>b. b < 256) bs" "sextets bs = r" using "1.IH" "1.prems"(1) by auto
  have lt: "a < 64" "b < 64" "c < 64" "d < 64" using "1.prems"(1) by simp_all
  let ?x = "a * 4 + b div 16" and ?y = "b mod 16 * 16 + c div 4" and ?z = "c mod 4 * 64 + d"
  have q: "b div 16 < 4" "c div 4 < 16" "c mod 4 < 4" "b mod 16 < 16" using lt by auto
  have "b div 16 * 16 + b mod 16 = b" "c div 4 * 4 + c mod 4 = c" by simp_all
  then have "sextets (?x # ?y # ?z # bs) = a # b # c # d # r"
    unfolding sextets.simps(1) using split_at [OF q(1), of a] split_at [OF q(2), of "b mod 16"] split_at [OF lt(4), of "c mod 4"] bs(2)
    by (simp del: mod_mult_self1 mod_mult_self2 div_mult_self1 mod_mult_self3 mod_mult_self4)
  moreover have "?x < 256" "?y < 256" "?z < 256" using lt q by linarith+
  ultimately show ?case using bs(1) by (intro exI [of _ "?x # ?y # ?z # bs"]) simp
next
  case (2 a b c)
  then have lt: "a < 64" "b < 64" "c < 64" "c mod 4 = 0" by (simp_all add: noStrayBits_def)
  let ?x = "a * 4 + b div 16" and ?y = "b mod 16 * 16 + c div 4"
  have q: "b div 16 < 4" "c div 4 < 16" "b mod 16 < 16" using lt by auto
  have "b div 16 * 16 + b mod 16 = b" "c div 4 * 4 = c" using lt by auto
  then have "sextets [?x, ?y] = [a, b, c]"
    unfolding sextets.simps using split_at [OF q(1), of a] split_at [OF q(2), of "b mod 16"] by simp
  moreover have "?x < 256" "?y < 256" using lt q by linarith+
  ultimately show ?case by (intro exI [of _ "[?x, ?y]"]) simp
next
  case (3 a b)
  then have lt: "a < 64" "b < 64" "b mod 16 = 0" by (simp_all add: noStrayBits_def)
  then have q: "b div 16 < 4" "b div 16 * 16 = b" by auto
  have "sextets [a * 4 + b div 16] = [a, b]" unfolding sextets.simps using split_at [OF q(1), of a] q(2) by simp
  moreover have "a * 4 + b div 16 < 256" using lt q by linarith
  ultimately show ?case by (intro exI [of _ "[a * 4 + b div 16]"]) simp
qed (auto intro: exI [of _ "[]"])

lemma length_sextets: "length (sextets bs) = (4 * length bs + 2) div 3"
  by (induction bs rule: sextets.induct) simp_all

lemma all_map_ex: "(\<And>x. x \<in> set xs \<Longrightarrow> \<exists>y. P y \<and> f y = x) \<Longrightarrow> \<exists>ys. list_all P ys \<and> map f ys = xs"
proof (induction xs)
  case (Cons x xs)
  from Cons.prems [of x] obtain y where y: "P y" "f y = x" by auto
  from Cons.IH Cons.prems obtain ys where ys: "list_all P ys" "map f ys = xs" by (metis list.set_intros(2))
  have "list_all P (y # ys) \<and> map f (y # ys) = x # xs" using y(1) ys(1) unfolding y(2) [symmetric] ys(2) [symmetric] by simp
  then show ?case by (rule exI)
qed simp

lemma handle_symbols:
  "list_all isHandleUnit ident \<longleftrightarrow> (\<exists>vs. list_all (\<lambda>v. v < 64) vs \<and> map unat ident = map (toUrl \<circ> b64Char) vs)"
proof
  assume h: "list_all isHandleUnit ident"
  have "\<exists>v. v < 64 \<and> (toUrl \<circ> b64Char) v = c" if "c \<in> set (map unat ident)" for c
  proof -
    from that h have "base64urlAlphabet c" by (auto simp: list_all_iff handle_unit)
    then obtain v where "v < 64" "c = toUrl (b64Char v)" by (rule alphabet_symbol)
    then show "\<exists>v. v < 64 \<and> (toUrl \<circ> b64Char) v = c" by auto
  qed
  from all_map_ex [OF this] show "\<exists>vs. list_all (\<lambda>v. v < 64) vs \<and> map unat ident = map (toUrl \<circ> b64Char) vs"
    by metis
next
  assume "\<exists>vs. list_all (\<lambda>v. v < 64) vs \<and> map unat ident = map (toUrl \<circ> b64Char) vs"
  then obtain vs where vs: "list_all (\<lambda>v. v < 64) vs" "map unat ident = map (toUrl \<circ> b64Char) vs" by blast
  then have "\<forall>c \<in> set (map unat ident). base64urlAlphabet c"
    unfolding vs(2) using b64Char_url by (auto simp: list_all_iff)
  then show "list_all isHandleUnit ident" by (simp add: list_all_iff handle_unit)
qed

lemma and_15: "(v :: nat) AND 15 = v mod 16"
  using take_bit_eq_mask [of 4 v] by (simp add: take_bit_eq_mod mask_eq_exp_minus_1)

lemma and_3: "(v :: nat) AND 3 = v mod 4"
  using take_bit_eq_mask [of 2 v] by (simp add: take_bit_eq_mod mask_eq_exp_minus_1)

lemma handle_iff:
  assumes "map unat ident = map (toUrl \<circ> b64Char) vs" and "list_all (\<lambda>v. v < 64) vs"
  shows "isValidHandle ident \<longleftrightarrow> 22 \<le> length vs \<and> length vs \<le> 43 \<and> length vs mod 4 \<noteq> 1 \<and> noStrayBits vs"
proof -
  have len: "length ident = length vs" using arg_cong [OF assms(1), of length] by simp
  have al: "list_all isHandleUnit ident" unfolding handle_symbols using assms by blast
  have l: "indexOf (last ident) B64URL = Some (last vs)" if "vs \<noteq> []"
  proof -
    have "ident \<noteq> []" using len that by auto
    then have "unat (last ident) = toUrl (b64Char (last vs))"
      using arg_cong [OF assms(1), of last] that by (simp add: last_map)
    with assms(2) that show ?thesis by (simp add: B64URL_index list_all_iff)
  qed
  consider "length vs < 22" | "22 \<le> length vs" "length vs mod 4 = 0" | "22 \<le> length vs" "length vs mod 4 = 1"
    | "22 \<le> length vs" "length vs mod 4 = 2" | "22 \<le> length vs" "length vs mod 4 = 3" by linarith
  then show ?thesis
  proof cases
    case 4
    then have "vs \<noteq> []" by auto
    with 4 show ?thesis by (simp add: isValidHandle_def al len l noStrayBits_def and_15 Let_def)
  next
    case 5
    then have "vs \<noteq> []" by auto
    with 5 show ?thesis by (simp add: isValidHandle_def al len l noStrayBits_def and_3 Let_def)
  qed (simp_all add: isValidHandle_def al len noStrayBits_def Let_def)
qed

lemma handle_encodes:
  "isValidHandle ident \<longleftrightarrow> (\<exists>bs. 16 \<le> length bs \<and> length bs \<le> 32 \<and> map unat ident = bytesToBase64url bs)"
proof
  assume h: "isValidHandle ident"
  then have "list_all isHandleUnit ident" by (simp add: isValidHandle_def split: if_splits)
  then obtain vs where vs: "list_all (\<lambda>v. v < 64) vs" "map unat ident = map (toUrl \<circ> b64Char) vs"
    unfolding handle_symbols by blast
  with h have n: "22 \<le> length vs" "length vs \<le> 43" "length vs mod 4 \<noteq> 1" "noStrayBits vs" by (simp_all add: handle_iff)
  from sextets_cover [OF vs(1) n(3,4)] obtain bs where bs: "list_all (\<lambda>b. b < 256) bs" "sextets bs = vs" by blast
  have "map unat (map (word_of_nat :: nat \<Rightarrow> byte) bs) = bs"
    using bs(1) by (auto simp: list_all_iff unat_of_nat intro!: map_idI)
  with bs(2) vs(2) have "map unat ident = bytesToBase64url (map word_of_nat bs)" by (simp add: encode_eq)
  moreover have "16 \<le> length bs \<and> length bs \<le> 32" using n(1,2) bs(2) length_sextets [of bs] by auto
  ultimately show "\<exists>bs. 16 \<le> length bs \<and> length bs \<le> 32 \<and> map unat ident = bytesToBase64url bs"
    by (intro exI [of _ "map word_of_nat bs"]) simp
next
  assume "\<exists>bs. 16 \<le> length bs \<and> length bs \<le> 32 \<and> map unat ident = bytesToBase64url bs"
  then obtain bs :: bytes where bs: "16 \<le> length bs" "length bs \<le> 32" "map unat ident = bytesToBase64url bs" by blast
  let ?vs = "sextets (map unat bs)"
  have "22 \<le> length ?vs" "length ?vs \<le> 43" using bs(1,2) length_sextets [of "map unat bs"] by auto
  with bs(3) show "isValidHandle ident"
    using sextets_lt [OF bytes_lt256 [of bs]] sextets_strayless length_sextets_mod by (simp add: handle_iff encode_eq)
qed

subsection \<open>Expiry numbers\<close>

lemma bitLength_ge: "2 ^ k \<le> n \<Longrightarrow> k < bitLength n"
proof (induction k arbitrary: n)
  case 0
  then show ?case by (simp add: bitLength.simps [of n])
next
  case (Suc k)
  then have k: "2 ^ k \<le> n div 2" by simp
  then have "n \<noteq> 0" by (intro notI) simp
  with Suc.IH [OF k] show ?case by (simp add: bitLength.simps [of n])
qed

lemma bitLength_exp: "n \<noteq> 0 \<Longrightarrow> 2 ^ (bitLength n - 1) \<le> n"
proof (induction n rule: bitLength.induct)
  case (1 n)
  show ?case
  proof (cases "n div 2 = 0")
    case True
    then have "bitLength n = 1" using "1.prems" by (simp add: bitLength.simps)
    with "1.prems" show ?thesis by simp
  next
    case False
    then have b: "bitLength (n div 2) \<noteq> 0" by (simp add: bitLength.simps [of "n div 2"])
    have "2 ^ (bitLength (n div 2) - 1) \<le> n div 2" using 1 False by simp
    then have "2 ^ bitLength (n div 2) \<le> n" using b
      by (cases "bitLength (n div 2)") simp_all
    with "1.prems" show ?thesis by (simp add: bitLength.simps [of n])
  qed
qed

lemma roundNumber_big:
  assumes "2 ^ 53 \<le> n" shows "2 ^ 53 \<le> roundNumber n"
proof -
  define k where "k = bitLength n - 53"
  have l: "53 < bitLength n" using bitLength_ge [OF assms] .
  have "2 ^ 52 * 2 ^ k = (2 :: nat) ^ (bitLength n - 1)" unfolding power_add [symmetric] k_def using l by (intro arg_cong [of _ _ "\<lambda>i. 2 ^ i"]) simp
  also have "\<dots> \<le> n" using assms by (intro bitLength_exp) auto
  finally have "2 ^ 52 \<le> n div 2 ^ k" by (simp add: less_eq_div_iff_mult_less_eq)
  then have "2 ^ 52 * 2 ^ k \<le> n div 2 ^ k * 2 ^ k" by (rule mult_right_mono) simp
  moreover have "n div 2 ^ k * 2 ^ k \<le> roundNumber n" by (simp add: roundNumber_def Let_def k_def)
  moreover have "(2 :: nat) ^ 53 \<le> 2 ^ 52 * 2 ^ k"
  proof -
    have "(2 :: nat) ^ 1 \<le> 2 ^ k" using l by (intro power_increasing) (simp_all add: k_def)
    then show ?thesis by simp
  qed
  ultimately show ?thesis by linarith
qed

lemma epoch_iff:
  "parseEpochSeconds s = Some n \<longleftrightarrow> isDecimal s \<and> length s \<le> 16 \<and> ofDigits s = n \<and> n < 2 ^ 53"
proof (cases "ofDigits s < 2 ^ 53")
  case True
  then show ?thesis by (auto simp: parseEpochSeconds_def roundNumber_exact MAX_SAFE_INTEGER_def Let_def)
next
  case False
  then have "2 ^ 53 \<le> roundNumber (ofDigits s)" by (intro roundNumber_big) simp
  with False show ?thesis by (auto simp: parseEpochSeconds_def MAX_SAFE_INTEGER_def Let_def)
qed

subsection \<open>Reading back what was written\<close>

definition asciiText :: "jsstr \<Rightarrow> bool" where
  "asciiText s \<longleftrightarrow> list_all (\<lambda>u. unat u < 128) s"

lemma ascii_js: "asciiText s \<Longrightarrow> s = js (map (\<lambda>u. char_of (unat u)) s) \<and> list_all (\<lambda>c. of_char c < (128::nat)) (map (\<lambda>u. char_of (unat u)) s)"
  by (induction s) (auto simp: asciiText_def js_def)

lemma ascii_encode: "asciiText s \<Longrightarrow> textEncode s = map ucast s"
proof -
  assume a: "asciiText s"
  let ?cs = "map (\<lambda>u. char_of (unat u)) s :: char list"
  from ascii_js [OF a] have s: "js ?cs = s" and c: "list_all (\<lambda>c. of_char c < (128::nat)) ?cs" by simp_all
  have "textEncode s = map (\<lambda>c. word_of_nat (of_char c)) ?cs" using textEncode_ascii [OF c] s by simp
  also have "\<dots> = map ucast s"
    using a by (auto simp: asciiText_def list_all_iff)
  finally show ?thesis .
qed

lemma ascii_decode: "asciiText s \<Longrightarrow> textDecode (map ucast s) = s"
  using ascii_js [of s] plainText_ascii textDecode_textEncode textDecode_valid ascii_encode by metis

text \<open>What a producer writes for a value: only the percent sign has to be escaped in a DID.\<close>

fun escapePercent :: "jsstr \<Rightarrow> jsstr" where
  "escapePercent [] = []"
| "escapePercent (u # s) = (if u = 37 then js ''%25'' else [u]) @ escapePercent s"

abbreviation ascii8 :: "16 word \<Rightarrow> byte" where
  "ascii8 u \<equiv> ucast u"

lemma ascii8_percent: "unat u < 128 \<Longrightarrow> ascii8 u = 0x25 \<longleftrightarrow> u = 37"
  by (simp add: word_unat_eq_iff unsigned_ucast_eq take_bit_eq_mod)

lemma unescape_other: "b \<noteq> 0x25 \<Longrightarrow> percentUnescape (b # r) = b # percentUnescape r"
  by (cases r; cases "tl r") (auto simp: percentUnescape.simps(1))

lemma unescape_percent: "percentUnescape (0x25 # 0x32 # 0x35 # r) = 0x25 # percentUnescape r"
  by (simp add: percentUnescape.simps(1) isHexByte_def hexVal_def)

declare percentUnescape.simps(1) [simp del]

lemma escape_ascii: "asciiText s \<Longrightarrow> asciiText (escapePercent s)"
  by (induction s) (auto simp: asciiText_def js_def)

lemma unescape_escape: "asciiText s \<Longrightarrow> percentUnescape (map ascii8 (escapePercent s)) = map ascii8 s"
proof (induction s)
  case (Cons u s)
  then have a: "unat u < 128" "asciiText s" by (simp_all add: asciiText_def)
  show ?case
  proof (cases "u = 37")
    case True
    with Cons.IH [OF a(2)] show ?thesis by (simp add: js_def unescape_percent)
  next
    case False
    with a(1) have "ascii8 u \<noteq> 0x25" by (simp add: ascii8_percent)
    with False Cons.IH [OF a(2)] show ?thesis by (simp add: unescape_other)
  qed
qed simp

lemma percent_roundtrip: "asciiText s \<Longrightarrow> percentDecode (escapePercent s) = s"
  by (simp add: percentDecode_def ascii_encode escape_ascii unescape_escape ascii_decode)

lemma form_roundtrip:
  assumes "asciiText s" and "43 \<notin> set s" shows "formDecode (escapePercent s) = s"
proof -
  have "43 \<notin> set (escapePercent s)" using assms(2) by (induction s) (auto simp: js_def)
  then have "map (\<lambda>u. if u = 43 then 32 else u) (escapePercent s) = escapePercent s" by (auto intro: map_idI)
  with percent_roundtrip [OF assms(1)] show ?thesis by (simp add: formDecode_def)
qed

lemma form_plain: "asciiText s \<Longrightarrow> 43 \<notin> set s \<Longrightarrow> 37 \<notin> set s \<Longrightarrow> formDecode s = s"
proof -
  assume "asciiText s" "43 \<notin> set s" "37 \<notin> set s"
  moreover from this(3) have "escapePercent s = s" by (induction s) auto
  ultimately show ?thesis using form_roundtrip by metis
qed

lemma indexOf_append: "c \<notin> set p \<Longrightarrow> indexOf c (p @ c # s) = Some (length p)"
  by (induction p) auto

lemma readPair_plain:
  assumes "asciiText name" and "61 \<notin> set name" and "43 \<notin> set name" and "37 \<notin> set name"
  shows "readPair (name @ 61 # raw) = \<lparr>pairName = name, pairValue = formDecode raw, rawValue = raw\<rparr>"
  using assms by (simp add: readPair_def indexOf_append form_plain Let_def)

text \<open>A byte order mark before a name is dropped by the decoder: the field is read as if it were not there.\<close>

lemma bom_before_name: "formDecode (js ''%EF%BB%BF_id'') = js ''_id''"
proof -
  have a: "asciiText (js ''%EF%BB%BF_id'')" by (simp add: asciiText_def js_def)
  have p: "map (\<lambda>u. if u = 43 then 32 else u) (js ''%EF%BB%BF_id'') = js ''%EF%BB%BF_id''" by (simp add: js_def)
  have e: "textEncode (js ''%EF%BB%BF_id'') = [0x25, 0x45, 0x46, 0x25, 0x42, 0x42, 0x25, 0x42, 0x46, 0x5F, 0x69, 0x64]"
    unfolding ascii_encode [OF a] by (simp add: js_def)
  have "percentUnescape [0x25, 0x45, 0x46, 0x25, 0x42, 0x42, 0x25, 0x42, 0x46, 0x5F, 0x69, 0x64] = [0xEF, 0xBB, 0xBF, 0x5F, 0x69, 0x64]"
    by (simp add: percentUnescape.simps(1) isHexByte_def hexVal_def)
  moreover have "textDecode [0xEF, 0xBB, 0xBF, 0x5F, 0x69, 0x64] = js ''_id''"
    by (simp add: textDecode_def stripBom_def utf8Lossy.simps continuing_def contNeeded_def unitsOf_def js_def Let_def)
  ultimately show ?thesis by (simp add: formDecode_def percentDecode_def p e)
qed

subsection \<open>Properties\<close>

text \<open>C35: A handle has one spelling: the handles a reader takes are exactly the unpadded base64url encodings of 16 to
  32 bytes.\<close>

theorem handle_one_spelling:
  "isValidHandle ident \<longleftrightarrow> (\<exists>bs. 16 \<le> length bs \<and> length bs \<le> 32 \<and> map unat ident = bytesToBase64url bs)"
  by (rule handle_encodes)

end
