(* ===== verification/Trigger_Link.thy ===== *)
theory Trigger_Link
  imports Link_Text
begin

text \<open>
  Trigger links, \<open>packages/core/src/links/trigger-link.ts\<close>: a text shown as a QR code is read as a link, with the
  order of checks and the reasons the specification fixes. The reader's clock, the flows it implements, its
  contact methods and the URL parser are arguments, as in the source.
\<close>

subsection \<open>Reasons and outcomes\<close>

datatype linkReason =
    TooLong | NotOurs | QueryForm | InsecureScheme | BadGrammar | BadAuthority | RepeatedParam | MissingFrom | BadFrom
  | UnsupportedVid | BadId | BadExp | BadType | WrongHost | UnknownFlow | UnsupportedVersion | FromNotAllowed | MissingExp
  | ExpiredLink | DidDocumentUnverified | NoCommonTransport | Untyped | WrongOrigin | DomainNotLinked | NoPortalService

datatype linkOutcome = Update | ExpiredOutcome | Unreachable | PassOn | InvalidLink

fun outcomeOf :: "linkReason \<Rightarrow> linkOutcome" where
  "outcomeOf UnsupportedVid = Update"
| "outcomeOf UnknownFlow = Update"
| "outcomeOf UnsupportedVersion = Update"
| "outcomeOf ExpiredLink = ExpiredOutcome"
| "outcomeOf NoCommonTransport = Unreachable"
| "outcomeOf NotOurs = PassOn"
| "outcomeOf _ = InvalidLink"

fun triggerLinkMessage :: "linkOutcome \<Rightarrow> jsstr option" where
  "triggerLinkMessage PassOn = None"
| "triggerLinkMessage Update = Some (js ''This code needs a newer version of the app.'')"
| "triggerLinkMessage ExpiredOutcome = Some (js ''This code has expired. Get a new one.'')"
| "triggerLinkMessage Unreachable = Some (js ''This service can'' @ js [CHR 0x27] @ js ''t be reached from your wallet.'')"
| "triggerLinkMessage InvalidLink = Some (js ''This code can'' @ js [CHR 0x27] @ js ''t be used.'')"

subsection \<open>Contacts\<close>

datatype contactRoute = HostNamed | DomainLinked

record linkContact =
  contactKind :: jsstr
  contactValue :: jsstr

record contactPolicy =
  polKind :: jsstr
  polRoute :: "contactRoute option"
  polListsServices :: bool
  polVerified :: bool
  polWellFormed :: "(jsstr \<Rightarrow> bool) option"
  polSupports :: "(jsstr \<Rightarrow> bool) option"
  polHostPath :: "(jsstr \<Rightarrow> jsstr list option) option"

type_synonym contactTable = "jsstr \<Rightarrow> contactPolicy option"

definition decodeSegments :: "jsstr list \<Rightarrow> jsstr list option" where
  "decodeSegments segments =
     (if segments = [] then None
      else Some (map (\<lambda>seg. case decodeURIComponent seg of Some d \<Rightarrow> d | None \<Rightarrow> seg) segments))"

definition webvhWellFormed :: "jsstr \<Rightarrow> bool" where
  "webvhWellFormed did = (let parts = splitOn 58 did in length parts \<ge> 4 \<and> parts ! 2 \<noteq> [] \<and> parts ! 3 \<noteq> [])"

definition WEBVH_CONTACT_POLICY :: contactPolicy where
  "WEBVH_CONTACT_POLICY = \<lparr>polKind = js ''did:webvh'', polRoute = Some HostNamed, polListsServices = True, polVerified = True,
     polWellFormed = Some webvhWellFormed, polSupports = None,
     polHostPath = Some (\<lambda>did. decodeSegments (drop 3 (splitOn 58 did)))\<rparr>"

definition WEB_CONTACT_POLICY :: contactPolicy where
  "WEB_CONTACT_POLICY = \<lparr>polKind = js ''did:web'', polRoute = Some HostNamed, polListsServices = True, polVerified = True,
     polWellFormed = None, polSupports = None, polHostPath = Some (\<lambda>did. decodeSegments (drop 2 (splitOn 58 did)))\<rparr>"

definition stripScheme :: "jsstr \<Rightarrow> jsstr" where
  "stripScheme s = (if startsWith s (js ''https://'') then drop 8 s else if startsWith s (js ''http://'') then drop 7 s else s)"

definition scidHostPath :: "jsstr \<Rightarrow> jsstr list option" where
  "scidHostPath did =
     (case scidSrcOf did of
        None \<Rightarrow> None
      | Some src \<Rightarrow>
          let stripped = rev (dropWhile (\<lambda>u. u = 47) (rev (stripScheme src))); segments = splitOn 47 stripped in
          if [] \<in> set segments then None else decodeSegments segments)"

definition SCID_CONTACT_POLICY :: contactPolicy where
  "SCID_CONTACT_POLICY = \<lparr>polKind = js ''did:scid'', polRoute = Some HostNamed, polListsServices = True, polVerified = True,
     polWellFormed = Some scidWellFormed, polSupports = Some (\<lambda>did. startsWith did (js ''did:scid:vh:1:'')),
     polHostPath = Some scidHostPath\<rparr>"

definition KEY_CONTACT_POLICY :: contactPolicy where
  "KEY_CONTACT_POLICY = \<lparr>polKind = js ''did:key'', polRoute = None, polListsServices = False, polVerified = True,
     polWellFormed = Some didKeyWellFormed, polSupports = None, polHostPath = None\<rparr>"

definition PEER_CONTACT_POLICY :: contactPolicy where
  "PEER_CONTACT_POLICY = \<lparr>polKind = js ''did:peer'', polRoute = None, polListsServices = True, polVerified = True,
     polWellFormed = None, polSupports = None, polHostPath = None\<rparr>"

definition BUILTIN_CONTACT_POLICIES :: "contactPolicy list" where
  "BUILTIN_CONTACT_POLICIES =
     [WEBVH_CONTACT_POLICY, WEB_CONTACT_POLICY, SCID_CONTACT_POLICY, KEY_CONTACT_POLICY, PEER_CONTACT_POLICY]"

text \<open>A later policy of a kind replaces an earlier one.\<close>

definition contactMethodTable :: "contactPolicy list \<Rightarrow> contactTable" where
  "contactMethodTable policies kind = find (\<lambda>p. polKind p = kind) (rev policies)"

definition DEFAULT_CONTACT_METHODS :: contactTable where
  "DEFAULT_CONTACT_METHODS = contactMethodTable BUILTIN_CONTACT_POLICIES"

definition contactIdentity :: "linkContact \<Rightarrow> jsstr" where
  "contactIdentity contact =
     (if scidSrcOf (contactValue contact) = None then contactValue contact else beforeQuery (contactValue contact))"

definition contactRouteOf :: "linkContact \<Rightarrow> contactTable \<Rightarrow> contactRoute option" where
  "contactRouteOf contact methods =
     (case methods (contactKind contact) of
        None \<Rightarrow> None
      | Some p \<Rightarrow>
          if polRoute p = None \<or> \<not> polListsServices p \<or> \<not> polVerified p then None
          else if polRoute p = Some HostNamed \<and> (case polHostPath p of Some f \<Rightarrow> f (contactValue contact) = None | None \<Rightarrow> False)
            then None
          else polRoute p)"

definition isHostNamedServiceContact :: "linkContact \<Rightarrow> contactTable \<Rightarrow> bool" where
  "isHostNamedServiceContact contact methods \<longleftrightarrow> contactRouteOf contact methods = Some HostNamed"

definition isServiceContact :: "linkContact \<Rightarrow> contactTable \<Rightarrow> bool" where
  "isServiceContact contact methods \<longleftrightarrow> contactRouteOf contact methods \<noteq> None"

definition contactDomainLabel :: "linkContact \<Rightarrow> contactTable \<Rightarrow> jsstr option" where
  "contactDomainLabel contact methods =
     (case Option.bind (methods (contactKind contact)) (\<lambda>p. Option.bind (polHostPath p) (\<lambda>f. f (contactValue contact))) of
        Some (seg # segs) \<Rightarrow> Some (joinWith (js ''/'') (seg # segs))
      | _ \<Rightarrow> None)"

text \<open>Whether the text holds \<open>/@\<close>.\<close>

fun hasAgentMark :: "jsstr \<Rightarrow> bool" where
  "hasAgentMark (a # b # r) \<longleftrightarrow> (a = 47 \<and> b = 64) \<or> hasAgentMark (b # r)"
| "hasAgentMark _ \<longleftrightarrow> False"

definition classifyContact :: "jsstr \<Rightarrow> contactTable \<Rightarrow> linkReason + linkContact" where
  "classifyContact s methods =
     (if s = [] then Inl BadFrom
      else if hasAgentMark s then Inl UnsupportedVid
      else if startsWith s (js ''did:'') then
        throwIf (\<not> isContactDidSyntax s) BadFrom
        (let kind = js ''did:'' @ takeWhile (\<lambda>u. u \<noteq> 58) (drop 4 s) in
         case methods kind of
           None \<Rightarrow> Inl UnsupportedVid
         | Some policy \<Rightarrow>
             throwIf (polRoute policy \<noteq> None \<and> \<not> polVerified policy) UnsupportedVid
             (throwIf (case polWellFormed policy of Some f \<Rightarrow> \<not> f s | None \<Rightarrow> False) BadFrom
             (throwIf (case polSupports policy of Some f \<Rightarrow> \<not> f s | None \<Rightarrow> False) UnsupportedVid
             (Inr \<lparr>contactKind = kind, contactValue = s\<rparr>))))
      else Inl UnsupportedVid)"

subsection \<open>Flows\<close>

record flowSpec =
  flowName :: jsstr
  flowBase :: jsstr
  flowMajor :: nat
  flowMinors :: "nat list"
  flowDraft :: bool
  flowRequiresExp :: bool
  flowAllows :: "linkContact \<Rightarrow> contactTable \<Rightarrow> bool"

definition FLOW_REGISTRY_BASE :: jsstr where
  "FLOW_REGISTRY_BASE = js ''https://link.trustoverip.org/vti/flow/''"

definition SIGN_IN_FLOW :: flowSpec where
  "SIGN_IN_FLOW = \<lparr>flowName = js ''sign-in'', flowBase = FLOW_REGISTRY_BASE @ js ''sign-in'', flowMajor = 0, flowMinors = [1],
     flowDraft = True, flowRequiresExp = True, flowAllows = isServiceContact\<rparr>"

definition READER_FLOWS :: "flowSpec list" where
  "READER_FLOWS = [SIGN_IN_FLOW]"

record placedFlow =
  placedSpec :: flowSpec
  placedUri :: jsstr
  placedMajor :: jsInteger
  placedMinor :: jsInteger

definition pathOf :: "jsstr \<Rightarrow> jsstr" where
  "pathOf absolute =
     (let afterScheme = (if asciiLower (take 8 absolute) = js ''https://'' then drop 8 absolute else absolute) in
      case indexOf 47 afterScheme of None \<Rightarrow> [] | Some slash \<Rightarrow> drop slash afterScheme)"

text \<open>\<open>minor >= Math.min(...minors)\<close>; of no numbers the minimum is infinite.\<close>

definition minorAccepted :: "flowSpec \<Rightarrow> jsInteger \<Rightarrow> bool" where
  "minorAccepted spec minor =
     (if flowDraft spec then (case minor of Whole m \<Rightarrow> m \<in> int ` set (flowMinors spec) | _ \<Rightarrow> False)
      else case minor of
        Whole m \<Rightarrow> list_ex (\<lambda>k. int k \<le> m) (flowMinors spec)
      | Infinite \<Rightarrow> True
      | NaN \<Rightarrow> False)"

definition placeFlow :: "jsstr \<Rightarrow> flowSpec list \<Rightarrow> linkReason + placedFlow" where
  "placeFlow uri flows =
     (let lastSlash = (case lastIndexOf 47 uri of Some i \<Rightarrow> i | None \<Rightarrow> 0);
          base = take lastSlash uri;
          parts = splitOn 46 (drop (lastSlash + 1) uri);
          major = numberOf False (ofDigits (parts ! 0));
          minor = numberOf False (ofDigits (parts ! 1))
      in case find (\<lambda>f. flowBase f = base) flows of
           None \<Rightarrow> Inl (if list_ex (\<lambda>f. pathOf (flowBase f) = pathOf base) flows then WrongHost else UnknownFlow)
         | Some spec \<Rightarrow>
             throwIf (major \<noteq> Whole (int (flowMajor spec))) UnsupportedVersion
             (throwIf (\<not> minorAccepted spec minor) UnsupportedVersion
             (Inr \<lparr>placedSpec = spec, placedUri = uri, placedMajor = major, placedMinor = minor\<rparr>)))"

subsection \<open>The parser\<close>

record parsedLink =
  linkScheme :: jsstr
  linkHost :: jsstr
  linkFrom :: linkContact
  linkId :: jsstr
  linkExp :: "nat option"
  linkFlow :: "placedFlow option"

record linkReader =
  readerNow :: int
  readerFlows :: "flowSpec list"
  readerAliases :: "jsstr list"
  readerMethods :: contactTable
  readerUrl :: "jsstr \<Rightarrow> portUrl option"

datatype linkRefusal = LinkRefusal linkReason "jsstr option"

abbreviation refuse :: "linkReason \<Rightarrow> linkRefusal" where
  "refuse r \<equiv> LinkRefusal r None"

definition RESERVED :: "jsstr list" where
  "RESERVED = [js ''_from'', js ''_id'', js ''_exp'', js ''_type'']"

definition MAX_TRIGGER_LINK_CODE_POINTS :: nat where "MAX_TRIGGER_LINK_CODE_POINTS = 1536"
definition EXPIRY_ALLOWANCE_SECONDS :: int where "EXPIRY_ALLOWANCE_SECONDS = 60"

definition isAsciiSpace :: "16 word \<Rightarrow> bool" where
  "isAsciiSpace u \<longleftrightarrow> u \<in> {9, 10, 12, 13, 32}"

definition trimAsciiWhitespace :: "jsstr \<Rightarrow> jsstr" where
  "trimAsciiWhitespace s = rev (dropWhile isAsciiSpace (rev (dropWhile isAsciiSpace s)))"

definition countCodePoints :: "jsstr \<Rightarrow> nat" where
  "countCodePoints s = length (scalars (map unat s))"

definition isSchemeUnit :: "16 word \<Rightarrow> bool" where
  "isSchemeUnit u \<longleftrightarrow> isAlnum u \<or> u \<in> {43, 46, 45}"

text \<open>The scheme as written, when the text begins with one and \<open>://\<close>.\<close>

definition schemeOf :: "jsstr \<Rightarrow> jsstr option" where
  "schemeOf s =
     (let t = takeWhile isSchemeUnit s in
      if t \<noteq> [] \<and> (isLower (hd t) \<or> isUpper (hd t)) \<and> startsWith (drop (length t) s) (js ''://'') then Some t else None)"

definition authorityOf :: "jsstr \<Rightarrow> jsstr" where
  "authorityOf afterScheme = takeWhile (\<lambda>u. u \<notin> {47, 63, 92}) afterScheme"

text \<open>The reserved fields as they are collected: the pairs of the form in order, a second one of a name is refused.\<close>

fun collectFields :: "formPair list \<Rightarrow> (jsstr \<rightharpoonup> formPair) \<Rightarrow> linkReason + (jsstr \<rightharpoonup> formPair)" where
  "collectFields [] found = Inr found"
| "collectFields (p # ps) found =
     (if pairName p \<notin> set RESERVED then collectFields ps found
      else if found (pairName p) \<noteq> None then Inl RepeatedParam
      else collectFields ps (found(pairName p \<mapsto> p)))"

definition readExp :: "formPair option \<Rightarrow> linkReason + nat option" where
  "readExp field =
     (case field of
        None \<Rightarrow> Inr None
      | Some p \<Rightarrow> (case parseEpochSeconds (pairValue p) of None \<Rightarrow> Inl BadExp | Some n \<Rightarrow> Inr (Some n)))"

definition readFlow :: "formPair option \<Rightarrow> jsstr \<Rightarrow> flowSpec list \<Rightarrow> linkReason + placedFlow option" where
  "readFlow field host flows =
     (case field of
        None \<Rightarrow> Inr None
      | Some p \<Rightarrow>
          (case resolveFlowType (rawValue p) host of
             None \<Rightarrow> Inl BadType
           | Some uri \<Rightarrow> bindE (placeFlow uri flows) (\<lambda>f. Inr (Some f))))"

fun because :: "linkReason + 'a \<Rightarrow> linkRefusal + 'a" where
  "because (Inl r) = Inl (refuse r)"
| "because (Inr x) = Inr x"

text \<open>Steps 5 to 11, on a host and the pairs of the fragment.\<close>

definition readFields :: "linkReader \<Rightarrow> jsstr \<Rightarrow> jsstr \<Rightarrow> formPair list \<Rightarrow> linkRefusal + parsedLink" where
  "readFields R scheme host pairs =
     bindE (because (collectFields pairs Map.empty)) (\<lambda>found.
     bindE (because (orThrow (found (js ''_from'')) MissingFrom)) (\<lambda>fromField.
     bindE (because (classifyContact (pairValue fromField) (readerMethods R))) (\<lambda>contact.
     bindE (because (orThrow (found (js ''_id'')) BadId)) (\<lambda>idField.
     throwIf (\<not> isValidHandle (pairValue idField)) (refuse BadId)
     (bindE (because (readExp (found (js ''_exp'')))) (\<lambda>exp.
      bindE (because (readFlow (found (js ''_type'')) host (readerFlows R))) (\<lambda>flow.
      throwIf (case flow of Some f \<Rightarrow> \<not> flowAllows (placedSpec f) contact (readerMethods R) | None \<Rightarrow> False)
        (LinkRefusal FromNotAllowed (Some (contactKind contact)))
      (throwIf (case flow of Some f \<Rightarrow> flowRequiresExp (placedSpec f) \<and> exp = None | None \<Rightarrow> False) (refuse MissingExp)
      (throwIf (case exp of Some n \<Rightarrow> int n + EXPIRY_ALLOWANCE_SECONDS \<le> readerNow R | None \<Rightarrow> False) (refuse ExpiredLink)
      (Inr \<lparr>linkScheme = scheme, linkHost = host, linkFrom = contact, linkId = pairValue idField, linkExp = exp, linkFlow = flow\<rparr>))))))))))"

definition parseTriggerLink :: "linkReader \<Rightarrow> jsstr \<Rightarrow> linkRefusal + parsedLink" where
  "parseTriggerLink R text =
     (let s = trimAsciiWhitespace text in
      throwIf (countCodePoints s > MAX_TRIGGER_LINK_CODE_POINTS) (refuse TooLong)
      (case schemeOf s of
         None \<Rightarrow> Inl (refuse NotOurs)
       | Some written \<Rightarrow>
           let scheme = asciiLower written in
           throwIf (scheme \<noteq> js ''https'' \<and> scheme \<noteq> js ''http'' \<and> scheme \<notin> set (map asciiLower (readerAliases R))) (refuse NotOurs)
           (let beforeHash = takeWhile (\<lambda>u. u \<noteq> 35) s;
                fragment = drop (length beforeHash + 1) s;
                fragmentPairs = parseFormPairs fragment
            in if \<not> list_ex (\<lambda>p. pairName p \<in> set RESERVED) fragmentPairs then
                 (let query = drop 1 (dropWhile (\<lambda>u. u \<noteq> 63) beforeHash) in
                  Inl (refuse (if list_ex (\<lambda>p. pairName p \<in> set RESERVED) (parseFormPairs query) then QueryForm else NotOurs)))
               else
                 throwIf (scheme = js ''http'') (refuse InsecureScheme)
                 (throwIf (list_ex (\<lambda>u. unat u \<le> 0x20 \<or> unat u = 0x7F) s) (refuse BadGrammar)
                 (throwIf (35 \<in> set fragment) (refuse BadGrammar)
                 (let authority = authorityOf (drop (length written + 3) beforeHash) in
                  throwIf (64 \<in> set authority \<or> 58 \<in> set authority) (refuse BadAuthority)
                  (case whatwgHost (readerUrl R) authority of
                     None \<Rightarrow> Inl (refuse BadAuthority)
                   | Some host \<Rightarrow>
                       throwIf (\<not> meetsHostRules host) (refuse BadAuthority) (readFields R scheme host fragmentPairs))))))))"

definition isTriggerLinkText :: "linkReader \<Rightarrow> jsstr \<Rightarrow> bool" where
  "isTriggerLinkText R text =
     (case parseTriggerLink R text of Inr _ \<Rightarrow> True | Inl (LinkRefusal r _) \<Rightarrow> outcomeOf r \<noteq> PassOn)"

subsection \<open>What is accepted\<close>

definition named :: "jsstr \<Rightarrow> formPair list \<Rightarrow> formPair list" where
  "named n pairs = filter (\<lambda>p. pairName p = n) pairs"

lemma named_simps [simp]: "named n [] = []" "named n (p # ps) = (if pairName p = n then p # named n ps else named n ps)"
  by (simp_all add: named_def)

lemma collect_iff:
  "collectFields ps f = Inr g \<longleftrightarrow>
     (\<forall>n \<in> set RESERVED. length (named n ps) + (if f n = None then 0 else 1) \<le> 1) \<and>
     g = (\<lambda>n. if n \<in> set RESERVED \<and> named n ps \<noteq> [] then Some (hd (named n ps)) else f n)"
proof (induction ps arbitrary: f)
  case Nil
  then show ?case by auto
next
  case (Cons p ps)
  let ?n = "pairName p"
  consider (other) "?n \<notin> set RESERVED" | (again) "?n \<in> set RESERVED" "f ?n \<noteq> None" | (first) "?n \<in> set RESERVED" "f ?n = None"
    by blast
  then show ?case
  proof cases
    case other
    then have "named n (p # ps) = named n ps" if "n \<in> set RESERVED" for n using that by auto
    with other Cons.IH [of f] show ?thesis by (auto cong: if_cong conj_cong)
  next
    case again
    then have "\<not> (\<forall>n \<in> set RESERVED. length (named n (p # ps)) + (if f n = None then 0 else 1) \<le> 1)"
      by (intro notI) (drule bspec [of _ _ ?n], auto)
    with again show ?thesis by auto
  next
    case first
    have e: "collectFields (p # ps) f = collectFields ps (f(?n \<mapsto> p))" using first by simp
    have c1: "(\<forall>n \<in> set RESERVED. length (named n ps) + (if (f(?n \<mapsto> p)) n = None then 0 else 1) \<le> 1) \<longleftrightarrow>
        (\<forall>n \<in> set RESERVED. length (named n (p # ps)) + (if f n = None then 0 else 1) \<le> 1)"
      using first by (intro ball_cong) auto
    have c2: "(\<lambda>n. if n \<in> set RESERVED \<and> named n ps \<noteq> [] then Some (hd (named n ps)) else (f(?n \<mapsto> p)) n) =
        (\<lambda>n. if n \<in> set RESERVED \<and> named n (p # ps) \<noteq> [] then Some (hd (named n (p # ps))) else f n)"
      if "\<forall>n \<in> set RESERVED. length (named n (p # ps)) + (if f n = None then 0 else 1) \<le> 1"
    proof
      fix n
      show "(if n \<in> set RESERVED \<and> named n ps \<noteq> [] then Some (hd (named n ps)) else (f(?n \<mapsto> p)) n) =
        (if n \<in> set RESERVED \<and> named n (p # ps) \<noteq> [] then Some (hd (named n (p # ps))) else f n)"
        using that first by (cases "n = ?n") (auto dest: bspec [of _ _ ?n])
    qed
    show ?thesis unfolding e Cons.IH c1 by (rule conj_cong [OF refl]) (simp only: c2)
  qed
qed

text \<open>What the fields of an accepted link say, whatever their order.\<close>

definition theField :: "jsstr \<Rightarrow> formPair list \<Rightarrow> formPair option" where
  "theField n pairs = (case named n pairs of [] \<Rightarrow> None | p # _ \<Rightarrow> Some p)"

definition fieldsSay :: "linkReader \<Rightarrow> jsstr \<Rightarrow> formPair list \<Rightarrow> parsedLink \<Rightarrow> bool" where
  "fieldsSay R host pairs link \<longleftrightarrow>
     (\<forall>n \<in> set RESERVED. length (named n pairs) \<le> 1) \<and>
     (\<exists>p. theField (js ''_from'') pairs = Some p \<and> classifyContact (pairValue p) (readerMethods R) = Inr (linkFrom link)) \<and>
     (\<exists>p. theField (js ''_id'') pairs = Some p \<and> linkId link = pairValue p \<and> isValidHandle (linkId link)) \<and>
     (case theField (js ''_exp'') pairs of
        None \<Rightarrow> linkExp link = None
      | Some p \<Rightarrow> linkExp link \<noteq> None \<and> parseEpochSeconds (pairValue p) = linkExp link) \<and>
     (case theField (js ''_type'') pairs of
        None \<Rightarrow> linkFlow link = None
      | Some p \<Rightarrow> (\<exists>uri f. resolveFlowType (rawValue p) host = Some uri \<and> placeFlow uri (readerFlows R) = Inr f \<and> linkFlow link = Some f)) \<and>
     (case linkFlow link of
        None \<Rightarrow> True
      | Some f \<Rightarrow> flowAllows (placedSpec f) (linkFrom link) (readerMethods R) \<and>
          (\<not> flowRequiresExp (placedSpec f) \<or> linkExp link \<noteq> None)) \<and>
     (case linkExp link of None \<Rightarrow> True | Some n \<Rightarrow> readerNow R < int n + EXPIRY_ALLOWANCE_SECONDS)"

lemma because_Inr [simp]: "because m = Inr x \<longleftrightarrow> m = Inr x"
  by (cases m) auto

lemma reserved_names:
  "js ''_from'' \<in> set RESERVED" "js ''_id'' \<in> set RESERVED" "js ''_exp'' \<in> set RESERVED" "js ''_type'' \<in> set RESERVED"
  "set RESERVED = {js ''_from'', js ''_id'', js ''_exp'', js ''_type''}"
  by (auto simp: RESERVED_def)

lemma readExp_iff: "readExp m = Inr x \<longleftrightarrow> (case m of None \<Rightarrow> x = None | Some p \<Rightarrow> x \<noteq> None \<and> parseEpochSeconds (pairValue p) = x)"
  by (auto simp: readExp_def split: option.splits)

lemma readFlow_iff:
  "readFlow m host flows = Inr x \<longleftrightarrow>
     (case m of None \<Rightarrow> x = None
      | Some p \<Rightarrow> \<exists>uri f. resolveFlowType (rawValue p) host = Some uri \<and> placeFlow uri flows = Inr f \<and> x = Some f)"
  by (auto simp: readFlow_def bindE_Inr split: option.splits)

lemma flow_ok:
  "(case flow of None \<Rightarrow> True | Some f \<Rightarrow> allows f \<and> (\<not> needs f \<or> e \<noteq> None)) \<longleftrightarrow>
     \<not> (case flow of Some f \<Rightarrow> \<not> allows f | None \<Rightarrow> False) \<and> \<not> (case flow of Some f \<Rightarrow> needs f \<and> e = None | None \<Rightarrow> False)"
  by (cases flow) auto

lemma exp_ok:
  "(case e of None \<Rightarrow> True | Some n \<Rightarrow> now < int n + c) \<longleftrightarrow> \<not> (case e of Some n \<Rightarrow> int n + c \<le> now | None \<Rightarrow> False)"
  by (cases e) auto

lemma readFields_iff:
  "readFields R scheme host pairs = Inr link \<longleftrightarrow> linkScheme link = scheme \<and> linkHost link = host \<and> fieldsSay R host pairs link"
proof (cases "\<forall>n \<in> set RESERVED. length (named n pairs) \<le> 1")
  case False
  then have "collectFields pairs Map.empty \<noteq> Inr g" for g by (simp add: collect_iff)
  then have "readFields R scheme host pairs \<noteq> Inr link" by (simp add: readFields_def bindE_Inr)
  with False show ?thesis unfolding fieldsSay_def by blast
next
  case True
  let ?g = "\<lambda>n. if n \<in> set RESERVED \<and> named n pairs \<noteq> [] then Some (hd (named n pairs)) else None"
  from True have g: "collectFields pairs Map.empty = Inr ?g" by (simp add: collect_iff)
  have at: "?g n = theField n pairs" if "n \<in> set RESERVED" for n
    using that by (cases "named n pairs") (simp_all add: theField_def)
  have "readFields R scheme host pairs = Inr link \<longleftrightarrow>
    (\<exists>p contact q exp flow. theField (js ''_from'') pairs = Some p \<and> classifyContact (pairValue p) (readerMethods R) = Inr contact \<and>
       theField (js ''_id'') pairs = Some q \<and> isValidHandle (pairValue q) \<and>
       readExp (theField (js ''_exp'') pairs) = Inr exp \<and> readFlow (theField (js ''_type'') pairs) host (readerFlows R) = Inr flow \<and>
       \<not> (case flow of Some f \<Rightarrow> \<not> flowAllows (placedSpec f) contact (readerMethods R) | None \<Rightarrow> False) \<and>
       \<not> (case flow of Some f \<Rightarrow> flowRequiresExp (placedSpec f) \<and> exp = None | None \<Rightarrow> False) \<and>
       \<not> (case exp of Some n \<Rightarrow> int n + EXPIRY_ALLOWANCE_SECONDS \<le> readerNow R | None \<Rightarrow> False) \<and>
       link = \<lparr>linkScheme = scheme, linkHost = host, linkFrom = contact, linkId = pairValue q, linkExp = exp, linkFlow = flow\<rparr>)"
    unfolding readFields_def g because.simps bindE.simps
      at [OF reserved_names(1)] at [OF reserved_names(2)] at [OF reserved_names(3)] at [OF reserved_names(4)]
    by (simp only: bindE_Inr throwIf_Inr orThrow_Inr because_Inr Inr_Inl_False sum.inject simp_thms) (rule iffI; elim exE conjE; blast)
  also have "\<dots> \<longleftrightarrow> linkScheme link = scheme \<and> linkHost link = host \<and> fieldsSay R host pairs link"
    unfolding fieldsSay_def flow_ok exp_ok readExp_iff [symmetric] readFlow_iff [symmetric] using True
    by (cases link) (auto cong: option.case_cong)
  finally show ?thesis .
qed

text \<open>The parts of a link that is written without anything a reader refuses in its text.\<close>

definition writtenAs :: "jsstr \<Rightarrow> jsstr \<Rightarrow> jsstr \<Rightarrow> jsstr \<Rightarrow> jsstr \<Rightarrow> bool" where
  "writtenAs s written authority path fragment \<longleftrightarrow>
     s = written @ js ''://'' @ authority @ path @ js ''#'' @ fragment \<and>
     written \<noteq> [] \<and> list_all isSchemeUnit written \<and> (isLower (hd written) \<or> isUpper (hd written)) \<and>
     set authority \<inter> {47, 63, 92, 35, 64, 58} = {} \<and>
     35 \<notin> set path \<and> (path = [] \<or> hd path \<in> {47, 63, 92}) \<and> 35 \<notin> set fragment \<and>
     (\<forall>u \<in> set s. 0x20 < unat u \<and> unat u \<noteq> 0x7F) \<and> countCodePoints s \<le> MAX_TRIGGER_LINK_CODE_POINTS"

definition acceptsScheme :: "linkReader \<Rightarrow> jsstr \<Rightarrow> bool" where
  "acceptsScheme R scheme \<longleftrightarrow> scheme \<noteq> js ''http'' \<and> (scheme = js ''https'' \<or> scheme \<in> set (map asciiLower (readerAliases R)))"

lemma schemeUnits: "isSchemeUnit u \<Longrightarrow> u \<noteq> 58 \<and> u \<noteq> 35"
  by (auto simp: isSchemeUnit_def letters)

lemma schemeOf_iff:
  "schemeOf s = Some w \<longleftrightarrow>
     w \<noteq> [] \<and> list_all isSchemeUnit w \<and> (isLower (hd w) \<or> isUpper (hd w)) \<and> (\<exists>r. s = w @ js ''://'' @ r)"
proof
  assume a: "schemeOf s = Some w"
  then have w: "w = takeWhile isSchemeUnit s" "w \<noteq> []" "isLower (hd w) \<or> isUpper (hd w)" "startsWith (drop (length w) s) (js ''://'')"
    by (auto simp: schemeOf_def Let_def split: if_splits)
  then obtain r where "drop (length w) s = js ''://'' @ r" by (auto simp: startsWith_iff)
  moreover have "s = w @ drop (length w) s" unfolding w(1) by (metis dropWhile_eq_drop takeWhile_dropWhile_id)
  ultimately have "s = w @ js ''://'' @ r" by simp
  moreover have "list_all isSchemeUnit w" unfolding w(1) by (auto simp: list_all_iff dest: set_takeWhileD)
  ultimately show "w \<noteq> [] \<and> list_all isSchemeUnit w \<and> (isLower (hd w) \<or> isUpper (hd w)) \<and> (\<exists>r. s = w @ js ''://'' @ r)"
    using w(2,3) by blast
next
  assume a: "w \<noteq> [] \<and> list_all isSchemeUnit w \<and> (isLower (hd w) \<or> isUpper (hd w)) \<and> (\<exists>r. s = w @ js ''://'' @ r)"
  then obtain r where s: "s = w @ js ''://'' @ r" by blast
  have "\<not> isSchemeUnit 58" using schemeUnits by blast
  moreover have "js ''://'' @ r = 58 # js ''//'' @ r" by (simp add: js_def)
  ultimately have "takeWhile isSchemeUnit s = w" unfolding s using a by (simp add: takeWhile_append list_all_iff)
  with a s show "schemeOf s = Some w" by (simp add: schemeOf_def Let_def startsWith_iff)
qed

lemma hash_parts:
  assumes "35 \<notin> set before" and "s = before @ 35 # fragment"
  shows "takeWhile (\<lambda>u. u \<noteq> 35) s = before" and "drop (length before + 1) s = fragment"
proof -
  have "takeWhile (\<lambda>u. u \<noteq> 35) before = before" using assms(1) by (auto simp: takeWhile_eq_all_conv)
  then show "takeWhile (\<lambda>u. u \<noteq> 35) s = before" unfolding assms(2) using assms(1) by (simp add: takeWhile_append)
  show "drop (length before + 1) s = fragment" unfolding assms(2) by simp
qed

lemma authorityOf_parts:
  assumes "set authority \<inter> {47, 63, 92} = {}" and "path = [] \<or> hd path \<in> {47, 63, 92}"
  shows "authorityOf (authority @ path) = authority"
proof -
  have "takeWhile (\<lambda>u. u \<notin> {47, 63, 92}) authority = authority" using assms(1) by (auto simp: takeWhile_eq_all_conv)
  moreover have "takeWhile (\<lambda>u. u \<notin> {47, 63, 92}) path = []" using assms(2) by (cases path) auto
  moreover have "\<forall>u \<in> set authority. u \<notin> {47, 63, 92}" using assms(1) by auto
  ultimately show ?thesis unfolding authorityOf_def by (simp add: takeWhile_append del: insert_iff)
qed

lemma writtenAs_parts:
  assumes "writtenAs s written authority path fragment"
  shows "schemeOf s = Some written"
    and "takeWhile (\<lambda>u. u \<noteq> 35) s = written @ js ''://'' @ authority @ path"
    and "drop (length (written @ js ''://'' @ authority @ path) + 1) s = fragment"
    and "authorityOf (drop (length written + 3) (written @ js ''://'' @ authority @ path)) = authority"
proof -
  let ?before = "written @ js ''://'' @ authority @ path"
  have s: "s = ?before @ 35 # fragment" using assms by (simp add: writtenAs_def js_def)
  have "35 \<notin> set written" using assms schemeUnits by (auto simp: writtenAs_def list_all_iff)
  then have n: "35 \<notin> set ?before" using assms by (auto simp: writtenAs_def js_def)
  show "schemeOf s = Some written" unfolding schemeOf_iff using assms by (auto simp: writtenAs_def)
  show "takeWhile (\<lambda>u. u \<noteq> 35) s = ?before" by (rule hash_parts(1) [OF n s])
  show "drop (length ?before + 1) s = fragment" by (rule hash_parts(2) [OF n s])
  have "drop (length written + 3) ?before = authority @ path" by (simp add: js_def)
  then show "authorityOf (drop (length written + 3) ?before) = authority"
    using assms by (simp add: writtenAs_def authorityOf_parts Int_insert_right split: if_splits)
qed

lemma writtenAs_exists:
  assumes "schemeOf s = Some written" and "35 \<in> set s"
    and "\<not> list_ex (\<lambda>u. unat u \<le> 0x20 \<or> unat u = 0x7F) s" and "countCodePoints s \<le> MAX_TRIGGER_LINK_CODE_POINTS"
  defines "before \<equiv> takeWhile (\<lambda>u. u \<noteq> 35) s"
  defines "fragment \<equiv> drop (length before + 1) s"
  defines "authority \<equiv> authorityOf (drop (length written + 3) before)"
  assumes "35 \<notin> set fragment" and "64 \<notin> set authority" and "58 \<notin> set authority"
  shows "\<exists>path. writtenAs s written authority path fragment"
proof -
  obtain r where w: "written \<noteq> []" "list_all isSchemeUnit written" "isLower (hd written) \<or> isUpper (hd written)" "s = written @ js ''://'' @ r"
    using assms(1) unfolding schemeOf_iff by blast
  have hw: "35 \<notin> set (written @ js ''://'')" using w(2) schemeUnits by (auto simp: list_all_iff js_def)
  define ap where "ap = takeWhile (\<lambda>u. u \<noteq> 35) r"
  define path where "path = dropWhile (\<lambda>u. u \<notin> {47, 63, 92}) ap"
  have b: "before = written @ js ''://'' @ ap"
  proof -
    have "takeWhile (\<lambda>u. u \<noteq> 35) ((written @ js ''://'') @ r) = (written @ js ''://'') @ ap"
      unfolding ap_def using hw by (intro takeWhile_append2) auto
    then show ?thesis by (simp add: before_def w(4))
  qed
  have d: "drop (length written + 3) before = ap" unfolding b by (simp add: js_def)
  have a: "authority @ path = ap" by (simp add: authority_def d authorityOf_def path_def)
  have "s = before @ dropWhile (\<lambda>u. u \<noteq> 35) s" by (simp add: before_def)
  moreover obtain f where "dropWhile (\<lambda>u. u \<noteq> 35) s = 35 # f"
  proof (cases "dropWhile (\<lambda>u. u \<noteq> 35) s")
    case Nil
    with assms(2) show thesis by (auto simp: dropWhile_eq_Nil_conv)
  next
    case (Cons x xs)
    with hd_dropWhile [of "\<lambda>u. u \<noteq> 35" s] have "x = 35" by simp
    with Cons that show thesis by simp
  qed
  ultimately have sf: "s = before @ 35 # f" by simp
  have "drop (length before + 1) (before @ 35 # f) = f" by simp
  then have "f = fragment" unfolding fragment_def sf [symmetric] by simp
  with sf b a have s: "s = written @ js ''://'' @ authority @ path @ js ''#'' @ fragment" by (simp add: js_def)
  have "35 \<notin> set ap" unfolding ap_def by (auto dest: set_takeWhileD)
  then have n: "35 \<notin> set authority" "35 \<notin> set path" unfolding a [symmetric] by simp_all
  have "set authority \<inter> {47, 63, 92} = {}" unfolding authority_def authorityOf_def by (auto dest: set_takeWhileD)
  moreover have "path = [] \<or> hd path \<in> {47, 63, 92}" unfolding path_def using hd_dropWhile [of "\<lambda>u. u \<notin> {47, 63, 92}" ap] by blast
  ultimately have "writtenAs s written authority path fragment"
    using w(1-3) s n assms(3,4,8-10) by (simp add: writtenAs_def list_ex_iff not_le)
  then show ?thesis by blast
qed

lemma reserved_needed: "fieldsSay R host pairs link \<Longrightarrow> list_ex (\<lambda>p. pairName p \<in> set RESERVED) pairs"
proof -
  assume "fieldsSay R host pairs link"
  then obtain p where "theField (js ''_from'') pairs = Some p" by (auto simp: fieldsSay_def)
  then have "p \<in> set (named (js ''_from'') pairs)" by (auto simp: theField_def split: list.splits)
  then have "p \<in> set pairs" "pairName p \<in> set RESERVED" using reserved_names(1) by (simp_all add: named_def)
  then show ?thesis unfolding list_ex_iff by blast
qed

lemma parse_iff:
  "parseTriggerLink R text = Inr link \<longleftrightarrow>
     (\<exists>written authority path fragment host. writtenAs (trimAsciiWhitespace text) written authority path fragment \<and>
        acceptsScheme R (asciiLower written) \<and> whatwgHost (readerUrl R) authority = Some host \<and> meetsHostRules host \<and>
        linkScheme link = asciiLower written \<and> linkHost link = host \<and> fieldsSay R host (parseFormPairs fragment) link)"
    (is "?l \<longleftrightarrow> ?r")
proof
  let ?s = "trimAsciiWhitespace text"
  let ?before = "takeWhile (\<lambda>u. u \<noteq> 35) ?s"
  let ?fragment = "drop (length ?before + 1) ?s"
  assume l: ?l
  then obtain written where w: "schemeOf ?s = Some written" "countCodePoints ?s \<le> MAX_TRIGGER_LINK_CODE_POINTS"
    by (auto simp: parseTriggerLink_def Let_def split: option.splits if_splits)
  let ?authority = "authorityOf (drop (length written + 3) ?before)"
  have k: "acceptsScheme R (asciiLower written)" "list_ex (\<lambda>p. pairName p \<in> set RESERVED) (parseFormPairs ?fragment)"
    "\<not> list_ex (\<lambda>u. unat u \<le> 0x20 \<or> unat u = 0x7F) ?s" "35 \<notin> set ?fragment" "64 \<notin> set ?authority" "58 \<notin> set ?authority"
    using l w unfolding parseTriggerLink_def Let_def by (auto simp: acceptsScheme_def split: if_splits)
  from l w obtain host where h: "whatwgHost (readerUrl R) ?authority = Some host" "meetsHostRules host"
    "readFields R (asciiLower written) host (parseFormPairs ?fragment) = Inr link"
    unfolding parseTriggerLink_def Let_def by (auto split: if_splits option.splits)
  have "35 \<in> set ?s"
  proof (rule ccontr)
    assume "35 \<notin> set ?s"
    then have "?before = ?s" by (auto simp: takeWhile_eq_all_conv)
    then have "?fragment = []" by (simp only: drop_eq_Nil)
    with k(2) show False by (simp only: parseFormPairs_def) simp
  qed
  from writtenAs_exists [OF w(1) this k(3) w(2) k(4-6)] obtain path where
    "writtenAs ?s written ?authority path ?fragment" by blast
  with k(1) h show ?r unfolding readFields_iff by blast
next
  let ?s = "trimAsciiWhitespace text"
  assume ?r
  then obtain written authority path fragment host where p: "writtenAs ?s written authority path fragment"
    "acceptsScheme R (asciiLower written)" "whatwgHost (readerUrl R) authority = Some host" "meetsHostRules host"
    "linkScheme link = asciiLower written" "linkHost link = host" "fieldsSay R host (parseFormPairs fragment) link" by blast
  have "readFields R (asciiLower written) host (parseFormPairs fragment) = Inr link" unfolding readFields_iff using p by blast
  moreover have "\<forall>u \<in> set ?s. 0x20 < unat u \<and> unat u \<noteq> 0x7F" "countCodePoints ?s \<le> MAX_TRIGGER_LINK_CODE_POINTS"
    "35 \<notin> set fragment" "64 \<notin> set authority" "58 \<notin> set authority"
    using p(1) unfolding writtenAs_def by blast+
  moreover from this(1) have "\<not> list_ex (\<lambda>u. unat u \<le> 0x20 \<or> unat u = 0x7F) ?s" unfolding list_ex_iff by fastforce
  moreover have "\<not> (asciiLower written \<noteq> js ''https'' \<and> asciiLower written \<noteq> js ''http'' \<and>
      asciiLower written \<notin> set (map asciiLower (readerAliases R)))" "asciiLower written \<noteq> js ''http''"
    using p(2) by (auto simp: acceptsScheme_def)
  ultimately show ?l
    unfolding parseTriggerLink_def Let_def writtenAs_parts(1) [OF p(1)] writtenAs_parts(2) [OF p(1)] option.case
      writtenAs_parts(3) [OF p(1)] writtenAs_parts(4) [OF p(1)] p(3)
    using p(4) reserved_needed [OF p(7)] by (simp only: throwIf.simps if_False simp_thms) simp
qed

subsection \<open>The flow of an accepted link\<close>

lemma lastIndexOf_append: "c \<notin> set v \<Longrightarrow> lastIndexOf c (p @ c # v) = Some (length p)"
  using indexOf_append [of c "rev v" "rev p"] by (simp add: lastIndexOf_def)

lemma splitOn_tail: "\<exists>p. c # t = p @ c # last (splitOn c t)"
proof (induction t)
  case (Cons x t)
  then obtain p where p: "c # t = p @ c # last (splitOn c t)" by blast
  show ?case
  proof (cases "x = c")
    case True
    then have "last (splitOn c (x # t)) = last (splitOn c t)" by (simp add: splitOn_ne)
    then have "c # x # t = (c # p) @ c # last (splitOn c (x # t))" unfolding True by (simp only: append_Cons p [symmetric])
    then show ?thesis by blast
  next
    case False
    obtain q qs where s: "splitOn c t = q # qs" using splitOn_ne [of c t] by (cases "splitOn c t") auto
    show ?thesis
    proof (cases "qs = []")
      case True
      then have "q = t" using s join_splitOn [of c t] by simp
      with False s True have "c # x # t = [] @ c # last (splitOn c (x # t))" by simp
      then show ?thesis by blast
    next
      case long: False
      with p s have "c # t = p @ c # last qs" by simp
      moreover have "p \<noteq> []"
      proof
        assume "p = []"
        with \<open>c # t = p @ c # last qs\<close> have "t = last qs" by simp
        moreover have "c \<notin> set (last qs)" using splitOn_pieces [of "last qs" c t] s long by simp
        ultimately have "splitOn c t = [t]" by (simp add: splitOn_plain)
        with s long show False by simp
      qed
      ultimately obtain p' where "t = p' @ c # last qs" by (cases p) auto
      with False s long have "c # x # t = (c # x # p') @ c # last (splitOn c (x # t))" by simp
      then show ?thesis by blast
    qed
  qed
qed auto

lemma flowPath_version:
  assumes "isFlowPath path"
  obtains p major minor where "path = p @ 47 # major @ 46 # minor" "isDecimal major" "isDecimal minor" "47 \<notin> set (major @ 46 # minor)" "46 \<notin> set major" "46 \<notin> set minor"
proof -
  from assms obtain t where t: "path = 47 # t" "isVersionSegment (last (splitOn 47 t))"
    by (cases path) (auto simp: isFlowPath_def startsWith_def js_def Let_def split: if_splits)
  let ?v = "last (splitOn 47 t)"
  obtain p where p: "47 # t = p @ 47 # ?v" using splitOn_tail by metis
  have n: "47 \<notin> set ?v" using splitOn_pieces [of ?v 47 t] splitOn_ne [of 47 t] by simp
  from t(2) obtain major minor where m: "splitOn 46 ?v = [major, minor]" "isDecimal major" "isDecimal minor"
    by (auto simp: isVersionSegment_def split: list.splits)
  have v: "?v = major @ 46 # minor" using join_splitOn [of 46 ?v] m(1) by simp
  have "46 \<notin> set major" "46 \<notin> set minor" using splitOn_pieces [of _ 46 ?v] m(1) by auto
  with t(1) p v n m that show thesis by metis
qed

lemma resolve_version:
  assumes "resolveFlowType raw host = Some uri"
  obtains p major minor where "uri = p @ 47 # major @ 46 # minor" "isDecimal major" "isDecimal minor" "47 \<notin> set (major @ 46 # minor)" "46 \<notin> set major" "46 \<notin> set minor"
proof -
  from assms obtain pre path where u: "uri = pre @ path" "isFlowPath path"
  proof (cases "startsWith raw (js ''/'')")
    case True
    with assms that [of "js ''https://'' @ asciiLower host" raw] show thesis by (auto simp: resolveFlowType_def split: if_splits)
  next
    case False
    with assms obtain k where "uri = raw" "isFlowPath (drop k (drop 8 raw))"
      by (auto simp: resolveFlowType_def Let_def simp del: drop_drop split: if_splits option.splits)
    with that [of "take (k + 8) raw" "drop (k + 8) raw"] show thesis by simp
  qed
  from flowPath_version [OF u(2)] u(1) that show thesis by (metis append_assoc)
qed

lemma digits_ge: "ds \<noteq> [] \<Longrightarrow> list_all isDigit ds \<Longrightarrow> hd ds \<noteq> 48 \<Longrightarrow> 10 ^ (length ds - 1) \<le> ofDigits ds"
proof (induction ds rule: rev_induct)
  case (snoc u ds)
  show ?case
  proof (cases "ds = []")
    case True
    with snoc.prems have "isDigit u" "unat u \<noteq> 48" by (simp_all add: word_unat_eq_iff)
    with True show ?thesis by (auto simp: ofDigits_def isDigit_def digitVal_def)
  next
    case False
    with snoc have "10 ^ (length ds - 1) \<le> ofDigits ds" by simp
    then have "10 * 10 ^ (length ds - 1) \<le> ofDigits (ds @ [u])" by (simp add: ofDigits_snoc)
    with False show ?thesis by (cases ds) simp_all
  qed
qed simp

lemma decimal_small:
  assumes "isDecimal ds" and "ofDigits ds < 10"
  shows "ds = js (natString (ofDigits ds))"
proof (cases "ds = js ''0''")
  case False
  with assms(1) have d: "ds \<noteq> []" "list_all isDigit ds" "hd ds \<noteq> 48" by (auto simp: isDecimal_def)
  have "10 ^ (length ds - 1) < (10 :: nat) ^ 1" using digits_ge [OF d] assms(2) by simp
  then have "length ds \<le> 1" using power_less_imp_less_exp [of "10 :: nat" "length ds - 1" 1] by simp
  with d(1) obtain u where u: "ds = [u]" by (cases ds) auto
  with d(2) have "unat u = 48 + ofDigits ds" by (simp add: ofDigits_def isDigit_def digitVal_def)
  then have "word_of_nat (unat u) = (word_of_nat (48 + ofDigits ds) :: 16 word)" by (simp only:)
  then have "u = word_of_nat (48 + ofDigits ds)" by (simp del: of_nat_add)
  with u assms(2) show ?thesis by (simp add: natString_digit js_def del: of_nat_add)
qed (simp add: ofDigits_def digitVal_def js_def natString_digit)

lemma numberOf_small: "numberOf False n = Whole (int k) \<Longrightarrow> k < 2 ^ 53 \<Longrightarrow> n = k"
proof (cases "n < 2 ^ 53")
  case False
  assume "numberOf False n = Whole (int k)" "k < 2 ^ 53"
  with roundNumber_big [of n] False show ?thesis by (auto simp: numberOf_def Let_def split: if_splits)
qed (simp add: numberOf_exact)

lemma sign_in_uri:
  assumes "resolveFlowType raw host = Some uri" and "placeFlow uri READER_FLOWS = Inr f"
  shows "uri = FLOW_REGISTRY_BASE @ js ''sign-in/0.1''" and "placedSpec f = SIGN_IN_FLOW" and "placedUri f = uri"
proof -
  from assms(1) obtain p major minor where u: "uri = p @ 47 # major @ 46 # minor" "isDecimal major" "isDecimal minor"
    "47 \<notin> set (major @ 46 # minor)" "46 \<notin> set major" "46 \<notin> set minor" by (rule resolve_version)
  have l: "lastIndexOf 47 uri = Some (length p)" unfolding u(1) by (rule lastIndexOf_append [OF u(4)])
  have s: "splitOn 46 (major @ 46 # minor) = [major, minor]"
    using u(5,6) by (simp add: splitOn_append splitOn_plain)
  have pl: "flowBase SIGN_IN_FLOW = p" "placedSpec f = SIGN_IN_FLOW" "placedUri f = uri"
    "numberOf False (ofDigits major) = Whole (int (flowMajor SIGN_IN_FLOW))" "minorAccepted SIGN_IN_FLOW (numberOf False (ofDigits minor))"
    using assms(2) unfolding placeFlow_def l READER_FLOWS_def by (auto simp: u(1) s Let_def split: if_splits)
  have "ofDigits major = 0" using numberOf_small [OF pl(4)] by (simp add: SIGN_IN_FLOW_def)
  then have m: "major = js ''0''" using decimal_small [OF u(2)] by (simp add: natString_digit js_def)
  have "numberOf False (ofDigits minor) = Whole (int 1)"
    using pl(5) by (auto simp: minorAccepted_def SIGN_IN_FLOW_def split: jsInteger.splits)
  from numberOf_small [OF this] have "ofDigits minor = 1" by simp
  then have "minor = js ''1''" using decimal_small [OF u(3)] by (simp add: natString_digit js_def)
  with m show "uri = FLOW_REGISTRY_BASE @ js ''sign-in/0.1''"
    using pl(1) by (simp add: u(1) SIGN_IN_FLOW_def) (simp add: js_def)
  show "placedSpec f = SIGN_IN_FLOW" "placedUri f = uri" by (rule pl)+
qed

lemma service_contact:
  assumes "isServiceContact contact DEFAULT_CONTACT_METHODS"
  shows "contactKind contact \<in> {js ''did:webvh'', js ''did:web'', js ''did:scid''}"
    and "contactDomainLabel contact DEFAULT_CONTACT_METHODS \<noteq> None"
proof -
  from assms obtain pol where p: "DEFAULT_CONTACT_METHODS (contactKind contact) = Some pol" "polRoute pol \<noteq> None"
    "polRoute pol = Some HostNamed \<Longrightarrow> (case polHostPath pol of Some f \<Rightarrow> f (contactValue contact) \<noteq> None | None \<Rightarrow> True)"
    by (auto simp: isServiceContact_def contactRouteOf_def split: option.splits if_splits)
  from p(1) have k: "pol \<in> set BUILTIN_CONTACT_POLICIES" "polKind pol = contactKind contact"
    by (auto simp: DEFAULT_CONTACT_METHODS_def contactMethodTable_def find_Some_iff)
    (metis nth_mem set_rev length_rev)
  then consider "pol = WEBVH_CONTACT_POLICY" | "pol = WEB_CONTACT_POLICY" | "pol = SCID_CONTACT_POLICY"
    using p(2) by (auto simp: BUILTIN_CONTACT_POLICIES_def KEY_CONTACT_POLICY_def PEER_CONTACT_POLICY_def)
  then have "contactKind contact \<in> {js ''did:webvh'', js ''did:web'', js ''did:scid''} \<and>
      (\<exists>f segs. polHostPath pol = Some f \<and> f (contactValue contact) = Some segs \<and> segs \<noteq> [])"
    using k(2) p(3)
    by cases (auto simp: WEBVH_CONTACT_POLICY_def WEB_CONTACT_POLICY_def SCID_CONTACT_POLICY_def decodeSegments_def scidHostPath_def Let_def
        split: if_splits option.splits)
  then show "contactKind contact \<in> {js ''did:webvh'', js ''did:web'', js ''did:scid''}"
    and "contactDomainLabel contact DEFAULT_CONTACT_METHODS \<noteq> None"
    using p(1) by (auto simp: contactDomainLabel_def split: list.splits)
qed

subsection \<open>Characters of a link\<close>

definition isContactUnit :: "16 word \<Rightarrow> bool" where
  "isContactUnit u \<longleftrightarrow> isAlnum u \<or> u \<in> {46, 95, 45, 126, 58, 37, 47, 63, 61}"

lemma hex_alnum: "isHexDigit u \<Longrightarrow> isAlnum u"
  by (auto simp: isHexDigit_def letters)

lemma lower_alnum: "isLowerAlnum u \<Longrightarrow> isAlnum u"
  by (auto simp: letters)

lemma idChars_units: "idChars s \<Longrightarrow> u \<in> set s \<Longrightarrow> isContactUnit u"
proof (induction s rule: idChars.induct)
  case (2 x s)
  show ?case
  proof (cases "x = 37")
    case True
    with "2.prems"(1) obtain h l r where s: "s = h # l # r" "isHexDigit h" "isHexDigit l" "idChars r"
      by (auto split: list.splits)
    show ?thesis
    proof (cases "u \<in> set r")
      case True
      then show ?thesis using "2.IH"(1) \<open>x = 37\<close> s(1,4) by blast
    next
      case False
      with "2.prems"(2) True s hex_alnum show ?thesis by (auto simp: isContactUnit_def)
    qed
  next
    case False
    with "2.prems" "2.IH"(2) show ?thesis by (auto simp: isContactUnit_def)
  qed
qed simp

lemma splitOn_cover: "u \<in> set s \<Longrightarrow> u = c \<or> (\<exists>p \<in> set (splitOn c s). u \<in> set p)"
proof (induction s)
  case (Cons x s)
  obtain q qs where q: "splitOn c s = q # qs" using splitOn_ne [of c s] by (cases "splitOn c s") auto
  from Cons show ?case by (auto simp: q)
qed simp

lemma spanTo_Some: "spanTo P c s = Some r \<Longrightarrow> s = takeWhile P s @ c # r"
proof -
  assume "spanTo P c s = Some r"
  then have "drop (length (takeWhile P s)) s = c # r" by (auto simp: spanTo_def Let_def split: if_splits list.splits)
  then show ?thesis by (metis dropWhile_eq_drop takeWhile_dropWhile_id)
qed

lemma isDid_units: "isDid s \<Longrightarrow> u \<in> set s \<Longrightarrow> isContactUnit u"
proof -
  assume d: "isDid s" and u: "u \<in> set s"
  then obtain r where r: "startsWith s (js ''did:'')" "spanTo isLowerAlnum 58 (drop 4 s) = Some r" "list_all idChars (splitOn 58 r)"
    by (auto simp: isDid_def split: option.splits)
  have "s = js ''did:'' @ drop 4 s" using r(1) by (auto simp: startsWith_iff js_def)
  also have "drop 4 s = takeWhile isLowerAlnum (drop 4 s) @ 58 # r" by (rule spanTo_Some [OF r(2)])
  finally have "u \<in> set (js ''did:'') \<or> isLowerAlnum u \<or> u = 58 \<or> u \<in> set r"
    using u by (metis Un_iff set_append set_takeWhileD set_ConsD)
  moreover have "isContactUnit u" if "u \<in> set (js ''did:'')" using that by (auto simp: js_def isContactUnit_def letters)
  moreover have "isContactUnit u" if "u \<in> set r"
    using splitOn_cover [OF that, of 58] r(3) idChars_units by (auto simp: list_all_iff isContactUnit_def)
  ultimately show ?thesis using lower_alnum by (auto simp: isContactUnit_def)
qed

lemma contact_units: "isContactDidSyntax s \<Longrightarrow> u \<in> set s \<Longrightarrow> isContactUnit u"
proof (cases "scidSrcOf s")
  case None
  assume "isContactDidSyntax s" "u \<in> set s"
  with None isDid_units show ?thesis by (simp add: isContactDidSyntax_def)
next
  case (Some src)
  assume c: "isContactDidSyntax s" and u: "u \<in> set s"
  from Some obtain q where q: "indexOf 63 s = Some q" "startsWith (hd (splitOn 35 (drop (q + 1) s))) (js ''src='')"
    "src = drop 4 (hd (splitOn 35 (drop (q + 1) s)))"
    by (auto simp: scidSrcOf_def Let_def split: if_splits option.splits)
  from c Some have k: "isDid (beforeQuery s)" "35 \<notin> set s" "list_all isSrcUnit src" by (simp_all add: isContactDidSyntax_def)
  have "splitOn 35 (drop (q + 1) s) = [drop (q + 1) s]" using k(2) by (intro splitOn_plain) (auto dest: in_set_dropD)
  then have h: "hd (splitOn 35 (drop (q + 1) s)) = drop (q + 1) s" by simp
  obtain r where "drop (q + 1) s = js ''src='' @ r" using q(2) unfolding h startsWith_iff by blast
  moreover from this have "src = r" using q(3) unfolding h by (simp add: js_def)
  ultimately have d: "drop (q + 1) s = js ''src='' @ src" by simp
  have "s = take q s @ 63 # drop (q + 1) s" using indexOf_Some [OF q(1)] by simp
  with u d have "u \<in> set (beforeQuery s) \<or> u = 63 \<or> u \<in> set (js ''src='') \<or> u \<in> set src"
    unfolding beforeQuery_def q(1) option.case by (metis Un_iff set_append set_ConsD)
  with isDid_units [OF k(1)] k(3) show ?thesis
    by (auto simp: js_def isContactUnit_def isSrcUnit_def letters list_all_iff)
qed

lemma classified:
  assumes "classifyContact s methods = Inr contact"
  shows "isContactDidSyntax s" and "contactValue contact = s"
  using assms by (auto simp: classifyContact_def Let_def split: if_splits option.splits)

lemma host_units: "meetsHostRules host \<Longrightarrow> u \<in> set host \<Longrightarrow> isLowerAlnum u \<or> u = 45 \<or> u = 46"
proof -
  assume h: "meetsHostRules host" and u: "u \<in> set host"
  from h have "list_all isDnsLabel (splitOn 46 host)" by (simp add: meetsHostRules_def Let_def split: if_splits)
  with splitOn_cover [OF u, of 46] show ?thesis by (auto simp: list_all_iff isDnsLabel_def)
qed

lemma asciiLower_id: "list_all (\<lambda>u. \<not> isUpper u) s \<Longrightarrow> asciiLower s = s"
  by (induction s) (auto simp: asciiLower_def isUpper_def)

lemma host_lower: "meetsHostRules host \<Longrightarrow> asciiLower host = host"
proof (rule asciiLower_id)
  assume "meetsHostRules host"
  from host_units [OF this] show "list_all (\<lambda>u. \<not> isUpper u) host" by (fastforce simp: list_all_iff letters)
qed

lemma scalars_length: "length (scalars us) \<le> length us"
proof (induction us rule: scalars.induct)
  case (2 u us)
  show ?case
  proof (cases us)
    case Nil
    then show ?thesis by (simp add: scalars.simps)
  next
    case (Cons v vs)
    consider "isLead u" "isTrail v" | "isLead u" "\<not> isTrail v" | "\<not> isLead u" by blast
    then show ?thesis
    proof cases
      case 1
      from "2.IH"(1) [OF 1(1) Cons 1(2)] 1 Cons show ?thesis by (simp add: scalars.simps(2) [of u])
    next
      case 2
      from "2.IH"(2) [OF 2(1) Cons 2(2)] 2 Cons show ?thesis by (simp add: scalars.simps(2) [of u])
    next
      case 3
      then have "length (scalars us) \<le> length us" using "2.IH"(3,4) by blast
      with 3 show ?thesis by (simp add: scalars.simps(2) [of u])
    qed
  qed
qed simp

lemma natString_lead: "n \<noteq> 0 \<Longrightarrow> hd (js (natString n)) \<noteq> 48"
proof (induction n rule: natString.induct)
  case (1 n)
  show ?case
  proof (cases "n < 10")
    case True
    from js_digit [OF True] have "digitVal (hd (js [char_of (48 + n)])) = n" by blast
    with True "1.prems" show ?thesis by (auto simp: natString_digit digitVal_def)
  next
    case False
    then have "hd (js (natString (n div 10))) \<noteq> 48" using 1 by simp
    with False natString_ne [of "n div 10"] show ?thesis by (simp add: natString.simps [of n] js_append)
  qed
qed

lemma epoch_decimal: "n < 2 ^ 53 \<Longrightarrow> isDecimal (js (natString n)) \<and> length (js (natString n)) \<le> 16"
proof -
  assume n: "n < 2 ^ 53"
  have d: "list_all isDigit (js (natString n))" "ofDigits (js (natString n)) = n" using natString_digits by blast+
  show ?thesis
  proof (cases "n = 0")
    case True
    then show ?thesis by (simp add: natString_digit isDecimal_def js_def)
  next
    case False
    from digits_ge [OF natString_ne d(1) natString_lead [OF False]] d(2)
    have "10 ^ (length (js (natString n)) - 1) \<le> n" by simp
    also have "n < (10 :: nat) ^ 16" using n by simp
    finally have "length (js (natString n)) - 1 < 16" by (rule power_less_imp_less_exp [rotated]) simp
    with natString_ne d(1) natString_lead [OF False] show ?thesis by (simp add: isDecimal_def)
  qed
qed

lemma epoch_printed: "n < 2 ^ 53 \<Longrightarrow> parseEpochSeconds (js (natString n)) = Some n"
  using epoch_decimal [of n] natString_digits [of n] by (simp add: epoch_iff)

subsection \<open>Links as a community writes them\<close>

definition linkFragment :: "jsstr \<Rightarrow> jsstr \<Rightarrow> nat \<Rightarrow> jsstr \<Rightarrow> jsstr" where
  "linkFragment did ident expires type_path =
     js ''_from='' @ escapePercent did @ js ''&_id='' @ ident @ js ''&_exp='' @ js (natString expires) @ js ''&_type='' @ type_path"

definition printLink :: "jsstr \<Rightarrow> jsstr \<Rightarrow> jsstr \<Rightarrow> nat \<Rightarrow> jsstr \<Rightarrow> jsstr" where
  "printLink host did ident expires type_path = js ''https://'' @ host @ js ''/t#'' @ linkFragment did ident expires type_path"

lemma handle_units: "isValidHandle ident \<Longrightarrow> list_all isHandleUnit ident"
  by (simp add: isValidHandle_def split: if_splits)

lemma flowPath_units: "isFlowPath path \<Longrightarrow> list_all isPathUnit path"
  by (simp add: isFlowPath_def split: if_splits)

definition linkUnit :: "16 word \<Rightarrow> bool" where
  "linkUnit u \<longleftrightarrow> isAlnum u \<or> u \<in> {46, 95, 45, 126, 58, 37, 47, 63, 61}"

lemma linkUnit_plain: "linkUnit u \<Longrightarrow> 32 < unat u \<and> unat u < 127 \<and> u \<noteq> 35 \<and> u \<noteq> 38 \<and> u \<noteq> 43"
proof -
  have w: "u = 35 \<longleftrightarrow> unat u = 35" "u = 38 \<longleftrightarrow> unat u = 38" "u = 43 \<longleftrightarrow> unat u = 43" by (simp_all add: word_unat_eq_iff)
  assume "linkUnit u"
  then show ?thesis unfolding w by (auto simp: linkUnit_def letters)
qed

lemma unit_kinds:
  "isContactUnit u \<Longrightarrow> linkUnit u" "isHandleUnit u \<Longrightarrow> linkUnit u" "isPathUnit u \<Longrightarrow> linkUnit u" "isDigit u \<Longrightarrow> linkUnit u"
  by (auto simp: linkUnit_def isContactUnit_def isHandleUnit_def isPathUnit_def letters)

lemma escape_units: "list_all linkUnit s \<Longrightarrow> list_all linkUnit (escapePercent s)"
  by (induction s) (auto simp: js_def linkUnit_def letters)

lemma units_ascii: "list_all linkUnit s \<Longrightarrow> asciiText s \<and> 43 \<notin> set s \<and> 38 \<notin> set s \<and> 35 \<notin> set s"
  using linkUnit_plain by (fastforce simp: list_all_iff asciiText_def)

lemma handle_no_percent: "isHandleUnit u \<Longrightarrow> u \<noteq> 37"
  by (auto simp: isHandleUnit_def letters)

lemma digit_no_percent: "isDigit u \<Longrightarrow> u \<noteq> 37"
  by (auto simp: letters)

lemma fragment_pairs:
  assumes "list_all linkUnit did" and "list_all isHandleUnit ident" and "list_all isPathUnit path"
  shows "parseFormPairs (linkFragment did ident expires path) =
    [\<lparr>pairName = js ''_from'', pairValue = did, rawValue = escapePercent did\<rparr>,
     \<lparr>pairName = js ''_id'', pairValue = ident, rawValue = ident\<rparr>,
     \<lparr>pairName = js ''_exp'', pairValue = js (natString expires), rawValue = js (natString expires)\<rparr>,
     \<lparr>pairName = js ''_type'', pairValue = formDecode path, rawValue = path\<rparr>]"
proof -
  let ?n = "js (natString expires)"
  have u: "list_all linkUnit (escapePercent did)" "list_all linkUnit ident" "list_all linkUnit ?n" "list_all linkUnit path"
    using assms escape_units unit_kinds natString_units by (auto simp: list_all_iff)
  have amp: "38 \<notin> set (js ''_from='' @ escapePercent did)" "38 \<notin> set (js ''_id='' @ ident)" "38 \<notin> set (js ''_exp='' @ ?n)"
    "38 \<notin> set (js ''_type='' @ path)"
    using units_ascii [OF u(1)] units_ascii [OF u(2)] units_ascii [OF u(3)] units_ascii [OF u(4)] by (simp_all add: js_def)
  have "linkFragment did ident expires path = (js ''_from='' @ escapePercent did) @ 38 # (js ''_id='' @ ident) @ 38 #
      (js ''_exp='' @ ?n) @ 38 # (js ''_type='' @ path)"
    by (simp add: linkFragment_def js_def)
  then have "splitOn 38 (linkFragment did ident expires path) =
      [js ''_from='' @ escapePercent did, js ''_id='' @ ident, js ''_exp='' @ ?n, js ''_type='' @ path]"
    by (simp only: splitOn_append [OF amp(1)] splitOn_append [OF amp(2)] splitOn_append [OF amp(3)] splitOn_plain [OF amp(4)])
  then have p: "parseFormPairs (linkFragment did ident expires path) =
      [readPair (js ''_from'' @ 61 # escapePercent did), readPair (js ''_id'' @ 61 # ident), readPair (js ''_exp'' @ 61 # ?n),
       readPair (js ''_type'' @ 61 # path)]"
    by (simp only: parseFormPairs_def) (simp add: js_def)
  have names: "asciiText n" "61 \<notin> set n" "43 \<notin> set n" "37 \<notin> set n" if "n \<in> set RESERVED" for n
    using that by (auto simp: RESERVED_def asciiText_def js_def)
  have "formDecode (escapePercent did) = did" using units_ascii [OF assms(1)] form_roundtrip by blast
  moreover have "formDecode ident = ident"
  proof (rule form_plain)
    show "37 \<notin> set ident" using assms(2) handle_no_percent unfolding list_all_iff by blast
  qed (use units_ascii [OF u(2)] in blast)+
  moreover have "formDecode ?n = ?n"
  proof (rule form_plain)
    show "37 \<notin> set ?n" using natString_units digit_no_percent by blast
  qed (use units_ascii [OF u(3)] in blast)+
  ultimately have v: "formDecode (escapePercent did) = did" "formDecode ident = ident" "formDecode ?n = ?n" by blast+
  have plain: "readPair (n @ 61 # raw) = \<lparr>pairName = n, pairValue = formDecode raw, rawValue = raw\<rparr>" if "n \<in> set RESERVED" for n raw
    using names [OF that] by (intro readPair_plain)
  show ?thesis
    unfolding p by (simp only: plain [OF reserved_names(1)] plain [OF reserved_names(2)] plain [OF reserved_names(3)]
      plain [OF reserved_names(4)] v)
qed

lemma trim_plain: "\<forall>u \<in> set s. 32 < unat u \<Longrightarrow> trimAsciiWhitespace s = s"
proof -
  assume a: "\<forall>u \<in> set s. 32 < unat u"
  have n: "\<not> isAsciiSpace u" if "u \<in> set s" for u
    using a that by (auto simp: isAsciiSpace_def)
  have "dropWhile isAsciiSpace s = s" using n by (cases s) auto
  moreover have "dropWhile isAsciiSpace (rev s) = rev s" by (rule dropWhile_eq_self_iff [THEN iffD2]) (use n in \<open>auto simp: hd_rev\<close>)
  ultimately show ?thesis by (simp add: trimAsciiWhitespace_def)
qed

subsection \<open>What an accepted link is\<close>

text \<open>C7: The parser accepts a text exactly when, trimmed, it is written scheme://authority path # fragment in visible
  characters and within 1536 code points, its scheme is https or an alias of the reader, the platform reads its authority
  as a host that meets the rules, and the reserved fields of its fragment, each at most once and in any order, say the link it
  returns.\<close>
theorem link_accepted_exactly:
  "parseTriggerLink R text = Inr link \<longleftrightarrow>
     (\<exists>written authority path fragment host. writtenAs (trimAsciiWhitespace text) written authority path fragment \<and>
        acceptsScheme R (asciiLower written) \<and> whatwgHost (readerUrl R) authority = Some host \<and> meetsHostRules host \<and>
        linkScheme link = asciiLower written \<and> linkHost link = host \<and> fieldsSay R host (parseFormPairs fragment) link)"
  by (rule parse_iff)

subsection \<open>Printed links are read back\<close>

lemma theField_printed:
  assumes "pairs = [\<lparr>pairName = js ''_from'', pairValue = a, rawValue = a'\<rparr>, \<lparr>pairName = js ''_id'', pairValue = b, rawValue = b'\<rparr>,
     \<lparr>pairName = js ''_exp'', pairValue = c, rawValue = c'\<rparr>, \<lparr>pairName = js ''_type'', pairValue = d, rawValue = d'\<rparr>]"
  shows "theField (js ''_from'') pairs = Some \<lparr>pairName = js ''_from'', pairValue = a, rawValue = a'\<rparr>"
    "theField (js ''_id'') pairs = Some \<lparr>pairName = js ''_id'', pairValue = b, rawValue = b'\<rparr>"
    "theField (js ''_exp'') pairs = Some \<lparr>pairName = js ''_exp'', pairValue = c, rawValue = c'\<rparr>"
    "theField (js ''_type'') pairs = Some \<lparr>pairName = js ''_type'', pairValue = d, rawValue = d'\<rparr>"
    "\<forall>n \<in> set RESERVED. length (named n pairs) \<le> 1"
  unfolding assms theField_def by (simp_all add: RESERVED_def js_def)

lemma resolve_path:
  "isFlowPath path \<Longrightarrow> meetsHostRules host \<Longrightarrow> resolveFlowType path host = Some (js ''https://'' @ host @ path)"
proof -
  assume p: "isFlowPath path" and h: "meetsHostRules host"
  from p have "startsWith path (js ''/'')" by (auto simp: isFlowPath_def split: if_splits)
  with p show ?thesis by (simp add: resolveFlowType_def host_lower [OF h])
qed

lemma printed_read:
  assumes "meetsHostRules host" and "whatwgHost (readerUrl R) host = Some host"
    and "classifyContact did (readerMethods R) = Inr contact" and "isValidHandle ident"
    and "expires < 2 ^ 53" and "readerNow R < int expires + 60"
    and "isFlowPath path" and "placeFlow (js ''https://'' @ host @ path) (readerFlows R) = Inr f"
    and "flowAllows (placedSpec f) contact (readerMethods R)" and "length (printLink host did ident expires path) \<le> 1536"
  shows "parseTriggerLink R (printLink host did ident expires path) =
    Inr \<lparr>linkScheme = js ''https'', linkHost = host, linkFrom = contact, linkId = ident, linkExp = Some expires, linkFlow = Some f\<rparr>"
    (is "_ = Inr ?link")
proof -
  let ?fragment = "linkFragment did ident expires path"
  have d: "list_all linkUnit did"
    using contact_units [OF classified(1) [OF assms(3)]] unit_kinds(1) by (auto simp: list_all_iff)
  note kinds = handle_units [OF assms(4)] flowPath_units [OF assms(7)]
  note pairs = fragment_pairs [OF d kinds]
  have l: "asciiLower (js ''https'') = js ''https''" by (simp add: asciiLower_def js_def)
  have u: "list_all linkUnit (escapePercent did)" "list_all linkUnit ident" "list_all linkUnit (js (natString expires))" "list_all linkUnit path"
    using d escape_units kinds unit_kinds natString_units by (auto simp: list_all_iff)
  let ?ok = "\<lambda>c. 32 < unat (c :: 16 word) \<and> unat c < 127"
  have frag: "\<forall>c \<in> set ?fragment. ?ok c \<and> c \<noteq> 35"
  proof
    fix c assume "c \<in> set ?fragment"
    then have "linkUnit c \<or> c \<in> set (js ''_from=&_id=&_exp=&_type='')"
      using u unfolding linkFragment_def list_all_iff set_append Un_iff by (auto simp: js_def)
    moreover have "?ok c \<and> c \<noteq> 35" if "c \<in> set (js ''_from=&_id=&_exp=&_type='')" using that by (auto simp: js_def)
    ultimately show "?ok c \<and> c \<noteq> 35" using linkUnit_plain by blast
  qed
  have hosts: "\<forall>c \<in> set host. ?ok c \<and> c \<notin> {47, 63, 92, 35, 64, 58}"
    using host_units [OF assms(1)] by (fastforce simp: letters)
  have plain: "\<forall>c \<in> set (printLink host did ident expires path). ?ok c"
    using frag hosts unfolding printLink_def set_append by (auto simp: js_def)
  then have trim: "trimAsciiWhitespace (printLink host did ident expires path) = printLink host did ident expires path"
    by (intro trim_plain) blast
  have "printLink host did ident expires path = js ''https'' @ js ''://'' @ host @ js ''/t'' @ js ''#'' @ ?fragment"
    by (simp add: printLink_def js_def)
  moreover have "countCodePoints (printLink host did ident expires path) \<le> MAX_TRIGGER_LINK_CODE_POINTS"
    using assms(10) scalars_length [of "map unat (printLink host did ident expires path)"]
    unfolding countCodePoints_def MAX_TRIGGER_LINK_CODE_POINTS_def length_map by linarith
  moreover have "set host \<inter> {47, 63, 92, 35, 64, 58} = {}" using hosts by blast
  moreover have "list_all isSchemeUnit (js ''https'')" "isLower (hd (js ''https''))" "js ''https'' \<noteq> []" "35 \<notin> set (js ''/t'')"
    "hd (js ''/t'') = 47" by (simp_all add: js_def isSchemeUnit_def letters)
  ultimately have "writtenAs (printLink host did ident expires path) (js ''https'') host (js ''/t'') ?fragment"
    unfolding writtenAs_def using plain frag by force
  moreover have "acceptsScheme R (js ''https'')" by (simp add: acceptsScheme_def js_def)
  moreover have "fieldsSay R host (parseFormPairs ?fragment) ?link"
    unfolding fieldsSay_def theField_printed(1-4) [OF pairs]
  proof (intro conjI)
    show "\<forall>n \<in> set RESERVED. length (named n (parseFormPairs ?fragment)) \<le> 1" by (rule theField_printed(5) [OF pairs])
  qed (use assms resolve_path [OF assms(7,1)] epoch_printed in \<open>simp_all add: EXPIRY_ALLOWANCE_SECONDS_def\<close>)
  ultimately have "\<exists>written authority p fragment h. writtenAs (printLink host did ident expires path) written authority p fragment \<and>
      acceptsScheme R (asciiLower written) \<and> whatwgHost (readerUrl R) authority = Some h \<and> meetsHostRules h \<and>
      linkScheme ?link = asciiLower written \<and> linkHost ?link = h \<and> fieldsSay R h (parseFormPairs fragment) ?link"
    using assms(1,2) by (intro exI [of _ "js ''https''"] exI [of _ host] exI [of _ "js ''/t''"] exI [of _ ?fragment]) (simp_all only: l parsedLink.simps)
  then show ?thesis unfolding parse_iff trim .
qed

text \<open>C34: A link printed for a host, a contact, a handle, an expiry not yet past and the path of a flow of the reader is
  read back as exactly those: the contact in its escaped spelling, the flow under the host's own name.\<close>
theorem link_roundtrip:
  assumes "meetsHostRules host" and "whatwgHost (readerUrl R) host = Some host"
    and "classifyContact did (readerMethods R) = Inr contact" and "isValidHandle ident"
    and "expires < 2 ^ 53" and "readerNow R < int expires + 60"
    and "isFlowPath path" and "placeFlow (js ''https://'' @ host @ path) (readerFlows R) = Inr f"
    and "flowAllows (placedSpec f) contact (readerMethods R)" and "length (printLink host did ident expires path) \<le> 1536"
  shows "parseTriggerLink R (printLink host did ident expires path) =
    Inr \<lparr>linkScheme = js ''https'', linkHost = host, linkFrom = contact, linkId = ident, linkExp = Some expires, linkFlow = Some f\<rparr>"
  using assms by (rule printed_read)

text \<open>A reader at the host of the registry, and a link a service writes for it.\<close>

definition aReader :: linkReader where
  "aReader = \<lparr>readerNow = 1700000000, readerFlows = READER_FLOWS, readerAliases = [], readerMethods = DEFAULT_CONTACT_METHODS,
     readerUrl = (\<lambda>_. Some \<lparr>urlUsername = [], urlPassword = [], urlHostname = js ''link.trustoverip.org'', urlPathname = js ''/'', urlPort = []\<rparr>)\<rparr>"

definition aHandle :: jsstr where "aHandle = js ''AAAAAAAAAAAAAAAAAAAAAA''"

definition aFlow :: placedFlow where
  "aFlow = \<lparr>placedSpec = SIGN_IN_FLOW, placedUri = FLOW_REGISTRY_BASE @ js ''sign-in/0.1'', placedMajor = Whole 0, placedMinor = Whole 1\<rparr>"

abbreviation aHost :: jsstr where "aHost \<equiv> js ''link.trustoverip.org''"
abbreviation aDid :: jsstr where "aDid \<equiv> js ''did:web:vta.example''"
abbreviation aPath :: jsstr where "aPath \<equiv> js ''/vti/flow/sign-in/0.1''"

lemma sample_host: "meetsHostRules aHost" "whatwgHost (readerUrl aReader) aHost = Some aHost"
  by (simp_all add: meetsHostRules_def isDnsLabel_def endsWith_def js_def letters whatwgHost_def aReader_def)

lemma sample_methods:
  "DEFAULT_CONTACT_METHODS (js ''did:web'') = Some WEB_CONTACT_POLICY"
  by (simp add: DEFAULT_CONTACT_METHODS_def contactMethodTable_def BUILTIN_CONTACT_POLICIES_def WEBVH_CONTACT_POLICY_def
      WEB_CONTACT_POLICY_def SCID_CONTACT_POLICY_def KEY_CONTACT_POLICY_def PEER_CONTACT_POLICY_def js_def)

lemma sample_contact: "classifyContact aDid (readerMethods aReader) = Inr \<lparr>contactKind = js ''did:web'', contactValue = aDid\<rparr>"
proof -
  have "isContactDidSyntax aDid"
    by (simp add: isContactDidSyntax_def scidSrcOf_def startsWith_def isDid_def spanTo_def js_def letters)
  moreover have "js ''did:'' @ takeWhile (\<lambda>u. u \<noteq> 58) (drop 4 aDid) = js ''did:web''" by (simp add: js_def)
  moreover have "startsWith aDid (js ''did:'')" "\<not> hasAgentMark aDid" "aDid \<noteq> []" by (simp_all add: js_def startsWith_def)
  ultimately show ?thesis
    using sample_methods unfolding classifyContact_def Let_def aReader_def by (simp add: WEB_CONTACT_POLICY_def)
qed

lemma sample_handle: "isValidHandle aHandle"
  by (simp add: isValidHandle_def aHandle_def js_def isHandleUnit_def letters B64URL_def)

lemma sample_path: "isFlowPath aPath"
  by (simp add: isFlowPath_def js_def startsWith_def isPathUnit_def letters isVersionSegment_def isDecimal_def)

lemma sample_flow: "placeFlow (js ''https://'' @ aHost @ aPath) (readerFlows aReader) = Inr aFlow"
  by (simp add: placeFlow_def aReader_def READER_FLOWS_def SIGN_IN_FLOW_def FLOW_REGISTRY_BASE_def lastIndexOf_def js_def
      ofDigits_def digitVal_def numberOf_exact minorAccepted_def aFlow_def)

lemma sample_service: "flowAllows (placedSpec aFlow) \<lparr>contactKind = js ''did:web'', contactValue = aDid\<rparr> (readerMethods aReader)"
  using sample_methods by (simp add: aFlow_def SIGN_IN_FLOW_def aReader_def isServiceContact_def contactRouteOf_def WEB_CONTACT_POLICY_def
      decodeSegments_def js_def)

lemma sample_length: "length (printLink aHost aDid aHandle 1700000100 aPath) \<le> 1536"
proof -
  have "length (js (natString 1700000100)) \<le> 16" using epoch_decimal [of 1700000100] by simp
  then show ?thesis by (simp add: printLink_def linkFragment_def js_def aHandle_def)
qed

lemmas sample_facts = sample_host sample_contact sample_handle sample_path sample_flow sample_service sample_length

definition aLink :: parsedLink where
  "aLink = \<lparr>linkScheme = js ''https'', linkHost = aHost, linkFrom = \<lparr>contactKind = js ''did:web'', contactValue = aDid\<rparr>,
     linkId = aHandle, linkExp = Some 1700000100, linkFlow = Some aFlow\<rparr>"

lemma sample_expiry: "readerNow aReader < int 1700000100 + 60" "(1700000100 :: nat) < 2 ^ 53"
  by (simp_all add: aReader_def)

lemma link_roundtrip_witness: "parseTriggerLink aReader (printLink aHost aDid aHandle 1700000100 aPath) = Inr aLink"
  unfolding aLink_def
  by (rule link_roundtrip [OF sample_host sample_contact sample_handle sample_expiry(2,1) sample_path sample_flow sample_service sample_length])

lemma sample_read: "parseTriggerLink aReader (printLink aHost aDid aHandle 1700000100 aPath) = Inr aLink"
  unfolding aLink_def
  by (rule printed_read [OF sample_host sample_contact sample_handle sample_expiry(2,1) sample_path sample_flow sample_service sample_length])

subsection \<open>What the shipped reader accepts\<close>

text \<open>C11: With the reader's own flows and contact methods, a link that names a flow names the registered sign-in flow of
  version 0.1 and no other, its sender is a did:webvh, did:web or did:scid whose domain can be shown to the user, it carries an
  expiry that is at most a minute past, its handle stands for 16 to 32 bytes, and its host meets the host rules.\<close>
theorem sign_in_link_safe:
  assumes "parseTriggerLink R text = Inr link" and "readerFlows R = READER_FLOWS" and "readerMethods R = DEFAULT_CONTACT_METHODS"
    and "linkFlow link = Some f"
  shows "placedUri f = FLOW_REGISTRY_BASE @ js ''sign-in/0.1'' \<and>
    contactKind (linkFrom link) \<in> {js ''did:webvh'', js ''did:web'', js ''did:scid''} \<and>
    contactDomainLabel (linkFrom link) DEFAULT_CONTACT_METHODS \<noteq> None \<and>
    (\<exists>n. linkExp link = Some n \<and> readerNow R < int n + 60) \<and>
    (\<exists>bs. 16 \<le> length bs \<and> length bs \<le> 32 \<and> map unat (linkId link) = bytesToBase64url bs) \<and>
    meetsHostRules (linkHost link)"
proof -
  from assms(1) obtain host pairs where h: "meetsHostRules host" "linkHost link = host" "fieldsSay R host pairs link"
    unfolding parse_iff by blast
  have "isValidHandle (linkId link)" using h(3) unfolding fieldsSay_def by blast
  moreover from h(3) obtain raw uri where u: "resolveFlowType raw host = Some uri" "placeFlow uri READER_FLOWS = Inr f"
    using assms(2,4) unfolding fieldsSay_def by (auto split: option.splits)
  moreover have a: "flowAllows (placedSpec f) (linkFrom link) DEFAULT_CONTACT_METHODS" "\<not> flowRequiresExp (placedSpec f) \<or> linkExp link \<noteq> None"
    using h(3) assms(3,4) unfolding fieldsSay_def by (auto split: option.splits)
  moreover have "isServiceContact (linkFrom link) DEFAULT_CONTACT_METHODS"
    using a(1) sign_in_uri(2) [OF u] by (simp add: SIGN_IN_FLOW_def)
  moreover obtain n where "linkExp link = Some n" using a(2) sign_in_uri(2) [OF u] by (auto simp: SIGN_IN_FLOW_def)
  moreover from this have "readerNow R < int n + 60" using h(3) unfolding fieldsSay_def by (simp add: EXPIRY_ALLOWANCE_SECONDS_def)
  ultimately show ?thesis
    using sign_in_uri(1,3) [OF u] service_contact h(1,2) by (simp add: handle_encodes)
qed

lemma sign_in_link_safe_witness:
  "contactDomainLabel (linkFrom aLink) DEFAULT_CONTACT_METHODS \<noteq> None \<and> meetsHostRules (linkHost aLink)"
proof -
  have "readerFlows aReader = READER_FLOWS" "readerMethods aReader = DEFAULT_CONTACT_METHODS" "linkFlow aLink = Some aFlow"
    by (simp_all add: aReader_def aLink_def)
  from sign_in_link_safe [OF sample_read this] show ?thesis by blast
qed

end
