(* ===== verification/Consent_Replay.thy ===== *)
theory Consent_Replay
  imports Tsp_Binding Jcs "HOL-Library.AList"
begin

text \<open>
  The ledger of consent-gated requests that await their one replay without a prompt:
  \<open>packages/extension/src/consent-replay.ts\<close>. A JavaScript \<open>Map\<close> is an association list in insertion order, where
  \<open>set\<close> of a key that is there keeps its place. Each operation reads the clock; the readings are arguments.
  The facts show that a key names one request, and, over every history of the ledger, what an exemption rests on.
\<close>

subsection \<open>The text of a value determines it\<close>

definition textOf :: "jsval \<Rightarrow> jsstr" where
  "textOf v = the (jsonStringify v)"

lemma stringify_text: "jsonValue v \<Longrightarrow> jsonStringify v = Some (textOf v)"
  by (cases v) (simp_all add: textOf_def)

lemma text_array: "list_all jsonValue vs \<Longrightarrow> textOf (JArr vs) = 91 # joinWith [44] (map textOf vs) @ [93]"
proof -
  assume "list_all jsonValue vs"
  then have "map (\<lambda>v. case jsonStringify v of Some t \<Rightarrow> t | None \<Rightarrow> js ''null'') vs = map textOf vs"
    using stringify_text by (simp add: list_all_iff)
  then show ?thesis by (simp add: textOf_def js_def del: map_eq_conv)
qed

definition memberText :: "jsstr \<times> jsval \<Rightarrow> jsstr" where
  "memberText m = jsonQuote (fst m) @ 58 # textOf (snd m)"

lemma text_object: "list_all jsonValue (map snd ms) \<Longrightarrow> textOf (JObj ms) = 123 # joinWith [44] (map memberText ms) @ [125]"
proof -
  assume "list_all jsonValue (map snd ms)"
  then have "concat (map (\<lambda>(k, v). case jsonStringify v of Some t \<Rightarrow> [jsonQuote k @ js '':'' @ t] | None \<Rightarrow> []) ms) = map memberText ms"
    by (induction ms) (auto simp: stringify_text memberText_def js_def)
  then show ?thesis by (simp add: textOf_def js_def)
qed

lemma quote_hd: "jsonQuote s \<noteq> [] \<and> hd (jsonQuote s) = 34"
  by (simp add: jsonQuote_def)

lemma text_kind:
  assumes "jsonValue v" and "valOk v"
  shows "textOf v \<noteq> [] \<and> kindUnit (hd (textOf v)) = textKind v \<and> hd (textOf v) \<notin> {44, 93, 125}"
proof (cases v)
  case (JArr vs)
  with assms text_array [of vs] show ?thesis by (simp add: kindUnit_def)
next
  case (JObj ms)
  with assms text_object [of ms] show ?thesis by (simp add: kindUnit_def)
next
  case (JStr s)
  with quote_hd [of s] show ?thesis by (simp add: textOf_def kindUnit_def)
qed (use assms enc_kind [of v "textOf v"] in \<open>simp_all add: textOf_def\<close>)

lemma joined_delimited:
  assumes "\<And>x y r r'. x \<in> set xs \<Longrightarrow> y \<in> set ys \<Longrightarrow> ends r \<Longrightarrow> ends r' \<Longrightarrow> f x @ r = f y @ r' \<Longrightarrow> x = y \<and> r = r'"
    and "\<And>x. x \<in> set xs \<union> set ys \<Longrightarrow> f x \<noteq> [] \<and> hd (f x) \<noteq> c"
    and c: "c \<in> {93, 125}" and "joinWith [44] (map f xs) @ c # r = joinWith [44] (map f ys) @ c # r'"
  shows "xs = ys \<and> r = r'"
  using assms(1,2,4)
proof (induction xs arbitrary: ys)
  case Nil
  show ?case
  proof (cases ys)
    case (Cons y ys')
    with Nil(3) have "c # r = f y @ tailOf c (map f ys') r'" by (simp add: join_tail)
    with Nil(2) [of y] Cons show ?thesis by (cases "f y") auto
  qed (use Nil in simp)
next
  case (Cons x xs)
  show ?case
  proof (cases ys)
    case Nil
    with Cons.prems(3) have "c # r' = f x @ tailOf c (map f xs) r" by (simp add: join_tail)
    with Cons.prems(2) [of x] show ?thesis by (cases "f x") auto
  next
    case (Cons y ys')
    with Cons.prems(3) have "f x @ tailOf c (map f xs) r = f y @ tailOf c (map f ys') r'" by (simp add: join_tail)
    with Cons.prems(1) [of x y] tail_ends [OF c] Cons have xy: "x = y" and t: "tailOf c (map f xs) r = tailOf c (map f ys') r'" by auto
    have ih: "joinWith [44] (map f xs) @ c # r = joinWith [44] (map f ys') @ c # r' \<Longrightarrow> xs = ys' \<and> r = r'"
      using Cons.IH [of ys'] Cons.prems(1,2) Cons by auto
    from tail_eq [OF c t] ih xy Cons show ?thesis by auto
  qed
qed

lemma text_delimited:
  assumes "jsonValue v" "valOk v" "jsonValue w" "valOk w" "ends r" "ends r'" "textOf v @ r = textOf w @ r'"
  shows "v = w \<and> r = r'"
  using assms
proof (induction v arbitrary: w r r')
  have kind: "textKind v = textKind w" if "jsonValue v" "valOk v" "jsonValue w" "valOk w" "textOf v @ r = textOf w @ r'" for v w r r'
    using text_kind [OF that(1,2)] text_kind [OF that(3,4)] hd_append_eq [OF that(5)] by metis
  have plain: "enc v = Inr (textOf v)" if "textKind v \<le> 2" "jsonValue v" for v using that by (cases v) (simp_all add: textOf_def)
  have scalar: "v = w \<and> r = r'"
    if a: "jsonValue v" "valOk v" "jsonValue w" "valOk w" "ends r" "ends r'" "textOf v @ r = textOf w @ r'" and k: "textKind v \<le> 2" for v w r r'
  proof -
    have kw: "textKind w \<le> 2" using kind [OF a(1-4,7)] k by simp
    have "norm v = norm w \<and> r = r'"
      by (rule reads_valD [OF enc_reads(1) plain [OF k a(1)] plain [OF kw a(3)] a(2,4-7)])
    with k kw show ?thesis by (cases v; cases w) auto
  qed
  { case JNull then show ?case by (intro scalar) auto }
  { case JUndefined then show ?case by simp }
  { case (JBool b) then show ?case by (intro scalar) auto }
  { case (JInt i) then show ?case by (intro scalar) auto }
  { case (JFloat t) then show ?case by (intro scalar) auto }
  { case JNonFinite then show ?case by simp }
  { case (JStr s)
    from kind [OF JStr(1-4,7)] obtain t where w: "w = JStr t" by (cases w) auto
    with JStr(7) have "jsonQuote s @ r = jsonQuote t @ r'" by (simp add: textOf_def)
    from jsonQuote_delimited [OF this] w show ?case by simp }
  { case (JArr vs)
    from kind [OF JArr(2-5,8)] obtain ws where w: "w = JArr ws" by (cases w) auto
    with JArr.prems have ok: "list_all jsonValue vs" "list_all valOk vs" "list_all jsonValue ws" "list_all valOk ws" by simp_all
    have "joinWith [44] (map textOf vs) @ 93 # r = joinWith [44] (map textOf ws) @ 93 # r'"
      using JArr.prems(7) unfolding w text_array [OF ok(1)] text_array [OF ok(3)] by simp
    moreover have "x = y \<and> s = s'" if "x \<in> set vs" "y \<in> set ws" "ends s" "ends s'" "textOf x @ s = textOf y @ s'" for x y s s'
      using JArr.IH [OF that(1) _ _ _ _ that(3-5)] ok that(1,2) by (auto simp: list_all_iff)
    moreover have "textOf x \<noteq> [] \<and> hd (textOf x) \<noteq> 93" if "x \<in> set vs \<union> set ws" for x
      using text_kind [of x] ok that by (auto simp: list_all_iff)
    ultimately have "vs = ws \<and> r = r'" by (intro joined_delimited [where f = textOf and c = 93]) auto
    with w show ?case by simp }
  { case (JObj ms)
    from kind [OF JObj(2-5,8)] obtain ns where w: "w = JObj ns" by (cases w) auto
    with JObj.prems have ok: "list_all jsonValue (map snd ms)" "list_all valOk (map snd ms)"
      "list_all jsonValue (map snd ns)" "list_all valOk (map snd ns)" by simp_all
    have "joinWith [44] (map memberText ms) @ 125 # r = joinWith [44] (map memberText ns) @ 125 # r'"
      using JObj.prems(7) unfolding w text_object [OF ok(1)] text_object [OF ok(3)] by simp
    moreover have "x = y \<and> s = s'" if x: "x \<in> set ms" and y: "y \<in> set ns" and s: "ends s" "ends s'"
      and e: "memberText x @ s = memberText y @ s'" for x y s s'
    proof -
      from e have "jsonQuote (fst x) @ 58 # textOf (snd x) @ s = jsonQuote (fst y) @ 58 # textOf (snd y) @ s'" by (simp add: memberText_def)
      from jsonQuote_delimited [OF this] have k: "fst x = fst y" "textOf (snd x) @ s = textOf (snd y) @ s'" by auto
      have "snd x \<in> Basic_BNFs.snds x" by (cases x) simp
      from JObj.IH [OF x this _ _ _ _ s k(2)] ok x y k(1) show ?thesis by (auto simp: list_all_iff prod_eq_iff)
    qed
    moreover have "memberText x \<noteq> [] \<and> hd (memberText x) \<noteq> 125" for x
      using quote_hd [of "fst x"] by (simp add: memberText_def)
    ultimately have "ms = ns \<and> r = r'" by (intro joined_delimited [where f = memberText and c = 125]) auto
    with w show ?case by simp }
qed

subsection \<open>The ledger\<close>

record ledgerOptions =
  ttlMs :: int
  maxEntries :: int

definition REPLAY_TTL_MS :: int where "REPLAY_TTL_MS = 600000"
definition MAX_REPLAY_ENTRIES :: int where "MAX_REPLAY_ENTRIES = 32"

definition defaultLedger :: ledgerOptions where
  "defaultLedger = \<lparr>ttlMs = REPLAY_TTL_MS, maxEntries = MAX_REPLAY_ENTRIES\<rparr>"

record replayEntry =
  replayDigest :: jsstr
  replayGranted :: bool
  replayAt :: int

type_synonym ledger = "(jsstr \<times> replayEntry) list"

text \<open>A template string prints \<open>undefined\<close> for a value that has no text.\<close>

definition replayKey :: "jsstr \<Rightarrow> jsval \<Rightarrow> jsstr" where
  "replayKey origin params = origin @ js '' '' @ (case jsonStringify params of Some t \<Rightarrow> t | None \<Rightarrow> js ''undefined'')"

definition pruneReplays :: "ledgerOptions \<Rightarrow> int \<Rightarrow> ledger \<Rightarrow> ledger" where
  "pruneReplays opts now L = (let cutoff = now - ttlMs opts in filter (\<lambda>(k, e). \<not> replayAt e \<le> cutoff) L)"

definition evictFirst :: "ledger \<Rightarrow> ledger" where
  "evictFirst L = (case L of [] \<Rightarrow> [] | (oldest, _) # _ \<Rightarrow> AList.delete oldest L)"

definition recordConsentRequired :: "ledgerOptions \<Rightarrow> int \<Rightarrow> int \<Rightarrow> jsstr \<Rightarrow> jsstr \<Rightarrow> ledger \<Rightarrow> ledger" where
  "recordConsentRequired opts now now' key digest L =
     (let L1 = pruneReplays opts now L;
          L2 = (if maxEntries opts \<le> int (length L1) \<and> key \<notin> fst ` set L1 then evictFirst L1 else L1)
      in AList.update key \<lparr>replayDigest = digest, replayGranted = False, replayAt = now'\<rparr> L2)"

definition recordGranted :: "ledgerOptions \<Rightarrow> int \<Rightarrow> jsstr \<Rightarrow> ledger \<Rightarrow> ledger" where
  "recordGranted opts now digest L =
     map (\<lambda>(k, e). (k, if replayDigest e = digest then e\<lparr>replayGranted := True\<rparr> else e)) (pruneReplays opts now L)"

definition consumeIfArmed :: "ledgerOptions \<Rightarrow> int \<Rightarrow> jsstr \<Rightarrow> ledger \<Rightarrow> bool \<times> ledger" where
  "consumeIfArmed opts now key L =
     (let L1 = pruneReplays opts now L in
      case map_of L1 key of
        None \<Rightarrow> (False, L1)
      | Some e \<Rightarrow> if \<not> replayGranted e then (False, L1) else (True, AList.delete key L1))"

definition ledgerSize :: "ledgerOptions \<Rightarrow> int \<Rightarrow> ledger \<Rightarrow> nat \<times> ledger" where
  "ledgerSize opts now L = (let L1 = pruneReplays opts now L in (length L1, L1))"

subsection \<open>Keys\<close>

text \<open>C18: Two requests have the same key only when they are the same request: the same origin and the same parameters, for
  parameters that came as JSON and origins without a space.\<close>
theorem replay_key_exact:
  assumes "replayKey origin params = replayKey origin' params'" and "32 \<notin> set origin" and "32 \<notin> set origin'"
    and "jsonValue params" and "valOk params" and "jsonValue params'" and "valOk params'"
  shows "origin = origin' \<and> params = params'"
proof -
  have e: "origin @ 32 # textOf params = origin' @ 32 # textOf params'"
    using assms(1) stringify_text [OF assms(4)] stringify_text [OF assms(6)] by (simp add: replayKey_def js_def)
  have "takeWhile (\<lambda>u. u \<noteq> 32) (o' @ 32 # t) = o'" if "32 \<notin> set o'" for o' t :: jsstr
    using that by (subst takeWhile_append2) auto
  with e assms(2,3) have o: "origin = origin'" by metis
  with e have "textOf params @ [] = textOf params' @ []" by simp
  from text_delimited [OF assms(4-7) _ _ this] o show ?thesis by (simp add: ends_def)
qed

lemma replay_key_exact_witness:
  "js ''https://a.example'' = js ''https://a.example'' \<and> JObj [(js ''type'', JStr (js ''x''))] = JObj [(js ''type'', JStr (js ''x''))]"
  by (rule replay_key_exact) (simp_all add: js_def)

subsection \<open>Histories\<close>

datatype replayEvent =
    ConsentRefused int int jsstr jsstr
  | GrantNotice int jsstr
  | ReplayAsked int jsstr
  | SizeRead int

fun ledgerStep :: "ledgerOptions \<Rightarrow> replayEvent \<Rightarrow> ledger \<Rightarrow> bool \<times> ledger" where
  "ledgerStep opts (ConsentRefused now now' key digest) L = (False, recordConsentRequired opts now now' key digest L)"
| "ledgerStep opts (GrantNotice now digest) L = (False, recordGranted opts now digest L)"
| "ledgerStep opts (ReplayAsked now key) L = consumeIfArmed opts now key L"
| "ledgerStep opts (SizeRead now) L = (False, snd (ledgerSize opts now L))"

text \<open>A history lists the operations with their answers, the latest last.\<close>

inductive ledgerRun :: "ledgerOptions \<Rightarrow> (replayEvent \<times> bool) list \<Rightarrow> ledger \<Rightarrow> bool" for opts where
  fresh_ledger: "ledgerRun opts [] []"
| ledger_step: "ledgerRun opts h L \<Longrightarrow> ledgerStep opts ev L = (ans, L') \<Longrightarrow> ledgerRun opts (h @ [(ev, ans)]) L'"

text \<open>Events after which an earlier refusal of the key no longer counts.\<close>

fun settles :: "jsstr \<Rightarrow> replayEvent \<times> bool \<Rightarrow> bool" where
  "settles key (ConsentRefused _ _ k _, _) \<longleftrightarrow> k = key"
| "settles key (ReplayAsked _ k, ans) \<longleftrightarrow> k = key \<and> ans"
| "settles key _ \<longleftrightarrow> False"

text \<open>What the history says of an entry of the ledger.\<close>

definition refusedBy :: "(replayEvent \<times> bool) list \<Rightarrow> jsstr \<Rightarrow> replayEntry \<Rightarrow> bool" where
  "refusedBy h key e \<longleftrightarrow>
     (\<exists>before now later. h = before @ (ConsentRefused now (replayAt e) key (replayDigest e), False) # later \<and>
        \<not> list_ex (settles key) later \<and>
        (\<not> replayGranted e \<or> (\<exists>t. (GrantNotice t (replayDigest e), False) \<in> set later)))"

definition ledgerInv :: "ledgerOptions \<Rightarrow> (replayEvent \<times> bool) list \<Rightarrow> ledger \<Rightarrow> bool" where
  "ledgerInv opts h L \<longleftrightarrow> distinct (map fst L) \<and> int (length L) \<le> max 1 (maxEntries opts) \<and>
     (\<forall>(k, e) \<in> set L. refusedBy h k e)"

lemma refusedBy_more:
  assumes "refusedBy h k e" and "\<not> settles k x" and "\<not> replayGranted e \<or> replayGranted e'" "replayAt e' = replayAt e"
    "replayDigest e' = replayDigest e" and "\<not> replayGranted e' \<or> replayGranted e \<or> (\<exists>t. x = (GrantNotice t (replayDigest e), False))"
  shows "refusedBy (h @ [x]) k e'"
proof -
  from assms(1) obtain before now later where h: "h = before @ (ConsentRefused now (replayAt e) k (replayDigest e), False) # later"
    "\<not> list_ex (settles k) later" "\<not> replayGranted e \<or> (\<exists>t. (GrantNotice t (replayDigest e), False) \<in> set later)"
    unfolding refusedBy_def by blast
  have "h @ [x] = before @ (ConsentRefused now (replayAt e') k (replayDigest e'), False) # (later @ [x])" using h(1) assms(4,5) by simp
  moreover have "\<not> list_ex (settles k) (later @ [x])" using h(2) assms(2) by simp
  moreover have "\<not> replayGranted e' \<or> (\<exists>t. (GrantNotice t (replayDigest e'), False) \<in> set (later @ [x]))"
    using h(3) assms(5,6) by auto
  ultimately show ?thesis unfolding refusedBy_def by blast
qed

lemma prune_sub: "set (pruneReplays opts now L) \<subseteq> set L" "length (pruneReplays opts now L) \<le> length L"
  "distinct (map fst L) \<Longrightarrow> distinct (map fst (pruneReplays opts now L))"
  by (auto simp: pruneReplays_def Let_def distinct_map_filter)

lemma prune_inv: "ledgerInv opts h L \<Longrightarrow> ledgerInv opts h (pruneReplays opts now L)"
  using prune_sub [where opts = opts and now = now and L = L] unfolding ledgerInv_def by (auto dest: subsetD)

lemma delete_sub: "set (AList.delete k L) \<subseteq> set L" "length (AList.delete k L) \<le> length L"
  "distinct (map fst L) \<Longrightarrow> distinct (map fst (AList.delete k L))" "k \<notin> fst ` set (AList.delete k L)"
  by (auto simp: AList.delete_eq distinct_map_filter)

lemma evict_room:
  assumes "int (length L) \<le> max 1 m"
  shows "int (length (evictFirst L)) < max 1 m"
proof (cases L)
  case (Cons x xs)
  then have "length (evictFirst L) \<le> length xs"
    by (cases x) (simp add: evictFirst_def AList.delete_eq)
  with assms Cons show ?thesis by simp
qed (simp add: evictFirst_def)

lemma evict_sub: "set (evictFirst L) \<subseteq> set L" "distinct (map fst L) \<Longrightarrow> distinct (map fst (evictFirst L))"
  using delete_sub by (fastforce simp: evictFirst_def split: list.splits)+

lemma update_entries: "x \<in> set (AList.update k v L) \<Longrightarrow> distinct (map fst L) \<Longrightarrow> x = (k, v) \<or> x \<in> set L \<and> fst x \<noteq> k"
  by (induction L) (auto split: if_splits)

lemma update_length: "length (AList.update k v L) = (if k \<in> fst ` set L then length L else Suc (length L))"
  by (induction L) auto

lemma settles_other: "refusedBy h k e \<Longrightarrow> \<not> settles k x \<Longrightarrow> refusedBy (h @ [x]) k e"
  by (rule refusedBy_more) auto

lemma inv_step:
  assumes "ledgerInv opts h L" and "ledgerStep opts ev L = (ans, L')"
  shows "ledgerInv opts (h @ [(ev, ans)]) L'"
proof (cases ev)
  case (ConsentRefused now now' key digest)
  let ?L1 = "pruneReplays opts now L"
  let ?L2 = "if maxEntries opts \<le> int (length ?L1) \<and> key \<notin> fst ` set ?L1 then evictFirst ?L1 else ?L1"
  let ?e = "\<lparr>replayDigest = digest, replayGranted = False, replayAt = now'\<rparr>"
  have L': "L' = AList.update key ?e ?L2" "ans = False" using assms(2) by (simp_all add: ConsentRefused recordConsentRequired_def Let_def)
  from prune_inv [OF assms(1)] have i: "distinct (map fst ?L1)" "int (length ?L1) \<le> max 1 (maxEntries opts)"
    "\<forall>(k, e) \<in> set ?L1. refusedBy h k e" unfolding ledgerInv_def by blast+
  have d: "distinct (map fst ?L2)" using evict_sub(2) [OF i(1)] i(1) by simp
  have l: "int (length L') \<le> max 1 (maxEntries opts)"
  proof (cases "key \<in> fst ` set ?L2")
    case True
    then have "length L' = length ?L2" by (simp add: L' update_length)
    moreover have "int (length ?L2) \<le> max 1 (maxEntries opts)" using i(2) evict_room [OF i(2)] by simp
    ultimately show ?thesis by simp
  next
    case False
    then have "length L' = Suc (length ?L2)" by (simp add: L' update_length)
    moreover have "int (length ?L2) < max 1 (maxEntries opts)"
    proof (cases "maxEntries opts \<le> int (length ?L1)")
      case True
      with False have "key \<notin> fst ` set ?L1" by (auto split: if_splits)
      with True evict_room [OF i(2)] show ?thesis by simp
    qed simp
    ultimately show ?thesis by simp
  qed
  have "refusedBy (h @ [(ev, ans)]) k e" if "(k, e) \<in> set L'" for k e
  proof -
    from update_entries [OF that [unfolded L'] d] consider "k = key" "e = ?e" | "(k, e) \<in> set ?L2" "k \<noteq> key" by auto
    then show ?thesis
    proof cases
      case 1
      then have "h @ [(ev, ans)] = h @ (ConsentRefused now (replayAt e) k (replayDigest e), False) # []" by (simp add: ConsentRefused L')
      moreover have "\<not> list_ex (settles k) []" "\<not> replayGranted e" using 1 by simp_all
      ultimately show ?thesis unfolding refusedBy_def by blast
    next
      case 2
      then have "(k, e) \<in> set ?L1" using evict_sub(1) [of ?L1] by (auto split: if_splits)
      with i(3) have "refusedBy h k e" by auto
      then show ?thesis using 2 by (intro settles_other) (auto simp: ConsentRefused)
    qed
  qed
  moreover have "distinct (map fst L')" unfolding L' by (rule distinct_update [OF d])
  ultimately show ?thesis using l unfolding ledgerInv_def by blast
next
  case (GrantNotice now digest)
  let ?L1 = "pruneReplays opts now L"
  have L': "L' = map (\<lambda>(k, e). (k, if replayDigest e = digest then e\<lparr>replayGranted := True\<rparr> else e)) ?L1" "ans = False"
    using assms(2) by (simp_all add: GrantNotice recordGranted_def)
  from prune_inv [OF assms(1)] have i: "distinct (map fst ?L1)" "int (length ?L1) \<le> max 1 (maxEntries opts)"
    "\<forall>(k, e) \<in> set ?L1. refusedBy h k e" unfolding ledgerInv_def by blast+
  have "map fst L' = map fst ?L1" by (auto simp: L')
  moreover have "refusedBy (h @ [(ev, ans)]) k e'" if "(k, e') \<in> set L'" for k e'
  proof -
    from that obtain e where e: "(k, e) \<in> set ?L1" "e' = (if replayDigest e = digest then e\<lparr>replayGranted := True\<rparr> else e)" by (auto simp: L')
    with i(3) have "refusedBy h k e" by auto
    then show ?thesis by (rule refusedBy_more) (use e(2) in \<open>auto simp: GrantNotice L'(2)\<close>)
  qed
  moreover have "length L' = length ?L1" by (simp add: L')
  ultimately show ?thesis using i(1,2) unfolding ledgerInv_def by auto
next
  case (ReplayAsked now key)
  let ?L1 = "pruneReplays opts now L"
  note i = prune_inv [OF assms(1), of now]
  have s: "consumeIfArmed opts now key L = (ans, L')" using assms(2) by (simp add: ReplayAsked)
  have "refusedBy (h @ [(ev, ans)]) k e" if "(k, e) \<in> set L'" for k e
  proof -
    have "(k, e) \<in> set ?L1" "\<not> (k = key \<and> ans)" using s that delete_sub(1) [where k = key and L = ?L1] delete_sub(4) [where k = key and L = ?L1]
      unfolding consumeIfArmed_def Let_def by (force split: option.splits if_splits)+
    with i show ?thesis unfolding ledgerInv_def by (intro settles_other) (auto simp: ReplayAsked)
  qed
  moreover have "length L' \<le> length ?L1" "distinct (map fst ?L1) \<Longrightarrow> distinct (map fst L')"
    using s delete_sub(2) [where k = key and L = ?L1] delete_sub(3) [where k = key and L = ?L1] unfolding consumeIfArmed_def Let_def by (auto split: option.splits if_splits)
  ultimately show ?thesis using i unfolding ledgerInv_def by auto
next
  case (SizeRead now)
  then have L': "L' = pruneReplays opts now L" "ans = False" using assms(2) by (simp_all add: ledgerSize_def Let_def)
  have "\<not> settles k (ev, ans)" for k by (simp add: SizeRead)
  then show ?thesis using prune_inv [OF assms(1), of now] settles_other unfolding ledgerInv_def L' by fastforce
qed

lemma run_inv: "ledgerRun opts h L \<Longrightarrow> ledgerInv opts h L"
  by (induction rule: ledgerRun.induct) (simp add: ledgerInv_def, blast intro: inv_step)

subsection \<open>What an exemption rests on\<close>

lemma consumed_entry:
  assumes "fst (consumeIfArmed opts now key L)"
  obtains e where "(key, e) \<in> set L" "replayGranted e" "now - ttlMs opts < replayAt e"
proof -
  from assms obtain e where "map_of (pruneReplays opts now L) key = Some e" "replayGranted e"
    by (auto simp: consumeIfArmed_def Let_def split: option.splits if_splits)
  moreover from this(1) have "(key, e) \<in> set (pruneReplays opts now L)" by (rule map_of_SomeD)
  then have "(key, e) \<in> set L" "now - ttlMs opts < replayAt e" by (auto simp: pruneReplays_def Let_def)
  ultimately show thesis using that by blast
qed

lemma exemption:
  assumes "ledgerRun opts h L" and "fst (consumeIfArmed opts now key L)"
  shows "\<exists>before t at digest mid t' after.
    h = before @ (ConsentRefused t at key digest, False) # mid @ (GrantNotice t' digest, False) # after \<and>
    \<not> list_ex (settles key) (mid @ after) \<and> now - ttlMs opts < at"
proof -
  from assms(2) obtain e where e: "(key, e) \<in> set L" "replayGranted e" "now - ttlMs opts < replayAt e" by (rule consumed_entry)
  with run_inv [OF assms(1)] have "refusedBy h key e" unfolding ledgerInv_def by auto
  then obtain before t later t' where h: "h = before @ (ConsentRefused t (replayAt e) key (replayDigest e), False) # later"
    "\<not> list_ex (settles key) later" "(GrantNotice t' (replayDigest e), False) \<in> set later"
    using e(2) unfolding refusedBy_def by blast
  from split_list [OF h(3)] obtain mid after where l: "later = mid @ (GrantNotice t' (replayDigest e), False) # after" by blast
  with h e(3) show ?thesis by (intro exI [of _ before] exI [of _ t] exI [of _ "replayAt e"] exI [of _ "replayDigest e"] exI [of _ mid]
        exI [of _ t'] exI [of _ after]) auto
qed

text \<open>C13: Whatever the history of the ledger, a request is let through without a prompt only if the agent refused exactly it
  pending consent, with a digest, less than the lifetime ago, a grant for that digest was relayed after that refusal, and since
  the refusal no newer refusal came for it and no earlier asking was let through: an exemption is single-use.\<close>
theorem replay_needs_refusal_and_grant:
  assumes "ledgerRun opts h L" and "fst (consumeIfArmed opts now key L)"
  shows "\<exists>before t at digest mid t' after.
    h = before @ (ConsentRefused t at key digest, False) # mid @ (GrantNotice t' digest, False) # after \<and>
    \<not> list_ex (settles key) (mid @ after) \<and> now - ttlMs opts < at"
  using assms by (rule exemption)

lemma replay_needs_refusal_and_grant_witness:
  "\<exists>before t at digest mid t' after.
    [(ConsentRefused 0 0 (js ''k'') (js ''d''), False), (GrantNotice 5 (js ''d''), False)] =
      before @ (ConsentRefused t at (js ''k'') digest, False) # mid @ (GrantNotice t' digest, False) # after \<and>
    \<not> list_ex (settles (js ''k'')) (mid @ after) \<and> 9 - ttlMs defaultLedger < at"
proof -
  let ?e = "\<lparr>replayDigest = js ''d'', replayGranted = True, replayAt = 0\<rparr>"
  have 1: "ledgerRun defaultLedger [(ConsentRefused 0 0 (js ''k'') (js ''d''), False)] [(js ''k'', ?e\<lparr>replayGranted := False\<rparr>)]"
    using ledger_step [OF fresh_ledger, of defaultLedger "ConsentRefused 0 0 (js ''k'') (js ''d'')" False]
    by (simp add: recordConsentRequired_def pruneReplays_def defaultLedger_def MAX_REPLAY_ENTRIES_def Let_def)
  have 2: "ledgerRun defaultLedger [(ConsentRefused 0 0 (js ''k'') (js ''d''), False), (GrantNotice 5 (js ''d''), False)] [(js ''k'', ?e)]"
    using ledger_step [OF 1, of "GrantNotice 5 (js ''d'')" False]
    by (simp add: recordGranted_def pruneReplays_def defaultLedger_def REPLAY_TTL_MS_def Let_def)
  show ?thesis by (rule replay_needs_refusal_and_grant [OF 2])
      (simp add: consumeIfArmed_def pruneReplays_def defaultLedger_def REPLAY_TTL_MS_def Let_def)
qed

text \<open>C36: However many refusals a page provokes, the ledger never holds more than \<open>max 1 maxEntries\<close> entries, with no key
  twice: a refusal that finds it full evicts an entry, and then records its own whatever \<open>maxEntries\<close> is, so a ceiling of \<open>0\<close>
  holds one.\<close>
theorem ledger_bounded:
  assumes "ledgerRun opts h L"
  shows "int (length L) \<le> max 1 (maxEntries opts) \<and> distinct (map fst L)"
  using run_inv [OF assms] unfolding ledgerInv_def by blast

text \<open>A ledger of one entry: the second refusal takes the place of the first.\<close>

lemma ledger_bounded_witness:
  "\<exists>L. ledgerRun \<lparr>ttlMs = 100, maxEntries = 1\<rparr> [(ConsentRefused 1 1 (js ''a'') (js ''x''), False), (ConsentRefused 2 2 (js ''b'') (js ''y''), False)] L \<and>
     map fst L = [js ''b''] \<and> int (length L) \<le> max 1 (maxEntries \<lparr>ttlMs = 100, maxEntries = 1\<rparr>) \<and> distinct (map fst L)"
proof -
  let ?o = "\<lparr>ttlMs = 100, maxEntries = 1\<rparr>"
  have 1: "ledgerRun ?o [(ConsentRefused 1 1 (js ''a'') (js ''x''), False)] [(js ''a'', \<lparr>replayDigest = js ''x'', replayGranted = False, replayAt = 1\<rparr>)]"
    using ledger_step [OF fresh_ledger, of ?o "ConsentRefused 1 1 (js ''a'') (js ''x'')" False]
    by (simp add: recordConsentRequired_def pruneReplays_def Let_def)
  have 2: "ledgerRun ?o [(ConsentRefused 1 1 (js ''a'') (js ''x''), False), (ConsentRefused 2 2 (js ''b'') (js ''y''), False)]
      [(js ''b'', \<lparr>replayDigest = js ''y'', replayGranted = False, replayAt = 2\<rparr>)]"
    using ledger_step [OF 1, of "ConsentRefused 2 2 (js ''b'') (js ''y'')" False]
    by (simp add: recordConsentRequired_def pruneReplays_def evictFirst_def AList.delete_eq js_def Let_def)
  from ledger_bounded [OF 2] 2 show ?thesis by auto
qed

lemma map_of_prune:
  assumes "distinct (map fst L)"
  shows "map_of (pruneReplays opts now L) k =
    (case map_of L k of Some e \<Rightarrow> if now - ttlMs opts < replayAt e then Some e else None | None \<Rightarrow> None)"
  using assms by (induction L) (auto simp: pruneReplays_def Let_def not_le map_of_eq_None_iff split: option.splits)

lemma map_of_granted:
  "map_of (recordGranted opts now digest L) k =
    map_option (\<lambda>e. if replayDigest e = digest then e\<lparr>replayGranted := True\<rparr> else e) (map_of (pruneReplays opts now L) k)"
proof -
  have "map_of (map (\<lambda>(k, e). (k, f e)) xs) k = map_option f (map_of xs k)" for f :: "replayEntry \<Rightarrow> replayEntry" and xs :: ledger
    by (induction xs) auto
  then show ?thesis by (simp only: recordGranted_def)
qed

lemma distinct_ops:
  assumes "distinct (map fst L)"
  shows "distinct (map fst (recordConsentRequired opts now now' key digest L))" and "distinct (map fst (recordGranted opts now digest L))"
proof -
  have d: "distinct (map fst (pruneReplays opts now L))" by (rule prune_sub(3) [OF assms])
  show "distinct (map fst (recordConsentRequired opts now now' key digest L))"
    using d evict_sub(2) [OF d] unfolding recordConsentRequired_def Let_def by (simp add: distinct_update)
  have "map fst (recordGranted opts now digest L) = map fst (pruneReplays opts now L)" by (auto simp: recordGranted_def)
  with d show "distinct (map fst (recordGranted opts now digest L))" by simp
qed

lemma consumed_gone:
  assumes "fst (consumeIfArmed opts now key L)"
  shows "\<not> fst (consumeIfArmed opts now' key (snd (consumeIfArmed opts now key L)))"
proof
  assume "fst (consumeIfArmed opts now' key (snd (consumeIfArmed opts now key L)))"
  then obtain e where "(key, e) \<in> set (snd (consumeIfArmed opts now key L))" by (rule consumed_entry)
  with assms delete_sub(4) [where k = key] show False unfolding consumeIfArmed_def Let_def
    by (force split: option.splits if_splits)
qed

text \<open>A refusal followed by the grant of its digest lets exactly the next asking of the request through, when both come
  within the lifetime of the refusal: the asking after that is not let through.\<close>
theorem grant_arms_once:
  assumes "distinct (map fst L)" and "granted = recordGranted opts t1 digest (recordConsentRequired opts t0 made key digest L)"
  shows "(fst (consumeIfArmed opts t2 key granted) \<longleftrightarrow> t1 - ttlMs opts < made \<and> t2 - ttlMs opts < made) \<and>
    \<not> (fst (consumeIfArmed opts t2 key granted) \<and> fst (consumeIfArmed opts t3 key (snd (consumeIfArmed opts t2 key granted))))"
proof -
  let ?L = "recordConsentRequired opts t0 made key digest L"
  have d: "distinct (map fst ?L)" "distinct (map fst granted)" unfolding assms(2) by (intro distinct_ops assms(1))+
  have "map_of ?L key = Some \<lparr>replayDigest = digest, replayGranted = False, replayAt = made\<rparr>"
    unfolding recordConsentRequired_def Let_def by (simp add: update_conv)
  then have "map_of granted key = (if t1 - ttlMs opts < made then Some \<lparr>replayDigest = digest, replayGranted = True, replayAt = made\<rparr> else None)"
    unfolding assms(2) map_of_granted map_of_prune [OF d(1)] by simp
  then have "map_of (pruneReplays opts t2 granted) key = (if t1 - ttlMs opts < made \<and> t2 - ttlMs opts < made
      then Some \<lparr>replayDigest = digest, replayGranted = True, replayAt = made\<rparr> else None)"
    unfolding map_of_prune [OF d(2)] by simp
  then have "fst (consumeIfArmed opts t2 key granted) \<longleftrightarrow> t1 - ttlMs opts < made \<and> t2 - ttlMs opts < made"
    unfolding consumeIfArmed_def Let_def by simp
  with consumed_gone show ?thesis by blast
qed

lemma grant_arms_once_witness:
  "(fst (consumeIfArmed defaultLedger 20 (js ''k'') (recordGranted defaultLedger 10 (js ''d'')
      (recordConsentRequired defaultLedger 0 0 (js ''k'') (js ''d'') []))) \<longleftrightarrow>
      10 - ttlMs defaultLedger < 0 \<and> 20 - ttlMs defaultLedger < 0)"
  using grant_arms_once [OF _ refl, of "[]" defaultLedger 20 "js ''k''" 10 "js ''d''" 0 0 30] by simp

subsection \<open>Which entry makes room\<close>

text \<open>
  The entry evicted is the first of the map, and a refusal recorded again keeps its place there: the entry of \<open>a\<close>, refreshed
  last, goes and the older one of \<open>b\<close> stays.
\<close>

lemma refreshed_entry_evicted:
  "map (\<lambda>(k, e). (k, replayAt e)) (recordConsentRequired \<lparr>ttlMs = 100, maxEntries = 2\<rparr> 4 4 (js ''c'') (js ''z'')
     (recordConsentRequired \<lparr>ttlMs = 100, maxEntries = 2\<rparr> 3 3 (js ''a'') (js ''y'')
     (recordConsentRequired \<lparr>ttlMs = 100, maxEntries = 2\<rparr> 2 2 (js ''b'') (js ''x'')
     (recordConsentRequired \<lparr>ttlMs = 100, maxEntries = 2\<rparr> 1 1 (js ''a'') (js ''w'') [])))) = [(js ''b'', 2), (js ''c'', 4)]"
  by (simp add: recordConsentRequired_def pruneReplays_def evictFirst_def AList.delete_eq js_def Let_def)

end
