(* ===== verification/Page_Policy.thy ===== *)
theory Page_Policy
  imports Task_Consent Jcs
begin

text \<open>
  What a web page may have the wallet do: the task families a page may never drive and the documents it may not have
  signed (\<open>packages/extension/src/page-task-policy.ts\<close>), the pin of an origin to the relying party of an approved
  login (\<open>packages/extension/src/origin-pin.ts\<close>), and what a page may do with the step-up approver
  (\<open>packages/extension/src/approver-policy.ts\<close>). A refusal is the text the page is given, \<open>None\<close> that it may. The URL
  parser of the platform is a function argument; \<open>chrome.storage.local\<close> is a map from keys to values.
\<close>

subsection \<open>Task families\<close>

definition SPEC :: "string \<Rightarrow> jsstr" where
  "SPEC path = js ''https://trusttasks.org/spec/'' @ js path"

definition REFUSED :: "(jsstr \<times> jsstr) list" where
  "REFUSED =
    [(SPEC ''persona/'',
      js ''The persona family carries the holder's own identity, and a generic task '' @
      js ''prompt cannot tell them what a disclosure would reveal. Ask for a '' @
      js ''disclosure through the wallet's disclosure flow, which shows the holder '' @
      js ''exactly what would be sent, to whom, and what it would let you link'' @ emDash @ js ''and '' @
      js ''returns the presentation rather than the underlying values.''),
     (SPEC ''rooms/'',
      js ''A data room is governed by credentials the room itself issued, and a page '' @
      js ''holds none of them. Reading a record returns plaintext the room withholds '' @
      js ''even from its host; listing keys discloses what the holder is a member of; '' @
      js ''and the owner verbs mint credentials in the room's name, which is authority '' @
      js ''to admit or promote. A community's own member portal uses the rooms a member '' @
      js ''shares with it through window.vtaWallet.rooms, whose verbs are fixed, whose '' @
      js ''flows run in the wallet, and whose every write the member confirms.''),
     (SPEC ''vtc/rooms/offers/'',
      js ''Accepting a community's offer of a room joins the member to it, and a generic prompt cannot say so. '' @
      js ''A community's own member portal lists offers with window.vtaWallet.rooms.offers and asks to accept one '' @
      js ''with window.vtaWallet.rooms.acceptOffer, which the member decides in the wallet's own window.''),
     (SPEC ''vtc/rooms/memberships/'',
      js ''The community's record of which of its rooms the member is in is read by the wallet, as the member. '' @
      js ''A community's own member portal lists it with window.vtaWallet.rooms.offers.''),
     (SPEC ''vta/pcs/'',
      js ''The member's voting and vetting engine holds their tickets, their ballots and their hidden vetting, and a '' @
      js ''generic prompt cannot say what a page would learn from them'' @ emDash @ js ''a ballot in a page is a vote the page has '' @
      js ''seen. A community's own member portal lists elections, takes a ticket and opens the wallet's ballot with '' @
      js ''window.vtaWallet.elections.''),
     (SPEC ''vtc/elections/'',
      js ''A community's elections are read, and tickets taken, by the member's own agent signing as them. A '' @
      js ''community's own member portal uses window.vtaWallet.elections.''),
     (SPEC ''vta/notifications/'',
      js ''Your held notifications say which communities and parties you belong to, and a generic prompt cannot say '' @
      js ''what a page would learn from them. Read them in the wallet's console; a community's own member portal '' @
      js ''sees the elections it notified you of with window.vtaWallet.elections.''),
     (SPEC ''messaging/'',
      js ''The messaging family is the relay's operations surface: its queues, its '' @
      js ''accounts and a live feed of whom the holder exchanges messages with. A page '' @
      js ''has no use for any of it that the holder should be asked to approve; the '' @
      js ''holder inspects their own relay from the wallet's console.''),
     (SPEC ''vtc/directory/'',
      js ''The directory family reads and publishes the member's own card. Ask for '' @
      js ''publication with window.vtaWallet.directory.publishCard, which shows the '' @
      js ''member every value and that anyone will be able to read it before anything '' @
      js ''is signed.''),
     (SPEC ''vault/credentials/present/'',
      js ''vault/credentials/present has the agent sign a presentation of one of the '' @
      js ''holder's credentials, as its subject, for a verifier the caller names. A page '' @
      js ''cannot ask for one: to verify directory fields with a credential, use '' @
      js ''window.vtaWallet.directory.presentCredential, which shows the member the '' @
      js ''community and every claim it discloses first.''),
     (SPEC ''keys/sign-document/'',
      js ''keys/sign-document makes a proof, as one of the holder's DIDs, over a '' @
      js ''document the caller wrote, which every verifier will read as the holder's '' @
      js ''own assertion. A page cannot ask for one: the wallet signs a document only '' @
      js ''within a flow that shows the holder what it says, such as '' @
      js ''window.vtaWallet.directory.publishCard.'')]"

definition pageTaskRefusal :: "jsstr \<Rightarrow> jsstr option" where
  "pageTaskRefusal typeUri =
     (case find (\<lambda>r. startsWith typeUri (fst r)) REFUSED of
        Some hit \<Rightarrow> Some (typeUri @ js '' cannot be requested by a page. '' @ snd hit)
      | None \<Rightarrow> None)"

subsection \<open>Documents a page may not have signed\<close>

definition APPROVAL_PREFIX :: jsstr where "APPROVAL_PREFIX = SPEC ''auth/step-up/approve-''"
definition AUTHENTICATE_PREFIX :: jsstr where "AUTHENTICATE_PREFIX = SPEC ''auth/authenticate/''"

definition pageSignRefusal :: "jsval \<Rightarrow> jsstr \<Rightarrow> jsstr option" where
  "pageSignRefusal envelope ownAgentDid =
     (case envelope of
        JObj ms \<Rightarrow>
          (case getMember ms (js ''type'') of
             JStr ty \<Rightarrow>
               if ty = [] then Some (js ''signTrustTask needs a document with a type.'')
               else (case getMember ms (js ''recipient'') of
                 JStr recipient \<Rightarrow>
                   if recipient = [] then Some (ty @ js '' names no recipient. A page-signed document must be addressed to the party it is for, or the signature is good at any party that accepts the holder's key.'')
                   else if recipient = ownAgentDid then
                     Some (ty @ js '' is addressed to the holder's own agent. A page asks the agent through requestTask, where the agent's policy applies; the wallet does not sign documents to it on a page's behalf.'')
                   else if startsWith ty APPROVAL_PREFIX then
                     Some (ty @ js '' cannot be signed for a page. A step-up approval is built only by the wallet's step-up flow (stepUpVta), which verifies the relying party's request and asks the holder first.'')
                   else if startsWith ty AUTHENTICATE_PREFIX then
                     Some (ty @ js '' cannot be signed for a page. A sign-in, and any session key it binds, goes through login(), whose prompt tells the holder what the site will be able to do.'')
                   else pageTaskRefusal ty
               | _ \<Rightarrow> Some (ty @ js '' names no recipient. A page-signed document must be addressed to the party it is for, or the signature is good at any party that accepts the holder's key.''))
           | _ \<Rightarrow> Some (js ''signTrustTask needs a document with a type.''))
      | _ \<Rightarrow> Some (js ''signTrustTask needs a Trust Task document to sign.''))"

subsection \<open>The relying party of an origin\<close>

record pageRpPin =
  pinRpDid :: jsstr
  pinBaseUrl :: "jsstr option"

record siteUrl =
  siteProtocol :: jsstr
  siteUsername :: jsstr
  sitePassword :: jsstr
  siteSearch :: jsstr
  siteHash :: jsstr
  siteOrigin :: jsstr
  sitePathname :: jsstr

type_synonym urlParser = "jsstr \<Rightarrow> siteUrl option"

definition normalizeBaseUrl :: "urlParser \<Rightarrow> jsstr \<Rightarrow> jsstr option" where
  "normalizeBaseUrl parseUrl raw =
     (case parseUrl raw of
        None \<Rightarrow> None
      | Some u \<Rightarrow>
          if siteProtocol u \<noteq> js ''https:'' \<and> siteProtocol u \<noteq> js ''http:'' then None
          else if siteUsername u \<noteq> [] \<or> sitePassword u \<noteq> [] \<or> siteSearch u \<noteq> [] \<or> siteHash u \<noteq> [] then None
          else Some (siteOrigin u @ rev (dropWhile (\<lambda>c. c = 47) (rev (sitePathname u)))))"

definition unpinned :: "jsstr \<Rightarrow> jsstr \<Rightarrow> jsstr" where
  "unpinned origin what =
     origin @ js '' has no relying party pinned, so the wallet will not '' @ what @ js '' for it. '' @
     js ''Sign in from this site first: the login prompt is where the site's relying party '' @
     js ''is shown and confirmed, and it pins that pairing.''"

definition pageSignBindingRefusal :: "jsstr \<Rightarrow> pageRpPin option \<Rightarrow> jsstr \<Rightarrow> jsstr option" where
  "pageSignBindingRefusal origin pin recipient =
     (case pin of
        None \<Rightarrow> Some (unpinned origin (js ''sign documents''))
      | Some p \<Rightarrow>
          if recipient \<noteq> pinRpDid p then
            Some (js ''The document is addressed to '' @ recipient @ js '', but '' @ origin @ js '' is pinned to the relying '' @
              js ''party '' @ pinRpDid p @ js ''. A page can only have documents signed for the relying party it '' @ js ''was signed in to.'')
          else None)"

definition pageStepUpBindingRefusal :: "urlParser \<Rightarrow> jsstr \<Rightarrow> pageRpPin option \<Rightarrow> jsstr \<Rightarrow> jsstr \<Rightarrow> jsstr option" where
  "pageStepUpBindingRefusal parseUrl origin pin rpDid baseUrl =
     (case pin of
        None \<Rightarrow> Some (unpinned origin (js ''step up a session''))
      | Some p \<Rightarrow>
          if rpDid \<noteq> pinRpDid p then
            Some (js ''Step-up names the relying party '' @ rpDid @ js '', but '' @ origin @ js '' is pinned to '' @ pinRpDid p @
              js ''. A page can only step up its session at the relying party it was '' @ js ''signed in to.'')
          else (case pinBaseUrl p of
            Some pinned \<Rightarrow>
              if pinned = [] then
                Some (origin @ js '' has no relying-party base URL pinned: its sign-in named none. Sign in '' @
                  js ''from this site with login() so the base URL step-up will use is shown and confirmed.'')
              else if normalizeBaseUrl parseUrl baseUrl \<noteq> Some pinned then
                Some (js ''Step-up names the base URL '' @ baseUrl @ js '', but '' @ origin @ js '' is pinned to '' @ pinned @
                  js ''. A page can only step up against the base URL it signed in with.'')
              else None
          | None \<Rightarrow> Some (origin @ js '' has no relying-party base URL pinned: its sign-in named none. Sign in '' @
              js ''from this site with login() so the base URL step-up will use is shown and confirmed.'')))"

subsection \<open>Pins\<close>

type_synonym localStore = "jsstr \<rightharpoonup> jsval"

definition PIN_KEY_PREFIX :: jsstr where "PIN_KEY_PREFIX = js ''origin-pin:''"

definition pinKey :: "jsstr \<Rightarrow> jsstr" where "pinKey origin = PIN_KEY_PREFIX @ origin"

text \<open>A key that is not stored reads as \<open>undefined\<close>.\<close>

definition readRecord :: "localStore \<Rightarrow> jsstr \<Rightarrow> jsval" where
  "readRecord st origin = (case st (pinKey origin) of Some v \<Rightarrow> v | None \<Rightarrow> JUndefined)"

text \<open>\<open>===\<close> of a stored value with a string or another stored value: objects that were read from storage are never the same.\<close>

definition strictEq :: "jsval \<Rightarrow> jsval \<Rightarrow> bool" where
  "strictEq a b \<longleftrightarrow> a = b \<and> \<not> isObject a \<and> a \<noteq> JNonFinite"

record originPinStatus =
  firstSeen :: bool
  pinnedRpDid :: "jsval option"
  rpDidChanged :: bool
  pinnedBaseUrl :: "jsval option"
  baseUrlChanged :: bool

definition checkOriginPin :: "urlParser \<Rightarrow> localStore \<Rightarrow> jsstr \<Rightarrow> jsstr \<Rightarrow> jsstr option \<Rightarrow> originPinStatus" where
  "checkOriginPin parseUrl st origin rpDid baseUrl =
     (let r = readRecord st origin in
      if \<not> truthy r then \<lparr>firstSeen = True, pinnedRpDid = None, rpDidChanged = False, pinnedBaseUrl = None, baseUrlChanged = False\<rparr>
      else
        let requested = Option.bind baseUrl (normalizeBaseUrl parseUrl);
            base = getProp r (js ''baseUrl'')
        in \<lparr>firstSeen = False, pinnedRpDid = Some (getProp r (js ''rpDid'')),
            rpDidChanged = (\<not> strictEq (getProp r (js ''rpDid'')) (JStr rpDid)),
            pinnedBaseUrl = (if truthy base then Some base else None),
            baseUrlChanged = (baseUrl \<noteq> None \<and> base \<noteq> JUndefined \<and>
              (case requested of Some t \<Rightarrow> \<not> strictEq (JStr t) base | None \<Rightarrow> base \<noteq> JNull))\<rparr>)"

definition readOriginPin :: "localStore \<Rightarrow> jsstr \<Rightarrow> pageRpPin option" where
  "readOriginPin st origin =
     (let r = readRecord st origin in
      if \<not> truthy r then None
      else case getProp r (js ''rpDid'') of
        JStr d \<Rightarrow> if d = [] then None else Some \<lparr>pinRpDid = d, pinBaseUrl = asString (getProp r (js ''baseUrl''))\<rparr>
      | _ \<Rightarrow> None)"

definition pinOrigin :: "urlParser \<Rightarrow> int \<Rightarrow> jsstr \<Rightarrow> jsstr \<Rightarrow> jsstr option \<Rightarrow> localStore \<Rightarrow> localStore" where
  "pinOrigin parseUrl now origin rpDid baseUrl st =
     (let pinnedBase =
        (case baseUrl of
           Some raw \<Rightarrow> (case normalizeBaseUrl parseUrl raw of Some t \<Rightarrow> JStr t | None \<Rightarrow> JUndefined)
         | None \<Rightarrow>
             let prior = readRecord st origin in
             if truthy prior \<and> strictEq (getProp prior (js ''rpDid'')) (JStr rpDid) then getProp prior (js ''baseUrl'') else JUndefined)
      in st(pinKey origin \<mapsto> JObj ([(js ''rpDid'', JStr rpDid)] @
           (if truthy pinnedBase then [(js ''baseUrl'', pinnedBase)] else []) @ [(js ''pinnedAt'', JInt now)])))"

definition clearOriginPin :: "jsstr \<Rightarrow> localStore \<Rightarrow> localStore" where
  "clearOriginPin origin st = st(pinKey origin := None)"

subsection \<open>What a pin rests on\<close>

text \<open>The only writers of pins: a login the human approved, and the operator's removal.\<close>

datatype pinEvent = LoginApproved int jsstr jsstr "jsstr option" | PinCleared jsstr

fun pinStep :: "urlParser \<Rightarrow> pinEvent \<Rightarrow> localStore \<Rightarrow> localStore" where
  "pinStep parseUrl (LoginApproved now origin rpDid baseUrl) st = pinOrigin parseUrl now origin rpDid baseUrl st"
| "pinStep parseUrl (PinCleared origin) st = clearOriginPin origin st"

definition pinsAfter :: "urlParser \<Rightarrow> pinEvent list \<Rightarrow> localStore" where
  "pinsAfter parseUrl evs = fold (pinStep parseUrl) evs Map.empty"

fun concerns :: "jsstr \<Rightarrow> pinEvent \<Rightarrow> bool" where
  "concerns origin (LoginApproved _ o' _ _) \<longleftrightarrow> o' = origin"
| "concerns origin (PinCleared o') \<longleftrightarrow> o' = origin"

text \<open>The events that end the base URL approved with the relying party \<open>rpDid\<close>.\<close>

fun endsBase :: "jsstr \<Rightarrow> jsstr \<Rightarrow> pinEvent \<Rightarrow> bool" where
  "endsBase origin rpDid (LoginApproved _ o' d base) \<longleftrightarrow> o' = origin \<and> (d \<noteq> rpDid \<or> base \<noteq> None)"
| "endsBase origin rpDid (PinCleared o') \<longleftrightarrow> o' = origin"

definition pinRecord :: "jsstr \<Rightarrow> jsstr option \<Rightarrow> int \<Rightarrow> jsval" where
  "pinRecord d base t = JObj ([(js ''rpDid'', JStr d)] @ (case base of Some b \<Rightarrow> [(js ''baseUrl'', JStr b)] | None \<Rightarrow> []) @
     [(js ''pinnedAt'', JInt t)])"

lemma pin_names: "js ''rpDid'' \<noteq> js ''baseUrl''" "js ''rpDid'' \<noteq> js ''pinnedAt''" "js ''baseUrl'' \<noteq> js ''pinnedAt''"
  by (simp_all add: js_def)

lemma pinRecord_members [simp]:
  "getProp (pinRecord d base t) (js ''rpDid'') = JStr d"
  "getProp (pinRecord d base t) (js ''baseUrl'') = (case base of Some b \<Rightarrow> JStr b | None \<Rightarrow> JUndefined)"
  "truthy (pinRecord d base t)"
  using pin_names by (auto simp: pinRecord_def getMember_Cons split: option.splits)

lemma readOriginPin_record: "readRecord st origin = pinRecord d base t \<Longrightarrow>
  readOriginPin st origin = (if d = [] then None else Some \<lparr>pinRpDid = d, pinBaseUrl = base\<rparr>)"
  by (cases base) (simp_all add: readOriginPin_def Let_def)

lemma readRecord_clear: "readRecord (clearOriginPin o' st) origin = (if o' = origin then JUndefined else readRecord st origin)"
  by (simp add: readRecord_def clearOriginPin_def pinKey_def)

text \<open>The base URL a login leaves pinned.\<close>

definition baseAfter :: "urlParser \<Rightarrow> localStore \<Rightarrow> jsstr \<Rightarrow> jsstr \<Rightarrow> jsstr option \<Rightarrow> jsval" where
  "baseAfter parseUrl st origin rpDid baseUrl =
     (case baseUrl of
        Some raw \<Rightarrow> (case normalizeBaseUrl parseUrl raw of Some t \<Rightarrow> JStr t | None \<Rightarrow> JUndefined)
      | None \<Rightarrow>
          let prior = readRecord st origin in
          if truthy prior \<and> strictEq (getProp prior (js ''rpDid'')) (JStr rpDid) then getProp prior (js ''baseUrl'') else JUndefined)"

lemma readRecord_pin:
  "readRecord (pinOrigin parseUrl t o' d b st) origin =
    (if o' = origin then JObj ([(js ''rpDid'', JStr d)] @
        (if truthy (baseAfter parseUrl st o' d b) then [(js ''baseUrl'', baseAfter parseUrl st o' d b)] else []) @ [(js ''pinnedAt'', JInt t)])
     else readRecord st origin)"
proof -
  have "pinOrigin parseUrl t o' d b st = st(pinKey o' \<mapsto> JObj ([(js ''rpDid'', JStr d)] @
      (if truthy (baseAfter parseUrl st o' d b) then [(js ''baseUrl'', baseAfter parseUrl st o' d b)] else []) @ [(js ''pinnedAt'', JInt t)]))"
    unfolding pinOrigin_def baseAfter_def Let_def ..
  then show ?thesis by (simp add: readRecord_def pinKey_def)
qed

lemma readRecord_pin_same:
  assumes "baseAfter parseUrl st origin d b = (case base of Some x \<Rightarrow> JStr x | None \<Rightarrow> JUndefined)" and "base \<noteq> Some []"
  shows "readRecord (pinOrigin parseUrl t origin d b st) origin = pinRecord d base t"
  using assms by (cases base) (simp_all add: readRecord_pin pinRecord_def)

definition approvedBase :: "urlParser \<Rightarrow> jsstr \<Rightarrow> jsstr \<Rightarrow> jsstr \<Rightarrow> pinEvent list \<Rightarrow> bool" where
  "approvedBase parseUrl origin d x evs \<longleftrightarrow>
     (\<exists>before t raw after. evs = before @ LoginApproved t origin d (Some raw) # after \<and> normalizeBaseUrl parseUrl raw = Some x \<and>
        \<not> list_ex (endsBase origin d) after)"

definition lastLogin :: "jsstr \<Rightarrow> jsstr \<Rightarrow> pinEvent list \<Rightarrow> bool" where
  "lastLogin origin d evs \<longleftrightarrow>
     (\<exists>before t base after. evs = before @ LoginApproved t origin d base # after \<and> \<not> list_ex (concerns origin) after)"

lemma approvedBase_more:
  assumes "approvedBase parseUrl origin d x evs" and "\<not> endsBase origin d ev"
  shows "approvedBase parseUrl origin d x (evs @ [ev])"
proof -
  from assms(1) obtain before t raw after where "evs = before @ LoginApproved t origin d (Some raw) # after"
    "normalizeBaseUrl parseUrl raw = Some x" "\<not> list_ex (endsBase origin d) after" unfolding approvedBase_def by blast
  with assms(2) show ?thesis unfolding approvedBase_def
    by (intro exI [of _ before] exI [of _ t] exI [of _ raw] exI [of _ "after @ [ev]"]) simp
qed

lemma lastLogin_more:
  assumes "lastLogin origin d evs" and "\<not> concerns origin ev"
  shows "lastLogin origin d (evs @ [ev])"
proof -
  from assms(1) obtain before t base after where "evs = before @ LoginApproved t origin d base # after"
    "\<not> list_ex (concerns origin) after" unfolding lastLogin_def by blast
  with assms(2) show ?thesis unfolding lastLogin_def
    by (intro exI [of _ before] exI [of _ t] exI [of _ base] exI [of _ "after @ [ev]"]) simp
qed

lemma concerns_ends: "endsBase origin d ev \<Longrightarrow> concerns origin ev"
  by (cases ev) auto

definition pinExplained :: "urlParser \<Rightarrow> pinEvent list \<Rightarrow> jsstr \<Rightarrow> bool" where
  "pinExplained parseUrl evs origin \<longleftrightarrow>
     readRecord (pinsAfter parseUrl evs) origin = JUndefined \<or>
     (\<exists>d base t. readRecord (pinsAfter parseUrl evs) origin = pinRecord d base t \<and> lastLogin origin d evs \<and> base \<noteq> Some [] \<and>
        (case base of Some x \<Rightarrow> approvedBase parseUrl origin d x evs | None \<Rightarrow> True))"

lemma pinsAfter_snoc: "pinsAfter parseUrl (evs @ [ev]) = pinStep parseUrl ev (pinsAfter parseUrl evs)"
  by (simp add: pinsAfter_def)

lemma explained_unconcerned:
  assumes "pinExplained parseUrl evs origin" and "\<not> concerns origin ev"
    and "readRecord (pinsAfter parseUrl (evs @ [ev])) origin = readRecord (pinsAfter parseUrl evs) origin"
  shows "pinExplained parseUrl (evs @ [ev]) origin"
proof -
  have "\<not> endsBase origin d ev" for d using assms(2) concerns_ends by blast
  then have m: "lastLogin origin d evs \<Longrightarrow> lastLogin origin d (evs @ [ev])"
    "approvedBase parseUrl origin d x evs \<Longrightarrow> approvedBase parseUrl origin d x (evs @ [ev])" for d x
    using lastLogin_more [OF _ assms(2)] approvedBase_more by blast+
  from assms(1) show ?thesis unfolding pinExplained_def assms(3)
  proof (elim disjE exE conjE, goal_cases)
    case (2 d base t)
    then show ?case using m(1) [of d] m(2) [of d]
      by (intro disjI2 exI [of _ d] exI [of _ base] exI [of _ t]) (cases base, simp_all)
  qed simp
qed

lemma explained: "pinExplained parseUrl evs origin"
proof (induction evs rule: rev_induct)
  case Nil
  show ?case by (simp add: pinExplained_def pinsAfter_def readRecord_def)
next
  case (snoc ev evs)
  show ?case
  proof (cases "concerns origin ev")
    case False
    then have "readRecord (pinsAfter parseUrl (evs @ [ev])) origin = readRecord (pinsAfter parseUrl evs) origin"
      by (cases ev) (simp_all add: pinsAfter_snoc readRecord_pin readRecord_clear)
    with snoc False show ?thesis by (rule explained_unconcerned)
  next
    case c: True
    show ?thesis
    proof (cases ev)
      case (PinCleared o')
      with c show ?thesis by (simp add: pinExplained_def pinsAfter_snoc readRecord_clear)
    next
      case (LoginApproved t o' d b)
      with c have ev: "ev = LoginApproved t origin d b" by simp
      let ?st = "pinsAfter parseUrl evs"
      have "\<exists>base. baseAfter parseUrl ?st origin d b = (case base of Some x \<Rightarrow> JStr x | None \<Rightarrow> JUndefined) \<and>
          (base \<noteq> None \<longrightarrow> approvedBase parseUrl origin d (the base) (evs @ [ev]))"
      proof (cases b)
        case (Some raw)
        have "approvedBase parseUrl origin d x (evs @ [ev])" if "normalizeBaseUrl parseUrl raw = Some x" for x
          unfolding approvedBase_def ev Some using that by (intro exI [of _ evs] exI [of _ t] exI [of _ raw] exI [of _ "[]"]) simp
        with Some show ?thesis by (intro exI [of _ "normalizeBaseUrl parseUrl raw"]) (auto simp: baseAfter_def split: option.splits)
      next
        case None
        show ?thesis
        proof (cases "baseAfter parseUrl ?st origin d b = JUndefined")
          case True
          then show ?thesis by (intro exI [of _ None]) simp
        next
          case False
          then have tr: "truthy (readRecord ?st origin)" "strictEq (getProp (readRecord ?st origin) (js ''rpDid'')) (JStr d)"
            "baseAfter parseUrl ?st origin d b = getProp (readRecord ?st origin) (js ''baseUrl'')"
            unfolding baseAfter_def None by (auto simp: Let_def split: if_splits)
          then have "readRecord ?st origin \<noteq> JUndefined" by auto
          with snoc obtain d' base t' where r: "readRecord ?st origin = pinRecord d' base t'"
            "case base of Some x \<Rightarrow> approvedBase parseUrl origin d' x evs | None \<Rightarrow> True"
            unfolding pinExplained_def by blast
          from tr(2) r(1) have d: "d' = d" by (simp add: strictEq_def)
          have "\<not> endsBase origin d ev" by (simp add: ev None)
          with r(2) d have "base \<noteq> None \<longrightarrow> approvedBase parseUrl origin d (the base) (evs @ [ev])"
            using approvedBase_more by (auto split: option.splits)
          with tr(3) r(1) show ?thesis by (intro exI [of _ base]) simp
        qed
      qed
      then obtain base where base: "baseAfter parseUrl ?st origin d b = (case base of Some x \<Rightarrow> JStr x | None \<Rightarrow> JUndefined)"
        "base \<noteq> None \<longrightarrow> approvedBase parseUrl origin d (the base) (evs @ [ev])" by blast
      have l: "lastLogin origin d (evs @ [ev])"
        unfolding lastLogin_def ev by (intro exI [of _ evs] exI [of _ t] exI [of _ b] exI [of _ "[]"]) simp
      show ?thesis
      proof (cases "base = Some []")
        case True
        then have "readRecord (pinOrigin parseUrl t origin d b ?st) origin = pinRecord d None t"
          using base(1) by (simp add: readRecord_pin pinRecord_def)
        with l show ?thesis unfolding pinExplained_def pinsAfter_snoc ev pinStep.simps
          by (intro disjI2 exI [of _ d] exI [of _ None] exI [of _ t]) simp
      next
        case False
        from readRecord_pin_same [OF base(1) this] l False base(2) show ?thesis unfolding pinExplained_def pinsAfter_snoc ev pinStep.simps
          by (intro disjI2 exI [of _ d] exI [of _ base] exI [of _ t]) (auto split: option.splits)
      qed
    qed
  qed
qed

lemma pinned_login:
  assumes "pageSignBindingRefusal origin (readOriginPin (pinsAfter parseUrl evs) origin) recipient = None"
  shows "lastLogin origin recipient evs"
proof -
  from assms obtain p where p: "readOriginPin (pinsAfter parseUrl evs) origin = Some p" "recipient = pinRpDid p"
    by (auto simp: pageSignBindingRefusal_def split: option.splits if_splits)
  then have "readRecord (pinsAfter parseUrl evs) origin \<noteq> JUndefined" by (auto simp: readOriginPin_def)
  with explained [of parseUrl evs origin] obtain d base t where
    r: "readRecord (pinsAfter parseUrl evs) origin = pinRecord d base t" "lastLogin origin d evs" unfolding pinExplained_def by blast
  from readOriginPin_record [OF r(1)] p have "recipient = d" by (auto split: if_splits)
  with r(2) show ?thesis by blast
qed

text \<open>A page's document passes the binding check only when the last login approved on that origin, with no removal of the
  pin since, was to the very relying party the document is addressed to.\<close>
theorem sign_only_for_approved_rp:
  assumes "pageSignBindingRefusal origin (readOriginPin (pinsAfter parseUrl evs) origin) recipient = None"
  shows "\<exists>before t base after. evs = before @ LoginApproved t origin recipient base # after \<and> \<not> list_ex (concerns origin) after"
  using pinned_login [OF assms] unfolding lastLogin_def .

definition aParser :: urlParser where
  "aParser raw = (if startsWith raw (js ''https://'') then Some \<lparr>siteProtocol = js ''https:'', siteUsername = [], sitePassword = [],
     siteSearch = [], siteHash = [], siteOrigin = raw, sitePathname = js ''/''\<rparr> else None)"

definition aLogin :: pinEvent where
  "aLogin = LoginApproved 1 (js ''https://a.example'') (js ''did:web:rp'') (Some (js ''https://api.example''))"

lemma aLogin_pin:
  "readOriginPin (pinsAfter aParser [aLogin]) (js ''https://a.example'') =
     Some \<lparr>pinRpDid = js ''did:web:rp'', pinBaseUrl = Some (js ''https://api.example'')\<rparr>"
  by (simp add: pinsAfter_def aLogin_def pinOrigin_def readOriginPin_def readRecord_def normalizeBaseUrl_def aParser_def startsWith_def
      getMember_Cons js_def)

lemma sign_only_for_approved_rp_witness:
  "\<exists>before t base after. [aLogin] = before @ LoginApproved t (js ''https://a.example'') (js ''did:web:rp'') base # after \<and>
     \<not> list_ex (concerns (js ''https://a.example'')) after"
  by (rule sign_only_for_approved_rp [of _ aParser]) (simp add: aLogin_pin pageSignBindingRefusal_def)

text \<open>C16: A page may start a step-up only at a relying party and base URL that one login approved on that origin, with no
  removal, no login to another relying party and no login with a base URL since; logins that name no base URL leave it standing.\<close>
theorem step_up_only_where_signed_in:
  assumes "pageStepUpBindingRefusal parseUrl origin (readOriginPin (pinsAfter parseUrl evs) origin) rpDid baseUrl = None"
  shows "\<exists>before t raw after. evs = before @ LoginApproved t origin rpDid (Some raw) # after \<and>
    normalizeBaseUrl parseUrl raw \<noteq> None \<and> normalizeBaseUrl parseUrl raw = normalizeBaseUrl parseUrl baseUrl \<and>
    \<not> list_ex (endsBase origin rpDid) after"
proof -
  from assms obtain p x where p: "readOriginPin (pinsAfter parseUrl evs) origin = Some p" "rpDid = pinRpDid p" "pinBaseUrl p = Some x"
    "normalizeBaseUrl parseUrl baseUrl = Some x"
    by (auto simp: pageStepUpBindingRefusal_def split: option.splits if_splits)
  then have "readRecord (pinsAfter parseUrl evs) origin \<noteq> JUndefined" by (auto simp: readOriginPin_def)
  with explained [of parseUrl evs origin] obtain d base t where
    r: "readRecord (pinsAfter parseUrl evs) origin = pinRecord d base t" "case base of Some x \<Rightarrow> approvedBase parseUrl origin d x evs | None \<Rightarrow> True"
    unfolding pinExplained_def by blast
  from readOriginPin_record [OF r(1)] p(1) have "p = \<lparr>pinRpDid = d, pinBaseUrl = base\<rparr>" by (simp split: if_splits)
  with p r(2) show ?thesis unfolding approvedBase_def by force
qed

lemma step_up_only_where_signed_in_witness:
  "\<exists>before t raw after. [aLogin] = before @ LoginApproved t (js ''https://a.example'') (js ''did:web:rp'') (Some raw) # after \<and>
    normalizeBaseUrl aParser raw \<noteq> None \<and> normalizeBaseUrl aParser raw = normalizeBaseUrl aParser (js ''https://api.example'') \<and>
    \<not> list_ex (endsBase (js ''https://a.example'') (js ''did:web:rp'')) after"
proof (rule step_up_only_where_signed_in)
  have "normalizeBaseUrl aParser (js ''https://api.example'') = Some (js ''https://api.example'')"
    by (simp add: normalizeBaseUrl_def aParser_def startsWith_def js_def)
  then show "pageStepUpBindingRefusal aParser (js ''https://a.example'') (readOriginPin (pinsAfter aParser [aLogin]) (js ''https://a.example''))
      (js ''did:web:rp'') (js ''https://api.example'') = None"
    unfolding aLogin_pin by (simp add: pageStepUpBindingRefusal_def) (simp add: js_def)
qed

end
