(* ===== verification/Approver_Policy.thy ===== *)
theory Approver_Policy
  imports Page_Policy
begin

text \<open>
  What a page may do with the wallet's step-up approver: \<open>packages/extension/src/approver-policy.ts\<close>. A document is any
  JavaScript value; \<open>===\<close> of two of its parts is \<open>strictEq\<close>. The facts show which documents around an approver's
  statement are signable: exactly those that carry the statement the wallet issued, with what was shown when it was.
\<close>

subsection \<open>Printing a value in a message\<close>

text \<open>\<open>String(v)\<close> of a value read from JSON.\<close>

fun jsString :: "jsval \<Rightarrow> jsstr" where
  "jsString JNull = js ''null''"
| "jsString JUndefined = js ''undefined''"
| "jsString (JBool b) = js (if b then ''true'' else ''false'')"
| "jsString (JInt i) = intString i"
| "jsString (JFloat t) = t"
| "jsString JNonFinite = js ''NaN''"
| "jsString (JStr s) = s"
| "jsString (JArr vs) = joinWith (js '','') (map (\<lambda>v. if isNullish v then [] else jsString v) vs)"
| "jsString (JObj ms) = js ''[object Object]''"

subsection \<open>Statements\<close>

definition APPROVE_RESPONSE :: jsstr where "APPROVE_RESPONSE = SPEC ''auth/step-up/approve-response/0.7''"
definition APPROVE_RESPONSE_FAMILY :: jsstr where "APPROVE_RESPONSE_FAMILY = SPEC ''auth/step-up/approve-response/''"
definition TASK_CONSENT_DECISION_0_2 :: jsstr where "TASK_CONSENT_DECISION_0_2 = SPEC ''task-consent/decision/0.2''"
definition ISSUED_STATEMENT_TTL_MS :: int where "ISSUED_STATEMENT_TTL_MS = 300000"

text \<open>What is remembered of an issued statement; the values a page gave are kept as they came.\<close>

record issuedStatement =
  isStatement :: jsval
  isOrigin :: jsstr
  isAudience :: jsstr
  isSubject :: jsval
  isChallengeText :: jsval
  isExpiresAt :: int
  isPurpose :: "jsstr option"
  isPayloadDigest :: jsval
  isDecision :: jsval
  isReason :: jsval
  isActionId :: jsval

definition pageApproverAudienceRefusal :: "jsstr \<Rightarrow> pageRpPin option \<Rightarrow> jsval \<Rightarrow> jsstr option" where
  "pageApproverAudienceRefusal origin pin audience =
     (case audience of
        JStr a \<Rightarrow>
          if \<not> startsWith a (js ''did:'') then Some (js ''A step-up approver call needs the relying party's DID as audience.'')
          else (case pin of
            None \<Rightarrow> Some (origin @ js '' has no relying party pinned, so the wallet will not use a step-up approver '' @
              js ''for it. Sign in from this site first: the login prompt is where the site's relying '' @
              js ''party is shown and confirmed, and it pins that pairing.'')
          | Some p \<Rightarrow>
              if a \<noteq> pinRpDid p then
                Some (js ''The approver call names the relying party '' @ a @ js '', but '' @ origin @ js '' is pinned to '' @ pinRpDid p @
                  js ''. A page can only use the approver it holds for the relying party it was '' @ js ''signed in to.'')
              else None)
      | _ \<Rightarrow> Some (js ''A step-up approver call needs the relying party's DID as audience.''))"

definition evidenceOf :: "jsval \<Rightarrow> jsval" where
  "evidenceOf envelope = getProp (getProp envelope (js ''payload'')) (js ''evidence'')"

definition textId :: "jsval \<Rightarrow> jsstr option" where
  "textId v = (case v of JStr s \<Rightarrow> if s \<noteq> [] then Some s else None | _ \<Rightarrow> None)"

definition approverResponseStatementId :: "jsval \<Rightarrow> jsstr option" where
  "approverResponseStatementId envelope = textId (getProp (getProp (evidenceOf envelope) (js ''statement'')) (js ''id''))"

definition RESPONSE_MEMBERS :: "jsstr set" where
  "RESPONSE_MEMBERS = {js ''subject'', js ''challenge'', js ''decision'', js ''evidence'', js ''sessionId''}"

definition sameCanonical :: "jsval \<Rightarrow> jsval \<Rightarrow> bool" where
  "sameCanonical a b = (case (jcsCanonicalize a, jcsCanonicalize b) of (Inr s, Inr t) \<Rightarrow> s = t | _ \<Rightarrow> False)"

text \<open>The first member outside a set, in the order of the object.\<close>

definition strayMember :: "jsstr set \<Rightarrow> members \<Rightarrow> jsstr option" where
  "strayMember allowed ms = find (\<lambda>k. k \<notin> allowed) (map fst ms)"

text \<open>Early returns: each refuses when its condition holds, else what follows decides.\<close>

definition orElse :: "bool \<times> jsstr \<Rightarrow> jsstr option \<Rightarrow> jsstr option" where
  "orElse c rest = (if fst c then Some (snd c) else rest)"

definition refuseIf :: "(bool \<times> jsstr) list \<Rightarrow> jsstr option" where
  "refuseIf cs = foldr orElse cs None"

definition responseWhy :: "jsval \<Rightarrow> issuedStatement option \<Rightarrow> jsstr \<Rightarrow> jsval \<Rightarrow> int \<Rightarrow> jsstr option" where
  "responseWhy envelope issued origin asDid now =
     (case envelope of
        JObj doc \<Rightarrow>
          if \<not> strictEq (getMember doc (js ''type'')) (JStr APPROVE_RESPONSE) then
            Some (js ''its type is '' @ jsString (getMember doc (js ''type'')) @ js ''; this wallet signs approver statements only as '' @ APPROVE_RESPONSE)
          else if getMember doc (js ''proof'') \<noteq> JUndefined then Some (js ''it is already signed'')
          else (case getMember doc (js ''payload'') of
            JObj p \<Rightarrow>
              (case strayMember RESPONSE_MEMBERS p of
                 Some k \<Rightarrow> Some (js ''it carries an unexpected member '' @ k)
               | None \<Rightarrow>
                 if \<not> strictEq (getMember p (js ''decision'')) (JStr (js ''approved'')) then Some (js ''only an approval is built this way'')
                 else (case getMember p (js ''evidence'') of
                   JObj ev \<Rightarrow>
                     if \<not> strictEq (getMember ev (js ''kind'')) (JStr (js ''approverSigned'')) then Some (js ''its evidence is not an approver's statement'')
                     else (case strayMember {js ''kind'', js ''statement''} ev of
                       Some k \<Rightarrow> Some (js ''its evidence carries '' @ k)
                     | None \<Rightarrow>
                       (case issued of
                          None \<Rightarrow> Some (js ''it carries no statement this wallet's approver issued to it'')
                        | Some i \<Rightarrow> refuseIf
                            [(case isPurpose i of None \<Rightarrow> False | Some u \<Rightarrow> u \<noteq> js ''stepUp'',
                                js ''the statement it carries was issued for a decision, not a step-up''),
                             (isExpiresAt i < now, js ''the approver's statement has lapsed''),
                             (isOrigin i \<noteq> origin, js ''the statement was issued to another page''),
                             (\<not> strictEq (getMember doc (js ''recipient'')) (JStr (isAudience i)), js ''it is not addressed to the relying party the statement is for''),
                             (\<not> strictEq (getMember p (js ''subject'')) (isSubject i) \<or> \<not> strictEq (getMember p (js ''challenge'')) (isChallengeText i),
                                js ''its subject or challenge differs from the statement's''),
                             (\<not> strictEq asDid (isSubject i), js ''it must be signed as its subject''),
                             (getMember doc (js ''issuer'') \<noteq> JUndefined \<and> \<not> strictEq (getMember doc (js ''issuer'')) (isSubject i), js ''its issuer is not its subject''),
                             (\<not> sameCanonical (getMember ev (js ''statement'')) (isStatement i), js ''the statement it carries is not the one this wallet issued'')]))
                 | _ \<Rightarrow> Some (js ''its evidence is not an approver's statement'')))
          | _ \<Rightarrow> Some (js ''it has no payload''))
      | _ \<Rightarrow> Some (js ''it is not a Trust Task document''))"

definition approverResponseRefusal :: "jsval \<Rightarrow> issuedStatement option \<Rightarrow> jsstr \<Rightarrow> jsval \<Rightarrow> int \<Rightarrow> jsstr option" where
  "approverResponseRefusal envelope issued origin asDid now =
     map_option (\<lambda>why. js ''An approver-signed approve-response cannot be signed for this page: '' @ why @ js ''.'')
       (responseWhy envelope issued origin asDid now)"

definition attestApproverPurposeRefusal :: "jsval \<Rightarrow> jsstr option" where
  "attestApproverPurposeRefusal purpose =
     (if strictEq purpose (JStr (js ''enrol'')) then None
      else if strictEq purpose (JStr (js ''decision'')) then
        Some (js ''attestApprover does not sign decision statements; use approveDecision, which shows the action and checks its payloadDigest.'')
      else if strictEq purpose (JStr (js ''stepUp'')) then Some (js ''attestApprover does not sign step-up statements; use approveStepUp.'')
      else Some (js ''attestApprover signs enrolment statements only (purpose: enrol)''))"

definition decisionStatementId :: "jsval \<Rightarrow> jsstr option" where
  "decisionStatementId envelope =
     (let ev = evidenceOf envelope in
      if \<not> strictEq (getProp ev (js ''kind'')) (JStr (js ''approverSigned'')) then None
      else textId (getProp (getProp ev (js ''statement'')) (js ''id'')))"

definition isApproverSignedResponse :: "jsval \<Rightarrow> bool" where
  "isApproverSignedResponse envelope \<longleftrightarrow>
     (case getProp envelope (js ''type'') of JStr ty \<Rightarrow> startsWith ty APPROVE_RESPONSE_FAMILY | _ \<Rightarrow> False) \<and>
     strictEq (getProp (evidenceOf envelope) (js ''kind'')) (JStr (js ''approverSigned''))"

definition isApproverSignedDecision :: "jsval \<Rightarrow> bool" where
  "isApproverSignedDecision envelope \<longleftrightarrow>
     strictEq (getProp envelope (js ''type'')) (JStr TASK_CONSENT_DECISION_0_2) \<and>
     strictEq (getProp (evidenceOf envelope) (js ''kind'')) (JStr (js ''approverSigned''))"

definition DECISION_MEMBERS :: "jsstr set" where
  "DECISION_MEMBERS = {js ''challenge'', js ''payloadDigest'', js ''decision'', js ''reason'', js ''actionId'', js ''evidence''}"

definition orUndefined :: "jsval \<Rightarrow> jsval" where
  "orUndefined v = (if isNullish v then JUndefined else v)"

definition decisionWhy :: "jsval \<Rightarrow> issuedStatement option \<Rightarrow> jsstr \<Rightarrow> jsval \<Rightarrow> int \<Rightarrow> jsstr option" where
  "decisionWhy envelope issued origin asDid now =
     (case envelope of
        JObj doc \<Rightarrow>
          if \<not> strictEq (getMember doc (js ''type'')) (JStr TASK_CONSENT_DECISION_0_2) then Some (js ''wrong type'')
          else if getMember doc (js ''proof'') \<noteq> JUndefined then Some (js ''it is already signed'')
          else (case getMember doc (js ''payload'') of
            JObj p \<Rightarrow>
              (case strayMember DECISION_MEMBERS p of
                 Some k \<Rightarrow> Some (js ''it carries an unexpected member '' @ k)
               | None \<Rightarrow>
                 (case getMember p (js ''evidence'') of
                   JObj ev \<Rightarrow>
                     if \<not> strictEq (getMember ev (js ''kind'')) (JStr (js ''approverSigned'')) then Some (js ''its evidence is not an approver's statement'')
                     else (case strayMember {js ''kind'', js ''statement''} ev of
                       Some k \<Rightarrow> Some (js ''its evidence carries '' @ k)
                     | None \<Rightarrow>
                       (case issued of
                          None \<Rightarrow> Some (js ''it carries no statement this wallet's approver issued to it'')
                        | Some i \<Rightarrow> refuseIf
                            [(isPurpose i \<noteq> Some (js ''decision''), js ''the statement it carries was not issued for a decision''),
                             (isExpiresAt i < now, js ''the approver's statement has lapsed''),
                             (isOrigin i \<noteq> origin, js ''the statement was issued to another page''),
                             (\<not> strictEq (getMember doc (js ''recipient'')) (JStr (isAudience i)), js ''it is not addressed to the relying party the statement is for''),
                             (\<not> strictEq (getMember p (js ''challenge'')) (isChallengeText i) \<or> \<not> strictEq (getMember p (js ''payloadDigest'')) (isPayloadDigest i),
                                js ''its challenge or payloadDigest differs from the statement's''),
                             (\<not> strictEq (getMember p (js ''decision'')) (isDecision i),
                                js ''its decision is not the '' @ jsString (isDecision i) @ js '' that was approved''),
                             (\<not> strictEq (orUndefined (getMember p (js ''reason''))) (orUndefined (isReason i)),
                                js ''its reason is not the one shown when it was approved''),
                             (\<not> strictEq (orUndefined (getMember p (js ''actionId''))) (orUndefined (isActionId i)),
                                js ''its actionId is not the action that was shown''),
                             (\<not> strictEq asDid (isSubject i), js ''it must be signed as the statement's subject''),
                             (getMember doc (js ''issuer'') \<noteq> JUndefined \<and> \<not> strictEq (getMember doc (js ''issuer'')) (isSubject i),
                                js ''its issuer is not the statement's subject''),
                             (\<not> sameCanonical (getMember ev (js ''statement'')) (isStatement i), js ''the statement it carries is not the one this wallet issued'')]))
                 | _ \<Rightarrow> Some (js ''its evidence is not an approver's statement'')))
          | _ \<Rightarrow> Some (js ''it has no payload''))
      | _ \<Rightarrow> Some (js ''it is not a Trust Task document''))"

definition decisionResponseRefusal :: "jsval \<Rightarrow> issuedStatement option \<Rightarrow> jsstr \<Rightarrow> jsval \<Rightarrow> int \<Rightarrow> jsstr option" where
  "decisionResponseRefusal envelope issued origin asDid now =
     map_option (\<lambda>why. TASK_CONSENT_DECISION_0_2 @ js '' with an approver's statement cannot be signed for this page: '' @ why @ js ''.'')
       (decisionWhy envelope issued origin asDid now)"

subsection \<open>What the human is shown\<close>

definition clip500 :: "jsstr \<Rightarrow> jsstr" where "clip500 s = take 500 s"

definition decisionSummaryText :: "jsval \<Rightarrow> jsstr option" where
  "decisionSummaryText summary =
     (case summary of
        JStr s \<Rightarrow> if clip500 s = [] then None else Some (clip500 s)
      | JObj ms \<Rightarrow>
          (let parts = concat (map (\<lambda>v. case v of JStr s \<Rightarrow> if s \<noteq> [] then [s] else [] | _ \<Rightarrow> [])
                 [getMember ms (js ''title''), getMember ms (js ''effect'')])
           in if parts = [] then None else Some (clip500 (joinWith emDash parts)))
      | _ \<Rightarrow> None)"

text \<open>The characters \<open>INVISIBLE\<close>, each spelled out as an escape in upper-case hexadecimal.\<close>

definition isInvisible :: "16 word \<Rightarrow> bool" where
  "isInvisible u \<longleftrightarrow> (0x200B \<le> unat u \<and> unat u \<le> 0x200F) \<or> (0x202A \<le> unat u \<and> unat u \<le> 0x202E) \<or>
     (0x2060 \<le> unat u \<and> unat u \<le> 0x2064) \<or> (0x2066 \<le> unat u \<and> unat u \<le> 0x2069) \<or> unat u = 0xFEFF"

definition upperHex :: "nat \<Rightarrow> 16 word" where
  "upperHex d = word_of_nat (if d < 10 then 48 + d else 55 + d)"

definition spellOut :: "16 word \<Rightarrow> jsstr" where
  "spellOut u = [92, 117] @ map (\<lambda>k. upperHex (unat u div 16 ^ k mod 16)) [3, 2, 1, 0]"

text \<open>The text is that of \<open>JSON.stringify(payload, null, 2)\<close>, given by the platform.\<close>

definition renderOperationPayload :: "(jsval \<Rightarrow> jsstr option) \<Rightarrow> jsval \<Rightarrow> jsstr" where
  "renderOperationPayload indented payload =
     concat (map (\<lambda>ch. if isInvisible ch then spellOut ch else [ch])
       (case indented payload of Some t \<Rightarrow> t | None \<Rightarrow> jsString payload))"

record approverConsentRequest =
  acKind :: jsstr
  acOrigin :: jsstr
  acAudience :: jsstr
  acApproverDid :: "jsstr option"
  acSubject :: "jsstr option"
  acReason :: "jsstr option"
  acOperation :: "(jsstr \<times> jsval) option"
  acChallenge :: "jsstr option"
  acBoundTo :: "jsstr option"
  acDecision :: "jsstr option"
  acSummary :: "jsstr option"
  acActionId :: "jsstr option"

definition orEmpty :: "jsstr option \<Rightarrow> jsstr" where
  "orEmpty s = (case s of Some t \<Rightarrow> t | None \<Rightarrow> [])"

definition approverGestureBinding :: "approverConsentRequest \<Rightarrow> jsstr" where
  "approverGestureBinding req = joinWith [0]
     ([js ''vta-approver/'' @ acKind req, acAudience req, orEmpty (acSubject req), orEmpty (acChallenge req), orEmpty (acBoundTo req)] @
      (if acKind req = js ''decision'' then [orEmpty (acDecision req)] else []))"

subsection \<open>Which documents are signable\<close>

lemma refuseIf_None: "refuseIf cs = None \<longleftrightarrow> \<not> list_ex fst cs"
  by (induction cs) (auto simp: refuseIf_def orElse_def)

lemma strayMember_None: "strayMember A ms = None \<longleftrightarrow> set (map fst ms) \<subseteq> A"
  by (auto simp: strayMember_def find_None_iff)

lemma strictEq_JStr [simp]: "strictEq v (JStr s) \<longleftrightarrow> v = JStr s"
  by (auto simp: strictEq_def)

lemma valOk_getMember: "valOk (JObj ms) \<Longrightarrow> valOk (getMember ms k)"
  by (auto simp: getMember_def list_all_iff dest!: map_of_SomeD split: option.splits)

lemma sameCanonical_iff:
  assumes "valOk a" and "valOk b"
  shows "sameCanonical a b \<longleftrightarrow> jsonValue a \<and> jsonValue b \<and> norm a = norm b"
proof -
  have r: "(\<exists>s. enc v = Inr s) \<longleftrightarrow> jsonValue v" for v using enc_returns(1) [of v] by (auto simp: returns_iff)
  show ?thesis
  proof (cases "enc a"; cases "enc b")
    fix s t assume e: "enc a = Inr s" "enc b = Inr t"
    with canonical_iff [OF e assms] r [of a] r [of b] show ?thesis by (simp add: sameCanonical_def jcsCanonicalize_def)
  qed (use r [of a] r [of b] in \<open>auto simp: sameCanonical_def jcsCanonicalize_def\<close>)
qed

text \<open>A document around an approver's statement: its type, its payload and the statement its evidence carries; nothing else in
  the payload but \<open>allowed\<close>, nothing else in the evidence, and no proof.\<close>

definition wrapsStatement :: "jsstr \<Rightarrow> jsstr set \<Rightarrow> members \<Rightarrow> members \<Rightarrow> jsval \<Rightarrow> bool" where
  "wrapsStatement ty allowed doc p statement \<longleftrightarrow>
     getMember doc (js ''type'') = JStr ty \<and> getMember doc (js ''proof'') = JUndefined \<and> getMember doc (js ''payload'') = JObj p \<and>
     set (map fst p) \<subseteq> allowed \<and>
     (\<exists>ev. getMember p (js ''evidence'') = JObj ev \<and> getMember ev (js ''kind'') = JStr (js ''approverSigned'') \<and>
        set (map fst ev) \<subseteq> {js ''kind'', js ''statement''} \<and> getMember ev (js ''statement'') = statement)"

text \<open>Issued to the page, still live, for the party the document is addressed to, signed as its subject.\<close>

definition liveFor :: "issuedStatement \<Rightarrow> jsstr \<Rightarrow> jsval \<Rightarrow> int \<Rightarrow> members \<Rightarrow> bool" where
  "liveFor i origin asDid now doc \<longleftrightarrow>
     isOrigin i = origin \<and> now \<le> isExpiresAt i \<and> getMember doc (js ''recipient'') = JStr (isAudience i) \<and>
     strictEq asDid (isSubject i) \<and>
     (getMember doc (js ''issuer'') = JUndefined \<or> strictEq (getMember doc (js ''issuer'')) (isSubject i))"

definition answersStepUp :: "issuedStatement \<Rightarrow> members \<Rightarrow> bool" where
  "answersStepUp i p \<longleftrightarrow>
     (isPurpose i = None \<or> isPurpose i = Some (js ''stepUp'')) \<and> getMember p (js ''decision'') = JStr (js ''approved'') \<and>
     strictEq (getMember p (js ''subject'')) (isSubject i) \<and> strictEq (getMember p (js ''challenge'')) (isChallengeText i)"

definition answersDecision :: "issuedStatement \<Rightarrow> members \<Rightarrow> bool" where
  "answersDecision i p \<longleftrightarrow>
     isPurpose i = Some (js ''decision'') \<and> strictEq (getMember p (js ''decision'')) (isDecision i) \<and>
     strictEq (getMember p (js ''challenge'')) (isChallengeText i) \<and> strictEq (getMember p (js ''payloadDigest'')) (isPayloadDigest i) \<and>
     strictEq (orUndefined (getMember p (js ''reason''))) (orUndefined (isReason i)) \<and>
     strictEq (orUndefined (getMember p (js ''actionId''))) (orUndefined (isActionId i))"

text \<open>The early returns, read backwards.\<close>

lemma passes:
  "(case v of JObj ms \<Rightarrow> f ms | _ \<Rightarrow> Some e) = None \<longleftrightarrow> (\<exists>ms. v = JObj ms \<and> f ms = None)"
  "(case opt of Some k \<Rightarrow> Some (g k) | None \<Rightarrow> z) = None \<longleftrightarrow> opt = None \<and> z = None"
  "(case opt' of None \<Rightarrow> Some e | Some i \<Rightarrow> h i) = None \<longleftrightarrow> (\<exists>i. opt' = Some i \<and> h i = None)"
  "(if c then Some e else z) = None \<longleftrightarrow> \<not> c \<and> z = None"
  by (auto split: jsval.splits option.splits)

lemma purpose_case: "(case pu of None \<Rightarrow> False | Some u \<Rightarrow> u \<noteq> x) \<longleftrightarrow> \<not> (pu = None \<or> pu = Some x)"
  by (cases pu) auto

lemma response_iff:
  "approverResponseRefusal envelope issued origin asDid now = None \<longleftrightarrow>
     (\<exists>doc p statement i. envelope = JObj doc \<and> issued = Some i \<and> wrapsStatement APPROVE_RESPONSE RESPONSE_MEMBERS doc p statement \<and>
        answersStepUp i p \<and> liveFor i origin asDid now doc \<and> sameCanonical statement (isStatement i))"
  unfolding approverResponseRefusal_def responseWhy_def option.map_disc_iff passes refuseIf_None strayMember_None strictEq_JStr
    wrapsStatement_def answersStepUp_def liveFor_def
  by (auto simp: not_less purpose_case)

lemma decision_iff:
  "decisionResponseRefusal envelope issued origin asDid now = None \<longleftrightarrow>
     (\<exists>doc p statement i. envelope = JObj doc \<and> issued = Some i \<and> wrapsStatement TASK_CONSENT_DECISION_0_2 DECISION_MEMBERS doc p statement \<and>
        answersDecision i p \<and> liveFor i origin asDid now doc \<and> sameCanonical statement (isStatement i))"
  unfolding decisionResponseRefusal_def decisionWhy_def option.map_disc_iff passes refuseIf_None strayMember_None strictEq_JStr
    wrapsStatement_def answersDecision_def liveFor_def
  by (auto simp: not_less)

text \<open>The gesture of an approval is bound to what the prompt names, when no part holds the separator.\<close>

lemma binding_split:
  assumes "0 \<notin> set a" and "0 \<notin> set b" and "a @ (0 :: 16 word) # x = b @ 0 # y"
  shows "a = b \<and> x = y"
proof -
  have "takeWhile (\<lambda>u. u \<noteq> 0) (c @ 0 # z) = c" if "0 \<notin> set c" for c z :: jsstr using that by (subst takeWhile_append2) auto
  with assms have "a = b" by metis
  with assms(3) show ?thesis by simp
qed

definition plainRequest :: "approverConsentRequest \<Rightarrow> bool" where
  "plainRequest req \<longleftrightarrow> 0 \<notin> set (acKind req) \<union> set (acAudience req) \<union> set (orEmpty (acSubject req)) \<union>
     set (orEmpty (acChallenge req)) \<union> set (orEmpty (acBoundTo req)) \<union> set (orEmpty (acDecision req))"

lemma gesture_bound:
  assumes "approverGestureBinding a = approverGestureBinding b" and "plainRequest a" and "plainRequest b"
  shows "acKind a = acKind b \<and> acAudience a = acAudience b \<and> orEmpty (acSubject a) = orEmpty (acSubject b) \<and>
    orEmpty (acChallenge a) = orEmpty (acChallenge b) \<and> orEmpty (acBoundTo a) = orEmpty (acBoundTo b)"
proof -
  have z: "(0 :: 16 word) \<notin> set (js ''vta-approver/'')" by (simp add: js_def)
  let ?k = "\<lambda>r. js ''vta-approver/'' @ acKind r"
  let ?tail = "\<lambda>r. orEmpty (acBoundTo r) @ (if acKind r = js ''decision'' then 0 # orEmpty (acDecision r) else [])"
  have e: "approverGestureBinding r = ?k r @ 0 # acAudience r @ 0 # orEmpty (acSubject r) @ 0 # orEmpty (acChallenge r) @ 0 # ?tail r" for r
    by (cases "acKind r = js ''decision''") (simp_all add: approverGestureBinding_def del: js_append)
  from assms(2,3) have p: "0 \<notin> set (?k a)" "0 \<notin> set (?k b)" "0 \<notin> set (acAudience a)" "0 \<notin> set (acAudience b)"
    "0 \<notin> set (orEmpty (acSubject a))" "0 \<notin> set (orEmpty (acSubject b))" "0 \<notin> set (orEmpty (acChallenge a))" "0 \<notin> set (orEmpty (acChallenge b))"
    "0 \<notin> set (orEmpty (acBoundTo a))" "0 \<notin> set (orEmpty (acBoundTo b))"
    using z unfolding plainRequest_def set_append by blast+
  from binding_split [OF p(1,2)] assms(1) have k: "?k a = ?k b"
    and 1: "acAudience a @ 0 # orEmpty (acSubject a) @ 0 # orEmpty (acChallenge a) @ 0 # ?tail a =
      acAudience b @ 0 # orEmpty (acSubject b) @ 0 # orEmpty (acChallenge b) @ 0 # ?tail b" unfolding e by blast+
  from binding_split [OF p(3,4) 1] have u: "acAudience a = acAudience b"
    and 2: "orEmpty (acSubject a) @ 0 # orEmpty (acChallenge a) @ 0 # ?tail a = orEmpty (acSubject b) @ 0 # orEmpty (acChallenge b) @ 0 # ?tail b" by blast+
  from binding_split [OF p(5,6) 2] have s: "orEmpty (acSubject a) = orEmpty (acSubject b)"
    and 3: "orEmpty (acChallenge a) @ 0 # ?tail a = orEmpty (acChallenge b) @ 0 # ?tail b" by blast+
  from binding_split [OF p(7,8) 3] have c: "orEmpty (acChallenge a) = orEmpty (acChallenge b)" and t: "?tail a = ?tail b" by blast+
  from k have kk: "acKind a = acKind b" by simp
  have "orEmpty (acBoundTo a) = orEmpty (acBoundTo b)"
  proof (cases "acKind a = js ''decision''")
    case True
    then have "orEmpty (acBoundTo a) @ 0 # orEmpty (acDecision a) = orEmpty (acBoundTo b) @ 0 # orEmpty (acDecision b)"
      using t unfolding kk by simp
    from binding_split [OF p(9,10) this] show ?thesis by blast
  next
    case False
    with t show ?thesis unfolding kk by simp
  qed
  with kk u s c show ?thesis by blast
qed

text \<open>With the separator inside a part the binding of two different requests is the same: a challenge or a subject is any text
  of the page that has the right length.\<close>

definition decisionRequest :: "jsstr \<Rightarrow> jsstr \<Rightarrow> approverConsentRequest" where
  "decisionRequest subject challenge =
     \<lparr>acKind = js ''decision'', acOrigin = js ''https://a.example'', acAudience = js ''did:web:rp'', acApproverDid = None, acSubject = Some subject,
      acReason = None, acOperation = None, acChallenge = Some challenge, acBoundTo = Some (js ''e''), acDecision = Some (js ''approve''),
      acSummary = None, acActionId = None\<rparr>"

lemma gesture_binding_collides:
  "approverGestureBinding (decisionRequest (js ''did:a'') (js ''c'' @ [0] @ js ''d'')) =
   approverGestureBinding (decisionRequest (js ''did:a'' @ [0] @ js ''c'') (js ''d''))"
  by (simp add: approverGestureBinding_def decisionRequest_def orEmpty_def)

end
