(* ===== verification/Approver_Attest.thy ===== *)
theory Approver_Attest
  imports Digests Task_Consent
begin

text \<open>
  The statements an approver of the wallet signs: \<open>packages/core/src/trust-tasks/approver-attest.ts\<close>. A request, an
  operation, an action and a decision come from a page and are any value. The facts show what the checks accept, and
  that an accepted statement is bound to the one operation that was shown.
\<close>

subsection \<open>Refusals\<close>

datatype approverRefusalCode = MalformedStepUp | NotOffered | BoundToMismatch | NotApproverSigned | SubjectIsApprover | NotEnrolled

fun approverRefusalText :: "approverRefusalCode \<Rightarrow> jsstr" where
  "approverRefusalText MalformedStepUp = js ''step-up-approver/malformed-request''"
| "approverRefusalText NotOffered = js ''step-up-approver/not-offered''"
| "approverRefusalText BoundToMismatch = js ''step-up-approver/bound-to-mismatch''"
| "approverRefusalText NotApproverSigned = js ''step-up-approver/approver-signed-not-accepted''"
| "approverRefusalText SubjectIsApprover = js ''step-up-approver/subject-is-approver''"
| "approverRefusalText NotEnrolled = js ''step-up-approver/not-enrolled''"

text \<open>What escapes: the refusal with its message, the encoder's \<open>TypeError\<close>, or a failed signature.\<close>

datatype attestError = ApproverRefusal approverRefusalCode jsstr | AttestDigest jcsError | AttestSigning diError

definition enDash :: jsstr where "enDash = [0x2013]"

definition attestIsDid :: "jsval \<Rightarrow> bool" where
  "attestIsDid v = (case v of JStr s \<Rightarrow> startsWith s (js ''did:'') \<and> 5 \<le> length s \<and> length s \<le> 2048 | _ \<Rightarrow> False)"

definition isChallenge :: "jsval \<Rightarrow> bool" where
  "isChallenge v = (case v of JStr s \<Rightarrow> 16 \<le> length s \<and> length s \<le> 512 | _ \<Rightarrow> False)"

definition isBoundTo :: "jsval \<Rightarrow> bool" where
  "isBoundTo v = (case v of JStr s \<Rightarrow> 1 \<le> length s \<and> length s \<le> 256 | _ \<Rightarrow> False)"

record attestPayload =
  apPurpose :: jsval
  apSubject :: jsval
  apAudience :: jsval
  apChallenge :: jsval
  apBoundTo :: jsval

definition badAttest :: "jsstr \<Rightarrow> jsstr \<Rightarrow> attestError" where
  "badAttest what why = ApproverRefusal MalformedStepUp (what @ js '': '' @ why)"

definition challengeText :: jsstr where
  "challengeText = js ''challenge must be 16'' @ enDash @ js ''512 characters''"

definition checkAttestPayload :: "attestPayload \<Rightarrow> attestError + attestPayload" where
  "checkAttestPayload p =
     (let bad = badAttest (js ''approver statement'') in
      throwIf (apPurpose p \<notin> {JStr (js ''stepUp''), JStr (js ''decision''), JStr (js ''enrol'')}) (bad (js ''purpose must be stepUp, decision or enrol''))
      (throwIf (\<not> attestIsDid (apSubject p)) (bad (js ''subject must be a DID''))
      (throwIf (\<not> attestIsDid (apAudience p)) (bad (js ''audience must be a DID''))
      (throwIf (\<not> isChallenge (apChallenge p)) (bad challengeText)
      (throwIf (\<not> isBoundTo (apBoundTo p)) (bad (js ''boundTo must be 1'' @ enDash @ js ''256 characters''))
      (Inr p))))))"

text \<open>\<open>v.includes(s)\<close> where \<open>v\<close> is an array, and false where it is not.\<close>

definition arrayHas :: "jsval \<Rightarrow> jsstr \<Rightarrow> bool" where
  "arrayHas v s = (case v of JArr vs \<Rightarrow> JStr s \<in> set vs | _ \<Rightarrow> False)"

definition textOfVal :: "jsval \<Rightarrow> jsstr" where
  "textOfVal v = (case v of JStr s \<Rightarrow> s | _ \<Rightarrow> [])"

definition isNonEmptyText :: "jsval \<Rightarrow> bool" where
  "isNonEmptyText v = (case v of JStr s \<Rightarrow> s \<noteq> [] | _ \<Rightarrow> False)"

fun isPlainObject :: "jsval \<Rightarrow> bool" where
  "isPlainObject (JObj _) = True"
| "isPlainObject _ = False"

definition checkStepUpApproval :: "crypto \<Rightarrow> jsval \<Rightarrow> jsval \<Rightarrow> jsval \<Rightarrow> jsstr \<Rightarrow> attestError + attestPayload" where
  "checkStepUpApproval C request operation audience approverDid =
     (let bad = badAttest (js ''step-up request''); r = getProp request; oper = getProp operation in
      throwIf (\<not> isPlainObject request) (bad (js ''not an object''))
      (throwIf (\<not> attestIsDid (r (js ''subject''))) (bad (js ''subject must be a DID''))
      (throwIf (\<not> isChallenge (r (js ''challenge''))) (bad challengeText)
      (throwIf (asString (r (js ''reason'')) = None) (bad (js ''reason must be a string''))
      (throwIf (\<not> isBoundTo (r (js ''boundTo''))) (bad (js ''boundTo is absent'' @ emDash @ js ''it is not bound to one operation''))
      (throwIf (\<not> attestIsDid audience) (bad (js ''audience must be a DID''))
      (throwIf (\<not> isPlainObject operation) (bad (js ''operation must be {type, payload}''))
      (throwIf (\<not> isNonEmptyText (oper (js ''type''))) (bad (js ''operation.type must be a type URI''))
      (throwIf (oper (js ''payload'') = JUndefined) (bad (js ''operation.payload is absent''))
      (throwIf (\<not> arrayHas (r (js ''accepts'')) (js ''approverSigned''))
        (ApproverRefusal NotApproverSigned (js ''this step-up does not accept an approver's statement''))
      (throwIf (\<not> arrayHas (r (js ''approvers'')) approverDid)
        (ApproverRefusal NotOffered (js ''this wallet's approver for '' @ textOfVal audience @ js '' ('' @ approverDid @
          js '') is not one the community '' @ js ''has bound to this subject; enrol it first''))
      (throwIf (r (js ''subject'') = JStr approverDid)
        (ApproverRefusal SubjectIsApprover (js ''the approver cannot be the subject it approves for''))
      (bindE (mapErr AttestDigest (vtcStepUpBoundTo C (textOfVal (oper (js ''type''))) (oper (js ''payload'')) (textOfVal (r (js ''challenge''))))) (\<lambda>recomputed.
       throwIf (r (js ''boundTo'') \<noteq> JStr recomputed)
         (ApproverRefusal BoundToMismatch (js ''the step-up's boundTo is not the digest of the operation shown; refusing to sign''))
       (checkAttestPayload \<lparr>apPurpose = JStr (js ''stepUp''), apSubject = r (js ''subject''), apAudience = audience,
          apChallenge = r (js ''challenge''), apBoundTo = r (js ''boundTo'')\<rparr>)))))))))))))))"

definition statementEnvelope :: "jsstr \<Rightarrow> int \<Rightarrow> jsstr \<Rightarrow> attestPayload \<Rightarrow> members" where
  "statementEnvelope uuid now did p =
     [(js ''id'', JStr (js ''urn:uuid:'' @ uuid)), (js ''type'', JStr (js ''https://trusttasks.org/spec/auth/step-up/approver/attest/0.1'')),
      (js ''issuer'', JStr did), (js ''recipient'', apAudience p), (js ''issuedAt'', JStr (nowText now)),
      (js ''payload'', JObj [(js ''purpose'', apPurpose p), (js ''subject'', apSubject p), (js ''audience'', apAudience p),
         (js ''challenge'', apChallenge p), (js ''boundTo'', apBoundTo p)])]"

definition signApproverStatement :: "crypto \<Rightarrow> jsstr \<Rightarrow> int \<Rightarrow> int \<Rightarrow> attestPayload \<Rightarrow> jsstr \<Rightarrow> jsstr \<Rightarrow> bytes \<Rightarrow> attestError + members" where
  "signApproverStatement C uuid now signNow payload did kid key =
     bindE (checkAttestPayload payload) (\<lambda>p.
     throwIf (JStr did = apSubject p) (ApproverRefusal SubjectIsApprover (js ''the approver cannot be the subject it attests for''))
     (mapErr AttestSigning (signTrustTask C signNow (statementEnvelope uuid now did p) kid key AUTHENTICATION DEFAULT_CLOCK_SKEW_MS)))"

definition checkDecisionApproval :: "crypto \<Rightarrow> jsval \<Rightarrow> jsval \<Rightarrow> jsval \<Rightarrow> jsval \<Rightarrow> jsstr \<Rightarrow> attestError + attestPayload" where
  "checkDecisionApproval C subject action decision audience approverDid =
     (let bad = badAttest (js ''decision''); a = getProp action; d = getProp decision in
      throwIf (\<not> attestIsDid subject) (bad (js ''subject must be the administrator's DID''))
      (throwIf (\<not> attestIsDid audience) (bad (js ''audience must be a DID''))
      (throwIf (\<not> isPlainObject action) (bad (js ''action must be {type, payload}''))
      (throwIf (\<not> isNonEmptyText (a (js ''type''))) (bad (js ''action.type must be a type URI''))
      (throwIf (a (js ''payload'') = JUndefined) (bad (js ''action.payload is absent''))
      (throwIf (a (js ''actionId'') \<noteq> JUndefined \<and> \<not> isNonEmptyText (a (js ''actionId''))) (bad (js ''action.actionId must be a non-empty string''))
      (throwIf (\<not> isPlainObject decision) (bad (js ''decision must be {challenge, payloadDigest, decision}''))
      (throwIf (d (js ''decision'') \<notin> {JStr (js ''approve''), JStr (js ''deny'')}) (bad (js ''decision must be approve or deny''))
      (throwIf (\<not> isChallenge (d (js ''challenge''))) (bad challengeText)
      (throwIf (\<not> isBoundTo (d (js ''payloadDigest''))) (bad (js ''payloadDigest must be 1'' @ enDash @ js ''256 characters''))
      (throwIf (JStr approverDid = subject)
        (ApproverRefusal SubjectIsApprover (js ''the approver cannot be the administrator it vouches for''))
      (bindE (mapErr AttestDigest (taskConsentWireDigest C (textOfVal (a (js ''type''))) (a (js ''payload'')) (textOfVal (d (js ''challenge''))))) (\<lambda>recomputed.
       throwIf (d (js ''payloadDigest'') \<noteq> JStr recomputed)
         (ApproverRefusal BoundToMismatch (js ''the decision's payloadDigest is not the digest of the action shown; refusing to sign''))
       (checkAttestPayload \<lparr>apPurpose = JStr (js ''decision''), apSubject = subject, apAudience = audience,
          apChallenge = d (js ''challenge''), apBoundTo = d (js ''payloadDigest'')\<rparr>))))))))))))))"

subsection \<open>What the checks accept\<close>

lemma throwIf_ok: "throwIf b e m = Inr x \<longleftrightarrow> \<not> b \<and> m = Inr x"
  by simp

lemma checkAttest_iff:
  "checkAttestPayload p = Inr q \<longleftrightarrow> q = p \<and> apPurpose p \<in> {JStr (js ''stepUp''), JStr (js ''decision''), JStr (js ''enrol'')} \<and>
     attestIsDid (apSubject p) \<and> attestIsDid (apAudience p) \<and> isChallenge (apChallenge p) \<and> isBoundTo (apBoundTo p)"
  by (auto simp: checkAttestPayload_def Let_def)

text \<open>The operation a request is bound to, under the domain tag \<open>tag\<close>.\<close>

definition boundToOperation :: "crypto \<Rightarrow> jsstr \<Rightarrow> jsval \<Rightarrow> jsval \<Rightarrow> jsval \<Rightarrow> bool" where
  "boundToOperation C tag operation challenge boundTo \<longleftrightarrow>
     (\<exists>ms ty c dg. operation = JObj ms \<and> getMember ms (js ''type'') = JStr ty \<and> ty \<noteq> [] \<and> getMember ms (js ''payload'') \<noteq> JUndefined \<and>
        challenge = JStr c \<and> domainDigest C tag ty (getMember ms (js ''payload'')) (Some c) = Inr dg \<and> boundTo = JStr dg)"

definition asksApprover :: "crypto \<Rightarrow> members \<Rightarrow> jsval \<Rightarrow> jsstr \<Rightarrow> bool" where
  "asksApprover C r operation approverDid \<longleftrightarrow>
     asString (getMember r (js ''reason'')) \<noteq> None \<and> arrayHas (getMember r (js ''accepts'')) (js ''approverSigned'') \<and>
     arrayHas (getMember r (js ''approvers'')) approverDid \<and> getMember r (js ''subject'') \<noteq> JStr approverDid \<and>
     boundToOperation C VTC_STEP_UP_DOMAIN operation (getMember r (js ''challenge'')) (getMember r (js ''boundTo''))"

lemma plainObject: "isPlainObject v \<longleftrightarrow> (\<exists>ms. v = JObj ms)"
  by (cases v) auto

lemma nonEmptyText: "isNonEmptyText v \<longleftrightarrow> (\<exists>s. v = JStr s \<and> s \<noteq> [])"
  by (cases v) (auto simp: isNonEmptyText_def)

lemma challengeD: "isChallenge v \<Longrightarrow> \<exists>s. v = JStr s"
  by (cases v) (auto simp: isChallenge_def)

lemma step_up_check_iff:
  "checkStepUpApproval C request operation audience approverDid = Inr att \<longleftrightarrow>
     (\<exists>r. request = JObj r \<and> asksApprover C r operation approverDid \<and>
        att = \<lparr>apPurpose = JStr (js ''stepUp''), apSubject = getMember r (js ''subject''), apAudience = audience,
          apChallenge = getMember r (js ''challenge''), apBoundTo = getMember r (js ''boundTo'')\<rparr> \<and>
        checkAttestPayload att = Inr att)"
    (is "?l \<longleftrightarrow> ?r")
proof
  assume ?l
  then obtain r ms ty c dg where o: "request = JObj r" "operation = JObj ms" "getMember ms (js ''type'') = JStr ty" "ty \<noteq> []"
    "getMember r (js ''challenge'') = JStr c"
    "vtcStepUpBoundTo C ty (getMember ms (js ''payload'')) c = Inr dg"
    unfolding checkStepUpApproval_def Let_def throwIf_ok bindE_Inr
    by (auto simp: plainObject nonEmptyText textOfVal_def dest!: challengeD)
  with \<open>?l\<close> show ?r
    unfolding checkStepUpApproval_def Let_def throwIf_ok bindE_Inr asksApprover_def boundToOperation_def vtcStepUpBoundTo_def
    by (auto simp: textOfVal_def checkAttest_iff)
next
  assume ?r
  then obtain r ms ty c dg where o: "request = JObj r" "operation = JObj ms" "getMember ms (js ''type'') = JStr ty" "ty \<noteq> []"
    "getMember r (js ''challenge'') = JStr c" "getMember ms (js ''payload'') \<noteq> JUndefined"
    "vtcStepUpBoundTo C ty (getMember ms (js ''payload'')) c = Inr dg" "getMember r (js ''boundTo'') = JStr dg"
    unfolding asksApprover_def boundToOperation_def vtcStepUpBoundTo_def by blast
  with \<open>?r\<close> show ?l
    unfolding checkStepUpApproval_def Let_def throwIf_ok bindE_Inr asksApprover_def
    by (auto simp: textOfVal_def checkAttest_iff isNonEmptyText_def)
qed

definition decidesOn :: "crypto \<Rightarrow> members \<Rightarrow> jsval \<Rightarrow> bool" where
  "decidesOn C d action \<longleftrightarrow>
     getMember d (js ''decision'') \<in> {JStr (js ''approve''), JStr (js ''deny'')} \<and>
     boundToOperation C TASK_CONSENT_DOMAIN action (getMember d (js ''challenge'')) (getMember d (js ''payloadDigest'')) \<and>
     (getProp action (js ''actionId'') = JUndefined \<or> isNonEmptyText (getProp action (js ''actionId'')))"

lemma decision_check_iff:
  "checkDecisionApproval C subject action decision audience approverDid = Inr att \<longleftrightarrow>
     (\<exists>d. decision = JObj d \<and> decidesOn C d action \<and> subject \<noteq> JStr approverDid \<and>
        att = \<lparr>apPurpose = JStr (js ''decision''), apSubject = subject, apAudience = audience,
          apChallenge = getMember d (js ''challenge''), apBoundTo = getMember d (js ''payloadDigest'')\<rparr> \<and>
        checkAttestPayload att = Inr att)"
    (is "?l \<longleftrightarrow> ?r")
proof
  assume ?l
  then obtain d ms ty c dg where o: "decision = JObj d" "action = JObj ms" "getMember ms (js ''type'') = JStr ty" "ty \<noteq> []"
    "getMember d (js ''challenge'') = JStr c"
    "taskConsentWireDigest C ty (getMember ms (js ''payload'')) c = Inr dg"
    unfolding checkDecisionApproval_def Let_def throwIf_ok bindE_Inr
    by (auto simp: plainObject nonEmptyText textOfVal_def dest!: challengeD)
  with \<open>?l\<close> show ?r
    unfolding checkDecisionApproval_def Let_def throwIf_ok bindE_Inr decidesOn_def boundToOperation_def taskConsentWireDigest_def
    by (auto simp: textOfVal_def checkAttest_iff)
next
  assume ?r
  then obtain d ms ty c dg where o: "decision = JObj d" "action = JObj ms" "getMember ms (js ''type'') = JStr ty" "ty \<noteq> []"
    "getMember d (js ''challenge'') = JStr c" "getMember ms (js ''payload'') \<noteq> JUndefined"
    "taskConsentWireDigest C ty (getMember ms (js ''payload'')) c = Inr dg" "getMember d (js ''payloadDigest'') = JStr dg"
    unfolding decidesOn_def boundToOperation_def taskConsentWireDigest_def by blast
  with \<open>?r\<close> show ?l
    unfolding checkDecisionApproval_def Let_def throwIf_ok bindE_Inr decidesOn_def
    by (auto simp: textOfVal_def checkAttest_iff isNonEmptyText_def)
qed

text \<open>C12: What an approver is asked to sign is bound to the operation that was shown: the wallet's check of a step-up accepts
  only when the bound digest is the one of the shown operation under the request's challenge. So, among operations whose payload
  is an object, with no member twice, of well-formed text (\<open>operationOk\<close>; payloads with lone surrogates share digests without any
  collision, \<open>lone_surrogates_not_covered\<close>), the statement can stand for another operation, be it another step-up or a
  decision on an action, only if SHA-256 collides on the two byte strings: it has the same domain, the same payload up to the order of
  members, and a type and a challenge with the same UTF-8 encoding.\<close>
theorem statement_binds_shown_operation:
  assumes "checkStepUpApproval C request (JObj oper) audience approverDid = Inr att"
    and "getMember oper (js ''type'') = JStr ty" and "getMember oper (js ''payload'') = JObj p" and "apChallenge att = JStr c"
    and "tag \<in> {VTC_STEP_UP_DOMAIN, TASK_CONSENT_DOMAIN}" and "domainDigest C tag ty' (JObj p') (Some c') = Inr dg"
    and "apBoundTo att = JStr dg" and "operationOk ty p" and "operationOk ty' p'"
    and "inj_on (sha256 C) {operationBytes VTC_STEP_UP_DOMAIN ty p (Some c), operationBytes tag ty' p' (Some c')}"
  shows "tag = VTC_STEP_UP_DOMAIN \<and> textEncode ty' = textEncode ty \<and> sameDoc p p' \<and> textEncode c' = textEncode c"
proof -
  from assms(1) obtain r where "asksApprover C r (JObj oper) approverDid" "apChallenge att = getMember r (js ''challenge'')"
    "apBoundTo att = getMember r (js ''boundTo'')" unfolding step_up_check_iff by auto
  with assms(2-4,7) have d: "domainDigest C VTC_STEP_UP_DOMAIN ty (JObj p) (Some c) = Inr dg"
    by (auto simp: asksApprover_def boundToOperation_def)
  from digest_binds [OF _ assms(5,8,9) d assms(6,10)] show ?thesis by (simp add: saltText_def)
qed

definition shownOperation :: members where
  "shownOperation = [(js ''type'', JStr (js ''t'')), (js ''payload'', JObj [])]"

definition aStepUpRequest :: "jsstr \<Rightarrow> jsval" where
  "aStepUpRequest dg = JObj [(js ''subject'', JStr (js ''did:a'')), (js ''challenge'', JStr (js ''0123456789abcdef'')), (js ''reason'', JStr []),
     (js ''boundTo'', JStr dg), (js ''accepts'', JArr [JStr (js ''approverSigned'')]), (js ''approvers'', JArr [JStr (js ''did:b'')])]"

text \<open>Every digest the wallet computes is a bound value: the text of 34 bytes has at most 103 characters.\<close>

lemma pushCarry_small: "c < 256 \<Longrightarrow> length (pushCarry 58 c) \<le> 2"
  by (simp add: pushCarry.simps [of 58])

lemma carryLoop_length:
  "\<forall>d \<in> set ds. d < 58 \<Longrightarrow> c < 256 \<Longrightarrow> length (carryLoop 256 58 c ds) \<le> length ds + 2"
proof (induction ds arbitrary: c)
  case Nil
  from pushCarry_small [OF Nil(2)] show ?case by (simp add: numeral_2_eq_2)
next
  case (Cons d ds)
  then have "(c + d * 256) div 58 < 256" by (simp add: less_mult_imp_div_less)
  with Cons show ?case by (simp add: Let_def)
qed

lemma digits_length:
  "canonicalDigits 58 (foldl (\<lambda>ds b. carryLoop 256 58 (unat b) ds) [] (bs :: bytes)) \<and>
   length (foldl (\<lambda>ds b. carryLoop 256 58 (unat b) ds) [] bs) \<le> 2 * length bs"
proof (induction bs rule: rev_induct)
  case (snoc b bs)
  let ?ds = "foldl (\<lambda>ds b. carryLoop 256 58 (unat b) ds) [] bs"
  have "unat b < 256" using unsigned_less [of b] by simp
  moreover have "\<forall>d \<in> set ?ds. d < 58" using snoc by (simp add: canonicalDigits_def)
  ultimately have "length (carryLoop 256 58 (unat b) ?ds) \<le> length ?ds + 2" by (intro carryLoop_length)
  with snoc carryLoop_canonical [of 58 256 ?ds "unat b"] show ?case by simp
qed (simp add: canonicalDigits_def)

lemma digest_isBoundTo:
  assumes "length (sha256 C (digestPreimage tag ty c salt)) = 32" and "domainDigest C tag ty p salt = Inr dg" and "jcsCanonicalize p = Inr c"
  shows "isBoundTo (JStr dg)"
proof -
  let ?bs = "MULTIHASH_SHA2_256_32 @ sha256 C (digestPreimage tag ty c salt)"
  from assms(2,3) have d: "dg = js ''z'' @ base58btcEncode ?bs" unfolding domainDigest_Inr by simp
  have "length (takeWhile (\<lambda>b. b = 0) ?bs) \<le> length ?bs" by (rule length_takeWhile_le)
  with digits_length [of ?bs] have "length (base58btcEncode ?bs) \<le> 3 * length ?bs" by (simp add: base58btcEncode_def Let_def)
  also have "length ?bs = 34" using assms(1) by (simp add: MULTIHASH_SHA2_256_32_def)
  finally show ?thesis unfolding d by (simp add: isBoundTo_def js_def)
qed

lemma statement_binds_shown_operation_witness:
  "\<exists>dg att. checkStepUpApproval sampleCrypto (aStepUpRequest dg) (JObj [(js ''type'', JStr (js ''t'')), (js ''payload'', JObj samplePayload)])
        (JStr (js ''did:rp'')) (js ''did:b'') = Inr att \<and>
     domainDigest sampleCrypto VTC_STEP_UP_DOMAIN (js ''t'') (JObj swappedPayload) (Some (js ''0123456789abcdef'')) = Inr dg \<and>
     samplePayload \<noteq> swappedPayload \<and> sameDoc samplePayload swappedPayload"
proof -
  let ?c = "js ''0123456789abcdef''"
  let ?oper = "[(js ''type'', JStr (js ''t'')), (js ''payload'', JObj samplePayload)]"
  note e = sample_payloads
  obtain dg where dg: "domainDigest sampleCrypto VTC_STEP_UP_DOMAIN (js ''t'') (JObj samplePayload) (Some ?c) = Inr dg"
    "domainDigest sampleCrypto VTC_STEP_UP_DOMAIN (js ''t'') (JObj swappedPayload) (Some ?c) = Inr dg"
    using e(1,2) by (simp add: domainDigest_def)
  have inj: "inj_on (sha256 sampleCrypto) {operationBytes VTC_STEP_UP_DOMAIN (js ''t'') samplePayload (Some ?c), operationBytes VTC_STEP_UP_DOMAIN (js ''t'') swappedPayload (Some ?c)}"
    using e(1,2) by (simp add: operationBytes_def canonicalText_def)
  have b: "isBoundTo (JStr dg)" by (rule digest_isBoundTo [OF _ dg(1) e(1)]) (simp add: sampleCrypto_def)
  have m: "getMember ?oper (js ''type'') = JStr (js ''t'')" "getMember ?oper (js ''payload'') = JObj samplePayload"
    by (simp_all add: getMember_Cons js_def)
  let ?r = "[(js ''subject'', JStr (js ''did:a'')), (js ''challenge'', JStr ?c), (js ''reason'', JStr []),
     (js ''boundTo'', JStr dg), (js ''accepts'', JArr [JStr (js ''approverSigned'')]), (js ''approvers'', JArr [JStr (js ''did:b'')])]"
  have r: "getMember ?r (js ''subject'') = JStr (js ''did:a'')" "getMember ?r (js ''challenge'') = JStr ?c" "getMember ?r (js ''reason'') = JStr []"
    "getMember ?r (js ''boundTo'') = JStr dg" "getMember ?r (js ''accepts'') = JArr [JStr (js ''approverSigned'')]"
    "getMember ?r (js ''approvers'') = JArr [JStr (js ''did:b'')]"
    by (simp_all add: getMember_Cons js_def)
  let ?att = "\<lparr>apPurpose = JStr (js ''stepUp''), apSubject = JStr (js ''did:a''), apAudience = JStr (js ''did:rp''),
     apChallenge = JStr ?c, apBoundTo = JStr dg\<rparr>"
  have "asksApprover sampleCrypto ?r (JObj ?oper) (js ''did:b'')"
    unfolding asksApprover_def boundToOperation_def r using m dg(1) by (simp add: arrayHas_def) (simp add: js_def)
  moreover have "checkAttestPayload ?att = Inr ?att"
    unfolding checkAttest_iff using b by (simp add: attestIsDid_def isChallenge_def startsWith_def js_def)
  ultimately have "checkStepUpApproval sampleCrypto (aStepUpRequest dg) (JObj ?oper) (JStr (js ''did:rp'')) (js ''did:b'') = Inr ?att"
    unfolding step_up_check_iff aStepUpRequest_def by (intro exI [of _ ?r]) (simp only: r simp_thms)
  moreover from statement_binds_shown_operation [OF this m _ _ dg(2) _ e(4,5) inj] have "sameDoc samplePayload swappedPayload" by simp
  ultimately show ?thesis using dg(2) e(3) by blast
qed

subsection \<open>Signed statements\<close>

text \<open>A statement the approver signs verifies at the relying party as the approver's, and says what was checked: it is
  addressed to the audience, names its subject, challenge and bound value, and is never signed by its own subject.\<close>
theorem signed_statement_verifies:
  assumes "cryptoOk C" and "length key = 32" and "signApproverStatement C uuid now signNow payload did kid key = Inr doc"
    and "hasHash kid" and "publishes L kid (edPublicKey C key) AUTHENTICATION" and "sameDoc received doc"
  shows "verifyTrustTaskProof C L (Some AUTHENTICATION) received = Inr (Verified (stripScidSrc L (controllerOf kid))) \<and>
    getMember doc (js ''issuer'') = JStr did \<and> getMember doc (js ''recipient'') = apAudience payload \<and>
    getProp (getMember doc (js ''payload'')) (js ''boundTo'') = apBoundTo payload \<and>
    getProp (getMember doc (js ''payload'')) (js ''subject'') = apSubject payload \<and> apSubject payload \<noteq> JStr did"
proof -
  from assms(3) have s: "signTrustTask C signNow (statementEnvelope uuid now did payload) kid key AUTHENTICATION DEFAULT_CLOCK_SKEW_MS = Inr doc"
    "apSubject payload \<noteq> JStr did"
    unfolding signApproverStatement_def bindE_Inr throwIf_ok checkAttest_iff by auto
  then obtain v where doc: "doc = setMember (js ''proof'') v (statementEnvelope uuid now did payload)" unfolding signTrustTask_Inr by blast
  have "distinct (map fst (statementEnvelope uuid now did payload))" by (simp add: statementEnvelope_def js_def)
  from signed_verifies [OF assms(1,2) s(1) assms(4,5) this assms(6)] s(2) show ?thesis
    unfolding doc by (simp add: getMember_setMember) (simp add: statementEnvelope_def getMember_Cons js_def)
qed

lemma signed_statement_verifies_witness:
  "\<exists>doc. signApproverStatement sampleCrypto (js ''u'') 0 60000 \<lparr>apPurpose = JStr (js ''enrol''), apSubject = JStr (js ''did:a''),
      apAudience = JStr (js ''did:rp''), apChallenge = JStr (js ''0123456789abcdef''), apBoundTo = JStr (js ''b'')\<rparr> (js ''did:x'') (js ''did:x#k'')
      (replicate 32 1) = Inr doc \<and> getMember doc (js ''issuer'') = JStr (js ''did:x'')"
proof -
  let ?p = "\<lparr>apPurpose = JStr (js ''enrol''), apSubject = JStr (js ''did:a''), apAudience = JStr (js ''did:rp''),
      apChallenge = JStr (js ''0123456789abcdef''), apBoundTo = JStr (js ''b'')\<rparr>"
  let ?L = "sampleDidLib (js ''did:x#k'') (replicate 32 1) AUTHENTICATION"
  have ok: "checkAttestPayload ?p = Inr ?p"
    unfolding checkAttest_iff by (simp add: attestIsDid_def isChallenge_def isBoundTo_def startsWith_def js_def)
  obtain doc where "signTrustTask sampleCrypto 60000 (statementEnvelope (js ''u'') 0 (js ''did:x'') ?p) (js ''did:x#k'') (replicate 32 1)
      AUTHENTICATION DEFAULT_CLOCK_SKEW_MS = Inr doc"
    using signing_returns [OF _ _ sample_signature(1), of "statementEnvelope (js ''u'') 0 (js ''did:x'') ?p" 60000 DEFAULT_CLOCK_SKEW_MS]
    by (simp add: DEFAULT_CLOCK_SKEW_MS_def statementEnvelope_def) blast
  then have doc: "signApproverStatement sampleCrypto (js ''u'') 0 60000 ?p (js ''did:x'') (js ''did:x#k'') (replicate 32 1) = Inr doc"
    unfolding signApproverStatement_def ok by (simp add: js_def)
  have c: "controllerOf (js ''did:x#k'') = js ''did:x''" "hasHash (js ''did:x#k'')"
    by (simp_all add: controllerOf_def hasHash_def fragmentOf_def js_def)
  have "publishes ?L (js ''did:x#k'') (edPublicKey sampleCrypto (replicate 32 1)) AUTHENTICATION"
    unfolding sample_signature(2) by (rule sample_publishes, unfold c) (simp_all add: startsWith_def js_def AUTHENTICATION_def)
  from signed_statement_verifies [OF sampleCrypto_ok _ doc c(2) this, of doc] doc show ?thesis by (simp add: sameDoc_def)
qed

end
