(* ===== verification/Approver_Store.thy ===== *)
theory Approver_Store
  imports Approver_Attest Kv_Store
begin

text \<open>
  The step-up approvers of the wallet, one key per relying party: \<open>packages/core/src/store/step-up-approver.ts\<close>, with
  \<open>secret-wrap.ts\<close> and \<open>approver-prf-wrap.ts\<close> of the same directory. The store is the extension's
  \<open>IndexedDBKVStore\<close>. Curves and signatures are those of \<open>crypto\<close>; AES-GCM and HKDF of the platform and the encoders of
  \<open>@openvtc/vti-didcomm-js\<close> are the record \<open>approverLib\<close>; what the code draws at random is an argument.
\<close>

subsection \<open>What the code calls\<close>

datatype approverError =
    SetupRequired | StoreThrew jsstr | StoreRefused attestError | StoreCrypto tsp_error | DecryptFailed | NotBase64

record approverLib =
  b64Encode :: "bytes \<Rightarrow> jsstr"
  b64Decode :: "jsstr \<Rightarrow> approverError + bytes"
  edMultikey :: "bytes \<Rightarrow> jsstr"
  aesEncrypt :: "bytes \<Rightarrow> bytes \<Rightarrow> bytes \<Rightarrow> bytes \<Rightarrow> bytes"
  aesDecrypt :: "bytes \<Rightarrow> bytes \<Rightarrow> bytes \<Rightarrow> bytes \<Rightarrow> approverError + bytes"
  hkdfKey :: "bytes \<Rightarrow> bytes \<Rightarrow> bytes \<Rightarrow> bytes"

definition approverLibOk :: "approverLib \<Rightarrow> bool" where
  "approverLibOk L \<longleftrightarrow> (\<forall>b. b64Decode L (b64Encode L b) = Inr b) \<and>
     (\<forall>k iv aad m. aesDecrypt L k iv aad (aesEncrypt L k iv aad m) = Inr m)"

subsection \<open>Wrapping a secret\<close>

record wrappedSecret =
  wsAlgorithm :: jsstr
  wsCiphertext :: jsstr
  wsIv :: jsstr

text \<open>A wrap draws its initialisation vector, the first argument; \<open>None\<close> is the \<open>null\<close> of a wrap that declined.\<close>

record secretWrap =
  swAlgorithm :: jsstr
  swWrap :: "bytes \<Rightarrow> bytes \<Rightarrow> wrappedSecret option"
  swUnwrap :: "wrappedSecret \<Rightarrow> approverError + bytes option"

definition passthroughWrap :: "approverLib \<Rightarrow> bytes \<Rightarrow> wrappedSecret" where
  "passthroughWrap L secret = \<lparr>wsAlgorithm = js ''passthrough'', wsCiphertext = b64Encode L secret, wsIv = []\<rparr>"

definition passthroughUnwrap :: "approverLib \<Rightarrow> wrappedSecret \<Rightarrow> approverError + bytes" where
  "passthroughUnwrap L wrapped = b64Decode L (wsCiphertext wrapped)"

definition quoted :: "jsstr \<Rightarrow> jsstr" where "quoted t = [39] @ t @ [39]"

definition wrapSecret :: "approverLib \<Rightarrow> bytes \<Rightarrow> bytes \<Rightarrow> secretWrap option \<Rightarrow> approverError + wrappedSecret" where
  "wrapSecret L iv secret wrap =
     (case wrap of
        Some w \<Rightarrow> (case swWrap w iv secret of
            Some wrapped \<Rightarrow> Inr wrapped
          | None \<Rightarrow> Inl (StoreThrew (js ''SecretWrap '' @ quoted (swAlgorithm w) @ js '' declined to wrap (operator cancelled?)'')))
      | None \<Rightarrow> Inr (passthroughWrap L secret))"

definition unwrapSecret :: "approverLib \<Rightarrow> wrappedSecret \<Rightarrow> secretWrap option \<Rightarrow> approverError + bytes" where
  "unwrapSecret L wrapped wrap =
     (if wsAlgorithm wrapped = js ''passthrough'' then passthroughUnwrap L wrapped
      else case wrap of
        None \<Rightarrow> Inl (StoreThrew (js ''wallet is wrapped with '' @ quoted (wsAlgorithm wrapped) @ js '' but no matching SecretWrap was supplied''))
      | Some w \<Rightarrow>
          throwIf (swAlgorithm w \<noteq> wsAlgorithm wrapped)
            (StoreThrew (js ''wallet is wrapped with '' @ quoted (wsAlgorithm wrapped) @ js '' but no matching SecretWrap was supplied''))
          (bindE (swUnwrap w wrapped) (\<lambda>secret. orThrow secret
            (StoreThrew (js ''SecretWrap '' @ quoted (swAlgorithm w) @ js '' declined to unwrap (operator cancelled?)'')))))"

definition APPROVER_INFO :: jsstr where "APPROVER_INFO = js ''pnm/approver-secret/aes-gcm/v1''"
definition APPROVER_WRAP_ALGORITHM :: jsstr where "APPROVER_WRAP_ALGORITHM = js ''webauthn-prf-aes-gcm/approver''"
definition SIGN_IN_UV_INFO :: jsstr where "SIGN_IN_UV_INFO = js ''pnm/sign-in-uv-secret/aes-gcm/v1''"
definition SIGN_IN_UV_WRAP_ALGORITHM :: jsstr where "SIGN_IN_UV_WRAP_ALGORITHM = js ''webauthn-prf-aes-gcm/sign-in-uv''"

definition derivePrfKek :: "approverLib \<Rightarrow> bytes \<Rightarrow> jsstr \<Rightarrow> bytes" where
  "derivePrfKek L prfOutput info = hkdfKey L prfOutput [] (textEncode info)"

definition prfDomainWrap :: "approverLib \<Rightarrow> jsstr \<Rightarrow> jsstr \<Rightarrow> bytes \<Rightarrow> secretWrap" where
  "prfDomainWrap L algorithm info prfOutput =
     \<lparr>swAlgorithm = algorithm,
      swWrap = (\<lambda>iv secret. Some \<lparr>wsAlgorithm = algorithm,
        wsCiphertext = b64Encode L (aesEncrypt L (derivePrfKek L prfOutput info) iv [] secret), wsIv = b64Encode L iv\<rparr>),
      swUnwrap = (\<lambda>wrapped. bindE (b64Decode L (wsIv wrapped)) (\<lambda>iv. bindE (b64Decode L (wsCiphertext wrapped)) (\<lambda>c.
        bindE (aesDecrypt L (derivePrfKek L prfOutput info) iv [] c) (\<lambda>m. Inr (Some m)))))\<rparr>"

definition approverPrfWrap :: "approverLib \<Rightarrow> bytes \<Rightarrow> secretWrap" where
  "approverPrfWrap L = prfDomainWrap L APPROVER_WRAP_ALGORITHM APPROVER_INFO"

definition signInUvPrfWrap :: "approverLib \<Rightarrow> bytes \<Rightarrow> secretWrap" where
  "signInUvPrfWrap L = prfDomainWrap L SIGN_IN_UV_WRAP_ALGORITHM SIGN_IN_UV_INFO"

subsection \<open>Records\<close>

definition STEP_UP_PREFIX :: jsstr where "STEP_UP_PREFIX = js ''pnm/step-up-approver/v1/''"
definition SEAL_KEY :: jsstr where "SEAL_KEY = STEP_UP_PREFIX @ js ''seal''"
definition AUD_PREFIX :: jsstr where "AUD_PREFIX = STEP_UP_PREFIX @ js ''aud/''"
definition DTTE_APPROVER_PREFIX :: jsstr where "DTTE_APPROVER_PREFIX = js ''pnm/approver-identity/v1/''"
definition SEAL_INFO :: jsstr where "SEAL_INFO = js ''pnm/step-up-approver/seal/v1''"

definition audienceKey :: "jsstr \<Rightarrow> jsstr" where "audienceKey audience = AUD_PREFIX @ audience"

record sealRecord =
  sealPublicText :: jsstr
  sealWrapped :: wrappedSecret

record sealedSeed =
  ssEphemeral :: jsstr
  ssIv :: jsstr
  ssCiphertext :: jsstr

record approverRecord =
  arDid :: jsstr
  arKid :: jsstr
  arAudience :: jsstr
  arSealed :: sealedSeed
  arCreatedAt :: jsstr

text \<open>What the store holds: a record of this module, or another module's with the \<open>did\<close> it may carry.\<close>

datatype stored = SealStored sealRecord | ApproverStored approverRecord | OtherStored "jsstr option"

type_synonym approverKv = "stored memKv"

fun storedDid :: "stored option \<Rightarrow> jsstr option" where
  "storedDid (Some (ApproverStored r)) = Some (arDid r)"
| "storedDid (Some (OtherStored d)) = d"
| "storedDid _ = None"

definition approverAt :: "approverKv \<Rightarrow> jsstr \<Rightarrow> approverRecord option" where
  "approverAt st audience = (case memGet st (audienceKey audience) of Some (ApproverStored r) \<Rightarrow> Some r | _ \<Rightarrow> None)"

definition sealAt :: "approverKv \<Rightarrow> sealRecord option" where
  "sealAt st = (case memGet st SEAL_KEY of Some (SealStored r) \<Rightarrow> Some r | _ \<Rightarrow> None)"

subsection \<open>Sealing a seed\<close>

definition didKeyIds :: "crypto \<Rightarrow> approverLib \<Rightarrow> bytes \<Rightarrow> jsstr \<times> jsstr" where
  "didKeyIds C L edSecret =
     (let edMb = edMultikey L (edPublicKey C edSecret); did = js ''did:key:'' @ edMb in (did, did @ js ''#'' @ edMb))"

definition sealBinding :: "jsstr \<Rightarrow> jsstr \<Rightarrow> bytes" where
  "sealBinding audience did = textEncode (SEAL_INFO @ [0] @ audience @ [0] @ did)"

definition sealKdf :: "approverLib \<Rightarrow> bytes \<Rightarrow> bytes \<Rightarrow> bytes \<Rightarrow> jsstr \<Rightarrow> jsstr \<Rightarrow> bytes \<times> bytes" where
  "sealKdf L shared ephemeralPublic sealPublic audience did =
     (let binding = sealBinding audience did; salt = ephemeralPublic @ sealPublic in (hkdfKey L shared salt binding, binding))"

definition sealSeed :: "crypto \<Rightarrow> approverLib \<Rightarrow> bytes \<Rightarrow> bytes \<Rightarrow> bytes \<Rightarrow> bytes \<Rightarrow> jsstr \<Rightarrow> jsstr \<Rightarrow> approverError + sealedSeed" where
  "sealSeed C L eph iv seed sealPublic audience did =
     (let ephPublic = getPublicKey C eph in
      bindE (mapErr StoreCrypto (getSharedSecret C eph sealPublic)) (\<lambda>shared.
      let (key, aad) = sealKdf L shared ephPublic sealPublic audience did;
          ct = aesEncrypt L key iv aad seed
      in Inr \<lparr>ssEphemeral = b64Encode L ephPublic, ssIv = b64Encode L iv, ssCiphertext = b64Encode L ct\<rparr>))"

definition unsealSeed :: "crypto \<Rightarrow> approverLib \<Rightarrow> sealedSeed \<Rightarrow> bytes \<Rightarrow> jsstr \<Rightarrow> jsstr \<Rightarrow> approverError + bytes" where
  "unsealSeed C L sealed sealSecret audience did =
     bindE (b64Decode L (ssEphemeral sealed)) (\<lambda>ephPublic.
     let sealPublic = getPublicKey C sealSecret in
     bindE (mapErr StoreCrypto (getSharedSecret C sealSecret ephPublic)) (\<lambda>shared.
     let (key, aad) = sealKdf L shared ephPublic sealPublic audience did in
     bindE (b64Decode L (ssIv sealed)) (\<lambda>iv.
     bindE (b64Decode L (ssCiphertext sealed)) (\<lambda>ct. aesDecrypt L key iv aad ct))))"

definition requireWrap :: "secretWrap \<Rightarrow> approverError + secretWrap" where
  "requireWrap wrap =
     throwIf (swAlgorithm wrap \<noteq> APPROVER_WRAP_ALGORITHM) (StoreThrew (js ''a step-up approver key needs the approver PRF wrap'')) (Inr wrap)"

subsection \<open>Minting\<close>

text \<open>What one mint draws at random.\<close>

record mintEntropy =
  meSealSecret :: bytes
  meWrapIv :: bytes
  meSeed :: bytes
  meEphemeral :: bytes
  meSealIv :: bytes

definition createSealKey :: "crypto \<Rightarrow> approverLib \<Rightarrow> mintEntropy \<Rightarrow> approverKv \<Rightarrow> secretWrap \<Rightarrow> (approverError + bytes) \<times> approverKv" where
  "createSealKey C L E st wrap =
     (case wrapSecret L (meWrapIv E) (meSealSecret E) (Some wrap) of
        Inl e \<Rightarrow> (Inl e, st)
      | Inr wrapped \<Rightarrow>
          let pub = b64Encode L (getPublicKey C (meSealSecret E)) in
          (b64Decode L pub, memPut st SEAL_KEY (Some (SealStored \<lparr>sealPublicText = pub, sealWrapped = wrapped\<rparr>))))"

definition knownApproverDids :: "approverKv \<Rightarrow> jsstr set" where
  "knownApproverDids st =
     set (concat (map (\<lambda>pfx. concat (map (\<lambda>k. case storedDid (memGet st k) of Some d \<Rightarrow> [d] | None \<Rightarrow> [])
       (idbKeys st (Some pfx)))) [AUD_PREFIX, DTTE_APPROVER_PREFIX]))"

definition stepUpApproverDid :: "approverKv \<Rightarrow> jsstr \<Rightarrow> jsstr option" where
  "stepUpApproverDid st audience = map_option arDid (approverAt st audience)"

definition hasStepUpApproverSealKey :: "approverKv \<Rightarrow> bool" where
  "hasStepUpApproverSealKey st \<longleftrightarrow> memGet st SEAL_KEY \<noteq> None"

text \<open>The mint under a sealing key at hand: nothing is stored unless every step succeeds.\<close>

definition mintApprover :: "crypto \<Rightarrow> approverLib \<Rightarrow> mintEntropy \<Rightarrow> int \<Rightarrow> jsstr \<Rightarrow> bytes \<Rightarrow> approverKv \<Rightarrow> (approverError + jsstr) \<times> approverKv" where
  "mintApprover C L E now audience sealPublic st =
     (let ids = didKeyIds C L (meSeed E) in
      if fst ids \<in> knownApproverDids st then (Inl (StoreThrew (js ''refusing to reuse an approver DID already on file'')), st)
      else case sealSeed C L (meEphemeral E) (meSealIv E) (meSeed E) sealPublic audience (fst ids) of
        Inl e \<Rightarrow> (Inl e, st)
      | Inr sealed \<Rightarrow>
          (Inr (fst ids), memPut st (audienceKey audience) (Some (ApproverStored
             \<lparr>arDid = fst ids, arKid = snd ids, arAudience = audience, arSealed = sealed, arCreatedAt = nowText now\<rparr>))))"

text \<open>The reads before a mint decide where the sealing key comes from.\<close>

datatype mintPlan = AlreadyMinted jsstr | SealedUnder sealRecord | CreateSeal secretWrap | NeedsSetup

definition planMint :: "approverKv \<Rightarrow> jsstr \<Rightarrow> secretWrap option \<Rightarrow> mintPlan" where
  "planMint st audience wrap =
     (case stepUpApproverDid st audience of
        Some (u # d) \<Rightarrow> AlreadyMinted (u # d)
      | _ \<Rightarrow>
          (case sealAt st of
             Some sr \<Rightarrow> SealedUnder sr
           | None \<Rightarrow> (case wrap of Some w \<Rightarrow> CreateSeal w | None \<Rightarrow> NeedsSetup)))"

definition carryOut :: "crypto \<Rightarrow> approverLib \<Rightarrow> mintEntropy \<Rightarrow> int \<Rightarrow> jsstr \<Rightarrow> mintPlan \<Rightarrow> approverKv \<Rightarrow> (approverError + jsstr) \<times> approverKv" where
  "carryOut C L E now audience plan st =
     (case plan of
        AlreadyMinted d \<Rightarrow> (Inr d, st)
      | NeedsSetup \<Rightarrow> (Inl SetupRequired, st)
      | SealedUnder sr \<Rightarrow>
          (case b64Decode L (sealPublicText sr) of
             Inl e \<Rightarrow> (Inl e, st)
           | Inr sealPublic \<Rightarrow> mintApprover C L E now audience sealPublic st)
      | CreateSeal w \<Rightarrow>
          (case requireWrap w of
             Inl e \<Rightarrow> (Inl e, st)
           | Inr w' \<Rightarrow>
               (case createSealKey C L E st w' of
                  (Inl e, st') \<Rightarrow> (Inl e, st')
                | (Inr sealPublic, st') \<Rightarrow> mintApprover C L E now audience sealPublic st')))"

definition ensureStepUpApprover ::
  "crypto \<Rightarrow> approverLib \<Rightarrow> mintEntropy \<Rightarrow> int \<Rightarrow> approverKv \<Rightarrow> jsstr \<Rightarrow> secretWrap option \<Rightarrow> (approverError + jsstr) \<times> approverKv" where
  "ensureStepUpApprover C L E now st audience wrap =
     (if \<not> startsWith audience (js ''did:'') then (Inl (StoreThrew (js ''a step-up approver's audience must be a DID'')), st)
      else carryOut C L E now audience (planMint st audience wrap) st)"

subsection \<open>Loading and signing\<close>

record signingIdentity =
  siDid :: jsstr
  siKid :: jsstr
  siPrivateKey :: bytes
  siPublicKey :: bytes

definition loadStepUpApprover :: "crypto \<Rightarrow> approverLib \<Rightarrow> approverKv \<Rightarrow> jsstr \<Rightarrow> secretWrap \<Rightarrow> approverError + signingIdentity option" where
  "loadStepUpApprover C L st audience wrap =
     (case approverAt st audience of
        None \<Rightarrow> Inr None
      | Some rcd \<Rightarrow>
          throwIf (arAudience rcd \<noteq> audience) (StoreThrew (js ''step-up approver record is misfiled''))
          (case sealAt st of
             None \<Rightarrow> Inl (StoreThrew (js ''the step-up approver sealing key is missing''))
           | Some sr \<Rightarrow>
               throwIf (wsAlgorithm (sealWrapped sr) \<noteq> APPROVER_WRAP_ALGORITHM)
                 (StoreThrew (js ''the step-up approver sealing key is not PRF-wrapped''))
               (bindE (requireWrap wrap) (\<lambda>w. bindE (unwrapSecret L (sealWrapped sr) (Some w)) (\<lambda>sealSecret.
                bindE (unsealSeed C L (arSealed rcd) sealSecret audience (arDid rcd)) (\<lambda>seed.
                let ids = didKeyIds C L seed in
                throwIf (fst ids \<noteq> arDid rcd \<or> snd ids \<noteq> arKid rcd) (StoreThrew (js ''step-up approver key does not match its DID''))
                (Inr (Some \<lparr>siDid = arDid rcd, siKid = arKid rcd, siPrivateKey = seed, siPublicKey = edPublicKey C seed\<rparr>))))))))"

definition clearStepUpApprovers :: "approverKv \<Rightarrow> jsstr option \<Rightarrow> approverKv" where
  "clearStepUpApprovers st audience =
     (case audience of
        Some (u # a) \<Rightarrow> memDelete st (audienceKey (u # a))
      | _ \<Rightarrow> foldl memDelete st (idbKeys st (Some STEP_UP_PREFIX)))"

text \<open>A signature under the key of the audience; \<open>signed\<close> is the payload the checks returned.\<close>

definition signAs ::
  "crypto \<Rightarrow> approverLib \<Rightarrow> jsstr \<Rightarrow> int \<Rightarrow> int \<Rightarrow> approverKv \<Rightarrow> jsstr \<Rightarrow> jsstr \<Rightarrow> secretWrap \<Rightarrow> attestPayload
     \<Rightarrow> approverError + (members \<times> jsstr)" where
  "signAs C L uuid now signNow st audience approverDid wrap payload =
     bindE (loadStepUpApprover C L st audience wrap) (\<lambda>signing.
     bindE (orThrow signing (StoreThrew (js ''step-up approver vanished before signing''))) (\<lambda>s.
     bindE (mapErr StoreRefused (signApproverStatement C uuid now signNow payload (siDid s) (siKid s) (siPrivateKey s))) (\<lambda>statement.
     Inr (statement, approverDid))))"

definition noApprover :: "jsstr \<Rightarrow> jsstr" where
  "noApprover audience = js ''this wallet has no step-up approver for '' @ audience @ js ''; enrol one first''"

definition nonEmptyDid :: "jsstr option \<Rightarrow> jsstr option" where
  "nonEmptyDid d = (case d of Some (u # s) \<Rightarrow> Some (u # s) | _ \<Rightarrow> None)"

definition signStepUpApproval ::
  "crypto \<Rightarrow> approverLib \<Rightarrow> jsstr \<Rightarrow> int \<Rightarrow> int \<Rightarrow> approverKv \<Rightarrow> jsval \<Rightarrow> jsval \<Rightarrow> jsstr \<Rightarrow> secretWrap \<Rightarrow> approverError + (members \<times> jsstr)" where
  "signStepUpApproval C L uuid now signNow st request operation audience wrap =
     bindE (orThrow (nonEmptyDid (stepUpApproverDid st audience)) (StoreThrew (noApprover audience))) (\<lambda>approverDid.
     bindE (mapErr StoreRefused (checkStepUpApproval C request operation (JStr audience) approverDid)) (\<lambda>payload.
     signAs C L uuid now signNow st audience approverDid wrap payload))"

definition signDecisionApproval ::
  "crypto \<Rightarrow> approverLib \<Rightarrow> jsstr \<Rightarrow> int \<Rightarrow> int \<Rightarrow> approverKv \<Rightarrow> jsval \<Rightarrow> jsval \<Rightarrow> jsval \<Rightarrow> jsstr \<Rightarrow> secretWrap
     \<Rightarrow> approverError + (members \<times> jsstr)" where
  "signDecisionApproval C L uuid now signNow st subject action decision audience wrap =
     bindE (orThrow (nonEmptyDid (stepUpApproverDid st audience)) (StoreRefused (ApproverRefusal NotEnrolled (noApprover audience)))) (\<lambda>approverDid.
     bindE (mapErr StoreRefused (checkDecisionApproval C subject action decision (JStr audience) approverDid)) (\<lambda>payload.
     signAs C L uuid now signNow st audience approverDid wrap payload))"

definition signEnrolAttestation ::
  "crypto \<Rightarrow> approverLib \<Rightarrow> mintEntropy \<Rightarrow> jsstr \<Rightarrow> int \<Rightarrow> int \<Rightarrow> approverKv \<Rightarrow> jsval \<Rightarrow> jsstr \<Rightarrow> jsval \<Rightarrow> jsval \<Rightarrow> secretWrap
     \<Rightarrow> (approverError + (members \<times> jsstr)) \<times> approverKv" where
  "signEnrolAttestation C L E uuid now signNow st subject audience challenge boundTo wrap =
     (case mapErr StoreRefused (checkAttestPayload \<lparr>apPurpose = JStr (js ''enrol''), apSubject = subject, apAudience = JStr audience,
         apChallenge = challenge, apBoundTo = boundTo\<rparr>) of
        Inl e \<Rightarrow> (Inl e, st)
      | Inr payload \<Rightarrow>
          (case ensureStepUpApprover C L E now st audience (Some wrap) of
             (Inl e, st') \<Rightarrow> (Inl e, st')
           | (Inr approverDid, st') \<Rightarrow> (signAs C L uuid now signNow st' audience approverDid wrap payload, st')))"

subsection \<open>Keys of the store\<close>

lemma audienceKey_inj [simp]: "audienceKey a = audienceKey b \<longleftrightarrow> a = b"
  by (simp add: audienceKey_def)

lemma audienceKey_not_seal [simp]: "audienceKey a \<noteq> SEAL_KEY" "SEAL_KEY \<noteq> audienceKey a"
  by (simp_all add: audienceKey_def SEAL_KEY_def AUD_PREFIX_def js_def)

lemma approverAt_put:
  "approverAt (memPut st (audienceKey a) (Some (ApproverStored r))) b = (if b = a then Some r else approverAt st b)"
  "approverAt (memPut st SEAL_KEY v) b = approverAt st b"
  by (simp_all add: approverAt_def idb.get_put)

lemma sealAt_put:
  "sealAt (memPut st (audienceKey a) v) = sealAt st"
  "sealAt (memPut st SEAL_KEY (Some (SealStored r))) = Some r"
  by (simp_all add: sealAt_def idb.get_put)

lemma approverAt_put_other:
  "\<not> startsWith k STEP_UP_PREFIX \<Longrightarrow> approverAt (memPut st k v) a = approverAt st a"
proof -
  assume "\<not> startsWith k STEP_UP_PREFIX"
  then have "audienceKey a \<noteq> k" by (auto simp: audienceKey_def AUD_PREFIX_def startsWith_iff)
  then show ?thesis by (simp add: approverAt_def idb.get_put)
qed

text \<open>The scan for known approvers meets every step-up approver: what follows the prefix starts with \<open>did:\<close>.\<close>

lemma scan_finds:
  assumes "approverAt st a = Some r" and "startsWith a (js ''did:'')"
  shows "arDid r \<in> knownApproverDids st"
proof -
  have g: "memGet st (audienceKey a) = Some (ApproverStored r)"
    using assms(1) by (auto simp: approverAt_def split: option.splits stored.splits)
  then have "audienceKey a \<in> set (idbKeys st None)" by (intro idb.get_keys) simp
  then have m: "audienceKey a \<in> set (map fst st)" by (auto simp: idbKeys_def)
  obtain t where t: "a = 100 # t" using assms(2) by (auto simp: startsWith_iff js_def)
  have "idbRange AUD_PREFIX (audienceKey a)" unfolding idbRange_iff
    by (intro exI [of _ a]) (simp add: audienceKey_def t)
  with m have "audienceKey a \<in> set (idbKeys st (Some AUD_PREFIX))" by (auto simp: idbKeys_def)
  with g show ?thesis unfolding knownApproverDids_def by (auto intro!: bexI [of _ "audienceKey a"])
qed

subsection \<open>One approver per relying party\<close>

definition approversApart :: "approverKv \<Rightarrow> bool" where
  "approversApart st \<longleftrightarrow>
     (\<forall>a r. approverAt st a = Some r \<longrightarrow> startsWith a (js ''did:'') \<and> arAudience r = a) \<and>
     (\<forall>a b r s. approverAt st a = Some r \<longrightarrow> approverAt st b = Some s \<longrightarrow> arDid r = arDid s \<longrightarrow> a = b)"

lemma apart_mint:
  assumes "approversApart st" and "startsWith audience (js ''did:'')"
  shows "approversApart (snd (mintApprover C L E now audience sealPublic st))"
proof (cases "fst (didKeyIds C L (meSeed E)) \<in> knownApproverDids st")
  case False
  show ?thesis
  proof (cases "sealSeed C L (meEphemeral E) (meSealIv E) (meSeed E) sealPublic audience (fst (didKeyIds C L (meSeed E)))")
    case (Inr sealed)
    have "arDid r \<noteq> fst (didKeyIds C L (meSeed E))" if "approverAt st a = Some r" for a r
      using scan_finds [OF that] False assms(1) that unfolding approversApart_def by metis
    with assms False Inr show ?thesis
      unfolding approversApart_def mintApprover_def Let_def by (simp add: approverAt_put) metis
  qed (use assms False in \<open>simp add: mintApprover_def Let_def\<close>)
qed (use assms in \<open>simp add: mintApprover_def Let_def\<close>)

lemma apart_seal: "approversApart st \<Longrightarrow> approversApart (snd (createSealKey C L E st wrap))"
  by (auto simp: createSealKey_def Let_def approversApart_def approverAt_put split: sum.splits)

lemma apart_carry:
  assumes "approversApart st" and "startsWith audience (js ''did:'')"
  shows "approversApart (snd (carryOut C L E now audience plan st))"
proof (cases plan)
  case (CreateSeal w)
  obtain res st' where c: "createSealKey C L E st w = (res, st')" by fastforce
  with apart_seal [OF assms(1), of C L E w] have st': "approversApart st'" by simp
  show ?thesis
  proof (cases "requireWrap w")
    case (Inr w')
    then have "w' = w" by (simp add: requireWrap_def split: if_splits)
    with CreateSeal Inr c st' apart_mint [OF st' assms(2)] show ?thesis by (cases res) (simp_all add: carryOut_def)
  qed (use CreateSeal assms in \<open>simp add: carryOut_def\<close>)
qed (use assms apart_mint in \<open>auto simp: carryOut_def split: sum.splits\<close>)

lemma apart_ensure: "approversApart st \<Longrightarrow> approversApart (snd (ensureStepUpApprover C L E now st audience wrap))"
  using apart_carry by (simp add: ensureStepUpApprover_def)

lemma approverAt_delete: "approverAt (memDelete st k) a = Some r \<Longrightarrow> approverAt st a = Some r"
  by (auto simp: approverAt_def idb.get_del split: if_splits)

lemma approverAt_deletes: "approverAt (foldl memDelete st ks) a = Some r \<Longrightarrow> approverAt st a = Some r"
  by (induction ks arbitrary: st) (auto dest: approverAt_delete)

lemma approverAt_clear: "approverAt (clearStepUpApprovers st audience) a = Some r \<Longrightarrow> approverAt st a = Some r"
  by (auto simp: clearStepUpApprovers_def dest: approverAt_delete approverAt_deletes split: option.splits list.splits)

text \<open>What writes the store: the operations of this module, and other modules under keys of their own.\<close>

inductive approverRun :: "approverKv \<Rightarrow> bool" where
  run_empty: "approverRun []"
| run_ensure: "approverRun st \<Longrightarrow> approverRun (snd (ensureStepUpApprover C L E now st audience wrap))"
| run_enrol: "approverRun st \<Longrightarrow> approverRun (snd (signEnrolAttestation C L E uuid now signNow st subject audience challenge boundTo wrap))"
| run_clear: "approverRun st \<Longrightarrow> approverRun (clearStepUpApprovers st audience)"
| run_other: "approverRun st \<Longrightarrow> \<not> startsWith k STEP_UP_PREFIX \<Longrightarrow> approverRun (memPut st k v)"

lemma enrol_store:
  "snd (signEnrolAttestation C L E uuid now signNow st subject audience challenge boundTo wrap) = st \<or>
   snd (signEnrolAttestation C L E uuid now signNow st subject audience challenge boundTo wrap) =
     snd (ensureStepUpApprover C L E now st audience (Some wrap))"
  by (auto simp: signEnrolAttestation_def split: sum.splits prod.splits)

lemma run_apart: "approverRun st \<Longrightarrow> approversApart st"
proof (induction rule: approverRun.induct)
  case run_empty
  show ?case by (simp add: approversApart_def approverAt_def memGet_def)
next
  case (run_ensure st C L E now audience wrap)
  then show ?case by (intro apart_ensure)
next
  case (run_enrol st C L E uuid now signNow subject audience challenge boundTo wrap)
  then show ?case using enrol_store apart_ensure by metis
next
  case (run_clear st audience)
  then show ?case unfolding approversApart_def using approverAt_clear by metis
next
  case (run_other st k v)
  then show ?case unfolding approversApart_def by (simp add: approverAt_put_other)
qed

subsection \<open>What was minted is loaded\<close>

text \<open>The sealing secret a gesture opens.\<close>

definition opensSeal :: "crypto \<Rightarrow> approverLib \<Rightarrow> bytes \<Rightarrow> sealRecord \<Rightarrow> bytes \<Rightarrow> bool" where
  "opensSeal C L prf sr sk \<longleftrightarrow>
     length sk = 32 \<and> wsAlgorithm (sealWrapped sr) = APPROVER_WRAP_ALGORITHM \<and>
     unwrapSecret L (sealWrapped sr) (Some (approverPrfWrap L prf)) = Inr sk \<and> sealPublicText sr = b64Encode L (getPublicKey C sk)"

definition opensSeed :: "crypto \<Rightarrow> approverLib \<Rightarrow> bytes \<Rightarrow> approverRecord \<Rightarrow> bool" where
  "opensSeed C L sk r \<longleftrightarrow>
     (\<exists>seed. unsealSeed C L (arSealed r) sk (arAudience r) (arDid r) = Inr seed \<and> didKeyIds C L seed = (arDid r, arKid r))"

definition opensAll :: "crypto \<Rightarrow> approverLib \<Rightarrow> bytes \<Rightarrow> approverKv \<Rightarrow> bool" where
  "opensAll C L prf st \<longleftrightarrow>
     (\<forall>sr. sealAt st = Some sr \<longrightarrow> (\<exists>sk. opensSeal C L prf sr sk)) \<and>
     (\<forall>a r. approverAt st a = Some r \<longrightarrow> (\<exists>sr sk. sealAt st = Some sr \<and> opensSeal C L prf sr sk \<and> arAudience r = a \<and> opensSeed C L sk r))"

lemma passthrough_other: "APPROVER_WRAP_ALGORITHM \<noteq> js ''passthrough''"
  by (simp add: APPROVER_WRAP_ALGORITHM_def js_def)

lemma unwrap_wrapped:
  assumes "approverLibOk L" and "wrapSecret L iv secret (Some (approverPrfWrap L prf)) = Inr w"
  shows "unwrapSecret L w (Some (approverPrfWrap L prf)) = Inr secret \<and> wsAlgorithm w = APPROVER_WRAP_ALGORITHM"
  using assms passthrough_other
  by (auto simp: wrapSecret_def unwrapSecret_def approverPrfWrap_def prfDomainWrap_def approverLibOk_def)

lemma seal_roundtrip:
  assumes "cryptoOk C" and "approverLibOk L" and "length sk = 32" and "length eph = 32"
    and "sealSeed C L eph iv seed (getPublicKey C sk) audience did = Inr sealed"
  shows "unsealSeed C L sealed sk audience did = Inr seed"
proof -
  from assms(5) obtain shared where s: "getSharedSecret C eph (getPublicKey C sk) = Inr shared"
    "sealed = \<lparr>ssEphemeral = b64Encode L (getPublicKey C eph), ssIv = b64Encode L iv,
       ssCiphertext = b64Encode L (aesEncrypt L (hkdfKey L shared (getPublicKey C eph @ getPublicKey C sk) (sealBinding audience did)) iv
         (sealBinding audience did) seed)\<rparr>"
    by (auto simp: sealSeed_def sealKdf_def Let_def bindE_Inr)
  have "getSharedSecret C sk (getPublicKey C eph) = Inr shared" using assms(1,3,4) s(1) by (simp add: cryptoOk_def)
  with s(2) assms(2) show ?thesis by (simp add: unsealSeed_def sealKdf_def Let_def approverLibOk_def)
qed

definition goodEntropy :: "mintEntropy \<Rightarrow> bool" where
  "goodEntropy E \<longleftrightarrow> length (meSealSecret E) = 32 \<and> length (meEphemeral E) = 32"

lemma opens_mint:
  assumes ok: "cryptoOk C" "approverLibOk L" "goodEntropy E" and o: "opensAll C L prf st"
    and sr: "sealAt st = Some sr" "opensSeal C L prf sr sk"
  shows "opensAll C L prf (snd (mintApprover C L E now audience (getPublicKey C sk) st)) \<and>
    (fst (mintApprover C L E now audience (getPublicKey C sk) st) = Inr did \<longrightarrow>
      (\<exists>r. approverAt (snd (mintApprover C L E now audience (getPublicKey C sk) st)) audience = Some r \<and> arDid r = did))"
proof (cases "fst (didKeyIds C L (meSeed E)) \<in> knownApproverDids st")
  case False
  show ?thesis
  proof (cases "sealSeed C L (meEphemeral E) (meSealIv E) (meSeed E) (getPublicKey C sk) audience (fst (didKeyIds C L (meSeed E)))")
    case (Inr sealed)
    let ?r = "\<lparr>arDid = fst (didKeyIds C L (meSeed E)), arKid = snd (didKeyIds C L (meSeed E)), arAudience = audience,
      arSealed = sealed, arCreatedAt = nowText now\<rparr>"
    have m: "mintApprover C L E now audience (getPublicKey C sk) st =
        (Inr (arDid ?r), memPut st (audienceKey audience) (Some (ApproverStored ?r)))"
      using False Inr by (simp add: mintApprover_def Let_def)
    have "length sk = 32" using sr(2) by (simp add: opensSeal_def)
    from seal_roundtrip [OF ok(1,2) this _ Inr] ok(3) have "unsealSeed C L sealed sk audience (arDid ?r) = Inr (meSeed E)"
      by (simp add: goodEntropy_def)
    then have "opensSeed C L sk ?r" by (simp add: opensSeed_def)
    with sr have new: "\<exists>sr sk. sealAt st = Some sr \<and> opensSeal C L prf sr sk \<and> arAudience ?r = audience \<and> opensSeed C L sk ?r" by auto
    have old: "\<forall>b s. approverAt st b = Some s \<longrightarrow> (\<exists>sr sk. sealAt st = Some sr \<and> opensSeal C L prf sr sk \<and> arAudience s = b \<and> opensSeed C L sk s)"
      using o unfolding opensAll_def by blast
    have "opensAll C L prf (memPut st (audienceKey audience) (Some (ApproverStored ?r)))"
      unfolding opensAll_def sealAt_put
    proof (intro conjI allI impI)
      fix b s assume "approverAt (memPut st (audienceKey audience) (Some (ApproverStored ?r))) b = Some s"
      then have "b = audience \<and> s = ?r \<or> approverAt st b = Some s" by (auto simp: approverAt_put split: if_splits)
      then show "\<exists>sr sk. sealAt st = Some sr \<and> opensSeal C L prf sr sk \<and> arAudience s = b \<and> opensSeed C L sk s"
        using new old by blast
    qed (use o in \<open>simp add: opensAll_def\<close>)
    with m show ?thesis by (simp add: approverAt_put)
  qed (use o False in \<open>simp add: mintApprover_def Let_def\<close>)
qed (use o in \<open>simp add: mintApprover_def Let_def\<close>)

lemma opens_create:
  assumes ok: "cryptoOk C" "approverLibOk L" "goodEntropy E" and o: "opensAll C L prf st" and none: "sealAt st = None"
  obtains sr where "createSealKey C L E st (approverPrfWrap L prf) = (Inr (getPublicKey C (meSealSecret E)), memPut st SEAL_KEY (Some (SealStored sr)))"
    "opensSeal C L prf sr (meSealSecret E)" "opensAll C L prf (memPut st SEAL_KEY (Some (SealStored sr)))"
proof -
  obtain w where w: "wrapSecret L (meWrapIv E) (meSealSecret E) (Some (approverPrfWrap L prf)) = Inr w"
    by (simp add: wrapSecret_def approverPrfWrap_def prfDomainWrap_def)
  let ?sr = "\<lparr>sealPublicText = b64Encode L (getPublicKey C (meSealSecret E)), sealWrapped = w\<rparr>"
  have 1: "createSealKey C L E st (approverPrfWrap L prf) = (Inr (getPublicKey C (meSealSecret E)), memPut st SEAL_KEY (Some (SealStored ?sr)))"
    using w ok(2) by (simp add: createSealKey_def approverLibOk_def)
  have 2: "opensSeal C L prf ?sr (meSealSecret E)"
    using unwrap_wrapped [OF ok(2) w] ok(3) by (simp add: opensSeal_def goodEntropy_def)
  moreover have "approverAt st a = None" for a
  proof (cases "approverAt st a")
    case (Some r)
    with o none show ?thesis unfolding opensAll_def by fastforce
  qed
  ultimately have "opensAll C L prf (memPut st SEAL_KEY (Some (SealStored ?sr)))"
    unfolding opensAll_def sealAt_put approverAt_put by auto
  with 1 2 show thesis by (rule that)
qed

lemma prfWrap_required: "requireWrap (approverPrfWrap L prf) = Inr (approverPrfWrap L prf)"
  by (simp add: requireWrap_def approverPrfWrap_def prfDomainWrap_def)

lemma opens_ensure:
  assumes ok: "cryptoOk C" "approverLibOk L" "goodEntropy E" and o: "opensAll C L prf st"
    and w: "wrap = None \<or> wrap = Some (approverPrfWrap L prf)" and e: "ensureStepUpApprover C L E now st audience wrap = (res, st')"
  shows "opensAll C L prf st' \<and> (\<forall>did. res = Inr did \<longrightarrow> (\<exists>r. approverAt st' audience = Some r \<and> arDid r = did))"
proof (cases "startsWith audience (js ''did:'')")
  case True
  then have c: "carryOut C L E now audience (planMint st audience wrap) st = (res, st')" using e by (simp add: ensureStepUpApprover_def)
  show ?thesis
  proof (cases "planMint st audience wrap")
    case (AlreadyMinted d)
    then have "stepUpApproverDid st audience = Some d" by (auto simp: planMint_def split: option.splits list.splits)
    then show ?thesis using c AlreadyMinted o by (auto simp: carryOut_def stepUpApproverDid_def)
  next
    case (SealedUnder sr)
    then have s: "sealAt st = Some sr" by (auto simp: planMint_def split: option.splits list.splits)
    with o obtain sk where sk: "opensSeal C L prf sr sk" unfolding opensAll_def by blast
    then have "b64Decode L (sealPublicText sr) = Inr (getPublicKey C sk)" using ok(2) by (simp add: opensSeal_def approverLibOk_def)
    then have m: "mintApprover C L E now audience (getPublicKey C sk) st = (res, st')" using c SealedUnder by (simp add: carryOut_def)
    show ?thesis using opens_mint [OF ok o s sk, of now audience] unfolding m by auto
  next
    case (CreateSeal x)
    then have s: "sealAt st = None" "x = approverPrfWrap L prf" using w by (auto simp: planMint_def split: option.splits list.splits)
    from opens_create [OF ok o s(1)] obtain sr where
      sr: "createSealKey C L E st (approverPrfWrap L prf) = (Inr (getPublicKey C (meSealSecret E)), memPut st SEAL_KEY (Some (SealStored sr)))"
        "opensSeal C L prf sr (meSealSecret E)" "opensAll C L prf (memPut st SEAL_KEY (Some (SealStored sr)))" by metis
    have m: "mintApprover C L E now audience (getPublicKey C (meSealSecret E)) (memPut st SEAL_KEY (Some (SealStored sr))) = (res, st')"
      using c sr(1) prfWrap_required unfolding CreateSeal s(2) by (simp add: carryOut_def)
    show ?thesis using opens_mint [OF ok sr(3) sealAt_put(2) sr(2), of now audience] unfolding m by auto
  next
    case NeedsSetup
    then show ?thesis using c o by (auto simp: carryOut_def)
  qed
qed (use e o in \<open>auto simp: ensureStepUpApprover_def\<close>)

text \<open>Stores filled under one gesture's key.\<close>

inductive gestureRun :: "crypto \<Rightarrow> approverLib \<Rightarrow> bytes \<Rightarrow> approverKv \<Rightarrow> bool" for C L K where
  gesture_empty: "gestureRun C L K []"
| gesture_ensure: "gestureRun C L K st \<Longrightarrow> goodEntropy E \<Longrightarrow> wrap = None \<or> wrap = Some (approverPrfWrap L K) \<Longrightarrow>
    gestureRun C L K (snd (ensureStepUpApprover C L E now st audience wrap))"

lemma gesture_opens: "gestureRun C L prf st \<Longrightarrow> cryptoOk C \<Longrightarrow> approverLibOk L \<Longrightarrow> opensAll C L prf st"
proof (induction rule: gestureRun.induct)
  case gesture_empty
  show ?case by (simp add: opensAll_def sealAt_def approverAt_def memGet_def)
next
  case (gesture_ensure st E wrap now audience)
  obtain res st' where e: "ensureStepUpApprover C L E now st audience wrap = (res, st')" by fastforce
  from opens_ensure [OF gesture_ensure.prems gesture_ensure.hyps(2) gesture_ensure.IH [OF gesture_ensure.prems] gesture_ensure.hyps(3) e] e
  show ?case by simp
qed

lemma load_opened:
  assumes "opensAll C L prf st" and "approverAt st audience = Some r"
  shows "\<exists>s. loadStepUpApprover C L st audience (approverPrfWrap L prf) = Inr (Some s) \<and> siDid s = arDid r \<and> siKid s = arKid r \<and>
    didKeyIds C L (siPrivateKey s) = (siDid s, siKid s) \<and> siPublicKey s = edPublicKey C (siPrivateKey s)"
proof -
  from assms obtain sr sk where s: "sealAt st = Some sr" "opensSeal C L prf sr sk" "arAudience r = audience" "opensSeed C L sk r"
    unfolding opensAll_def by blast
  from s(4) obtain seed where seed: "unsealSeed C L (arSealed r) sk audience (arDid r) = Inr seed" "didKeyIds C L seed = (arDid r, arKid r)"
    unfolding opensSeed_def s(3) by blast
  have "loadStepUpApprover C L st audience (approverPrfWrap L prf) =
      Inr (Some \<lparr>siDid = arDid r, siKid = arKid r, siPrivateKey = seed, siPublicKey = edPublicKey C seed\<rparr>)"
    using s(1-3) assms(2) seed by (simp add: loadStepUpApprover_def prfWrap_required opensSeal_def Let_def)
  with seed(2) show ?thesis by simp
qed

text \<open>C17: The approver a call names for a relying party is the one that will sign: whatever was minted before under the same
  gesture, the DID returned is loaded with that gesture again, with the private key the DID stands for.\<close>
theorem minted_approver_loads:
  assumes "cryptoOk C" and "approverLibOk L" and "gestureRun C L prf st" and "goodEntropy E"
    and "wrap = None \<or> wrap = Some (approverPrfWrap L prf)" and "ensureStepUpApprover C L E now st audience wrap = (Inr did, st')"
  shows "\<exists>s. loadStepUpApprover C L st' audience (approverPrfWrap L prf) = Inr (Some s) \<and> siDid s = did \<and>
    fst (didKeyIds C L (siPrivateKey s)) = did"
proof -
  from opens_ensure [OF assms(1,2,4) gesture_opens [OF assms(3,1,2)] assms(5,6)] obtain r where
    "opensAll C L prf st'" "approverAt st' audience = Some r" "arDid r = did" by blast
  with load_opened [OF this(1,2)] show ?thesis by (metis fst_conv)
qed

subsection \<open>A library to compute with\<close>

definition sampleApproverLib :: approverLib where
  "sampleApproverLib = \<lparr>b64Encode = map ucast, b64Decode = (\<lambda>t. Inr (map ucast t)), edMultikey = map ucast,
     aesEncrypt = (\<lambda>k iv aad m. k @ m),
     aesDecrypt = (\<lambda>k iv aad c. if take (length k) c = k then Inr (drop (length k) c) else Inl DecryptFailed),
     hkdfKey = (\<lambda>ikm salt info. salt)\<rparr>"

lemma ucast_back: "map ucast (map ucast (b :: bytes) :: jsstr) = b"
  by (induction b) (simp_all add: ucast_up_ucast_id is_up)

lemma sampleApproverLib_ok: "approverLibOk sampleApproverLib"
  using ucast_back by (simp add: approverLibOk_def sampleApproverLib_def del: map_map)

definition entropyOf :: "byte \<Rightarrow> mintEntropy" where
  "entropyOf b = \<lparr>meSealSecret = replicate 32 b, meWrapIv = [], meSeed = replicate 32 b, meEphemeral = replicate 32 b, meSealIv = []\<rparr>"

abbreviation gesture :: secretWrap where "gesture \<equiv> approverPrfWrap sampleApproverLib []"

definition mintOf :: "byte \<Rightarrow> jsstr \<Rightarrow> approverKv \<Rightarrow> (approverError + jsstr) \<times> approverKv" where
  "mintOf b audience st = carryOut sampleCrypto sampleApproverLib (entropyOf b) 0 audience (planMint [] audience (Some gesture)) st"

lemma plan_empty: "planMint [] audience (Some gesture) = CreateSeal gesture"
  by (simp add: planMint_def stepUpApproverDid_def approverAt_def sealAt_def memGet_def)

lemma nothing_known: "knownApproverDids (memPut [] SEAL_KEY (Some (SealStored sr))) = {}"
proof -
  have "storedDid (memGet (memPut [] SEAL_KEY (Some (SealStored sr))) k) = None" for k
    by (simp add: idb.get_put idb.get_empty)
  then show ?thesis by (simp add: knownApproverDids_def)
qed

text \<open>A sealed record of the sample library: the ciphertext is the two public keys and the seed.\<close>

lemma sample_seal:
  "sealSeed sampleCrypto sampleApproverLib (replicate 32 b) [] (replicate 32 b) (replicate 32 b) audience did =
    Inr \<lparr>ssEphemeral = map ucast (replicate 32 b), ssIv = [], ssCiphertext = map ucast (replicate 96 b)\<rparr>"
proof -
  have "replicate 96 b = (replicate 32 b @ replicate 32 b) @ replicate 32 b" by (simp add: replicate_add [symmetric])
  then show ?thesis by (simp add: sealSeed_def sealKdf_def Let_def sampleCrypto_def sampleApproverLib_def del: replicate.simps)
qed

definition sampleSeal :: "byte \<Rightarrow> sealRecord" where
  "sampleSeal b = \<lparr>sealPublicText = map ucast (replicate 32 b), sealWrapped = \<lparr>wsAlgorithm = APPROVER_WRAP_ALGORITHM,
     wsCiphertext = map ucast (replicate 32 b), wsIv = []\<rparr>\<rparr>"

lemma sample_create:
  "createSealKey sampleCrypto sampleApproverLib (entropyOf b) st gesture = (Inr (replicate 32 b), memPut st SEAL_KEY (Some (SealStored (sampleSeal b))))"
  using ucast_back [of "replicate 32 b"]
  by (simp add: createSealKey_def wrapSecret_def approverPrfWrap_def prfDomainWrap_def derivePrfKek_def entropyOf_def sampleCrypto_def
      sampleApproverLib_def sampleSeal_def Let_def del: replicate.simps map_map)

definition sampleRecord :: "byte \<Rightarrow> jsstr \<Rightarrow> approverRecord" where
  "sampleRecord b audience = \<lparr>arDid = fst (didKeyIds sampleCrypto sampleApproverLib (replicate 32 b)),
     arKid = snd (didKeyIds sampleCrypto sampleApproverLib (replicate 32 b)), arAudience = audience,
     arSealed = \<lparr>ssEphemeral = map ucast (replicate 32 b), ssIv = [], ssCiphertext = map ucast (replicate 96 b)\<rparr>, arCreatedAt = nowText 0\<rparr>"

lemma sample_mint:
  assumes "arDid (sampleRecord b audience) \<notin> knownApproverDids (memPut st SEAL_KEY (Some (SealStored (sampleSeal b))))"
  shows "mintOf b audience st = (Inr (arDid (sampleRecord b audience)),
    memPut (memPut st SEAL_KEY (Some (SealStored (sampleSeal b)))) (audienceKey audience) (Some (ApproverStored (sampleRecord b audience))))"
proof -
  have e: "meSeed (entropyOf b) = replicate 32 b" "meEphemeral (entropyOf b) = replicate 32 b" "meSealIv (entropyOf b) = []"
    by (simp_all add: entropyOf_def)
  show ?thesis
    using assms sample_seal
    by (simp add: mintOf_def plan_empty carryOut_def prfWrap_required sample_create mintApprover_def e Let_def sampleRecord_def
        del: replicate.simps)
qed

text \<open>C14: No two relying parties see the same approver: in every store the module can reach, the approver filed under an
  audience is that audience's, and approvers of different audiences have different DIDs, whatever keys were drawn.\<close>
theorem approvers_unlinkable:
  assumes "approverRun st" and "approverAt st a = Some r" and "approverAt st b = Some s" and "a \<noteq> b"
  shows "arDid r \<noteq> arDid s \<and> arAudience r = a \<and> arAudience s = b"
  using run_apart [OF assms(1)] assms(2-4) unfolding approversApart_def by metis

definition audA :: jsstr where "audA = js ''did:web:a''"
definition audB :: jsstr where "audB = js ''did:web:b''"

lemma sample_auds [simp]: "startsWith audA (js ''did:'')" "startsWith audB (js ''did:'')" "audA \<noteq> audB" "audB \<noteq> audA"
  by (simp_all add: audA_def audB_def startsWith_def js_def)

definition oneStore :: approverKv where
  "oneStore = memPut (memPut [] SEAL_KEY (Some (SealStored (sampleSeal 1)))) (audienceKey audA) (Some (ApproverStored (sampleRecord 1 audA)))"

lemma mint_first: "mintOf 1 audA [] = (Inr (arDid (sampleRecord 1 audA)), oneStore)"
  unfolding oneStore_def by (rule sample_mint) (simp add: nothing_known)

lemma ensure_first: "ensureStepUpApprover sampleCrypto sampleApproverLib (entropyOf 1) 0 [] audA (Some gesture) = (Inr (arDid (sampleRecord 1 audA)), oneStore)"
  using mint_first by (simp add: ensureStepUpApprover_def mintOf_def)

lemma goodEntropyOf: "goodEntropy (entropyOf b)"
  by (simp add: goodEntropy_def entropyOf_def)

lemma minted_approver_loads_witness:
  "\<exists>s. loadStepUpApprover sampleCrypto sampleApproverLib oneStore audA gesture = Inr (Some s) \<and> siDid s = arDid (sampleRecord 1 audA) \<and>
    fst (didKeyIds sampleCrypto sampleApproverLib (siPrivateKey s)) = arDid (sampleRecord 1 audA)"
  by (rule minted_approver_loads [OF sampleCrypto_ok sampleApproverLib_ok gesture_empty goodEntropyOf _ ensure_first]) simp

lemma one_known: "d \<in> knownApproverDids oneStore \<Longrightarrow> d = arDid (sampleRecord 1 audA)"
proof -
  assume "d \<in> knownApproverDids oneStore"
  then obtain k where "storedDid (memGet oneStore k) = Some d" by (auto simp: knownApproverDids_def split: option.splits)
  then show ?thesis by (simp add: oneStore_def idb.get_put idb.get_empty split: if_splits)
qed

lemma sample_dids: "arDid (sampleRecord 2 b) \<noteq> arDid (sampleRecord 1 a)"
  by (simp add: sampleRecord_def didKeyIds_def sampleApproverLib_def sampleCrypto_def Let_def replicate_eq_replicate)

lemma sample_seal_any: "\<exists>sealed. sealSeed sampleCrypto L eph iv seed pub audience did = Inr sealed"
  by (simp add: sealSeed_def Let_def sampleCrypto_def split_beta)

lemma two_reached:
  "approverAt (snd (ensureStepUpApprover sampleCrypto sampleApproverLib (entropyOf 2) 0 oneStore audB None)) audB \<noteq> None"
  "approverAt (snd (ensureStepUpApprover sampleCrypto sampleApproverLib (entropyOf 2) 0 oneStore audB None)) audA \<noteq> None"
proof -
  have p: "planMint oneStore audB None = SealedUnder (sampleSeal 1)"
  proof -
    have "sealAt oneStore = Some (sampleSeal 1)" "approverAt oneStore audB = None"
      by (simp_all add: oneStore_def approverAt_put sealAt_put) (simp add: approverAt_def memGet_def)
    then show ?thesis by (simp add: planMint_def stepUpApproverDid_def)
  qed
  have d: "b64Decode sampleApproverLib (sealPublicText (sampleSeal 1)) = Inr (replicate 32 1)"
    using ucast_back [of "replicate 32 1"] by (simp add: sampleApproverLib_def sampleSeal_def del: map_map replicate.simps)
  have n: "fst (didKeyIds sampleCrypto sampleApproverLib (meSeed (entropyOf 2))) \<notin> knownApproverDids oneStore"
    using one_known sample_dids [of audB audA] by (auto simp: entropyOf_def sampleRecord_def)
  obtain sealed where "sealSeed sampleCrypto sampleApproverLib (meEphemeral (entropyOf 2)) (meSealIv (entropyOf 2)) (meSeed (entropyOf 2))
      (replicate 32 1) audB (fst (didKeyIds sampleCrypto sampleApproverLib (meSeed (entropyOf 2)))) = Inr sealed"
    using sample_seal_any by blast
  with n have "\<exists>r. ensureStepUpApprover sampleCrypto sampleApproverLib (entropyOf 2) 0 oneStore audB None =
      (Inr (arDid r), memPut oneStore (audienceKey audB) (Some (ApproverStored r)))"
    by (intro exI [of _ "\<lparr>arDid = fst (didKeyIds sampleCrypto sampleApproverLib (meSeed (entropyOf 2))),
        arKid = snd (didKeyIds sampleCrypto sampleApproverLib (meSeed (entropyOf 2))), arAudience = audB, arSealed = sealed, arCreatedAt = nowText 0\<rparr>"])
       (simp add: ensureStepUpApprover_def p carryOut_def d mintApprover_def Let_def)
  then obtain r where e: "ensureStepUpApprover sampleCrypto sampleApproverLib (entropyOf 2) 0 oneStore audB None =
      (Inr (arDid r), memPut oneStore (audienceKey audB) (Some (ApproverStored r)))" by blast
  show "approverAt (snd (ensureStepUpApprover sampleCrypto sampleApproverLib (entropyOf 2) 0 oneStore audB None)) audB \<noteq> None"
    "approverAt (snd (ensureStepUpApprover sampleCrypto sampleApproverLib (entropyOf 2) 0 oneStore audB None)) audA \<noteq> None"
    unfolding e by (simp_all add: approverAt_put oneStore_def)
qed

lemma approvers_unlinkable_witness:
  "\<exists>st r s. approverRun st \<and> approverAt st audA = Some r \<and> approverAt st audB = Some s \<and> arDid r \<noteq> arDid s"
proof -
  let ?st = "snd (ensureStepUpApprover sampleCrypto sampleApproverLib (entropyOf 2) 0 oneStore audB None)"
  have "approverRun oneStore"
    using run_ensure [OF run_empty, of sampleCrypto sampleApproverLib "entropyOf 1" 0 audA "Some gesture"] unfolding ensure_first by simp
  then have run: "approverRun ?st" by (rule run_ensure)
  from two_reached obtain r s where "approverAt ?st audA = Some r" "approverAt ?st audB = Some s" by blast
  with approvers_unlinkable [OF run this] run show ?thesis by auto
qed

subsection \<open>Two first mints at once\<close>

text \<open>
  Nothing serialises the reads and writes of two calls. When the first mints for two relying parties both read a store without
  a sealing key, each creates one, the second replaces the first, and the approver sealed to the first can never be loaded: its
  record says it was minted, so no later call mints it again.
\<close>

lemma seal_key_lost:
  assumes "mintOf 1 audA [] = (Inr d, st)" and "mintOf 2 audB st = (Inr d', st')"
  shows "loadStepUpApprover sampleCrypto sampleApproverLib st' audA gesture = Inl DecryptFailed" and "stepUpApproverDid st' audA = Some d"
proof -
  from assms(1) have st: "st = oneStore" "d = arDid (sampleRecord 1 audA)" by (simp_all add: mint_first)
  have n: "arDid (sampleRecord 2 audB) \<notin> knownApproverDids (memPut oneStore SEAL_KEY (Some (SealStored (sampleSeal 2))))"
  proof
    assume "arDid (sampleRecord 2 audB) \<in> knownApproverDids (memPut oneStore SEAL_KEY (Some (SealStored (sampleSeal 2))))"
    then obtain k where "storedDid (memGet (memPut oneStore SEAL_KEY (Some (SealStored (sampleSeal 2)))) k) = Some (arDid (sampleRecord 2 audB))"
      by (auto simp: knownApproverDids_def split: option.splits)
    with sample_dids [of audB audA] show False by (auto simp: oneStore_def idb.get_put idb.get_empty split: if_splits)
  qed
  from assms(2) have st': "st' = memPut (memPut oneStore SEAL_KEY (Some (SealStored (sampleSeal 2)))) (audienceKey audB)
      (Some (ApproverStored (sampleRecord 2 audB)))" unfolding st(1) sample_mint [OF n] by simp
  have r: "approverAt st' audA = Some (sampleRecord 1 audA)" "sealAt st' = Some (sampleSeal 2)"
    by (simp_all add: st' oneStore_def approverAt_put sealAt_put)
  then show "stepUpApproverDid st' audA = Some d" by (simp add: stepUpApproverDid_def st(2))
  have u: "unwrapSecret sampleApproverLib (sealWrapped (sampleSeal 2)) (Some gesture) = Inr (replicate 32 2)"
    using ucast_back [of "replicate 32 2"] passthrough_other
    by (simp add: unwrapSecret_def approverPrfWrap_def prfDomainWrap_def derivePrfKek_def sampleSeal_def sampleApproverLib_def
        del: map_map replicate.simps)
  have "unsealSeed sampleCrypto sampleApproverLib (arSealed (sampleRecord 1 audA)) (replicate 32 2) audA (arDid (sampleRecord 1 audA)) = Inl DecryptFailed"
  proof -
    have "take 64 (replicate 96 1) = replicate 32 1 @ replicate 32 (1 :: byte)" by (simp add: replicate_add [symmetric])
    moreover have "replicate 32 1 @ replicate 32 (1 :: byte) \<noteq> replicate 32 1 @ replicate 32 2" by (simp add: replicate_eq_replicate)
    ultimately show ?thesis using ucast_back [of "replicate 32 1"] ucast_back [of "replicate 96 1"]
      by (simp add: unsealSeed_def sampleRecord_def sealKdf_def Let_def sampleCrypto_def sampleApproverLib_def del: map_map replicate.simps)
  qed
  with r u passthrough_other show "loadStepUpApprover sampleCrypto sampleApproverLib st' audA gesture = Inl DecryptFailed"
    by (simp add: loadStepUpApprover_def prfWrap_required) (simp add: sampleRecord_def sampleSeal_def)
qed

end
