(* ===== verification/Page_Signing.thy ===== *)
theory Page_Signing
  imports Approver_Policy Approver_Store
begin

text \<open>
  The signing calls of a page, as the service worker handles them: \<open>handleSignTrustTask\<close>,
  \<open>handleSignApproverResponse\<close>, \<open>handleSignApproverDecision\<close>, \<open>handleApproveStepUp\<close> and
  \<open>handleApproveDecision\<close> of \<open>packages/extension/src/background.ts\<close>, with the operations of the offscreen document they
  call (\<open>doStepUpApprover\<close> of \<open>offscreen.ts\<close>). A handler returns its answer, the session store and what it did; what the
  human answers to a prompt, the clock and the reply of the signer are arguments.
\<close>

subsection \<open>Requests, prompts and effects\<close>

record pageConn =
  pcVtaDid :: jsstr
  pcRestBaseUrl :: "jsstr option"

record signRequest =
  srOrigin :: jsstr
  srEnvelope :: jsval
  srAsDid :: jsval

record signPrompt =
  spOrigin :: jsstr
  spRpDid :: jsstr
  spHolderDid :: "jsval option"
  spAction :: jsstr

record approverPrompt =
  prKind :: jsstr
  prOrigin :: jsstr
  prAudience :: jsstr
  prApproverDid :: jsstr
  prSubject :: jsval
  prReason :: "jsstr option"
  prOperationType :: jsval
  prOperationPayload :: jsval
  prChallenge :: jsval
  prBoundTo :: jsval
  prDecision :: jsval
  prSummary :: "jsstr option"
  prActionId :: jsval

datatype pageEffect =
    PromptedSign signPrompt bool
  | PromptedApprover approverPrompt bool
  | Remembered jsstr issuedStatement
  | Spent jsstr
  | SentToSign pageConn signRequest

datatype 'r signAnswer = SignRefused jsstr | SignReply 'r

type_synonym session = "jsstr \<rightharpoonup> issuedStatement"

definition ISSUED_STATEMENT_PREFIX :: jsstr where "ISSUED_STATEMENT_PREFIX = js ''approver-statement:''"

definition statementKey :: "jsstr option \<Rightarrow> jsstr option" where
  "statementKey ident = map_option (\<lambda>i. ISSUED_STATEMENT_PREFIX @ i) ident"

definition issuedFor :: "session \<Rightarrow> jsstr option \<Rightarrow> issuedStatement option" where
  "issuedFor session key = (case key of None \<Rightarrow> None | Some k \<Rightarrow> session k)"

definition recipientOf :: "jsval \<Rightarrow> jsstr" where
  "recipientOf envelope = textOfVal (getProp envelope (js ''recipient''))"

subsection \<open>Documents around a statement\<close>

text \<open>What the two handlers decide before they spend the statement: the refusal, or the key to spend.\<close>

definition decideWrapped ::
  "jsstr option \<Rightarrow> (issuedStatement option \<Rightarrow> jsstr option) \<Rightarrow> localStore \<Rightarrow> session \<Rightarrow> signRequest \<Rightarrow> jsstr + jsstr" where
  "decideWrapped key refusalFor pins session req =
     (case refusalFor (issuedFor session key) of
        Some e \<Rightarrow> Inl e
      | None \<Rightarrow>
          (case pageSignBindingRefusal (srOrigin req) (readOriginPin pins (srOrigin req)) (recipientOf (srEnvelope req)) of
             Some e \<Rightarrow> Inl e
           | None \<Rightarrow> (case key of Some k \<Rightarrow> Inr k | None \<Rightarrow> Inl [])))"

text \<open>Removing the statement and sending the document are two awaits of the handler; \<open>signWrapped\<close> runs them one after the other.\<close>

definition spendStatement :: "jsstr \<Rightarrow> session \<Rightarrow> session \<times> pageEffect list" where
  "spendStatement key session = (session(key := None), [Spent key])"

definition sendToSign :: "(pageConn \<Rightarrow> signRequest \<Rightarrow> 'r) \<Rightarrow> pageConn \<Rightarrow> signRequest \<Rightarrow> 'r signAnswer \<times> pageEffect list" where
  "sendToSign signer conn req = (SignReply (signer conn req), [SentToSign conn req])"

definition signWrapped ::
  "(pageConn \<Rightarrow> signRequest \<Rightarrow> 'r) \<Rightarrow> pageConn \<Rightarrow> signRequest \<Rightarrow> jsstr + jsstr \<Rightarrow> session \<Rightarrow> 'r signAnswer \<times> session \<times> pageEffect list" where
  "signWrapped signer conn req decision session =
     (case decision of
        Inl e \<Rightarrow> (SignRefused e, session, [])
      | Inr key \<Rightarrow>
          let (session', spent) = spendStatement key session; (answer, sent) = sendToSign signer conn req
          in (answer, session', spent @ sent))"

definition decideApproverResponse :: "int \<Rightarrow> localStore \<Rightarrow> session \<Rightarrow> signRequest \<Rightarrow> jsstr + jsstr" where
  "decideApproverResponse now pins session req =
     decideWrapped (statementKey (approverResponseStatementId (srEnvelope req)))
       (\<lambda>issued. approverResponseRefusal (srEnvelope req) issued (srOrigin req) (srAsDid req) now) pins session req"

definition decideApproverDecision :: "int \<Rightarrow> localStore \<Rightarrow> session \<Rightarrow> signRequest \<Rightarrow> jsstr + jsstr" where
  "decideApproverDecision now pins session req =
     decideWrapped (statementKey (decisionStatementId (srEnvelope req)))
       (\<lambda>issued. decisionResponseRefusal (srEnvelope req) issued (srOrigin req) (srAsDid req) now) pins session req"

subsection \<open>Any other document\<close>

definition signPromptFor :: "signRequest \<Rightarrow> signPrompt" where
  "signPromptFor req =
     \<lparr>spOrigin = srOrigin req, spRpDid = recipientOf (srEnvelope req),
      spHolderDid = (if truthy (srAsDid req) then Some (srAsDid req) else None),
      spAction = js ''Sign '' @ textOfVal (getProp (srEnvelope req) (js ''type''))\<rparr>"

definition handleSignTrustTask ::
  "(pageConn \<Rightarrow> signRequest \<Rightarrow> 'r) \<Rightarrow> (signPrompt \<Rightarrow> bool) \<Rightarrow> int \<Rightarrow> jsstr + pageConn \<Rightarrow> localStore \<Rightarrow> session \<Rightarrow> signRequest
     \<Rightarrow> 'r signAnswer \<times> session \<times> pageEffect list" where
  "handleSignTrustTask signer ask now active pins session req =
     (case active of
        Inl e \<Rightarrow> (SignRefused e, session, [])
      | Inr conn \<Rightarrow>
          if isApproverSignedResponse (srEnvelope req) then signWrapped signer conn req (decideApproverResponse now pins session req) session
          else if isApproverSignedDecision (srEnvelope req) then signWrapped signer conn req (decideApproverDecision now pins session req) session
          else case pageSignRefusal (srEnvelope req) (pcVtaDid conn) of
            Some e \<Rightarrow> (SignRefused e, session, [])
          | None \<Rightarrow>
              (case pageSignBindingRefusal (srOrigin req) (readOriginPin pins (srOrigin req)) (recipientOf (srEnvelope req)) of
                 Some e \<Rightarrow> (SignRefused e, session, [])
               | None \<Rightarrow>
                   let prompt = signPromptFor req; approved = ask prompt in
                   if \<not> approved then (SignRefused (js ''user denied signing''), session, [PromptedSign prompt False])
                   else let (answer, sent) = sendToSign signer conn req in (answer, session, PromptedSign prompt True # sent)))"

subsection \<open>Issuing a statement\<close>

text \<open>The offscreen document's answer to \<open>check-step-up\<close> and \<open>check-decision\<close>.\<close>

definition checkStepUpOp :: "crypto \<Rightarrow> approverKv \<Rightarrow> jsval \<Rightarrow> jsval \<Rightarrow> jsstr \<Rightarrow> approverError + (jsstr \<times> jsval)" where
  "checkStepUpOp C st request operation audience =
     bindE (orThrow (nonEmptyDid (stepUpApproverDid st audience)) (StoreRefused (ApproverRefusal NotOffered (noApprover audience)))) (\<lambda>approverDid.
     bindE (mapErr StoreRefused (checkStepUpApproval C request operation (JStr audience) approverDid)) (\<lambda>payload.
     Inr (approverDid, apBoundTo payload)))"

definition checkDecisionOp :: "crypto \<Rightarrow> approverKv \<Rightarrow> jsval \<Rightarrow> jsval \<Rightarrow> jsval \<Rightarrow> jsstr \<Rightarrow> approverError + (jsstr \<times> jsval)" where
  "checkDecisionOp C st subject action decision audience =
     bindE (orThrow (nonEmptyDid (stepUpApproverDid st audience)) (StoreRefused (ApproverRefusal NotEnrolled (noApprover audience)))) (\<lambda>approverDid.
     bindE (mapErr StoreRefused (checkDecisionApproval C subject action decision (JStr audience) approverDid)) (\<lambda>payload.
     Inr (approverDid, apBoundTo payload)))"

text \<open>The world a call runs in: the primitives, the approver's store when the
  request is checked and when it is signed, the pins, the random identifier and the clock, what
  the human does at an approver prompt (the PRF output of a gesture, or a denial), and how a failure is worded.\<close>

record approverWorld =
  awCrypto :: crypto
  awLib :: approverLib
  awStore :: approverKv
  awSignStore :: approverKv
  awPins :: localStore
  awUuid :: jsstr
  awNow :: int
  awSignNow :: int
  awGesture :: "approverPrompt \<Rightarrow> bytes option"
  awWording :: "approverError \<Rightarrow> jsstr"

definition stepUpPrompt :: "jsstr \<Rightarrow> jsstr \<Rightarrow> jsval \<Rightarrow> jsstr \<times> jsval \<Rightarrow> approverPrompt" where
  "stepUpPrompt origin audience params checked =
     (let request = getProp params (js ''request''); operation = getProp params (js ''operation'') in
      \<lparr>prKind = js ''stepUp'', prOrigin = origin, prAudience = audience, prApproverDid = fst checked,
       prSubject = JStr (jsString (getProp request (js ''subject''))),
       prReason = Some (textOfVal (getProp request (js ''reason''))),
       prOperationType = getProp operation (js ''type''), prOperationPayload = getProp operation (js ''payload''),
       prChallenge = JStr (jsString (getProp request (js ''challenge''))), prBoundTo = JStr (jsString (snd checked)),
       prDecision = JUndefined, prSummary = None, prActionId = JUndefined\<rparr>)"

definition stepUpIssued :: "jsstr \<Rightarrow> jsstr \<Rightarrow> jsval \<Rightarrow> int \<Rightarrow> members \<Rightarrow> issuedStatement" where
  "stepUpIssued origin audience params now statement =
     (let request = getProp params (js ''request'') in
      \<lparr>isStatement = JObj statement, isOrigin = origin, isAudience = audience, isSubject = JStr (jsString (getProp request (js ''subject''))),
       isChallengeText = JStr (jsString (getProp request (js ''challenge''))), isExpiresAt = now + ISSUED_STATEMENT_TTL_MS,
       isPurpose = None, isPayloadDigest = JUndefined, isDecision = JUndefined, isReason = JUndefined, isActionId = JUndefined\<rparr>)"

definition remember :: "issuedStatement \<Rightarrow> members \<Rightarrow> session \<Rightarrow> session \<times> pageEffect list" where
  "remember issued statement session =
     (let key = ISSUED_STATEMENT_PREFIX @ jsString (getMember statement (js ''id'')) in
      (session(key \<mapsto> issued), [Remembered key issued]))"

text \<open>Everything before the statement is remembered: the checks, the prompt and the signature.\<close>

definition approveStepUp ::
  "approverWorld \<Rightarrow> jsstr \<Rightarrow> jsval \<Rightarrow> (members \<times> jsstr) signAnswer \<times> (issuedStatement \<times> members) option \<times> pageEffect list" where
  "approveStepUp w origin params =
     (let audience = getProp params (js ''audience'') in
      case pageApproverAudienceRefusal origin (readOriginPin (awPins w) origin) audience of
        Some e \<Rightarrow> (SignRefused e, None, [])
      | None \<Rightarrow>
          let aud = textOfVal audience; request = getProp params (js ''request''); operation = getProp params (js ''operation'') in
          (case checkStepUpOp (awCrypto w) (awStore w) request operation aud of
             Inl e \<Rightarrow> (SignRefused (awWording w e), None, [])
           | Inr checked \<Rightarrow>
               let prompt = stepUpPrompt origin aud params checked in
               (case awGesture w prompt of
                  None \<Rightarrow> (SignRefused (js ''user denied the step-up''), None, [PromptedApprover prompt False])
                | Some prf_output \<Rightarrow>
                    (case signStepUpApproval (awCrypto w) (awLib w) (awUuid w) (awNow w) (awSignNow w) (awSignStore w) request operation aud
                        (approverPrfWrap (awLib w) prf_output) of
                       Inl e \<Rightarrow> (SignRefused (awWording w e), None, [PromptedApprover prompt True])
                     | Inr signed_by \<Rightarrow>
                         (SignReply signed_by, Some (stepUpIssued origin aud params (awNow w) (fst signed_by), fst signed_by),
                          [PromptedApprover prompt True])))))"

definition rememberAll :: "'a signAnswer \<times> (issuedStatement \<times> members) option \<times> pageEffect list \<Rightarrow> session
     \<Rightarrow> 'a signAnswer \<times> session \<times> pageEffect list" where
  "rememberAll result session =
     (case result of
        (answer, None, eff) \<Rightarrow> (answer, session, eff)
      | (answer, Some (issued, statement), eff) \<Rightarrow> (let (session', eff') = remember issued statement session in (answer, session', eff @ eff')))"

definition handleApproveStepUp ::
  "approverWorld \<Rightarrow> session \<Rightarrow> jsstr \<Rightarrow> jsval \<Rightarrow> (members \<times> jsstr) signAnswer \<times> session \<times> pageEffect list" where
  "handleApproveStepUp w session origin params = rememberAll (approveStepUp w origin params) session"

definition decisionPrompt :: "jsstr \<Rightarrow> jsstr \<Rightarrow> jsval \<Rightarrow> jsstr \<times> jsval \<Rightarrow> approverPrompt" where
  "decisionPrompt origin audience params checked =
     (let action = getProp params (js ''action''); decision = getProp params (js ''decision'') in
      \<lparr>prKind = js ''decision'', prOrigin = origin, prAudience = audience, prApproverDid = fst checked,
       prSubject = getProp params (js ''subject''), prReason = asString (getProp decision (js ''reason'')),
       prOperationType = getProp action (js ''type''), prOperationPayload = getProp action (js ''payload''),
       prChallenge = getProp decision (js ''challenge''), prBoundTo = JStr (jsString (snd checked)),
       prDecision = getProp decision (js ''decision''), prSummary = decisionSummaryText (getProp action (js ''summary'')),
       prActionId = getProp action (js ''actionId'')\<rparr>)"

definition decisionIssued :: "jsstr \<Rightarrow> jsstr \<Rightarrow> jsval \<Rightarrow> int \<Rightarrow> members \<Rightarrow> issuedStatement" where
  "decisionIssued origin audience params now statement =
     (let action = getProp params (js ''action''); decision = getProp params (js ''decision'') in
      \<lparr>isStatement = JObj statement, isOrigin = origin, isAudience = audience, isSubject = getProp params (js ''subject''),
       isChallengeText = getProp decision (js ''challenge''), isExpiresAt = now + ISSUED_STATEMENT_TTL_MS,
       isPurpose = Some (js ''decision''), isPayloadDigest = getProp decision (js ''payloadDigest''), isDecision = getProp decision (js ''decision''),
       isReason = getProp decision (js ''reason''), isActionId = getProp action (js ''actionId'')\<rparr>)"

definition badReason :: "jsval \<Rightarrow> bool" where
  "badReason v = (case v of JUndefined \<Rightarrow> False | JStr s \<Rightarrow> 500 < length s | _ \<Rightarrow> True)"

definition approveDecision ::
  "approverWorld \<Rightarrow> jsstr \<Rightarrow> jsval \<Rightarrow> (members \<times> jsstr) signAnswer \<times> (issuedStatement \<times> members) option \<times> pageEffect list" where
  "approveDecision w origin params =
     (let audience = getProp params (js ''audience'') in
      case pageApproverAudienceRefusal origin (readOriginPin (awPins w) origin) audience of
        Some e \<Rightarrow> (SignRefused e, None, [])
      | None \<Rightarrow>
          let aud = textOfVal audience; action = getProp params (js ''action''); decision = getProp params (js ''decision'');
              subject = getProp params (js ''subject'') in
          if badReason (getProp decision (js ''reason'')) then
            (SignRefused (js ''decision.reason must be a string of at most 500 characters''), None, [])
          else (case checkDecisionOp (awCrypto w) (awStore w) subject action decision aud of
             Inl e \<Rightarrow> (SignRefused (awWording w e), None, [])
           | Inr checked \<Rightarrow>
               let prompt = decisionPrompt origin aud params checked in
               (case awGesture w prompt of
                  None \<Rightarrow> (SignRefused (js ''user denied the decision''), None, [PromptedApprover prompt False])
                | Some prf_output \<Rightarrow>
                    (case signDecisionApproval (awCrypto w) (awLib w) (awUuid w) (awNow w) (awSignNow w) (awSignStore w) subject action decision aud
                        (approverPrfWrap (awLib w) prf_output) of
                       Inl e \<Rightarrow> (SignRefused (awWording w e), None, [PromptedApprover prompt True])
                     | Inr signed_by \<Rightarrow>
                         (SignReply signed_by, Some (decisionIssued origin aud params (awNow w) (fst signed_by), fst signed_by),
                          [PromptedApprover prompt True])))))"

definition handleApproveDecision ::
  "approverWorld \<Rightarrow> session \<Rightarrow> jsstr \<Rightarrow> jsval \<Rightarrow> (members \<times> jsstr) signAnswer \<times> session \<times> pageEffect list" where
  "handleApproveDecision w session origin params = rememberAll (approveDecision w origin params) session"

subsection \<open>What is signed for a page\<close>

lemma decideWrapped_Inr:
  "decideWrapped key refusalFor pins session req = Inr k \<longleftrightarrow>
     refusalFor (issuedFor session key) = None \<and> key = Some k \<and>
     pageSignBindingRefusal (srOrigin req) (readOriginPin pins (srOrigin req)) (recipientOf (srEnvelope req)) = None"
  by (auto simp: decideWrapped_def split: option.splits)

lemma response_decided:
  assumes "decideApproverResponse now pins session req = Inr k"
  shows "statementKey (approverResponseStatementId (srEnvelope req)) = Some k" and "approverResponseRefusal (srEnvelope req) (session k) (srOrigin req) (srAsDid req) now = None"
    and "pageSignBindingRefusal (srOrigin req) (readOriginPin pins (srOrigin req)) (recipientOf (srEnvelope req)) = None"
  using assms by (auto simp: decideApproverResponse_def decideWrapped_Inr issuedFor_def)

lemma decision_decided:
  assumes "decideApproverDecision now pins session req = Inr k"
  shows "statementKey (decisionStatementId (srEnvelope req)) = Some k" and "decisionResponseRefusal (srEnvelope req) (session k) (srOrigin req) (srAsDid req) now = None"
    and "pageSignBindingRefusal (srOrigin req) (readOriginPin pins (srOrigin req)) (recipientOf (srEnvelope req)) = None"
  using assms by (auto simp: decideApproverDecision_def decideWrapped_Inr issuedFor_def)

text \<open>What one call did, when it sent the document to be signed.\<close>

lemma sign_cases:
  assumes "handleSignTrustTask signer ask now active pins session req = (ans, session', eff)" and "SentToSign conn r \<in> set eff"
  obtains (response) k where "r = req" "active = Inr conn" "isApproverSignedResponse (srEnvelope req)"
      "decideApproverResponse now pins session req = Inr k" "session' = session(k := None)" "eff = [Spent k, SentToSign conn req]"
  | (decision) k where "r = req" "active = Inr conn" "\<not> isApproverSignedResponse (srEnvelope req)" "isApproverSignedDecision (srEnvelope req)"
      "decideApproverDecision now pins session req = Inr k" "session' = session(k := None)" "eff = [Spent k, SentToSign conn req]"
  | (prompted) "r = req" "active = Inr conn" "\<not> isApproverSignedResponse (srEnvelope req)" "\<not> isApproverSignedDecision (srEnvelope req)"
      "pageSignRefusal (srEnvelope req) (pcVtaDid conn) = None"
      "pageSignBindingRefusal (srOrigin req) (readOriginPin pins (srOrigin req)) (recipientOf (srEnvelope req)) = None"
      "ask (signPromptFor req)" "session' = session" "eff = [PromptedSign (signPromptFor req) True, SentToSign conn req]"
proof -
  from assms obtain c where a: "active = Inr c" by (cases active) (auto simp: handleSignTrustTask_def)
  note d = assms(1) [unfolded handleSignTrustTask_def a sum.case]
  consider "isApproverSignedResponse (srEnvelope req)" | "\<not> isApproverSignedResponse (srEnvelope req)" "isApproverSignedDecision (srEnvelope req)"
    | "\<not> isApproverSignedResponse (srEnvelope req)" "\<not> isApproverSignedDecision (srEnvelope req)" by blast
  then show thesis
  proof cases
    case 1
    then have w: "signWrapped signer c req (decideApproverResponse now pins session req) session = (ans, session', eff)" using d by simp
    with assms(2) obtain k where "decideApproverResponse now pins session req = Inr k"
      by (cases "decideApproverResponse now pins session req") (auto simp: signWrapped_def)
    with w assms(2) a 1 response show thesis by (auto simp: signWrapped_def spendStatement_def sendToSign_def)
  next
    case 2
    then have w: "signWrapped signer c req (decideApproverDecision now pins session req) session = (ans, session', eff)" using d by simp
    with assms(2) obtain k where "decideApproverDecision now pins session req = Inr k"
      by (cases "decideApproverDecision now pins session req") (auto simp: signWrapped_def)
    with w assms(2) a 2 decision show thesis by (auto simp: signWrapped_def spendStatement_def sendToSign_def)
  next
    case 3
    with d assms(2) have p: "pageSignRefusal (srEnvelope req) (pcVtaDid c) = None"
      "pageSignBindingRefusal (srOrigin req) (readOriginPin pins (srOrigin req)) (recipientOf (srEnvelope req)) = None"
      by (auto split: option.splits)
    with d 3 have e: "(ans, session', eff) = (if \<not> ask (signPromptFor req) then (SignRefused (js ''user denied signing''), session, [PromptedSign (signPromptFor req) False])
        else (SignReply (signer c req), session, [PromptedSign (signPromptFor req) True, SentToSign c req]))"
      by (simp add: Let_def sendToSign_def split: if_splits)
    with assms(2) have "ask (signPromptFor req)" by (auto split: if_splits)
    with e assms(2) a 3 p prompted show thesis by simp
  qed
qed

lemma recipient_plain: "pageSignRefusal envelope own = None \<Longrightarrow>
  \<exists>ms ty. envelope = JObj ms \<and> getMember ms (js ''type'') = JStr ty \<and> getMember ms (js ''recipient'') = JStr (recipientOf envelope) \<and>
    recipientOf envelope \<noteq> own \<and> \<not> startsWith ty APPROVAL_PREFIX \<and> \<not> startsWith ty AUTHENTICATE_PREFIX \<and> pageTaskRefusal ty = None"
  by (auto simp: pageSignRefusal_def recipientOf_def textOfVal_def split: jsval.splits if_splits)

text \<open>C6: Whatever a page asks to have signed, a document leaves for the signer only if the last login approved on its origin,
  with the pin not removed since, was to the party the document is addressed to; and, unless it is a document around an
  approver's statement, only after the human approved the prompt that names that party and the document's type, for a document
  that is not addressed to the holder's own agent, not an approval, not a sign-in and of no family refused to pages.\<close>
theorem page_signature_agreed:
  assumes "handleSignTrustTask signer ask now active (pinsAfter parseUrl evs) session req = (ans, session', eff)"
    and "SentToSign conn r \<in> set eff"
  shows "r = req \<and> lastLogin (srOrigin req) (recipientOf (srEnvelope req)) evs \<and>
    (isApproverSignedResponse (srEnvelope req) \<or> isApproverSignedDecision (srEnvelope req) \<or>
     eff = [PromptedSign (signPromptFor req) True, SentToSign conn req] \<and> ask (signPromptFor req) \<and>
     recipientOf (srEnvelope req) \<noteq> pcVtaDid conn \<and>
     (\<exists>ty. getProp (srEnvelope req) (js ''type'') = JStr ty \<and> \<not> startsWith ty APPROVAL_PREFIX \<and> \<not> startsWith ty AUTHENTICATE_PREFIX \<and>
        pageTaskRefusal ty = None))"
proof -
  have l: "lastLogin (srOrigin req) (recipientOf (srEnvelope req)) evs"
    if "pageSignBindingRefusal (srOrigin req) (readOriginPin (pinsAfter parseUrl evs) (srOrigin req)) (recipientOf (srEnvelope req)) = None"
    using pinned_login [OF that] .
  from assms show ?thesis
  proof (cases rule: sign_cases)
    case (response k)
    with l response_decided(3) [OF response(4)] show ?thesis by blast
  next
    case (decision k)
    with l decision_decided(3) [OF decision(5)] show ?thesis by blast
  next
    case prompted
    from recipient_plain [OF prompted(5)] l [OF prompted(6)] prompted show ?thesis by auto
  qed
qed

definition aTask :: signRequest where
  "aTask = \<lparr>srOrigin = js ''https://a.example'',
     srEnvelope = JObj [(js ''type'', JStr (js ''https://example.org/note/1'')), (js ''recipient'', JStr (js ''did:web:rp''))], srAsDid = JUndefined\<rparr>"

lemma page_signature_agreed_witness:
  "\<exists>ans session' eff. handleSignTrustTask (\<lambda>_ _. ()) (\<lambda>_. True) 0 (Inr \<lparr>pcVtaDid = js ''did:vta'', pcRestBaseUrl = None\<rparr>)
      (pinsAfter aParser [aLogin]) Map.empty aTask = (ans, session', eff) \<and>
     lastLogin (js ''https://a.example'') (js ''did:web:rp'') [aLogin] \<and> eff \<noteq> []"
proof -
  let ?conn = "\<lparr>pcVtaDid = js ''did:vta'', pcRestBaseUrl = None\<rparr>"
  have m: "getMember [(js ''type'', JStr (js ''https://example.org/note/1'')), (js ''recipient'', JStr (js ''did:web:rp''))] (js ''type'') =
      JStr (js ''https://example.org/note/1'')"
    "getMember [(js ''type'', JStr (js ''https://example.org/note/1'')), (js ''recipient'', JStr (js ''did:web:rp''))] (js ''recipient'') =
      JStr (js ''did:web:rp'')"
    by (simp_all add: getMember_Cons js_def)
  have t: "\<not> startsWith (js ''https://example.org/note/1'') APPROVAL_PREFIX" "\<not> startsWith (js ''https://example.org/note/1'') AUTHENTICATE_PREFIX"
    "\<not> startsWith (js ''https://example.org/note/1'') APPROVE_RESPONSE_FAMILY" "js ''https://example.org/note/1'' \<noteq> TASK_CONSENT_DECISION_0_2"
    "pageTaskRefusal (js ''https://example.org/note/1'') = None"
    by (simp_all add: startsWith_def APPROVAL_PREFIX_def AUTHENTICATE_PREFIX_def APPROVE_RESPONSE_FAMILY_def TASK_CONSENT_DECISION_0_2_def
        pageTaskRefusal_def REFUSED_def SPEC_def js_def)
  have "recipientOf (srEnvelope aTask) = js ''did:web:rp''" by (simp add: aTask_def recipientOf_def m textOfVal_def)
  moreover have "pageSignRefusal (srEnvelope aTask) (js ''did:vta'') = None"
    using t by (simp add: aTask_def pageSignRefusal_def m) (simp add: js_def)
  moreover have "\<not> isApproverSignedResponse (srEnvelope aTask)" "\<not> isApproverSignedDecision (srEnvelope aTask)"
    using t by (simp_all add: aTask_def isApproverSignedResponse_def isApproverSignedDecision_def m)
  moreover have "pageSignBindingRefusal (js ''https://a.example'') (readOriginPin (pinsAfter aParser [aLogin]) (js ''https://a.example'')) (js ''did:web:rp'') = None"
    by (simp add: aLogin_pin pageSignBindingRefusal_def)
  moreover have o: "srOrigin aTask = js ''https://a.example''" by (simp add: aTask_def)
  ultimately have h: "handleSignTrustTask (\<lambda>_ _. ()) (\<lambda>_. True) 0 (Inr ?conn) (pinsAfter aParser [aLogin]) Map.empty aTask =
      (SignReply (), Map.empty, [PromptedSign (signPromptFor aTask) True, SentToSign ?conn aTask])"
    by (simp add: handleSignTrustTask_def sendToSign_def)
  from page_signature_agreed [OF this, of ?conn aTask] h \<open>recipientOf (srEnvelope aTask) = _\<close> o show ?thesis by auto
qed

end
