(* ===== verification/Page_Statements.thy ===== *)
theory Page_Statements
  imports Page_Signing
begin

text \<open>
  The life of an approver's statement across the calls of pages: the human approves a prompt, the statement is issued and
  remembered in the session store, a document carries it, and it is gone. The handlers of different calls interleave wherever
  they await, so a history is a run of their parts: a call looks at the session store and decides, later removes the statement
  it decided on, later sends the document; another prompts and signs, and later remembers what it signed.
\<close>

subsection \<open>What a prompt stands for\<close>

text \<open>The statement of a record was signed by an approver for what its prompt showed: the same page, relying party, subject and
  challenge, bound to the digest of the operation on the prompt under the domain of the record's purpose.\<close>

definition promptFor :: "crypto \<Rightarrow> issuedStatement \<Rightarrow> approverPrompt \<Rightarrow> bool" where
  "promptFor C i prompt \<longleftrightarrow>
     prOrigin prompt = isOrigin i \<and> prAudience prompt = isAudience i \<and> prSubject prompt = isSubject i \<and> prChallenge prompt = isChallengeText i \<and>
     (isPurpose i = None \<or> isPurpose i = Some (js ''decision'') \<and> prDecision prompt = isDecision i) \<and>
     (\<exists>doc uuid now signNow att did kid key ty c dg. isStatement i = JObj doc \<and>
        signApproverStatement C uuid now signNow att did kid key = Inr doc \<and>
        att = \<lparr>apPurpose = JStr (if isPurpose i = None then js ''stepUp'' else js ''decision''), apSubject = isSubject i, apAudience = JStr (isAudience i),
          apChallenge = isChallengeText i, apBoundTo = JStr dg\<rparr> \<and>
        prOperationType prompt = JStr ty \<and> prChallenge prompt = JStr c \<and>
        domainDigest C (if isPurpose i = None then VTC_STEP_UP_DOMAIN else TASK_CONSENT_DOMAIN) ty (prOperationPayload prompt) (Some c) = Inr dg)"

lemma promptFor_record:
  "promptFor C i prompt \<Longrightarrow> prOrigin prompt = isOrigin i \<and> prAudience prompt = isAudience i \<and> prSubject prompt = isSubject i \<and>
     prChallenge prompt = isChallengeText i \<and> (isPurpose i = None \<or> isPurpose i = Some (js ''decision'') \<and> prDecision prompt = isDecision i)"
  unfolding promptFor_def by blast

lemma signAs_signed:
  assumes "signAs C L uuid now signNow st audience did wrap att = Inr (doc, d)"
  shows "\<exists>did kid key. signApproverStatement C uuid now signNow att did kid key = Inr doc"
  using assms by (auto simp: signAs_def bindE_Inr mapErr_Inr)

lemma attested_subject: "checkAttestPayload att = Inr att \<Longrightarrow> \<exists>s. apSubject att = JStr s"
  unfolding checkAttest_iff by (cases "apSubject att") (auto simp: attestIsDid_def)

lemma step_up_shown:
  assumes "signStepUpApproval C L uuid now signNow st (getProp params (js ''request'')) (getProp params (js ''operation'')) aud wrap = Inr (doc, d)"
  shows "promptFor C (stepUpIssued origin aud params now' doc) (stepUpPrompt origin aud params checked)"
proof -
  from assms obtain did' att where a: "checkStepUpApproval C (getProp params (js ''request'')) (getProp params (js ''operation'')) (JStr aud) did' = Inr att"
    "signAs C L uuid now signNow st aud did' wrap att = Inr (doc, d)"
    by (auto simp: signStepUpApproval_def bindE_Inr)
  from a(1) obtain r where r: "getProp params (js ''request'') = JObj r" "asksApprover C r (getProp params (js ''operation'')) did'"
    "att = \<lparr>apPurpose = JStr (js ''stepUp''), apSubject = getMember r (js ''subject''), apAudience = JStr aud,
       apChallenge = getMember r (js ''challenge''), apBoundTo = getMember r (js ''boundTo'')\<rparr>" "checkAttestPayload att = Inr att"
    unfolding step_up_check_iff by auto
  from r(2) obtain ms ty c dg where o: "getProp params (js ''operation'') = JObj ms" "getMember ms (js ''type'') = JStr ty"
    "getMember r (js ''challenge'') = JStr c" "domainDigest C VTC_STEP_UP_DOMAIN ty (getMember ms (js ''payload'')) (Some c) = Inr dg"
    "getMember r (js ''boundTo'') = JStr dg" unfolding asksApprover_def boundToOperation_def by blast
  from attested_subject [OF r(4)] r(3) obtain s where s: "getMember r (js ''subject'') = JStr s" by auto
  from signAs_signed [OF a(2)] obtain did kid key where "signApproverStatement C uuid now signNow att did kid key = Inr doc" by blast
  with r(1,3) o s show ?thesis
    unfolding promptFor_def stepUpIssued_def stepUpPrompt_def Let_def by (simp, blast)
qed

lemma decision_shown:
  assumes "signDecisionApproval C L uuid now signNow st (getProp params (js ''subject'')) (getProp params (js ''action'')) (getProp params (js ''decision'')) aud wrap = Inr (doc, d)"
  shows "promptFor C (decisionIssued origin aud params now' doc) (decisionPrompt origin aud params checked)"
proof -
  from assms obtain did' att where a: "checkDecisionApproval C (getProp params (js ''subject'')) (getProp params (js ''action'')) (getProp params (js ''decision'')) (JStr aud) did' = Inr att"
    "signAs C L uuid now signNow st aud did' wrap att = Inr (doc, d)"
    by (auto simp: signDecisionApproval_def bindE_Inr)
  from a(1) obtain dm where r: "getProp params (js ''decision'') = JObj dm" "decidesOn C dm (getProp params (js ''action''))"
    "att = \<lparr>apPurpose = JStr (js ''decision''), apSubject = getProp params (js ''subject''), apAudience = JStr aud,
       apChallenge = getMember dm (js ''challenge''), apBoundTo = getMember dm (js ''payloadDigest'')\<rparr>"
    unfolding decision_check_iff by auto
  from r(2) obtain ms ty c dg where o: "getProp params (js ''action'') = JObj ms" "getMember ms (js ''type'') = JStr ty"
    "getMember dm (js ''challenge'') = JStr c" "domainDigest C TASK_CONSENT_DOMAIN ty (getMember ms (js ''payload'')) (Some c) = Inr dg"
    "getMember dm (js ''payloadDigest'') = JStr dg" unfolding decidesOn_def boundToOperation_def by blast
  from signAs_signed [OF a(2)] obtain did kid key where "signApproverStatement C uuid now signNow att did kid key = Inr doc" by blast
  with r(1,3) o show ?thesis
    unfolding promptFor_def decisionIssued_def decisionPrompt_def Let_def by (simp, blast)
qed

text \<open>What the part of a call that issues has done before it remembers.\<close>

definition issuing :: "crypto \<Rightarrow> (issuedStatement \<times> members) option \<Rightarrow> pageEffect list \<Rightarrow> bool" where
  "issuing C kept eff \<longleftrightarrow>
     kept = None \<and> (eff = [] \<or> (\<exists>prompt b. eff = [PromptedApprover prompt b])) \<or>
     (\<exists>prompt i doc. kept = Some (i, doc) \<and> eff = [PromptedApprover prompt True] \<and> promptFor C i prompt)"

lemma step_up_issuing:
  assumes "approveStepUp w origin params = (ans, kept, eff)"
  shows "issuing (awCrypto w) kept eff"
  using assms by (auto simp: approveStepUp_def Let_def issuing_def split: option.splits sum.splits intro!: step_up_shown)

lemma decision_issuing:
  assumes "approveDecision w origin params = (ans, kept, eff)"
  shows "issuing (awCrypto w) kept eff"
  using assms by (auto simp: approveDecision_def Let_def issuing_def split: option.splits sum.splits if_splits intro!: decision_shown)
subsection \<open>Histories\<close>

datatype pageEvent =
    Effect pageEffect
  | Accepted jsstr
  | Restarted

fun sessionStep :: "pageEvent \<Rightarrow> session \<Rightarrow> session" where
  "sessionStep (Effect (Remembered k i)) S = S(k \<mapsto> i)"
| "sessionStep (Effect (Spent k)) S = S(k := None)"
| "sessionStep Restarted S = Map.empty"
| "sessionStep _ S = S"

text \<open>What the session store holds after the events of \<open>log\<close>.\<close>

definition sessionAfter :: "pageEvent list \<Rightarrow> session" where
  "sessionAfter log = fold sessionStep log Map.empty"

text \<open>A call that has looked at the session store takes the statement \<open>k\<close> for the document of \<open>req\<close>.\<close>

definition takes :: "int \<Rightarrow> localStore \<Rightarrow> session \<Rightarrow> signRequest \<Rightarrow> jsstr \<Rightarrow> bool" where
  "takes now pins session req k \<longleftrightarrow>
     isApproverSignedResponse (srEnvelope req) \<and> decideApproverResponse now pins session req = Inr k \<or>
     \<not> isApproverSignedResponse (srEnvelope req) \<and> isApproverSignedDecision (srEnvelope req) \<and> decideApproverDecision now pins session req = Inr k"

definition aroundStatement :: "signRequest \<Rightarrow> bool" where
  "aroundStatement req \<longleftrightarrow> isApproverSignedResponse (srEnvelope req) \<or> isApproverSignedDecision (srEnvelope req)"

text \<open>Calls between two awaits.\<close>

datatype pendingCall =
    Issuing issuedStatement members
  | Spending pageConn signRequest jsstr
  | Sending pageConn signRequest

text \<open>The parts of the handlers in any order; a worker may end in between, and a browser restart empties the session store.\<close>

inductive pageRun :: "crypto \<Rightarrow> session \<Rightarrow> pendingCall list \<Rightarrow> pageEvent list \<Rightarrow> bool" for C where
  run_start: "pageRun C Map.empty [] []"
| run_plain: "pageRun C session calls log \<Longrightarrow> \<not> aroundStatement req \<Longrightarrow>
    handleSignTrustTask (signer :: pageConn \<Rightarrow> signRequest \<Rightarrow> jsval) ask now active pins session req = (ans, session', eff) \<Longrightarrow>
    pageRun C session' calls (log @ map Effect eff)"
| run_accept: "pageRun C session calls log \<Longrightarrow> takes now pins session req k \<Longrightarrow>
    pageRun C session (Spending conn req k # calls) (log @ [Accepted k])"
| run_spend: "pageRun C session calls log \<Longrightarrow> Spending conn req k \<in> set calls \<Longrightarrow> spendStatement k session = (session', eff) \<Longrightarrow>
    pageRun C session' (Sending conn req # remove1 (Spending conn req k) calls) (log @ map Effect eff)"
| run_send: "pageRun C session calls log \<Longrightarrow> Sending conn req \<in> set calls \<Longrightarrow>
    sendToSign (signer' :: pageConn \<Rightarrow> signRequest \<Rightarrow> jsval) conn req = (ans', eff) \<Longrightarrow>
    pageRun C session (remove1 (Sending conn req) calls) (log @ map Effect eff)"
| run_issue: "pageRun C session calls log \<Longrightarrow> awCrypto w = C \<Longrightarrow>
    approveStepUp w origin params = (reply, kept, eff) \<or> approveDecision w origin params = (reply, kept, eff) \<Longrightarrow>
    pageRun C session ((case kept of Some (i, doc) \<Rightarrow> [Issuing i doc] | None \<Rightarrow> []) @ calls) (log @ map Effect eff)"
| run_remember: "pageRun C session calls log \<Longrightarrow> Issuing i doc \<in> set calls \<Longrightarrow> remember i doc session = (session', eff) \<Longrightarrow>
    pageRun C session' (remove1 (Issuing i doc) calls) (log @ map Effect eff)"
| run_end: "pageRun C session calls log \<Longrightarrow> pageRun C session (remove1 call calls) log"
| run_restart: "pageRun C session calls log \<Longrightarrow> pageRun C Map.empty [] (log @ [Restarted])"

text \<open>A call that runs from its first part to its last without another in between is the handler.\<close>

lemma sign_is_run:
  assumes "pageRun C session calls log" and "handleSignTrustTask (signer :: pageConn \<Rightarrow> signRequest \<Rightarrow> jsval) ask now active pins session req = (ans, session', eff)"
  shows "\<exists>looked. set looked \<subseteq> range Accepted \<and> pageRun C session' calls (log @ looked @ map Effect eff)"
proof (cases "aroundStatement req")
  case False
  from run_plain [OF assms(1) False assms(2)] show ?thesis by (intro exI [of _ "[]"]) simp
next
  case True
  show ?thesis
  proof (cases "\<exists>conn. SentToSign conn req \<in> set eff")
    case False
    then have "eff = [] \<and> session' = session"
      using assms(2) True unfolding handleSignTrustTask_def aroundStatement_def signWrapped_def
      by (auto simp: sendToSign_def spendStatement_def split: sum.splits if_splits)
    with assms(1) show ?thesis by (intro exI [of _ "[]"]) simp
  next
    case sent: True
    then obtain conn where "SentToSign conn req \<in> set eff" by blast
    with assms(2) obtain k where k: "takes now pins session req k" "session' = session(k := None)" "eff = [Spent k, SentToSign conn req]"
      by (cases rule: sign_cases) (use True in \<open>auto simp: takes_def aroundStatement_def\<close>)
    have "pageRun C session (Spending conn req k # calls) (log @ [Accepted k])" by (rule run_accept [OF assms(1) k(1)])
    from run_spend [OF this, of conn req k] have "pageRun C session' (Sending conn req # calls) ((log @ [Accepted k]) @ [Effect (Spent k)])"
      by (simp add: spendStatement_def k(2))
    from run_send [OF this, of conn req signer] have "pageRun C session' calls (log @ [Accepted k] @ map Effect eff)"
      by (simp add: sendToSign_def k(3))
    then show ?thesis by (intro exI [of _ "[Accepted k]"]) simp
  qed
qed

lemma issue_is_run:
  assumes "pageRun C session calls log" and "awCrypto w = C"
    and "handleApproveStepUp w session origin params = (ans, session', eff) \<or> handleApproveDecision w session origin params = (ans, session', eff)"
  shows "pageRun C session' calls (log @ map Effect eff)"
proof -
  from assms(3) obtain ans' kept e1 where r: "approveStepUp w origin params = (ans', kept, e1) \<or> approveDecision w origin params = (ans', kept, e1)"
    "rememberAll (ans', kept, e1) session = (ans, session', eff)"
    unfolding handleApproveStepUp_def handleApproveDecision_def by (metis prod_cases3)
  note run = run_issue [OF assms(1,2) r(1)]
  show ?thesis
  proof (cases kept)
    case None
    with run r(2) show ?thesis by (simp add: rememberAll_def)
  next
    case (Some ki)
    obtain i doc where ki: "ki = (i, doc)" by fastforce
    obtain s' e2 where m: "remember i doc session = (s', e2)" by fastforce
    from run Some ki have "pageRun C session (Issuing i doc # calls) (log @ map Effect e1)" by simp
    from run_remember [OF this _ m] have "pageRun C s' calls (log @ map Effect (e1 @ e2))" by simp
    with r(2) show ?thesis by (auto simp add: rememberAll_def Some ki m simp del: map_append)
  qed
qed

text \<open>What stands behind an event, given the events before it.\<close>

definition shownBefore :: "crypto \<Rightarrow> pageEvent list \<Rightarrow> issuedStatement \<Rightarrow> bool" where
  "shownBefore C log i \<longleftrightarrow> (\<exists>prompt. promptFor C i prompt \<and> Effect (PromptedApprover prompt True) \<in> set log)"

definition takenBefore :: "pageEvent list \<Rightarrow> signRequest \<Rightarrow> jsstr \<Rightarrow> bool" where
  "takenBefore log req k \<longleftrightarrow> (\<exists>x y now pins. log = x @ Accepted k # y \<and> takes now pins (sessionAfter x) req k)"

fun behind :: "crypto \<Rightarrow> pageEvent list \<Rightarrow> pageEvent \<Rightarrow> bool" where
  "behind C log (Effect (Remembered k i)) \<longleftrightarrow> shownBefore C log i"
| "behind C log (Accepted k) \<longleftrightarrow> sessionAfter log k \<noteq> None"
| "behind C log (Effect (SentToSign conn req)) \<longleftrightarrow> aroundStatement req \<longrightarrow> (\<exists>k. takenBefore log req k)"
| "behind C log _ \<longleftrightarrow> True"

definition explainedLog :: "crypto \<Rightarrow> pageEvent list \<Rightarrow> bool" where
  "explainedLog C log \<longleftrightarrow> (\<forall>x e y. log = x @ e # y \<longrightarrow> behind C x e)"

fun callOk :: "crypto \<Rightarrow> pageEvent list \<Rightarrow> pendingCall \<Rightarrow> bool" where
  "callOk C log (Issuing i doc) \<longleftrightarrow> shownBefore C log i"
| "callOk C log (Spending conn req k) \<longleftrightarrow> aroundStatement req \<and> takenBefore log req k"
| "callOk C log (Sending conn req) \<longleftrightarrow> (\<exists>k. takenBefore log req k)"

definition spendsOf :: "jsstr \<Rightarrow> pendingCall list \<Rightarrow> nat" where
  "spendsOf k calls = length (filter (\<lambda>c. \<exists>conn req. c = Spending conn req k) calls)"

definition times :: "pageEvent \<Rightarrow> pageEvent list \<Rightarrow> nat" where
  "times e log = length (filter (\<lambda>x. x = e) log)"

definition pageInv :: "crypto \<Rightarrow> session \<Rightarrow> pendingCall list \<Rightarrow> pageEvent list \<Rightarrow> bool" where
  "pageInv C session calls log \<longleftrightarrow> session = sessionAfter log \<and> explainedLog C log \<and> list_all (callOk C log) calls \<and>
     (\<forall>k. times (Effect (Spent k)) log + spendsOf k calls \<le> times (Accepted k) log)"

lemma sessionAfter_snoc [simp]: "sessionAfter (log @ [e]) = sessionStep e (sessionAfter log)"
  by (simp add: sessionAfter_def)

lemma explained_snoc: "explainedLog C (log @ [e]) \<longleftrightarrow> explainedLog C log \<and> behind C log e"
proof
  assume h: "explainedLog C (log @ [e])"
  have "behind C x d" if "log = x @ d # y" for x d y
    using h that unfolding explainedLog_def by (metis append.assoc append_Cons)
  moreover have "behind C log e" using h unfolding explainedLog_def by blast
  ultimately show "explainedLog C log \<and> behind C log e" unfolding explainedLog_def by blast
next
  assume h: "explainedLog C log \<and> behind C log e"
  have "behind C x d" if "log @ [e] = x @ d # y" for x d y
    using h that unfolding explainedLog_def by (cases y rule: rev_cases) auto
  then show "explainedLog C (log @ [e])" unfolding explainedLog_def by blast
qed

lemma times_simps [simp]: "times e [] = 0" "times e (log @ [d]) = times e log + (if d = e then 1 else 0)"
  by (simp_all add: times_def)

lemma shown_more: "shownBefore C log i \<Longrightarrow> shownBefore C (log @ l) i"
  by (auto simp: shownBefore_def)

lemma taken_more: "takenBefore log req k \<Longrightarrow> takenBefore (log @ l) req k"
  unfolding takenBefore_def by (metis append.assoc append_Cons)

lemma callOk_more: "callOk C log c \<Longrightarrow> callOk C (log @ l) c"
  by (cases c) (auto intro: shown_more taken_more)

lemma calls_more: "list_all (callOk C log) calls \<Longrightarrow> list_all (callOk C (log @ l)) calls"
  by (auto simp: list_all_iff intro: callOk_more)

lemma calls_remove1: "list_all P calls \<Longrightarrow> list_all P (remove1 c calls)"
  using set_remove1_subset [of c calls] by (auto simp: list_all_iff)

lemma spends_remove1: "spendsOf k (remove1 c calls) \<le> spendsOf k calls"
  unfolding spendsOf_def filter_remove1 [symmetric] by (induction calls) auto

lemma spends_spent: "Spending conn req k \<in> set calls \<Longrightarrow> spendsOf k (remove1 (Spending conn req k) calls) + 1 = spendsOf k calls"
  unfolding spendsOf_def by (induction calls) auto

lemma spends_simps [simp]: "spendsOf k [] = 0" "spendsOf k (Issuing i d # calls) = spendsOf k calls"
  "spendsOf k (Sending conn req # calls) = spendsOf k calls"
  "spendsOf k (Spending conn req j # calls) = (if j = k then 1 else 0) + spendsOf k calls"
  by (auto simp: spendsOf_def)

lemma takes_held: "takes now pins session req k \<Longrightarrow> session k \<noteq> None"
  unfolding takes_def using response_decided(2) decision_decided(2) unfolding response_iff decision_iff by blast

text \<open>Events that touch neither the session store nor the counts.\<close>

fun quietEvent :: "pageEvent \<Rightarrow> bool" where
  "quietEvent (Effect (PromptedSign p b)) \<longleftrightarrow> True"
| "quietEvent (Effect (PromptedApprover p b)) \<longleftrightarrow> True"
| "quietEvent (Effect (SentToSign conn req)) \<longleftrightarrow> True"
| "quietEvent _ \<longleftrightarrow> False"

lemma quiet_step: "quietEvent e \<Longrightarrow> sessionStep e S = S \<and> e \<noteq> Effect (Spent k) \<and> e \<noteq> Accepted k"
  by (cases e rule: quietEvent.cases) auto

lemma inv_quiet:
  assumes "pageInv C session calls log" and "quietEvent e" and "behind C log e"
  shows "pageInv C session calls (log @ [e])"
  using assms quiet_step [OF assms(2)] calls_more unfolding pageInv_def explained_snoc by auto

lemma inv_weaken:
  "pageInv C session calls log \<Longrightarrow> pageInv C session (remove1 c calls) log"
  using calls_remove1 spends_remove1 order_trans unfolding pageInv_def by (metis (no_types, lifting) add_left_mono)

lemma inv_event:
  assumes "pageInv C session calls log" and "sessionStep e session = session'" and "behind C log e"
    and "list_all (callOk C (log @ [e])) calls'"
    and "\<And>k. times (Effect (Spent k)) (log @ [e]) + spendsOf k calls' \<le> times (Accepted k) (log @ [e])"
  shows "pageInv C session' calls' (log @ [e])"
  using assms unfolding pageInv_def explained_snoc by simp

lemma inv_counts: "pageInv C session calls log \<Longrightarrow> times (Effect (Spent k)) log + spendsOf k calls \<le> times (Accepted k) log"
  by (simp add: pageInv_def)

text \<open>A call that signs anything else prompts and sends at most.\<close>

lemma plain_quiet:
  assumes "handleSignTrustTask signer ask now active pins session req = (ans, session', eff)" and "\<not> aroundStatement req"
  shows "session' = session \<and> (eff = [] \<or> (\<exists>p b. eff = [PromptedSign p b]) \<or> (\<exists>p conn. eff = [PromptedSign p True, SentToSign conn req]))"
  using assms unfolding handleSignTrustTask_def aroundStatement_def
  by (auto simp: Let_def sendToSign_def split: option.splits sum.splits if_splits)

lemma run_pageInv: "pageRun C session calls log \<Longrightarrow> pageInv C session calls log"
proof (induction rule: pageRun.induct)
  case run_start
  show ?case by (simp add: pageInv_def sessionAfter_def explainedLog_def)
next
  case (run_plain session calls log req signer ask now active pins ans session' eff)
  from plain_quiet [OF run_plain.hyps(3,2)] have s: "session' = session" by blast
  have two: "log @ [a, b] = (log @ [a]) @ [b]" for a b by simp
  from plain_quiet [OF run_plain.hyps(3,2)] run_plain.hyps(2) show ?case unfolding s
    using run_plain.IH inv_quiet [OF run_plain.IH] inv_quiet [OF inv_quiet [OF run_plain.IH]] by (auto simp: two simp del: append.assoc append_assoc)
next
  case (run_accept session calls log now pins req k conn)
  have ss: "session = sessionAfter log" using run_accept.IH by (simp add: pageInv_def)
  have tk: "takenBefore (log @ [Accepted k]) req k"
    unfolding takenBefore_def using run_accept.hyps(2) ss by blast
  have ar: "aroundStatement req" using run_accept.hyps(2) by (auto simp: takes_def aroundStatement_def)
  show ?case
  proof (rule inv_event [OF run_accept.IH])
    show "behind C log (Accepted k)" using takes_held [OF run_accept.hyps(2)] ss by simp
    show "list_all (callOk C (log @ [Accepted k])) (Spending conn req k # calls)"
      using tk ar calls_more run_accept.IH unfolding pageInv_def by simp
    show "times (Effect (Spent j)) (log @ [Accepted k]) + spendsOf j (Spending conn req k # calls) \<le> times (Accepted j) (log @ [Accepted k])" for j
      using inv_counts [OF run_accept.IH, of j] by simp
  qed simp
next
  case (run_spend session calls log conn req k session' eff)
  have e: "eff = [Spent k]" "session' = session(k := None)" using run_spend.hyps(3) by (auto simp: spendStatement_def)
  have ok: "list_all (callOk C log) calls" using run_spend.IH by (simp add: pageInv_def)
  with run_spend.hyps(2) have "takenBefore log req k" by (auto simp: list_all_iff)
  then have tk: "\<exists>k'. takenBefore (log @ [Effect (Spent k)]) req k'" using taken_more by blast
  have "pageInv C (session(k := None)) (Sending conn req # remove1 (Spending conn req k) calls) (log @ [Effect (Spent k)])"
  proof (rule inv_event [OF run_spend.IH])
    show "list_all (callOk C (log @ [Effect (Spent k)])) (Sending conn req # remove1 (Spending conn req k) calls)"
      using tk calls_remove1 [OF calls_more [OF ok]] by simp
    show "times (Effect (Spent j)) (log @ [Effect (Spent k)]) + spendsOf j (Sending conn req # remove1 (Spending conn req k) calls)
        \<le> times (Accepted j) (log @ [Effect (Spent k)])" for j
      using inv_counts [OF run_spend.IH, of j] spends_spent [OF run_spend.hyps(2)] spends_remove1 [of j "Spending conn req k" calls]
      by (cases "j = k") auto
  qed simp_all
  then show ?case unfolding e list.map .
next
  case (run_send session calls log conn req signer' ans' eff)
  have e: "eff = [SentToSign conn req]" using run_send.hyps(3) by (simp add: sendToSign_def)
  have "callOk C log (Sending conn req)" using run_send.hyps(2) run_send.IH by (auto simp: pageInv_def list_all_iff)
  then have "behind C log (Effect (SentToSign conn req))" by simp
  with inv_weaken [OF inv_quiet [OF run_send.IH]] e show ?case by simp
next
  case (run_issue session calls log w origin params reply kept eff)
  then consider (quiet) "kept = None" "eff = [] \<or> (\<exists>prompt b. eff = [PromptedApprover prompt b])"
    | (new) prompt i doc where "kept = Some (i, doc)" "eff = [PromptedApprover prompt True]" "promptFor C i prompt"
    using step_up_issuing decision_issuing unfolding issuing_def by metis
  then show ?case
  proof cases
    case quiet
    with run_issue.IH inv_quiet [OF run_issue.IH] show ?thesis by auto
  next
    case new
    have "pageInv C session (Issuing i doc # calls) (log @ [Effect (PromptedApprover prompt True)])"
    proof (rule inv_event [OF run_issue.IH])
      show "list_all (callOk C (log @ [Effect (PromptedApprover prompt True)])) (Issuing i doc # calls)"
        using new(3) calls_more run_issue.IH unfolding pageInv_def by (auto simp: shownBefore_def)
    qed (use inv_counts [OF run_issue.IH] in simp_all)
    with new show ?thesis by simp
  qed
next
  case (run_remember session calls log i doc session' eff)
  obtain k where e: "eff = [Remembered k i]" "session' = session(k \<mapsto> i)" using run_remember.hyps(3) by (auto simp: remember_def Let_def)
  have ok: "list_all (callOk C log) calls" using run_remember.IH by (simp add: pageInv_def)
  have "pageInv C (session(k \<mapsto> i)) (remove1 (Issuing i doc) calls) (log @ [Effect (Remembered k i)])"
  proof (rule inv_event [OF run_remember.IH])
    show "behind C log (Effect (Remembered k i))" using ok run_remember.hyps(2) by (auto simp: list_all_iff)
    show "list_all (callOk C (log @ [Effect (Remembered k i)])) (remove1 (Issuing i doc) calls)"
      using calls_remove1 [OF calls_more [OF ok]] .
    show "times (Effect (Spent j)) (log @ [Effect (Remembered k i)]) + spendsOf j (remove1 (Issuing i doc) calls)
        \<le> times (Accepted j) (log @ [Effect (Remembered k i)])" for j
      using inv_counts [OF run_remember.IH, of j] spends_remove1 [of j "Issuing i doc" calls] by simp
  qed simp_all
  then show ?case unfolding e list.map .
next
  case (run_end session calls log call)
  from run_end.IH show ?case by (rule inv_weaken)
next
  case (run_restart session calls log)
  show ?case
    by (rule inv_event [OF run_restart.IH]) (use inv_counts [OF run_restart.IH] in \<open>auto intro: add_leD1\<close>)
qed

subsection \<open>What stands behind a removal and behind a signature\<close>

lemma held_remembered: "sessionAfter log k = Some i \<Longrightarrow> Effect (Remembered k i) \<in> set log"
proof (induction log rule: rev_induct)
  case Nil
  then show ?case by (simp add: sessionAfter_def)
next
  case (snoc e log)
  then show ?case by (cases "(e, sessionAfter log)" rule: sessionStep.cases) (auto split: if_splits)
qed


lemma run_behind: "pageRun C session calls log \<Longrightarrow> log = x @ e # y \<Longrightarrow> behind C x e"
  using run_pageInv unfolding pageInv_def explainedLog_def by blast

lemma run_shown:
  assumes "pageRun C session calls log" and "log = x @ y" and "sessionAfter x k = Some i"
  obtains u v prompt where "x = u @ Effect (Remembered k i) # v" "Effect (PromptedApprover prompt True) \<in> set u" "promptFor C i prompt"
proof -
  from held_remembered [OF assms(3)] obtain u v where x: "x = u @ Effect (Remembered k i) # v" by (meson split_list)
  with assms(2) have "log = u @ Effect (Remembered k i) # v @ y" by simp
  from run_behind [OF assms(1) this] x that show thesis by (auto simp: shownBefore_def)
qed


text \<open>What an accepted document carries, against the statement the session store held.\<close>

definition answersIssued :: "signRequest \<Rightarrow> jsstr \<Rightarrow> issuedStatement \<Rightarrow> bool" where
  "answersIssued req k i \<longleftrightarrow>
     isOrigin i = srOrigin req \<and> isAudience i = recipientOf (srEnvelope req) \<and> strictEq (srAsDid req) (isSubject i) \<and>
     (\<exists>p statement sid. getProp (srEnvelope req) (js ''payload'') = JObj p \<and> getProp (getMember p (js ''evidence'')) (js ''statement'') = statement \<and>
        getProp statement (js ''id'') = JStr sid \<and> k = ISSUED_STATEMENT_PREFIX @ sid \<and> sameCanonical statement (isStatement i) \<and>
        strictEq (getMember p (js ''challenge'')) (isChallengeText i) \<and>
        (if isPurpose i = Some (js ''decision'') then strictEq (getMember p (js ''decision'')) (isDecision i)
         else getMember p (js ''decision'') = JStr (js ''approved'')))"

lemma takes_answers:
  assumes "takes now pins session req k"
  obtains i where "session k = Some i" "answersIssued req k i"
proof -
  have tid: "\<exists>sid. v = JStr sid \<and> t = sid" if "textId v = Some t" for v t using that by (auto simp: textId_def split: jsval.splits if_splits)
  from assms consider "decideApproverResponse now pins session req = Inr k" | "decideApproverDecision now pins session req = Inr k"
    by (auto simp: takes_def)
  then show thesis
  proof cases
    case 1
    from response_decided(1) [OF 1] tid obtain sid where k: "k = ISSUED_STATEMENT_PREFIX @ sid"
      "getProp (getProp (evidenceOf (srEnvelope req)) (js ''statement'')) (js ''id'') = JStr sid"
      by (fastforce simp: statementKey_def approverResponseStatementId_def)
    from response_decided(2) [OF 1] obtain doc p statement i where d: "srEnvelope req = JObj doc" "session k = Some i"
      "wrapsStatement APPROVE_RESPONSE RESPONSE_MEMBERS doc p statement" "answersStepUp i p" "liveFor i (srOrigin req) (srAsDid req) now doc"
      "sameCanonical statement (isStatement i)" unfolding response_iff by blast
    have np: "isPurpose i \<noteq> Some (js ''decision'')" using d(4) by (auto simp: answersStepUp_def js_def)
    have "answersIssued req k i"
      unfolding answersIssued_def using d k np
      by (auto simp: wrapsStatement_def answersStepUp_def liveFor_def recipientOf_def textOfVal_def evidenceOf_def)
    with that d(2) show thesis .
  next
    case 2
    from response_decided(1) decision_decided(1) [OF 2] tid obtain sid where k: "k = ISSUED_STATEMENT_PREFIX @ sid"
      "getProp (getProp (evidenceOf (srEnvelope req)) (js ''statement'')) (js ''id'') = JStr sid"
      by (fastforce simp: statementKey_def decisionStatementId_def Let_def split: if_splits)
    from decision_decided(2) [OF 2] obtain doc p statement i where d: "srEnvelope req = JObj doc" "session k = Some i"
      "wrapsStatement TASK_CONSENT_DECISION_0_2 DECISION_MEMBERS doc p statement" "answersDecision i p" "liveFor i (srOrigin req) (srAsDid req) now doc"
      "sameCanonical statement (isStatement i)" unfolding decision_iff by blast
    have "answersIssued req k i"
      unfolding answersIssued_def using d k
      by (auto simp: wrapsStatement_def answersDecision_def liveFor_def recipientOf_def textOfVal_def evidenceOf_def)
    with that d(2) show thesis .
  qed
qed

text \<open>C5: A document around an approver's statement is signed only for what the human approved, however the calls of pages
  interleave: an earlier call looked at the session store and found, under the identifier of the statement the document carries, a
  remembered statement with the same canonical text; that one was remembered after the human had approved a prompt of this
  browser session for it. The statement was signed by an approver for what that prompt showed: the page, the relying party,
  the subject and the challenge the document is signed for, and the digest of the operation on the prompt under the domain of its purpose;
  and an approval is a step-up's, while a decision is the one that was shown.\<close>
theorem signed_response_was_shown:
  assumes "pageRun C session calls log" and "log = a @ Effect (SentToSign conn req) # b" and "aroundStatement req"
  shows "\<exists>u v y k i prompt p. a = u @ Effect (Remembered k i) # v @ Accepted k # y \<and>
    sessionAfter (u @ Effect (Remembered k i) # v) k = Some i \<and>
    Effect (PromptedApprover prompt True) \<in> set u \<and> promptFor C i prompt \<and>
    prOrigin prompt = srOrigin req \<and> prAudience prompt = recipientOf (srEnvelope req) \<and> strictEq (srAsDid req) (prSubject prompt) \<and>
    getProp (srEnvelope req) (js ''payload'') = JObj p \<and> strictEq (getMember p (js ''challenge'')) (prChallenge prompt) \<and>
    sameCanonical (getProp (getMember p (js ''evidence'')) (js ''statement'')) (isStatement i) \<and>
    (\<exists>sid. getProp (getProp (getMember p (js ''evidence'')) (js ''statement'')) (js ''id'') = JStr sid \<and> k = ISSUED_STATEMENT_PREFIX @ sid) \<and>
    (isPurpose i = None \<and> getMember p (js ''decision'') = JStr (js ''approved'') \<or>
     isPurpose i = Some (js ''decision'') \<and> strictEq (getMember p (js ''decision'')) (prDecision prompt))"
proof -
  from run_behind [OF assms(1,2)] assms(3) obtain k x y now pins where x: "a = x @ Accepted k # y" "takes now pins (sessionAfter x) req k"
    by (auto simp: takenBefore_def)
  from takes_answers [OF x(2)] obtain i where i: "sessionAfter x k = Some i" "answersIssued req k i" .
  from assms(2) x(1) have "log = x @ (Accepted k # y @ Effect (SentToSign conn req) # b)" by simp
  from run_shown [OF assms(1) this i(1)] obtain u v prompt where
    u: "x = u @ Effect (Remembered k i) # v" "Effect (PromptedApprover prompt True) \<in> set u" "promptFor C i prompt" .
  from i(2) obtain p sid where p: "getProp (srEnvelope req) (js ''payload'') = JObj p"
    "getProp (getProp (getMember p (js ''evidence'')) (js ''statement'')) (js ''id'') = JStr sid" "k = ISSUED_STATEMENT_PREFIX @ sid" "isOrigin i = srOrigin req"
    "isAudience i = recipientOf (srEnvelope req)" "strictEq (srAsDid req) (isSubject i)"
    "strictEq (getMember p (js ''challenge'')) (isChallengeText i)"
    "sameCanonical (getProp (getMember p (js ''evidence'')) (js ''statement'')) (isStatement i)"
    "if isPurpose i = Some (js ''decision'') then strictEq (getMember p (js ''decision'')) (isDecision i)
     else getMember p (js ''decision'') = JStr (js ''approved'')" unfolding answersIssued_def by blast
  from x(1) i(1) u p promptFor_record [OF u(3)] show ?thesis
    by (intro exI [of _ u] exI [of _ v] exI [of _ y] exI [of _ k] exI [of _ i] exI [of _ prompt] exI [of _ p]) (auto split: if_splits)
qed
subsection \<open>One statement, from its prompt to its document\<close>

definition aPage :: jsstr where "aPage = js ''https://a.example''"
definition aSubject :: jsval where "aSubject = JStr (js ''did:a'')"
definition aChallenge :: jsstr where "aChallenge = js ''0123456789abcdef''"
definition anApprover :: jsstr where "anApprover = arDid (sampleRecord 1 audA)"
definition aKey :: jsstr where "aKey = ISSUED_STATEMENT_PREFIX @ js ''urn:uuid:u''"
definition thePins :: localStore where "thePins = pinsAfter aParser [LoginApproved 1 aPage audA None]"

definition aWorld :: approverWorld where
  "aWorld = \<lparr>awCrypto = sampleCrypto, awLib = sampleApproverLib, awStore = oneStore, awSignStore = oneStore, awPins = thePins, awUuid = js ''u'', awNow = 0,
     awSignNow = 60000, awGesture = (\<lambda>_. Some []), awWording = (\<lambda>_. [])\<rparr>"

definition askedStepUp :: "jsstr \<Rightarrow> members" where
  "askedStepUp dg = [(js ''subject'', aSubject), (js ''challenge'', JStr aChallenge), (js ''reason'', JStr []), (js ''boundTo'', JStr dg),
     (js ''accepts'', JArr [JStr (js ''approverSigned'')]), (js ''approvers'', JArr [JStr anApprover])]"

definition stepUpParams :: "jsstr \<Rightarrow> jsval" where
  "stepUpParams dg = JObj [(js ''audience'', JStr audA), (js ''request'', JObj (askedStepUp dg)), (js ''operation'', JObj shownOperation)]"

definition aResponse :: "members \<Rightarrow> members" where
  "aResponse statement = [(js ''type'', JStr APPROVE_RESPONSE), (js ''recipient'', JStr audA),
     (js ''payload'', JObj [(js ''subject'', aSubject), (js ''challenge'', JStr aChallenge), (js ''decision'', JStr (js ''approved'')),
        (js ''evidence'', JObj [(js ''kind'', JStr (js ''approverSigned'')), (js ''statement'', JObj statement)])])]"

definition aSignRequest :: "members \<Rightarrow> signRequest" where
  "aSignRequest statement = \<lparr>srOrigin = aPage, srEnvelope = JObj (aResponse statement), srAsDid = aSubject\<rparr>"

definition aConn :: pageConn where "aConn = \<lparr>pcVtaDid = js ''did:vta'', pcRestBaseUrl = None\<rparr>"

definition aSigner :: "pageConn \<Rightarrow> signRequest \<Rightarrow> jsval" where "aSigner conn req = JUndefined"

lemma asked_members:
  "getMember (askedStepUp dg) (js ''subject'') = aSubject" "getMember (askedStepUp dg) (js ''challenge'') = JStr aChallenge"
  "getMember (askedStepUp dg) (js ''reason'') = JStr []" "getMember (askedStepUp dg) (js ''boundTo'') = JStr dg"
  "getMember (askedStepUp dg) (js ''accepts'') = JArr [JStr (js ''approverSigned'')]"
  "getMember (askedStepUp dg) (js ''approvers'') = JArr [JStr anApprover]"
  by (simp_all add: askedStepUp_def getMember_Cons js_def)

lemma params_members:
  "getProp (stepUpParams dg) (js ''audience'') = JStr audA" "getProp (stepUpParams dg) (js ''request'') = JObj (askedStepUp dg)"
  "getProp (stepUpParams dg) (js ''operation'') = JObj shownOperation"
  by (simp_all add: stepUpParams_def getMember_Cons js_def)

lemma anApprover_did: "anApprover = js ''did:key:'' @ map ucast (replicate 32 (1 :: byte))"
  by (simp add: anApprover_def sampleRecord_def didKeyIds_def sampleApproverLib_def sampleCrypto_def Let_def del: replicate.simps)

lemma aPage_pin: "readOriginPin thePins aPage = Some \<lparr>pinRpDid = audA, pinBaseUrl = None\<rparr>"
  by (simp add: thePins_def pinsAfter_def pinOrigin_def readOriginPin_def readRecord_def startsWith_def getMember_Cons js_def audA_def aPage_def)

lemma aStore_approver: "stepUpApproverDid oneStore audA = Some anApprover" "nonEmptyDid (Some anApprover) = Some anApprover"
proof -
  have "approverAt oneStore audA = Some (sampleRecord 1 audA)" by (simp add: oneStore_def approverAt_put)
  then show "stepUpApproverDid oneStore audA = Some anApprover" by (simp add: stepUpApproverDid_def anApprover_def)
  show "nonEmptyDid (Some anApprover) = Some anApprover" unfolding anApprover_did by (simp add: nonEmptyDid_def js_def)
qed

lemma jsonValue_setMember:
  "jsonValue v \<Longrightarrow> jsonValue (JObj ms) \<Longrightarrow> jsonValue (JObj (setMember k v ms))"
  by (auto simp: setMember_def list_all_iff)

lemma sample_issued:
  obtains dg doc where
    "approveStepUp aWorld aPage (stepUpParams dg) =
       (SignReply (doc, anApprover), Some (stepUpIssued aPage audA (stepUpParams dg) 0 doc, doc),
        [PromptedApprover (stepUpPrompt aPage audA (stepUpParams dg) (anApprover, JStr dg)) True])"
    "getMember doc (js ''id'') = JStr (js ''urn:uuid:u'')" "jsonValue (JObj doc)"
proof -
  have e: "jcsCanonicalize (JObj []) = Inr (js ''{}'')" by (simp add: jcsCanonicalize_def js_def)
  obtain dg where dg: "domainDigest sampleCrypto VTC_STEP_UP_DOMAIN (js ''t'') (JObj []) (Some aChallenge) = Inr dg"
    using e unfolding domainDigest_Inr by blast
  have b: "isBoundTo (JStr dg)" by (rule digest_isBoundTo [OF _ dg e]) (simp add: sampleCrypto_def)
  let ?att = "\<lparr>apPurpose = JStr (js ''stepUp''), apSubject = aSubject, apAudience = JStr audA, apChallenge = JStr aChallenge, apBoundTo = JStr dg\<rparr>"
  have m: "getMember shownOperation (js ''type'') = JStr (js ''t'')" "getMember shownOperation (js ''payload'') = JObj []"
    by (simp_all add: shownOperation_def getMember_Cons js_def)
  have ne: "aSubject \<noteq> JStr anApprover" by (simp add: aSubject_def anApprover_did js_def)
  have ok: "checkAttestPayload ?att = Inr ?att"
    unfolding checkAttest_iff using b by (simp add: attestIsDid_def isChallenge_def aSubject_def audA_def aChallenge_def startsWith_def js_def)
  have "asksApprover sampleCrypto (askedStepUp dg) (JObj shownOperation) anApprover"
    unfolding asksApprover_def boundToOperation_def asked_members using m dg ne by (simp add: arrayHas_def) (simp add: js_def)
  with ok have check: "checkStepUpApproval sampleCrypto (JObj (askedStepUp dg)) (JObj shownOperation) (JStr audA) anApprover = Inr ?att"
    unfolding step_up_check_iff by (intro exI [of _ "askedStepUp dg"]) (simp only: asked_members simp_thms)
  obtain s where s: "loadStepUpApprover sampleCrypto sampleApproverLib oneStore audA gesture = Inr (Some s)" "siDid s = anApprover"
  proof -
    from opens_ensure [OF sampleCrypto_ok sampleApproverLib_ok goodEntropyOf gesture_opens [OF gesture_empty sampleCrypto_ok sampleApproverLib_ok] _ ensure_first]
    obtain r where "opensAll sampleCrypto sampleApproverLib [] oneStore" "approverAt oneStore audA = Some r" "arDid r = anApprover"
      unfolding anApprover_def by blast
    with load_opened [OF this(1,2)] that show ?thesis by auto
  qed
  let ?env = "statementEnvelope (js ''u'') 0 anApprover ?att"
  obtain doc where sg: "signTrustTask sampleCrypto 60000 ?env (siKid s) (siPrivateKey s) AUTHENTICATION DEFAULT_CLOCK_SKEW_MS = Inr doc"
    using signing_returns [OF _ _ sample_signature(1), of ?env 60000 DEFAULT_CLOCK_SKEW_MS]
    by (simp add: DEFAULT_CLOCK_SKEW_MS_def statementEnvelope_def aSubject_def) blast
  then obtain v created where doc: "doc = setMember (js ''proof'') (JObj (setMember (js ''proofValue'') (JStr v) (proofConfigOf (siKid s) created AUTHENTICATION))) ?env"
    unfolding signTrustTask_Inr by blast
  have id: "getMember doc (js ''id'') = JStr (js ''urn:uuid:u'')"
    unfolding doc by (simp add: getMember_setMember) (simp add: statementEnvelope_def getMember_Cons js_def)
  have json: "jsonValue (JObj doc)"
    unfolding doc by (intro jsonValue_setMember) (simp_all add: statementEnvelope_def proofConfigOf_def aSubject_def)
  have st: "signApproverStatement sampleCrypto (js ''u'') 0 60000 ?att anApprover (siKid s) (siPrivateKey s) = Inr doc"
    using ok sg ne [symmetric] by (simp add: signApproverStatement_def)
  have checked: "checkStepUpOp sampleCrypto oneStore (JObj (askedStepUp dg)) (JObj shownOperation) audA = Inr (anApprover, JStr dg)"
    by (simp add: checkStepUpOp_def aStore_approver check)
  have signed: "signStepUpApproval sampleCrypto sampleApproverLib (js ''u'') 0 60000 oneStore (JObj (askedStepUp dg)) (JObj shownOperation) audA gesture =
      Inr (doc, anApprover)"
    by (simp add: signStepUpApproval_def aStore_approver check signAs_def s st)
  have gate: "pageApproverAudienceRefusal aPage (readOriginPin thePins aPage) (JStr audA) = None"
    by (simp add: pageApproverAudienceRefusal_def aPage_pin)
  have "approveStepUp aWorld aPage (stepUpParams dg) =
       (SignReply (doc, anApprover), Some (stepUpIssued aPage audA (stepUpParams dg) 0 doc, doc),
        [PromptedApprover (stepUpPrompt aPage audA (stepUpParams dg) (anApprover, JStr dg)) True])"
    using gate checked signed by (simp add: approveStepUp_def params_members aWorld_def Let_def textOfVal_def)
  from that [OF this id json] show thesis .
qed

lemma same_self: "jsonValue v \<Longrightarrow> sameCanonical v v"
  using enc_returns(1) [of v] by (auto simp: sameCanonical_def jcsCanonicalize_def returns_iff)

text \<open>The document around a statement issued at time 0 is signed at time 0.\<close>

lemma response_members:
  "getMember (aResponse doc) (js ''type'') = JStr APPROVE_RESPONSE" "getMember (aResponse doc) (js ''recipient'') = JStr audA"
  "getMember (aResponse doc) (js ''proof'') = JUndefined" "getMember (aResponse doc) (js ''issuer'') = JUndefined"
  "getMember (aResponse doc) (js ''payload'') = JObj [(js ''subject'', aSubject), (js ''challenge'', JStr aChallenge),
      (js ''decision'', JStr (js ''approved'')), (js ''evidence'', JObj [(js ''kind'', JStr (js ''approverSigned'')), (js ''statement'', JObj doc)])]"
  by (simp_all add: aResponse_def getMember_Cons js_def)

lemma response_evidence:
  "evidenceOf (JObj (aResponse doc)) = JObj [(js ''kind'', JStr (js ''approverSigned'')), (js ''statement'', JObj doc)]"
  by (simp add: evidenceOf_def response_members getMember_Cons) (simp add: js_def)

lemma sample_response:
  assumes "getMember doc (js ''id'') = JStr (js ''urn:uuid:u'')" and "jsonValue (JObj doc)"
  shows "isApproverSignedResponse (JObj (aResponse doc))"
    and "session aKey = Some (stepUpIssued aPage audA (stepUpParams dg) 0 doc) \<Longrightarrow> takes 0 thePins session (aSignRequest doc) aKey"
proof -
  have "startsWith APPROVE_RESPONSE APPROVE_RESPONSE_FAMILY"
    by (simp add: startsWith_def APPROVE_RESPONSE_def APPROVE_RESPONSE_FAMILY_def SPEC_def js_def)
  then show r: "isApproverSignedResponse (JObj (aResponse doc))"
    by (simp add: isApproverSignedResponse_def response_members response_evidence getMember_Cons)
  let ?i = "stepUpIssued aPage audA (stepUpParams dg) 0 doc"
  have i: "isPurpose ?i = None" "isOrigin ?i = aPage" "isAudience ?i = audA" "isSubject ?i = aSubject" "isChallengeText ?i = JStr aChallenge"
    "isExpiresAt ?i = 300000" "isStatement ?i = JObj doc"
    by (simp_all add: stepUpIssued_def params_members asked_members Let_def aSubject_def ISSUED_STATEMENT_TTL_MS_def)
  have self: "strictEq aSubject aSubject" by (simp add: aSubject_def)
  have id: "approverResponseStatementId (JObj (aResponse doc)) = Some (js ''urn:uuid:u'')"
    unfolding approverResponseStatementId_def response_evidence using assms(1) by (simp add: getMember_Cons textId_def) (simp add: js_def textId_def)
  have "approverResponseRefusal (JObj (aResponse doc)) (Some ?i) aPage aSubject 0 = None"
    unfolding response_iff wrapsStatement_def answersStepUp_def liveFor_def
    using self same_self [OF assms(2)]
    by (intro exI [of _ "aResponse doc"] exI [of _ "[(js ''subject'', aSubject), (js ''challenge'', JStr aChallenge),
        (js ''decision'', JStr (js ''approved'')), (js ''evidence'', JObj [(js ''kind'', JStr (js ''approverSigned'')), (js ''statement'', JObj doc)])]"]
        exI [of _ "JObj doc"] exI [of _ ?i])
      (simp add: response_members i RESPONSE_MEMBERS_def getMember_Cons, simp add: js_def)
  moreover have "pageSignBindingRefusal aPage (readOriginPin thePins aPage) audA = None"
    by (simp add: pageSignBindingRefusal_def aPage_pin)
  ultimately show "takes 0 thePins session (aSignRequest doc) aKey" if "session aKey = Some ?i"
    using r that by (simp add: takes_def decideApproverResponse_def decideWrapped_Inr aSignRequest_def id statementKey_def issuedFor_def aKey_def recipientOf_def
        response_members textOfVal_def)
qed


text \<open>The page asks twice for a signature around the statement, before either call has removed it.\<close>

lemma sample_run:
  obtains i prompt doc where "isStatement i = JObj doc" "prOrigin prompt = aPage" "aroundStatement (aSignRequest doc)"
    "pageRun sampleCrypto (Map.empty(aKey := None, aKey := None)) [Sending aConn (aSignRequest doc), Sending aConn (aSignRequest doc)]
       [Effect (PromptedApprover prompt True), Effect (Remembered aKey i), Accepted aKey, Accepted aKey, Effect (Spent aKey), Effect (Spent aKey)]"
    "\<And>session calls log. pageRun sampleCrypto session calls log \<Longrightarrow>
       pageRun sampleCrypto (session(aKey \<mapsto> i)) (Spending aConn (aSignRequest doc) aKey # calls)
         (log @ [Effect (PromptedApprover prompt True), Effect (Remembered aKey i), Accepted aKey])"
proof -
  obtain dg doc where s: "approveStepUp aWorld aPage (stepUpParams dg) =
       (SignReply (doc, anApprover), Some (stepUpIssued aPage audA (stepUpParams dg) 0 doc, doc),
        [PromptedApprover (stepUpPrompt aPage audA (stepUpParams dg) (anApprover, JStr dg)) True])"
    "getMember doc (js ''id'') = JStr (js ''urn:uuid:u'')" "jsonValue (JObj doc)"
    by (rule sample_issued)
  let ?i = "stepUpIssued aPage audA (stepUpParams dg) 0 doc"
  let ?prompt = "stepUpPrompt aPage audA (stepUpParams dg) (anApprover, JStr dg)"
  let ?req = "aSignRequest doc"
  have w: "awCrypto aWorld = sampleCrypto" by (simp add: aWorld_def)
  have rem: "remember ?i doc session = (session(aKey \<mapsto> ?i), [Remembered aKey ?i])" for session
    by (simp add: remember_def s(2) aKey_def Let_def)
  note take = sample_response(2) [OF s(2,3)]
  have issue: "pageRun sampleCrypto (session(aKey \<mapsto> ?i)) calls (log @ [Effect (PromptedApprover ?prompt True), Effect (Remembered aKey ?i)])"
    if "pageRun sampleCrypto session calls log" for session calls log
    using run_remember [OF run_issue [OF that w disjI1 [OF s(1)]], of ?i doc, OF _ rem] by simp
  have more: "pageRun sampleCrypto (session(aKey \<mapsto> ?i)) (Spending aConn ?req aKey # calls)
      (log @ [Effect (PromptedApprover ?prompt True), Effect (Remembered aKey ?i), Accepted aKey])"
    if "pageRun sampleCrypto session calls log" for session calls log
    using run_accept [OF issue [OF that] take, where conn = aConn] by simp
  have spend: "spendStatement aKey session = (session(aKey := None), [Spent aKey])" for session by (simp add: spendStatement_def)
  from run_accept [OF more [OF run_start] take, where conn = aConn]
  have two: "pageRun sampleCrypto [aKey \<mapsto> ?i] [Spending aConn ?req aKey, Spending aConn ?req aKey]
      [Effect (PromptedApprover ?prompt True), Effect (Remembered aKey ?i), Accepted aKey, Accepted aKey]" by simp
  from run_spend [OF run_spend [OF two, where conn = aConn and req = ?req and k = aKey, OF _ spend], where conn = aConn and req = ?req and k = aKey, OF _ _ spend]
  have run: "pageRun sampleCrypto (Map.empty(aKey := None, aKey := None)) [Sending aConn ?req, Sending aConn ?req]
      [Effect (PromptedApprover ?prompt True), Effect (Remembered aKey ?i), Accepted aKey, Accepted aKey, Effect (Spent aKey), Effect (Spent aKey)]"
    by simp
  show thesis
    by (rule that [OF _ _ _ run more]) (use sample_response(1) [OF s(2,3)] in
      \<open>simp_all add: stepUpPrompt_def stepUpIssued_def Let_def aroundStatement_def aSignRequest_def\<close>)
qed


text \<open>Both documents are sent: one statement, two signatures.\<close>

lemma statement_spent_twice:
  "\<exists>i prompt req log. pageRun sampleCrypto (Map.empty(aKey := None, aKey := None)) [] log \<and> aroundStatement req \<and>
     log = [Effect (PromptedApprover prompt True), Effect (Remembered aKey i), Accepted aKey, Accepted aKey, Effect (Spent aKey), Effect (Spent aKey),
       Effect (SentToSign aConn req), Effect (SentToSign aConn req)]"
proof -
  obtain i prompt doc where r: "aroundStatement (aSignRequest doc)"
    "pageRun sampleCrypto (Map.empty(aKey := None, aKey := None)) [Sending aConn (aSignRequest doc), Sending aConn (aSignRequest doc)]
       [Effect (PromptedApprover prompt True), Effect (Remembered aKey i), Accepted aKey, Accepted aKey, Effect (Spent aKey), Effect (Spent aKey)]"
    by (rule sample_run) blast
  have send: "sendToSign aSigner aConn (aSignRequest doc) = (SignReply JUndefined, [SentToSign aConn (aSignRequest doc)])"
    by (simp add: sendToSign_def aSigner_def)
  from run_send [OF run_send [OF r(2), where conn = aConn and req = "aSignRequest doc", OF _ send], where conn = aConn and req = "aSignRequest doc", OF _ _ send] r(1)
  show ?thesis by auto
qed

lemma signed_response_was_shown_witness:
  "\<exists>session calls doc u v y k i prompt.
     pageRun sampleCrypto session calls (u @ Effect (Remembered k i) # v @ Accepted k # y @ [Effect (SentToSign aConn (aSignRequest doc))]) \<and>
     Effect (PromptedApprover prompt True) \<in> set u \<and> promptFor sampleCrypto i prompt \<and> prOrigin prompt = aPage \<and>
     sameCanonical (JObj doc) (isStatement i)"
proof -
  obtain i0 prompt0 doc where r: "aroundStatement (aSignRequest doc)"
    "pageRun sampleCrypto (Map.empty(aKey := None, aKey := None)) [Sending aConn (aSignRequest doc), Sending aConn (aSignRequest doc)]
       [Effect (PromptedApprover prompt0 True), Effect (Remembered aKey i0), Accepted aKey, Accepted aKey, Effect (Spent aKey), Effect (Spent aKey)]"
    by (rule sample_run) blast
  let ?log = "[Effect (PromptedApprover prompt0 True), Effect (Remembered aKey i0), Accepted aKey, Accepted aKey, Effect (Spent aKey), Effect (Spent aKey)]"
  have send: "sendToSign aSigner aConn (aSignRequest doc) = (SignReply JUndefined, [SentToSign aConn (aSignRequest doc)])"
    by (simp add: sendToSign_def aSigner_def)
  from run_send [OF r(2), where conn = aConn and req = "aSignRequest doc", OF _ send]
  have run: "pageRun sampleCrypto (Map.empty(aKey := None, aKey := None)) [Sending aConn (aSignRequest doc)]
      (?log @ Effect (SentToSign aConn (aSignRequest doc)) # [])" by simp
  from signed_response_was_shown [OF run refl r(1)] obtain u v y k i prompt p where
    s: "?log = u @ Effect (Remembered k i) # v @ Accepted k # y" "sessionAfter (u @ Effect (Remembered k i) # v) k = Some i"
    "Effect (PromptedApprover prompt True) \<in> set u" "promptFor sampleCrypto i prompt" "prOrigin prompt = srOrigin (aSignRequest doc)"
    "getProp (srEnvelope (aSignRequest doc)) (js ''payload'') = JObj p"
    "sameCanonical (getProp (getMember p (js ''evidence'')) (js ''statement'')) (isStatement i)" by blast
  have "getProp (getMember p (js ''evidence'')) (js ''statement'') = JObj doc"
    using s(6) response_evidence [of doc] by (simp add: evidenceOf_def aSignRequest_def getMember_Cons) (simp add: js_def)
  with s(7) have "sameCanonical (JObj doc) (isStatement i)" by simp
  moreover from run [unfolded s(1)] have "pageRun sampleCrypto (Map.empty(aKey := None, aKey := None)) [Sending aConn (aSignRequest doc)]
      (u @ Effect (Remembered k i) # v @ Accepted k # y @ [Effect (SentToSign aConn (aSignRequest doc))])" by simp
  moreover have "prOrigin prompt = aPage" using s(5) by (simp add: aSignRequest_def)
  ultimately show ?thesis using s(3,4) by blast
qed

end
