(* ===== verification/Spec2Isabelle.thy ===== *)
theory Spec2Isabelle
  imports Rel_Store Tsp_Route Inbound Reconnect Pages Base64url Egress Sealed_Bundle Jcs Base58 Digests Step_Up Tsp_Channel Vta_Session Tsp_Demux Trigger_Link Consent_Replay Page_Statements
begin

text \<open>
  \<^bold>\<open>A verification library for the OpenVTC browser plugin\<close>

  The repository holds a wallet for the browser: \<^verbatim>\<open>packages/tsp-js\<close> is a codec and cryptographic
  implementation of the Trust Spanning Protocol (TSP), \<^verbatim>\<open>packages/core\<close> the wallet's logic (transport,
  relationships, inbound tasks, stores, DID resolution), and \<^verbatim>\<open>packages/extension\<close> the browser
  extension around it. This library translates the logic of the first two packages, and of the part of
  the third that decides what a web page may have signed, into HOL functions and proves what makes it
  correct. All paths below are under \<^verbatim>\<open>src/packages/\<close>.

  \<^bold>\<open>How the code is modelled.\<close> Byte arrays are lists of \<open>8 word\<close>, strings are lists of UTF-16 code units
  (\<open>16 word\<close>), \<open>Map\<close> and the stores are association lists or partial functions, exceptions are the left
  side of a sum whose values carry the messages the code throws, and promises are the values they
  resolve to. Where two asynchronous calls can interleave (the pending list, a handshake beside other
  writers, the timers of the scheduler) the interleaving is an explicit sequence of steps. Random bytes
  (nonces, ephemeral keys) are arguments. Code that is not in the repository is a parameter: the
  primitives of the @noble packages are the record \<open>crypto\<close> with the laws \<open>cryptoOk\<close>, the digest of a
  trust-task document, the URL parser, \<open>JSON.parse\<close> and Unicode normalisation are functions.

  \<^bold>\<open>The theories, in the order they build on each other.\<close>

  \<^item> \<open>Prelude\<close>: results, guards (\<open>bindE\<close>, \<open>throwIf\<close>, \<open>orThrow\<close>), slices, decimal numerals.
  \<^item> \<open>Codec\<close>: a locale for encoders whose decoder reads their output back at an offset, and the lemmas
    on sequences of fields that follow; interpreted on the field codecs below.
  \<^item> \<open>Js_Text\<close>, \<open>Js_Strings\<close>, \<open>Js_Json\<close>: the parts of the language's library the code rests on, as the
    standard describes them: UTF-8 encoding and fatal decoding, \<open>split\<close>, \<open>trim\<close>, \<open>JSON.stringify\<close> of a string.
  \<^item> \<open>Cesr_Wire\<close> (\<^verbatim>\<open>tsp-js/src/cesr/wire.ts\<close>): count codes, fixed and variable fields. The lemmas show
    round trips, that a decoder stays inside its input, and that encodings are unambiguous.
  \<^item> \<open>Tsp_Fields\<close>, \<open>Tsp_Control\<close>, \<open>Tsp_Payload\<close>, \<open>Tsp_Envelope\<close>, \<open>Tsp_Direct\<close> (\<^verbatim>\<open>tsp-js/src/v1/*.ts\<close>):
    hop lists, digests and attachments, control messages, payload frames, the envelope, and sealing,
    signing and opening a message.
  \<^item> \<open>Hpke\<close> (\<^verbatim>\<open>tsp-js/src/crypto\<close>): HPKE of RFC 9180 from X25519, HKDF and ChaCha20-Poly1305, in base and
    auth mode, with raw keys and with key capabilities; \<open>sampleCrypto\<close> is an instance of the laws.
  \<^item> \<open>Tsp_Message\<close>, \<open>Tsp_Route\<close> (\<^verbatim>\<open>tsp-js/src/message\<close>, \<^verbatim>\<open>tsp-js/src/revision.ts\<close>): the public layer: the
    version gate, routed and nested packing, the next hop.
  \<^item> \<open>Tsp_Relationship\<close> (\<^verbatim>\<open>tsp-js/src/relationship.ts\<close>): the transition table of SPEC 7, the invite race,
    and when an accept or a cancellation is honoured.
  \<^item> \<open>Rel_Store\<close> (\<^verbatim>\<open>core/src/vta/tsp-relationship.ts\<close>): the record store (a locale of its laws,
    interpreted on the in-memory store), the handshake \<open>ensureRelationship\<close>, and inbound control messages, each in the
    parts between which it waits; \<open>rel_run\<close> interleaves them.
  \<^item> \<open>Kv_Store\<close> (\<^verbatim>\<open>core/src/store/kv-store.ts\<close>) and \<open>Inbound\<close> (\<^verbatim>\<open>core/src/inbound/dedup.ts\<close>,
    \<^verbatim>\<open>pending.ts\<close>): the two stores, and the claims and pending messages kept in them. Claiming is proved
    against the specification machine \<open>claimSpec\<close>.
  \<^item> \<open>Reconnect\<close> (\<^verbatim>\<open>core/src/inbound/reconnect.ts\<close>), \<open>Pages\<close> (\<^verbatim>\<open>core/src/util/pages.ts\<close>), \<open>Base64url\<close>
    (\<^verbatim>\<open>core/src/util/base64url.ts\<close>): the retry scheduler as a step relation, paged listings, base64url.
  \<^item> \<open>Ip_Address\<close>, \<open>Egress\<close> (\<^verbatim>\<open>core/src/did/egress-guard.ts\<close>): which hosts DID resolution may contact.
  \<^item> \<open>Crc24\<close>, \<open>Armor\<close>, \<open>Armor_Text\<close>, \<open>Sealed_Bundle\<close> (\<^verbatim>\<open>core/src/provision\<close>: \<^verbatim>\<open>crc24.ts\<close>, \<^verbatim>\<open>armor.ts\<close>,
    \<^verbatim>\<open>hpke.ts\<close>, \<^verbatim>\<open>open.ts\<close>): the armored bundles in which a fresh identity arrives: checksum, parser,
    associated data, decryption on top of \<open>Hpke\<close>, reassembly. \<open>Armor_Text\<close> holds the encoder the
    format's description defines, against which the parser is proved.
  \<^item> \<open>Jcs\<close>, \<open>Base58\<close> (\<^verbatim>\<open>core/src/trust-tasks/canonical.ts\<close>): the canonical JSON that signatures are made
    over and the multibase digits they are written in; the form determines the value, the digits the bytes.
  \<^item> \<open>Js_Object\<close>: members of an object as an ordered list, reading, writing and deleting them, truthiness,
    \<open>toISOString\<close>.
  \<^item> \<open>Data_Integrity\<close>, \<open>Digests\<close> (\<^verbatim>\<open>core/src/trust-tasks\<close>: \<^verbatim>\<open>sign.ts\<close>, \<^verbatim>\<open>verify.ts\<close>, \<^verbatim>\<open>purpose.ts\<close>,
    \<^verbatim>\<open>domain-digest.ts\<close>, \<^verbatim>\<open>digest.ts\<close>): proofs on documents, which are accepted exactly when they are
    signatures by a listed key, and the digests a decision is bound to. Resolving a DID, decoding a
    multikey and the helpers of the did:scid package are the record \<open>didLib\<close>, the base-N decoders of
    @scure/base the record \<open>baseLib\<close>.
  \<^item> \<open>Trust_Task\<close> (\<^verbatim>\<open>core/src/vta\<close>: \<^verbatim>\<open>trust-task.ts\<close>, \<^verbatim>\<open>protocol.ts\<close>, \<^verbatim>\<open>budget.ts\<close>, the codes of
    \<^verbatim>\<open>errors.ts\<close>; \<^verbatim>\<open>core/src/trust-tasks/validate.ts\<close>): the document every operation travels in: built,
    completed, signed, sent, and the reading of a reply. Status codes are the record \<open>codeLib\<close>.
  \<^item> \<open>Task_Consent\<close> (\<^verbatim>\<open>core/src/inbound/task-consent.ts\<close>), \<open>Step_Up\<close> (\<^verbatim>\<open>core/src/vta/step-up.ts\<close>): what must
    hold before a human is asked, the signed answer, and whose reply to it is believed. The published
    schemas, their validator and \<open>new Date\<close> are the record \<open>consentLib\<close>.
  \<^item> \<open>Tsp_Binding\<close>, \<open>Tsp_Channel\<close> (\<^verbatim>\<open>core/src/vta\<close>: \<^verbatim>\<open>tsp-binding.ts\<close>, \<^verbatim>\<open>tsp-inbound.ts\<close>,
    \<^verbatim>\<open>tsp-channel.ts\<close>): trust tasks over TSP, on top of everything above: unasked frames, requests, the
    cache of opened frames, and what a result proves. \<open>JSON.parse\<close> is a function argument.
  \<^item> \<open>Http_Reply\<close>, \<open>Rest_Channel\<close> (\<^verbatim>\<open>core/src/vta\<close>: \<^verbatim>\<open>errors.ts\<close>, \<^verbatim>\<open>http-reply.ts\<close>, \<^verbatim>\<open>endpoint.ts\<close>,
    \<^verbatim>\<open>auth.ts\<close>, \<^verbatim>\<open>auth-tasks.ts\<close>, \<^verbatim>\<open>rest-channel.ts\<close>): trust tasks over HTTP: typed errors, the endpoint, the
    sign-in and its token, and what a post puts on the wire. The far side is a function of all requests made
    so far, as are the clock and the random ids; callers run one after the other.
  \<^item> \<open>Vta_Session\<close> (\<^verbatim>\<open>core/src/vta/session.ts\<close>): the order of transports and the fallback between them. The
    locale \<open>declining_unsent\<close> states what the fallback needs of a channel, that one which declines a task has
    sent nothing; it is interpreted on the TSP and REST channels above.
  \<^item> \<open>Tsp_Demux\<close> (\<^verbatim>\<open>core/src/didcomm/index.ts\<close>, the TSP part): requests waiting on one socket, with frames, answers,
    timeouts and closing as steps in any order.
  \<^item> \<open>Link_Text\<close>, \<open>Trigger_Link\<close> (\<^verbatim>\<open>core/src/links/trigger-link.ts\<close>): the links a service shows to be
    scanned. \<open>Link_Text\<close> holds the lexical layer (form decoding, hosts, handles, expiry, DID and flow
    syntax), \<open>Trigger_Link\<close> the reader with its tables of contact methods and flows: which texts are
    accepted, that what a service prints is read back, and what a sign-in link guarantees.
  \<^item> \<open>Consent_Replay\<close> (\<^verbatim>\<open>extension/src/consent-replay.ts\<close>): the ledger of requests the agent refused
    pending consent; a request passes without a prompt only after its own refusal and a later grant.
  \<^item> \<open>Page_Policy\<close> (\<^verbatim>\<open>extension/src/page-task-policy.ts\<close>, \<^verbatim>\<open>origin-pin.ts\<close>): what a page may ask for,
    and the relying party its origin is pinned to, explained by the history of approved logins.
  \<^item> \<open>Approver_Policy\<close>, \<open>Approver_Attest\<close>, \<open>Approver_Store\<close> (\<^verbatim>\<open>extension/src/approver-policy.ts\<close>,
    \<^verbatim>\<open>core/src/trust-tasks/approver-attest.ts\<close>, \<^verbatim>\<open>core/src/store/step-up-approver.ts\<close>,
    \<^verbatim>\<open>secret-wrap.ts\<close>, \<^verbatim>\<open>approver-prf-wrap.ts\<close>): the second key that vouches for one operation: its
    statements, the documents that may carry them, and its per-audience records. The store is the key/value
    store of \<open>Kv_Store\<close>; its reachable states are inductive predicates.
  \<^item> \<open>Page_Signing\<close>, \<open>Page_Statements\<close> (\<^verbatim>\<open>extension/src/background.ts\<close>, \<^verbatim>\<open>offscreen.ts\<close>): the signing calls
    of pages over all of the above, and the interleaved runs of such calls, cut where the handlers wait: a
    document around a statement is sent only for what the human approved, and a statement that is gone stays
    gone. The last part of \<open>Page_Statements\<close> shows two overlapping calls spending one statement.

  \<^bold>\<open>This theory\<close> holds the properties that span components: from packing over sealing, signing and
  framing to the message the other side reports, and what an accepted message proves.

  \<^bold>\<open>Bounds.\<close> No definition runs on fuel: every loop of the source is bounded by its data and is a
  recursive function here, the paged listing by \<open>maxPages\<close>. Numbers are natural numbers or integers where
  the source keeps them exact below \<open>2 ^ 53\<close>; the 32-bit operators of the source are written out
  (\<open>toUint32\<close>, \<open>AND\<close>, \<open>push_bit\<close>). Sizes are those of the source (\<open>MAX_FIELD_SIZE\<close>, \<open>MAX_HOPS\<close>,
  \<open>MAX_CLAIMS\<close>, \<open>MAX_PENDING\<close>).

  \<^bold>\<open>Not modelled.\<close> The generated request and response types under \<^verbatim>\<open>core/src/specs\<close>, the clients that
  only build such requests, rooms, DIDComm and credential packages outside the repository, the user
  interface, message passing and platform calls of the extension, the handlers of its service worker and
  offscreen document other than those of \<open>Page_Signing\<close>, and the demonstration applications. The
  manifest lists every part with its state.
\<close>

section \<open>Messages between two parties\<close>

text \<open>C1: An application message the wire format can carry comes back from the public \<open>unpack\<close> with the matching keys as
  \<open>packWithHops\<close> packed it - direct, nested or routed: the body byte for byte, both identifiers, the hops, and the thread digest
  the sender was handed. What the format can carry: identifiers of well-formed text with no leading byte order mark, the
  sender's not empty (\<open>vidOk\<close>); at most \<open>MAX_HOPS\<close> hops of such identifiers within the field size; the body of a nested or routed message a
  multiple of three bytes, as packed messages are (\<open>appOk\<close>); and a frame of at most \<open>MAX_FRAME\<close> bytes. The keys have 32 bytes, the primitives invert each
  other and the exchange is not degenerate (\<open>exchangeOk\<close>). \<open>packWithHops\<close> does not check all of this: it packs a route of more hops, which
  \<open>unpack\<close> refuses (\<open>too_many_hops_packed\<close>).\<close>

theorem app_message_roundtrip:
  assumes "exchangeOk C eph ssk rsk" and "appOk kind hops body s" and "vidOk r"
    and "length (appFrame kind hops body s) \<le> MAX_FRAME"
  shows "\<exists>p. packWithHops C eph body kind hops s r (packKeysFor C ssk rsk) None = Inr p \<and>
    packedThread p = sha256 C (appFrame kind hops body s) \<and>
    unpack C (packedBytes p) (unpackKeysFor C ssk rsk) = Inr
      \<lparr>msgPayload = body, msgSender = s, msgReceiver = r, msgType = decodedKind kind hops,
       msgControl = None, msgHops = decodedHops kind hops, msgThread = packedThread p\<rparr>"
  using assms by (rule app_roundtrip)

theorem app_message_roundtrip_witness:
  "\<exists>p. packWithHops sampleCrypto (sampleKey 1) [1, 2, 3] AppDirect [] sampleA sampleB
      (packKeysFor sampleCrypto (sampleKey 2) (sampleKey 3)) None = Inr p \<and>
    unpack sampleCrypto (packedBytes p) (unpackKeysFor sampleCrypto (sampleKey 2) (sampleKey 3)) = Inr
      \<lparr>msgPayload = [1, 2, 3], msgSender = sampleA, msgReceiver = sampleB, msgType = Direct,
       msgControl = None, msgHops = [], msgThread = packedThread p\<rparr>"
  using app_message_roundtrip [OF sampleKey_exchange sampleApp(1) sampleVids(4) sampleApp(2), of 1 2 3]
  by auto

text \<open>C2: A message that \<open>unpack\<close> accepts is authentic as a whole: a signature of the expected sender
  covers every byte up to the end of the ciphertext and the frame of that signature ends the message,
  the ciphertext opens under the receiver's key with the version and both identifiers as associated
  data, the sender inside the sealed frame is the sender of the envelope and not empty, and every
  reported field comes from that frame.\<close>

theorem unpack_authenticates:
  assumes "unpack C w keys = Inr m"
  shows "\<exists>e sig b frame d. decodeEnvelope w = Inr e \<and>
    msgSender m = envSender (decEnvelope e) \<and> msgReceiver m = envReceiver (decEnvelope e) \<and> msgSender m \<noteq> [] \<and>
    decodeSignatureFrame w (contentEnd e) = Inr (sig, length w) \<and>
    verify C (slice w 0 (contentEnd e)) sig (senderSigningPk keys) \<and>
    decodeVariableDataRange TSP_HPKE_BASE_CIPHERTEXT w (headerLen e) = Some ((b, contentEnd e), contentEnd e) \<and>
    openBase C (drop 32 (slice w b (contentEnd e))) (slice w (aadBegin e) (aadEnd e))
      (take 32 (slice w b (contentEnd e))) (receiverDecryptionSk keys) TSP_INFO = Inr frame \<and>
    decodePayloadFrame (sha256 C) frame (msgSender m) (slice w (aadBegin e) (aadEnd e)) = Inr d \<and>
    frameSender d = msgSender m \<and> msgPayload m = frameBody d \<and> msgType m = frameKind d \<and>
    msgControl m = frameControl d \<and> msgHops m = frameHops d \<and> msgThread m = frameThread d"
  using unpack_facts [OF assms] by metis

theorem unpack_authenticates_witness:
  "\<exists>m e sig. unpack sampleCrypto sampleWire sampleUnpackKeys = Inr m \<and>
     decodeEnvelope sampleWire = Inr e \<and>
     verify sampleCrypto (slice sampleWire 0 (contentEnd e)) sig (senderSigningPk sampleUnpackKeys)"
  using sampleWire_unpacks unpack_authenticates [of sampleCrypto sampleWire sampleUnpackKeys] by blast

text \<open>An invite, accept or cancellation that \<open>packControl\<close> packs is unpacked to the same control
  message, to which the digest of the message itself has been added; for an invite and an accept it
  is the thread the sender was handed, so both ends name the relationship by the same digest.\<close>

theorem control_message_roundtrip:
  assumes "exchangeOk C eph ssk rsk" and "controlOk c" and "vidOk s" and "s \<noteq> []" and "vidOk r"
    and "length (controlFrame (sha256 C) c s (envelopeFields s r)) \<le> MAX_FRAME"
  shows "\<exists>p. packControl C eph c s r (packKeysFor C ssk rsk) None = Inr p \<and>
    unpack C (packedBytes p) (unpackKeysFor C ssk rsk) = Inr
      \<lparr>msgPayload = [], msgSender = s, msgReceiver = r, msgType = Control,
       msgControl = Some (asDecoded c (packedThread p)), msgHops = [], msgThread = packedThread p\<rparr>"
  using assms by (rule control_roundtrip)

theorem control_message_roundtrip_witness:
  "\<exists>p. packControl sampleCrypto (sampleKey 1) sampleInvite sampleA sampleB
      (packKeysFor sampleCrypto (sampleKey 2) (sampleKey 3)) None = Inr p \<and>
    (\<exists>m. unpack sampleCrypto (packedBytes p) (unpackKeysFor sampleCrypto (sampleKey 2) (sampleKey 3)) = Inr m \<and>
      msgType m = Control)"
  using control_message_roundtrip [OF sampleKey_exchange sampleInvite_ok(1) sampleVids(3) sampleA_ne
      sampleVids(4) sampleInvite_ok(2), of 1 2 3]
  by fastforce

text \<open>A message sent through an intermediary arrives: the wallet seals it to the recipient and
  seals the result to the intermediary under a one-hop route; the intermediary opens only the outer
  layer, and the next step it reads off is to forward the inner bytes, unchanged, to the recipient,
  who opens them to the original body from the original sender.\<close>

theorem delivery_through_intermediary:
  assumes "exchangeOk C eph1 ssk vsk" and "exchangeOk C eph2 ssk msk"
    and "vidShort w" and "vidShort m" and "vidShort vta" and "length body \<le> 2 ^ 20"
  shows "\<exists>inner outer atMediator. pack C eph1 body w vta (packKeysFor C ssk vsk) None = Inr inner \<and>
    packRouted C eph2 (packedBytes inner) [vta] w m (packKeysFor C ssk msk) = Inr outer \<and>
    unpack C (packedBytes outer) (unpackKeysFor C ssk msk) = Inr atMediator \<and>
    nextHop (msgHops atMediator) (msgPayload atMediator) = Forward vta [] (packedBytes inner) \<and>
    unpack C (packedBytes inner) (unpackKeysFor C ssk vsk) = Inr
      \<lparr>msgPayload = body, msgSender = w, msgReceiver = vta, msgType = Direct,
       msgControl = None, msgHops = [], msgThread = packedThread inner\<rparr>"
  using delivery [OF assms] by metis

theorem delivery_through_intermediary_witness:
  "\<exists>inner outer. pack sampleCrypto (sampleKey 1) [4, 5] sampleA sampleB
      (packKeysFor sampleCrypto (sampleKey 2) (sampleKey 3)) None = Inr inner \<and>
    packRouted sampleCrypto (sampleKey 6) (packedBytes inner) [sampleB] sampleA sampleB
      (packKeysFor sampleCrypto (sampleKey 2) (sampleKey 7)) = Inr outer"
  using delivery_through_intermediary [OF sampleKey_exchange sampleKey_exchange sampleVids(1,2,2),
      of "[4, 5]" 1 2 3 6 7]
  by auto

text \<open>A relay that holds no key reads the sender and the receiver of every packed message with the
  public \<open>decodeEnvelope\<close>, and the message declares version 1.0.\<close>

theorem relay_reads_envelope:
  assumes "exchangeOk C eph ssk rsk" and "vidOk s" and "s \<noteq> []" and "vidOk r" and "length frame \<le> MAX_FRAME"
  shows "\<exists>w h. sealFrame C eph (envelopeFields s r) frame (packKeysFor C ssk rsk) None = Inr w \<and>
    isTsp w \<and> decodeEnvelopePublic w =
      Inr \<lparr>pubEnvelope = \<lparr>envSender = s, envReceiver = r\<rparr>, pubHeaderLen = h, pubMinor = 0\<rparr>"
  using sealFrame_message [OF assms(1)] envelope_of_message [OF assms]
    messageOfFrame_gate(1) [OF assms(1,2,4,5)] by auto

theorem relay_reads_envelope_witness:
  "\<exists>w e. sealFrame sampleCrypto (sampleKey 1) (envelopeFields sampleA sampleB) [1, 2, 3]
      (packKeysFor sampleCrypto (sampleKey 2) (sampleKey 3)) None = Inr w \<and>
    decodeEnvelopePublic w = Inr e \<and> pubEnvelope e = \<lparr>envSender = sampleA, envReceiver = sampleB\<rparr>"
  using relay_reads_envelope [OF sampleKey_exchange sampleVids(3) sampleA_ne sampleVids(4),
      of "[1, 2, 3]" 1 2 3]
  by (fastforce simp: MAX_FRAME_def)

text \<open>An invite that is unpacked names itself: the digest it is filed under is the SHA-256 that its
  own envelope, sender field and contents (nonce, reply route and referral) hash to, with the digest
  field blanked, its nonce has 16 bytes and its reply route no more hops than the bound.\<close>

theorem invite_self_addressed:
  assumes "unpack C w keys = Inr m" and "msgControl m = Some c" and "controlType c = Invite"
  shows "msgType m = Control \<and> ownDigest c = Some (msgThread m) \<and>
    (\<exists>e senderField n a. decodeEnvelope w = Inr e \<and> inviteNonce c = Some n \<and> length n = 16 \<and>
      length (replyRoute c) \<le> MAX_HOPS \<and> inviteDigestAfter n (replyRoute c) (inviteReferral c) = Inr a \<and>
      msgThread m = deriveSaid (sha256 C) (slice w (aadBegin e) (aadEnd e)) XRFI senderField a)"
proof -
  from unpack_facts [OF assms(1)] obtain e frame d where
    e: "decodeEnvelope w = Inr e"
      "decodePayloadFrame (sha256 C) frame (msgSender m) (slice w (aadBegin e) (aadEnd e)) = Inr d"
      "msgType m = frameKind d" "msgControl m = frameControl d" "msgThread m = frameThread d" by metis
  with assms(2) have "frameControl d = Some c" by simp
  from decodePayloadFrame_control_cases [OF e(2) this] obtain p1 sf where
    b: "decodeControlBody (sha256 C) Invite frame p1 sf (slice w (aadBegin e) (aadEnd e)) = Inr (c, frameThread d)"
      "frameKind d = Control" "ownDigest c = Some (frameThread d)" using assms(3) by metis
  from decodeControlBody_said [OF b(1)] show ?thesis using e b(2,3) by metis
qed

theorem invite_self_addressed_witness:
  "\<exists>m c n. unpack sampleCrypto sampleInviteWire sampleUnpackKeys = Inr m \<and> msgControl m = Some c \<and>
     ownDigest c = Some (msgThread m) \<and> inviteNonce c = Some n \<and> length n = 16"
  using sampleInviteWire_unpacks invite_self_addressed [of sampleCrypto sampleInviteWire sampleUnpackKeys] by blast

text \<open>An accept that is unpacked names itself and the invite it answers: its digest is the hash of its
  own envelope, sender field and the 32-byte digest of the invite, so the answered digest cannot be
  exchanged without the accept changing its own name.\<close>

theorem accept_self_addressed:
  assumes "unpack C w keys = Inr m" and "msgControl m = Some c" and "controlType c = Accept"
  shows "msgType m = Control \<and> ownDigest c = Some (msgThread m) \<and>
    (\<exists>e senderField answered. decodeEnvelope w = Inr e \<and> inReplyTo c = Some answered \<and> length answered = 32 \<and>
      msgThread m = deriveSaid (sha256 C) (slice w (aadBegin e) (aadEnd e)) XRFA
        (senderField @ encodeFixedData TSP_SHA256 answered) [])"
proof -
  from unpack_facts [OF assms(1)] obtain e frame d where
    e: "decodeEnvelope w = Inr e"
      "decodePayloadFrame (sha256 C) frame (msgSender m) (slice w (aadBegin e) (aadEnd e)) = Inr d"
      "msgType m = frameKind d" "msgControl m = frameControl d" "msgThread m = frameThread d" by metis
  with assms(2) have "frameControl d = Some c" by simp
  from decodePayloadFrame_control_cases [OF e(2) this] obtain p1 sf where
    b: "decodeControlBody (sha256 C) Accept frame p1 sf (slice w (aadBegin e) (aadEnd e)) = Inr (c, frameThread d)"
      "frameKind d = Control" "ownDigest c = Some (frameThread d)" using assms(3) by metis
  from decodeControlBody_said_accept [OF b(1)] show ?thesis using e b(2,3) by metis
qed

theorem accept_self_addressed_witness:
  "\<exists>m c d. unpack sampleCrypto sampleAcceptWire sampleUnpackKeys = Inr m \<and> msgControl m = Some c \<and>
     ownDigest c = Some (msgThread m) \<and> inReplyTo c = Some d \<and> length d = 32"
  using sampleAcceptWire_unpacks accept_self_addressed [of sampleCrypto sampleAcceptWire sampleUnpackKeys] by blast

text \<open>The hops of a message that unpacks are at most \<open>MAX_HOPS\<close>, but \<open>packWithHops\<close> does not hold to the
  bound: a route of more hops is packed without complaint and the library's own \<open>unpack\<close> then refuses
  the message.\<close>

theorem too_many_hops_packed:
  assumes "exchangeOk C eph ssk rsk" and "vidOk s" and "s \<noteq> []" and "vidOk r"
    and "list_all vidOk hops" and "MAX_HOPS < length hops" and "3 dvd length body"
    and "length (appFrame AppRouted hops body s) \<le> MAX_FRAME"
  shows "\<exists>p. packWithHops C eph body AppRouted hops s r (packKeysFor C ssk rsk) None = Inr p \<and>
    unpack C (packedBytes p) (unpackKeysFor C ssk rsk) = Inl (JsError ''tsp: too many hops'')"
  using too_many_hops [OF assms] by metis

theorem too_many_hops_packed_witness:
  "\<exists>p. packWithHops sampleCrypto (sampleKey 1) [] AppRouted (replicate 65 sampleB) sampleA sampleB
      (packKeysFor sampleCrypto (sampleKey 2) (sampleKey 3)) None = Inr p \<and>
    unpack sampleCrypto (packedBytes p) (unpackKeysFor sampleCrypto (sampleKey 2) (sampleKey 3)) =
      Inl (JsError ''tsp: too many hops'')"
  using too_many_hops_packed [OF sampleKey_exchange sampleVids(3) sampleA_ne sampleVids(4) sample_hops_ok
      _ many_hops_frame, of 1 2 3] by simp

text \<open>An ordinary parse error is reported only about a frame of the version the library speaks: when
  \<open>unpack\<close> fails and the error is not the one that names the versions, the bytes are a TSP frame that
  declares 1.0 and the error is that of its parser. In particular no frame of an unknown MINOR is
  reported as malformed.\<close>

theorem parse_errors_only_of_known_version:
  assumes "unpack C w keys = Inl err" and "\<not> isRevisionError err"
  shows "isTsp w \<and> (\<exists>p. peekRevision w = Inr p \<and> peekMajor p = 1 \<and> peekMinor p = 0) \<and>
    unpackV1 C w keys = Inl err"
proof (cases "peekRevision w")
  case (Inl e)
  with assms peekRevision_error show ?thesis by (auto simp: unpack_def)
next
  case (Inr p)
  have "peekMinor p = 0" using unpack_unrecognised [OF Inr _ assms(1)] assms(2) by blast
  with Inr peekRevision_facts [OF Inr] assms(1) show ?thesis
    by (auto simp: unpack_def split: sum.splits)
qed

theorem parse_errors_only_of_known_version_witness:
  "\<exists>w. unpack sampleCrypto w (unpackKeysFor sampleCrypto (sampleKey 2) (sampleKey 3)) =
      Inl (JsError ''tsp: too many hops'') \<and> isTsp w"
proof -
  from too_many_sample obtain w where w:
    "unpack sampleCrypto w (unpackKeysFor sampleCrypto (sampleKey 2) (sampleKey 3)) = Inl (JsError ''tsp: too many hops'')"
    by blast
  from parse_errors_only_of_known_version [OF w] w show ?thesis by (auto simp: isRevisionError_def)
qed

end
